(* ===== verification/Prelude.thy ===== *)
theory Prelude
  imports Complex_Main "HOL-Library.Sublist" "HOL-Library.Multiset" "HOL-Library.Word"
begin

text \<open>
  Shared vocabulary of the development: the fact collections the component
  theories fill, the generic facts on lists, sorting, option values and
  integer bounds they share, and the contract (a locale) of a projection:
  an operation that maps any input into a set of well-formed values and
  leaves well-formed values alone. The sanitisers and normalisers of the
  panel are all of that kind.
\<close>

section \<open>Fact collections\<close>

named_theorems js_eval "equations that evaluate the JavaScript primitives"
named_theorems js_bounds "length and magnitude bounds of sanitised values"
named_theorems js_wf "well-formedness facts of component states"

section \<open>Lists\<close>

lemma length_filter_le_trans [intro]: "length xs \<le> n \<Longrightarrow> length (filter P xs) \<le> n"
  using length_filter_le le_trans by blast

lemma take_le_id [simp]: "take n (take n xs) = take n xs"
  by simp

lemma list_all_takeI: "list_all P xs \<Longrightarrow> list_all P (take n xs)"
  by (auto simp: list_all_iff dest: in_set_takeD)

lemma list_all_dropI: "list_all P xs \<Longrightarrow> list_all P (drop n xs)"
  by (auto simp: list_all_iff dest: in_set_dropD)

lemma distinct_map_dropI: "distinct (map f xs) \<Longrightarrow> distinct (map f (drop n xs))"
  by (simp add: drop_map [symmetric] distinct_drop)

lemma sorted_wrt_dropI: "sorted_wrt P xs \<Longrightarrow> sorted_wrt P (drop n xs)"
  by (rule sorted_wrt_drop)

lemma mem_map_filter: "y \<in> set (List.map_filter f xs) \<longleftrightarrow> (\<exists>x\<in>set xs. f x = Some y)"
  by (force simp: map_filter_def)

lemma length_map_filter_le [js_bounds]: "length (List.map_filter f xs) \<le> length xs"
  by (induction xs) (auto split: option.split)

text \<open>JavaScript's \<open>xs.slice(-n)\<close> for a positive \<open>n\<close>: the last \<open>n\<close> elements.\<close>

definition slice_last :: "nat \<Rightarrow> 'a list \<Rightarrow> 'a list" where
  "slice_last n xs = drop (length xs - n) xs"

lemma length_slice_last [simp, js_bounds]: "length (slice_last n xs) = min n (length xs)"
  by (simp add: slice_last_def)

lemma slice_last_short [simp]: "length xs \<le> n \<Longrightarrow> slice_last n xs = xs"
  by (simp add: slice_last_def)

lemma slice_last_Nil [simp]: "slice_last n [] = []"
  by (simp add: slice_last_def)

lemma set_slice_last: "set (slice_last n xs) \<subseteq> set xs"
  by (auto simp: slice_last_def dest: in_set_dropD)

lemma slice_last_nonempty: "0 < n \<Longrightarrow> xs \<noteq> [] \<Longrightarrow> slice_last n xs \<noteq> []"
  by (cases xs) (simp_all add: slice_last_def)

lemma last_slice_last: "0 < n \<Longrightarrow> xs \<noteq> [] \<Longrightarrow> last (slice_last n xs) = last xs"
  by (simp add: slice_last_def)

lemma slice_last_idem [simp]: "slice_last n (slice_last n xs) = slice_last n xs"
  by simp

text \<open>A list strictly sorted by a key is its own (stable) sort.\<close>

lemma sort_key_strict_id:
  "sorted_wrt (\<lambda>x y. f x < f y) xs \<Longrightarrow> sort_key f xs = xs"
proof (rule sort_key_id_if_sorted)
  assume "sorted_wrt (\<lambda>x y. f x < f y) xs"
  then show "sorted (map f xs)"
    by (simp add: sorted_map sorted_wrt_mono_rel [of _ "\<lambda>x y. f x < f y"])
qed

lemma strict_sorted_key_distinct:
  fixes f :: "'a \<Rightarrow> 'b::linorder"
  shows "sorted_wrt (\<lambda>x y. f x < f y) xs \<Longrightarrow> distinct (map f xs)"
  by (induction xs) auto

lemma sorted_distinct_key_strict:
  fixes f :: "'a \<Rightarrow> 'b::linorder"
  assumes "sorted (map f xs)" and "distinct (map f xs)"
  shows "sorted_wrt (\<lambda>x y. f x < f y) xs"
  using assms by (induction xs) (auto simp: order.strict_iff_order)

lemma sorted_wrt_snoc_last:
  fixes f :: "'a \<Rightarrow> 'b::linorder"
  assumes "sorted_wrt (\<lambda>x y. f x < f y) xs" and "\<forall>x\<in>set xs. f x < f y"
  shows "sorted_wrt (\<lambda>x y. f x < f y) (xs @ [y])"
  using assms by (auto simp: sorted_wrt_append)

section \<open>Reverse search\<close>

text \<open>
  Several loops of the panel run \<open>for (let index = events.length - 1; index >= 0; index -= 1)\<close>
  and return at the first hit. \<open>find_last\<close> is that loop: the last element
  that the body maps to a value.
\<close>

fun first_some :: "('a \<Rightarrow> 'b option) \<Rightarrow> 'a list \<Rightarrow> 'b option" where
  "first_some f [] = None"
| "first_some f (x # xs) = (case f x of Some y \<Rightarrow> Some y | None \<Rightarrow> first_some f xs)"

definition last_some :: "('a \<Rightarrow> 'b option) \<Rightarrow> 'a list \<Rightarrow> 'b option" where
  "last_some f xs = first_some f (rev xs)"

lemma first_some_None_iff: "first_some f xs = None \<longleftrightarrow> (\<forall>x\<in>set xs. f x = None)"
  by (induction xs) (auto split: option.splits)

lemma first_some_SomeD: "first_some f xs = Some y \<Longrightarrow> \<exists>x\<in>set xs. f x = Some y"
  by (induction xs) (auto split: option.splits)

lemma last_some_None_iff: "last_some f xs = None \<longleftrightarrow> (\<forall>x\<in>set xs. f x = None)"
  by (simp add: last_some_def first_some_None_iff)

lemma last_some_SomeD: "last_some f xs = Some y \<Longrightarrow> \<exists>x\<in>set xs. f x = Some y"
  using first_some_SomeD [of f "rev xs" y] by (simp add: last_some_def)

lemma last_some_Nil [simp]: "last_some f [] = None"
  by (simp add: last_some_def)

lemma last_some_snoc [simp]:
  "last_some f (xs @ [x]) = (case f x of Some y \<Rightarrow> Some y | None \<Rightarrow> last_some f xs)"
  by (simp add: last_some_def split: option.split)

lemma last_some_cong:
  "(\<And>x. x \<in> set xs \<Longrightarrow> f x = g x) \<Longrightarrow> last_some f xs = last_some g xs"
  by (induction xs rule: rev_induct) (auto split: option.split)

section \<open>Projections\<close>

text \<open>
  The contract of a sanitiser \<open>f\<close>: its results satisfy \<open>ok\<close>, and it does not
  change a value that already satisfies \<open>ok\<close>. Applying it twice is then the same
  as applying it once, and its range is exactly the set of well-formed values.
\<close>

locale projection =
  fixes f :: "'a \<Rightarrow> 'a" and ok :: "'a \<Rightarrow> bool"
  assumes lands: "ok (f x)"
    and keeps: "ok x \<Longrightarrow> f x = x"
begin

lemma idem: "f (f x) = f x"
  by (rule keeps [OF lands])

lemma fixed_iff: "f x = x \<longleftrightarrow> ok x"
  using lands keeps by metis

lemma range_eq: "range f = {x. ok x}"
proof
  show "range f \<subseteq> {x. ok x}" using lands by auto
  show "{x. ok x} \<subseteq> range f" using keeps by (metis mem_Collect_eq rangeI subsetI)
qed

end

text \<open>A partial projection: a parser that accepts exactly the values it would itself produce.\<close>

locale partial_projection =
  fixes p :: "'a \<Rightarrow> 'a option" and ok :: "'a \<Rightarrow> bool"
  assumes parsed_ok: "p x = Some y \<Longrightarrow> ok y"
    and ok_parsed: "ok x \<Longrightarrow> p x = Some x"
begin

lemma parse_idem: "p x = Some y \<Longrightarrow> p y = Some y"
  using parsed_ok ok_parsed by blast

lemma map_filter_ok: "\<forall>x\<in>set xs. ok x \<Longrightarrow> List.map_filter p xs = xs"
  by (induction xs) (auto simp: ok_parsed)

lemma set_map_filter_ok: "\<forall>y\<in>set (List.map_filter p xs). ok y"
  by (auto simp: map_filter_def parsed_ok)

end

end
