(* ===== verification/JsValue.thy ===== *)
theory JsValue
  imports Prelude
begin

text \<open>
  The part of JavaScript the panel uses. A string is its list of UTF-16 code
  units (\<open>length\<close>, \<open>slice\<close> and indexing count code units); iterating a string
  (\<open>[...s]\<close>) yields code points, so surrogate pairs are kept together. A number
  is NaN, an infinity or a finite value, and every finite double is a rational;
  the two zeros are identified, since no modelled operation tells them apart.
  A value is one of the primitive values, an array, an object (its own
  properties in insertion order) or a function, of which only the name matters.
  Operations that a source expression can apply to any value are total here;
  where the source would throw a TypeError the component theories say so.
\<close>

section \<open>Strings\<close>

type_synonym jstr = "nat list"

definition js :: "string \<Rightarrow> jstr" where
  "js s = map of_char s"

lemma js_eq_iff [simp]: "js s = js t \<longleftrightarrow> s = t"
  unfolding js_def by (rule inj_map_eq_map) (rule inj_of_char)

lemma js_Nil [simp]: "js [] = []"
  by (simp add: js_def)

lemma js_Nil_iff [simp]: "js s = [] \<longleftrightarrow> s = []" "[] = js s \<longleftrightarrow> s = []"
  by (simp_all add: js_def)

lemma length_js [simp]: "length (js s) = length s"
  by (simp add: js_def)

lemma js_append: "js (s @ t) = js s @ js t"
  by (simp add: js_def)

lemma take_js: "take n (js s) = js (take n s)"
  by (simp add: js_def take_map)

definition is_high :: "nat \<Rightarrow> bool" where
  "is_high u \<longleftrightarrow> 0xD800 \<le> u \<and> u \<le> 0xDBFF"

definition is_low :: "nat \<Rightarrow> bool" where
  "is_low u \<longleftrightarrow> 0xDC00 \<le> u \<and> u \<le> 0xDFFF"

text \<open>String iteration: each element is one code point, as one or two code units.\<close>

fun js_chars :: "jstr \<Rightarrow> jstr list" where
  "js_chars [] = []"
| "js_chars [u] = [[u]]"
| "js_chars (u # v # us) =
     (if is_high u \<and> is_low v then [u, v] # js_chars us else [u] # js_chars (v # us))"

fun codePointAt0 :: "jstr \<Rightarrow> nat" where
  "codePointAt0 [] = 0"
| "codePointAt0 [u] = u"
| "codePointAt0 (u # v # us) =
     (if is_high u \<and> is_low v then (u - 0xD800) * 0x400 + (v - 0xDC00) + 0x10000 else u)"

lemma concat_js_chars [simp]: "concat (js_chars s) = s"
  by (induction s rule: js_chars.induct) auto

text \<open>
  A predicate on code points that holds from U+D800 upwards (the surrogates and
  the supplementary planes) may be evaluated on code units instead.
\<close>

lemma filter_js_chars:
  assumes "\<And>u. 0xD800 \<le> u \<Longrightarrow> P u"
  shows "concat (filter (\<lambda>c. P (codePointAt0 c)) (js_chars s)) = filter P s"
proof (induction s rule: js_chars.induct)
  case (3 u v us)
  show ?case
  proof (cases "is_high u \<and> is_low v")
    case True
    then have "P u" "P v" "P ((u - 0xD800) * 0x400 + (v - 0xDC00) + 0x10000)"
      by (auto simp: is_high_def is_low_def intro!: assms)
    with True 3 show ?thesis by simp
  next
    case False
    with 3 show ?thesis by auto
  qed
qed auto

lemma map_js_chars:
  assumes "\<And>u. 0xD800 \<le> u \<Longrightarrow> P u"
  shows "concat (map (\<lambda>c. if P (codePointAt0 c) then c else [w]) (js_chars s))
    = map (\<lambda>u. if P u then u else w) s"
proof (induction s rule: js_chars.induct)
  case (3 u v us)
  show ?case
  proof (cases "is_high u \<and> is_low v")
    case True
    then have "P u" "P v" "P ((u - 0xD800) * 0x400 + (v - 0xDC00) + 0x10000)"
      by (auto simp: is_high_def is_low_def intro!: assms)
    with True 3 show ?thesis by simp
  next
    case False
    with 3 show ?thesis by auto
  qed
qed auto

lemma ex_js_chars:
  assumes "\<And>u. 0xD800 \<le> u \<Longrightarrow> \<not> P u"
  shows "list_ex (\<lambda>c. P (codePointAt0 c)) (js_chars s) \<longleftrightarrow> list_ex P s"
proof (induction s rule: js_chars.induct)
  case (3 u v us)
  show ?case
  proof (cases "is_high u \<and> is_low v")
    case True
    then have "\<not> P u" "\<not> P v" "\<not> P ((u - 0xD800) * 0x400 + (v - 0xDC00) + 0x10000)"
      by (auto simp: is_high_def is_low_def intro!: assms)
    with True 3 show ?thesis by simp
  next
    case False
    with 3 show ?thesis by auto
  qed
qed auto

subsection \<open>Character classes\<close>

text \<open>The characters matched by \<open>\s\<close>, which are also those \<open>trim\<close> removes.\<close>

definition is_ws :: "nat \<Rightarrow> bool" where
  "is_ws u \<longleftrightarrow> (9 \<le> u \<and> u \<le> 13) \<or> u = 32 \<or> u = 0xA0 \<or> u = 0x1680
     \<or> (0x2000 \<le> u \<and> u \<le> 0x200A) \<or> u = 0x2028 \<or> u = 0x2029 \<or> u = 0x202F
     \<or> u = 0x205F \<or> u = 0x3000 \<or> u = 0xFEFF"

definition is_digit :: "nat \<Rightarrow> bool" where
  "is_digit u \<longleftrightarrow> 48 \<le> u \<and> u \<le> 57"

definition is_alpha :: "nat \<Rightarrow> bool" where
  "is_alpha u \<longleftrightarrow> (65 \<le> u \<and> u \<le> 90) \<or> (97 \<le> u \<and> u \<le> 122)"

text \<open>The class \<open>[A-Za-z0-9_.:-]\<close> of the identifier patterns.\<close>

definition is_id_char :: "nat \<Rightarrow> bool" where
  "is_id_char u \<longleftrightarrow> is_alpha u \<or> is_digit u \<or> u = 95 \<or> u = 46 \<or> u = 58 \<or> u = 45"

text \<open>The pattern \<open>/^[A-Za-z0-9_.:-]{1,n}$/\<close>.\<close>

definition id_pattern :: "nat \<Rightarrow> jstr \<Rightarrow> bool" where
  "id_pattern n s \<longleftrightarrow> 1 \<le> length s \<and> length s \<le> n \<and> list_all is_id_char s"

lemma id_char_not_control: "is_id_char u \<Longrightarrow> 31 < u \<and> u \<noteq> 127"
  by (auto simp: is_id_char_def is_alpha_def is_digit_def)

lemma id_char_not_ws: "is_id_char u \<Longrightarrow> \<not> is_ws u"
  by (auto simp: is_id_char_def is_alpha_def is_digit_def is_ws_def)

subsection \<open>Trimming, folding and splitting\<close>

definition js_trim :: "jstr \<Rightarrow> jstr" where
  "js_trim s = rev (dropWhile is_ws (rev (dropWhile is_ws s)))"

text \<open>\<open>s.replace(/\s+/gu, " ")\<close>.\<close>

function collapse_ws :: "jstr \<Rightarrow> jstr" where
  "collapse_ws [] = []"
| "collapse_ws (u # us) =
     (if is_ws u then 32 # collapse_ws (dropWhile is_ws us) else u # collapse_ws us)"
  by pat_completeness auto
termination
  by (relation "measure length") (auto simp: le_imp_less_Suc length_dropWhile_le)

lemma length_dropWhile_ws: "length (dropWhile is_ws us) \<le> length us"
  by (rule length_dropWhile_le)

text \<open>
  \<open>toLowerCase\<close> on the Latin-1 range and on the Kelvin sign (the only other
  character whose lower case is an ASCII letter alone); the remaining
  characters of Unicode are left as they are.
\<close>

definition lower_unit :: "nat \<Rightarrow> nat" where
  "lower_unit u =
     (if 65 \<le> u \<and> u \<le> 90 \<or> 0xC0 \<le> u \<and> u \<le> 0xDE \<and> u \<noteq> 0xD7 then u + 32
      else if u = 0x212A then 107 else u)"

definition js_lower :: "jstr \<Rightarrow> jstr" where
  "js_lower s = map lower_unit s"

lemma length_js_lower [simp]: "length (js_lower s) = length s"
  by (simp add: js_lower_def)

lemma js_lower_idem [simp]: "js_lower (js_lower s) = js_lower s"
  by (auto simp: js_lower_def lower_unit_def)

text \<open>\<open>s.split(sep)\<close> for a separator of one code unit; the result is never empty.\<close>

fun split_on :: "nat \<Rightarrow> jstr \<Rightarrow> jstr list" where
  "split_on c [] = [[]]"
| "split_on c (u # us) =
     (if u = c then [] # split_on c us
      else (u # hd (split_on c us)) # tl (split_on c us))"

text \<open>\<open>xs.join(sep)\<close>.\<close>

fun join_with :: "jstr \<Rightarrow> jstr list \<Rightarrow> jstr" where
  "join_with sep [] = []"
| "join_with sep [x] = x"
| "join_with sep (x # y # ys) = x @ sep @ join_with sep (y # ys)"

lemma split_on_nonempty [simp]: "split_on c s \<noteq> []"
  by (induction s) auto

lemma join_split [simp]: "join_with [c] (split_on c s) = s"
proof (induction s)
  case (Cons u us)
  obtain y ys where "split_on c us = y # ys"
    by (cases "split_on c us") auto
  with Cons show ?case by (cases ys) auto
qed simp

lemma split_on_no_sep: "p \<in> set (split_on c s) \<Longrightarrow> c \<notin> set p"
proof (induction s arbitrary: p)
  case (Cons u us)
  obtain y ys where "split_on c us = y # ys"
    by (cases "split_on c us") auto
  with Cons show ?case by (auto split: if_splits)
qed simp

lemma split_on_append_sep:
  "c \<notin> set x \<Longrightarrow> split_on c (x @ c # s) = x # split_on c s"
  by (induction x) auto

lemma split_on_id: "c \<notin> set x \<Longrightarrow> split_on c x = [x]"
  by (induction x) auto

lemma split_join:
  "xs \<noteq> [] \<Longrightarrow> \<forall>x\<in>set xs. c \<notin> set x \<Longrightarrow> split_on c (join_with [c] xs) = xs"
  by (induction "[c]" xs rule: join_with.induct) (auto simp: split_on_append_sep split_on_id)

lemma set_split_on: "p \<in> set (split_on c s) \<Longrightarrow> set p \<subseteq> set s"
proof (induction s arbitrary: p)
  case (Cons u us)
  obtain y ys where "split_on c us = y # ys"
    by (cases "split_on c us") auto
  with Cons show ?case by (auto split: if_splits) blast+
qed simp

text \<open>\<open>s.startsWith(p)\<close>.\<close>

definition starts_with :: "jstr \<Rightarrow> jstr \<Rightarrow> bool" where
  "starts_with p s \<longleftrightarrow> take (length p) s = p"

lemma starts_with_iff: "starts_with p s \<longleftrightarrow> (\<exists>t. s = p @ t)"
  by (metis append_eq_conv_conj append_take_drop_id starts_with_def)

text \<open>\<open>s.includes(p)\<close>.\<close>

fun js_includes :: "jstr \<Rightarrow> jstr \<Rightarrow> bool" where
  "js_includes p [] = (p = [])"
| "js_includes p (u # us) = (starts_with p (u # us) \<or> js_includes p us)"

subsection \<open>Trimming and whitespace folding\<close>

lemma hd_js_trim: "js_trim s \<noteq> [] \<Longrightarrow> \<not> is_ws (hd (js_trim s))"
proof -
  assume ne: "js_trim s \<noteq> []"
  let ?d = "dropWhile is_ws s"
  have pre: "prefix (js_trim s) ?d"
    unfolding js_trim_def
    by (metis rev_rev_ident suffix_dropWhile suffix_to_prefix)
  then have "hd (js_trim s) = hd ?d"
    using ne by (auto simp: prefix_def)
  moreover have "?d \<noteq> []"
    using pre ne by (metis prefix_bot.extremum_unique)
  ultimately show ?thesis
    using hd_dropWhile by metis
qed

lemma last_js_trim: "js_trim s \<noteq> [] \<Longrightarrow> \<not> is_ws (last (js_trim s))"
  by (simp add: js_trim_def last_rev hd_dropWhile)

lemma js_trim_id:
  "s = [] \<or> (\<not> is_ws (hd s) \<and> \<not> is_ws (last s)) \<Longrightarrow> js_trim s = s"
  by (cases s; cases s rule: rev_cases)
    (auto simp: js_trim_def dropWhile_eq_self_iff hd_append hd_rev)

lemma js_trim_idem [simp]: "js_trim (js_trim s) = js_trim s"
  using hd_js_trim last_js_trim by (intro js_trim_id) blast

lemma set_js_trim: "set (js_trim s) \<subseteq> set s"
  unfolding js_trim_def by (metis set_dropWhileD set_rev subsetI)

lemma length_js_trim [js_bounds]: "length (js_trim s) \<le> length s"
  unfolding js_trim_def
  by (metis le_trans length_dropWhile_le length_rev)

lemma js_trim_no_ws: "list_all (\<lambda>u. \<not> is_ws u) s \<Longrightarrow> js_trim s = s"
  by (rule js_trim_id) (cases s; auto simp: list_all_iff)

lemma length_collapse_ws [js_bounds]: "length (collapse_ws s) \<le> length s"
proof (induction s rule: collapse_ws.induct)
  case (2 u us)
  then show ?case
    using length_dropWhile_ws [of us] by (auto intro: le_trans)
qed simp

lemma set_collapse_ws: "set (collapse_ws s) \<subseteq> insert 32 (set s)"
proof (induction s rule: collapse_ws.induct)
  case (2 u us)
  then show ?case
    by (auto dest: set_dropWhileD split: if_splits)
qed simp

text \<open>Folded text: single spaces are the only whitespace, and no two are adjacent.\<close>

fun folded :: "jstr \<Rightarrow> bool" where
  "folded [] = True"
| "folded [u] = (is_ws u \<longrightarrow> u = 32)"
| "folded (u # v # us) = ((is_ws u \<longrightarrow> u = 32 \<and> \<not> is_ws v) \<and> folded (v # us))"

lemma folded_ConsI: "folded us \<Longrightarrow> \<not> is_ws u \<Longrightarrow> folded (u # us)"
  by (cases us) auto

lemma folded_space_ConsI: "folded us \<Longrightarrow> us = [] \<or> \<not> is_ws (hd us) \<Longrightarrow> folded (32 # us)"
  by (cases us) auto

lemma hd_collapse_ws: "us \<noteq> [] \<Longrightarrow> \<not> is_ws (hd us) \<Longrightarrow> hd (collapse_ws us) = hd us"
  by (cases us) auto

lemma collapse_ws_Nil_iff [simp]: "collapse_ws s = [] \<longleftrightarrow> s = []"
  by (cases s) auto

lemma folded_collapse_ws: "folded (collapse_ws s)"
proof (induction s rule: collapse_ws.induct)
  case (2 u us)
  show ?case
  proof (cases "is_ws u")
    case True
    let ?d = "dropWhile is_ws us"
    have "?d = [] \<or> \<not> is_ws (hd (collapse_ws ?d))"
      using hd_dropWhile [of is_ws us] hd_collapse_ws [of ?d] by fastforce
    with True 2 show ?thesis by (auto intro: folded_space_ConsI)
  next
    case False
    with 2 show ?thesis by (auto intro: folded_ConsI)
  qed
qed simp

lemma collapse_ws_id: "folded s \<Longrightarrow> collapse_ws s = s"
  by (induction s rule: folded.induct) auto

lemma folded_append: "folded (s @ t) \<Longrightarrow> folded s \<and> folded t"
proof (induction s rule: folded.induct)
  case (2 u)
  then show ?case by (cases t) auto
qed auto

lemma folded_js_trim: "folded s \<Longrightarrow> folded (js_trim s)"
proof -
  assume f: "folded s"
  obtain a where "s = a @ dropWhile is_ws s"
    by (metis takeWhile_dropWhile_id)
  then have fd: "folded (dropWhile is_ws s)"
    using f folded_append by metis
  obtain b where "dropWhile is_ws s = js_trim s @ b"
    unfolding js_trim_def
    by (metis rev_append rev_rev_ident takeWhile_dropWhile_id)
  then show ?thesis
    using fd folded_append by metis
qed

section \<open>Numbers\<close>

datatype jsnum = NaN | PosInf | NegInf | Fin rat

definition is_integral :: "rat \<Rightarrow> bool" where
  "is_integral r \<longleftrightarrow> of_int \<lfloor>r\<rfloor> = r"

lemma is_integral_of_int [simp]: "is_integral (of_int i)"
  by (simp add: is_integral_def)

lemma is_integral_numeral [simp]: "is_integral (numeral k)" "is_integral 0" "is_integral 1"
  by (simp_all add: is_integral_def)

definition MAX_SAFE :: int where
  "MAX_SAFE = 9007199254740991"

text \<open>Decimal representation of an integer.\<close>

fun dec_nat :: "nat \<Rightarrow> jstr" where
  "dec_nat n = (if n < 10 then [48 + n] else dec_nat (n div 10) @ [48 + n mod 10])"

declare dec_nat.simps [simp del]

definition dec_int :: "int \<Rightarrow> jstr" where
  "dec_int i = (if i < 0 then 45 # dec_nat (nat (- i)) else dec_nat (nat i))"

lemma dec_nat_digits: "list_all is_digit (dec_nat n)"
proof (induction n rule: dec_nat.induct)
  case (1 n)
  then show ?case
    by (cases "n < 10") (auto simp: dec_nat.simps [of n] is_digit_def)
qed

lemma dec_nat_nonempty [simp]: "dec_nat n \<noteq> []"
  by (subst dec_nat.simps) simp

fun read_dec :: "jstr \<Rightarrow> nat \<Rightarrow> nat" where
  "read_dec [] acc = acc"
| "read_dec (u # us) acc = read_dec us (10 * acc + (u - 48))"

lemma read_dec_append: "read_dec (s @ t) acc = read_dec t (read_dec s acc)"
  by (induction s arbitrary: acc) auto

lemma read_dec_nat: "read_dec (dec_nat n) 0 = n"
proof (induction n rule: dec_nat.induct)
  case (1 n)
  then show ?case
    by (cases "n < 10") (auto simp: dec_nat.simps [of n] read_dec_append)
qed

lemma dec_nat_inj [simp]: "dec_nat m = dec_nat n \<longleftrightarrow> m = n"
  by (metis read_dec_nat)

section \<open>Values\<close>

datatype jsval =
    JUndefined
  | JNull
  | JBool bool
  | JNum jsnum
  | JStr jstr
  | JArr "jsval list"
  | JObj "(jstr \<times> jsval) list"
  | JFun jstr

type_synonym jsobj = "(jstr \<times> jsval) list"

abbreviation jint :: "int \<Rightarrow> jsval" where
  "jint i \<equiv> JNum (Fin (of_int i))"

abbreviation jlit :: "string \<Rightarrow> jsval" where
  "jlit s \<equiv> JStr (js s)"

fun truthy :: "jsval \<Rightarrow> bool" where
  "truthy JUndefined = False"
| "truthy JNull = False"
| "truthy (JBool b) = b"
| "truthy (JNum n) = (n \<noteq> NaN \<and> n \<noteq> Fin 0)"
| "truthy (JStr s) = (s \<noteq> [])"
| "truthy (JArr xs) = True"
| "truthy (JObj kvs) = True"
| "truthy (JFun f) = True"

text \<open>\<open>a || b\<close> and \<open>a ?? b\<close>.\<close>

definition js_or :: "jsval \<Rightarrow> jsval \<Rightarrow> jsval" where
  "js_or a b = (if truthy a then a else b)"

definition nullish :: "jsval \<Rightarrow> bool" where
  "nullish v \<longleftrightarrow> v = JUndefined \<or> v = JNull"

definition js_coalesce :: "jsval \<Rightarrow> jsval \<Rightarrow> jsval" where
  "js_coalesce a b = (if nullish a then b else a)"

definition is_record :: "jsval \<Rightarrow> bool" where
  "is_record v \<longleftrightarrow> (case v of JObj _ \<Rightarrow> True | _ \<Rightarrow> False)"

definition is_array :: "jsval \<Rightarrow> bool" where
  "is_array v \<longleftrightarrow> (case v of JArr _ \<Rightarrow> True | _ \<Rightarrow> False)"

definition is_string :: "jsval \<Rightarrow> bool" where
  "is_string v \<longleftrightarrow> (case v of JStr _ \<Rightarrow> True | _ \<Rightarrow> False)"

text \<open>\<open>typeof v === "object"\<close> is also true of null and of arrays.\<close>

definition is_object :: "jsval \<Rightarrow> bool" where
  "is_object v \<longleftrightarrow> (case v of JObj _ \<Rightarrow> True | JArr _ \<Rightarrow> True | JNull \<Rightarrow> True | _ \<Rightarrow> False)"

definition as_string :: "jsval \<Rightarrow> jstr" where
  "as_string v = (case v of JStr s \<Rightarrow> s | _ \<Rightarrow> [])"

definition as_list :: "jsval \<Rightarrow> jsval list" where
  "as_list v = (case v of JArr xs \<Rightarrow> xs | _ \<Rightarrow> [])"

lemma value_views [simp, js_eval]:
  "is_record (JObj kvs)" "is_array (JArr xs)" "is_string (JStr s)"
  "is_object (JObj kvs)" "is_object (JArr xs)" "is_object JNull"
  "as_string (JStr s) = s" "as_list (JArr xs) = xs"
  "\<not> is_record JUndefined" "\<not> is_record JNull" "\<not> is_record (JStr s)"
  "\<not> is_record (JArr xs)" "\<not> is_record (JNum n)" "\<not> is_record (JBool b)" "\<not> is_record (JFun f)"
  "\<not> is_array JUndefined" "\<not> is_array (JStr s)" "\<not> is_array (JObj kvs)" "\<not> is_array JNull"
  "\<not> is_array (JNum n)" "\<not> is_array (JBool b)" "\<not> is_array (JFun f)"
  "\<not> is_string JUndefined" "\<not> is_string JNull" "\<not> is_string (JNum n)" "\<not> is_string (JBool b)"
  "\<not> is_string (JArr xs)" "\<not> is_string (JObj kvs)" "\<not> is_string (JFun f)"
  by (simp_all add: is_record_def is_array_def is_string_def is_object_def
      as_string_def as_list_def)

lemma is_recordE: "is_record v \<Longrightarrow> (\<And>kvs. v = JObj kvs \<Longrightarrow> P) \<Longrightarrow> P"
  by (cases v) auto

lemma is_stringE: "is_string v \<Longrightarrow> (\<And>s. v = JStr s \<Longrightarrow> P) \<Longrightarrow> P"
  by (cases v) auto

lemma is_arrayE: "is_array v \<Longrightarrow> (\<And>xs. v = JArr xs \<Longrightarrow> P) \<Longrightarrow> P"
  by (cases v) auto

text \<open>\<open>Number.isSafeInteger(v)\<close>, and the integer it denotes.\<close>

fun is_safe_integer :: "jsval \<Rightarrow> bool" where
  "is_safe_integer (JNum (Fin r)) = (is_integral r \<and> \<bar>r\<bar> \<le> of_int MAX_SAFE)"
| "is_safe_integer v = False"

fun to_int :: "jsval \<Rightarrow> int" where
  "to_int (JNum (Fin r)) = \<lfloor>r\<rfloor>"
| "to_int v = 0"

lemma is_safe_integer_jint [simp]: "is_safe_integer (jint i) \<longleftrightarrow> \<bar>i\<bar> \<le> MAX_SAFE"
  by (simp flip: of_int_abs)

lemma is_safe_integer_iff: "is_safe_integer v \<longleftrightarrow> (\<exists>i. v = jint i \<and> \<bar>i\<bar> \<le> MAX_SAFE)"
proof
  assume h: "is_safe_integer v"
  then obtain r where r: "v = JNum (Fin r)" "is_integral r"
    by (cases v rule: is_safe_integer.cases) auto
  then have "v = jint \<lfloor>r\<rfloor>" by (metis is_integral_def)
  then show "\<exists>i. v = jint i \<and> \<bar>i\<bar> \<le> MAX_SAFE"
    using h is_safe_integer_jint by metis
qed auto

lemma is_safe_integerE:
  assumes "is_safe_integer v"
  obtains i where "v = jint i" "\<bar>i\<bar> \<le> MAX_SAFE"
  using assms is_safe_integer_iff by blast

section \<open>Objects\<close>

definition obj_get :: "jsobj \<Rightarrow> jstr \<Rightarrow> jsval" where
  "obj_get kvs k = (case map_of kvs k of None \<Rightarrow> JUndefined | Some v \<Rightarrow> v)"

text \<open>Assignment of a property: in place when it exists, appended otherwise.\<close>

fun obj_set :: "jsobj \<Rightarrow> jstr \<Rightarrow> jsval \<Rightarrow> jsobj" where
  "obj_set [] k v = [(k, v)]"
| "obj_set ((k', v') # kvs) k v = (if k' = k then (k, v) # kvs else (k', v') # obj_set kvs k v)"

text \<open>
  \<open>v.k\<close> for a property that is not on a built-in prototype; \<open>undefined\<close> where
  \<open>v\<close> is not an object, as \<open>v?.k\<close> gives.
\<close>

definition dot :: "jsval \<Rightarrow> string \<Rightarrow> jsval" where
  "dot v k = (case v of JObj kvs \<Rightarrow> obj_get kvs (js k) | _ \<Rightarrow> JUndefined)"

lemma dot_nonobject [simp, js_eval]:
  "dot JUndefined k = JUndefined" "dot JNull k = JUndefined" "dot (JStr s) k = JUndefined"
  "dot (JNum n) k = JUndefined" "dot (JBool b) k = JUndefined" "dot (JArr xs) k = JUndefined"
  "dot (JFun f) k = JUndefined"
  by (simp_all add: dot_def)

lemma dot_JObj [js_eval]: "dot (JObj kvs) k = obj_get kvs (js k)"
  by (simp add: dot_def)

lemma map_of_obj_set: "map_of (obj_set kvs k v) = (map_of kvs)(k \<mapsto> v)"
  by (induction kvs k v rule: obj_set.induct) (auto simp: fun_eq_iff)

lemma obj_get_set [simp]: "obj_get (obj_set kvs k v) k' = (if k' = k then v else obj_get kvs k')"
  by (simp add: obj_get_def map_of_obj_set)

lemma dot_obj_set [simp]:
  "dot (JObj (obj_set kvs (js k) v)) k' = (if k' = k then v else dot (JObj kvs) k')"
  by (simp add: dot_def)

lemma obj_set_same: "map_of kvs k = Some v \<Longrightarrow> obj_set kvs k v = kvs"
  by (induction kvs k v rule: obj_set.induct) auto

lemma obj_set_get_same:
  "k \<in> fst ` set kvs \<Longrightarrow> obj_get kvs k = v \<Longrightarrow> obj_set kvs k v = kvs"
  by (rule obj_set_same) (auto simp: obj_get_def map_of_eq_None_iff split: option.splits)

lemma keys_obj_set [simp]: "fst ` set (obj_set kvs k v) = insert k (fst ` set kvs)"
  by (induction kvs k v rule: obj_set.induct) auto

text \<open>
  Indexing an object literal with a computed key also finds the properties
  inherited from \<open>Object.prototype\<close>. \<open>Object.hasOwn\<close> does not.
\<close>

definition proto_functions :: "string list" where
  "proto_functions = [''__defineGetter__'', ''__defineSetter__'', ''hasOwnProperty'',
     ''__lookupGetter__'', ''__lookupSetter__'', ''isPrototypeOf'', ''propertyIsEnumerable'',
     ''toString'', ''valueOf'', ''toLocaleString'']"

definition proto_get :: "jstr \<Rightarrow> jsval" where
  "proto_get k =
     (if k \<in> set (map js proto_functions) then JFun k
      else if k = js ''constructor'' then JFun (js ''Object'')
      else if k = js ''__proto__'' then JObj []
      else JUndefined)"

definition obj_index :: "jsobj \<Rightarrow> jstr \<Rightarrow> jsval" where
  "obj_index kvs k = (case map_of kvs k of Some v \<Rightarrow> v | None \<Rightarrow> proto_get k)"

definition has_own :: "jsobj \<Rightarrow> jstr \<Rightarrow> bool" where
  "has_own kvs k \<longleftrightarrow> k \<in> set (map fst kvs)"

lemma has_own_iff: "has_own kvs k \<longleftrightarrow> (\<exists>v. map_of kvs k = Some v)"
proof -
  have "has_own kvs k \<longleftrightarrow> map_of kvs k \<noteq> None"
    by (simp add: has_own_def map_of_eq_None_iff)
  then show ?thesis by auto
qed

text \<open>
  \<open>a === b\<close> for two values that are not the same reference: primitives compare by
  value, NaN differs from itself, and two objects are different.
\<close>

definition strict_eq :: "jsval \<Rightarrow> jsval \<Rightarrow> bool" where
  "strict_eq a b \<longleftrightarrow> a = b \<and> (case a of JArr _ \<Rightarrow> False | JObj _ \<Rightarrow> False | JFun _ \<Rightarrow> False
     | JNum NaN \<Rightarrow> False | _ \<Rightarrow> True)"

section \<open>Conversion to a string\<close>

text \<open>
  \<open>String(v)\<close>. Integral numbers of magnitude below \<open>1e21\<close> print in decimal;
  the shortest round-trip form of the remaining finite numbers is left to the
  parameter \<open>fmt\<close>.
\<close>

definition num_String :: "(rat \<Rightarrow> jstr) \<Rightarrow> jsnum \<Rightarrow> jstr" where
  "num_String fmt n =
     (case n of NaN \<Rightarrow> js ''NaN'' | PosInf \<Rightarrow> js ''Infinity'' | NegInf \<Rightarrow> js ''-Infinity''
      | Fin r \<Rightarrow> if is_integral r \<and> \<bar>r\<bar> < 10 ^ 21 then dec_int \<lfloor>r\<rfloor> else fmt r)"

fun js_String :: "(rat \<Rightarrow> jstr) \<Rightarrow> jsval \<Rightarrow> jstr" where
  "js_String fmt JUndefined = js ''undefined''"
| "js_String fmt JNull = js ''null''"
| "js_String fmt (JBool b) = (if b then js ''true'' else js ''false'')"
| "js_String fmt (JNum n) = num_String fmt n"
| "js_String fmt (JStr s) = s"
| "js_String fmt (JArr xs) =
     join_with [44] (map (\<lambda>x. if nullish x then [] else js_String fmt x) xs)"
| "js_String fmt (JObj kvs) = js ''[object Object]''"
| "js_String fmt (JFun f) = js ''function '' @ f @ js ''() { [native code] }''"

end
