(* ===== verification/Dom.thy ===== *)
theory Dom
  imports JsValue
begin

text \<open>
  The document tree the view modules build. An element carries its tag, the
  attributes and DOM properties set on it (in order, the later assignment of a
  name winning, as in the document) and its children. \<open>node.textContent = s\<close>
  replaces the children by one text node; the tree has no constructor for markup
  parsed from a string, because the views never assign \<open>innerHTML\<close>.
\<close>

datatype dom =
    Txt jstr
  | El (dtag: string) (dattrs: "(string \<times> jsval) list") (dkids: "dom list")

definition el :: "string \<Rightarrow> dom" where
  "el tag = El tag [] []"

fun attr_set :: "(string \<times> jsval) list \<Rightarrow> string \<Rightarrow> jsval \<Rightarrow> (string \<times> jsval) list" where
  "attr_set [] k v = [(k, v)]"
| "attr_set ((k', v') # as) k v = (if k' = k then (k, v) # as else (k', v') # attr_set as k v)"

fun set_attr :: "string \<Rightarrow> jsval \<Rightarrow> dom \<Rightarrow> dom" where
  "set_attr k v (El t as ks) = El t (attr_set as k v) ks"
| "set_attr k v (Txt s) = Txt s"

fun text_content :: "jstr \<Rightarrow> dom \<Rightarrow> dom" where
  "text_content s (El t as ks) = El t as (if s = [] then [] else [Txt s])"
| "text_content s (Txt _) = Txt s"

fun dom_append :: "dom list \<Rightarrow> dom \<Rightarrow> dom" where
  "dom_append new (El t as ks) = El t as (ks @ new)"
| "dom_append new (Txt s) = Txt s"

definition get_attr :: "dom \<Rightarrow> string \<Rightarrow> jsval" where
  "get_attr d k = (case d of El t as ks \<Rightarrow> (case map_of as k of Some v \<Rightarrow> v | None \<Rightarrow> JUndefined)
     | Txt s \<Rightarrow> JUndefined)"

text \<open>All elements of a tree, in document order.\<close>

fun elements :: "dom \<Rightarrow> dom list" where
  "elements (Txt s) = []"
| "elements (El t as ks) = El t as ks # concat (map elements ks)"

definition query :: "(dom \<Rightarrow> bool) \<Rightarrow> dom \<Rightarrow> dom list" where
  "query P d = filter P (tl (elements d))"

fun dom_text :: "dom \<Rightarrow> jstr" where
  "dom_text (Txt s) = s"
| "dom_text (El t as ks) = concat (map dom_text ks)"

lemma map_of_attr_set [simp]: "map_of (attr_set as k v) = (map_of as)(k \<mapsto> v)"
  by (induction as k v rule: attr_set.induct) (auto simp: fun_eq_iff)

lemma get_attr_set_attr [simp]:
  "get_attr (set_attr k v (El t as ks)) k' = (if k' = k then v else get_attr (El t as ks) k')"
  by (simp add: get_attr_def)

lemma dom_text_content [simp]: "dom_text (text_content s d) = s"
  by (cases d) auto

lemma dom_text_set_attr [simp]: "dom_text (set_attr k v d) = dom_text d"
  by (cases d) auto

lemma set_attr_El: "set_attr k v (El t as ks) = El t (attr_set as k v) ks"
  by simp

section \<open>Building elements\<close>

text \<open>\<open>container.replaceChildren(...new)\<close>.\<close>

fun replaceChildren :: "dom list \<Rightarrow> dom \<Rightarrow> dom" where
  "replaceChildren new (El t as ks) = El t as new"
| "replaceChildren new (Txt s) = Txt s"

text \<open>An element with the given attributes and one text child.\<close>

definition text_el :: "string \<Rightarrow> (string \<times> jsval) list \<Rightarrow> jstr \<Rightarrow> dom" where
  "text_el tag as s = text_content s (El tag as [])"

definition is_tag :: "string \<Rightarrow> dom \<Rightarrow> bool" where
  "is_tag t d = (case d of El t' as ks \<Rightarrow> t' = t | Txt s \<Rightarrow> False)"

lemma text_el_El: "text_el tag as s = El tag as (if s = [] then [] else [Txt s])"
  by (simp add: text_el_def)

lemma dom_text_text_el [simp]: "dom_text (text_el tag as s) = s"
  by (simp add: text_el_def)

lemma elements_text_el [simp]: "elements (text_el tag as s) = [text_el tag as s]"
  by (simp add: text_el_El)

lemma is_tag_simps [simp]: "is_tag t (El t' as ks) \<longleftrightarrow> t' = t" "\<not> is_tag t (Txt s)"
  by (simp_all add: is_tag_def)

lemma is_tag_text_el [simp]: "is_tag t (text_el t' as s) \<longleftrightarrow> t' = t"
  by (simp add: text_el_El)

lemma get_attr_text_el [simp]: "get_attr (text_el t as s) k = get_attr (El t as []) k"
  by (simp add: text_el_El get_attr_def)

lemma get_attr_El: "get_attr (El t as ks) k = (case map_of as k of Some v \<Rightarrow> v | None \<Rightarrow> JUndefined)"
  by (simp add: get_attr_def)

lemma query_El: "query P (El t as ks) = filter P (concat (map elements ks))"
  by (simp add: query_def)

lemma filter_concat_map: "filter P (concat (map f xs)) = concat (map (\<lambda>x. filter P (f x)) xs)"
  by (simp add: filter_concat comp_def)

end
