(* ===== verification/SafeDom.thy ===== *)
theory SafeDom
  imports Dom
begin

text \<open>
  The security helpers of \<open>frontend/src/safe-dom.js\<close>: identifier and file-name
  sanitisers, URL and attribute filters, and the preview classification of an
  artifact. The URL parser of the browser is the parameter \<open>new_URL\<close> (with the
  serialiser \<open>href_of\<close>), and the page's origin is the parameter \<open>loc\<close>.
\<close>

section \<open>Identifiers and file names\<close>

definition not_control :: "nat \<Rightarrow> bool" where
  "not_control cp \<longleftrightarrow> 31 < cp \<and> cp \<noteq> 127"

definition removeControlChars :: "jstr \<Rightarrow> jstr" where
  "removeControlChars value =
     concat (filter (\<lambda>character. not_control (codePointAt0 character)) (js_chars value))"

text \<open>The body of \<open>sanitizeId\<close> after the conversion of its argument to a string.\<close>

definition sanitizeIdText :: "jstr \<Rightarrow> jstr \<Rightarrow> jstr" where
  "sanitizeIdText value fallback =
     (let text = js_trim (filter is_id_char (removeControlChars value))
      in if take 200 text \<noteq> [] then take 200 text else fallback)"

definition sanitizeId :: "(rat \<Rightarrow> jstr) \<Rightarrow> jsval \<Rightarrow> jstr \<Rightarrow> jstr" where
  "sanitizeId fmt value fallback =
     sanitizeIdText (js_String fmt (js_coalesce value (JStr []))) fallback"

definition sanitizeFilename :: "(rat \<Rightarrow> jstr) \<Rightarrow> jsval \<Rightarrow> jstr \<Rightarrow> jstr" where
  "sanitizeFilename fmt value fallback =
     (let clean = removeControlChars (js_String fmt (js_coalesce value (JStr [])));
          slashes = map (\<lambda>u. if u = 92 \<or> u = 47 then 95 else u) clean;
          unquoted = filter (\<lambda>u. u \<noteq> 34 \<and> u \<noteq> 39) slashes;
          trimmed = js_trim unquoted;
          text = (if trimmed \<noteq> [] \<and> list_all (\<lambda>u. u = 46) trimmed then [] else trimmed)
      in take 255 (if text \<noteq> [] then text else fallback))"

lemma removeControlChars_eq: "removeControlChars s = filter not_control s"
  unfolding removeControlChars_def
  by (rule filter_js_chars) (auto simp: not_control_def)

lemma id_char_kept: "is_id_char u \<Longrightarrow> not_control u"
  using id_char_not_control by (auto simp: not_control_def)

lemma id_string_clean:
  assumes "list_all is_id_char s"
  shows "js_trim (filter is_id_char (removeControlChars s)) = s"
proof -
  have "filter is_id_char (removeControlChars s) = s"
    using assms by (auto simp: removeControlChars_eq list_all_iff id_char_kept filter_id_conv)
  moreover have "js_trim s = s"
    using assms by (intro js_trim_no_ws) (auto simp: list_all_iff id_char_not_ws)
  ultimately show ?thesis by simp
qed

text \<open>A value that matches the identifier pattern passes through unchanged.\<close>

lemma sanitizeIdText_pattern [simp]:
  "id_pattern 200 s \<Longrightarrow> sanitizeIdText s fb = s"
  by (auto simp: sanitizeIdText_def id_pattern_def id_string_clean Let_def)

lemma sanitizeIdText_ok:
  "sanitizeIdText s fb = fb \<or> id_pattern 200 (sanitizeIdText s fb)"
proof -
  define t where "t = js_trim (filter is_id_char (removeControlChars s))"
  have ids: "list_all is_id_char (take 200 t)"
    using set_js_trim set_take_subset unfolding t_def by (fastforce simp: list_all_iff)
  have "id_pattern 200 (take 200 t)" if "t \<noteq> []"
    using that ids by (cases t) (auto simp: id_pattern_def)
  then show ?thesis
    unfolding sanitizeIdText_def t_def [symmetric] Let_def by simp
qed

text \<open>The sanitiser is a projection onto the strings that are empty or match the pattern.\<close>

interpretation safe_id: projection "\<lambda>s. sanitizeIdText s []" "\<lambda>s. s = [] \<or> id_pattern 200 s"
proof
  fix s :: jstr
  show "sanitizeIdText s [] = [] \<or> id_pattern 200 (sanitizeIdText s [])"
    by (rule sanitizeIdText_ok)
  show "sanitizeIdText s [] = s" if "s = [] \<or> id_pattern 200 s"
  proof (cases "s = []")
    case True
    then show ?thesis by (simp add: sanitizeIdText_def removeControlChars_eq js_trim_def)
  qed (use that in simp)
qed

text \<open>The characters a sanitised file name may not contain.\<close>

definition filename_char :: "nat \<Rightarrow> bool" where
  "filename_char u \<longleftrightarrow> not_control u \<and> u \<notin> {34, 39, 47, 92}"

lemma sanitizeFilename_chars:
  assumes "list_all filename_char fb"
  shows "list_all filename_char (sanitizeFilename fmt v fb)"
proof -
  let ?c = "removeControlChars (js_String fmt (js_coalesce v (JStr [])))"
  let ?u = "filter (\<lambda>u. u \<noteq> 34 \<and> u \<noteq> 39) (map (\<lambda>u. if u = 92 \<or> u = 47 then 95 else u) ?c)"
  have "list_all filename_char ?u"
    by (auto simp: list_all_iff filename_char_def removeControlChars_eq not_control_def)
  then have "list_all filename_char (js_trim ?u)"
    using set_js_trim by (fastforce simp: list_all_iff)
  then show ?thesis
    using assms by (auto simp: sanitizeFilename_def Let_def intro: list_all_takeI)
qed

lemma length_sanitizeFilename [js_bounds]: "length (sanitizeFilename fmt v fb) \<le> 255"
  by (simp add: sanitizeFilename_def Let_def)

lemma sanitizeFilename_nonempty:
  "fb \<noteq> [] \<Longrightarrow> sanitizeFilename fmt v fb \<noteq> []"
  by (simp add: sanitizeFilename_def Let_def)

text \<open>A result that is a path step of its own can only come from the fallback.\<close>

lemma take_255_dots:
  assumes "take 255 t = replicate k (46::nat)" and "k < 255"
  shows "t = replicate k 46"
proof -
  have "min (length t) 255 = k"
    using assms(1) by (metis length_replicate length_take min.commute)
  then have "length t \<le> 255" using assms(2) by linarith
  then show ?thesis using assms(1) by simp
qed

definition filename_text :: "jstr \<Rightarrow> jstr" where
  "filename_text trimmed = (if trimmed \<noteq> [] \<and> list_all (\<lambda>u. u = 46) trimmed then [] else trimmed)"

lemma filename_text_not_dots: "filename_text t \<noteq> replicate (Suc k) 46"
proof
  assume a: "filename_text t = replicate (Suc k) 46"
  then have "filename_text t \<noteq> []" by simp
  then have t: "filename_text t = t" by (auto simp: filename_text_def split: if_splits)
  with a have "t = replicate (Suc k) 46" by simp
  then have "list_all (\<lambda>u. u = 46) t" by (simp add: list_all_iff)
  then have "filename_text t = []" by (auto simp: filename_text_def)
  then show False using a by simp
qed

lemma sanitizeFilename_dots:
  assumes "sanitizeFilename fmt v fb \<in> {js ''.'', js ''..''}"
  shows "fb \<in> {js ''.'', js ''..''}"
proof -
  define t where "t = filename_text (js_trim (filter (\<lambda>u. u \<noteq> 34 \<and> u \<noteq> 39)
     (map (\<lambda>u. if u = 92 \<or> u = 47 then 95 else u)
       (removeControlChars (js_String fmt (js_coalesce v (JStr [])))))))"
  define x where "x = (if t \<noteq> [] then t else fb)"
  have eqs: "js ''.'' = replicate (Suc 0) 46" "js ''..'' = replicate (Suc (Suc 0)) 46"
    by (simp_all add: js_def)
  have "sanitizeFilename fmt v fb = take 255 x"
    by (simp add: sanitizeFilename_def Let_def x_def t_def filename_text_def)
  with assms have "take 255 x = replicate (Suc 0) 46 \<or> take 255 x = replicate (Suc (Suc 0)) 46"
    unfolding eqs by simp
  then have x: "x = replicate (Suc 0) 46 \<or> x = replicate (Suc (Suc 0)) 46"
    using take_255_dots [of x "Suc 0"] take_255_dots [of x "Suc (Suc 0)"] by force
  have "t \<noteq> replicate (Suc k) 46" for k
    unfolding t_def by (rule filename_text_not_dots)
  with x have "x \<noteq> t" by blast
  then have "x = fb" by (simp add: x_def split: if_splits)
  with x show ?thesis unfolding eqs by simp
qed

section \<open>URLs\<close>

record url =
  protocol :: jstr
  username :: jstr
  password :: jstr
  origin :: jstr
  rest :: jstr

type_synonym url_parser = "jstr \<Rightarrow> jstr option \<Rightarrow> url option"

definition truthy_str :: "jstr option \<Rightarrow> bool" where
  "truthy_str s \<longleftrightarrow> (case s of None \<Rightarrow> False | Some t \<Rightarrow> t \<noteq> [])"

definition url_base :: "jstr option \<Rightarrow> jstr option \<Rightarrow> jstr" where
  "url_base base loc =
     (if truthy_str base then the base
      else if truthy_str loc then the loc
      else js ''http://ha.invalid'')"

definition sanitizeUrl ::
  "url_parser \<Rightarrow> (url \<Rightarrow> jstr) \<Rightarrow> jstr option \<Rightarrow> jsval \<Rightarrow> jstr option \<Rightarrow> bool \<Rightarrow> jstr option" where
  "sanitizeUrl new_URL href_of loc value base allowRemote =
     (case value of
        JStr s \<Rightarrow>
          if js_trim s = [] then None
          else (case new_URL s (Some (url_base base loc)) of
             None \<Rightarrow> None
           | Some parsed \<Rightarrow>
               if protocol parsed \<noteq> js ''http:'' \<and> protocol parsed \<noteq> js ''https:'' then None
               else if \<not> allowRemote \<and>
                   (case new_URL (url_base base loc) None of
                      None \<Rightarrow> True
                    | Some b \<Rightarrow> origin parsed \<noteq> origin b) then None
               else Some (href_of (parsed\<lparr>username := [], password := []\<rparr>)))
      | _ \<Rightarrow> None)"

definition sanitizeBlobUrl ::
  "url_parser \<Rightarrow> (url \<Rightarrow> jstr) \<Rightarrow> jsval \<Rightarrow> jstr option \<Rightarrow> jstr option" where
  "sanitizeBlobUrl new_URL href_of value orig =
     (case value of
        JStr s \<Rightarrow>
          if \<not> starts_with (js ''blob:'') s then None
          else (case new_URL s None of
             None \<Rightarrow> None
           | Some parsed \<Rightarrow>
               if truthy_str orig \<and> Some (origin parsed) \<noteq> orig then None
               else Some (href_of parsed))
      | _ \<Rightarrow> None)"

text \<open>
  \<open>setSafeAttribute\<close> returns the attribute assignment it performs, or \<open>None\<close> where
  it returns false and leaves the node unchanged.
\<close>

definition url_attributes :: "jstr list" where
  "url_attributes = map js [''href'', ''src'', ''action'', ''formaction'']"

definition setSafeAttribute ::
  "url_parser \<Rightarrow> (url \<Rightarrow> jstr) \<Rightarrow> (rat \<Rightarrow> jstr) \<Rightarrow> jstr option \<Rightarrow> jsval \<Rightarrow> jsval
    \<Rightarrow> (jstr \<times> jstr) option" where
  "setSafeAttribute new_URL href_of fmt loc name value =
     (case name of
        JStr n \<Rightarrow>
          (let attr = js_lower n in
           if starts_with (js ''on'') attr \<or> attr = js ''srcdoc'' \<or> attr = js ''style'' then None
           else if attr \<in> set url_attributes then
             (let text = js_String fmt value;
                  safe = (if attr = js ''src'' \<and> starts_with (js ''blob:'') text
                          then sanitizeBlobUrl new_URL href_of (JStr text) loc
                          else sanitizeUrl new_URL href_of loc (JStr text) None False)
              in (case safe of
                    None \<Rightarrow> None
                  | Some s \<Rightarrow> if s = [] then None else Some (attr, s)))
           else Some (attr, js_String fmt (js_coalesce value (JStr []))))
      | _ \<Rightarrow> None)"

text \<open>
  \<open>createSafeLink\<close>: an anchor for a sanitised URL, opened in a new tab without
  access to the opener when the caller allows remote targets or the URL is one.
\<close>

definition createSafeLink ::
  "url_parser \<Rightarrow> (url \<Rightarrow> jstr) \<Rightarrow> (rat \<Rightarrow> jstr) \<Rightarrow> jstr option \<Rightarrow> jsval \<Rightarrow> jsval \<Rightarrow> bool
    \<Rightarrow> dom option" where
  "createSafeLink new_URL href_of fmt loc value label allowRemote =
     (case sanitizeUrl new_URL href_of loc value loc allowRemote of
        None \<Rightarrow> None
      | Some href \<Rightarrow>
          if href = [] then None
          else (let link = text_content (js_String fmt (js_coalesce label (JStr href)))
                             (set_attr ''href'' (JStr href) (el ''a''))
                in if allowRemote \<or> map_option origin (new_URL href None) \<noteq> loc
                   then Some (set_attr ''rel'' (jlit ''noopener noreferrer'')
                          (set_attr ''target'' (jlit ''_blank'') link))
                   else Some link))"

text \<open>What a URL returned by \<open>sanitizeUrl\<close> is guaranteed to be.\<close>

lemma sanitizeUrl_Some:
  assumes "sanitizeUrl new_URL href_of loc v base allowRemote = Some h"
  obtains s u where "v = JStr s" "new_URL s (Some (url_base base loc)) = Some u"
    "protocol u \<in> {js ''http:'', js ''https:''}"
    "h = href_of (u\<lparr>username := [], password := []\<rparr>)"
    "allowRemote \<or> (\<exists>b. new_URL (url_base base loc) None = Some b \<and> origin u = origin b)"
  using assms by (auto simp: sanitizeUrl_def split: jsval.splits if_splits option.splits)

section \<open>Artifact previews\<close>

definition RASTER_MIME_TYPES :: "jstr list" where
  "RASTER_MIME_TYPES = map js [''image/avif'', ''image/bmp'', ''image/gif'', ''image/jpeg'',
     ''image/png'', ''image/webp'']"

definition TEXT_EXTENSIONS :: "jstr list" where
  "TEXT_EXTENSIONS = map js [''c'', ''cfg'', ''conf'', ''cpp'', ''css'', ''csv'', ''diff'',
     ''env'', ''h'', ''ini'', ''js'', ''json'', ''log'', ''md'', ''py'', ''rst'', ''sh'', ''sql'',
     ''text'', ''toml'', ''ts'', ''tsx'', ''txt'', ''yaml'', ''yml'']"

definition PDF_MIME_TYPE :: jstr where
  "PDF_MIME_TYPE = js ''application/pdf''"

text \<open>\<open>name.slice(name.lastIndexOf(".") + 1)\<close>, or the empty string without a dot.\<close>

definition extensionOf :: "jstr \<Rightarrow> jstr" where
  "extensionOf filename =
     (let name = js_lower filename
      in if 46 \<in> set name then last (split_on 46 name) else [])"

definition mime_of :: "(rat \<Rightarrow> jstr) \<Rightarrow> jsval \<Rightarrow> jstr" where
  "mime_of fmt v = js_trim (hd (split_on 59 (js_lower (js_String fmt (js_or v (JStr []))))))"

definition effectivePreviewMime :: "(rat \<Rightarrow> jstr) \<Rightarrow> jsval \<Rightarrow> jsval \<Rightarrow> jstr" where
  "effectivePreviewMime fmt artifact blob =
     (let blobMime = mime_of fmt (dot blob ''type'');
          artifactMime = mime_of fmt (dot artifact ''mime_type'')
      in if blobMime \<noteq> [] \<and> blobMime \<noteq> js ''application/octet-stream'' then blobMime
         else if artifactMime \<noteq> [] then artifactMime else blobMime)"

definition previewFilename :: "(rat \<Rightarrow> jstr) \<Rightarrow> jsval \<Rightarrow> jstr" where
  "previewFilename fmt artifact =
     sanitizeFilename fmt
       (js_or (dot artifact ''filename'') (js_or (dot artifact ''relative_path'') (jlit ''artifact'')))
       (js ''artifact'')"

definition isPdfArtifactCandidate :: "(rat \<Rightarrow> jstr) \<Rightarrow> jsval \<Rightarrow> jsval \<Rightarrow> bool" where
  "isPdfArtifactCandidate fmt artifact blob \<longleftrightarrow>
     effectivePreviewMime fmt artifact blob = PDF_MIME_TYPE
     \<or> extensionOf (previewFilename fmt artifact) = js ''pdf''"

text \<open>The file signature \<open>%PDF-\<close>; \<open>None\<close> stands for a value that is not a Blob.\<close>

definition hasValidPdfHeader :: "8 word list option \<Rightarrow> bool" where
  "hasValidPdfHeader blob =
     (case blob of None \<Rightarrow> False
      | Some bytes \<Rightarrow>
          if length bytes < 5 then False
          else take 5 bytes = [0x25, 0x50, 0x44, 0x46, 0x2d])"

datatype preview_kind = KPdf | KImage | KText | KBinary

record descriptor =
  artifactId :: jstr
  dfilename :: jstr
  contentType :: jstr
  kind :: preview_kind
  durl :: jsval
  dtext :: jsval

definition previewDescriptor ::
  "(rat \<Rightarrow> jstr) \<Rightarrow> jsval \<Rightarrow> jsval \<Rightarrow> bool \<Rightarrow> descriptor" where
  "previewDescriptor fmt artifact blob validatedPdf =
     (let mime = effectivePreviewMime fmt artifact blob;
          filename = previewFilename fmt artifact;
          base = \<lparr>artifactId = sanitizeId fmt (dot artifact ''artifact_id'') [],
                  dfilename = filename,
                  contentType = (if mime \<noteq> [] then mime else js ''application/octet-stream''),
                  kind = KBinary, durl = JUndefined, dtext = JUndefined\<rparr>
      in if validatedPdf \<and> isPdfArtifactCandidate fmt artifact blob
           then base\<lparr>kind := KPdf, contentType := PDF_MIME_TYPE, durl := JNull\<rparr>
         else if mime \<in> set RASTER_MIME_TYPES then base\<lparr>kind := KImage, durl := JNull\<rparr>
         else if starts_with (js ''text/'') mime \<and> mime \<noteq> js ''text/html'' \<and> mime \<noteq> js ''text/xml''
           then base\<lparr>kind := KText, dtext := JStr []\<rparr>
         else if extensionOf filename \<in> set TEXT_EXTENSIONS
             \<and> \<not> js_includes (js ''html'') mime \<and> \<not> js_includes (js ''svg'') mime
             \<and> \<not> js_includes (js ''xml'') mime
           then base\<lparr>kind := KText, dtext := JStr []\<rparr>
         else base)"

definition isSafeRasterMime :: "(rat \<Rightarrow> jstr) \<Rightarrow> jsval \<Rightarrow> bool" where
  "isSafeRasterMime fmt value \<longleftrightarrow>
     js_trim (hd (split_on 59 (js_lower (js_String fmt (js_coalesce value (JStr [])))))) 
       \<in> set RASTER_MIME_TYPES"

definition createPreviewElement ::
  "url_parser \<Rightarrow> (url \<Rightarrow> jstr) \<Rightarrow> (rat \<Rightarrow> jstr) \<Rightarrow> jstr option \<Rightarrow> descriptor \<Rightarrow> jsval
    \<Rightarrow> dom option" where
  "createPreviewElement new_URL href_of fmt loc d blobUrl =
     (case kind d of
        KText \<Rightarrow> Some (text_content (js_String fmt (js_coalesce (dtext d) (JStr []))) (el ''pre''))
      | KImage \<Rightarrow>
          (case sanitizeBlobUrl new_URL href_of (js_or blobUrl (durl d)) loc of
             None \<Rightarrow> None
           | Some u \<Rightarrow>
               if u = [] \<or> contentType d \<notin> set RASTER_MIME_TYPES then None
               else Some (set_attr ''alt''
                      (JStr (if dfilename d \<noteq> [] then dfilename d else js ''artifact preview''))
                      (set_attr ''src'' (JStr u) (el ''img''))))
      | KPdf \<Rightarrow> None
      | KBinary \<Rightarrow> Some (text_content
          ((if dfilename d \<noteq> [] then dfilename d else js ''Artifact'') @ js '' preview unavailable'')
          (el ''div'')))"

lemma previewDescriptor_kind:
  "kind (previewDescriptor fmt a b vp) =
     (let mime = effectivePreviewMime fmt a b in
      if vp \<and> isPdfArtifactCandidate fmt a b then KPdf
      else if mime \<in> set RASTER_MIME_TYPES then KImage
      else if starts_with (js ''text/'') mime \<and> mime \<noteq> js ''text/html'' \<and> mime \<noteq> js ''text/xml''
        then KText
      else if extensionOf (previewFilename fmt a) \<in> set TEXT_EXTENSIONS
          \<and> \<not> js_includes (js ''html'') mime \<and> \<not> js_includes (js ''svg'') mime
          \<and> \<not> js_includes (js ''xml'') mime
        then KText
      else KBinary)"
  by (simp add: previewDescriptor_def Let_def)

end
