(* ===== verification/Protocol.thy ===== *)
theory Protocol
  imports SafeDom
begin

text \<open>
  The event protocol of \<open>frontend/src/protocol.js\<close>: parsing of one untrusted event
  and normalisation of a batch (sort by the trusted cursor, drop duplicate
  sequence numbers and event identifiers, keep the newest \<open>maxEvents\<close>).
\<close>

section \<open>Parsing\<close>

definition EVENT_TYPES :: "jstr list" where
  "EVENT_TYPES = map js [''message.created'', ''message.completed'', ''run.started'',
     ''run.completed'', ''run.failed'', ''run.cancelled'', ''run.queued'', ''run.dequeued'',
     ''run.queue_cleared'', ''attachment.added'', ''artifact.added'', ''thread.updated'',
     ''thread.archived'', ''thread.restored'', ''session.bound'', ''bridge.snapshot_required'',
     ''bridge.error'']"

abbreviation EVENT_KEYS :: "string list" where
  "EVENT_KEYS \<equiv> [''event_id'', ''thread_id'', ''event_type'', ''sequence'', ''payload'']"

definition type_ok :: "jsval \<Rightarrow> bool" where
  "type_ok v \<longleftrightarrow> (case v of JStr t \<Rightarrow> t \<noteq> [] \<and> length t \<le> 120 | _ \<Rightarrow> False)"

definition id_field_ok :: "jsval \<Rightarrow> bool" where
  "id_field_ok v \<longleftrightarrow> (case v of JUndefined \<Rightarrow> True | JStr s \<Rightarrow> id_pattern 200 s | _ \<Rightarrow> False)"

definition id_field :: "jsval \<Rightarrow> jsval" where
  "id_field v = (if v = JUndefined then JUndefined else JStr (sanitizeIdText (as_string v) []))"

definition parseEvent :: "bool \<Rightarrow> jsval \<Rightarrow> jsval option" where
  "parseEvent allowUnknownType value =
     (case value of
        JObj kvs \<Rightarrow>
          if \<not> is_safe_integer (dot value ''sequence'') \<or> to_int (dot value ''sequence'') \<le> 0 then None
          else if \<not> type_ok (dot value ''event_type'') then None
          else if \<not> allowUnknownType \<and> as_string (dot value ''event_type'') \<notin> set EVENT_TYPES then None
          else if \<not> is_record (dot value ''payload'') then None
          else if \<not> id_field_ok (dot value ''event_id'') then None
          else if \<not> id_field_ok (dot value ''thread_id'') then None
          else Some (JObj
            (obj_set (obj_set (obj_set (obj_set (obj_set kvs
              (js ''event_id'') (id_field (dot value ''event_id'')))
              (js ''thread_id'') (id_field (dot value ''thread_id'')))
              (js ''event_type'') (dot value ''event_type''))
              (js ''sequence'') (dot value ''sequence''))
              (js ''payload'') (dot value ''payload'')))
      | _ \<Rightarrow> None)"

text \<open>The values \<open>parseEvent\<close> produces.\<close>

definition wf_event :: "jsval \<Rightarrow> bool" where
  "wf_event e \<longleftrightarrow> (\<exists>kvs. e = JObj kvs \<and> set (map js EVENT_KEYS) \<subseteq> fst ` set kvs)
     \<and> is_safe_integer (dot e ''sequence'') \<and> 0 < to_int (dot e ''sequence'')
     \<and> type_ok (dot e ''event_type'') \<and> is_record (dot e ''payload'')
     \<and> id_field_ok (dot e ''event_id'') \<and> id_field_ok (dot e ''thread_id'')"

abbreviation sequence :: "jsval \<Rightarrow> int" where
  "sequence e \<equiv> to_int (dot e ''sequence'')"

abbreviation event_type :: "jsval \<Rightarrow> jsval" where
  "event_type e \<equiv> dot e ''event_type''"

abbreviation event_id :: "jsval \<Rightarrow> jsval" where
  "event_id e \<equiv> dot e ''event_id''"

abbreviation payload :: "jsval \<Rightarrow> jsval" where
  "payload e \<equiv> dot e ''payload''"

lemma id_field_id: "id_field_ok v \<Longrightarrow> id_field v = v"
  by (auto simp: id_field_def id_field_ok_def split: jsval.splits)

lemma parseEvent_wf: "parseEvent allow v = Some e \<Longrightarrow> wf_event e"
  by (auto simp: parseEvent_def wf_event_def id_field_id split: jsval.splits if_splits)

lemma parseEvent_fields:
  assumes "parseEvent allow v = Some e"
  shows "dot e k = dot v k"
proof -
  from assms obtain kvs where "v = JObj kvs"
    by (auto simp: parseEvent_def split: jsval.splits)
  with assms show ?thesis
    by (auto simp: parseEvent_def id_field_id split: if_splits)
qed

lemma wf_event_parse:
  assumes "wf_event e"
  shows "parseEvent True e = Some e"
proof -
  from assms obtain kvs where e: "e = JObj kvs" and keys: "set (map js EVENT_KEYS) \<subseteq> fst ` set kvs"
    by (auto simp: wf_event_def)
  have same: "obj_set kvs (js k) (dot e k) = kvs" if "k \<in> set EVENT_KEYS" for k
    using that keys by (intro obj_set_get_same) (auto simp: e dot_JObj)
  have "obj_set kvs (js ''event_id'') (dot e ''event_id'') = kvs"
    "obj_set kvs (js ''thread_id'') (dot e ''thread_id'') = kvs"
    "obj_set kvs (js ''event_type'') (dot e ''event_type'') = kvs"
    "obj_set kvs (js ''sequence'') (dot e ''sequence'') = kvs"
    "obj_set kvs (js ''payload'') (dot e ''payload'') = kvs"
    by (rule same; simp)+
  with assms show ?thesis
    by (auto simp: parseEvent_def wf_event_def e id_field_id)
qed

interpretation event_parser: partial_projection "parseEvent True" wf_event
  by unfold_locales (auto intro: parseEvent_wf wf_event_parse)

lemma wf_event_seq_pos: "wf_event e \<Longrightarrow> 0 < sequence e"
  by (simp add: wf_event_def)

lemma wf_event_seq_truthy: "wf_event e \<Longrightarrow> truthy (dot e ''sequence'')"
  by (auto simp: wf_event_def elim!: is_safe_integerE)

lemma wf_event_id: "wf_event e \<Longrightarrow> truthy (event_id e) \<longleftrightarrow> event_id e \<noteq> JUndefined"
  by (auto simp: wf_event_def id_field_ok_def id_pattern_def split: jsval.splits)

section \<open>Normalisation\<close>

fun dedupe :: "int set \<Rightarrow> jsval set \<Rightarrow> jsval list \<Rightarrow> jsval list" where
  "dedupe seenSequences seenIds [] = []"
| "dedupe seenSequences seenIds (event # events) =
     (if sequence event \<in> seenSequences \<or> (truthy (event_id event) \<and> event_id event \<in> seenIds)
      then dedupe seenSequences seenIds events
      else event # dedupe (insert (sequence event) seenSequences)
             (if truthy (event_id event) then insert (event_id event) seenIds else seenIds) events)"

definition event_limit :: "jsnum \<Rightarrow> nat" where
  "event_limit maxEvents =
     (case maxEvents of Fin r \<Rightarrow> nat (max 1 (min 10000 \<lfloor>r\<rfloor>)) | _ \<Rightarrow> 10000)"

definition event_candidate :: "jsval \<Rightarrow> jsval option" where
  "event_candidate item = (if truthy (dot item ''sequence'') then parseEvent True item else None)"

definition normalizeEvents :: "jsnum \<Rightarrow> jsval \<Rightarrow> jsval list" where
  "normalizeEvents maxEvents events =
     slice_last (event_limit maxEvents)
       (dedupe {} {} (sort_key sequence (List.map_filter event_candidate (as_list events))))"

definition parseEvents :: "bool \<Rightarrow> jsval \<Rightarrow> jsval list" where
  "parseEvents allowUnknownType value =
     (if is_array value
      then normalizeEvents (Fin 10000)
        (JArr (List.map_filter (parseEvent allowUnknownType) (as_list value)))
      else [])"

definition parseEnvelope :: "jsval \<Rightarrow> jsval option" where
  "parseEnvelope value =
     (case value of
        JObj kvs \<Rightarrow>
          (let type = as_string (dot value ''type'') in
           if type = [] \<or> 120 < length type then None
           else Some (JObj (obj_set kvs (js ''type'') (JStr type))))
      | _ \<Rightarrow> None)"

definition parseIdentifier :: "(rat \<Rightarrow> jstr) \<Rightarrow> jsval \<Rightarrow> jstr \<Rightarrow> jstr option" where
  "parseIdentifier fmt value fallback =
     (let raw = js_String fmt (js_coalesce value (JStr [])) in
      if id_pattern 200 raw then Some raw
      else if id_pattern 200 fallback then Some fallback else None)"

lemma event_limit_bounds [js_bounds]: "1 \<le> event_limit m \<and> event_limit m \<le> 10000"
  by (auto simp: event_limit_def split: jsnum.splits)

lemma event_candidate_wf: "event_candidate v = Some e \<Longrightarrow> wf_event e"
  by (auto simp: event_candidate_def dest: parseEvent_wf split: if_splits)

lemma wf_event_candidate: "wf_event e \<Longrightarrow> event_candidate e = Some e"
  by (simp add: event_candidate_def wf_event_seq_truthy wf_event_parse)

text \<open>For a well-formed event the guard on \<open>item?.sequence\<close> changes nothing.\<close>

lemma event_candidate_eq: "event_candidate v = parseEvent True v"
proof (cases "parseEvent True v")
  case None
  then show ?thesis by (simp add: event_candidate_def)
next
  case (Some e)
  then have "truthy (dot v ''sequence'')"
    using parseEvent_fields [of True v e "''sequence''"] parseEvent_wf wf_event_seq_truthy by metis
  with Some show ?thesis by (simp add: event_candidate_def)
qed

text \<open>The contract of an event list: sorted by cursor, no duplicates, every entry valid.\<close>

definition ids_distinct :: "jsval list \<Rightarrow> bool" where
  "ids_distinct es \<longleftrightarrow> distinct (filter truthy (map event_id es))"

definition event_list :: "jsval list \<Rightarrow> bool" where
  "event_list es \<longleftrightarrow> sorted_wrt (\<lambda>x y. sequence x < sequence y) es \<and> ids_distinct es
     \<and> (\<forall>e\<in>set es. wf_event e)"

lemma ids_distinct_drop: "ids_distinct es \<Longrightarrow> ids_distinct (drop n es)"
  unfolding ids_distinct_def
  by (metis append_take_drop_id distinct_append filter_append map_append)

lemma event_list_slice: "event_list es \<Longrightarrow> event_list (slice_last n es)"
  by (auto simp: event_list_def slice_last_def sorted_wrt_dropI ids_distinct_drop
      dest: in_set_dropD)

lemma event_list_appendD:
  assumes "event_list (us @ vs)"
  shows "event_list us" and "event_list vs"
  using assms by (auto simp: event_list_def ids_distinct_def sorted_wrt_append)

lemma event_list_Nil [simp]: "event_list []"
  by (simp add: event_list_def ids_distinct_def)

lemma set_dedupe: "set (dedupe S I es) \<subseteq> set es"
  by (induction S I es rule: dedupe.induct) auto

lemma dedupe_fresh:
  "e \<in> set (dedupe S I es) \<Longrightarrow> sequence e \<notin> S \<and> (truthy (event_id e) \<longrightarrow> event_id e \<notin> I)"
  by (induction S I es rule: dedupe.induct) (auto split: if_splits)

lemma dedupe_sorted:
  "sorted (map sequence es) \<Longrightarrow> sorted_wrt (\<lambda>x y. sequence x < sequence y) (dedupe S I es)"
proof (induction S I es rule: dedupe.induct)
  case (2 S I event events)
  show ?case
  proof (cases "sequence event \<in> S \<or> (truthy (event_id event) \<and> event_id event \<in> I)")
    case True
    with 2 show ?thesis by auto
  next
    case False
    let ?S = "insert (sequence event) S"
    let ?I = "if truthy (event_id event) then insert (event_id event) I else I"
    have "sequence event < sequence x" if "x \<in> set (dedupe ?S ?I events)" for x
    proof -
      have "sequence event \<le> sequence x"
        using subsetD [OF set_dedupe that] "2.prems" by simp
      moreover have "sequence x \<noteq> sequence event"
        using dedupe_fresh [OF that] by auto
      ultimately show ?thesis by simp
    qed
    with False 2 show ?thesis by auto
  qed
qed simp

lemma dedupe_ids: "ids_distinct (dedupe S I es)"
  unfolding ids_distinct_def
proof (induction S I es rule: dedupe.induct)
  case (2 S I event events)
  show ?case
  proof (cases "sequence event \<in> S \<or> (truthy (event_id event) \<and> event_id event \<in> I)")
    case True
    with 2 show ?thesis by auto
  next
    case False
    let ?d = "dedupe (insert (sequence event) S)
      (if truthy (event_id event) then insert (event_id event) I else I) events"
    have "event_id event \<notin> event_id ` set ?d" if "truthy (event_id event)"
      using that dedupe_fresh [of _ "insert (sequence event) S" "insert (event_id event) I" events]
      by fastforce
    with False 2 show ?thesis by (auto simp del: dedupe.simps simp: dedupe.simps(2))
  qed
qed simp

lemma dedupe_id:
  assumes "event_list es"
    and "\<forall>e\<in>set es. sequence e \<notin> S \<and> (truthy (event_id e) \<longrightarrow> event_id e \<notin> I)"
  shows "dedupe S I es = es"
  using assms
proof (induction S I es rule: dedupe.induct)
  case (2 S I event events)
  have "event_list events"
    using "2.prems"(1) by (auto simp: event_list_def ids_distinct_def split: if_splits)
  moreover have "\<forall>e\<in>set events. sequence e \<noteq> sequence event"
    using "2.prems"(1) by (auto simp: event_list_def)
  moreover have "truthy (event_id event) \<Longrightarrow> \<forall>e\<in>set events. event_id e \<noteq> event_id event"
    using "2.prems"(1) by (auto simp: event_list_def ids_distinct_def image_iff)
  ultimately show ?case
    using 2 by auto
qed simp

lemma map_filter_candidates:
  "\<forall>e\<in>set es. wf_event e \<Longrightarrow> List.map_filter event_candidate es = es"
  unfolding event_candidate_eq [abs_def] by (rule event_parser.map_filter_ok)

lemma set_map_filter_candidates:
  "set (List.map_filter event_candidate es) = {e. \<exists>v\<in>set es. parseEvent True v = Some e}"
  by (force simp: map_filter_def event_candidate_eq)

lemma normalizeEvents_list: "event_list (normalizeEvents m v)"
proof -
  let ?c = "List.map_filter event_candidate (as_list v)"
  have "event_list (dedupe {} {} (sort_key sequence ?c))"
    unfolding event_list_def
    using dedupe_sorted dedupe_ids set_dedupe [of "{}" "{}" "sort_key sequence ?c"]
    by (fastforce simp: set_map_filter_candidates dest: parseEvent_wf)
  then show ?thesis
    by (simp add: normalizeEvents_def event_list_slice)
qed

lemma normalizeEvents_id:
  assumes "event_list es"
  shows "normalizeEvents m (JArr es) = slice_last (event_limit m) es"
proof -
  have "sort_key sequence es = es"
    using assms by (simp add: event_list_def sort_key_strict_id)
  with assms show ?thesis
    by (simp add: normalizeEvents_def map_filter_candidates event_list_def dedupe_id)
qed

lemma length_normalizeEvents [js_bounds]: "length (normalizeEvents m v) \<le> event_limit m"
  by (simp add: normalizeEvents_def)

lemma set_normalizeEvents:
  "e \<in> set (normalizeEvents m v) \<Longrightarrow> \<exists>x\<in>set (as_list v). parseEvent True x = Some e"
  using set_slice_last set_dedupe
  by (fastforce simp: normalizeEvents_def set_map_filter_candidates)

section \<open>Independence of the delivery order\<close>

text \<open>A batch in which no two entries clash: what is left of it is only sorted and truncated.\<close>

definition clash_free :: "jsval list \<Rightarrow> bool" where
  "clash_free es \<longleftrightarrow> distinct (map sequence es) \<and> ids_distinct es"

lemma mset_map_filter_cong:
  "mset xs = mset ys \<Longrightarrow> mset (List.map_filter f xs) = mset (List.map_filter f ys)"
proof -
  have *: "mset (List.map_filter f zs) = image_mset (the \<circ> f) (filter_mset (\<lambda>x. f x \<noteq> None) (mset zs))"
    for zs by (induction zs) (auto split: option.splits)
  show "mset xs = mset ys \<Longrightarrow> ?thesis" by (simp add: *)
qed

lemma clash_free_mset: "mset xs = mset ys \<Longrightarrow> clash_free xs \<Longrightarrow> clash_free ys"
proof -
  assume "mset xs = mset ys" and c: "clash_free xs"
  then have m: "mset (map sequence xs) = mset (map sequence ys)"
      "mset (filter truthy (map event_id xs)) = mset (filter truthy (map event_id ys))"
    by simp_all
  show "clash_free ys"
    using c mset_eq_imp_distinct_iff [OF m(1)] mset_eq_imp_distinct_iff [OF m(2)]
    by (simp add: clash_free_def ids_distinct_def)
qed

lemma sort_clash_free:
  assumes "clash_free es" and "\<forall>e\<in>set es. wf_event e"
  shows "event_list (sort_key sequence es)"
proof -
  have "clash_free (sort_key sequence es)"
    by (rule clash_free_mset [OF _ assms(1)]) simp
  then have "distinct (map sequence (sort_key sequence es))" "ids_distinct (sort_key sequence es)"
    by (simp_all add: clash_free_def)
  then show ?thesis
    using assms(2) by (simp add: event_list_def sorted_distinct_key_strict)
qed

lemma normalizeEvents_clash_free:
  assumes "clash_free (List.map_filter event_candidate xs)"
  shows "normalizeEvents m (JArr xs)
    = slice_last (event_limit m) (sort_key sequence (List.map_filter event_candidate xs))"
proof -
  have "\<forall>e\<in>set (List.map_filter event_candidate xs). wf_event e"
    by (auto simp: set_map_filter_candidates intro: parseEvent_wf)
  from sort_clash_free [OF assms this] show ?thesis
    by (simp add: normalizeEvents_def dedupe_id)
qed

lemma sort_key_mset_cong:
  assumes "mset xs = mset ys" and "distinct (map f xs)"
  shows "sort_key f xs = sort_key f ys"
proof (rule map_sorted_distinct_set_unique)
  have d: "distinct (map f zs)" if "mset zs = mset xs" for zs
    using assms(2) that by (metis mset_eq_imp_distinct_iff mset_map)
  have set: "set ys = set xs" using assms(1) by (metis mset_eq_setD)
  show "set (sort_key f xs) = set (sort_key f ys)" by (simp add: set)
  show "inj_on f (set (sort_key f xs) \<union> set (sort_key f ys))"
    using assms(2) by (simp add: set distinct_map)
  show "distinct (map f (sort_key f xs))" "distinct (map f (sort_key f ys))"
    using assms(1) by (simp_all add: d)
qed simp_all

section \<open>Properties\<close>

text \<open>
  C7: Whatever a peer sends, the normalised batch is strictly increasing in the
  sequence number, carries no event identifier twice, has between zero and
  \<open>maxEvents\<close> (at most 10000) entries, and consists of parsed inputs only.
\<close>

theorem normalizeEvents_correct:
  "sorted_wrt (\<lambda>x y. sequence x < sequence y) (normalizeEvents m v)
   \<and> distinct (filter truthy (map event_id (normalizeEvents m v)))
   \<and> length (normalizeEvents m v) \<le> event_limit m \<and> event_limit m \<le> 10000
   \<and> set (normalizeEvents m v) \<subseteq> {e. \<exists>x. x \<in> set (as_list v) \<and> parseEvent True x = Some e}"
  using normalizeEvents_list [of m v] set_normalizeEvents [of _ m v] length_normalizeEvents [of m v]
    event_limit_bounds [of m]
  by (auto simp: event_list_def ids_distinct_def)

text \<open>
  Normalising a normalised batch with the same limit changes nothing, and a
  parsed event parses to itself: the two functions are projections.
\<close>

theorem normalizeEvents_idempotent:
  "normalizeEvents m (JArr (normalizeEvents m v)) = normalizeEvents m v"
proof -
  have "normalizeEvents m (JArr (normalizeEvents m v))
      = slice_last (event_limit m) (normalizeEvents m v)"
    by (rule normalizeEvents_id [OF normalizeEvents_list])
  then show ?thesis using length_normalizeEvents [of m v] by simp
qed

text \<open>
  The order in which a batch was delivered does not matter: two arrays with the
  same entries, whose parsed events share no sequence number and no identifier,
  normalise to the same list.
\<close>

theorem normalizeEvents_order_independent:
  assumes "mset xs = mset ys" and "clash_free (List.map_filter (parseEvent True) xs)"
  shows "normalizeEvents m (JArr xs) = normalizeEvents m (JArr ys)"
proof -
  have p: "event_candidate = parseEvent True" by (rule ext) (rule event_candidate_eq)
  let ?p = "List.map_filter (parseEvent True)"
  have m: "mset (?p xs) = mset (?p ys)" by (rule mset_map_filter_cong [OF assms(1)])
  have "sort_key sequence (?p xs) = sort_key sequence (?p ys)"
    using m assms(2) by (intro sort_key_mset_cong) (simp_all add: clash_free_def)
  then show ?thesis
    using assms(2) clash_free_mset [OF m assms(2)] by (simp add: normalizeEvents_clash_free p)
qed

text \<open>A minimal event, for the instances of the theorems above.\<close>

definition sample_event :: "int \<Rightarrow> string \<Rightarrow> string \<Rightarrow> jsval" where
  "sample_event i name t = JObj [(js ''event_id'', jlit name), (js ''thread_id'', JUndefined),
     (js ''event_type'', jlit t), (js ''sequence'', jint i), (js ''payload'', JObj [])]"

lemma sample_event_fields [simp]:
  "dot (sample_event i name t) ''event_id'' = jlit name"
  "dot (sample_event i name t) ''thread_id'' = JUndefined"
  "dot (sample_event i name t) ''event_type'' = jlit t"
  "dot (sample_event i name t) ''sequence'' = jint i"
  "dot (sample_event i name t) ''payload'' = JObj []"
  by (simp_all add: sample_event_def dot_JObj obj_get_def)

lemma wf_sample_event:
  "0 < i \<Longrightarrow> i \<le> MAX_SAFE \<Longrightarrow> id_pattern 200 (js name) \<Longrightarrow> t \<noteq> [] \<Longrightarrow> length t \<le> 120
   \<Longrightarrow> wf_event (sample_event i name t)"
  unfolding wf_event_def sample_event_fields
  by (auto simp: id_field_ok_def type_ok_def) (auto simp: sample_event_def)

lemma sample_ids: "id_pattern 200 (js ''a'')" "id_pattern 200 (js ''b'')" "id_pattern 200 (js ''c'')"
  by (simp_all add: id_pattern_def js_def is_id_char_def is_alpha_def)

theorem normalizeEvents_order_independent_witness:
  "normalizeEvents (Fin 10) (JArr [sample_event 2 ''b'' ''x'', sample_event 1 ''a'' ''x''])
     = normalizeEvents (Fin 10) (JArr [sample_event 1 ''a'' ''x'', sample_event 2 ''b'' ''x''])"
proof (rule normalizeEvents_order_independent)
  let ?xs = "[sample_event 2 ''b'' ''x'', sample_event 1 ''a'' ''x'']"
  show "mset ?xs = mset [sample_event 1 ''a'' ''x'', sample_event 2 ''b'' ''x'']" by simp
  have "\<forall>e\<in>set ?xs. wf_event e"
    using sample_ids by (auto intro!: wf_sample_event simp: MAX_SAFE_def)
  then show "clash_free (List.map_filter (parseEvent True) ?xs)"
    by (subst event_parser.map_filter_ok) (simp_all add: clash_free_def ids_distinct_def)
qed

end
