(* ===== verification/Transitions.thy ===== *)
theory Transitions
  imports Prelude
begin

text \<open>
  The contract of a component modelled as a step relation: its reachable states are the least
  set that contains the initial states and is closed under the steps. An inductive invariant
  holds in every reachable state, and a component whose steps are steps of another, seen
  through an abstraction, reaches only what the other reaches.
\<close>

locale reachability =
  fixes init :: "'s \<Rightarrow> bool" and step :: "'s \<Rightarrow> 's \<Rightarrow> bool" and reach :: "'s \<Rightarrow> bool"
  assumes reach_init: "init s \<Longrightarrow> reach s"
    and reach_step: "reach s \<Longrightarrow> step s t \<Longrightarrow> reach t"
    and reach_least: "reach s \<Longrightarrow> (\<And>s. init s \<Longrightarrow> P s) \<Longrightarrow>
      (\<And>s t. reach s \<Longrightarrow> P s \<Longrightarrow> step s t \<Longrightarrow> P t) \<Longrightarrow> P s"
begin

lemma reach_steps: "step\<^sup>*\<^sup>* s t \<Longrightarrow> reach s \<Longrightarrow> reach t"
  by (induction rule: rtranclp_induct) (auto intro: reach_step)

lemma reach_iff: "reach t \<longleftrightarrow> (\<exists>s. init s \<and> step\<^sup>*\<^sup>* s t)"
proof
  show "reach t \<Longrightarrow> \<exists>s. init s \<and> step\<^sup>*\<^sup>* s t"
    by (erule reach_least) (auto intro: rtranclp.rtrancl_into_rtrancl)
  show "\<exists>s. init s \<and> step\<^sup>*\<^sup>* s t \<Longrightarrow> reach t"
    using reach_init reach_steps by blast
qed

end

locale inductive_invariant = reachability +
  fixes inv :: "'a \<Rightarrow> bool"
  assumes inv_init: "init s \<Longrightarrow> inv s"
    and inv_step: "reach s \<Longrightarrow> inv s \<Longrightarrow> step s t \<Longrightarrow> inv t"
begin

lemma holds: "reach s \<Longrightarrow> inv s"
  by (erule reach_least) (auto intro: inv_init inv_step)

lemma holds_after: "reach s \<Longrightarrow> step\<^sup>*\<^sup>* s t \<Longrightarrow> inv t"
  using reach_steps holds by blast

end

locale simulation = concr: reachability cinit cstep creach + abstr: reachability ainit astep areach
  for cinit :: "'c \<Rightarrow> bool" and cstep :: "'c \<Rightarrow> 'c \<Rightarrow> bool" and creach :: "'c \<Rightarrow> bool"
    and ainit :: "'a \<Rightarrow> bool" and astep :: "'a \<Rightarrow> 'a \<Rightarrow> bool" and areach :: "'a \<Rightarrow> bool" +
  fixes abs_of :: "'c \<Rightarrow> 'a"
  assumes abs_init: "cinit s \<Longrightarrow> ainit (abs_of s)"
    and abs_step: "creach s \<Longrightarrow> cstep s t \<Longrightarrow> astep\<^sup>*\<^sup>* (abs_of s) (abs_of t)"
begin

lemma abs_reach: "creach s \<Longrightarrow> areach (abs_of s)"
proof (erule concr.reach_least)
  show "cinit s \<Longrightarrow> areach (abs_of s)" for s
    by (intro abstr.reach_init abs_init)
  show "creach s \<Longrightarrow> areach (abs_of s) \<Longrightarrow> cstep s t \<Longrightarrow> areach (abs_of t)" for s t
    using abs_step abstr.reach_steps by blast
qed

end

end
