(* ===== verification/EventStream.thy ===== *)
theory EventStream
  imports Protocol Transitions
begin

text \<open>
  The client side of the Bridge's event stream, \<open>frontend/src/event-stream.js\<close>:
  a cursor, the retained events, and a flag that is raised at a replay boundary
  until an authoritative snapshot has been fetched. The state is an immutable
  record; the operations return the next one, as the source does.
\<close>

section \<open>State and operations\<close>

record event_stream =
  cursor :: int
  events :: "jsval list"
  maxEvents :: rat
  needsSnapshot :: bool
  error :: "jstr option"

text \<open>\<open>Math.max(1, Math.min(10000, Number(maxEvents) || 10000))\<close>.\<close>

definition stream_limit :: "jsnum \<Rightarrow> rat" where
  "stream_limit limit =
     (case limit of NaN \<Rightarrow> 10000 | PosInf \<Rightarrow> 10000 | NegInf \<Rightarrow> 1
      | Fin r \<Rightarrow> if r = 0 then 10000 else max 1 (min 10000 r))"

definition createEventStreamState :: "jsval \<Rightarrow> jsnum \<Rightarrow> event_stream" where
  "createEventStreamState cur limit =
     \<lparr>cursor = (if is_safe_integer cur \<and> 0 \<le> to_int cur then to_int cur else 0),
      events = [], maxEvents = stream_limit limit, needsSnapshot = False, error = None\<rparr>"

datatype reason = Invalid | Replay | Duplicate
datatype control = Snapshot | Error

datatype accept_result =
    Rejected (result_state: event_stream) reason
  | Accepted (result_state: event_stream) (result_control: "control option") jsval

definition stream_error_message :: "jsval \<Rightarrow> jstr" where
  "stream_error_message event =
     (case dot (payload event) ''error'' of
        JStr s \<Rightarrow> take 1000 s
      | _ \<Rightarrow> js ''Bridge event stream failed'')"

definition acceptEvent :: "event_stream \<Rightarrow> jsval \<Rightarrow> accept_result" where
  "acceptEvent current value =
     (case parseEvent True value of
        None \<Rightarrow> Rejected current Invalid
      | Some event \<Rightarrow>
          if sequence event \<le> cursor current then Rejected current Replay
          else if event_type event = jlit ''bridge.snapshot_required'' then
            Accepted (current\<lparr>cursor := sequence event, needsSnapshot := True\<rparr>) (Some Snapshot) event
          else if event_type event = jlit ''bridge.error'' then
            Accepted (current\<lparr>cursor := sequence event, needsSnapshot := True,
                error := Some (stream_error_message event)\<rparr>) (Some Error) event
          else if needsSnapshot current then Accepted current (Some Snapshot) event
          else if truthy (event_id event)
              \<and> list_ex (\<lambda>item. event_id item = event_id event) (events current) then
            Rejected current Duplicate
          else Accepted (current\<lparr>cursor := sequence event,
                 events := normalizeEvents (Fin (maxEvents current)) (JArr (events current @ [event])),
                 needsSnapshot := False, error := None\<rparr>) None event)"

record batch_result =
  bstate :: event_stream
  accepted :: "jsval list"
  controls :: "control list"

text \<open>The loop of \<open>acceptEvents\<close>: it stops after the first control event.\<close>

fun acceptLoop :: "event_stream \<Rightarrow> jsval list \<Rightarrow> batch_result" where
  "acceptLoop next [] = \<lparr>bstate = next, accepted = [], controls = []\<rparr>"
| "acceptLoop next (value # values) =
     (case acceptEvent next value of
        Rejected s _ \<Rightarrow> acceptLoop s values
      | Accepted s None event \<Rightarrow>
          (let r = acceptLoop s values in r\<lparr>accepted := event # accepted r\<rparr>)
      | Accepted s (Some c) event \<Rightarrow> \<lparr>bstate = s, accepted = [event], controls = [c]\<rparr>)"

definition acceptEvents :: "event_stream \<Rightarrow> jsval \<Rightarrow> batch_result" where
  "acceptEvents state values = acceptLoop state (normalizeEvents (Fin 10000) values)"

definition resetEventStream :: "event_stream \<Rightarrow> jsval \<Rightarrow> event_stream" where
  "resetEventStream state cur = createEventStreamState cur (Fin (maxEvents state))"

section \<open>The invariant\<close>

definition stream_inv :: "event_stream \<Rightarrow> bool" where
  "stream_inv s \<longleftrightarrow> 0 \<le> cursor s \<and> event_list (events s)
     \<and> (\<forall>e\<in>set (events s). sequence e \<le> cursor s)
     \<and> 1 \<le> maxEvents s \<and> maxEvents s \<le> 10000
     \<and> length (events s) \<le> event_limit (Fin (maxEvents s))"

definition control_type :: "jsval \<Rightarrow> bool" where
  "control_type e \<longleftrightarrow> event_type e \<in> {jlit ''bridge.snapshot_required'', jlit ''bridge.error''}"

lemma stream_limit_bounds [js_bounds]: "1 \<le> stream_limit n \<and> stream_limit n \<le> 10000"
  by (auto simp: stream_limit_def split: jsnum.splits)

lemma create_inv [js_wf]: "stream_inv (createEventStreamState cur n)"
  using stream_limit_bounds [of n]
  by (simp add: stream_inv_def createEventStreamState_def)

lemma reset_inv [js_wf]: "stream_inv (resetEventStream s cur)"
  by (simp add: resetEventStream_def create_inv)

text \<open>A reset keeps the retention limit.\<close>

lemma reset_limit: "stream_inv s \<Longrightarrow> maxEvents (resetEventStream s cur) = maxEvents s"
  by (auto simp: resetEventStream_def createEventStreamState_def stream_limit_def stream_inv_def)

text \<open>
  Appending a parsed event beyond the cursor with a fresh identifier: the
  normalisation inside \<open>acceptEvent\<close> only truncates.
\<close>

lemma event_list_snoc:
  assumes "event_list es" and "wf_event e" and "\<forall>x\<in>set es. sequence x < sequence e"
    and "\<not> (truthy (event_id e) \<and> list_ex (\<lambda>x. event_id x = event_id e) es)"
  shows "event_list (es @ [e])"
  using assms
  by (auto simp: event_list_def ids_distinct_def list_ex_iff sorted_wrt_append)

lemma append_normalized:
  assumes "stream_inv s" and "parseEvent True v = Some e" and "cursor s < sequence e"
    and "\<not> (truthy (event_id e) \<and> list_ex (\<lambda>x. event_id x = event_id e) (events s))"
  shows "event_list (events s @ [e])"
    and "normalizeEvents (Fin (maxEvents s)) (JArr (events s @ [e]))
      = slice_last (event_limit (Fin (maxEvents s))) (events s @ [e])"
proof -
  show l: "event_list (events s @ [e])"
    using assms by (intro event_list_snoc) (auto simp: stream_inv_def dest: parseEvent_wf)
  show "normalizeEvents (Fin (maxEvents s)) (JArr (events s @ [e]))
      = slice_last (event_limit (Fin (maxEvents s))) (events s @ [e])"
    using l by (rule normalizeEvents_id)
qed

text \<open>What each outcome of \<open>acceptEvent\<close> means for the state.\<close>

lemma acceptEvent_Rejected: "acceptEvent s v = Rejected s' r \<Longrightarrow> s' = s"
  by (auto simp: acceptEvent_def split: option.splits if_splits)

lemma acceptEvent_Accepted_None:
  assumes "acceptEvent s v = Accepted s' None e" and "stream_inv s"
  shows "parseEvent True v = Some e" "cursor s < sequence e" "\<not> control_type e" "\<not> needsSnapshot s"
    "s' = s\<lparr>cursor := sequence e,
       events := slice_last (event_limit (Fin (maxEvents s))) (events s @ [e]), error := None\<rparr>"
    "event_list (events s @ [e])"
proof -
  show p: "parseEvent True v = Some e" "cursor s < sequence e" "\<not> control_type e" "\<not> needsSnapshot s"
    using assms(1) by (auto simp: acceptEvent_def control_type_def split: option.splits if_splits)
  have fresh: "\<not> (truthy (event_id e) \<and> list_ex (\<lambda>x. event_id x = event_id e) (events s))"
    using assms(1) by (auto simp: acceptEvent_def split: option.splits if_splits)
  note n = append_normalized [OF assms(2) p(1,2) fresh]
  show "event_list (events s @ [e])" by (rule n(1))
  have "s' = s\<lparr>cursor := sequence e,
       events := normalizeEvents (Fin (maxEvents s)) (JArr (events s @ [e])),
       needsSnapshot := False, error := None\<rparr>"
    using assms(1) by (auto simp: acceptEvent_def split: option.splits if_splits)
  then show "s' = s\<lparr>cursor := sequence e,
       events := slice_last (event_limit (Fin (maxEvents s))) (events s @ [e]), error := None\<rparr>"
    using n(2) p(4) by simp
qed

lemma acceptEvent_Accepted_Some:
  assumes "acceptEvent s v = Accepted s' (Some c) e"
  shows "parseEvent True v = Some e" "cursor s < sequence e" "events s' = events s"
    "maxEvents s' = maxEvents s" "needsSnapshot s'"
    "if control_type e then cursor s' = sequence e else s' = s"
  using assms
  by (auto simp: acceptEvent_def control_type_def split: option.splits if_splits)

lemma acceptEvent_inv [js_wf]:
  assumes "stream_inv s"
  shows "stream_inv (result_state (acceptEvent s v))"
proof (cases "acceptEvent s v")
  case (Rejected s' r)
  with assms acceptEvent_Rejected [OF Rejected] show ?thesis by simp
next
  case (Accepted s' c e)
  show ?thesis
  proof (cases c)
    case None
    with Accepted have a: "acceptEvent s v = Accepted s' None e" by simp
    note f = acceptEvent_Accepted_None [OF a assms]
    have "\<forall>x\<in>set (slice_last (event_limit (Fin (maxEvents s))) (events s @ [e])).
        sequence x \<le> sequence e"
      using set_slice_last [of "event_limit (Fin (maxEvents s))" "events s @ [e]"] assms f(2)
      by (fastforce simp: stream_inv_def)
    with f assms show ?thesis
      by (auto simp: a stream_inv_def intro: event_list_slice)
  next
    case (Some c')
    with Accepted have a: "acceptEvent s v = Accepted s' (Some c') e" by simp
    note f = acceptEvent_Accepted_Some [OF a]
    with assms show ?thesis
      by (fastforce simp: a stream_inv_def split: if_splits)
  qed
qed

lemma acceptEvent_cursor_mono: "stream_inv s \<Longrightarrow> cursor s \<le> cursor (result_state (acceptEvent s v))"
proof (cases "acceptEvent s v")
  case (Accepted s' c e)
  assume inv: "stream_inv s"
  show ?thesis
  proof (cases c)
    case None
    with Accepted have a: "acceptEvent s v = Accepted s' None e" by simp
    from acceptEvent_Accepted_None(2,5) [OF a inv] show ?thesis by (simp add: a)
  next
    case (Some c')
    with Accepted have a: "acceptEvent s v = Accepted s' (Some c') e" by simp
    from acceptEvent_Accepted_Some(2,6) [OF a] show ?thesis by (auto simp: a split: if_splits)
  qed
next
  case (Rejected s' r)
  from acceptEvent_Rejected [OF Rejected] show ?thesis by (simp add: Rejected)
qed

lemma acceptLoop_inv [js_wf]: "stream_inv s \<Longrightarrow> stream_inv (bstate (acceptLoop s vs))"
proof (induction s vs rule: acceptLoop.induct)
  case (2 s v vs)
  then show ?case
    using acceptEvent_inv [of s v]
    by (auto simp: Let_def split: accept_result.splits option.splits)
qed simp

lemma acceptLoop_cursor_mono: "stream_inv s \<Longrightarrow> cursor s \<le> cursor (bstate (acceptLoop s vs))"
proof (induction s vs rule: acceptLoop.induct)
  case (2 s v vs)
  then show ?case
    using acceptEvent_inv [of s v] acceptEvent_cursor_mono [of s v]
    by (fastforce simp: Let_def split: accept_result.splits option.splits)
qed simp

lemma batches_cursor_mono:
  "stream_inv s \<Longrightarrow> cursor s \<le> cursor (foldl (\<lambda>s vs. bstate (acceptEvents s vs)) s batches)"
proof (induction batches arbitrary: s)
  case (Cons vs batches)
  have "stream_inv (bstate (acceptEvents s vs))" "cursor s \<le> cursor (bstate (acceptEvents s vs))"
    using Cons.prems by (simp_all add: acceptEvents_def acceptLoop_inv acceptLoop_cursor_mono)
  then show ?case using Cons.IH [of "bstate (acceptEvents s vs)"] by simp
qed simp

section \<open>Runs of the stream\<close>

text \<open>The operations the panel performs on the stream, and the states they can reach.\<close>

inductive stream_step :: "event_stream \<Rightarrow> event_stream \<Rightarrow> bool" where
  accept_one: "stream_step s (result_state (acceptEvent s v))"
| accept_batch: "stream_step s (bstate (acceptEvents s v))"
| reset: "stream_step s (resetEventStream s cur)"

inductive stream_reachable :: "event_stream \<Rightarrow> bool" where
  created: "stream_reachable (createEventStreamState cur n)"
| stepped: "stream_reachable s \<Longrightarrow> stream_step s t \<Longrightarrow> stream_reachable t"

lemma stream_step_inv: "stream_step s t \<Longrightarrow> stream_inv s \<Longrightarrow> stream_inv t"
  by (induction rule: stream_step.induct)
    (auto simp: acceptEvents_def acceptEvent_inv acceptLoop_inv reset_inv)

interpretation es: inductive_invariant "\<lambda>s. \<exists>cur n. s = createEventStreamState cur n" stream_step stream_reachable stream_inv
proof unfold_locales
  show "P s" if "stream_reachable s" "\<And>s. \<exists>cur n. s = createEventStreamState cur n \<Longrightarrow> P s"
      "\<And>s t. stream_reachable s \<Longrightarrow> P s \<Longrightarrow> stream_step s t \<Longrightarrow> P t" for P s
    using that by (induction rule: stream_reachable.induct) blast+
qed (auto intro: stream_reachable.intros create_inv stream_step_inv)

lemmas reachable_inv = es.holds

section \<open>Ordinary deliveries\<close>

text \<open>
  A list of ordinary (parsed, non-control) events. Without duplicates and beyond the
  cursor, the loop accepts every one of them.
\<close>

definition ordinary :: "jsval list \<Rightarrow> bool" where
  "ordinary es \<longleftrightarrow> event_list es \<and> (\<forall>e\<in>set es. \<not> control_type e)"

definition fresh_for :: "event_stream \<Rightarrow> jsval list \<Rightarrow> bool" where
  "fresh_for s es \<longleftrightarrow> ordinary es \<and> (\<forall>e\<in>set es. cursor s < sequence e)
     \<and> (\<forall>e\<in>set es. \<forall>x\<in>set (events s). truthy (event_id e) \<longrightarrow> event_id x \<noteq> event_id e)"

definition push :: "event_stream \<Rightarrow> jsval \<Rightarrow> event_stream" where
  "push s e = s\<lparr>cursor := sequence e,
     events := slice_last (event_limit (Fin (maxEvents s))) (events s @ [e]), error := None\<rparr>"

lemma acceptEvent_ordinary:
  assumes "stream_inv s" and "\<not> needsSnapshot s" and "wf_event e" and "\<not> control_type e"
    and "cursor s < sequence e"
    and "\<forall>x\<in>set (events s). truthy (event_id e) \<longrightarrow> event_id x \<noteq> event_id e"
  shows "acceptEvent s e = Accepted (push s e) None e"
proof -
  have p: "parseEvent True e = Some e" using assms(3) by (rule wf_event_parse)
  have f: "\<not> (truthy (event_id e) \<and> list_ex (\<lambda>x. event_id x = event_id e) (events s))"
    using assms(6) by (auto simp: list_ex_iff)
  show ?thesis
    using assms p f append_normalized(2) [OF assms(1) p assms(5) f]
    by (auto simp: acceptEvent_def control_type_def push_def)
qed

lemma acceptEvent_replay: "wf_event e \<Longrightarrow> sequence e \<le> cursor s \<Longrightarrow> acceptEvent s e = Rejected s Replay"
  by (simp add: acceptEvent_def wf_event_parse)

lemma fresh_for_Cons:
  assumes "fresh_for s (e # es)" and "stream_inv s" and "\<not> needsSnapshot s"
  shows "acceptEvent s e = Accepted (push s e) None e" and "fresh_for (push s e) es"
    and "stream_inv (push s e)" and "\<not> needsSnapshot (push s e)"
proof -
  show a: "acceptEvent s e = Accepted (push s e) None e"
    using assms
    by (intro acceptEvent_ordinary) (auto simp: fresh_for_def ordinary_def event_list_def)
  show "stream_inv (push s e)"
    using acceptEvent_inv [OF assms(2), of e] a by simp
  show "\<not> needsSnapshot (push s e)" using assms(3) by (simp add: push_def)
  have "set (slice_last n (events s @ [e])) \<subseteq> insert e (set (events s))" for n
    using set_slice_last [of n "events s @ [e]"] by auto
  moreover have "ordinary es" "\<forall>x\<in>set es. sequence e < sequence x"
    "\<forall>x\<in>set es. truthy (event_id x) \<longrightarrow> event_id e \<noteq> event_id x"
    using assms(1) by (auto simp: fresh_for_def ordinary_def event_list_def ids_distinct_def
        image_iff split: if_splits)
  ultimately show "fresh_for (push s e) es"
    using assms(1) by (fastforce simp: fresh_for_def push_def)
qed

lemma acceptLoop_fresh:
  assumes "stream_inv s" and "\<not> needsSnapshot s" and "fresh_for s es"
  shows "acceptLoop s es = \<lparr>bstate = fold (\<lambda>e s. push s e) es s, accepted = es, controls = []\<rparr>"
  using assms
proof (induction es arbitrary: s)
  case (Cons e es)
  note f = fresh_for_Cons [OF Cons.prems(3,1,2)]
  from Cons.IH [OF f(3,4,2)] f(1) show ?case by simp
qed simp

lemma push_events_append:
  "slice_last n (slice_last n xs @ [e]) = slice_last n (xs @ [e])"
  by (cases "length xs \<le> n") (auto simp: slice_last_def Suc_diff_le)

lemma fold_push:
  "es \<noteq> [] \<Longrightarrow> length (events s) \<le> event_limit (Fin (maxEvents s)) \<Longrightarrow>
   fold (\<lambda>e s. push s e) es s = s\<lparr>cursor := sequence (last es),
     events := slice_last (event_limit (Fin (maxEvents s))) (events s @ es), error := None\<rparr>"
proof (induction es rule: rev_induct)
  case (snoc e es)
  show ?case
  proof (cases "es = []")
    case True
    then show ?thesis by (simp add: push_def)
  next
    case False
    have "slice_last n (slice_last n (events s @ es) @ [e]) = slice_last n (events s @ es @ [e])" for n
      using push_events_append [of n "events s @ es" e] by simp
    with False snoc show ?thesis by (simp add: push_def)
  qed
qed simp

text \<open>The state after the first part of a fresh batch is ready for the rest of it.\<close>

lemma fold_push_fresh:
  assumes "fresh_for s (xs @ ys)" and "stream_inv s" and "\<not> needsSnapshot s"
    and "t = fold (\<lambda>e s. push s e) xs s"
  shows "stream_inv t \<and> \<not> needsSnapshot t \<and> fresh_for t ys
    \<and> cursor s \<le> cursor t \<and> (\<forall>e\<in>set xs. sequence e \<le> cursor t)"
  using assms
proof (induction xs arbitrary: s)
  case (Cons x xs)
  have fr: "fresh_for s (x # (xs @ ys))" using Cons.prems(1) by simp
  note f = fresh_for_Cons [OF fr Cons.prems(2,3)]
  have "t = fold (\<lambda>e s. push s e) xs (push s x)" using Cons.prems(4) by simp
  from Cons.IH [OF f(2-4) this] fr show ?case
    by (auto simp: push_def fresh_for_def)
qed auto

text \<open>Entries at or below the cursor at the front of a batch are skipped.\<close>

lemma acceptLoop_replayed:
  "\<forall>e\<in>set es. wf_event e \<and> sequence e \<le> cursor s \<Longrightarrow> acceptLoop s (es @ fs) = acceptLoop s fs"
  by (induction es) (auto simp: acceptEvent_replay)

lemma acceptLoop_blocked:
  "needsSnapshot s \<Longrightarrow> needsSnapshot (bstate (acceptLoop s vs)) \<and> events (bstate (acceptLoop s vs)) = events s"
proof (induction s vs rule: acceptLoop.induct)
  case (2 s v vs)
  show ?case
  proof (cases "acceptEvent s v")
    case (Rejected s' r)
    then have "s' = s" by (rule acceptEvent_Rejected)
    with Rejected 2 show ?thesis by simp
  next
    case (Accepted s' c e)
    have "c \<noteq> None"
      using Accepted "2.prems" by (auto simp: acceptEvent_def split: option.splits if_splits)
    then show ?thesis
      using Accepted acceptEvent_Accepted_Some [of s v s' _ e] by auto
  qed
qed simp

lemma acceptLoop_controls: "length (controls (acceptLoop s vs)) \<le> 1"
  by (induction s vs rule: acceptLoop.induct)
    (auto simp: Let_def split: accept_result.splits option.splits)

section \<open>Properties\<close>

text \<open>
  C1: In every state the panel can reach by creating a stream, accepting events
  one at a time or in batches, and resetting it, the retained events are sorted
  by strictly increasing sequence, carry distinct identifiers, lie at or below
  the cursor and number at most the retention limit.
\<close>

theorem stream_reachable_invariant:
  assumes "stream_reachable s"
  shows "sorted_wrt (\<lambda>x y. sequence x < sequence y) (events s)
    \<and> distinct (filter truthy (map event_id (events s)))
    \<and> (\<forall>e\<in>set (events s). wf_event e \<and> sequence e \<le> cursor s)
    \<and> length (events s) \<le> event_limit (Fin (maxEvents s)) \<and> event_limit (Fin (maxEvents s)) \<le> 10000
    \<and> 0 \<le> cursor s"
  using reachable_inv [OF assms] event_limit_bounds
  by (auto simp: stream_inv_def event_list_def ids_distinct_def)

theorem stream_reachable_invariant_witness:
  "0 \<le> cursor (result_state (acceptEvent (createEventStreamState (jint 0) (Fin 2))
      (sample_event 7 ''a'' ''run.started'')))"
proof -
  have "stream_reachable (result_state (acceptEvent (createEventStreamState (jint 0) (Fin 2))
      (sample_event 7 ''a'' ''run.started'')))"
    by (rule stream_reachable.stepped [OF stream_reachable.created stream_step.accept_one])
  from stream_reachable_invariant [OF this] show ?thesis by blast
qed

text \<open>
  C6: At-most-once acceptance: once an event has been accepted, it is rejected as a
  replay for ever after, whatever and however many batches arrive in between, and the
  cursor has moved past the old one. The only exception is an ordinary event that
  arrives while a snapshot is awaited: it is dropped with the request for the snapshot,
  the stream is left exactly as it was, and it may be delivered again. No batch moves
  the cursor backwards.
\<close>

theorem accepted_at_most_once:
  assumes "stream_inv s" and "acceptEvent s v = Accepted s1 c e"
    and "s2 = foldl (\<lambda>s vs. bstate (acceptEvents s vs)) s1 batches"
  shows "if needsSnapshot s \<and> \<not> control_type e then s1 = s \<and> c = Some Snapshot \<and> cursor s \<le> cursor s2
    else acceptEvent s2 v = Rejected s2 Replay \<and> sequence e \<le> cursor s2 \<and> cursor s < cursor s2"
proof -
  have "stream_inv s1" using acceptEvent_inv [OF assms(1), of v] assms(2) by simp
  then have m: "cursor s1 \<le> cursor s2" unfolding assms(3) by (rule batches_cursor_mono)
  have p: "parseEvent True v = Some e" "cursor s < sequence e"
      "needsSnapshot s \<and> \<not> control_type e \<Longrightarrow> s1 = s \<and> c = Some Snapshot"
      "\<not> (needsSnapshot s \<and> \<not> control_type e) \<Longrightarrow> cursor s1 = sequence e"
    using assms(2) by (auto simp: acceptEvent_def control_type_def split: option.splits if_splits)
  show ?thesis
  proof (cases "needsSnapshot s \<and> \<not> control_type e")
    case True
    then show ?thesis using p(3) m by auto
  next
    case False
    then have "sequence e \<le> cursor s2" using p(4) m by simp
    then show ?thesis unfolding if_not_P [OF False] using p(1,2) by (simp add: acceptEvent_def)
  qed
qed

theorem accepted_at_most_once_witness:
  "\<exists>s1 e. acceptEvent (createEventStreamState (jint 0) (Fin 2)) (sample_event 7 ''a'' ''run.started'')
       = Accepted s1 None e
     \<and> acceptEvent (bstate (acceptEvents (bstate (acceptEvents s1 (JArr []))) JNull)) (sample_event 7 ''a'' ''run.started'')
       = Rejected (bstate (acceptEvents (bstate (acceptEvents s1 (JArr []))) JNull)) Replay"
proof -
  let ?s = "createEventStreamState (jint 0) (Fin 2)" and ?e = "sample_event 7 ''a'' ''run.started''"
  have w: "wf_event ?e" by (rule wf_sample_event) (simp_all add: sample_ids MAX_SAFE_def)
  have acc: "acceptEvent ?s ?e = Accepted (push ?s ?e) None ?e"
    by (rule acceptEvent_ordinary [OF create_inv])
      (simp_all add: w control_type_def createEventStreamState_def MAX_SAFE_def)
  have "\<not> needsSnapshot ?s" by (simp add: createEventStreamState_def)
  with accepted_at_most_once [OF create_inv acc, of _ "[JArr [], JNull]"] acc show ?thesis by auto
qed

text \<open>
  C5: Resuming from the cursor: for ordinary events beyond the cursor with fresh
  identifiers, delivering them in two batches, where the second batch may repeat
  any tail of the first, gives the same stream as one batch, and the stream then
  holds exactly the newest \<open>maxEvents\<close> of the old and new events, in order.
\<close>

theorem resume_with_overlap:
  assumes "stream_inv s" and "\<not> needsSnapshot s" and "fresh_for s (xs @ ys)"
    and "ys \<noteq> []" and "length (xs @ ys) \<le> 10000"
  shows "bstate (acceptEvents (bstate (acceptEvents s (JArr xs))) (JArr (drop k xs @ ys)))
      = bstate (acceptEvents s (JArr (xs @ ys)))
    \<and> events (bstate (acceptEvents s (JArr (xs @ ys))))
      = slice_last (event_limit (Fin (maxEvents s))) (events s @ xs @ ys)
    \<and> cursor (bstate (acceptEvents s (JArr (xs @ ys)))) = sequence (last ys)"
proof -
  let ?push = "fold (\<lambda>e s. push s e)"
  have l: "event_list (xs @ ys)" using assms(3) by (simp add: fresh_for_def ordinary_def)
  have lk: "event_list (drop k xs @ ys)"
    using l by (intro event_list_appendD(2) [of "take k xs" "drop k xs @ ys"]) (simp flip: append_assoc)
  note lx = event_list_appendD(1) [OF l]
  have norm: "acceptEvents t (JArr es) = acceptLoop t es"
    if "event_list es" "length es \<le> 10000" for es t
    using normalizeEvents_id [OF that(1), of "Fin 10000"] that(2)
    by (simp add: event_limit_def acceptEvents_def)
  have all: "bstate (acceptEvents s (JArr (xs @ ys))) = ?push (xs @ ys) s"
    using acceptLoop_fresh [OF assms(1-3)] norm [OF l assms(5)] by simp
  have "fresh_for s xs"
    using assms(3) lx by (auto simp: fresh_for_def ordinary_def)
  then have sx: "bstate (acceptEvents s (JArr xs)) = ?push xs s"
    using acceptLoop_fresh [OF assms(1,2)] norm [OF lx] assms(5) by simp
  have f: "stream_inv (?push xs s)" "\<not> needsSnapshot (?push xs s)" "fresh_for (?push xs s) ys"
      "\<forall>e\<in>set xs. sequence e \<le> cursor (?push xs s)"
    using fold_push_fresh [OF assms(3,1,2) refl] by auto
  have "\<forall>e\<in>set (drop k xs). wf_event e \<and> sequence e \<le> cursor (?push xs s)"
    using f(4) l by (auto simp: event_list_def dest: in_set_dropD)
  then have "acceptLoop (?push xs s) (drop k xs @ ys) = acceptLoop (?push xs s) ys"
    by (rule acceptLoop_replayed)
  also have "bstate \<dots> = ?push ys (?push xs s)"
    using acceptLoop_fresh [OF f(1,2,3)] by simp
  finally have "bstate (acceptEvents (?push xs s) (JArr (drop k xs @ ys))) = ?push (xs @ ys) s"
    using norm [OF lk] assms(5) by simp
  moreover have "length (events s) \<le> event_limit (Fin (maxEvents s))"
    using assms(1) by (simp add: stream_inv_def)
  ultimately show ?thesis
    using assms(4) fold_push [of "xs @ ys" s] by (simp add: sx all)
qed

theorem resume_with_overlap_witness:
  "events (bstate (acceptEvents (bstate (acceptEvents (createEventStreamState (jint 0) (Fin 2))
       (JArr [sample_event 1 ''a'' ''x'', sample_event 2 ''b'' ''x''])))
       (JArr [sample_event 2 ''b'' ''x'', sample_event 3 ''c'' ''x''])))
     = [sample_event 2 ''b'' ''x'', sample_event 3 ''c'' ''x'']"
proof -
  let ?s = "createEventStreamState (jint 0) (Fin 2)"
  let ?a = "sample_event 1 ''a'' ''x''" and ?b = "sample_event 2 ''b'' ''x''"
    and ?c = "sample_event 3 ''c'' ''x''"
  have w: "wf_event ?a" "wf_event ?b" "wf_event ?c"
    by (rule wf_sample_event; simp add: sample_ids MAX_SAFE_def)+
  have f: "fresh_for ?s ([?a, ?b] @ [?c])"
    using w by (simp add: fresh_for_def ordinary_def event_list_def ids_distinct_def
        control_type_def createEventStreamState_def MAX_SAFE_def)
  have n: "\<not> needsSnapshot ?s" by (simp add: createEventStreamState_def)
  have m: "events ?s = []" "event_limit (Fin (maxEvents ?s)) = 2"
    by (simp_all add: createEventStreamState_def stream_limit_def event_limit_def)
  from resume_with_overlap [OF create_inv n f, of 1] show ?thesis
    unfolding m by (simp add: slice_last_def)
qed

text \<open>
  A replay boundary holds: while a snapshot is required, no batch of events,
  valid or not, adds to the retained events or lowers the flag, and an event that
  is not a control event leaves the whole state, cursor included, as it was.
\<close>

theorem snapshot_boundary_holds:
  assumes "needsSnapshot s"
  shows "needsSnapshot (bstate (acceptEvents s vs)) \<and> events (bstate (acceptEvents s vs)) = events s
    \<and> (control_type v \<or> result_state (acceptEvent s v) = s)
    \<and> length (controls (acceptEvents s vs)) \<le> 1"
proof -
  have "control_type v \<or> result_state (acceptEvent s v) = s"
  proof (cases "acceptEvent s v")
    case (Rejected s' r)
    then show ?thesis using acceptEvent_Rejected by auto
  next
    case (Accepted s' c e)
    moreover have "c \<noteq> None"
      using Accepted assms by (auto simp: acceptEvent_def split: option.splits if_splits)
    ultimately obtain c' where a: "acceptEvent s v = Accepted s' (Some c') e" by auto
    have "event_type e = event_type v"
      using acceptEvent_Accepted_Some(1) [OF a] by (rule parseEvent_fields)
    then show ?thesis
      using acceptEvent_Accepted_Some(6) [OF a] a by (auto simp: control_type_def split: if_splits)
  qed
  then show ?thesis
    using acceptLoop_blocked [OF assms] acceptLoop_controls [of s "normalizeEvents (Fin 10000) vs"]
    by (simp add: acceptEvents_def)
qed

theorem snapshot_boundary_holds_witness:
  "events (bstate (acceptEvents ((createEventStreamState (jint 0) (Fin 2))\<lparr>needsSnapshot := True\<rparr>)
     (JArr [sample_event 1 ''a'' ''x'']))) = []"
proof -
  have "needsSnapshot ((createEventStreamState (jint 0) (Fin 2))\<lparr>needsSnapshot := True\<rparr>)" by simp
  from snapshot_boundary_holds [OF this] show ?thesis by (simp add: createEventStreamState_def)
qed

end
