(* ===== verification/JsIO.thy ===== *)
theory JsIO
  imports JsValue
begin

text \<open>
  Asynchronous code. An \<open>async\<close> function is a state transformer over a world
  \<open>'w\<close> (everything outside the function: the network, timers, the abort signal)
  that either throws or returns. The world changes only where the source awaits
  or calls out, so code between two awaits sees one world, as on JavaScript's
  event loop. \<open>io_ok\<close> is the Hoare triple of such code with a postcondition for
  the normal and one for the exceptional exit.
\<close>

type_synonym ('e, 'w, 'a) io = "'w \<Rightarrow> ('e + 'a) \<times> 'w"

definition io_return :: "'a \<Rightarrow> ('e, 'w, 'a) io" where
  "io_return x = (\<lambda>w. (Inr x, w))"

definition io_throw :: "'e \<Rightarrow> ('e, 'w, 'a) io" where
  "io_throw e = (\<lambda>w. (Inl e, w))"

definition io_bind :: "('e, 'w, 'a) io \<Rightarrow> ('a \<Rightarrow> ('e, 'w, 'b) io) \<Rightarrow> ('e, 'w, 'b) io" where
  "io_bind m f = (\<lambda>w. case m w of (Inl e, w') \<Rightarrow> (Inl e, w') | (Inr x, w') \<Rightarrow> f x w')"

definition io_then :: "('e, 'w, 'a) io \<Rightarrow> ('e, 'w, 'b) io \<Rightarrow> ('e, 'w, 'b) io" where
  "io_then m n = io_bind m (\<lambda>_. n)"

text \<open>\<open>try { m } catch (error) { h(error) }\<close>.\<close>

definition io_catch :: "('e, 'w, 'a) io \<Rightarrow> ('e \<Rightarrow> ('e, 'w, 'a) io) \<Rightarrow> ('e, 'w, 'a) io" where
  "io_catch m h = (\<lambda>w. case m w of (Inl e, w') \<Rightarrow> h e w' | (Inr x, w') \<Rightarrow> (Inr x, w'))"

text \<open>A synchronous computation that may throw.\<close>

definition io_lift :: "'e + 'a \<Rightarrow> ('e, 'w, 'a) io" where
  "io_lift r = (\<lambda>w. (r, w))"

definition io_call :: "('w \<Rightarrow> 'a \<times> 'w) \<Rightarrow> ('e, 'w, 'a) io" where
  "io_call f = (\<lambda>w. case f w of (x, w') \<Rightarrow> (Inr x, w'))"

definition io_gets :: "('w \<Rightarrow> 'a) \<Rightarrow> ('e, 'w, 'a) io" where
  "io_gets f = (\<lambda>w. (Inr (f w), w))"

lemmas io_defs = io_return_def io_throw_def io_bind_def io_then_def io_catch_def
  io_lift_def io_call_def io_gets_def

text \<open>Sums as results of synchronous code.\<close>

definition sum_bind :: "'e + 'a \<Rightarrow> ('a \<Rightarrow> 'e + 'b) \<Rightarrow> 'e + 'b" where
  "sum_bind r f = (case r of Inl e \<Rightarrow> Inl e | Inr x \<Rightarrow> f x)"

lemma sum_bind_simps [simp]: "sum_bind (Inl e) f = Inl e" "sum_bind (Inr x) f = f x"
  by (simp_all add: sum_bind_def)

lemma sum_bind_Inr_iff: "sum_bind r f = Inr y \<longleftrightarrow> (\<exists>x. r = Inr x \<and> f x = Inr y)"
  by (cases r) auto

section \<open>Running a program step by step\<close>

lemma io_run [simp]:
  "io_return x w = (Inr x, w)"
  "io_throw e w = (Inl e, w)"
  "io_lift r w = (r, w)"
  "io_gets f w = (Inr (f w), w)"
  by (simp_all add: io_defs)

lemma io_bind_Inr: "m w = (Inr x, w') \<Longrightarrow> io_bind m f w = f x w'"
  by (simp add: io_bind_def)

lemma io_bind_Inl: "m w = (Inl e, w') \<Longrightarrow> io_bind m f w = (Inl e, w')"
  by (simp add: io_bind_def)

lemma io_then_Inr: "m w = (Inr x, w') \<Longrightarrow> io_then m n w = n w'"
  by (simp add: io_then_def io_bind_def)

lemma io_then_Inl: "m w = (Inl e, w') \<Longrightarrow> io_then m n w = (Inl e, w')"
  by (simp add: io_then_def io_bind_def)

lemma io_catch_Inr: "m w = (Inr x, w') \<Longrightarrow> io_catch m h w = (Inr x, w')"
  by (simp add: io_catch_def)

lemma io_catch_Inl: "m w = (Inl e, w') \<Longrightarrow> io_catch m h w = h e w'"
  by (simp add: io_catch_def)

lemma io_bind_assoc: "io_bind (io_bind m f) g = io_bind m (\<lambda>x. io_bind (f x) g)"
  by (auto simp: io_bind_def fun_eq_iff split: prod.splits sum.splits)

lemma io_bind_return [simp]: "io_bind (io_return x) f = f x"
  by (simp add: io_bind_def io_return_def)

lemma io_return_bind [simp]: "io_bind m io_return = m"
  by (auto simp: io_bind_def io_return_def fun_eq_iff split: prod.splits sum.splits)

section \<open>Triples\<close>

definition io_ok :: "('w \<Rightarrow> bool) \<Rightarrow> ('e, 'w, 'a) io \<Rightarrow> ('a \<Rightarrow> 'w \<Rightarrow> bool) \<Rightarrow> ('e \<Rightarrow> 'w \<Rightarrow> bool) \<Rightarrow> bool"
  where "io_ok P m Q E \<longleftrightarrow>
    (\<forall>w. P w \<longrightarrow> (case m w of (Inl e, w') \<Rightarrow> E e w' | (Inr x, w') \<Rightarrow> Q x w'))"

lemma io_okI:
  "(\<And>w. P w \<Longrightarrow> case m w of (Inl e, w') \<Rightarrow> E e w' | (Inr x, w') \<Rightarrow> Q x w') \<Longrightarrow> io_ok P m Q E"
  by (simp add: io_ok_def)

lemma io_okD:
  "io_ok P m Q E \<Longrightarrow> P w \<Longrightarrow> m w = (r, w') \<Longrightarrow>
     (case r of Inl e \<Rightarrow> E e w' | Inr x \<Rightarrow> Q x w')"
  by (fastforce simp: io_ok_def split: sum.splits)

lemma io_ok_conseq:
  "io_ok P' m Q' E' \<Longrightarrow> (\<And>w. P w \<Longrightarrow> P' w) \<Longrightarrow> (\<And>x w. Q' x w \<Longrightarrow> Q x w) \<Longrightarrow>
     (\<And>e w. E' e w \<Longrightarrow> E e w) \<Longrightarrow> io_ok P m Q E"
  unfolding io_ok_def by (fastforce split: prod.splits sum.splits)

lemma io_ok_bind:
  "io_ok P m R E \<Longrightarrow> (\<And>x. io_ok (R x) (f x) Q E) \<Longrightarrow> io_ok P (io_bind m f) Q E"
  unfolding io_ok_def io_bind_def by (fastforce split: prod.splits sum.splits)

lemma io_ok_then:
  "io_ok P m (\<lambda>_. R) E \<Longrightarrow> io_ok R n Q E \<Longrightarrow> io_ok P (io_then m n) Q E"
  unfolding io_then_def by (rule io_ok_bind)

lemma io_ok_catch:
  "io_ok P m Q R \<Longrightarrow> (\<And>e. io_ok (R e) (h e) Q E) \<Longrightarrow> io_ok P (io_catch m h) Q E"
  unfolding io_ok_def io_catch_def by (fastforce split: prod.splits sum.splits)

lemma io_ok_return: "(\<And>w. P w \<Longrightarrow> Q x w) \<Longrightarrow> io_ok P (io_return x) Q E"
  by (simp add: io_ok_def io_return_def)

lemma io_ok_throw: "(\<And>w. P w \<Longrightarrow> E e w) \<Longrightarrow> io_ok P (io_throw e) Q E"
  by (simp add: io_ok_def io_throw_def)

lemma io_ok_lift: "(\<And>w. P w \<Longrightarrow> case r of Inl e \<Rightarrow> E e w | Inr x \<Rightarrow> Q x w) \<Longrightarrow> io_ok P (io_lift r) Q E"
  by (simp add: io_ok_def io_lift_def split: sum.splits)

lemma io_ok_call: "(\<And>w. P w \<Longrightarrow> Q (fst (f w)) (snd (f w))) \<Longrightarrow> io_ok P (io_call f) Q E"
  by (simp add: io_ok_def io_call_def case_prod_beta)

lemma io_ok_gets: "(\<And>w. P w \<Longrightarrow> Q (f w) w) \<Longrightarrow> io_ok P (io_gets f) Q E"
  by (simp add: io_ok_def io_gets_def)

lemma io_ok_if: "(b \<Longrightarrow> io_ok P m Q E) \<Longrightarrow> (\<not> b \<Longrightarrow> io_ok P n Q E) \<Longrightarrow> io_ok P (if b then m else n) Q E"
  by simp

end
