(* ===== verification/Sha256.thy ===== *)
theory Sha256
  imports Prelude
begin

unbundle bit_operations_syntax

text \<open>
  The incremental SHA-256 of \<open>frontend/src/uploads.js\<close>. The model computes with
  integers the way the source computes with Numbers: bitwise operators first
  convert to 32-bit two's complement, \<open>>>> 0\<close> converts back to an unsigned value,
  sums are taken exactly (they stay far below 2^53) and reduced afterwards. The
  reference is FIPS 180-4 over 32-bit words; the refinement relates the two by
  reading an integer modulo 2^32.
\<close>

type_synonym byte = "8 word"

section \<open>JavaScript's 32-bit operators\<close>

definition to_int32 :: "int \<Rightarrow> int" where
  "to_int32 x = signed_take_bit 31 x"

definition to_uint32 :: "int \<Rightarrow> int" where
  "to_uint32 x = take_bit 32 x"

definition js_ushr :: "int \<Rightarrow> nat \<Rightarrow> int" where
  "js_ushr x n = drop_bit n (to_uint32 x)"

definition js_shl :: "int \<Rightarrow> nat \<Rightarrow> int" where
  "js_shl x n = to_int32 (push_bit n (to_int32 x))"

definition js_bor :: "int \<Rightarrow> int \<Rightarrow> int" where
  "js_bor x y = to_int32 x OR to_int32 y"

definition js_band :: "int \<Rightarrow> int \<Rightarrow> int" where
  "js_band x y = to_int32 x AND to_int32 y"

definition js_bxor :: "int \<Rightarrow> int \<Rightarrow> int" where
  "js_bxor x y = to_int32 x XOR to_int32 y"

definition js_bnot :: "int \<Rightarrow> int" where
  "js_bnot x = NOT (to_int32 x)"

definition rightRotate :: "int \<Rightarrow> nat \<Rightarrow> int" where
  "rightRotate value amount = js_bor (js_ushr value amount) (js_shl value (32 - amount))"

section \<open>The hasher\<close>

text \<open>The round constants and the initial state, written in decimal.\<close>

definition SHA256_WORDS :: "int list" where
  "SHA256_WORDS = [
     1116352408, 1899447441, 3049323471, 3921009573, 961987163, 1508970993, 2453635748, 2870763221,
     3624381080, 310598401, 607225278, 1426881987, 1925078388, 2162078206, 2614888103, 3248222580,
     3835390401, 4022224774, 264347078, 604807628, 770255983, 1249150122, 1555081692, 1996064986,
     2554220882, 2821834349, 2952996808, 3210313671, 3336571891, 3584528711, 113926993, 338241895,
     666307205, 773529912, 1294757372, 1396182291, 1695183700, 1986661051, 2177026350, 2456956037,
     2730485921, 2820302411, 3259730800, 3345764771, 3516065817, 3600352804, 4094571909, 275423344,
     430227734, 506948616, 659060556, 883997877, 958139571, 1322822218, 1537002063, 1747873779,
     1955562222, 2024104815, 2227730452, 2361852424, 2428436474, 2756734187, 3204031479, 3329325298]"

record hasher =
  hstate :: "int list"
  htail :: "byte list"
  hlength :: nat

definition new_hasher :: hasher where
  "new_hasher = \<lparr>hstate = [1779033703, 3144134277, 1013904242, 2773480762,
                           1359893119, 2600822924, 528734635, 1541459225],
                 htail = [], hlength = 0\<rparr>"

text \<open>The first sixteen schedule words: big-endian groups of four bytes.\<close>

definition block_word :: "byte list \<Rightarrow> nat \<Rightarrow> int" where
  "block_word block index =
     (let offset = index * 4 in
      to_uint32 (js_bor (js_bor (js_bor (js_shl (uint (block ! offset)) 24)
        (js_shl (uint (block ! (offset + 1))) 16))
        (js_shl (uint (block ! (offset + 2))) 8))
        (uint (block ! (offset + 3)))))"

definition schedule_word :: "int list \<Rightarrow> nat \<Rightarrow> int" where
  "schedule_word words index =
     (let gamma0 = js_bxor (js_bxor (rightRotate (words ! (index - 15)) 7)
            (rightRotate (words ! (index - 15)) 18)) (js_ushr (words ! (index - 15)) 3);
          gamma1 = js_bxor (js_bxor (rightRotate (words ! (index - 2)) 17)
            (rightRotate (words ! (index - 2)) 19)) (js_ushr (words ! (index - 2)) 10)
      in to_uint32 (words ! (index - 16) + gamma0 + words ! (index - 7) + gamma1))"

definition schedule_words :: "byte list \<Rightarrow> int list" where
  "schedule_words block =
     foldl (\<lambda>words index. words @ [schedule_word words index])
       (map (block_word block) [0..<16]) [16..<64]"

type_synonym 'w regs = "'w \<times> 'w \<times> 'w \<times> 'w \<times> 'w \<times> 'w \<times> 'w \<times> 'w"

definition compress_round :: "int list \<Rightarrow> int regs \<Rightarrow> nat \<Rightarrow> int regs" where
  "compress_round words r index =
     (case r of (a, b, c, d, e, f, g, h) \<Rightarrow>
        let sigma1 = js_bxor (js_bxor (rightRotate e 6) (rightRotate e 11)) (rightRotate e 25);
            choice = js_bxor (js_band e f) (js_band (js_bnot e) g);
            temp1 = to_uint32 (h + sigma1 + choice + SHA256_WORDS ! index + words ! index);
            sigma0 = js_bxor (js_bxor (rightRotate a 2) (rightRotate a 13)) (rightRotate a 22);
            majority = js_bxor (js_bxor (js_band a b) (js_band a c)) (js_band b c);
            temp2 = to_uint32 (sigma0 + majority)
        in (to_uint32 (temp1 + temp2), a, b, c, to_uint32 (d + temp1), e, f, g))"

definition regs_of :: "'w list \<Rightarrow> 'w regs" where
  "regs_of s = (s ! 0, s ! 1, s ! 2, s ! 3, s ! 4, s ! 5, s ! 6, s ! 7)"

definition compress :: "int list \<Rightarrow> byte list \<Rightarrow> int list" where
  "compress state block =
     (case foldl (compress_round (schedule_words block)) (regs_of state) [0..<64] of
        (a, b, c, d, e, f, g, h) \<Rightarrow>
          [to_uint32 (state ! 0 + a), to_uint32 (state ! 1 + b), to_uint32 (state ! 2 + c),
           to_uint32 (state ! 3 + d), to_uint32 (state ! 4 + e), to_uint32 (state ! 5 + f),
           to_uint32 (state ! 6 + g), to_uint32 (state ! 7 + h)])"

text \<open>The loop \<open>while (position + 64 <= bytes.length)\<close>: the state and the position it ends at.\<close>

function compress_loop :: "int list \<Rightarrow> byte list \<Rightarrow> nat \<Rightarrow> int list \<times> nat" where
  "compress_loop state bytes position =
     (if position + 64 \<le> length bytes
      then compress_loop (compress state (take 64 (drop position bytes))) bytes (position + 64)
      else (state, position))"
  by pat_completeness auto
termination
  by (relation "measure (\<lambda>(s, bytes, position). length bytes - position)") auto

declare compress_loop.simps [simp del]

definition hash_update :: "hasher \<Rightarrow> byte list \<Rightarrow> hasher" where
  "hash_update s bytes =
     (let missing = 64 - length (htail s) in
      if htail s \<noteq> [] \<and> length bytes < missing
      then s\<lparr>hlength := hlength s + length bytes, htail := htail s @ bytes\<rparr>
      else
        (let (state, tail, position) =
               (if htail s \<noteq> []
                then (compress (hstate s) (htail s @ take missing bytes), [], missing)
                else (hstate s, htail s, 0));
             (state', position') = compress_loop state bytes position
         in \<lparr>hstate = state',
             htail = (if position' < length bytes then drop position' bytes else tail),
             hlength = hlength s + length bytes\<rparr>))"

definition final_block :: "hasher \<Rightarrow> byte list" where
  "final_block s =
     (let totalBits = int (hlength s) * 8;
          paddingLength = (if length (htail s) < 56 then 64 else 128);
          body = htail s @ [0x80] @ replicate (paddingLength - length (htail s) - 1) 0
      in foldl (\<lambda>block index. block[length block - 1 - index :=
                  word_of_int (drop_bit (index * 8) totalBits AND 0xff)])
           body [0..<8])"

definition hex_digit :: "nat \<Rightarrow> nat" where
  "hex_digit n = (if n < 10 then 48 + n else 87 + n)"

text \<open>\<open>word.toString(16).padStart(8, "0")\<close> of an unsigned 32-bit value.\<close>

definition hex_word :: "int \<Rightarrow> nat list" where
  "hex_word w = map (\<lambda>i. hex_digit (nat ((w div 16 ^ (7 - i)) mod 16))) [0..<8]"

definition hexDigest :: "hasher \<Rightarrow> nat list" where
  "hexDigest s = concat (map hex_word (fst (compress_loop (hstate s) (final_block s) 0)))"

section \<open>The reference: FIPS 180-4\<close>

type_synonym word32 = "32 word"

text \<open>
  The constants of the standard, computed from its description and not taken from the
  code: the round constants are the first 32 bits of the fractional parts of the cube
  roots of the first 64 primes, the initial hash those of the square roots of the first
  8. \<open>floor_root k b n\<close> is the integer part of the \<open>k\<close>-th root of \<open>n\<close> for \<open>n < 2^(k*b)\<close>;
  \<open>fraction_bits_root\<close> below states the correspondence with the real root.
\<close>

fun floor_root :: "nat \<Rightarrow> nat \<Rightarrow> int \<Rightarrow> int" where
  "floor_root k 0 n = 0"
| "floor_root k (Suc b) n =
     (let r = 2 * floor_root k b (n div 2 ^ k) in if (r + 1) ^ k \<le> n then r + 1 else r)"

definition fraction_bits :: "nat \<Rightarrow> int \<Rightarrow> int" where
  "fraction_bits k p = floor_root k 36 (p * 2 ^ (32 * k)) mod 2 ^ 32"

definition first_primes :: "int list" where
  "first_primes = [
     2, 3, 5, 7, 11, 13, 17, 19, 23, 29, 31, 37, 41, 43, 47, 53,
     59, 61, 67, 71, 73, 79, 83, 89, 97, 101, 103, 107, 109, 113, 127, 131,
     137, 139, 149, 151, 157, 163, 167, 173, 179, 181, 191, 193, 197, 199, 211, 223,
     227, 229, 233, 239, 241, 251, 257, 263, 269, 271, 277, 281, 283, 293, 307, 311]"

definition K :: "word32 list" where
  "K = map (\<lambda>p. word_of_int (fraction_bits 3 p)) first_primes"

definition H0 :: "word32 list" where
  "H0 = map (\<lambda>p. word_of_int (fraction_bits 2 p)) (take 8 first_primes)"

definition be32 :: "byte list \<Rightarrow> nat \<Rightarrow> word32" where
  "be32 block t = push_bit 24 (ucast (block ! (4 * t))) OR push_bit 16 (ucast (block ! (4 * t + 1)))
     OR push_bit 8 (ucast (block ! (4 * t + 2))) OR ucast (block ! (4 * t + 3))"

definition Ch :: "word32 \<Rightarrow> word32 \<Rightarrow> word32 \<Rightarrow> word32" where
  "Ch x y z = (x AND y) XOR (NOT x AND z)"

definition Maj :: "word32 \<Rightarrow> word32 \<Rightarrow> word32 \<Rightarrow> word32" where
  "Maj x y z = (x AND y) XOR (x AND z) XOR (y AND z)"

definition bsig0 :: "word32 \<Rightarrow> word32" where
  "bsig0 x = word_rotr 2 x XOR word_rotr 13 x XOR word_rotr 22 x"

definition bsig1 :: "word32 \<Rightarrow> word32" where
  "bsig1 x = word_rotr 6 x XOR word_rotr 11 x XOR word_rotr 25 x"

definition ssig0 :: "word32 \<Rightarrow> word32" where
  "ssig0 x = word_rotr 7 x XOR word_rotr 18 x XOR drop_bit 3 x"

definition ssig1 :: "word32 \<Rightarrow> word32" where
  "ssig1 x = word_rotr 17 x XOR word_rotr 19 x XOR drop_bit 10 x"

function W :: "byte list \<Rightarrow> nat \<Rightarrow> word32" where
  "W block t = (if t < 16 then be32 block t
     else ssig1 (W block (t - 2)) + W block (t - 7) + ssig0 (W block (t - 15)) + W block (t - 16))"
  by pat_completeness auto
termination
  by (relation "measure snd") auto

declare W.simps [simp del]

fun sha_round :: "byte list \<Rightarrow> word32 regs \<Rightarrow> nat \<Rightarrow> word32 regs" where
  "sha_round block (a, b, c, d, e, f, g, h) t =
     (let T1 = h + bsig1 e + Ch e f g + K ! t + W block t;
          T2 = bsig0 a + Maj a b c
      in (T1 + T2, a, b, c, d + T1, e, f, g))"

definition sha_block :: "word32 list \<Rightarrow> byte list \<Rightarrow> word32 list" where
  "sha_block H block =
     (case foldl (sha_round block) (regs_of H) [0..<64] of
        (a, b, c, d, e, f, g, h) \<Rightarrow>
          [H ! 0 + a, H ! 1 + b, H ! 2 + c, H ! 3 + d, H ! 4 + e, H ! 5 + f, H ! 6 + g, H ! 7 + h])"

text \<open>Padding: a one bit, zero bits up to 56 bytes modulo 64, and the bit length on 64 bits.\<close>

definition be64 :: "int \<Rightarrow> byte list" where
  "be64 n = map (\<lambda>i. word_of_int (drop_bit (8 * (7 - i)) n)) [0..<8]"

definition pad :: "byte list \<Rightarrow> byte list" where
  "pad m = m @ [0x80] @ replicate ((119 - length m mod 64) mod 64) 0 @ be64 (8 * int (length m))"

function blocks :: "byte list \<Rightarrow> byte list list" where
  "blocks bs = (if length bs < 64 then [] else take 64 bs # blocks (drop 64 bs))"
  by pat_completeness auto
termination
  by (relation "measure length") auto

declare blocks.simps [simp del]

definition sha256 :: "byte list \<Rightarrow> word32 list" where
  "sha256 m = foldl sha_block H0 (blocks (pad m))"

definition sha256_hex :: "byte list \<Rightarrow> nat list" where
  "sha256_hex m = concat (map (\<lambda>w. hex_word (uint w)) (sha256 m))"

section \<open>The constants are those of the standard\<close>

lemma floor_root_bounds:
  assumes "0 < k" "0 \<le> n" "n < 2 ^ (k * b)"
  shows "0 \<le> floor_root k b n \<and> floor_root k b n ^ k \<le> n \<and> n < (floor_root k b n + 1) ^ k"
  using assms(2,3)
proof (induction b arbitrary: n)
  case 0
  then show ?case using assms(1) by (simp add: zero_power)
next
  case (Suc b)
  define q r where "q = n div 2 ^ k" and "r = floor_root k b q"
  have "2 ^ k * q + n mod 2 ^ k = n" "0 \<le> n mod 2 ^ k" "n mod 2 ^ k < 2 ^ k" by (simp_all add: q_def)
  then have n: "2 ^ k * q \<le> n" "n < 2 ^ k * (q + 1)" unfolding distrib_left by linarith+
  have "2 ^ k * q < 2 ^ k * 2 ^ (k * b)" using n(1) Suc.prems(2) unfolding mult_Suc_right power_add by linarith
  then have "q < 2 ^ (k * b)" by simp
  moreover have "0 \<le> q" using Suc.prems(1) by (simp add: q_def pos_imp_zdiv_nonneg_iff)
  ultimately have r: "0 \<le> r" "r ^ k \<le> q" "q + 1 \<le> (r + 1) ^ k"
    using Suc.IH [of q] by (auto simp: r_def)
  have "(2 * r) ^ k \<le> n" unfolding power_mult_distrib by (rule order_trans [OF mult_left_mono [OF r(2)] n(1)]) simp
  moreover have "n < (2 * r + 2) ^ k"
    using n(2) mult_left_mono [OF r(3), of "2 ^ k"] power_mult_distrib [of 2 "r + 1" k] by (simp add: distrib_left)
  ultimately show ?case using r(1) by (simp add: Let_def add.commute [of _ 2] flip: q_def r_def)
qed

lemma floor_root_scaled:
  assumes "0 < k" "0 \<le> p" "p < 16 ^ k"
  shows "0 \<le> floor_root k 36 (p * 2 ^ (32 * k)) \<and> floor_root k 36 (p * 2 ^ (32 * k)) ^ k \<le> p * 2 ^ (32 * k)
    \<and> p * 2 ^ (32 * k) < (floor_root k 36 (p * 2 ^ (32 * k)) + 1) ^ k"
proof (rule floor_root_bounds)
  have "p * 2 ^ (32 * k) < 16 ^ k * 2 ^ (32 * k)" using assms(3) by simp
  also have "... = (2::int) ^ (k * 36)" by (simp add: mult.commute [of k 36] power_mult flip: power_mult_distrib)
  finally show "p * 2 ^ (32 * k) < 2 ^ (k * 36)" .
qed (use assms in simp_all)

lemma fraction_bits_root:
  assumes "0 < k" "0 \<le> p" "p < 16 ^ k"
  shows "fraction_bits k p = \<lfloor>frac (root k (real_of_int p)) * 2 ^ 32\<rfloor>"
proof -
  define x r where "x = root k (real_of_int p)" and "r = floor_root k 36 (p * 2 ^ (32 * k))"
  have b: "0 \<le> r" "r ^ k \<le> p * 2 ^ (32 * k)" "p * 2 ^ (32 * k) < (r + 1) ^ k"
    using floor_root_scaled [OF assms] by (simp_all add: r_def)
  have x: "0 \<le> x" "(x * 2 ^ 32) ^ k = real_of_int (p * 2 ^ (32 * k))"
    using assms(1,2) by (simp_all add: x_def power_mult_distrib power_mult)
  have xr: "(x * 2 ^ 32) ^ k < real_of_int (r + 1) ^ k"
    using b(3) unfolding x(2) by (simp only: of_int_less_iff flip: of_int_power)
  have rx: "real_of_int r ^ k \<le> (x * 2 ^ 32) ^ k"
    using b(2) unfolding x(2) by (simp only: of_int_le_iff flip: of_int_power)
  have "real_of_int r \<le> x * 2 ^ 32"
    by (rule power_le_imp_le_base [of _ "k - 1"]) (use rx x(1) assms(1) in simp_all)
  moreover have "x * 2 ^ 32 < real_of_int (r + 1)"
    by (rule power_less_imp_less_base [OF xr]) (use b(1) in simp)
  ultimately have f: "\<lfloor>x * 2 ^ 32\<rfloor> = r" by (simp add: floor_eq_iff)
  have "\<lfloor>x\<rfloor> = r div 2 ^ 32"
    using floor_divide_real_eq_div [of "2 ^ 32" "x * 2 ^ 32"] f by simp
  moreover have "\<lfloor>frac x * 2 ^ 32\<rfloor> = \<lfloor>x * 2 ^ 32 - real_of_int (\<lfloor>x\<rfloor> * 2 ^ 32)\<rfloor>" by (simp add: frac_def left_diff_distrib)
  ultimately have "\<lfloor>frac x * 2 ^ 32\<rfloor> = r - r div 2 ^ 32 * 2 ^ 32" using f by (simp only: floor_diff_of_int)
  then show ?thesis by (simp add: fraction_bits_def minus_div_mult_eq_mod flip: x_def r_def)
qed

text \<open>The list of primes is complete up to its last member.\<close>

definition prime_number :: "int \<Rightarrow> bool" where
  "prime_number n \<longleftrightarrow> list_all (\<lambda>d. \<not> d dvd n) [2..n - 1]"

lemma prime_number_trial:
  assumes "n \<le> 311"
  shows "prime_number n \<longleftrightarrow> list_all (\<lambda>d. n \<le> d \<or> \<not> d dvd n) [2, 3, 4, 5, 6, 7, 8, 9, 10, 11, 12, 13, 14, 15, 16, 17]"
proof -
  have "\<exists>c\<in>{2..17}. c < n \<and> c dvd n" if d: "2 \<le> d" "d < n" "d dvd n" for d
  proof (cases "d \<le> 17")
    case False
    from d(3) obtain e where e: "n = d * e" by blast
    have "0 < e" using d e by (simp add: zero_less_mult_iff)
    moreover have "e \<noteq> 1" using d e by auto
    moreover have "e \<le> 17"
    proof (rule ccontr)
      assume "\<not> e \<le> 17"
      then have "18 * 18 \<le> d * e" using False by (intro mult_mono) auto
      then show False using assms e by simp
    qed
    moreover have "e < n" using e d calculation(1) by simp
    ultimately show ?thesis using e by (intro bexI [of _ e]) auto
  qed (use d in auto)
  moreover have "set [2, 3, 4, 5, 6, 7, 8, 9, 10, 11, 12, 13, 14, 15, 16, 17] = {2..17::int}"
    by (simp only: set_upto [symmetric]) (simp add: upto_rec1)
  ultimately show ?thesis by (force simp: prime_number_def list_all_iff simp del: set_simps)
qed

lemma first_primes_prime: "list_all prime_number first_primes"
proof -
  have "list_all (\<lambda>p. p \<le> 311 \<and> list_all (\<lambda>d. p \<le> d \<or> \<not> d dvd p) [2, 3, 4, 5, 6, 7, 8, 9, 10, 11, 12, 13, 14, 15, 16, 17]) first_primes"
    by (simp add: first_primes_def)
  then show ?thesis unfolding list_all_iff using prime_number_trial by (simp add: list_all_iff)
qed

lemma list_all_in: "list_all P xs \<Longrightarrow> x \<in> set xs \<Longrightarrow> P x"
  by (simp add: list_all_iff)

lemma first_primes_all:
  assumes "1 < n" "n \<le> 311" "prime_number n"
  shows "n \<in> set first_primes"
proof -
  have "list_all (\<lambda>n. list_ex (\<lambda>d. d < n \<and> d dvd n) [2, 3, 5, 7, 11, 13, 17] \<or> n \<in> set first_primes) [2..311]"
    by (simp add: first_primes_def)
  then have "list_ex (\<lambda>d. d < n \<and> d dvd n) [2, 3, 5, 7, 11, 13, 17] \<or> n \<in> set first_primes"
    by (rule list_all_in) (unfold set_upto, use assms(1,2) in simp)
  moreover have "\<not> list_ex (\<lambda>d. d < n \<and> d dvd n) [2, 3, 5, 7, 11, 13, 17]"
    using assms(3) by (auto simp: prime_number_def list_all_iff)
  ultimately show ?thesis by blast
qed

text \<open>Computing the constants: a root is determined by the powers that enclose it.\<close>

lemma fraction_bits_eqI:
  assumes "0 < k" "0 \<le> p" "p < 16 ^ k" "0 \<le> m" "0 \<le> c" "c < 2 ^ 32"
    and "(m * 2 ^ 32 + c) ^ k \<le> p * 2 ^ (32 * k)" "p * 2 ^ (32 * k) < (m * 2 ^ 32 + c + 1) ^ k"
  shows "fraction_bits k p = c"
proof -
  define r where "r = floor_root k 36 (p * 2 ^ (32 * k))"
  have b: "0 \<le> r" "r ^ k \<le> p * 2 ^ (32 * k)" "p * 2 ^ (32 * k) < (r + 1) ^ k"
    using floor_root_scaled [OF assms(1-3)] by (simp_all add: r_def)
  have "m * 2 ^ 32 + c < r + 1"
    by (rule power_less_imp_less_base [OF le_less_trans [OF assms(7) b(3)]]) (use b(1) in simp)
  moreover have "r < m * 2 ^ 32 + c + 1"
    by (rule power_less_imp_less_base [OF le_less_trans [OF b(2) assms(8)]]) (use assms(4,5) in simp)
  ultimately have "r = m * 2 ^ 32 + c" by simp
  then have "r mod 2 ^ 32 = c" using assms(5,6) by simp
  then show ?thesis by (simp add: fraction_bits_def r_def)
qed

definition encloses :: "nat \<Rightarrow> int \<Rightarrow> int \<Rightarrow> int \<Rightarrow> bool" where
  "encloses k p c m \<longleftrightarrow> (m * 2 ^ 32 + c) ^ k \<le> p * 2 ^ (32 * k) \<and> p * 2 ^ (32 * k) < (m * 2 ^ 32 + c + 1) ^ k"

lemma map_fraction_bits:
  assumes "0 < k" "list_all2 (\<lambda>p c. 0 \<le> p \<and> p < 16 ^ k \<and> 0 \<le> c \<and> c < 2 ^ 32 \<and> list_ex (encloses k p c) [1, 2, 3, 4, 5, 6]) ps cs"
  shows "map (fraction_bits k) ps = cs"
  using assms(2)
proof (induction rule: list_all2_induct)
  case (Cons p ps c cs)
  then obtain m where m: "m \<in> set [1, 2, 3, 4, 5, 6]" "encloses k p c m" unfolding list_ex_iff by blast
  from m(1) have "0 \<le> m" by auto
  with m(2) show ?case using Cons fraction_bits_eqI [OF assms(1), of p m c] by (simp add: encloses_def)
qed simp

lemma K_words: "K = map word_of_int SHA256_WORDS"
proof -
  have eq: "map (fraction_bits 3) first_primes = SHA256_WORDS"
    by (rule map_fraction_bits) (simp, code_simp)
  show ?thesis by (simp add: K_def comp_def flip: eq)
qed

lemma H0_words: "H0 = map word_of_int (hstate new_hasher)"
proof -
  have eq: "map (fraction_bits 2) (take 8 first_primes) = hstate new_hasher"
    by (rule map_fraction_bits) (simp, code_simp)
  show ?thesis by (simp add: H0_def comp_def flip: eq)
qed

section \<open>Refinement\<close>

text \<open>Reading an integer as a 32-bit word; each operator of the source is the operator of words.\<close>

abbreviation wi :: "int \<Rightarrow> word32" where "wi \<equiv> word_of_int"

lemma wi_to_int32 [simp]: "wi (to_int32 x) = wi x"
  unfolding to_int32_def by transfer (simp add: take_bit_signed_take_bit)

lemma wi_to_uint32 [simp]: "wi (to_uint32 x) = wi x"
  unfolding to_uint32_def by transfer simp

lemma to_uint32_uint: "to_uint32 x = uint (wi x)"
  by (simp add: to_uint32_def uint_word_of_int_eq)

lemma wi_js_bxor [simp]: "wi (js_bxor x y) = wi x XOR wi y"
  unfolding js_bxor_def by (simp add: of_int_xor_eq)

lemma wi_js_band [simp]: "wi (js_band x y) = wi x AND wi y"
  unfolding js_band_def by (simp add: of_int_and_eq)

lemma wi_js_bor [simp]: "wi (js_bor x y) = wi x OR wi y"
  unfolding js_bor_def by (simp add: of_int_or_eq)

lemma wi_js_bnot [simp]: "wi (js_bnot x) = NOT (wi x)"
  unfolding js_bnot_def by (simp add: of_int_not_eq)

lemma wi_js_ushr [simp]: "wi (js_ushr x n) = drop_bit n (wi x)"
  unfolding js_ushr_def to_uint32_def by transfer (simp add: drop_bit_take_bit)

lemma wi_push_bit: "wi (push_bit n x) = push_bit n (wi x)"
  by transfer (simp add: take_bit_push_bit)

lemma wi_js_shl [simp]: "wi (js_shl x n) = push_bit n (wi x)"
  unfolding js_shl_def by (simp add: wi_push_bit)

lemma rotr_shifts:
  fixes w :: word32
  assumes "0 < n" and "n < 32"
  shows "drop_bit n w OR push_bit (32 - n) w = word_rotr n w"
proof (rule bit_word_eqI)
  fix i assume "i < LENGTH(32)"
  then have i: "i < 32" by simp
  show "bit (drop_bit n w OR push_bit (32 - n) w) i \<longleftrightarrow> bit (word_rotr n w) i"
  proof (cases "i + n < 32")
    case True
    then have "\<not> 32 - n \<le> i" by linarith
    with True show ?thesis using i assms
      by (simp add: bit_or_iff bit_drop_bit_eq bit_push_bit_iff bit_word_rotr_iff add.commute)
  next
    case False
    then have m: "(i + n) mod 32 = i + n - 32" using i assms by (simp add: mod_if)
    have "\<not> bit w (n + i)" using False bit_imp_le_length [of w "n + i"] by auto
    moreover have "32 - n \<le> i" using False by linarith
    ultimately show ?thesis using False i assms m
      by (simp add: bit_or_iff bit_drop_bit_eq bit_push_bit_iff bit_word_rotr_iff add.commute)
  qed
qed

lemma wi_rightRotate [simp]: "0 < n \<Longrightarrow> n < 32 \<Longrightarrow> wi (rightRotate x n) = word_rotr n (wi x)"
  by (simp add: rightRotate_def rotr_shifts)

subsection \<open>The block function\<close>

lemma be32_eq: "t < 16 \<Longrightarrow> wi (block_word block t) = be32 block t"
  by (simp add: block_word_def be32_def Let_def mult.commute or.assoc)

lemma wi_schedule_word:
  assumes "length words = t" and "16 \<le> t" and "\<forall>i<t. wi (words ! i) = W block i"
  shows "wi (schedule_word words t) = W block t"
proof -
  have "wi (words ! (t - 15)) = W block (t - 15)" "wi (words ! (t - 2)) = W block (t - 2)"
    "wi (words ! (t - 7)) = W block (t - 7)" "wi (words ! (t - 16)) = W block (t - 16)"
    using assms by auto
  then have "wi (schedule_word words t)
      = W block (t - 16) + ssig0 (W block (t - 15)) + W block (t - 7) + ssig1 (W block (t - 2))"
    by (simp add: schedule_word_def Let_def ssig0_def ssig1_def xor.assoc)
  then show ?thesis
    using assms(2) by (simp add: W.simps [of block t] algebra_simps)
qed

lemma schedule_prefix:
  assumes "16 \<le> n"
    and "ws = foldl (\<lambda>words index. words @ [schedule_word words index])
      (map (block_word block) [0..<16]) [16..<n]"
  shows "length ws = n \<and> (\<forall>i<n. wi (ws ! i) = W block i)"
  using assms
proof (induction n arbitrary: ws rule: dec_induct)
  case base
  then show ?case by (simp add: be32_eq W.simps)
next
  case (step n)
  define vs where "vs = foldl (\<lambda>words index. words @ [schedule_word words index])
    (map (block_word block) [0..<16]) [16..<n]"
  have v: "length vs = n" "\<forall>i<n. wi (vs ! i) = W block i" using step.IH [OF vs_def] by auto
  moreover from v have "wi (schedule_word vs n) = W block n"
    using step.hyps(1) by (intro wi_schedule_word) auto
  moreover have "ws = vs @ [schedule_word vs n]"
    using step.hyps(1) step.prems by (simp add: vs_def)
  ultimately show ?case by (auto simp: nth_append less_Suc_eq)
qed

lemma wi_schedule_words: "i < 64 \<Longrightarrow> wi (schedule_words block ! i) = W block i"
  using schedule_prefix [of 64, OF _ schedule_words_def] by simp

fun wi_regs :: "int regs \<Rightarrow> word32 regs" where
  "wi_regs (a, b, c, d, e, f, g, h) = (wi a, wi b, wi c, wi d, wi e, wi f, wi g, wi h)"

lemma length_SHA256_WORDS [simp]: "length SHA256_WORDS = 64"
  by (simp add: SHA256_WORDS_def)

lemma wi_compress_round:
  assumes "t < 64"
  shows "wi_regs (compress_round (schedule_words block) r t) = sha_round block (wi_regs r) t"
proof -
  obtain a b c d e f g h where r: "r = (a, b, c, d, e, f, g, h)" by (cases r) auto
  have k: "wi (SHA256_WORDS ! t) = K ! t" using assms by (simp add: K_words)
  show ?thesis
    using wi_schedule_words [OF assms, of block] k
    by (simp add: r compress_round_def Let_def Ch_def Maj_def bsig0_def bsig1_def xor.assoc)
qed

lemma wi_rounds:
  "n \<le> 64 \<Longrightarrow> wi_regs (foldl (compress_round (schedule_words block)) r [0..<n])
     = foldl (sha_round block) (wi_regs r) [0..<n]"
  by (induction n) (simp_all add: wi_compress_round)

definition words8 :: "int list \<Rightarrow> bool" where
  "words8 s \<longleftrightarrow> length s = 8 \<and> (\<forall>x\<in>set s. to_uint32 x = x)"

lemma regs_of_map: "length s = 8 \<Longrightarrow> wi_regs (regs_of s) = regs_of (map wi s)"
  by (simp add: regs_of_def)

lemma to_uint32_idem [simp]: "to_uint32 (to_uint32 x) = to_uint32 x"
  by (simp add: to_uint32_def)

lemma words8_length: "words8 s \<Longrightarrow> length s = 8"
  by (simp add: words8_def)

lemma words8_compress [simp]: "words8 (compress s block)"
  by (simp add: words8_def compress_def split: prod.splits)

lemma wi_compress: "length s = 8 \<Longrightarrow> map wi (compress s block) = sha_block (map wi s) block"
proof -
  assume l: "length s = 8"
  obtain a b c d e f g h where r:
    "foldl (compress_round (schedule_words block)) (regs_of s) [0..<64] = (a, b, c, d, e, f, g, h)"
    by (metis surj_pair)
  have "foldl (sha_round block) (regs_of (map wi s)) [0..<64]
      = (wi a, wi b, wi c, wi d, wi e, wi f, wi g, wi h)"
    using wi_rounds [of 64 block "regs_of s"] r regs_of_map [OF l] by simp
  with l r show ?thesis
    by (simp add: compress_def sha_block_def)
qed


section \<open>Chunked input\<close>

text \<open>What is left of a byte sequence after its full blocks.\<close>

function rest64 :: "byte list \<Rightarrow> byte list" where
  "rest64 bs = (if length bs < 64 then bs else rest64 (drop 64 bs))"
  by pat_completeness auto
termination
  by (relation "measure length") auto

declare rest64.simps [simp del]

definition absorb :: "int list \<Rightarrow> byte list \<Rightarrow> int list" where
  "absorb s bs = foldl compress s (blocks bs)"

lemma absorb_short [simp]: "length bs < 64 \<Longrightarrow> absorb s bs = s"
  by (simp add: absorb_def blocks.simps)

lemma absorb_step: "64 \<le> length bs \<Longrightarrow> absorb s bs = absorb (compress s (take 64 bs)) (drop 64 bs)"
  by (simp add: absorb_def blocks.simps [of bs])

lemma rest64_short [simp]: "length bs < 64 \<Longrightarrow> rest64 bs = bs"
  by (simp add: rest64.simps)

lemma rest64_step: "64 \<le> length bs \<Longrightarrow> rest64 bs = rest64 (drop 64 bs)"
  by (simp add: rest64.simps [of bs])

lemma length_rest64: "length (rest64 bs) = length bs mod 64"
proof (induction bs rule: rest64.induct)
  case (1 bs)
  then show ?case
    by (cases "length bs < 64") (simp_all add: rest64_step le_mod_geq)
qed

lemma length_rest64_less [simp]: "length (rest64 bs) < 64"
  by (simp add: length_rest64)

text \<open>Absorbing in two parts, with the remainder carried over.\<close>

lemma absorb_append: "absorb s (xs @ ys) = absorb (absorb s xs) (rest64 xs @ ys)"
proof (induction xs arbitrary: s rule: rest64.induct)
  case (1 xs)
  show ?case
  proof (cases "length xs < 64")
    case False
    then have "absorb s (xs @ ys) = absorb (compress s (take 64 xs)) (drop 64 xs @ ys)"
      by (simp add: absorb_step [of "xs @ ys"])
    with 1 False show ?thesis
      by (simp add: absorb_step [of xs] rest64_step [of xs])
  qed simp
qed

lemma rest64_append: "rest64 (xs @ ys) = rest64 (rest64 xs @ ys)"
proof (induction xs rule: rest64.induct)
  case (1 xs)
  then show ?case
    by (cases "length xs < 64") (simp_all add: rest64_step [of "xs @ ys"] rest64_step [of xs])
qed

lemma compress_loop_absorb:
  assumes "p \<le> length bytes"
  shows "fst (compress_loop s bytes p) = absorb s (drop p bytes)"
    and "drop (snd (compress_loop s bytes p)) bytes = rest64 (drop p bytes)"
    and "snd (compress_loop s bytes p) \<le> length bytes"
  using assms
proof (induction s bytes p rule: compress_loop.induct)
  case (1 s bytes p)
  {
    case 1
    then show ?case using "1.IH"(1)
      by (cases "p + 64 \<le> length bytes")
        (simp_all add: compress_loop.simps [of s bytes p] absorb_step [of "drop p bytes"] add.commute)
  next
    case 2
    then show ?case using "1.IH"(2)
      by (cases "p + 64 \<le> length bytes")
        (simp_all add: compress_loop.simps [of s bytes p] rest64_step [of "drop p bytes"] add.commute)
  next
    case 3
    then show ?case using "1.IH"(3)
      by (cases "p + 64 \<le> length bytes") (simp_all add: compress_loop.simps [of s bytes p])
  }
qed

lemma hash_update_absorb:
  assumes "length (htail s) < 64"
  shows "hash_update s bytes = \<lparr>hstate = absorb (hstate s) (htail s @ bytes),
    htail = rest64 (htail s @ bytes), hlength = hlength s + length bytes\<rparr>"
proof (cases "htail s = []")
  case True
  have "compress_loop (hstate s) bytes 0
      = (absorb (hstate s) bytes, snd (compress_loop (hstate s) bytes 0))"
    using compress_loop_absorb(1) [of 0 bytes "hstate s"] by (simp add: prod_eq_iff)
  moreover have "drop (snd (compress_loop (hstate s) bytes 0)) bytes = rest64 bytes"
    using compress_loop_absorb(2) [of 0 bytes "hstate s"] by simp
  ultimately show ?thesis
    using True by (auto simp: hash_update_def Let_def split: prod.splits)
next
  case False
  let ?m = "64 - length (htail s)"
  show ?thesis
  proof (cases "length bytes < ?m")
    case True
    then have "length (htail s @ bytes) < 64" by auto
    with True False show ?thesis by (simp add: hash_update_def)
  next
    case long: False
    let ?s = "compress (hstate s) (htail s @ take ?m bytes)"
    have t: "take 64 (htail s @ bytes) = htail s @ take ?m bytes"
      "drop 64 (htail s @ bytes) = drop ?m bytes"
      using assms by simp_all
    have len: "64 \<le> length (htail s @ bytes)" using long assms by auto
    have "fst (compress_loop ?s bytes ?m) = absorb (hstate s) (htail s @ bytes)"
      using compress_loop_absorb(1) [of ?m bytes ?s] long
      by (simp add: absorb_step [OF len] t del: take_append drop_append)
    moreover have "drop (snd (compress_loop ?s bytes ?m)) bytes = rest64 (htail s @ bytes)"
      using compress_loop_absorb(2) [of ?m bytes ?s] long
      by (simp add: rest64_step [OF len] t del: take_append drop_append)
    ultimately show ?thesis
      using False long by (auto simp: hash_update_def Let_def split: prod.splits)
  qed
qed

definition hashed :: "hasher \<Rightarrow> byte list \<Rightarrow> bool" where
  "hashed s m \<longleftrightarrow> hstate s = absorb (hstate new_hasher) m \<and> htail s = rest64 m \<and> hlength s = length m"

lemma hashed_new: "hashed new_hasher []"
  by (simp add: hashed_def new_hasher_def)

lemma hashed_update: "hashed s m \<Longrightarrow> hashed (hash_update s bytes) (m @ bytes)"
  by (simp add: hashed_def hash_update_absorb absorb_append [of _ m] rest64_append [of m])

lemma hashed_fold: "hashed s m \<Longrightarrow> hashed (foldl hash_update s chunks) (m @ concat chunks)"
proof (induction chunks arbitrary: s m)
  case (Cons c chunks)
  from Cons.IH [OF hashed_update [OF Cons.prems, of c]] show ?case by simp
qed simp


section \<open>Padding\<close>

lemma byte_of_length: "(word_of_int (drop_bit n x AND 0xff) :: byte) = word_of_int (drop_bit n x)"
proof -
  have "drop_bit n x AND 0xff = take_bit 8 (drop_bit n x)" by (simp add: take_bit_eq_mask mask_numeral)
  then show ?thesis by (simp add: take_bit_word_eq_self flip: take_bit_of_int)
qed

lemma update_last8:
  assumes "length ys = 8"
  shows "foldl (\<lambda>block index. block[length block - 1 - index := f index]) (xs @ ys) [0..<8]
    = xs @ [f 7, f 6, f 5, f 4, f 3, f 2, f 1, f 0]"
proof -
  from assms obtain a b c d e g h i where "ys = [a, b, c, d, e, g, h, i]"
    by (auto simp: numeral_eq_Suc length_Suc_conv)
  then show ?thesis by (simp add: upt_rec numeral_eq_Suc list_update_append)
qed

lemma final_block_eq:
  assumes "length (htail s) < 64"
  shows "final_block s = htail s @ [0x80] @ replicate ((119 - length (htail s)) mod 64) 0
    @ be64 (8 * int (hlength s))"
proof -
  let ?t = "length (htail s)" and ?n = "if length (htail s) < 56 then 64 else 128 :: nat"
  have z: "?n - ?t - 1 = (119 - ?t) mod 64 + 8"
  proof (cases "?t < 56")
    case True
    then have "(119 - ?t) mod 64 = 55 - ?t" by (simp add: mod_if)
    with True show ?thesis by simp
  qed (use assms in simp)
  define g :: "nat \<Rightarrow> byte" where
    "g i = word_of_int (drop_bit (i * 8) (int (hlength s) * 8) AND 0xff)" for i
  define xs where "xs = htail s @ [0x80] @ replicate ((119 - ?t) mod 64) 0"
  have "final_block s = foldl (\<lambda>block index. block[length block - 1 - index := g index])
      (xs @ replicate 8 0) [0..<8]"
    unfolding final_block_def Let_def z replicate_add g_def xs_def by (simp only: append_assoc)
  also have "\<dots> = xs @ [g 7, g 6, g 5, g 4, g 3, g 2, g 1, g 0]"
    by (rule update_last8) simp
  also have "[g 7, g 6, g 5, g 4, g 3, g 2, g 1, g 0] = be64 (8 * int (hlength s))"
    unfolding g_def byte_of_length be64_def by (simp add: upt_rec mult.commute)
  finally show ?thesis by (simp add: xs_def)
qed

lemma map_wi_absorb:
  assumes "words8 s"
  shows "words8 (absorb s bs) \<and> map wi (absorb s bs) = foldl sha_block (map wi s) (blocks bs)"
proof -
  have "words8 (foldl compress s bss) \<and> map wi (foldl compress s bss) = foldl sha_block (map wi s) bss" for bss
    using assms by (induction bss arbitrary: s) (auto simp: wi_compress words8_length)
  then show ?thesis by (simp add: absorb_def)
qed

lemma words8_uint: "words8 s \<Longrightarrow> map (\<lambda>w. uint (w :: word32)) (map wi s) = s"
  by (auto simp: words8_def to_uint32_uint map_idI)

lemma words8_new: "words8 (hstate new_hasher)"
  by (simp add: words8_def new_hasher_def to_uint32_def take_bit_int_eq_self)

lemma hexDigest_hashed:
  assumes "hashed s m"
  shows "hexDigest s = sha256_hex m"
proof -
  have t: "htail s = rest64 m" "hlength s = length m" "hstate s = absorb (hstate new_hasher) m"
    using assms by (simp_all add: hashed_def)
  let ?p = "[0x80] @ replicate ((119 - length m mod 64) mod 64) 0 @ be64 (8 * int (length m))"
  have "final_block s = rest64 m @ ?p"
    using final_block_eq [of s] by (simp add: t length_rest64)
  then have "fst (compress_loop (hstate s) (final_block s) 0) = absorb (hstate new_hasher) (pad m)"
    using compress_loop_absorb(1) [of 0 "final_block s" "hstate s"]
      absorb_append [of "hstate new_hasher" m ?p]
    by (simp add: t pad_def)
  moreover have "absorb (hstate new_hasher) (pad m) = map uint (sha256 m)"
    using map_wi_absorb [OF words8_new, of "pad m"]
      words8_uint [of "absorb (hstate new_hasher) (pad m)"]
    by (simp add: sha256_def H0_words)
  ultimately show ?thesis
    by (simp add: hexDigest_def sha256_hex_def comp_def)
qed


lemma set_hex_word: "set (hex_word x) \<subseteq> {48..57} \<union> {97..102}"
proof -
  have d: "hex_digit (nat (y mod 16)) \<in> {48..57} \<union> {97..102}" for y :: int
  proof -
    have "nat (y mod 16) < 16" using pos_mod_bound [of 16 y] by linarith
    then show ?thesis by (auto simp: hex_digit_def)
  qed
  show ?thesis
  proof
    fix u assume "u \<in> set (hex_word x)"
    then obtain y where "u = hex_digit (nat (y mod 16))" unfolding hex_word_def by auto
    with d show "u \<in> {48..57} \<union> {97..102}" by simp
  qed
qed

lemma incremental_digest:
  "hexDigest (foldl hash_update new_hasher chunks) = sha256_hex (concat chunks)"
  using hexDigest_hashed [OF hashed_fold [OF hashed_new, of chunks]] by simp

section \<open>Properties\<close>

text \<open>
  C2: Feeding the hasher a message in any division into chunks, empty ones
  included, and then asking for the digest yields the SHA-256 of FIPS 180-4 of
  the whole message, in lower-case hexadecimal. The reference computes its round
  constants and its initial hash from the roots of the first primes, so the tables
  of the code are part of what is shown.
\<close>

theorem incremental_sha256_correct:
  "hexDigest (foldl hash_update new_hasher chunks) = sha256_hex (concat chunks)"
  by (rule incremental_digest)

text \<open>
  The digest is always 64 characters, each a lower-case hexadecimal digit.
\<close>

theorem hexDigest_shape:
  "length (hexDigest (foldl hash_update new_hasher chunks)) = 64
   \<and> set (hexDigest (foldl hash_update new_hasher chunks)) \<subseteq> {48..57} \<union> {97..102}"
proof -
  have "length (sha256 m) = 8" for m
    using map_wi_absorb [OF words8_new, of "pad m"] words8_length
    by (metis H0_words length_map sha256_def)
  moreover have "length (hex_word x) = 8" for x by (simp add: hex_word_def)
  ultimately have "length (sha256_hex m) = 64" for m
    by (simp add: sha256_hex_def length_concat comp_def sum_list_triv)
  moreover have "set (sha256_hex m) \<subseteq> {48..57} \<union> {97..102}" for m
    using set_hex_word by (auto simp: sha256_hex_def)
  ultimately show ?thesis by (simp add: incremental_digest)
qed

end
