(* ===== verification/Uploads.thy ===== *)
theory Uploads
  imports JsIO Sha256
begin

text \<open>
  The resumable upload client (\<open>src/frontend/src/uploads.js\<close>, its hasher apart).
  \<open>fetch\<close>, the abort signal, timers, \<open>Blob.arrayBuffer\<close> and the progress
  callback are the fields of an environment over an arbitrary world. A session
  is kept as the JSON value the server sent; a File is a name, a size, a type
  and its bytes.
\<close>

unbundle bit_operations_syntax

section \<open>Errors\<close>

text \<open>
  \<open>UploadError\<close> with its code, HTTP status and retryable flag; the \<open>URIError\<close> of
  \<open>encodeURIComponent\<close>; and whatever the caller's progress callback throws.
\<close>

datatype upload_exn =
    UploadError (code: string) (status: "int option") (retryable: bool)
  | UriError
  | CallerError jstr

definition upload_error :: "string \<Rightarrow> upload_exn" where
  "upload_error c = UploadError c None False"

definition uploadErrorMessage :: "string \<Rightarrow> int option \<Rightarrow> jstr" where
  "uploadErrorMessage c st =
     (case st of None \<Rightarrow> js ''Upload '' @ map (\<lambda>u. if u = 95 then 32 else u) (js c)
      | Some n \<Rightarrow> js ''Upload failed (HTTP '' @ dec_int n @ js '')'')"

definition isReconciliable :: "upload_exn \<Rightarrow> bool" where
  "isReconciliable e = (case e of UploadError c s r \<Rightarrow> r | _ \<Rightarrow> False)"

section \<open>The environment\<close>

datatype request_body = NoBody | JsonBody jsval | BlobBody "byte list"

record request =
  req_url :: jstr
  req_method :: string
  req_headers :: "(string \<times> jstr) list"
  req_body :: request_body

text \<open>
  What awaiting \<open>fetch\<close> gives: a rejection (with the name AbortError or not) or a
  response with its status and the value of \<open>response.json()\<close>, \<open>None\<close> where that
  rejects.
\<close>

datatype fetch_result = FetchRejected bool | Response int "jsval option"

record progress =
  p_status :: string
  p_completedBytes :: int
  p_totalBytes :: int
  p_uploadId :: "jsval option"

record 'w upload_env =
  fetchImpl :: "request \<Rightarrow> 'w \<Rightarrow> fetch_result \<times> 'w"
  signal_aborted :: "'w \<Rightarrow> bool"
  timer :: "jsnum \<Rightarrow> 'w \<Rightarrow> bool \<times> 'w"
  arrayBuffer :: "byte list \<Rightarrow> 'w \<Rightarrow> (bool + byte list) \<times> 'w"
  onProgress :: "progress \<Rightarrow> 'w \<Rightarrow> (jstr + unit) \<times> 'w"

type_synonym ('w, 'a) upload_io = "(upload_exn, 'w, 'a) io"

definition throwIfAborted :: "'w upload_env \<Rightarrow> ('w, unit) upload_io" where
  "throwIfAborted env = (\<lambda>w. if signal_aborted env w then (Inl (upload_error ''aborted''), w) else (Inr (), w))"

text \<open>The timer resolves (\<open>True\<close>) or the abort event comes first (\<open>False\<close>).\<close>

definition delay :: "'w upload_env \<Rightarrow> jsnum \<Rightarrow> ('w, unit) upload_io" where
  "delay env milliseconds =
     (case milliseconds of
        Fin r \<Rightarrow> if r \<le> 0 then throwIfAborted env
                 else io_bind (io_call (timer env milliseconds))
                        (\<lambda>fired. if fired then io_return () else io_throw (upload_error ''aborted''))
      | _ \<Rightarrow> throwIfAborted env)"

section \<open>Identifiers, URLs and paths\<close>

definition is_control :: "nat \<Rightarrow> bool" where
  "is_control u \<longleftrightarrow> u \<le> 31 \<or> u = 127"

definition containsControl :: "jstr \<Rightarrow> bool" where
  "containsControl value \<longleftrightarrow> list_ex (\<lambda>c. is_control (codePointAt0 c)) (js_chars value)"

definition validateIdentifier :: "jsval \<Rightarrow> string \<Rightarrow> upload_exn + jstr" where
  "validateIdentifier value c =
     (if \<not> is_string value \<or> as_string value = [] \<or> containsControl (as_string value)
      then Inl (upload_error c) else Inr (as_string value))"

text \<open>
  \<open>encodeURIComponent\<close>: letters, digits and \<open>-_.!~*'()\<close> stay, every other code
  point becomes the percent-encoded bytes of its UTF-8 form, and a lone
  surrogate raises a URIError.
\<close>

definition uri_unreserved :: "nat \<Rightarrow> bool" where
  "uri_unreserved u \<longleftrightarrow> is_alpha u \<or> is_digit u \<or> u \<in> {45, 95, 46, 33, 126, 42, 39, 40, 41}"

definition utf8 :: "nat \<Rightarrow> nat list" where
  "utf8 cp =
     (if cp < 0x80 then [cp]
      else if cp < 0x800 then [0xC0 + cp div 64, 0x80 + cp mod 64]
      else if cp < 0x10000 then [0xE0 + cp div 4096, 0x80 + cp div 64 mod 64, 0x80 + cp mod 64]
      else [0xF0 + cp div 262144 mod 8, 0x80 + cp div 4096 mod 64, 0x80 + cp div 64 mod 64, 0x80 + cp mod 64])"

definition hex_upper :: "nat \<Rightarrow> nat" where
  "hex_upper n = (if n < 10 then 48 + n else 55 + n)"

definition percent :: "nat \<Rightarrow> jstr" where
  "percent b = [37, hex_upper (b div 16), hex_upper (b mod 16)]"

definition encode_char :: "jstr \<Rightarrow> upload_exn + jstr" where
  "encode_char c =
     (let cp = codePointAt0 c in
      if uri_unreserved cp then Inr c
      else if 0xD800 \<le> cp \<and> cp \<le> 0xDFFF then Inl UriError
      else Inr (concat (map percent (utf8 cp))))"

fun encode_chars :: "jstr list \<Rightarrow> upload_exn + jstr" where
  "encode_chars [] = Inr []"
| "encode_chars (c # cs) = sum_bind (encode_char c) (\<lambda>x. sum_bind (encode_chars cs) (\<lambda>y. Inr (x @ y)))"

definition encodeURIComponent :: "jstr \<Rightarrow> upload_exn + jstr" where
  "encodeURIComponent s = encode_chars (js_chars s)"

definition uploadUrl :: "jstr \<Rightarrow> jsval \<Rightarrow> upload_exn + jstr" where
  "uploadUrl threadId uploadId =
     sum_bind (encodeURIComponent threadId) (\<lambda>t.
       let root = js ''/api/codex_bridge/threads/'' @ t @ js ''/uploads'' in
       if truthy uploadId then
         sum_bind (validateIdentifier uploadId ''invalid_upload'') (\<lambda>u.
         sum_bind (encodeURIComponent u) (\<lambda>x. Inr (root @ js ''/'' @ x)))
       else Inr root)"

definition authorizationHeaders :: "jsval \<Rightarrow> (string \<times> jstr) list" where
  "authorizationHeaders accessToken =
     (if is_string accessToken \<and> as_string accessToken \<noteq> []
      then [(''Authorization'', js ''Bearer '' @ as_string accessToken)] else [])"

definition slashes :: "jstr \<Rightarrow> jstr" where
  "slashes value = map (\<lambda>u. if u = 92 then 47 else u) value"

definition drive_prefix :: "jstr \<Rightarrow> bool" where
  "drive_prefix path = (case path of u # v # _ \<Rightarrow> is_alpha u \<and> v = 58 | _ \<Rightarrow> False)"

definition bad_part :: "jstr \<Rightarrow> bool" where
  "bad_part part \<longleftrightarrow> part = [] \<or> part = js ''.'' \<or> part = js ''..''"

definition normaliseRelativePath :: "jsval \<Rightarrow> jstr \<Rightarrow> upload_exn + jstr" where
  "normaliseRelativePath value filename =
     (if \<not> is_string value \<or> as_string value = [] \<or> containsControl (as_string value)
      then Inl (upload_error ''invalid_path'')
      else let path = slashes (as_string value) in
        if starts_with [47] path \<or> drive_prefix path then Inl (upload_error ''invalid_path'')
        else let parts = split_on 47 path in
          if length parts > 16 \<or> list_ex bad_part parts \<or> last parts \<noteq> filename
          then Inl (upload_error ''invalid_path'') else Inr path)"

section \<open>Files\<close>

definition UPLOAD_CHUNK_BYTES :: int where
  "UPLOAD_CHUNK_BYTES = 8 * 1024 * 1024"

text \<open>The value passed as \<open>file\<close>; \<open>None\<close> stands for a falsy value.\<close>

record js_file =
  file_name :: jsval
  file_size :: jsval
  file_type :: jsval
  file_has_slice :: bool
  file_bytes :: "byte list"

record upload_file =
  uf_name :: jstr
  uf_size :: int
  uf_type :: jsval
  uf_bytes :: "byte list"

definition validateFile :: "js_file option \<Rightarrow> upload_exn + upload_file" where
  "validateFile file =
     (case file of None \<Rightarrow> Inl (upload_error ''invalid_file'')
      | Some f \<Rightarrow>
        if \<not> is_string (file_name f) \<or> \<not> is_safe_integer (file_size f) \<or> to_int (file_size f) < 1
           \<or> \<not> file_has_slice f
        then Inl (upload_error ''invalid_file'')
        else let name = as_string (file_name f) in
          if 47 \<in> set name \<or> 92 \<in> set name \<or> containsControl name
          then Inl (upload_error ''invalid_path'')
          else Inr \<lparr>uf_name = name, uf_size = to_int (file_size f), uf_type = file_type f,
                     uf_bytes = file_bytes f\<rparr>)"

text \<open>\<open>blob.slice(start, end)\<close> for \<open>0 \<le> start\<close>.\<close>

definition blob_slice :: "byte list \<Rightarrow> int \<Rightarrow> int \<Rightarrow> byte list" where
  "blob_slice bytes start stop = take (nat stop - nat start) (drop (nat start) bytes)"

definition blobBytes :: "'w upload_env \<Rightarrow> byte list \<Rightarrow> ('w, byte list) upload_io" where
  "blobBytes env blob =
     io_then (throwIfAborted env)
       (io_bind (io_call (arrayBuffer env blob)) (\<lambda>r.
          case r of Inr bytes \<Rightarrow> io_return bytes
          | Inl abort_error \<Rightarrow> io_bind (io_gets (signal_aborted env)) (\<lambda>ab.
              if ab \<or> abort_error then io_throw (upload_error ''aborted'')
              else io_throw (upload_error ''invalid_file''))))"

function hash_slices ::
  "'w upload_env \<Rightarrow> int \<Rightarrow> byte list \<Rightarrow> int \<Rightarrow> int \<Rightarrow> hasher \<Rightarrow> ('w, hasher) upload_io" where
  "hash_slices env fsize bytes chunkSize offset h =
     (if offset < fsize \<and> 1 \<le> chunkSize then
        io_then (throwIfAborted env)
          (io_bind (blobBytes env (blob_slice bytes offset (min fsize (offset + chunkSize)))) (\<lambda>b.
             hash_slices env fsize bytes chunkSize (offset + chunkSize) (hash_update h b)))
      else io_return h)"
  by pat_completeness auto
termination
  by (relation "measure (\<lambda>(env, fsize, bytes, chunkSize, offset, h). nat (fsize - offset))") auto

declare hash_slices.simps [simp del]

definition sha256File :: "'w upload_env \<Rightarrow> int \<Rightarrow> byte list \<Rightarrow> int \<Rightarrow> ('w, jstr) upload_io" where
  "sha256File env fsize bytes chunkSize =
     (if \<bar>chunkSize\<bar> > MAX_SAFE \<or> chunkSize < 1 \<or> chunkSize > UPLOAD_CHUNK_BYTES
      then io_throw (upload_error ''invalid_chunk_size'')
      else io_bind (hash_slices env fsize bytes chunkSize 0 new_hasher)
             (\<lambda>h. io_return (hexDigest h)))"

section \<open>Sessions\<close>

text \<open>
  \<open>[...session.received_indices].sort((left, right) => left - right)\<close>. On an array of
  finite numbers this sorts; on any other array the comparator is inconsistent and
  the order is the engine's choice. No order of such an array passes
  \<open>validateSession\<close>, so it is left as it is.
\<close>

definition is_fin :: "jsval \<Rightarrow> bool" where
  "is_fin v = (case v of JNum (Fin r) \<Rightarrow> True | _ \<Rightarrow> False)"

definition fin_val :: "jsval \<Rightarrow> rat" where
  "fin_val v = (case v of JNum (Fin r) \<Rightarrow> r | _ \<Rightarrow> 0)"

definition receivedIndices :: "jsval \<Rightarrow> jsval list" where
  "receivedIndices session =
     (let xs = as_list (dot session ''received_indices'') in
      if list_all is_fin xs then sort_key fin_val xs else xs)"

definition firstMissingIndex :: "jsval \<Rightarrow> nat" where
  "firstMissingIndex session = length (receivedIndices session)"

definition session_statuses :: "jsval list" where
  "session_statuses = [jlit ''active'', jlit ''completed'', jlit ''cancelled'']"

definition index_mismatch :: "jsval \<Rightarrow> nat \<times> jsval \<Rightarrow> bool" where
  "index_mismatch total_chunks entry = (case entry of (position, index) \<Rightarrow>
     index \<noteq> jint (int position) \<or> to_int index \<ge> to_int total_chunks)"

definition validateSession :: "jsval \<Rightarrow> int option \<Rightarrow> upload_exn + jsval" where
  "validateSession session expectedSize =
     (if \<not> truthy session \<or> \<not> is_object session \<or> \<not> is_string (dot session ''upload_id'')
         \<or> as_string (dot session ''upload_id'') = []
      then Inl (upload_error ''invalid_session'')
      else if \<not> is_safe_integer (dot session ''chunk_size'') \<or> to_int (dot session ''chunk_size'') < 1
         \<or> to_int (dot session ''chunk_size'') > UPLOAD_CHUNK_BYTES
         \<or> \<not> is_safe_integer (dot session ''total_chunks'') \<or> to_int (dot session ''total_chunks'') < 1
         \<or> \<not> is_array (dot session ''received_indices'')
         \<or> dot session ''status'' \<notin> set session_statuses
      then Inl (upload_error ''invalid_session'')
      else if (case expectedSize of None \<Rightarrow> False
               | Some n \<Rightarrow> dot session ''size_bytes'' \<noteq> JUndefined \<and> dot session ''size_bytes'' \<noteq> jint n)
      then Inl (upload_error ''session_mismatch'')
      else if list_ex (index_mismatch (dot session ''total_chunks'')) (enumerate 0 (receivedIndices session))
      then Inl (upload_error ''invalid_session'')
      else Inr session)"

definition assertSessionMatchesFile :: "jsval \<Rightarrow> upload_file \<Rightarrow> jstr \<Rightarrow> jstr \<Rightarrow> upload_exn + unit" where
  "assertSessionMatchesFile session file relativePath sha =
     sum_bind (validateSession session (Some (uf_size file))) (\<lambda>_.
       if dot session ''filename'' \<noteq> JStr (uf_name file)
          \<or> dot session ''relative_path'' \<noteq> JStr relativePath
          \<or> dot session ''sha256'' \<noteq> JStr sha
       then Inl (upload_error ''session_mismatch'') else Inr ())"

section \<open>Requests\<close>

definition requestJson :: "'w upload_env \<Rightarrow> request \<Rightarrow> int list \<Rightarrow> ('w, jsval) upload_io" where
  "requestJson env req expectedStatuses =
     io_then (throwIfAborted env)
       (io_bind (io_call (fetchImpl env req)) (\<lambda>r.
          case r of
            FetchRejected abort_error \<Rightarrow> io_bind (io_gets (signal_aborted env)) (\<lambda>ab.
              if ab \<or> abort_error then io_throw (upload_error ''aborted'')
              else io_throw (UploadError ''network_error'' None True))
          | Response st body \<Rightarrow>
              if st \<notin> set expectedStatuses
              then io_throw (UploadError ''http_error'' (Some st) (st \<ge> 500 \<or> st = 409))
              else (case body of Some v \<Rightarrow> io_return v
                    | None \<Rightarrow> io_throw (upload_error ''invalid_response''))))"

definition session_request :: "string \<Rightarrow> jstr \<Rightarrow> jsval \<Rightarrow> request" where
  "session_request meth url accessToken =
     \<lparr>req_url = url, req_method = meth, req_headers = authorizationHeaders accessToken, req_body = NoBody\<rparr>"

definition cancelResumableUpload ::
  "'w upload_env \<Rightarrow> jstr \<Rightarrow> jsval \<Rightarrow> jsval \<Rightarrow> ('w, jsval) upload_io" where
  "cancelResumableUpload env threadId uploadId accessToken =
     io_bind (io_lift (uploadUrl threadId uploadId)) (\<lambda>url.
       requestJson env (session_request ''DELETE'' url accessToken) [200])"

definition getUploadSession ::
  "'w upload_env \<Rightarrow> jstr \<Rightarrow> jsval \<Rightarrow> jsval \<Rightarrow> ('w, jsval) upload_io" where
  "getUploadSession env threadId uploadId accessToken =
     io_bind (io_lift (uploadUrl threadId uploadId)) (\<lambda>url.
     io_bind (requestJson env (session_request ''GET'' url accessToken) [200]) (\<lambda>v.
       io_lift (validateSession v None)))"

section \<open>One chunk, with reconciliation\<close>

record put_options =
  po_threadId :: jstr
  po_index :: nat
  po_offset :: int
  po_chunk :: "byte list"
  po_digest :: jstr
  po_accessToken :: jsval
  po_retryDelay :: jsnum
  po_fileSize :: int

definition put_request :: "put_options \<Rightarrow> jstr \<Rightarrow> request" where
  "put_request opts url =
     \<lparr>req_url = url @ js ''/chunks/'' @ dec_nat (po_index opts), req_method = ''PUT'',
      req_headers = authorizationHeaders (po_accessToken opts)
        @ [(''Content-Type'', js ''application/octet-stream''),
           (''Upload-Offset'', dec_int (po_offset opts)), (''X-Chunk-SHA256'', po_digest opts)],
      req_body = BlobBody (po_chunk opts)\<rparr>"

definition put_once :: "'w upload_env \<Rightarrow> put_options \<Rightarrow> jsval \<Rightarrow> ('w, jsval) upload_io" where
  "put_once env opts latest =
     io_bind (io_lift (uploadUrl (po_threadId opts) (dot latest ''upload_id''))) (\<lambda>url.
     io_bind (requestJson env (put_request opts url) [200]) (\<lambda>v.
       io_lift (validateSession v (Some (po_fileSize opts)))))"

text \<open>
  The reconciliation read of a failed attempt: the new session, or the old one
  where the read failed with a retryable error and attempts remain.
\<close>

definition reconcile :: "'w upload_env \<Rightarrow> put_options \<Rightarrow> nat \<Rightarrow> upload_exn \<Rightarrow> jsval \<Rightarrow> ('w, jsval) upload_io" where
  "reconcile env opts remaining lastError latest =
     io_catch (getUploadSession env (po_threadId opts) (dot latest ''upload_id'') (po_accessToken opts))
       (\<lambda>statusError. if remaining = 0 \<or> \<not> isReconciliable statusError then io_throw lastError
          else io_return latest)"

text \<open>
  The loop over \<open>attempt\<close>; the argument counts \<open>retryAttempts - attempt\<close>. The \<open>throw\<close>
  after the loop is not reached, since the last attempt returns or throws.
\<close>

fun put_attempts :: "'w upload_env \<Rightarrow> put_options \<Rightarrow> nat \<Rightarrow> jsval \<Rightarrow> ('w, jsval) upload_io" where
  "put_attempts env opts remaining latest =
     io_then (throwIfAborted env)
       (io_catch (put_once env opts latest) (\<lambda>lastError.
          if \<not> isReconciliable lastError then io_throw lastError
          else io_bind (reconcile env opts remaining lastError latest) (\<lambda>latest.
            if dot latest ''status'' = jlit ''completed''
               \<or> jint (int (po_index opts)) \<in> set (receivedIndices latest)
            then io_return latest
            else (case remaining of 0 \<Rightarrow> io_throw lastError
                  | Suc rest_attempts \<Rightarrow> io_then (delay env (po_retryDelay opts)) (put_attempts env opts rest_attempts latest)))))"

declare put_attempts.simps [simp del]

definition putChunkWithReconcile ::
  "'w upload_env \<Rightarrow> put_options \<Rightarrow> nat \<Rightarrow> jsval \<Rightarrow> ('w, jsval) upload_io" where
  "putChunkWithReconcile env opts retryAttempts session = put_attempts env opts retryAttempts session"

section \<open>The whole upload\<close>

definition report :: "'w upload_env \<Rightarrow> int \<Rightarrow> string \<Rightarrow> int \<Rightarrow> jsval option \<Rightarrow> ('w, unit) upload_io" where
  "report env fsize st completedBytes uploadId =
     io_bind (io_call (onProgress env \<lparr>p_status = st, p_completedBytes = completedBytes,
        p_totalBytes = fsize, p_uploadId = uploadId\<rparr>)) (\<lambda>r.
        case r of Inl e \<Rightarrow> io_throw (CallerError e) | Inr _ \<Rightarrow> io_return ())"

record upload_args =
  ua_threadId :: jstr
  ua_accessToken :: jsval
  ua_retryAttempts :: nat
  ua_retryDelay :: jsnum
  ua_file :: upload_file

definition chunk_size :: "jsval \<Rightarrow> int" where
  "chunk_size session = to_int (dot session ''chunk_size'')"

text \<open>The body of the while loop: hash the first missing chunk, send it, report.\<close>

definition uploadChunk :: "'w upload_env \<Rightarrow> upload_args \<Rightarrow> jsval \<Rightarrow> ('w, jsval) upload_io" where
  "uploadChunk env a session =
     (let f = ua_file a; index = firstMissingIndex session; offset = int index * chunk_size session;
          chunk = blob_slice (uf_bytes f) offset (min (uf_size f) (offset + chunk_size session));
          chunkLen = int (length chunk) in
      io_bind (sha256File env chunkLen chunk (min chunkLen UPLOAD_CHUNK_BYTES)) (\<lambda>chunkDigest.
      io_then (report env (uf_size f) ''uploading'' (min offset (uf_size f)) (Some (dot session ''upload_id'')))
     (io_bind (putChunkWithReconcile env
                 \<lparr>po_threadId = ua_threadId a, po_index = index, po_offset = offset, po_chunk = chunk,
                  po_digest = chunkDigest, po_accessToken = ua_accessToken a,
                  po_retryDelay = ua_retryDelay a, po_fileSize = uf_size f\<rparr>
                 (ua_retryAttempts a) session) (\<lambda>session'.
      io_then (report env (uf_size f) ''uploading''
                 (min (int (firstMissingIndex session') * chunk_size session') (uf_size f))
                 (Some (dot session' ''upload_id'')))
        (io_return session')))))"

text \<open>
  The while loop. A server that keeps answering 200 without recording the chunk
  would keep it running, so it is a partial function: \<open>None\<close> is not returning.
\<close>

partial_function (option) uploadLoop ::
  "'w upload_env \<Rightarrow> upload_args \<Rightarrow> jsval \<Rightarrow> 'w \<Rightarrow> ((upload_exn + jsval) \<times> 'w) option" where
  "uploadLoop env a session w =
     (if dot session ''status'' = jlit ''active''
         \<and> int (firstMissingIndex session) \<noteq> to_int (dot session ''total_chunks'')
      then (case uploadChunk env a session w of
              (Inl e, w') \<Rightarrow> Some (Inl e, w')
            | (Inr session', w') \<Rightarrow> uploadLoop env a session' w')
      else Some (Inr session, w))"

text \<open>After the loop: finish, or ask the server to publish the upload.\<close>

record upload_outcome =
  uo_upload :: jsval
  uo_attachment :: jsval

definition completed_outcome :: "'w upload_env \<Rightarrow> int \<Rightarrow> jsval \<Rightarrow> jsval \<Rightarrow> ('w, upload_outcome) upload_io" where
  "completed_outcome env fsize session attachment =
     io_then (report env fsize ''completed'' fsize (Some (dot session ''upload_id'')))
       (io_return \<lparr>uo_upload = session, uo_attachment = attachment\<rparr>)"

definition publish :: "'w upload_env \<Rightarrow> upload_args \<Rightarrow> jsval \<Rightarrow> ('w, jsval \<times> jsval) upload_io" where
  "publish env a session =
     io_catch
       (io_bind (io_lift (uploadUrl (ua_threadId a) (dot session ''upload_id''))) (\<lambda>url.
        io_bind (requestJson env (session_request ''POST'' (url @ js ''/complete'') (ua_accessToken a)) [201])
          (\<lambda>attachment. io_return (session, attachment))))
       (\<lambda>error. if \<not> isReconciliable error then io_throw error
          else io_bind (getUploadSession env (ua_threadId a) (dot session ''upload_id'') (ua_accessToken a))
            (\<lambda>session'. if dot session' ''status'' \<noteq> jlit ''completed'' then io_throw error
               else io_return (session', JNull)))"

definition finishUpload :: "'w upload_env \<Rightarrow> upload_args \<Rightarrow> jsval \<Rightarrow> ('w, upload_outcome) upload_io" where
  "finishUpload env a session =
     (if dot session ''status'' = jlit ''completed''
      then completed_outcome env (uf_size (ua_file a)) session JNull
      else if dot session ''status'' = jlit ''cancelled'' then io_throw (upload_error ''session_cancelled'')
      else io_bind (publish env a session) (\<lambda>(session', attachment).
             completed_outcome env (uf_size (ua_file a)) session' attachment))"

definition create_body :: "upload_file \<Rightarrow> jstr \<Rightarrow> jstr \<Rightarrow> jsval" where
  "create_body f path digest =
     JObj [(js ''filename'', JStr (uf_name f)),
           (js ''mime_type'', js_or (uf_type f) (jlit ''application/octet-stream'')),
           (js ''relative_path'', JStr path), (js ''size_bytes'', jint (uf_size f)),
           (js ''sha256'', JStr digest)]"

definition createSession :: "'w upload_env \<Rightarrow> upload_args \<Rightarrow> jstr \<Rightarrow> jstr \<Rightarrow> ('w, jsval) upload_io" where
  "createSession env a path digest =
     io_bind (io_lift (uploadUrl (ua_threadId a) JNull)) (\<lambda>url.
       requestJson env
         \<lparr>req_url = url, req_method = ''POST'',
          req_headers = authorizationHeaders (ua_accessToken a) @ [(''Content-Type'', js ''application/json'')],
          req_body = JsonBody (create_body (ua_file a) path digest)\<rparr> [201])"

text \<open>Everything before the loop: hash the file, then resume or create the session.\<close>

definition openSession :: "'w upload_env \<Rightarrow> upload_args \<Rightarrow> jstr \<Rightarrow> jsval \<Rightarrow> ('w, jsval) upload_io" where
  "openSession env a path uploadId =
     (let f = ua_file a in
      io_then (report env (uf_size f) ''hashing'' 0 None)
     (io_bind (sha256File env (uf_size f) (uf_bytes f) UPLOAD_CHUNK_BYTES) (\<lambda>fileDigest.
      io_then (throwIfAborted env)
     (io_bind (if truthy uploadId
               then io_bind (getUploadSession env (ua_threadId a) uploadId (ua_accessToken a)) (\<lambda>session.
                      io_then (io_lift (assertSessionMatchesFile session f path fileDigest)) (io_return session))
               else createSession env a path fileDigest) (\<lambda>session.
      io_lift (validateSession session (Some (uf_size f))))))))"

definition upload_arguments ::
  "js_file option \<Rightarrow> jsval \<Rightarrow> jsval \<Rightarrow> jsval \<Rightarrow> jsval \<Rightarrow> jsnum \<Rightarrow> upload_exn + (upload_args \<times> jstr)" where
  "upload_arguments file threadId relativePath accessToken retryAttempts retryDelay =
     sum_bind (validateFile file) (\<lambda>f.
     sum_bind (validateIdentifier threadId ''invalid_thread'') (\<lambda>t.
     sum_bind (normaliseRelativePath (js_coalesce relativePath (JStr (uf_name f))) (uf_name f)) (\<lambda>path.
       if \<not> is_safe_integer retryAttempts \<or> to_int retryAttempts < 0 \<or> to_int retryAttempts > 5
       then Inl (upload_error ''invalid_retry_attempts'')
       else Inr (\<lparr>ua_threadId = t, ua_accessToken = accessToken,
                  ua_retryAttempts = nat (to_int retryAttempts), ua_retryDelay = retryDelay,
                  ua_file = f\<rparr>, path))))"

definition uploadResumableFile ::
  "'w upload_env \<Rightarrow> js_file option \<Rightarrow> jsval \<Rightarrow> jsval \<Rightarrow> jsval \<Rightarrow> jsval \<Rightarrow> jsval \<Rightarrow> jsnum
     \<Rightarrow> 'w \<Rightarrow> ((upload_exn + upload_outcome) \<times> 'w) option" where
  "uploadResumableFile env file threadId relativePath uploadId accessToken retryAttempts retryDelay w =
     (case upload_arguments file threadId relativePath accessToken retryAttempts retryDelay of
        Inl e \<Rightarrow> Some (Inl e, w)
      | Inr (a, path) \<Rightarrow>
         (case openSession env a path uploadId w of
            (Inl e, w') \<Rightarrow> Some (Inl e, w')
          | (Inr session, w') \<Rightarrow>
             if dot session ''status'' = jlit ''cancelled''
             then Some (Inl (upload_error ''session_cancelled''), w')
             else if dot session ''status'' = jlit ''completed''
             then Some (completed_outcome env (uf_size (ua_file a)) session JNull w')
             else (case uploadLoop env a session w' of
                     None \<Rightarrow> None
                   | Some (Inl e, w'') \<Rightarrow> Some (Inl e, w'')
                   | Some (Inr session', w'') \<Rightarrow> Some (finishUpload env a session' w''))))"

section \<open>Paths and URLs\<close>

lemma containsControl_iff: "containsControl s \<longleftrightarrow> list_ex is_control s"
  unfolding containsControl_def by (rule ex_js_chars) (auto simp: is_control_def)

lemma set_slashes: "92 \<notin> set (slashes v)"
  by (auto simp: slashes_def)

lemma control_slashes [simp]: "list_ex is_control (slashes v) \<longleftrightarrow> list_ex is_control v"
  by (auto simp: slashes_def list_ex_iff is_control_def)

text \<open>What a path is allowed to be, without reference to the order of the checks.\<close>

definition safe_relative_path :: "jstr \<Rightarrow> jstr \<Rightarrow> bool" where
  "safe_relative_path filename path \<longleftrightarrow>
     (\<exists>parts. path = join_with [47] parts \<and> parts \<noteq> [] \<and> length parts \<le> 16 \<and> last parts = filename
        \<and> (\<forall>p\<in>set parts. p \<noteq> [] \<and> p \<noteq> js ''.'' \<and> p \<noteq> js ''..'' \<and> 47 \<notin> set p \<and> 92 \<notin> set p
             \<and> \<not> list_ex is_control p))
     \<and> \<not> drive_prefix path"

lemma hd_parts: "starts_with [47] p \<Longrightarrow> [] \<in> set (split_on 47 p)"
  by (cases p) (auto simp: starts_with_def)

lemma normaliseRelativePath_Inr:
  "normaliseRelativePath (JStr v) filename = Inr path \<longleftrightarrow>
     path = slashes v \<and> v \<noteq> [] \<and> \<not> list_ex is_control v \<and> \<not> starts_with [47] path
     \<and> \<not> drive_prefix path \<and> length (split_on 47 path) \<le> 16
     \<and> \<not> list_ex bad_part (split_on 47 path) \<and> last (split_on 47 path) = filename"
  by (auto simp: normaliseRelativePath_def containsControl_iff Let_def)

lemma join_with_controls:
  "\<forall>p\<in>set parts. \<not> list_ex is_control p \<Longrightarrow> \<not> list_ex is_control (join_with [47] parts)"
  by (induction "[47] :: jstr" parts rule: join_with.induct) (auto simp: is_control_def)

lemma safe_relative_path_parts:
  assumes "safe_relative_path filename path"
  shows "path \<noteq> []" "\<not> list_ex is_control path" "\<not> list_ex bad_part (split_on 47 path)"
    "length (split_on 47 path) \<le> 16" "last (split_on 47 path) = filename" "\<not> drive_prefix path"
proof -
  from assms obtain parts where p: "path = join_with [47] parts" "parts \<noteq> []" "length parts \<le> 16"
      "last parts = filename"
    and all: "\<forall>p\<in>set parts. p \<noteq> [] \<and> p \<noteq> js ''.'' \<and> p \<noteq> js ''..'' \<and> 47 \<notin> set p \<and> 92 \<notin> set p
             \<and> \<not> list_ex is_control p"
    unfolding safe_relative_path_def by blast
  have sj: "split_on 47 path = parts"
    unfolding p(1) using all p(2) by (intro split_join) auto
  show "length (split_on 47 path) \<le> 16" "last (split_on 47 path) = filename"
    using sj p by simp_all
  show "\<not> list_ex bad_part (split_on 47 path)"
    using sj all by (auto simp: list_ex_iff bad_part_def)
  show "\<not> list_ex is_control path"
    unfolding p(1) using all by (intro join_with_controls) auto
  show "path \<noteq> []"
    using sj all by (metis (no_types, opaque_lifting) list.set_intros(1) split_on.simps(1))
  show "\<not> drive_prefix path"
    using assms by (simp add: safe_relative_path_def)
qed

lemma safe_relative_pathI:
  assumes "\<not> list_ex is_control path" "92 \<notin> set path" "\<not> drive_prefix path"
    "length (split_on 47 path) \<le> 16" "\<not> list_ex bad_part (split_on 47 path)"
    "last (split_on 47 path) = filename"
  shows "safe_relative_path filename path"
  unfolding safe_relative_path_def
proof (intro conjI exI)
  show "path = join_with [47] (split_on 47 path)" by simp
  show "\<forall>p\<in>set (split_on 47 path). p \<noteq> [] \<and> p \<noteq> js ''.'' \<and> p \<noteq> js ''..'' \<and> 47 \<notin> set p \<and> 92 \<notin> set p
             \<and> \<not> list_ex is_control p"
  proof
    fix p assume p: "p \<in> set (split_on 47 path)"
    from set_split_on [OF this] assms(1,2) have "92 \<notin> set p" "\<not> list_ex is_control p"
      by (auto simp: list_ex_iff)
    moreover have "47 \<notin> set p" using p split_on_no_sep by blast
    moreover have "\<not> bad_part p" using p assms(5) by (auto simp: list_ex_iff)
    ultimately show "p \<noteq> [] \<and> p \<noteq> js ''.'' \<and> p \<noteq> js ''..'' \<and> 47 \<notin> set p \<and> 92 \<notin> set p
             \<and> \<not> list_ex is_control p"
      by (simp add: bad_part_def)
  qed
qed (use assms in simp_all)

lemma utf8_bytes: "b \<in> set (utf8 cp) \<Longrightarrow> b < 256"
proof -
  have m: "x mod 64 < 64" "x mod 8 < 8" for x :: nat by simp_all
  have "cp < 0x800 \<Longrightarrow> cp div 64 < 32" "cp < 0x10000 \<Longrightarrow> cp div 4096 < 16"
    by (simp_all add: less_mult_imp_div_less)
  then show "b \<in> set (utf8 cp) \<Longrightarrow> b < 256"
    using m(1) [of cp] m(1) [of "cp div 64"] m(1) [of "cp div 4096"] m(2) [of "cp div 262144"]
    by (auto simp: utf8_def split: if_splits)
qed

lemma percent_safe: "b < 256 \<Longrightarrow> x \<in> set (percent b) \<Longrightarrow> uri_unreserved x \<or> x = 37"
proof -
  assume b: "b < 256" and x: "x \<in> set (percent b)"
  have n: "n < 16 \<Longrightarrow> uri_unreserved (hex_upper n)" for n
    by (auto simp: hex_upper_def uri_unreserved_def is_digit_def is_alpha_def)
  have "b div 16 < 16" "b mod 16 < 16" using b by (simp_all add: less_mult_imp_div_less)
  then show ?thesis using x n by (auto simp: percent_def)
qed

lemma js_chars_pieces:
  "c \<in> set (js_chars s) \<Longrightarrow> length c = 1 \<or> 0x10000 \<le> codePointAt0 c"
  by (induction s rule: js_chars.induct) (auto split: if_splits)

lemma encode_char_safe:
  assumes "encode_char c = Inr s" "u \<in> set s" "length c = 1 \<or> 0x10000 \<le> codePointAt0 c"
  shows "uri_unreserved u \<or> u = 37"
proof (cases "uri_unreserved (codePointAt0 c)")
  case True
  then have "codePointAt0 c < 0x10000"
    by (auto simp: uri_unreserved_def is_alpha_def is_digit_def)
  with assms(3) have "length c = 1" by simp
  with assms True show ?thesis by (auto simp: encode_char_def length_Suc_conv)
next
  case False
  with assms obtain b where "b \<in> set (utf8 (codePointAt0 c))" "u \<in> set (percent b)"
    by (auto simp: encode_char_def Let_def split: if_splits)
  then show ?thesis using utf8_bytes percent_safe by blast
qed

lemma encode_chars_safe:
  "encode_chars cs = Inr s \<Longrightarrow> \<forall>c\<in>set cs. length c = 1 \<or> 0x10000 \<le> codePointAt0 c \<Longrightarrow>
     u \<in> set s \<Longrightarrow> uri_unreserved u \<or> u = 37"
proof (induction cs arbitrary: s)
  case (Cons c cs)
  then obtain x y where "encode_char c = Inr x" "encode_chars cs = Inr y" "s = x @ y"
    by (auto simp: sum_bind_Inr_iff)
  with Cons encode_char_safe [of c x u] show ?case by auto
qed simp

lemma encodeURIComponent_safe:
  "encodeURIComponent s = Inr t \<Longrightarrow> u \<in> set t \<Longrightarrow> uri_unreserved u \<or> u = 37"
  unfolding encodeURIComponent_def
  using encode_chars_safe js_chars_pieces by blast

lemma encode_chars_no_surrogate:
  "\<forall>c\<in>set cs. codePointAt0 c < 0xD800 \<or> 0xDFFF < codePointAt0 c \<Longrightarrow> \<exists>t. encode_chars cs = Inr t"
  by (induction cs) (auto simp: encode_char_def Let_def)

lemma encodeURIComponent_unreserved:
  "list_all uri_unreserved s \<Longrightarrow> encodeURIComponent s = Inr s"
  unfolding encodeURIComponent_def
proof (induction s rule: js_chars.induct)
  case (3 u v us)
  have "\<not> is_high u"
    using 3 by (auto simp: uri_unreserved_def is_high_def is_alpha_def is_digit_def)
  with 3 show ?case by (simp add: encode_char_def)
qed (auto simp: encode_char_def)

section \<open>Hashing a file\<close>

text \<open>
  The laws of a calm environment: the signal is never aborted, reading a blob
  gives its bytes, progress callbacks return, and none of them changes what the
  predicate \<open>keep\<close> observes of the world.
\<close>

definition calm :: "'w upload_env \<Rightarrow> ('w \<Rightarrow> 'o) \<Rightarrow> bool" where
  "calm env obs \<longleftrightarrow>
     (\<forall>w. \<not> signal_aborted env w)
     \<and> (\<forall>b w. \<exists>w'. arrayBuffer env b w = (Inr b, w') \<and> obs w' = obs w)
     \<and> (\<forall>p w. \<exists>w'. onProgress env p w = (Inr (), w') \<and> obs w' = obs w)
     \<and> (\<forall>d w. \<exists>w'. timer env d w = (True, w') \<and> obs w' = obs w)"

lemma calm_abort [simp]: "calm env obs \<Longrightarrow> throwIfAborted env w = (Inr (), w)"
  by (simp add: calm_def throwIfAborted_def)

lemma calm_blobBytes:
  assumes "calm env obs"
  obtains w' where "blobBytes env b w = (Inr b, w')" "obs w' = obs w"
proof -
  from assms obtain w' where "arrayBuffer env b w = (Inr b, w')" "obs w' = obs w"
    unfolding calm_def by blast
  with that assms show thesis
    by (simp add: blobBytes_def io_defs throwIfAborted_def calm_def)
qed

lemma calm_delay:
  assumes "calm env obs"
  obtains w' where "delay env d w = (Inr (), w')" "obs w' = obs w"
proof -
  from assms obtain w' where "timer env d w = (True, w')" "obs w' = obs w"
    unfolding calm_def by blast
  then have "delay env d w = (Inr (), w) \<or> delay env d w = (Inr (), w')"
    using assms by (cases d) (auto simp: delay_def io_defs throwIfAborted_def calm_def)
  with that \<open>obs w' = obs w\<close> show thesis by metis
qed

lemma calm_report:
  assumes "calm env obs"
  obtains w' where "report env n st k u w = (Inr (), w')" "obs w' = obs w"
proof -
  let ?p = "\<lparr>p_status = st, p_completedBytes = k, p_totalBytes = n, p_uploadId = u\<rparr>"
  from assms obtain w' where "onProgress env ?p w = (Inr (), w')" "obs w' = obs w"
    unfolding calm_def by blast
  with that show thesis by (simp add: report_def io_defs)
qed

lemma hash_slices_calm:
  assumes "calm env obs" "fsize = int (length bytes)" "1 \<le> chunkSize" "0 \<le> offset"
  shows "\<exists>cs w'. hash_slices env fsize bytes chunkSize offset h w = (Inr (foldl hash_update h cs), w')
     \<and> concat cs = drop (nat offset) bytes \<and> obs w' = obs w"
  using assms
proof (induction env fsize bytes chunkSize offset h arbitrary: w rule: hash_slices.induct)
  case (1 env fsize bytes chunkSize offset h)
  show ?case
  proof (cases "offset < fsize")
    case True
    let ?b = "blob_slice bytes offset (min fsize (offset + chunkSize))"
    obtain w1 where w1: "blobBytes env ?b w = (Inr ?b, w1)" "obs w1 = obs w"
      using calm_blobBytes [OF "1.prems"(1)] by metis
    obtain cs w2 where w2: "hash_slices env fsize bytes chunkSize (offset + chunkSize) (hash_update h ?b) w1
        = (Inr (foldl hash_update (hash_update h ?b) cs), w2)"
      "concat cs = drop (nat (offset + chunkSize)) bytes" "obs w2 = obs w1"
      using "1.IH" [of ?b w1] True "1.prems" by auto
    have b: "?b = take (nat chunkSize) (drop (nat offset) bytes)"
    proof (cases "fsize \<le> offset + chunkSize")
      case True
      then have "nat (min fsize (offset + chunkSize)) - nat offset = length (drop (nat offset) bytes)"
        "length (drop (nat offset) bytes) \<le> nat chunkSize"
        using "1.prems" by auto
      then show ?thesis by (simp add: blob_slice_def)
    next
      case False
      then have "nat (min fsize (offset + chunkSize)) - nat offset = nat chunkSize"
        using "1.prems" by auto
      then show ?thesis by (simp add: blob_slice_def)
    qed
    have "drop (nat (offset + chunkSize)) bytes = drop (nat chunkSize) (drop (nat offset) bytes)"
      using "1.prems" by (simp add: nat_add_distrib add.commute)
    then have "concat (?b # cs) = drop (nat offset) bytes"
      using b w2(2) by (metis append_take_drop_id concat.simps(2))
    moreover have "hash_slices env fsize bytes chunkSize offset h w = (Inr (foldl hash_update h (?b # cs)), w2)"
      using True "1.prems" w1 w2
      by (subst hash_slices.simps) (simp add: io_then_Inr [OF calm_abort] io_bind_Inr)
    ultimately show ?thesis using w1 w2 by metis
  next
    case False
    then have "drop (nat offset) bytes = []" using "1.prems" by simp
    with False show ?thesis by (intro exI [of _ "[]"]) (simp add: hash_slices.simps)
  qed
qed

lemma sha256File_calm:
  assumes "calm env obs" "1 \<le> chunkSize" "chunkSize \<le> UPLOAD_CHUNK_BYTES"
  obtains w' where "sha256File env (int (length bytes)) bytes chunkSize w = (Inr (sha256_hex bytes), w')"
    "obs w' = obs w"
proof -
  obtain cs w' where h: "hash_slices env (int (length bytes)) bytes chunkSize 0 new_hasher w
      = (Inr (foldl hash_update new_hasher cs), w')" "concat cs = bytes" "obs w' = obs w"
    using hash_slices_calm [OF assms(1) refl assms(2), of 0 bytes new_hasher w] by auto
  have "\<bar>chunkSize\<bar> \<le> MAX_SAFE" using assms by (simp add: UPLOAD_CHUNK_BYTES_def MAX_SAFE_def)
  with h assms that show thesis
    by (simp add: sha256File_def io_bind_Inr incremental_digest not_less)
qed

section \<open>Valid sessions\<close>

definition first_indices :: "nat \<Rightarrow> jsval list" where
  "first_indices n = map (\<lambda>i. jint (int i)) [0..<n]"

text \<open>
  A session the client works with: the chunks received are exactly the first
  \<open>n\<close>, in whatever order the server lists them.
\<close>

definition session_ok :: "jsval \<Rightarrow> int option \<Rightarrow> nat \<Rightarrow> bool" where
  "session_ok session expectedSize n \<longleftrightarrow>
     is_record session
     \<and> (\<exists>u. dot session ''upload_id'' = JStr u \<and> u \<noteq> [])
     \<and> (\<exists>c. dot session ''chunk_size'' = jint c \<and> 1 \<le> c \<and> c \<le> UPLOAD_CHUNK_BYTES)
     \<and> (\<exists>t. dot session ''total_chunks'' = jint t \<and> 1 \<le> t \<and> t \<le> MAX_SAFE \<and> int n \<le> t)
     \<and> (\<exists>xs. dot session ''received_indices'' = JArr xs \<and> mset xs = mset (first_indices n))
     \<and> dot session ''status'' \<in> set session_statuses
     \<and> (case expectedSize of None \<Rightarrow> True
        | Some k \<Rightarrow> dot session ''size_bytes'' \<in> {JUndefined, jint k})"

lemma length_first_indices [simp]: "length (first_indices n) = n"
  by (simp add: first_indices_def)

lemma mem_first_indices [simp]: "jint (int i) \<in> set (first_indices n) \<longleftrightarrow> i < n"
  by (auto simp: first_indices_def)

lemma sort_first_indices:
  assumes "mset xs = mset (first_indices n)"
  shows "list_all is_fin xs" "sort_key fin_val xs = first_indices n"
proof -
  have s: "set xs = set (first_indices n)" using assms by (metis set_mset_mset)
  show "list_all is_fin xs"
    unfolding list_all_iff s by (auto simp: first_indices_def is_fin_def)
  have "inj_on fin_val (set xs)"
    unfolding s by (auto simp: first_indices_def fin_val_def inj_on_def)
  moreover have "sorted (map fin_val (first_indices n))"
    by (auto simp: first_indices_def fin_val_def sorted_iff_nth_mono)
  ultimately show "sort_key fin_val xs = first_indices n"
    using assms by (rule sort_key_inj_key_eq [rotated 1])
qed

lemma mset_receivedIndices:
  "mset (receivedIndices session) = mset (as_list (dot session ''received_indices''))"
  by (simp add: receivedIndices_def Let_def)

lemma receivedIndices_ok:
  "mset (as_list (dot session ''received_indices'')) = mset (first_indices n) \<Longrightarrow>
     receivedIndices session = first_indices n"
  using sort_first_indices by (simp add: receivedIndices_def Let_def)

lemma no_mismatch_iff:
  assumes "is_safe_integer t"
  shows "\<not> list_ex (index_mismatch t) (enumerate 0 ys) \<longleftrightarrow>
     ys = first_indices (length ys) \<and> int (length ys) \<le> max 0 (to_int t)"
proof
  assume h: "\<not> list_ex (index_mismatch t) (enumerate 0 ys)"
  have e: "ys ! i = jint (int i) \<and> int i < to_int t" if "i < length ys" for i
  proof -
    have "(i, ys ! i) \<in> set (enumerate 0 ys)"
      using that by (auto simp: in_set_enumerate_eq)
    then show ?thesis using h by (auto simp: list_ex_iff index_mismatch_def)
  qed
  have "ys = first_indices (length ys)"
    using e by (auto simp: first_indices_def intro!: nth_equalityI)
  moreover have "int (length ys) \<le> max 0 (to_int t)"
    using e [of "length ys - 1"] by (cases ys) auto
  ultimately show "ys = first_indices (length ys) \<and> int (length ys) \<le> max 0 (to_int t)" by blast
next
  assume h: "ys = first_indices (length ys) \<and> int (length ys) \<le> max 0 (to_int t)"
  then have e: "ys ! i = jint (int i)" if "i < length ys" for i
  proof -
    have "first_indices (length ys) ! i = jint (int i)" using that by (simp add: first_indices_def)
    then show ?thesis using h by argo
  qed
  have "\<not> index_mismatch t (i, ys ! i)" if "i < length ys" for i
    using that e [OF that] h by (auto simp: index_mismatch_def)
  then show "\<not> list_ex (index_mismatch t) (enumerate 0 ys)"
    by (auto simp: list_ex_iff in_set_enumerate_eq)
qed

lemma first_indices_length: "ys = first_indices (length ys) \<longleftrightarrow> (\<exists>n. ys = first_indices n)"
  by auto

lemma validateSession_Inr:
  "validateSession session expectedSize = Inr s \<longleftrightarrow>
     s = session \<and> (\<exists>n. session_ok session expectedSize n)"
proof -
  let ?t = "dot session ''total_chunks''"
  let ?c = "dot session ''chunk_size''"
  let ?fields = "truthy session \<and> is_object session \<and> is_string (dot session ''upload_id'')
         \<and> as_string (dot session ''upload_id'') \<noteq> []
         \<and> is_safe_integer ?c \<and> 1 \<le> to_int ?c
         \<and> to_int ?c \<le> UPLOAD_CHUNK_BYTES
         \<and> is_safe_integer ?t \<and> 1 \<le> to_int ?t
         \<and> is_array (dot session ''received_indices'')
         \<and> dot session ''status'' \<in> set session_statuses
         \<and> (case expectedSize of None \<Rightarrow> True
             | Some k \<Rightarrow> dot session ''size_bytes'' \<in> {JUndefined, jint k})"
  have "validateSession session expectedSize = Inr s \<longleftrightarrow>
     s = session \<and> ?fields \<and> \<not> list_ex (index_mismatch ?t) (enumerate 0 (receivedIndices session))"
    unfolding validateSession_def by (auto split: option.splits)
  also have "\<dots> \<longleftrightarrow> s = session \<and> ?fields \<and> (\<exists>n. int n \<le> to_int ?t
       \<and> mset (as_list (dot session ''received_indices'')) = mset (first_indices n))"
  proof (intro conj_cong refl)
    assume "?fields"
    then have t: "is_safe_integer ?t" "1 \<le> to_int ?t" by simp_all
    show "\<not> list_ex (index_mismatch ?t) (enumerate 0 (receivedIndices session)) \<longleftrightarrow>
      (\<exists>n. int n \<le> to_int ?t \<and> mset (as_list (dot session ''received_indices'')) = mset (first_indices n))"
      (is "?l \<longleftrightarrow> ?r")
    proof
      assume ?l
      then have l: "receivedIndices session = first_indices (length (receivedIndices session))"
        "int (length (receivedIndices session)) \<le> to_int ?t"
        using no_mismatch_iff [OF t(1), of "receivedIndices session"] t(2) by simp_all
      have "mset (as_list (dot session ''received_indices''))
          = mset (first_indices (length (receivedIndices session)))"
        using l(1) mset_receivedIndices [of session] by argo
      with l(2) show ?r by blast
    next
      assume ?r
      then obtain n where n: "int n \<le> to_int ?t" "receivedIndices session = first_indices n"
        using receivedIndices_ok by blast
      then show ?l using no_mismatch_iff [OF t(1)] t(2) by simp
    qed
  qed
  also have "\<dots> \<longleftrightarrow> s = session \<and> (\<exists>n. session_ok session expectedSize n)"
  proof (intro conj_cong refl iffI)
    assume "?fields \<and> (\<exists>n. int n \<le> to_int ?t
       \<and> mset (as_list (dot session ''received_indices'')) = mset (first_indices n))"
    then show "\<exists>n. session_ok session expectedSize n"
      unfolding session_ok_def
      by (cases session)
        (auto elim!: is_safe_integerE is_arrayE is_stringE simp: abs_le_iff)
  next
    assume "\<exists>n. session_ok session expectedSize n"
    then show "?fields \<and> (\<exists>n. int n \<le> to_int ?t
       \<and> mset (as_list (dot session ''received_indices'')) = mset (first_indices n))"
      unfolding session_ok_def
      by (cases session) (auto simp: UPLOAD_CHUNK_BYTES_def MAX_SAFE_def abs_le_iff)
  qed
  finally show ?thesis .
qed

lemma session_ok_receivedIndices:
  "session_ok session ex n \<Longrightarrow> receivedIndices session = first_indices n"
  by (rule receivedIndices_ok) (auto simp: session_ok_def)

lemma session_ok_firstMissing: "session_ok session ex n \<Longrightarrow> firstMissingIndex session = n"
  by (simp add: firstMissingIndex_def session_ok_receivedIndices)

lemma session_ok_weaken: "session_ok session ex n \<Longrightarrow> session_ok session None n"
  by (simp add: session_ok_def)

section \<open>The requests a chunk may cost\<close>

text \<open>An environment that records, in order, the requests it is asked to send.\<close>

definition recording :: "'w upload_env \<Rightarrow> ('w \<times> request list) upload_env" where
  "recording env =
     \<lparr>fetchImpl = (\<lambda>req (w, sent). case fetchImpl env req w of (r, w') \<Rightarrow> (r, (w', sent @ [req]))),
      signal_aborted = (\<lambda>(w, sent). signal_aborted env w),
      timer = (\<lambda>d (w, sent). case timer env d w of (r, w') \<Rightarrow> (r, (w', sent))),
      arrayBuffer = (\<lambda>b (w, sent). case arrayBuffer env b w of (r, w') \<Rightarrow> (r, (w', sent))),
      onProgress = (\<lambda>p (w, sent). case onProgress env p w of (r, w') \<Rightarrow> (r, (w', sent)))\<rparr>"

definition count_method :: "string \<Rightarrow> request list \<Rightarrow> nat" where
  "count_method m reqs = length (filter (\<lambda>r. req_method r = m) reqs)"

definition chunk_traffic :: "put_options \<Rightarrow> nat \<Rightarrow> nat \<Rightarrow> request list \<Rightarrow> bool" where
  "chunk_traffic opts puts gets reqs \<longleftrightarrow>
     count_method ''PUT'' reqs \<le> puts \<and> count_method ''GET'' reqs \<le> gets
     \<and> (\<forall>r\<in>set reqs. (\<exists>url. r = put_request opts url) \<or> req_method r = ''GET'')"

definition sent_since :: "put_options \<Rightarrow> request list \<Rightarrow> nat \<Rightarrow> nat \<Rightarrow> 'w \<times> request list \<Rightarrow> bool" where
  "sent_since opts before puts gets ws \<longleftrightarrow>
     (\<exists>new. snd ws = before @ new \<and> chunk_traffic opts puts gets new)"

lemma sent_since_mono:
  "sent_since opts before j k ws \<Longrightarrow> j \<le> j' \<Longrightarrow> k \<le> k' \<Longrightarrow> sent_since opts before j' k' ws"
  by (fastforce simp: sent_since_def chunk_traffic_def)

lemma sent_since_put:
  "sent_since opts before j k (w, s) \<Longrightarrow> snd ws = s @ new \<Longrightarrow> length new \<le> 1 \<Longrightarrow>
     \<forall>q\<in>set new. \<exists>url. q = put_request opts url \<Longrightarrow> sent_since opts before (Suc j) k ws"
  by (cases new) (auto simp: sent_since_def chunk_traffic_def count_method_def put_request_def)

lemma sent_since_get:
  "sent_since opts before j k (w, s) \<Longrightarrow> snd ws = s @ new \<Longrightarrow> length new \<le> 1 \<Longrightarrow>
     \<forall>q\<in>set new. req_method q = ''GET'' \<Longrightarrow> sent_since opts before j (Suc k) ws"
  by (cases new) (auto simp: sent_since_def chunk_traffic_def count_method_def)

lemma recording_abort: "throwIfAborted (recording env) (w, sent) = (r, ws) \<Longrightarrow> ws = (w, sent)"
  by (auto simp: throwIfAborted_def recording_def split: if_splits)

lemma recording_delay:
  "delay (recording env) d (w, sent) = (r, ws) \<Longrightarrow> snd ws = sent"
  by (auto simp: delay_def recording_def throwIfAborted_def io_defs
      split: jsnum.splits prod.splits sum.splits if_splits)

lemma recording_requestJson:
  "requestJson (recording env) req ok (w, sent) = (r, ws) \<Longrightarrow> snd ws = sent \<or> snd ws = sent @ [req]"
  by (auto simp: requestJson_def recording_def throwIfAborted_def io_defs
      split: prod.splits sum.splits if_splits fetch_result.splits option.splits)

lemma recording_get:
  "getUploadSession (recording env) t u tok (w, sent) = (r, ws) \<Longrightarrow>
     \<exists>new. snd ws = sent @ new \<and> length new \<le> 1 \<and> (\<forall>q\<in>set new. req_method q = ''GET'')"
proof -
  assume h: "getUploadSession (recording env) t u tok (w, sent) = (r, ws)"
  show ?thesis
  proof (cases "uploadUrl t u")
    case (Inl e)
    then show ?thesis using h by (auto simp: getUploadSession_def io_defs)
  next
    case (Inr url)
    obtain r' ws' where q: "requestJson (recording env) (session_request ''GET'' url tok) [200] (w, sent) = (r', ws')"
      by (rule prod.exhaust)
    then have "ws = ws'" using h Inr
      by (auto simp: getUploadSession_def io_defs split: sum.splits)
    with recording_requestJson [OF q] show ?thesis
      by (auto simp: session_request_def)
  qed
qed

lemma recording_put:
  "put_once (recording env) opts latest (w, sent) = (r, ws) \<Longrightarrow>
     \<exists>new. snd ws = sent @ new \<and> length new \<le> 1 \<and> (\<forall>q\<in>set new. \<exists>url. q = put_request opts url)"
proof -
  assume h: "put_once (recording env) opts latest (w, sent) = (r, ws)"
  show ?thesis
  proof (cases "uploadUrl (po_threadId opts) (dot latest ''upload_id'')")
    case (Inl e)
    then show ?thesis using h by (auto simp: put_once_def io_defs)
  next
    case (Inr url)
    obtain r' ws' where q: "requestJson (recording env) (put_request opts url) [200] (w, sent) = (r', ws')"
      by (rule prod.exhaust)
    then have "ws = ws'" using h Inr
      by (auto simp: put_once_def io_defs split: sum.splits)
    with recording_requestJson [OF q] show ?thesis by auto
  qed
qed

lemma io_ok_exhaust:
  assumes "\<And>w s r ws. P (w, s) \<Longrightarrow> m (w, s) = (r, ws) \<Longrightarrow> Q ws"
  shows "io_ok P m (\<lambda>_. Q) (\<lambda>_. Q)"
proof (rule io_okI)
  fix w assume "P w"
  then show "case m w of (Inl e, w') \<Rightarrow> Q w' | (Inr x, w') \<Rightarrow> Q w'"
    using assms [of "fst w" "snd w" "fst (m w)" "snd (m w)"]
    by (simp add: case_prod_beta split: sum.split)
qed

lemma traffic_abort:
  "io_ok (sent_since opts L j k) (throwIfAborted (recording env)) (\<lambda>_. sent_since opts L j k) (\<lambda>_. sent_since opts L j k)"
  by (rule io_ok_exhaust, drule recording_abort) simp

lemma traffic_delay:
  "io_ok (sent_since opts L j k) (delay (recording env) d) (\<lambda>_. sent_since opts L j k) (\<lambda>_. sent_since opts L j k)"
  by (rule io_ok_exhaust, drule recording_delay) (simp add: sent_since_def)

lemma traffic_put:
  "io_ok (sent_since opts L j k) (put_once (recording env) opts latest)
     (\<lambda>_. sent_since opts L (Suc j) k) (\<lambda>_. sent_since opts L (Suc j) k)"
  by (rule io_ok_exhaust, drule recording_put, elim exE conjE) (rule sent_since_put)

lemma traffic_reconcile:
  "io_ok (sent_since opts L j k) (reconcile (recording env) opts n e latest)
     (\<lambda>_. sent_since opts L j (Suc k)) (\<lambda>_. sent_since opts L j (Suc k))"
  unfolding reconcile_def
proof (rule io_ok_catch)
  show "io_ok (sent_since opts L j k)
     (getUploadSession (recording env) (po_threadId opts) (dot latest ''upload_id'') (po_accessToken opts))
     (\<lambda>_. sent_since opts L j (Suc k)) (\<lambda>_. sent_since opts L j (Suc k))"
    by (rule io_ok_exhaust, drule recording_get, elim exE conjE) (rule sent_since_get)
qed (auto intro!: io_ok_if io_ok_throw io_ok_return)

lemma traffic_attempt:
  assumes cont: "\<And>e l. io_ok (sent_since opts L (Suc j) (Suc k)) (cont e l) (\<lambda>_. sent_since opts L a b) (\<lambda>_. sent_since opts L a b)"
    and le: "Suc j \<le> a" "Suc k \<le> b"
  shows "io_ok (sent_since opts L j k)
     (io_then (throwIfAborted (recording env))
       (io_catch (put_once (recording env) opts latest) (\<lambda>e.
          if \<not> isReconciliable e then io_throw e
          else io_bind (reconcile (recording env) opts n e latest) (\<lambda>l. if ok l then io_return l else cont e l))))
     (\<lambda>_. sent_since opts L a b) (\<lambda>_. sent_since opts L a b)"
proof (rule io_ok_then)
  show "io_ok (sent_since opts L j k) (throwIfAborted (recording env))
      (\<lambda>_. sent_since opts L j k) (\<lambda>_. sent_since opts L a b)"
    by (rule io_ok_conseq [OF traffic_abort [of opts L j k]]) (use le in \<open>auto elim: sent_since_mono\<close>)
  have rec: "io_ok (sent_since opts L (Suc j) k) (reconcile (recording env) opts n e latest)
      (\<lambda>_. sent_since opts L (Suc j) (Suc k)) (\<lambda>_. sent_since opts L a b)" for e
    by (rule io_ok_conseq [OF traffic_reconcile [of opts L "Suc j" k]]) (use le in \<open>auto elim: sent_since_mono\<close>)
  have handler: "io_ok (sent_since opts L (Suc j) k)
      (if \<not> isReconciliable e then io_throw e
       else io_bind (reconcile (recording env) opts n e latest) (\<lambda>l. if ok l then io_return l else cont e l))
      (\<lambda>_. sent_since opts L a b) (\<lambda>_. sent_since opts L a b)" for e
    using le cont by (intro io_ok_if io_ok_throw io_ok_bind [OF rec] io_ok_return)
      (auto intro: sent_since_mono)
  show "io_ok (sent_since opts L j k)
       (io_catch (put_once (recording env) opts latest) (\<lambda>e.
          if \<not> isReconciliable e then io_throw e
          else io_bind (reconcile (recording env) opts n e latest) (\<lambda>l. if ok l then io_return l else cont e l)))
     (\<lambda>_. sent_since opts L a b) (\<lambda>_. sent_since opts L a b)"
    by (rule io_ok_catch [OF io_ok_conseq [OF traffic_put [of opts L j k]] handler]) (use le in \<open>auto elim: sent_since_mono\<close>)
qed

lemma traffic_put_attempts:
  "io_ok (sent_since opts L j k) (put_attempts (recording env) opts n latest)
     (\<lambda>_. sent_since opts L (j + Suc n) (k + Suc n)) (\<lambda>_. sent_since opts L (j + Suc n) (k + Suc n))"
proof (induction n arbitrary: j k latest)
  case 0
  show ?case
    unfolding put_attempts.simps [of _ _ 0]
    by (rule traffic_attempt) (auto intro: io_ok_throw)
next
  case (Suc n)
  show ?case
    unfolding put_attempts.simps [of _ _ "Suc n"] nat.case
  proof (rule traffic_attempt)
    show "io_ok (sent_since opts L (Suc j) (Suc k))
       (io_then (delay (recording env) (po_retryDelay opts)) (put_attempts (recording env) opts n l))
       (\<lambda>_. sent_since opts L (j + Suc (Suc n)) (k + Suc (Suc n)))
       (\<lambda>_. sent_since opts L (j + Suc (Suc n)) (k + Suc (Suc n)))" for l
    proof (rule io_ok_then)
      show "io_ok (sent_since opts L (Suc j) (Suc k)) (delay (recording env) (po_retryDelay opts))
          (\<lambda>_. sent_since opts L (Suc j) (Suc k)) (\<lambda>_. sent_since opts L (j + Suc (Suc n)) (k + Suc (Suc n)))"
        by (rule io_ok_conseq [OF traffic_delay [of opts L "Suc j" "Suc k"]]) (auto intro: sent_since_mono)
    qed (use Suc.IH [of "Suc j" "Suc k"] in simp)
  qed simp_all
qed

section \<open>Properties\<close>

text \<open>
  C9: A relative path is accepted exactly when, after turning backslashes into
  slashes, it is a sequence of at most sixteen non-empty segments ending in the
  file's own name, none of them a dot or dot-dot segment or holding a separator
  or a control character, and with no drive prefix; the accepted path is that
  normalised path.
\<close>

theorem normaliseRelativePath_exact:
  "normaliseRelativePath (JStr v) filename = Inr path \<longleftrightarrow>
     path = slashes v \<and> safe_relative_path filename path"
proof
  assume "normaliseRelativePath (JStr v) filename = Inr path"
  then show "path = slashes v \<and> safe_relative_path filename path"
    unfolding normaliseRelativePath_Inr using set_slashes [of v] control_slashes [of v]
    by (auto intro: safe_relative_pathI)
next
  assume h: "path = slashes v \<and> safe_relative_path filename path"
  note parts = safe_relative_path_parts [OF conjunct2 [OF h]]
  have "\<not> starts_with [47] path"
    using parts(3) hd_parts by (auto simp: list_ex_iff bad_part_def)
  moreover have "v \<noteq> []" "\<not> list_ex is_control v"
    using parts(1,2) h control_slashes [of v] by (auto simp: slashes_def)
  ultimately show "normaliseRelativePath (JStr v) filename = Inr path"
    unfolding normaliseRelativePath_Inr using parts h by simp
qed

text \<open>
  C8: A session is accepted exactly when its identifier is a non-empty string,
  its chunk size is between one byte and 8 MiB, its total is a positive safe
  integer, its status is known, its size (when asked for) does not contradict
  the file, and the received indices are the first n chunk numbers in some
  order, for an n of at most the total; it is returned unchanged.
\<close>

theorem validateSession_exact:
  "validateSession session expectedSize = Inr s \<longleftrightarrow>
     s = session \<and> (\<exists>n. session_ok session expectedSize n \<and> firstMissingIndex session = n)"
  unfolding validateSession_Inr using session_ok_firstMissing by metis

text \<open>
  Hashing a file in slices of any legal chunk size returns the SHA-256 of its
  bytes whenever the signal is not aborted and reading a slice yields its bytes.
\<close>

theorem sha256File_correct:
  assumes "calm env obs" and "1 \<le> chunkSize" and "chunkSize \<le> UPLOAD_CHUNK_BYTES"
  shows "fst (sha256File env (int (length bytes)) bytes chunkSize w) = Inr (sha256_hex bytes)"
  by (rule sha256File_calm [OF assms, of bytes w]) simp

definition still_env :: "unit upload_env" where
  "still_env = \<lparr>fetchImpl = (\<lambda>req w. (FetchRejected False, w)), signal_aborted = (\<lambda>w. False),
     timer = (\<lambda>d w. (True, w)), arrayBuffer = (\<lambda>b w. (Inr b, w)), onProgress = (\<lambda>p w. (Inr (), w))\<rparr>"

lemma calm_still_env: "calm still_env (\<lambda>w. ())"
  by (simp add: calm_def still_env_def)

theorem sha256File_correct_witness:
  "calm still_env (\<lambda>w. ()) \<and> fst (sha256File still_env 3 [97, 98, 99] 2 ()) = Inr (sha256_hex [97, 98, 99])"
  using sha256File_correct [OF calm_still_env, of 2 "[97, 98, 99]" "()"] calm_still_env
  by (simp add: UPLOAD_CHUNK_BYTES_def)

text \<open>
  Sending one chunk costs at most retryAttempts + 1 PUT requests and at most as
  many session reads, whatever the network answers, and every request it sends is
  that chunk's PUT (same offset, digest and bytes) or a session read.
\<close>

theorem putChunk_bounded_traffic:
  "\<exists>new. snd (snd (putChunkWithReconcile (recording env) opts retryAttempts session (w, sent))) = sent @ new
     \<and> chunk_traffic opts (Suc retryAttempts) (Suc retryAttempts) new"
proof -
  have "sent_since opts sent 0 0 (w, sent)"
    by (simp add: sent_since_def chunk_traffic_def count_method_def)
  then have "sent_since opts sent (Suc retryAttempts) (Suc retryAttempts)
      (snd (put_attempts (recording env) opts retryAttempts session (w, sent)))"
    using io_okD [OF traffic_put_attempts [of opts sent 0 0 env retryAttempts session] _ prod.collapse [symmetric]]
    by (simp split: sum.splits)
  then show ?thesis
    by (simp add: putChunkWithReconcile_def sent_since_def)
qed

text \<open>
  Every upload URL stays below the uploads endpoint: it is the fixed prefix, a
  thread segment, the word uploads and at most one upload segment, and the two
  variable segments consist of unreserved characters and percent escapes only,
  so no identifier can add a path separator, a query or a fragment.
\<close>

theorem uploadUrl_shape:
  "uploadUrl threadId uploadId = Inr url \<Longrightarrow>
     \<exists>t rest. url = js ''/api/codex_bridge/threads/'' @ t @ js ''/uploads'' @ rest
       \<and> (\<forall>u\<in>set t. uri_unreserved u \<or> u = 37)
       \<and> (rest = [] \<or> (\<exists>x. rest = js ''/'' @ x \<and> (\<forall>u\<in>set x. uri_unreserved u \<or> u = 37)))"
proof -
  assume "uploadUrl threadId uploadId = Inr url"
  then obtain t rest where "encodeURIComponent threadId = Inr t"
      "url = js ''/api/codex_bridge/threads/'' @ t @ js ''/uploads'' @ rest"
      "rest = [] \<or> (\<exists>x u. rest = js ''/'' @ x \<and> encodeURIComponent u = Inr x)"
    unfolding uploadUrl_def Let_def sum_bind_Inr_iff
    by (auto simp: sum_bind_Inr_iff split: if_splits)
  then show ?thesis using encodeURIComponent_safe by blast
qed

theorem uploadUrl_shape_witness:
  "uploadUrl (js ''a/b'') (jlit ''upl_1'') = Inr (js ''/api/codex_bridge/threads/a%2Fb/uploads/upl_1'')
   \<and> (\<exists>t rest. js ''/api/codex_bridge/threads/a%2Fb/uploads/upl_1''
         = js ''/api/codex_bridge/threads/'' @ t @ js ''/uploads'' @ rest
       \<and> (\<forall>u\<in>set t. uri_unreserved u \<or> u = 37)
       \<and> (rest = [] \<or> (\<exists>x. rest = js ''/'' @ x \<and> (\<forall>u\<in>set x. uri_unreserved u \<or> u = 37))))"
proof -
  have "uploadUrl (js ''a/b'') (jlit ''upl_1'') = Inr (js ''/api/codex_bridge/threads/a%2Fb/uploads/upl_1'')"
    by (simp add: uploadUrl_def encodeURIComponent_def js_def encode_char_def uri_unreserved_def
        is_alpha_def is_digit_def is_high_def utf8_def percent_def hex_upper_def
        validateIdentifier_def containsControl_def is_control_def)
  then show ?thesis using uploadUrl_shape by blast
qed

end
