(* ===== verification/UploadService.thy ===== *)
theory UploadService
  imports Uploads
begin

text \<open>
  The whole upload against a service. The locale \<open>upload_service\<close> is the contract the client
  relies on: what the answers to its requests mean, and that nothing but its own requests
  changes the session. From it the client is proved to return, whatever is lost on the way,
  and to report success only when the file is published. The contract is discharged for a
  model of the service's upload routes (\<open>routes/uploads.py\<close> and the upload methods of
  \<open>storage.py\<close>) behind a network that may lose requests and answers.
\<close>

section \<open>Environments that keep a predicate\<close>

text \<open>The calls of the client other than \<open>fetch\<close> keep \<open>K\<close>.\<close>

locale keeping_env =
  fixes env :: "'w upload_env" and K :: "'w \<Rightarrow> bool"
  assumes keeps_timer: "K w \<Longrightarrow> K (snd (timer env d w))"
    and keeps_read: "K w \<Longrightarrow> K (snd (arrayBuffer env b w))"
    and keeps_progress: "K w \<Longrightarrow> K (snd (onProgress env p w))"
begin

lemma ok_abort: "io_ok K (throwIfAborted env) (\<lambda>_. K) (\<lambda>_. K)"
  by (simp add: io_ok_def throwIfAborted_def)

lemma ok_delay: "io_ok K (delay env d) (\<lambda>_. K) (\<lambda>_. K)"
proof (cases d)
  case (Fin r)
  show ?thesis
  proof (cases "r \<le> 0")
    case True
    then show ?thesis using Fin ok_abort by (simp add: delay_def)
  next
    case False
    have "io_ok K (io_bind (io_call (timer env d))
        (\<lambda>fired. if fired then io_return () else io_throw (upload_error ''aborted''))) (\<lambda>_. K) (\<lambda>_. K)"
      by (rule io_ok_bind [where R = "\<lambda>_. K"])
        (auto intro!: io_ok_call io_ok_if io_ok_return io_ok_throw keeps_timer)
    then show ?thesis using Fin False by (simp add: delay_def)
  qed
qed (use ok_abort in \<open>simp_all add: delay_def\<close>)

lemma ok_blobBytes: "io_ok K (blobBytes env b) (\<lambda>_. K) (\<lambda>_. K)"
  unfolding blobBytes_def
proof (rule io_ok_then [OF ok_abort], rule io_ok_bind [where R = "\<lambda>_. K"])
  show "io_ok K (io_call (arrayBuffer env b)) (\<lambda>_. K) (\<lambda>_. K)"
    by (rule io_ok_call) (rule keeps_read)
  show "io_ok K (case r of Inl abort_error \<Rightarrow> io_bind (io_gets (signal_aborted env)) (\<lambda>ab.
        if ab \<or> abort_error then io_throw (upload_error ''aborted'') else io_throw (upload_error ''invalid_file''))
      | Inr bytes \<Rightarrow> io_return bytes) (\<lambda>_. K) (\<lambda>_. K)" for r
    by (cases r) (auto intro!: io_ok_return io_ok_bind [where R = "\<lambda>_. K"] io_ok_gets io_ok_if io_ok_throw)
qed

lemma ok_hash_slices: "io_ok K (hash_slices env fsize bytes cs off h) (\<lambda>_. K) (\<lambda>_. K)"
proof (induction "nat (fsize - off)" arbitrary: off h rule: less_induct)
  case less
  show ?case
  proof (cases "off < fsize \<and> 1 \<le> cs")
    case True
    then have "io_ok K (hash_slices env fsize bytes cs (off + cs) h') (\<lambda>_. K) (\<lambda>_. K)" for h'
      by (intro less) simp
    then show ?thesis
      using True by (subst hash_slices.simps)
        (auto intro!: io_ok_then [OF ok_abort] io_ok_bind [OF ok_blobBytes])
  next
    case False
    then show ?thesis by (subst hash_slices.simps) (auto intro!: io_ok_return)
  qed
qed

lemma ok_sha256File: "io_ok K (sha256File env fsize bytes cs) (\<lambda>_. K) (\<lambda>_. K)"
  unfolding sha256File_def
  by (intro io_ok_if io_ok_throw io_ok_bind [OF ok_hash_slices] io_ok_return)

lemma ok_report: "io_ok K (report env n st c u) (\<lambda>_. K) (\<lambda>_. K)"
  unfolding report_def
proof (rule io_ok_bind [where R = "\<lambda>_. K"])
  show "io_ok K (io_call (onProgress env p)) (\<lambda>_. K) (\<lambda>_. K)" for p
    by (rule io_ok_call) (rule keeps_progress)
  show "io_ok K (case r of Inl e \<Rightarrow> io_throw (CallerError e) | Inr _ \<Rightarrow> io_return ()) (\<lambda>_. K) (\<lambda>_. K)" for r
    by (cases r) (auto intro: io_ok_throw io_ok_return)
qed

text \<open>A request: its answer is one that \<open>fetch\<close> gave in a state that satisfies \<open>K\<close>.\<close>

lemma ok_request:
  assumes "\<And>w. K w \<Longrightarrow> K (snd (fetchImpl env req w))"
    and "\<And>w st body w'. K w \<Longrightarrow> fetchImpl env req w = (Response st (Some body), w') \<Longrightarrow> st \<in> set sts \<Longrightarrow> Q body w'"
  shows "io_ok K (requestJson env req sts) (\<lambda>v w. K w \<and> Q v w) (\<lambda>_. K)"
  unfolding requestJson_def
proof (rule io_ok_then [OF ok_abort], rule io_ok_bind)
  show "io_ok K (io_call (fetchImpl env req))
      (\<lambda>r w. K w \<and> (\<forall>st body. r = Response st (Some body) \<longrightarrow> st \<in> set sts \<longrightarrow> Q body w)) (\<lambda>_. K)"
  proof (rule io_ok_call)
    fix w assume "K w"
    then show "K (snd (fetchImpl env req w)) \<and> (\<forall>st body. fst (fetchImpl env req w) = Response st (Some body)
        \<longrightarrow> st \<in> set sts \<longrightarrow> Q body (snd (fetchImpl env req w)))"
      using assms(1) [of w] assms(2) [of w] by (metis prod.collapse)
  qed
  fix r
  let ?R = "\<lambda>w. K w \<and> (\<forall>st body. r = Response st (Some body) \<longrightarrow> st \<in> set sts \<longrightarrow> Q body w)"
  show "io_ok ?R
      (case r of FetchRejected abort_error \<Rightarrow> io_bind (io_gets (signal_aborted env)) (\<lambda>ab.
              if ab \<or> abort_error then io_throw (upload_error ''aborted'')
              else io_throw (UploadError ''network_error'' None True))
          | Response st body \<Rightarrow>
              if st \<notin> set sts
              then io_throw (UploadError ''http_error'' (Some st) (st \<ge> 500 \<or> st = 409))
              else (case body of Some v \<Rightarrow> io_return v
                    | None \<Rightarrow> io_throw (upload_error ''invalid_response''))) (\<lambda>v w. K w \<and> Q v w) (\<lambda>_. K)"
  proof (cases r)
    case (FetchRejected b)
    then show ?thesis
      by (auto intro!: io_ok_bind [where R = "\<lambda>_. K"] io_ok_gets io_ok_if io_ok_throw)
  next
    case (Response st body)
    then show ?thesis
      by (cases body) (auto intro!: io_ok_if io_ok_throw io_ok_return)
  qed
qed

end

section \<open>The contract\<close>

lemma io_bind_lift_Inr: "io_bind (io_lift (Inr x)) f = f x"
  by (simp add: io_bind_def io_lift_def)

text \<open>What every session answer of the service says of the one session.\<close>

definition of_session :: "jstr \<Rightarrow> int \<Rightarrow> int \<Rightarrow> jsval \<Rightarrow> bool" where
  "of_session sid csize parts s \<longleftrightarrow> dot s ''upload_id'' = JStr sid \<and> dot s ''chunk_size'' = jint csize
     \<and> dot s ''total_chunks'' = jint parts"

text \<open>The request carries the part of the file that its index names.\<close>

definition part_of :: "jstr \<Rightarrow> int \<Rightarrow> byte list \<Rightarrow> put_options \<Rightarrow> bool" where
  "part_of tid csize bytes opts \<longleftrightarrow> po_threadId opts = tid \<and> po_offset opts = int (po_index opts) * csize
     \<and> po_chunk opts = blob_slice bytes (po_offset opts) (min (int (length bytes)) (po_offset opts + csize))"

text \<open>The request of \<open>createSession\<close>.\<close>

definition create_request :: "jstr \<Rightarrow> jsval \<Rightarrow> upload_file \<Rightarrow> jstr \<Rightarrow> jstr \<Rightarrow> request" where
  "create_request base tok f path digest =
     \<lparr>req_url = base, req_method = ''POST'',
      req_headers = authorizationHeaders tok @ [(''Content-Type'', js ''application/json'')],
      req_body = JsonBody (create_body f path digest)\<rparr>"

abbreviation completed :: "jsval \<Rightarrow> bool" where
  "completed s \<equiv> dot s ''status'' = jlit ''completed''"

text \<open>
  \<open>keeps\<close> is the service's own invariant while the client works, \<open>published\<close> says that the
  file is an attachment of the chat, \<open>fresh\<close> that the session is still to be created. Only requests of the client change the session; an answer
  of 200 to a chunk means that the chunk is recorded; a session reported as completed, and an
  answer of 201 to the completion, mean that the file is published.
\<close>

locale upload_service =
  fixes env :: "'w upload_env" and keeps :: "'w \<Rightarrow> bool" and published :: "'w \<Rightarrow> bool" and fresh :: "'w \<Rightarrow> bool"
    and tid :: jstr and sid :: jstr and base :: jstr and url :: jstr and csize :: int and parts :: int and bytes :: "byte list"
  assumes address: "uploadUrl tid (JStr sid) = Inr url" and address_root: "uploadUrl tid JNull = Inr base"
    and quiet_timer: "P \<in> {keeps, published, fresh} \<Longrightarrow> P w \<Longrightarrow> P (snd (timer env d w))"
    and quiet_read: "P \<in> {keeps, published, fresh} \<Longrightarrow> P w \<Longrightarrow> P (snd (arrayBuffer env b w))"
    and quiet_progress: "P \<in> {keeps, published, fresh} \<Longrightarrow> P w \<Longrightarrow> P (snd (onProgress env p w))"
    and create_keeps: "keeps w \<Longrightarrow> fresh w \<Longrightarrow> uf_size f = int (length bytes) \<Longrightarrow>
      keeps (snd (fetchImpl env (create_request base tok f path digest) w))"
    and put_keeps: "keeps w \<Longrightarrow> part_of tid csize bytes opts \<Longrightarrow> keeps (snd (fetchImpl env (put_request opts url) w))"
    and get_keeps: "keeps w \<Longrightarrow> keeps (snd (fetchImpl env (session_request ''GET'' url tok) w))"
    and complete_keeps: "keeps w \<Longrightarrow> keeps (snd (fetchImpl env (session_request ''POST'' (url @ js ''/complete'') tok) w))"
    and stays_published: "published w \<Longrightarrow> published (snd (fetchImpl env r w))"
    and create_answer: "keeps w \<Longrightarrow> fresh w \<Longrightarrow> uf_size f = int (length bytes) \<Longrightarrow>
      fetchImpl env (create_request base tok f path digest) w = (Response 201 (Some body), w') \<Longrightarrow>
      of_session sid csize parts body \<and> (completed body \<longrightarrow> published w')"
    and put_answer: "keeps w \<Longrightarrow> part_of tid csize bytes opts \<Longrightarrow>
      fetchImpl env (put_request opts url) w = (Response 200 (Some body), w') \<Longrightarrow>
      of_session sid csize parts body \<and> jint (int (po_index opts)) \<in> set (receivedIndices body)
        \<and> (completed body \<longrightarrow> published w')"
    and get_answer: "keeps w \<Longrightarrow> fetchImpl env (session_request ''GET'' url tok) w = (Response 200 (Some body), w') \<Longrightarrow>
      of_session sid csize parts body \<and> (completed body \<longrightarrow> published w')"
    and complete_answer: "keeps w \<Longrightarrow>
      fetchImpl env (session_request ''POST'' (url @ js ''/complete'') tok) w = (Response 201 (Some att), w') \<Longrightarrow> published w'"
begin

definition K :: "bool \<Rightarrow> 'w \<Rightarrow> bool" where
  "K p w \<longleftrightarrow> keeps w \<and> (p \<longrightarrow> published w)"

definition static :: "jsval \<Rightarrow> bool" where
  "static s \<longleftrightarrow> of_session sid csize parts s \<and> (\<exists>n. session_ok s None n)"

definition F :: "bool \<Rightarrow> 'w \<Rightarrow> bool" where
  "F q w \<longleftrightarrow> keeps w \<and> (q \<longrightarrow> fresh w)"

lemma keeping: "keeping_env env (K p)" "keeping_env env (F q)"
proof -
  have t: "P (snd (timer env d w))" "P (snd (arrayBuffer env b w))" "P (snd (onProgress env r w))"
    if "P \<in> {keeps, published, fresh}" "P w" for P d b r w
    using that quiet_timer quiet_read quiet_progress by blast+
  show "keeping_env env (K p)" "keeping_env env (F q)"
    by (unfold_locales; auto simp: K_def F_def t)+
qed

end

sublocale upload_service \<subseteq> k: keeping_env env "K p" for p
  by (rule keeping)

sublocale upload_service \<subseteq> f: keeping_env env "F q" for q
  by (rule keeping)

context upload_service begin

lemma K_keeps: "K p w \<Longrightarrow> keeps w"
  by (simp add: K_def)

lemma K_weaken: "io_ok (K p) m Q (\<lambda>_. K p') \<Longrightarrow> io_ok (K p) m Q (\<lambda>_. keeps)"
  by (erule io_ok_conseq) (auto simp: K_def)

lemma validated: "validateSession v ex = Inr s \<Longrightarrow> of_session sid csize parts v \<Longrightarrow> s = v \<and> static s"
  unfolding static_def using validateSession_Inr [of v ex s] session_ok_weaken by blast

lemma ok_get:
  "io_ok (K p) (getUploadSession env tid (JStr sid) tok)
     (\<lambda>s w. K p w \<and> K (completed s) w \<and> static s) (\<lambda>_. K p)"
  unfolding getUploadSession_def address
proof (rule io_ok_bind [where R = "\<lambda>u w. K p w \<and> u = url"])
  show "io_ok (K p) (io_lift (Inr url)) (\<lambda>u w. K p w \<and> u = url) (\<lambda>_. K p)"
    by (rule io_ok_lift) simp
  fix u
  let ?A = "\<lambda>v w. of_session sid csize parts v \<and> (completed v \<longrightarrow> published w)"
  have r: "io_ok (K p) (requestJson env (session_request ''GET'' url tok) [200]) (\<lambda>v w. K p w \<and> ?A v w) (\<lambda>_. K p)"
    using get_keeps stays_published get_answer by (intro k.ok_request) (auto simp: K_def)
  show "io_ok (\<lambda>w. K p w \<and> u = url) (io_bind (requestJson env (session_request ''GET'' u tok) [200])
      (\<lambda>v. io_lift (validateSession v None))) (\<lambda>s w. K p w \<and> K (completed s) w \<and> static s) (\<lambda>_. K p)"
  proof (cases "u = url")
    case True
    have "io_ok (\<lambda>w. K p w \<and> ?A v w) (io_lift (validateSession v None))
        (\<lambda>s w. K p w \<and> K (completed s) w \<and> static s) (\<lambda>_. K p)" for v
      by (rule io_ok_lift) (auto simp: K_def split: sum.split dest!: validated)
    then show ?thesis using True r by (auto intro: io_ok_bind)
  qed (simp add: io_ok_def)
qed

lemma ok_put:
  assumes "part_of tid csize bytes opts" "dot latest ''upload_id'' = JStr sid"
  shows "io_ok (K p) (put_once env opts latest)
     (\<lambda>s w. K p w \<and> K (completed s) w \<and> static s \<and> jint (int (po_index opts)) \<in> set (receivedIndices s)) (\<lambda>_. K p)"
proof -
  have t: "po_threadId opts = tid" using assms(1) by (simp add: part_of_def)
  let ?A = "\<lambda>v w. of_session sid csize parts v \<and> jint (int (po_index opts)) \<in> set (receivedIndices v)
    \<and> (completed v \<longrightarrow> published w)"
  have r: "io_ok (K p) (requestJson env (put_request opts url) [200]) (\<lambda>v w. K p w \<and> ?A v w) (\<lambda>_. K p)"
    using put_keeps [OF _ assms(1)] stays_published put_answer [OF _ assms(1)]
    by (intro k.ok_request) (auto simp: K_def)
  have v: "io_ok (\<lambda>w. K p w \<and> ?A v w) (io_lift (validateSession v (Some (po_fileSize opts))))
        (\<lambda>s w. K p w \<and> K (completed s) w \<and> static s \<and> jint (int (po_index opts)) \<in> set (receivedIndices s))
        (\<lambda>_. K p)" for v
    by (rule io_ok_lift) (auto simp: K_def split: sum.split dest!: validated)
  have e: "put_once env opts latest = io_bind (requestJson env (put_request opts url) [200])
      (\<lambda>v. io_lift (validateSession v (Some (po_fileSize opts))))"
    by (simp add: put_once_def t assms(2) address io_bind_lift_Inr)
  show ?thesis unfolding e by (rule io_ok_bind [OF r v])
qed

lemma ok_reconcile:
  assumes "static latest" "po_threadId opts = tid"
  shows "io_ok (K (completed latest)) (reconcile env opts n e latest)
     (\<lambda>s w. K (completed s) w \<and> static s) (\<lambda>_. keeps)"
proof -
  have u: "dot latest ''upload_id'' = JStr sid" using assms(1) by (simp add: static_def of_session_def)
  show ?thesis
    unfolding reconcile_def assms(2) u
  proof (rule io_ok_catch [where R = "\<lambda>_. K (completed latest)"])
    show "io_ok (K (completed latest)) (getUploadSession env tid (JStr sid) (po_accessToken opts))
        (\<lambda>s w. K (completed s) w \<and> static s) (\<lambda>_. K (completed latest))"
      by (rule io_ok_conseq [OF ok_get]) auto
    show "io_ok (K (completed latest)) (if n = 0 \<or> \<not> isReconciliable se then io_throw e else io_return latest)
        (\<lambda>s w. K (completed s) w \<and> static s) (\<lambda>_. keeps)" for se
      using assms(1) by (auto intro!: io_ok_if io_ok_throw io_ok_return simp: K_def)
  qed
qed

lemma ok_attempts:
  assumes "part_of tid csize bytes opts" "static latest"
  shows "io_ok (K (completed latest)) (put_attempts env opts n latest)
     (\<lambda>s w. K (completed s) w \<and> static s \<and> (completed s \<or> jint (int (po_index opts)) \<in> set (receivedIndices s)))
     (\<lambda>_. keeps)" (is "io_ok _ _ ?Q _")
  using assms(2)
proof (induction n arbitrary: latest)
  case (0 latest)
  note t = assms(1) [unfolded part_of_def, THEN conjunct1]
  have u: "dot latest ''upload_id'' = JStr sid" using 0 by (simp add: static_def of_session_def)
  have "io_ok (K (completed latest)) (put_attempts env opts 0 latest) ?Q (\<lambda>_. keeps)"
    unfolding put_attempts.simps [of _ _ 0]
  proof (rule io_ok_then [OF K_weaken [OF k.ok_abort]], rule io_ok_catch [where R = "\<lambda>_. K (completed latest)"])
    show "io_ok (K (completed latest)) (put_once env opts latest) ?Q (\<lambda>_. K (completed latest))"
      by (rule io_ok_conseq [OF ok_put [OF assms(1) u]]) auto
    show "io_ok (K (completed latest)) (if \<not> isReconciliable e then io_throw e
        else io_bind (reconcile env opts 0 e latest) (\<lambda>s. if completed s \<or> jint (int (po_index opts)) \<in> set (receivedIndices s)
          then io_return s else (case 0 of 0 \<Rightarrow> io_throw e | Suc r \<Rightarrow> io_then (delay env (po_retryDelay opts)) (put_attempts env opts r s))))
        ?Q (\<lambda>_. keeps)" for e
      by (intro io_ok_if io_ok_throw io_ok_bind [OF ok_reconcile [OF 0 t]]) (auto intro: io_ok_return io_ok_throw simp: K_def)
  qed
  then show ?case .
next
  case (Suc n latest)
  note t = assms(1) [unfolded part_of_def, THEN conjunct1]
  have u: "dot latest ''upload_id'' = JStr sid" using Suc.prems by (simp add: static_def of_session_def)
  have again: "io_ok (\<lambda>w. K (completed s) w \<and> static s) (io_then (delay env (po_retryDelay opts)) (put_attempts env opts n s))
      ?Q (\<lambda>_. keeps)" for s
  proof (cases "static s")
    case True
    have "io_ok (K (completed s)) (io_then (delay env (po_retryDelay opts)) (put_attempts env opts n s)) ?Q (\<lambda>_. keeps)"
      by (rule io_ok_then [OF K_weaken [OF k.ok_delay] Suc.IH [OF True]])
    then show ?thesis by (rule io_ok_conseq) auto
  qed (simp add: io_ok_def)
  show ?case
    unfolding put_attempts.simps [of _ _ "Suc n"] nat.case
  proof (rule io_ok_then [OF K_weaken [OF k.ok_abort]], rule io_ok_catch [where R = "\<lambda>_. K (completed latest)"])
    show "io_ok (K (completed latest)) (put_once env opts latest) ?Q (\<lambda>_. K (completed latest))"
      by (rule io_ok_conseq [OF ok_put [OF assms(1) u]]) auto
    show "io_ok (K (completed latest)) (if \<not> isReconciliable e then io_throw e
        else io_bind (reconcile env opts (Suc n) e latest) (\<lambda>s. if completed s \<or> jint (int (po_index opts)) \<in> set (receivedIndices s)
          then io_return s else io_then (delay env (po_retryDelay opts)) (put_attempts env opts n s)))
        ?Q (\<lambda>_. keeps)" for e
      by (intro io_ok_if io_ok_throw io_ok_bind [OF ok_reconcile [OF Suc.prems t]] again) (auto intro: io_ok_return simp: K_def)
  qed
qed

text \<open>A session that has recorded a chunk misses none up to it.\<close>

lemma recorded_missing:
  assumes "static s" "jint (int i) \<in> set (receivedIndices s)"
  shows "i < firstMissingIndex s"
proof -
  obtain n where n: "session_ok s None n" using assms(1) by (auto simp: static_def)
  show ?thesis
    using assms(2) unfolding session_ok_receivedIndices [OF n] mem_first_indices session_ok_firstMissing [OF n] .
qed

lemma missing_bound: "static s \<Longrightarrow> int (firstMissingIndex s) \<le> parts"
proof -
  assume st: "static s"
  then obtain n where n: "session_ok s None n" by (auto simp: static_def)
  then have "int n \<le> parts" using st by (auto simp: static_def of_session_def session_ok_def)
  then show ?thesis by (simp add: session_ok_firstMissing [OF n])
qed

lemma ok_chunk:
  assumes a: "ua_threadId a = tid" "uf_bytes (ua_file a) = bytes" "uf_size (ua_file a) = int (length bytes)"
    and st: "static s"
  shows "io_ok (K (completed s)) (uploadChunk env a s)
     (\<lambda>s' w. K (completed s') w \<and> static s' \<and> (completed s' \<or> firstMissingIndex s < firstMissingIndex s')) (\<lambda>_. keeps)"
proof -
  have c: "chunk_size s = csize" using st by (simp add: chunk_size_def static_def of_session_def)
  let ?i = "firstMissingIndex s" and ?off = "int (firstMissingIndex s) * csize"
  let ?chunk = "blob_slice bytes ?off (min (int (length bytes)) (?off + csize))"
  let ?opts = "\<lambda>d. \<lparr>po_threadId = tid, po_index = ?i, po_offset = ?off, po_chunk = ?chunk, po_digest = d,
    po_accessToken = ua_accessToken a, po_retryDelay = ua_retryDelay a, po_fileSize = int (length bytes)\<rparr>"
  have p: "part_of tid csize bytes (?opts d)" for d by (simp add: part_of_def)
  have put: "io_ok (K (completed s)) (putChunkWithReconcile env (?opts d) n s)
     (\<lambda>s' w. K (completed s') w \<and> static s' \<and> (completed s' \<or> firstMissingIndex s < firstMissingIndex s')) (\<lambda>_. keeps)" for d n
    unfolding putChunkWithReconcile_def
    by (rule io_ok_conseq [OF ok_attempts [OF p st]]) (auto dest: recorded_missing)
  have rep: "io_ok (\<lambda>w. K (completed s') w \<and> static s' \<and> (completed s' \<or> firstMissingIndex s < firstMissingIndex s'))
      (io_then (report env n m x y) (io_return s'))
      (\<lambda>s' w. K (completed s') w \<and> static s' \<and> (completed s' \<or> firstMissingIndex s < firstMissingIndex s')) (\<lambda>_. keeps)"
    for s' n m x y
  proof (cases "static s' \<and> (completed s' \<or> firstMissingIndex s < firstMissingIndex s')")
    case True
    have "io_ok (K (completed s')) (io_then (report env n m x y) (io_return s'))
      (\<lambda>s' w. K (completed s') w \<and> static s' \<and> (completed s' \<or> firstMissingIndex s < firstMissingIndex s')) (\<lambda>_. keeps)"
      using True by (intro io_ok_then [OF K_weaken [OF k.ok_report]] io_ok_return) auto
    then show ?thesis by (rule io_ok_conseq) auto
  qed (auto simp: io_ok_def)
  show ?thesis
    unfolding uploadChunk_def Let_def a c
    by (rule io_ok_bind [OF K_weaken [OF k.ok_sha256File]], rule io_ok_then [OF K_weaken [OF k.ok_report]],
        rule io_ok_bind [OF put rep])
qed

text \<open>The loop returns, because every chunk that it sends is recorded, and leaves nothing missing.\<close>

lemma loop_returns:
  assumes a: "ua_threadId a = tid" "uf_bytes (ua_file a) = bytes" "uf_size (ua_file a) = int (length bytes)"
    and st: "static s" "K (completed s) w"
  shows "\<exists>r w'. uploadLoop env a s w = Some (r, w') \<and> keeps w'
    \<and> (\<forall>s'. r = Inr s' \<longrightarrow> K (completed s') w' \<and> static s')"
  using st
proof (induction "nat parts - firstMissingIndex s" arbitrary: s w rule: less_induct)
  case less
  show ?case
  proof (cases "dot s ''status'' = jlit ''active'' \<and> int (firstMissingIndex s) \<noteq> to_int (dot s ''total_chunks'')")
    case False
    then show ?thesis using less.prems K_keeps by (auto simp: uploadLoop.simps [of _ _ s])
  next
    case True
    obtain r w1 where c: "uploadChunk env a s w = (r, w1)" by (cases "uploadChunk env a s w")
    note ok = io_okD [OF ok_chunk [OF a less.prems(1)] less.prems(2) c]
    show ?thesis
    proof (cases r)
      case (Inl e)
      then show ?thesis using True c ok by (simp add: uploadLoop.simps [of _ _ s])
    next
      case (Inr s')
      then have s': "K (completed s') w1" "static s'" "completed s' \<or> firstMissingIndex s < firstMissingIndex s'"
        using ok by simp_all
      have step: "uploadLoop env a s w = uploadLoop env a s' w1"
        using True c Inr by (simp add: uploadLoop.simps [of _ _ s])
      show ?thesis
      proof (cases "completed s'")
        case True
        then have "uploadLoop env a s' w1 = Some (Inr s', w1)" by (simp add: uploadLoop.simps [of _ _ s'])
        then show ?thesis using step s' K_keeps by auto
      next
        case False
        then have "nat parts - firstMissingIndex s' < nat parts - firstMissingIndex s"
          using s' missing_bound [OF s'(2)] by linarith
        then show ?thesis using less.hyps s' step by simp
      qed
    qed
  qed
qed

lemma ok_publish:
  assumes "static s" "ua_threadId a = tid"
  shows "io_ok keeps (publish env a s) (\<lambda>_. K True) (\<lambda>_. keeps)"
proof -
  have u: "dot s ''upload_id'' = JStr sid" using assms(1) by (simp add: static_def of_session_def)
  have kf: "K False = keeps" by (auto simp: K_def fun_eq_iff)
  let ?req = "session_request ''POST'' (url @ js ''/complete'') (ua_accessToken a)"
  have "io_ok (K False) (requestJson env ?req [201]) (\<lambda>v w. K False w \<and> published w) (\<lambda>_. K False)"
    using complete_keeps complete_answer by (intro k.ok_request) (auto simp: K_def)
  then have "io_ok keeps (requestJson env ?req [201]) (\<lambda>_. K True) (\<lambda>_. keeps)"
    unfolding kf by (rule io_ok_conseq) (auto simp: K_def)
  then have p: "io_ok keeps (io_bind (requestJson env ?req [201]) (\<lambda>att. io_return (s, att))) (\<lambda>_. K True) (\<lambda>_. keeps)"
    by (rule io_ok_bind) (auto intro: io_ok_return)
  have g: "io_ok keeps (getUploadSession env tid (JStr sid) (ua_accessToken a)) (\<lambda>s' w. keeps w \<and> K (completed s') w) (\<lambda>_. keeps)"
    using ok_get [of False "ua_accessToken a"] unfolding kf by (rule io_ok_conseq) auto
  have e: "publish env a s = io_catch (io_bind (requestJson env ?req [201]) (\<lambda>att. io_return (s, att)))
      (\<lambda>error. if \<not> isReconciliable error then io_throw error
          else io_bind (getUploadSession env tid (JStr sid) (ua_accessToken a))
            (\<lambda>s'. if \<not> completed s' then io_throw error else io_return (s', JNull)))"
    unfolding publish_def assms(2) u address io_bind_lift_Inr ..
  show ?thesis
    unfolding e
    by (rule io_ok_catch [OF p]) (auto intro!: io_ok_if io_ok_throw io_ok_bind [OF g] io_ok_return simp: K_def)
qed

lemma ok_finish:
  assumes "static s" "ua_threadId a = tid"
  shows "io_ok (K (completed s)) (finishUpload env a s) (\<lambda>_. K True) (\<lambda>_. keeps)"
proof -
  have fin: "io_ok (K True) (completed_outcome env n s' att) (\<lambda>_. K True) (\<lambda>_. keeps)" for n s' att
    unfolding completed_outcome_def by (intro io_ok_then [OF K_weaken [OF k.ok_report]] io_ok_return) auto
  have pub: "io_ok keeps (io_bind (publish env a s) (\<lambda>(s', att). completed_outcome env n s' att)) (\<lambda>_. K True) (\<lambda>_. keeps)" for n
    by (rule io_ok_bind [OF ok_publish [OF assms]]) (simp add: fin case_prod_beta)
  have pub': "io_ok (K False) (io_bind (publish env a s) (\<lambda>(s', att). completed_outcome env n s' att)) (\<lambda>_. K True) (\<lambda>_. keeps)" for n
    by (rule io_ok_conseq [OF pub]) (auto simp: K_def)
  have thr: "io_ok (K p) (io_throw e :: (upload_exn, 'w, upload_outcome) io) (\<lambda>_. K True) (\<lambda>_. keeps)" for p e
    by (rule io_ok_throw) (rule K_keeps)
  show ?thesis
    using fin pub' thr by (simp add: finishUpload_def)
qed

text \<open>From a session to the end of the upload.\<close>

lemma transfer:
  assumes a: "ua_threadId a = tid" "uf_bytes (ua_file a) = bytes" "uf_size (ua_file a) = int (length bytes)"
    and st: "static s" "K (completed s) w"
  shows "\<exists>r w'. (case uploadLoop env a s w of None \<Rightarrow> None | Some (Inl e, w'') \<Rightarrow> Some (Inl e, w'')
      | Some (Inr s', w'') \<Rightarrow> Some (finishUpload env a s' w'')) = Some (r, w') \<and> keeps w' \<and> (\<forall>x. r = Inr x \<longrightarrow> published w')"
proof -
  obtain r1 w1 where l: "uploadLoop env a s w = Some (r1, w1)" "keeps w1"
      "\<forall>s'. r1 = Inr s' \<longrightarrow> K (completed s') w1 \<and> static s'"
    using loop_returns [OF a st] by blast
  show ?thesis
  proof (cases r1)
    case (Inl e)
    then show ?thesis using l by simp
  next
    case (Inr s')
    obtain r2 w2 where f: "finishUpload env a s' w1 = (r2, w2)" by (cases "finishUpload env a s' w1")
    have "case r2 of Inl e \<Rightarrow> keeps w2 | Inr x \<Rightarrow> K True w2"
      using io_okD [OF ok_finish [OF _ a(1)] _ f] l(3) Inr by auto
    then show ?thesis using l Inr f by (cases r2) (auto simp: K_def)
  qed
qed

lemma ok_create:
  assumes "ua_threadId a = tid" "uf_size (ua_file a) = int (length bytes)"
  shows "io_ok (F True) (createSession env a path digest)
    (\<lambda>v w. keeps w \<and> of_session sid csize parts v \<and> (completed v \<longrightarrow> published w)) (\<lambda>_. keeps)"
proof -
  let ?req = "create_request base (ua_accessToken a) (ua_file a) path digest"
  let ?A = "\<lambda>v w. keeps w \<and> of_session sid csize parts v \<and> (completed v \<longrightarrow> published w)"
  have e: "createSession env a path digest = requestJson env ?req [201]"
    by (simp add: createSession_def assms(1) address_root io_bind_lift_Inr create_request_def)
  show ?thesis
    unfolding e
  proof (rule io_okI)
    fix w
    assume w: "F True w"
    have a: "?A body w'" if "fetchImpl env ?req w = (Response 201 (Some body), w')" for body w'
      using create_answer [OF _ _ assms(2) that] create_keeps [OF _ _ assms(2), of w] w that by (simp add: F_def) (metis snd_conv)
    have k: "keeps (snd (fetchImpl env ?req w))" using create_keeps [OF _ _ assms(2)] w by (simp add: F_def)
    show "case requestJson env ?req [201] w of (Inl e, w') \<Rightarrow> keeps w' | (Inr v, w') \<Rightarrow> ?A v w'"
      using a k w by (auto simp: requestJson_def io_defs throwIfAborted_def F_def split: prod.split fetch_result.split option.split)
  qed
qed

text \<open>Opening: a new session, or the session that is resumed.\<close>

lemma ok_open:
  assumes a: "ua_threadId a = tid" "uf_size (ua_file a) = int (length bytes)"
    and uid: "truthy uid \<Longrightarrow> uid = JStr sid"
  shows "io_ok (F (\<not> truthy uid)) (openSession env a path uid) (\<lambda>s w. K (completed s) w \<and> static s) (\<lambda>_. keeps)"
proof -
  let ?q = "\<not> truthy uid"
  have kf: "K False = keeps" by (auto simp: K_def fun_eq_iff)
  have fk: "F False = keeps" by (auto simp: F_def fun_eq_iff)
  have weak: "io_ok (F ?q) m Q (\<lambda>_. F ?q) \<Longrightarrow> io_ok (F ?q) m Q (\<lambda>_. keeps)" for m :: "(upload_exn, 'w, unit) io" and Q
    by (erule io_ok_conseq) (auto simp: F_def)
  have weak': "io_ok (F ?q) m Q (\<lambda>_. F ?q) \<Longrightarrow> io_ok (F ?q) m Q (\<lambda>_. keeps)" for m :: "(upload_exn, 'w, jstr) io" and Q
    by (erule io_ok_conseq) (auto simp: F_def)
  let ?S = "\<lambda>v w. keeps w \<and> of_session sid csize parts v \<and> (completed v \<longrightarrow> published w)"
  have lift: "io_ok (?S v) (io_lift (validateSession v ex)) (\<lambda>s w. K (completed s) w \<and> static s) (\<lambda>_. keeps)" for v ex
    by (rule io_ok_lift) (auto simp: K_def split: sum.split dest!: validated)
  have check: "io_ok (\<lambda>w. K (completed s) w \<and> static s)
      (io_then (io_lift (assertSessionMatchesFile s (ua_file a) path d)) (io_return s)) ?S (\<lambda>_. keeps)" for s d
    by (rule io_ok_then [where R = "\<lambda>w. K (completed s) w \<and> static s"])
      (auto intro!: io_ok_lift io_ok_return simp: K_def static_def split: sum.split)
  have get: "io_ok keeps (getUploadSession env tid uid (ua_accessToken a))
      (\<lambda>s w. K (completed s) w \<and> static s) (\<lambda>_. keeps)" if "truthy uid"
    using ok_get [of False "ua_accessToken a"] uid [OF that] unfolding kf by (auto elim!: io_ok_conseq)
  have obtain_session: "io_ok (F ?q)
      (if truthy uid
       then io_bind (getUploadSession env (ua_threadId a) uid (ua_accessToken a)) (\<lambda>session.
              io_then (io_lift (assertSessionMatchesFile session (ua_file a) path d)) (io_return session))
       else createSession env a path d) ?S (\<lambda>_. keeps)" for d
    unfolding a using fk io_ok_bind [OF get check] ok_create [OF a] by (cases "truthy uid") simp_all
  show ?thesis
    unfolding openSession_def Let_def
    by (rule io_ok_then [OF weak [OF f.ok_report]], rule io_ok_bind [OF weak' [OF f.ok_sha256File]],
        rule io_ok_then [OF weak [OF f.ok_abort]], rule io_ok_bind [OF obtain_session lift])
qed

text \<open>The whole operation returns, and success means that the file is published.\<close>

lemma upload_returns:
  assumes f: "file_bytes f = bytes" "file_size f = jint (int (length bytes))"
    and uid: "truthy uid \<Longrightarrow> uid = JStr sid" and w: "keeps w" "\<not> truthy uid \<Longrightarrow> fresh w"
  shows "\<exists>r w'. uploadResumableFile env (Some f) (JStr tid) relativePath uid tok attempts ms w = Some (r, w')
    \<and> keeps w' \<and> (\<forall>x. r = Inr x \<longrightarrow> published w')"
proof (cases "upload_arguments (Some f) (JStr tid) relativePath tok attempts ms")
  case (Inl e)
  then show ?thesis using w by (simp add: uploadResumableFile_def)
next
  case (Inr ap)
  obtain a path where ap: "ap = (a, path)" by (cases ap)
  have a: "ua_threadId a = tid" "uf_bytes (ua_file a) = bytes" "uf_size (ua_file a) = int (length bytes)"
    using Inr f by (auto simp: ap upload_arguments_def sum_bind_Inr_iff validateFile_def validateIdentifier_def Let_def
        split: if_splits)
  obtain r1 w1 where o: "openSession env a path uid w = (r1, w1)" by (cases "openSession env a path uid w")
  have "F (\<not> truthy uid) w" using w by (simp add: F_def)
  note ok = io_okD [OF ok_open [OF a(1,3) uid] this o]
  show ?thesis
  proof (cases r1)
    case (Inl e)
    then show ?thesis using Inr ap o ok by (simp add: uploadResumableFile_def)
  next
    case s: (Inr s)
    then have st: "static s" "K (completed s) w1" using ok by simp_all
    obtain r2 w2 where c: "completed_outcome env (uf_size (ua_file a)) s JNull w1 = (r2, w2)"
      by (cases "completed_outcome env (uf_size (ua_file a)) s JNull w1")
    have "keeps w2 \<and> (\<forall>x. r2 = Inr x \<longrightarrow> published w2)" if "completed s"
    proof -
      have "io_ok (K True) (completed_outcome env (uf_size (ua_file a)) s JNull) (\<lambda>_. K True) (\<lambda>_. keeps)"
        unfolding completed_outcome_def by (intro io_ok_then [OF K_weaken [OF k.ok_report]] io_ok_return) auto
      from io_okD [OF this _ c] show ?thesis using st(2) that by (cases r2) (auto simp: K_def)
    qed
    then show ?thesis
      using Inr ap o s c transfer [OF a st] K_keeps [OF st(2)]
      by (cases "dot s ''status'' = jlit ''cancelled''"; cases "completed s") (simp_all add: uploadResumableFile_def)
  qed
qed

end

end
