(* ===== verification/UploadServer.thy ===== *)
theory UploadServer
  imports UploadService
begin

text \<open>
  The service side of an upload: the upload routes of
  \<open>bridge_service/src/codex_bridge_service/routes/uploads.py\<close> with the session methods of
  \<open>storage.py\<close> they call, and a network between the panel and the service that may lose a
  request, lose an answer after the request took effect, answer with an error of its own, or
  see the user abort. The routing of an URL to a handler (Home Assistant's proxy and FastAPI) is
  the parameter \<open>route\<close>. The checks of the names, the media type and the size limit of a new
  session are the parameter \<open>admits\<close>, which gives the normalised relative path of what it
  admits; the inspection of an archive is \<open>archive_ok\<close>. A refusal that changes nothing (a wrong
  token, an exhausted quota, a reservation conflict) is an error answered on the way. Files are
  their contents, no crash interrupts a handler (so no session is seen half published), finished
  sessions are not reaped, and a handler runs to its end before the next, as under the
  service's upload lock.
\<close>

section \<open>Sessions\<close>

definition UPLOAD_CHUNK_SIZE :: nat where
  "UPLOAD_CHUNK_SIZE = 8 * 1024 * 1024"

text \<open>
  The manifest of a session. The chunks received so far are always the first ones, so they
  are a list; the recorded digest and size of a chunk are those of its content.
\<close>

record upload_record =
  ur_id :: jstr
  ur_thread :: jstr
  ur_filename :: jsval
  ur_mime :: jsval
  ur_path :: jstr
  ur_size :: nat
  ur_sha :: jstr
  ur_chunks :: "byte list list"
  ur_status :: string

definition chunk_count :: "nat \<Rightarrow> nat" where
  "chunk_count size_bytes = (size_bytes + UPLOAD_CHUNK_SIZE - 1) div UPLOAD_CHUNK_SIZE"

definition upload_view :: "upload_record \<Rightarrow> jsval" where
  "upload_view u =
     JObj [(js ''upload_id'', JStr (ur_id u)), (js ''thread_id'', JStr (ur_thread u)),
       (js ''filename'', ur_filename u), (js ''mime_type'', ur_mime u), (js ''relative_path'', JStr (ur_path u)),
       (js ''size_bytes'', jint (int (ur_size u))), (js ''sha256'', JStr (ur_sha u)),
       (js ''chunk_size'', jint (int UPLOAD_CHUNK_SIZE)),
       (js ''total_chunks'', jint (int (chunk_count (ur_size u)))),
       (js ''received_indices'', JArr (map (\<lambda>i. jint (int i)) [0..<length (ur_chunks u)])),
       (js ''next_offset'', jint (int (length (ur_chunks u) * UPLOAD_CHUNK_SIZE))),
       (js ''status'', jlit (ur_status u))]"

definition attachment_view :: "upload_record \<Rightarrow> jsval" where
  "attachment_view u =
     JObj [(js ''attachment_id'', JStr (js ''att_'' @ ur_id u)), (js ''filename'', ur_filename u),
       (js ''mime_type'', ur_mime u),
       (js ''stored_path'', JStr (ur_thread u @ js ''/resumable/'' @ ur_id u @ [47] @ ur_path u)),
       (js ''relative_path'', JStr (js ''resumable/'' @ ur_id u @ [47] @ ur_path u)), (js ''size_bytes'', jint (int (ur_size u))), (js ''sha256'', JStr (ur_sha u))]"

definition valid_sha256 :: "jstr \<Rightarrow> bool" where
  "valid_sha256 v \<longleftrightarrow> length v = 64 \<and> list_all (\<lambda>u. 48 \<le> u \<and> u \<le> 57 \<or> 97 \<le> u \<and> u \<le> 102) v"

type_synonym reply = "int \<times> jsval option"

section \<open>The handlers\<close>

text \<open>
  \<open>int(upload_offset)\<close>: a sign, then groups of digits that underscores may separate (the
  value of a header has no blanks around it); a missing header is -1.
\<close>

definition python_int :: "jstr \<Rightarrow> int option" where
  "python_int s =
     (let digits = (if starts_with [45] s \<or> starts_with [43] s then tl s else s); groups = split_on 95 digits in
      if list_all (\<lambda>g. g \<noteq> [] \<and> list_all is_digit g) groups
      then Some ((if starts_with [45] s then -1 else 1) * int (read_dec (concat groups) 0)) else None)"

definition header_int :: "(string \<times> jstr) list \<Rightarrow> string \<Rightarrow> int option" where
  "header_int headers name = (case map_of headers name of Some v \<Rightarrow> python_int v | None \<Rightarrow> Some (-1))"

text \<open>
  \<open>begin_upload_chunk\<close>, the writer and its \<open>finish\<close>: a chunk that is already recorded is
  acknowledged again if it is the same, the next one is written if its length and digest are
  right. \<open>Content-Length\<close> is the length of the body.
\<close>

definition put_upload_chunk ::
  "nat \<Rightarrow> int \<Rightarrow> jstr \<Rightarrow> byte list \<Rightarrow> upload_record \<Rightarrow> reply \<times> upload_record" where
  "put_upload_chunk index offset digest body u =
     (let expected = min UPLOAD_CHUNK_SIZE (ur_size u - index * UPLOAD_CHUNK_SIZE) in
      if ur_status u \<noteq> ''active'' then ((409, None), u)
      else if index \<ge> chunk_count (ur_size u) \<or> offset \<noteq> int (index * UPLOAD_CHUNK_SIZE) then ((409, None), u)
      else if length body \<noteq> expected then ((400, None), u)
      else if \<not> valid_sha256 digest then ((400, None), u)
      else if index < length (ur_chunks u) then
        (if sha256_hex (ur_chunks u ! index) = digest \<and> length (ur_chunks u ! index) = expected
         then (if sha256_hex body = digest then ((200, Some (upload_view u)), u) else ((400, None), u))
         else ((409, None), u))
      else if index \<noteq> length (ur_chunks u) then ((409, None), u)
      else if sha256_hex body \<noteq> digest then ((400, None), u)
      else (let u' = u\<lparr>ur_chunks := ur_chunks u @ [body]\<rparr> in ((200, Some (upload_view u')), u')))"

text \<open>
  \<open>complete_upload_session\<close>: an attachment that exists is confirmed again; otherwise the
  chunks are assembled, checked against the declared length and digest and published. The
  argument is the content of the attachment, if it exists.
\<close>

definition complete_upload_session ::
  "(byte list \<Rightarrow> bool) \<Rightarrow> byte list option \<Rightarrow> upload_record \<Rightarrow> reply \<times> byte list option \<times> upload_record" where
  "complete_upload_session archive_ok attachment u =
     (case attachment of
        Some content \<Rightarrow> ((201, Some (attachment_view u)), attachment, u\<lparr>ur_status := ''completed''\<rparr>)
      | None \<Rightarrow>
          if ur_status u \<noteq> ''active'' then ((409, None), None, u)
          else if length (ur_chunks u) \<noteq> chunk_count (ur_size u) then ((409, None), None, u)
          else (let content = concat (ur_chunks u) in
                if \<not> archive_ok content \<or> length content \<noteq> ur_size u \<or> sha256_hex content \<noteq> ur_sha u
                then ((400, None), None, u)
                else ((201, Some (attachment_view u)), Some content, u\<lparr>ur_status := ''completed''\<rparr>)))"

text \<open>\<open>create_upload_session\<close>; the identifier is the one \<open>uuid4\<close> gives.\<close>

definition create_upload_session ::
  "(jsval \<Rightarrow> jstr option) \<Rightarrow> jstr \<Rightarrow> jstr \<Rightarrow> jsval \<Rightarrow> reply \<times> upload_record option" where
  "create_upload_session admits thread_id upload_id body =
     (let size = to_int (dot body ''size_bytes'') in
      case admits body of
        None \<Rightarrow> ((400, None), None)
      | Some safe_relative \<Rightarrow>
          if \<not> is_safe_integer (dot body ''size_bytes'') \<or> size \<le> 0
             \<or> \<not> is_string (dot body ''sha256'') \<or> \<not> valid_sha256 (as_string (dot body ''sha256''))
          then ((400, None), None)
          else (let u = \<lparr>ur_id = upload_id, ur_thread = thread_id, ur_filename = dot body ''filename'',
                     ur_mime = dot body ''mime_type'', ur_path = safe_relative, ur_size = nat size,
                     ur_sha = as_string (dot body ''sha256''), ur_chunks = [], ur_status = ''active''\<rparr>
                in ((201, Some (upload_view u)), Some u)))"

text \<open>\<open>cancel_upload_session\<close> for a session that no crash left half published.\<close>

definition cancel_upload_session :: "upload_record \<Rightarrow> reply \<times> upload_record" where
  "cancel_upload_session u =
     (let u' = (if ur_status u = ''active'' then u\<lparr>ur_status := ''cancelled'', ur_chunks := []\<rparr> else u\<lparr>ur_chunks := []\<rparr>)
      in ((200, Some (upload_view u')), u'))"

section \<open>The service\<close>

datatype endpoint = Uploads jstr | Upload jstr jstr | UploadChunk jstr jstr nat | UploadComplete jstr jstr

record bridge =
  br_threads :: "jstr list"
  br_ids :: "nat \<Rightarrow> jstr"
  br_created :: nat
  br_uploads :: "jstr \<rightharpoonup> upload_record"
  br_attachments :: "jstr \<rightharpoonup> byte list"

text \<open>A session of the given chat, or the 404 of the lookups.\<close>

definition with_upload :: "jstr \<Rightarrow> jstr \<Rightarrow> bridge \<Rightarrow> (upload_record \<Rightarrow> reply \<times> bridge) \<Rightarrow> reply \<times> bridge" where
  "with_upload tid uid b f =
     (case br_uploads b uid of
        Some u \<Rightarrow> if tid \<notin> set (br_threads b) \<or> ur_thread u \<noteq> tid then ((404, None), b) else f u
      | None \<Rightarrow> ((404, None), b))"

definition raw_body :: "request_body \<Rightarrow> byte list" where
  "raw_body body = (case body of BlobBody bytes \<Rightarrow> bytes | _ \<Rightarrow> [])"

text \<open>
  The five handlers. A body that is not JSON fails the model of \<open>create_upload\<close> (422); the
  headers of a chunk are read before its session is looked up.
\<close>

definition serve ::
  "(jstr \<Rightarrow> endpoint option) \<Rightarrow> (jsval \<Rightarrow> jstr option) \<Rightarrow> (byte list \<Rightarrow> bool) \<Rightarrow> request \<Rightarrow> bridge \<Rightarrow> reply \<times> bridge" where
  "serve route admits archive_ok r b =
     (case route (req_url r) of
        None \<Rightarrow> ((404, None), b)
      | Some (Uploads tid) \<Rightarrow>
          if req_method r \<noteq> ''POST'' then ((405, None), b)
          else (case req_body r of
            JsonBody body \<Rightarrow>
              if tid \<notin> set (br_threads b) then ((404, None), b)
              else (case create_upload_session admits tid (br_ids b (br_created b)) body of
                      (answer, None) \<Rightarrow> (answer, b)
                    | (answer, Some u) \<Rightarrow>
                        (answer, b\<lparr>br_created := Suc (br_created b), br_uploads := (br_uploads b)(ur_id u \<mapsto> u)\<rparr>))
          | _ \<Rightarrow> ((422, None), b))
      | Some (Upload tid uid) \<Rightarrow>
          if req_method r = ''GET'' then with_upload tid uid b (\<lambda>u. ((200, Some (upload_view u)), b))
          else if req_method r = ''DELETE'' then with_upload tid uid b (\<lambda>u.
            (case cancel_upload_session u of (answer, u') \<Rightarrow>
              (answer, b\<lparr>br_uploads := (br_uploads b)(uid \<mapsto> u')\<rparr>)))
          else ((405, None), b)
      | Some (UploadChunk tid uid index) \<Rightarrow>
          if req_method r \<noteq> ''PUT'' then ((405, None), b)
          else (case (header_int (req_headers r) ''Upload-Offset'', map_of (req_headers r) ''X-Chunk-SHA256'') of
            (Some offset, Some digest) \<Rightarrow> with_upload tid uid b (\<lambda>u.
              (case put_upload_chunk index offset digest (raw_body (req_body r)) u of (answer, u') \<Rightarrow>
                (answer, b\<lparr>br_uploads := (br_uploads b)(uid \<mapsto> u')\<rparr>)))
          | _ \<Rightarrow> ((400, None), b))
      | Some (UploadComplete tid uid) \<Rightarrow>
          if req_method r \<noteq> ''POST'' then ((405, None), b)
          else with_upload tid uid b (\<lambda>u.
            (case complete_upload_session archive_ok (br_attachments b uid) u of (answer, content, u') \<Rightarrow>
              (answer, b\<lparr>br_uploads := (br_uploads b)(uid \<mapsto> u'), br_attachments := (br_attachments b)(uid := content)\<rparr>))))"

section \<open>The network\<close>

text \<open>
  What happens to each request in turn: it is served, lost before or after it is served,
  answered by something in between with an error, or aborted by the user; when the
  schedule ends every request is served.
\<close>

datatype fault = Served | RequestLost | AnswerLost | Refused int | UserAborts

record upload_world =
  uw_bridge :: bridge
  uw_faults :: "fault list"
  uw_aborted :: bool
  uw_progress :: "progress list"

definition delivered :: "reply \<times> bridge \<Rightarrow> upload_world \<Rightarrow> fetch_result \<times> upload_world" where
  "delivered x w = (case x of ((st, body), b) \<Rightarrow> (Response st body, w\<lparr>uw_bridge := b\<rparr>))"

definition faulty_fetch ::
  "(request \<Rightarrow> bridge \<Rightarrow> reply \<times> bridge) \<Rightarrow> request \<Rightarrow> upload_world \<Rightarrow> fetch_result \<times> upload_world" where
  "faulty_fetch server r w =
     (case uw_faults w of
        [] \<Rightarrow> delivered (server r (uw_bridge w)) w
      | fault # rest \<Rightarrow>
          (let w1 = w\<lparr>uw_faults := rest\<rparr> in
           case fault of
             Served \<Rightarrow> delivered (server r (uw_bridge w)) w1
           | RequestLost \<Rightarrow> (FetchRejected False, w1)
           | AnswerLost \<Rightarrow> (FetchRejected False, snd (delivered (server r (uw_bridge w)) w1))
           | Refused st \<Rightarrow> (Response (if st = 200 \<or> st = 201 then 503 else st) None, w1)
           | UserAborts \<Rightarrow> (FetchRejected True, w1\<lparr>uw_aborted := True\<rparr>)))"

definition server_env ::
  "(jstr \<Rightarrow> endpoint option) \<Rightarrow> (jsval \<Rightarrow> jstr option) \<Rightarrow> (byte list \<Rightarrow> bool) \<Rightarrow> upload_world upload_env" where
  "server_env route admits archive_ok =
     \<lparr>fetchImpl = faulty_fetch (serve route admits archive_ok), signal_aborted = uw_aborted,
      timer = (\<lambda>d w. (\<not> uw_aborted w, w)), arrayBuffer = (\<lambda>b w. (Inr b, w)),
      onProgress = (\<lambda>p w. (Inr (), w\<lparr>uw_progress := uw_progress w @ [p]\<rparr>))\<rparr>"

section \<open>What the service keeps of one file\<close>

definition file_part :: "byte list \<Rightarrow> nat \<Rightarrow> byte list" where
  "file_part bytes i = take UPLOAD_CHUNK_SIZE (drop (i * UPLOAD_CHUNK_SIZE) bytes)"

definition session_of :: "jstr \<Rightarrow> jstr \<Rightarrow> byte list \<Rightarrow> byte list option \<Rightarrow> upload_record \<Rightarrow> bool" where
  "session_of tid sid bytes attachment u \<longleftrightarrow>
     ur_id u = sid \<and> ur_thread u = tid \<and> ur_size u = length bytes
     \<and> ur_chunks u = map (file_part bytes) [0..<length (ur_chunks u)]
     \<and> length (ur_chunks u) \<le> chunk_count (length bytes)
     \<and> ur_status u \<in> {''active'', ''completed'', ''cancelled''}
     \<and> (ur_status u = ''completed'' \<longrightarrow> attachment = Some bytes)"

text \<open>The session \<open>sid\<close>, if there is one, is a session for this file, and so is its attachment.\<close>

definition holds_file :: "jstr \<Rightarrow> jstr \<Rightarrow> byte list \<Rightarrow> bridge \<Rightarrow> bool" where
  "holds_file tid sid bytes b \<longleftrightarrow> br_attachments b sid \<in> {None, Some bytes}
     \<and> (case br_uploads b sid of None \<Rightarrow> True | Some u \<Rightarrow> session_of tid sid bytes (br_attachments b sid) u)"

definition unused_id :: "jstr \<Rightarrow> bridge \<Rightarrow> bool" where
  "unused_id sid b \<longleftrightarrow> br_ids b (br_created b) = sid \<and> br_uploads b sid = None \<and> br_attachments b sid = None"

definition has_file :: "jstr \<Rightarrow> byte list \<Rightarrow> bridge \<Rightarrow> bool" where
  "has_file sid bytes b \<longleftrightarrow> br_attachments b sid = Some bytes"

text \<open>The routing table finds the handlers for the URLs the client builds.\<close>

definition routes_to :: "(jstr \<Rightarrow> endpoint option) \<Rightarrow> jstr \<Rightarrow> jstr \<Rightarrow> jstr \<Rightarrow> jstr \<Rightarrow> bool" where
  "routes_to route tid sid base url \<longleftrightarrow>
     uploadUrl tid (JStr sid) = Inr url \<and> uploadUrl tid JNull = Inr base
     \<and> route base = Some (Uploads tid) \<and> route url = Some (Upload tid sid)
     \<and> (\<forall>i. route (url @ js ''/chunks/'' @ dec_nat i) = Some (UploadChunk tid sid i))
     \<and> route (url @ js ''/complete'') = Some (UploadComplete tid sid)"

subsection \<open>Parts of a file\<close>

lemma chunk_size_pos: "0 < UPLOAD_CHUNK_SIZE"
  by (simp add: UPLOAD_CHUNK_SIZE_def)

lemma slice_part:
  assumes "off = int (i * UPLOAD_CHUNK_SIZE)"
  shows "blob_slice bytes off (min (int (length bytes)) (off + int UPLOAD_CHUNK_SIZE)) = file_part bytes i"
proof -
  define k where "k = i * UPLOAD_CHUNK_SIZE"
  have n: "nat off = k" "nat (min (int (length bytes)) (off + int UPLOAD_CHUNK_SIZE)) - k
      = min (length bytes - k) UPLOAD_CHUNK_SIZE"
    unfolding assms k_def [symmetric] by linarith+
  show ?thesis
    unfolding blob_slice_def file_part_def k_def [symmetric] n by (simp add: min_def)
qed

lemma concat_parts_take:
  "concat (map (file_part bytes) [0..<n]) = take (n * UPLOAD_CHUNK_SIZE) bytes"
proof (induction n)
  case (Suc n)
  then show ?case
    by (simp add: file_part_def take_add add.commute [of UPLOAD_CHUNK_SIZE])
qed simp

lemma concat_parts: "concat (map (file_part bytes) [0..<chunk_count (length bytes)]) = bytes"
proof -
  have "length bytes \<le> chunk_count (length bytes) * UPLOAD_CHUNK_SIZE"
    using chunk_size_pos dividend_less_div_times [of UPLOAD_CHUNK_SIZE "length bytes + UPLOAD_CHUNK_SIZE - 1"]
    unfolding chunk_count_def by linarith
  then show ?thesis by (simp add: concat_parts_take)
qed

subsection \<open>Views\<close>

lemma upload_view_fields:
  "dot (upload_view u) ''upload_id'' = JStr (ur_id u)" "dot (upload_view u) ''chunk_size'' = jint (int UPLOAD_CHUNK_SIZE)"
  "dot (upload_view u) ''total_chunks'' = jint (int (chunk_count (ur_size u)))"
  "dot (upload_view u) ''received_indices'' = JArr (first_indices (length (ur_chunks u)))"
  "dot (upload_view u) ''status'' = jlit (ur_status u)"
  by (simp_all add: upload_view_def dot_JObj obj_get_def first_indices_def)

lemma view_received: "receivedIndices (upload_view u) = first_indices (length (ur_chunks u))"
  by (rule receivedIndices_ok) (simp add: upload_view_fields)

lemma view_of_session:
  "session_of tid sid bytes att u \<Longrightarrow>
     of_session sid (int UPLOAD_CHUNK_SIZE) (int (chunk_count (length bytes))) (upload_view u)
     \<and> (completed (upload_view u) \<longrightarrow> att = Some bytes)"
  by (simp add: of_session_def upload_view_fields session_of_def)

section \<open>The laws\<close>

subsection \<open>Through the network\<close>

lemma fetch_keeps:
  assumes "P (snd (server r (uw_bridge w)))" "P (uw_bridge w)"
  shows "P (uw_bridge (snd (faulty_fetch server r w)))"
  using assms by (auto simp: faulty_fetch_def delivered_def Let_def case_prod_beta split: list.split fault.split)

lemma fetch_answer:
  assumes "faulty_fetch server r w = (Response st (Some body), w')"
  shows "server r (uw_bridge w) = ((st, Some body), uw_bridge w')"
  using assms by (auto simp: faulty_fetch_def delivered_def Let_def split: list.splits fault.splits prod.splits)

subsection \<open>Of the handlers\<close>

lemma put_session:
  assumes s: "session_of tid sid bytes att u" and body: "body = file_part bytes index"
    and p: "put_upload_chunk index offset digest body u = (answer, u')"
  shows "session_of tid sid bytes att u'
    \<and> (case answer of (st, Some v) \<Rightarrow> v = upload_view u' \<and> index < length (ur_chunks u') \<and> ur_status u' = ''active'' | _ \<Rightarrow> True)"
proof -
  have grow: "session_of tid sid bytes att (u\<lparr>ur_chunks := ur_chunks u @ [body]\<rparr>)"
    if "index < chunk_count (ur_size u)" "index = length (ur_chunks u)"
  proof -
    have "ur_chunks u = map (file_part bytes) [0..<length (ur_chunks u)]" using s by (simp add: session_of_def)
    then have "ur_chunks u @ [body] = map (file_part bytes) [0..<Suc (length (ur_chunks u))]"
      using body that(2) by simp
    then show ?thesis using s that by (simp add: session_of_def)
  qed
  show ?thesis
    using p s grow
    by (auto simp: put_upload_chunk_def Let_def split: if_splits)
qed

lemma complete_session:
  assumes s: "session_of tid sid bytes att u" and att: "att \<in> {None, Some bytes}"
    and c: "complete_upload_session archive_ok att u = (answer, att', u')"
  shows "session_of tid sid bytes att' u' \<and> att' \<in> {None, Some bytes} \<and> (att = Some bytes \<longrightarrow> att' = Some bytes)
    \<and> (fst answer = 201 \<longrightarrow> att' = Some bytes)"
proof -
  have whole: "concat (ur_chunks u) = bytes" if "length (ur_chunks u) = chunk_count (ur_size u)"
    using s that concat_parts [of bytes] by (metis session_of_def)
  show ?thesis
    using c s att whole by (auto simp: complete_upload_session_def session_of_def Let_def split: option.splits if_splits)
qed


lemma create_session:
  assumes "create_upload_session admits tid sid (create_body f path digest) = (answer, made)" "uf_size f = int (length bytes)"
  shows "case made of None \<Rightarrow> fst answer \<noteq> 201
    | Some u \<Rightarrow> session_of tid sid bytes None u \<and> ur_id u = sid \<and> ur_status u = ''active'' \<and> snd answer = Some (upload_view u)"
  using assms
  by (auto simp: create_upload_session_def create_body_def dot_JObj obj_get_def session_of_def Let_def
      split: option.splits if_splits)

subsection \<open>Of the routes\<close>

text \<open>
  A request on the session \<open>sid\<close> of the chat whose handler keeps the session keeps the file,
  and an answer with a body has passed the handler.
\<close>

lemma holds_fileD:
  assumes "holds_file tid sid bytes b" "br_uploads b sid = Some u"
  shows "session_of tid sid bytes (br_attachments b sid) u" "br_attachments b sid \<in> {None, Some bytes}"
  using assms by (simp_all add: holds_file_def)

lemma holds_file_update:
  assumes "session_of tid sid bytes att u" "att \<in> {None, Some bytes}"
  shows "holds_file tid sid bytes (b\<lparr>br_uploads := (br_uploads b)(sid \<mapsto> u), br_attachments := (br_attachments b)(sid := att)\<rparr>)"
  using assms by (simp add: holds_file_def)

lemma with_upload_rule:
  assumes "holds_file tid sid bytes b"
    and "\<And>u. br_uploads b sid = Some u \<Longrightarrow> session_of tid sid bytes (br_attachments b sid) u \<Longrightarrow>
      holds_file tid sid bytes (snd (f u)) \<and> (\<forall>st v. fst (f u) = (st, Some v) \<longrightarrow> Q st v (snd (f u)))"
  shows "holds_file tid sid bytes (snd (with_upload tid' sid b f))
    \<and> (\<forall>st v. fst (with_upload tid' sid b f) = (st, Some v) \<longrightarrow> Q st v (snd (with_upload tid' sid b f)))"
  using assms holds_fileD [OF assms(1)] by (auto simp: with_upload_def split: option.split)

definition good_view :: "jstr \<Rightarrow> byte list \<Rightarrow> jsval \<Rightarrow> bridge \<Rightarrow> bool" where
  "good_view sid bytes v b \<longleftrightarrow>
     of_session sid (int UPLOAD_CHUNK_SIZE) (int (chunk_count (length bytes))) v \<and> (completed v \<longrightarrow> has_file sid bytes b)"

lemma serve_put:
  assumes "routes_to route tid sid base url" "holds_file tid sid bytes b" "part_of tid (int UPLOAD_CHUNK_SIZE) bytes opts"
    and x_def: "x = serve route admits archive_ok (put_request opts url) b"
  shows "holds_file tid sid bytes (snd x) \<and> (\<forall>st v. fst x = (st, Some v) \<longrightarrow>
    good_view sid bytes v (snd x) \<and> jint (int (po_index opts)) \<in> set (receivedIndices v))"
proof -
  have body: "po_chunk opts = file_part bytes (po_index opts)"
    using assms(3) slice_part [of "po_offset opts" "po_index opts" bytes] by (simp add: part_of_def)
  show ?thesis
  proof (cases "header_int (req_headers (put_request opts url)) ''Upload-Offset''")
    case None
    then show ?thesis using assms(1,2) by (simp add: x_def serve_def put_request_def routes_to_def)
  next
    case (Some offset)
    let ?f = "\<lambda>u. case put_upload_chunk (po_index opts) offset (po_digest opts) (po_chunk opts) u of (answer, u') \<Rightarrow>
      (answer, b\<lparr>br_uploads := (br_uploads b)(sid \<mapsto> u')\<rparr>)"
    have "map_of (req_headers (put_request opts url)) ''X-Chunk-SHA256'' = Some (po_digest opts)"
      by (simp add: put_request_def authorizationHeaders_def)
    then have e: "x = with_upload tid sid b ?f"
      using assms(1) Some by (simp add: x_def serve_def put_request_def routes_to_def raw_body_def)
    show ?thesis
      unfolding e
    proof (rule with_upload_rule [OF assms(2)])
      fix u
      assume u: "br_uploads b sid = Some u" "session_of tid sid bytes (br_attachments b sid) u"
      obtain answer u' where p: "put_upload_chunk (po_index opts) offset (po_digest opts) (po_chunk opts) u = (answer, u')"
        by (cases "put_upload_chunk (po_index opts) offset (po_digest opts) (po_chunk opts) u")
      note s = put_session [OF u(2) body p]
      have "holds_file tid sid bytes (b\<lparr>br_uploads := (br_uploads b)(sid \<mapsto> u')\<rparr>)"
        using s holds_fileD(2) [OF assms(2) u(1)] by (simp add: holds_file_def)
      moreover have "po_index opts < n \<Longrightarrow> JNum (Fin (of_nat (po_index opts))) \<in> set (first_indices n)" for n
        using mem_first_indices [of "po_index opts" n] by simp
      ultimately show "holds_file tid sid bytes (snd (?f u)) \<and> (\<forall>st v. fst (?f u) = (st, Some v) \<longrightarrow>
          good_view sid bytes v (snd (?f u)) \<and> jint (int (po_index opts)) \<in> set (receivedIndices v))"
        using s view_of_session [of tid sid bytes "br_attachments b sid" u']
        by (auto simp: p good_view_def has_file_def view_received)
    qed
  qed
qed

lemma serve_get:
  assumes "routes_to route tid sid base url" "holds_file tid sid bytes b"
    and x_def: "x = serve route admits archive_ok (session_request ''GET'' url tok) b"
  shows "holds_file tid sid bytes (snd x) \<and> (\<forall>st v. fst x = (st, Some v) \<longrightarrow> good_view sid bytes v (snd x))"
proof -
  have e: "x = with_upload tid sid b (\<lambda>u. ((200, Some (upload_view u)), b))"
    using assms(1) by (simp add: x_def serve_def session_request_def routes_to_def)
  show ?thesis
    unfolding e
    by (rule with_upload_rule [OF assms(2)])
      (use assms(2) in \<open>auto simp: good_view_def has_file_def dest: view_of_session\<close>)
qed

lemma serve_complete:
  assumes "routes_to route tid sid base url" "holds_file tid sid bytes b"
    and x_def: "x = serve route admits archive_ok (session_request ''POST'' (url @ js ''/complete'') tok) b"
  shows "holds_file tid sid bytes (snd x) \<and> (\<forall>st v. fst x = (st, Some v) \<longrightarrow> st = 201 \<longrightarrow> has_file sid bytes (snd x))"
proof -
  have e: "x = with_upload tid sid b (\<lambda>u.
      (case complete_upload_session archive_ok (br_attachments b sid) u of (answer, content, u') \<Rightarrow>
        (answer, b\<lparr>br_uploads := (br_uploads b)(sid \<mapsto> u'), br_attachments := (br_attachments b)(sid := content)\<rparr>)))"
    using assms(1) by (simp add: x_def serve_def session_request_def routes_to_def)
  show ?thesis
    unfolding e
    by (rule with_upload_rule [OF assms(2)])
      (auto simp: has_file_def split: prod.splits
        dest!: complete_session [OF _ holds_fileD(2) [OF assms(2)]] intro: holds_file_update)
qed

lemma serve_create:
  assumes "routes_to route tid sid base url" "holds_file tid sid bytes b" "unused_id sid b" "uf_size f = int (length bytes)"
    and x_def: "x = serve route admits archive_ok (create_request base tok f path digest) b"
  shows "holds_file tid sid bytes (snd x) \<and> (\<forall>st v. fst x = (st, Some v) \<longrightarrow> st = 201 \<longrightarrow> good_view sid bytes v (snd x))"
proof -
  obtain answer made where c: "create_upload_session admits tid sid (create_body f path digest) = (answer, made)"
    by (cases "create_upload_session admits tid sid (create_body f path digest)")
  note s = create_session [OF c assms(4)]
  have x: "x = (if tid \<notin> set (br_threads b) then ((404, None), b)
    else (case made of None \<Rightarrow> (answer, b)
      | Some u \<Rightarrow> (answer, b\<lparr>br_created := Suc (br_created b), br_uploads := (br_uploads b)(ur_id u \<mapsto> u)\<rparr>)))"
    using assms(1,3) c
    by (simp add: x_def serve_def create_request_def routes_to_def unused_id_def split: option.split)
  show ?thesis
  proof (cases "tid \<in> set (br_threads b) \<and> made \<noteq> None")
    case True
    then obtain u where u: "made = Some u" by blast
    then have us: "session_of tid sid bytes None u" "ur_id u = sid" "ur_status u = ''active''" "snd answer = Some (upload_view u)"
      using s by simp_all
    show ?thesis
      using True u us view_of_session [OF us(1)] assms(3)
      by (auto simp: x holds_file_def unused_id_def good_view_def upload_view_fields)
  next
    case False
    then show ?thesis using s assms(2) by (auto simp: x)
  qed
qed

text \<open>No request takes the attachment away.\<close>

lemma serve_has_file: "has_file sid bytes b \<Longrightarrow> has_file sid bytes (snd (serve route admits archive_ok r b))"
  by (auto simp: serve_def has_file_def with_upload_def complete_upload_session_def
      split: option.split endpoint.split request_body.split prod.split)


section \<open>The service keeps the contract\<close>

locale bridge_routes =
  fixes route :: "jstr \<Rightarrow> endpoint option" and admits :: "jsval \<Rightarrow> jstr option" and archive_ok :: "byte list \<Rightarrow> bool"
    and tid :: jstr and sid :: jstr and base :: jstr and url :: jstr
  assumes routes: "routes_to route tid sid base url"
begin

lemma keeps_fetch:
  assumes "P (snd (serve route admits archive_ok r (uw_bridge w)))" "P (uw_bridge w)"
  shows "P (uw_bridge (snd (fetchImpl (server_env route admits archive_ok) r w)))"
  using fetch_keeps [where P = P and server = "serve route admits archive_ok"] assms by (simp add: server_env_def)

lemma answer_fetch:
  assumes "fetchImpl (server_env route admits archive_ok) r w = (Response st (Some v), w')"
  shows "fst (serve route admits archive_ok r (uw_bridge w)) = (st, Some v)"
    "snd (serve route admits archive_ok r (uw_bridge w)) = uw_bridge w'"
  using assms by (auto simp: server_env_def dest!: fetch_answer)

end

sublocale bridge_routes \<subseteq> up: upload_service "server_env route admits archive_ok"
  "\<lambda>w. holds_file tid sid bytes (uw_bridge w)" "\<lambda>w. has_file sid bytes (uw_bridge w)" "\<lambda>w. unused_id sid (uw_bridge w)"
  tid sid base url "int UPLOAD_CHUNK_SIZE" "int (chunk_count (length bytes))" bytes for bytes
proof
  fix w and tok :: jsval
  let ?keeps = "\<lambda>w. holds_file tid sid bytes (uw_bridge w)"
  show "uploadUrl tid (JStr sid) = Inr url" "uploadUrl tid JNull = Inr base"
    using routes by (simp_all add: routes_to_def)
  show "P (snd (timer (server_env route admits archive_ok) d w))" "P (snd (arrayBuffer (server_env route admits archive_ok) x w))"
      "P (snd (onProgress (server_env route admits archive_ok) p w))"
    if "P \<in> {?keeps, \<lambda>w. has_file sid bytes (uw_bridge w), \<lambda>w. unused_id sid (uw_bridge w)}" "P w" for P d x p
    using that by (auto simp: server_env_def)
  show "has_file sid bytes (uw_bridge (snd (fetchImpl (server_env route admits archive_ok) r w)))"
    if "has_file sid bytes (uw_bridge w)" for r
    using that serve_has_file by (intro keeps_fetch [where P = "has_file sid bytes"])
  show "?keeps (snd (fetchImpl (server_env route admits archive_ok) (session_request ''GET'' url tok) w))" if "?keeps w"
    using that serve_get [OF routes _ refl] by (intro keeps_fetch [where P = "holds_file tid sid bytes"]) auto
  show "?keeps (snd (fetchImpl (server_env route admits archive_ok) (session_request ''POST'' (url @ js ''/complete'') tok) w))"
    if "?keeps w"
    using that serve_complete [OF routes _ refl] by (intro keeps_fetch [where P = "holds_file tid sid bytes"]) auto
  show "?keeps (snd (fetchImpl (server_env route admits archive_ok) (put_request opts url) w))"
    if "?keeps w" "part_of tid (int UPLOAD_CHUNK_SIZE) bytes opts" for opts
    using that serve_put [OF routes _ that(2) refl] by (intro keeps_fetch [where P = "holds_file tid sid bytes"]) auto
  show "?keeps (snd (fetchImpl (server_env route admits archive_ok) (create_request base tok f path digest) w))"
    if "?keeps w" "unused_id sid (uw_bridge w)" "uf_size f = int (length bytes)" for f path digest
    using that serve_create [OF routes that refl] by (intro keeps_fetch [where P = "holds_file tid sid bytes"]) auto
  fix v w'
  show "of_session sid (int UPLOAD_CHUNK_SIZE) (int (chunk_count (length bytes))) v
      \<and> (completed v \<longrightarrow> has_file sid bytes (uw_bridge w'))"
    if "?keeps w" "fetchImpl (server_env route admits archive_ok) (session_request ''GET'' url tok) w = (Response 200 (Some v), w')"
    using serve_get [OF routes that(1) refl, of admits archive_ok tok] answer_fetch [OF that(2)] by (auto simp: good_view_def)
  show "has_file sid bytes (uw_bridge w')"
    if "?keeps w" "fetchImpl (server_env route admits archive_ok) (session_request ''POST'' (url @ js ''/complete'') tok) w
      = (Response 201 (Some v), w')"
    using serve_complete [OF routes that(1) refl, of admits archive_ok tok] answer_fetch [OF that(2)] by auto
  show "of_session sid (int UPLOAD_CHUNK_SIZE) (int (chunk_count (length bytes))) v
      \<and> jint (int (po_index opts)) \<in> set (receivedIndices v) \<and> (completed v \<longrightarrow> has_file sid bytes (uw_bridge w'))"
    if "?keeps w" "part_of tid (int UPLOAD_CHUNK_SIZE) bytes opts"
      "fetchImpl (server_env route admits archive_ok) (put_request opts url) w = (Response 200 (Some v), w')" for opts
    using serve_put [OF routes that(1,2) refl, of admits archive_ok] answer_fetch [OF that(3)] by (auto simp: good_view_def)
  show "of_session sid (int UPLOAD_CHUNK_SIZE) (int (chunk_count (length bytes))) v
      \<and> (completed v \<longrightarrow> has_file sid bytes (uw_bridge w'))"
    if "?keeps w" "unused_id sid (uw_bridge w)" "uf_size f = int (length bytes)"
      "fetchImpl (server_env route admits archive_ok) (create_request base tok f path digest) w = (Response 201 (Some v), w')"
    for f path digest
    using serve_create [OF routes that(1,2,3) refl, of admits archive_ok tok path digest] answer_fetch [OF that(4)] by (auto simp: good_view_def)
qed

context bridge_routes begin

lemmas upload_outcome = up.upload_returns

end

section \<open>A routing table\<close>

text \<open>The templates of the upload routes, for identifiers that need no escape.\<close>

fun upload_path :: "jstr \<Rightarrow> jstr list \<Rightarrow> endpoint option" where
  "upload_path t [] = Some (Uploads t)"
| "upload_path t [u] = Some (Upload t u)"
| "upload_path t [u, x] = (if x = js ''complete'' then Some (UploadComplete t u) else None)"
| "upload_path t [u, x, n] = (if x = js ''chunks'' then Some (UploadChunk t u (read_dec n 0)) else None)"
| "upload_path t _ = None"

definition plain_route :: "jstr \<Rightarrow> endpoint option" where
  "plain_route url =
     (case split_on 47 url of
        e # a # c # h # t # k # rest \<Rightarrow>
          if e = [] \<and> a = js ''api'' \<and> c = js ''codex_bridge'' \<and> h = js ''threads'' \<and> k = js ''uploads''
          then upload_path t rest else None
      | _ \<Rightarrow> None)"

lemma split_on_append: "split_on c (s @ c # t) = split_on c s @ split_on c t"
  by (induction s) auto

lemma split_sample:
  "split_on 47 (js ''/api/codex_bridge/threads/t1/uploads'')
     = [[], js ''api'', js ''codex_bridge'', js ''threads'', js ''t1'', js ''uploads'']"
proof -
  let ?p = "[[], js ''api'', js ''codex_bridge'', js ''threads'', js ''t1'', js ''uploads'']"
  have "js ''/api/codex_bridge/threads/t1/uploads'' = join_with [47] ?p" by (simp add: js_def)
  moreover have "\<forall>x\<in>set ?p. 47 \<notin> set x" by (simp add: js_def)
  ultimately show ?thesis using split_join [of ?p 47] by simp
qed

lemma plain_route_sample:
  "plain_route (js ''/api/codex_bridge/threads/t1/uploads'') = Some (Uploads (js ''t1''))"
  "plain_route (js ''/api/codex_bridge/threads/t1/uploads'' @ 47 # s) = upload_path (js ''t1'') (split_on 47 s)"
  by (simp_all add: plain_route_def split_on_append split_sample)

lemma sample_routes:
  "routes_to plain_route (js ''t1'') (js ''u1'') (js ''/api/codex_bridge/threads/t1/uploads'')
     (js ''/api/codex_bridge/threads/t1/uploads'' @ 47 # js ''u1'')"
proof -
  have d: "split_on 47 (dec_nat i) = [dec_nat i]" for i
    using dec_nat_digits [of i] by (intro split_on_id) (auto simp: list_all_iff is_digit_def)
  have u: "split_on 47 (js ''u1'') = [js ''u1'']" "split_on 47 (js ''chunks'') = [js ''chunks'']"
      "split_on 47 (js ''complete'') = [js ''complete'']"
    by (simp_all add: js_def split_on_id)
  have c: "js ''/chunks/'' @ s = 47 # js ''chunks'' @ 47 # s" "js ''/complete'' = 47 # js ''complete''" for s
    by (simp_all add: js_def)
  have addr: "uploadUrl (js ''t1'') (JStr (js ''u1'')) = Inr (js ''/api/codex_bridge/threads/t1/uploads'' @ 47 # js ''u1'')"
      "uploadUrl (js ''t1'') JNull = Inr (js ''/api/codex_bridge/threads/t1/uploads'')"
    by (simp_all add: uploadUrl_def encodeURIComponent_def js_def encode_char_def uri_unreserved_def is_alpha_def
        is_digit_def is_high_def validateIdentifier_def containsControl_def is_control_def)
  have "plain_route ((js ''/api/codex_bridge/threads/t1/uploads'' @ 47 # js ''u1'') @ 47 # s)
      = upload_path (js ''t1'') (js ''u1'' # split_on 47 s)" for s
    using plain_route_sample(2) [of "js ''u1'' @ 47 # s"] by (simp add: split_on_append u)
  then show ?thesis
    unfolding routes_to_def c by (simp add: addr plain_route_sample split_on_append u d read_dec_nat)
qed

definition sample_admits :: "jsval \<Rightarrow> jstr option" where
  "sample_admits body = (if is_string (dot body ''relative_path'') then Some (as_string (dot body ''relative_path'')) else None)"

interpretation sample: bridge_routes plain_route sample_admits "\<lambda>_. True" "js ''t1''" "js ''u1''"
  "js ''/api/codex_bridge/threads/t1/uploads''" "js ''/api/codex_bridge/threads/t1/uploads'' @ 47 # js ''u1''"
  by unfold_locales (rule sample_routes)


definition sample_bridge :: bridge where
  "sample_bridge = \<lparr>br_threads = [js ''t1''], br_ids = (\<lambda>_. js ''u1''), br_created = 0, br_uploads = (\<lambda>_. None),
     br_attachments = (\<lambda>_. None)\<rparr>"

definition sample_file :: js_file where
  "sample_file = \<lparr>file_name = jlit ''a.txt'', file_size = jint 3, file_type = jlit ''text/plain'', file_has_slice = True,
     file_bytes = [97, 98, 99]\<rparr>"

section \<open>Correctness\<close>

text \<open>
  C3: The upload against the service, with any loss of requests and answers, any error
  answered on the way and an abort at any point: the operation always returns, the service
  never holds anything but parts of this file under the session, and an outcome that is
  not an error means that the attachment's content is the content of the file.
\<close>

theorem upload_reaches_bridge:
  assumes "routes_to route tid sid base url" "file_size f = jint (int (length (file_bytes f)))"
    and "holds_file tid sid (file_bytes f) (uw_bridge w)"
    and "truthy uploadId \<Longrightarrow> uploadId = JStr sid" "\<not> truthy uploadId \<Longrightarrow> unused_id sid (uw_bridge w)"
  shows "\<exists>r w'. uploadResumableFile (server_env route admits archive_ok) (Some f) (JStr tid) relativePath uploadId
        accessToken maxAttempts retryDelay w = Some (r, w')
    \<and> holds_file tid sid (file_bytes f) (uw_bridge w')
    \<and> (\<forall>x. r = Inr x \<longrightarrow> br_attachments (uw_bridge w') sid = Some (file_bytes f))"
  using bridge_routes.upload_outcome [OF bridge_routes.intro [OF assms(1)] refl assms(2,4,3,5)]
  by (simp add: has_file_def)


theorem upload_reaches_bridge_witness:
  "\<exists>r w'. uploadResumableFile (server_env plain_route sample_admits (\<lambda>_. True)) (Some sample_file) (JStr (js ''t1''))
        JUndefined JUndefined JUndefined (jint 3) (Fin 250)
        \<lparr>uw_bridge = sample_bridge, uw_faults = [AnswerLost, Served, Refused 503, RequestLost], uw_aborted = False,
         uw_progress = []\<rparr> = Some (r, w')
    \<and> holds_file (js ''t1'') (js ''u1'') (file_bytes sample_file) (uw_bridge w')
    \<and> (\<forall>x. r = Inr x \<longrightarrow> br_attachments (uw_bridge w') (js ''u1'') = Some (file_bytes sample_file))"
  by (rule upload_reaches_bridge [OF sample_routes])
    (simp_all add: sample_file_def sample_bridge_def unused_id_def holds_file_def)

end
