(* ===== verification/UploadDelivery.thy ===== *)
theory UploadDelivery
  imports UploadServer
begin

text \<open>
  The upload over a network that loses nothing: the service admits the file, every request
  is served, and the operation ends with the whole file published. With the theorem for
  arbitrary faults this says that the client and the service agree on the protocol.
\<close>

section \<open>A reliable network\<close>

definition direct_env ::
  "(jstr \<Rightarrow> endpoint option) \<Rightarrow> (jsval \<Rightarrow> jstr option) \<Rightarrow> (byte list \<Rightarrow> bool) \<Rightarrow> bridge upload_env" where
  "direct_env route admits archive_ok =
     \<lparr>fetchImpl = (\<lambda>r b. case serve route admits archive_ok r b of ((st, body), b') \<Rightarrow> (Response st body, b')),
      signal_aborted = (\<lambda>b. False), timer = (\<lambda>d b. (True, b)), arrayBuffer = (\<lambda>blob b. (Inr blob, b)),
      onProgress = (\<lambda>p b. (Inr (), b))\<rparr>"

lemma direct_calm: "calm (direct_env route admits archive_ok) (\<lambda>b. b)"
  by (simp add: calm_def direct_env_def)

lemma direct_report: "report (direct_env route admits archive_ok) n st k u b = (Inr (), b)"
  by (simp add: report_def direct_env_def io_defs)

lemma direct_hash:
  "1 \<le> c \<Longrightarrow> c \<le> UPLOAD_CHUNK_BYTES \<Longrightarrow>
     sha256File (direct_env route admits archive_ok) (int (length bytes)) bytes c b = (Inr (sha256_hex bytes), b)"
  by (metis sha256File_calm [OF direct_calm])

lemma direct_abort: "throwIfAborted (direct_env route admits archive_ok) b = (Inr (), b)"
  by (rule calm_abort [OF direct_calm])

lemma direct_request:
  assumes "serve route admits archive_ok r b = ((st, Some v), b')" "st \<in> set sts"
  shows "requestJson (direct_env route admits archive_ok) r sts b = (Inr v, b')"
  using assms by (simp add: requestJson_def direct_env_def io_defs throwIfAborted_def)

section \<open>The session while the file is sent\<close>

definition stored :: "jstr \<Rightarrow> jstr \<Rightarrow> upload_file \<Rightarrow> jstr \<Rightarrow> nat \<Rightarrow> upload_record" where
  "stored tid sid f path n =
     \<lparr>ur_id = sid, ur_thread = tid, ur_filename = JStr (uf_name f),
      ur_mime = js_or (uf_type f) (jlit ''application/octet-stream''), ur_path = path,
      ur_size = length (uf_bytes f), ur_sha = sha256_hex (uf_bytes f),
      ur_chunks = map (file_part (uf_bytes f)) [0..<n], ur_status = ''active''\<rparr>"

lemma stored_fields [simp]:
  "ur_id (stored tid sid f path n) = sid" "ur_thread (stored tid sid f path n) = tid"
  "ur_size (stored tid sid f path n) = length (uf_bytes f)" "ur_sha (stored tid sid f path n) = sha256_hex (uf_bytes f)"
  "ur_chunks (stored tid sid f path n) = map (file_part (uf_bytes f)) [0..<n]" "ur_status (stored tid sid f path n) = ''active''"
  by (simp_all add: stored_def)

lemma stored_grows:
  "(stored tid sid f path n)\<lparr>ur_chunks := map (file_part (uf_bytes f)) [0..<n] @ [file_part (uf_bytes f) n]\<rparr>
     = stored tid sid f path (Suc n)"
  by (simp add: stored_def)

lemma part_length: "length (file_part bytes n) = min UPLOAD_CHUNK_SIZE (length bytes - n * UPLOAD_CHUNK_SIZE)"
  by (simp add: file_part_def min.commute)

lemma part_inside: "n < chunk_count k \<Longrightarrow> n * UPLOAD_CHUNK_SIZE < k"
proof -
  assume "n < chunk_count k"
  then have "Suc n * UPLOAD_CHUNK_SIZE \<le> k + UPLOAD_CHUNK_SIZE - 1"
    unfolding chunk_count_def using chunk_size_pos less_eq_div_iff_mult_less_eq Suc_le_eq by metis
  then show ?thesis using chunk_size_pos by simp
qed

lemma chunk_count_le: "chunk_count k \<le> k"
proof (cases "k = 0")
  case True
  then show ?thesis using chunk_size_pos by (simp add: chunk_count_def)
next
  case False
  have "chunk_count k - 1 < k" if "0 < chunk_count k"
    using part_inside [of "chunk_count k - 1" k] that chunk_size_pos
    by (metis One_nat_def Suc_leI diff_Suc_less le_less_trans mult.right_neutral mult_le_mono2 not_less)
  then show ?thesis by (cases "chunk_count k") simp_all
qed

lemma chunk_count_pos: "0 < k \<Longrightarrow> 0 < chunk_count k"
  unfolding chunk_count_def using chunk_size_pos by (simp add: div_greater_zero_iff)

lemma view_size: "dot (upload_view u) ''size_bytes'' = jint (int (ur_size u))"
  by (simp add: upload_view_def dot_JObj obj_get_def)

lemma sha256_hex_valid: "valid_sha256 (sha256_hex m)"
  using hexDigest_shape [of "[m]", unfolded incremental_digest] by (auto simp: valid_sha256_def list_all_iff)

text \<open>The views of these sessions pass the client's checks.\<close>

lemma stored_view_ok:
  assumes "sid \<noteq> []" "uf_bytes f \<noteq> []" "int (length (uf_bytes f)) \<le> MAX_SAFE" "n \<le> chunk_count (length (uf_bytes f))"
  shows "session_ok (upload_view (stored tid sid f path n)) (Some (int (length (uf_bytes f)))) n"
proof -
  let ?k = "int (chunk_count (length (uf_bytes f)))"
  have "1 \<le> ?k" "?k \<le> MAX_SAFE" "int n \<le> ?k"
    using assms chunk_count_pos [of "length (uf_bytes f)"] chunk_count_le [of "length (uf_bytes f)"] by simp_all linarith?
  then have "\<exists>t. jint ?k = jint t \<and> 1 \<le> t \<and> t \<le> MAX_SAFE \<and> int n \<le> t" by blast
  moreover have "is_record (upload_view u)" for u by (simp add: upload_view_def)
  moreover have "int UPLOAD_CHUNK_SIZE = UPLOAD_CHUNK_BYTES" "1 \<le> UPLOAD_CHUNK_BYTES"
    by (simp_all add: UPLOAD_CHUNK_BYTES_def UPLOAD_CHUNK_SIZE_def)
  ultimately show ?thesis
    unfolding session_ok_def upload_view_fields view_size stored_fields using assms(1)
    by (auto simp: session_statuses_def simp del: of_int_of_nat_eq)
qed

lemma stored_view_valid:
  assumes "sid \<noteq> []" "uf_bytes f \<noteq> []" "int (length (uf_bytes f)) \<le> MAX_SAFE" "n \<le> chunk_count (length (uf_bytes f))"
  shows "validateSession (upload_view (stored tid sid f path n)) (Some (int (length (uf_bytes f))))
    = Inr (upload_view (stored tid sid f path n))"
  using stored_view_ok [OF assms] validateSession_Inr by blast


section \<open>The steps\<close>

text \<open>The service while the first \<open>n\<close> chunks are stored.\<close>

definition sending :: "bridge \<Rightarrow> jstr \<Rightarrow> jstr \<Rightarrow> upload_file \<Rightarrow> jstr \<Rightarrow> nat \<Rightarrow> bridge" where
  "sending b tid sid f path n = b\<lparr>br_uploads := (br_uploads b)(sid \<mapsto> stored tid sid f path n)\<rparr>"

lemma put_accepted:
  assumes "n < chunk_count (length (uf_bytes f))"
  shows "put_upload_chunk n (int (n * UPLOAD_CHUNK_SIZE)) (sha256_hex (file_part (uf_bytes f) n)) (file_part (uf_bytes f) n)
      (stored tid sid f path n)
    = ((200, Some (upload_view (stored tid sid f path (Suc n)))), stored tid sid f path (Suc n))"
  using assms by (simp add: put_upload_chunk_def part_length sha256_hex_valid stored_grows Let_def del: upt_Suc)

lemma header_int_dec:
  assumes "map_of headers name = Some (dec_int (int m))"
  shows "header_int headers name = Some (int m)"
proof -
  obtain u us where d: "dec_nat m = u # us" by (cases "dec_nat m") auto
  have digits: "list_all is_digit (u # us)" using dec_nat_digits [of m] by (simp add: d)
  then have "split_on 95 (u # us) = [u # us]" by (intro split_on_id) (auto simp: list_all_iff is_digit_def)
  moreover have "u \<noteq> 45" "u \<noteq> 43" using digits by (auto simp: is_digit_def)
  ultimately have "python_int (dec_nat m) = Some (int m)"
    using digits read_dec_nat [of m] by (simp add: python_int_def d starts_with_def Let_def)
  then show ?thesis using assms by (simp add: header_int_def dec_int_def)
qed

lemma direct_put:
  assumes r: "routes_to route tid sid base url" and t: "tid \<in> set (br_threads b)"
    and n: "n < chunk_count (length (uf_bytes f))"
    and o: "po_index opts = n" "po_offset opts = int (n * UPLOAD_CHUNK_SIZE)" "po_chunk opts = file_part (uf_bytes f) n"
      "po_digest opts = sha256_hex (file_part (uf_bytes f) n)"
  shows "requestJson (direct_env route admits archive_ok) (put_request opts url) [200] (sending b tid sid f path n)
    = (Inr (upload_view (stored tid sid f path (Suc n))), sending b tid sid f path (Suc n))"
proof (rule direct_request)
  have "header_int (req_headers (put_request opts url)) ''Upload-Offset'' = Some (int (n * UPLOAD_CHUNK_SIZE))"
    by (rule header_int_dec) (simp add: put_request_def authorizationHeaders_def o)
  moreover have "map_of (req_headers (put_request opts url)) ''X-Chunk-SHA256'' = Some (sha256_hex (file_part (uf_bytes f) n))"
    by (simp add: put_request_def authorizationHeaders_def o)
  ultimately show "serve route admits archive_ok (put_request opts url) (sending b tid sid f path n)
    = ((200, Some (upload_view (stored tid sid f path (Suc n)))), sending b tid sid f path (Suc n))"
    using r t put_accepted [OF n] by (simp add: serve_def routes_to_def put_request_def o with_upload_def sending_def raw_body_def)
qed simp


text \<open>A file that the client accepts, and the facts the steps share about it.\<close>

definition sendable :: "jstr \<Rightarrow> jstr \<Rightarrow> upload_args \<Rightarrow> bool" where
  "sendable tid sid a \<longleftrightarrow> ua_threadId a = tid \<and> sid \<noteq> [] \<and> uf_bytes (ua_file a) \<noteq> []
     \<and> uf_size (ua_file a) = int (length (uf_bytes (ua_file a))) \<and> int (length (uf_bytes (ua_file a))) \<le> MAX_SAFE"

lemma stored_firstMissing: "firstMissingIndex (upload_view (stored tid sid f path n)) = n"
  by (simp add: firstMissingIndex_def view_received)

lemma direct_chunk:
  assumes r: "routes_to route tid sid base url" and t: "tid \<in> set (br_threads b)" and a: "sendable tid sid a"
    and n: "n < chunk_count (length (uf_bytes (ua_file a)))"
  shows "uploadChunk (direct_env route admits archive_ok) a (upload_view (stored tid sid (ua_file a) path n))
      (sending b tid sid (ua_file a) path n)
    = (Inr (upload_view (stored tid sid (ua_file a) path (Suc n))), sending b tid sid (ua_file a) path (Suc n))"
proof -
  let ?f = "ua_file a" and ?env = "direct_env route admits archive_ok"
  let ?v = "\<lambda>n. upload_view (stored tid sid ?f path n)" and ?b = "\<lambda>n. sending b tid sid ?f path n"
  let ?c = "file_part (uf_bytes ?f) n" and ?off = "int n * int UPLOAD_CHUNK_SIZE"
  have size: "uf_size ?f = int (length (uf_bytes ?f))" "ua_threadId a = tid" using a by (simp_all add: sendable_def)
  have cs: "chunk_size (?v n) = int UPLOAD_CHUNK_SIZE" for n by (simp add: chunk_size_def upload_view_fields)
  have slice: "blob_slice (uf_bytes ?f) ?off (min (int (length (uf_bytes ?f))) (?off + int UPLOAD_CHUNK_SIZE)) = ?c"
    by (rule slice_part) simp
  have len: "1 \<le> int (length ?c)" using part_inside [OF n] chunk_size_pos by (simp add: part_length)
  have hash: "sha256File ?env (int (length ?c)) ?c (min (int (length ?c)) UPLOAD_CHUNK_BYTES) (?b n) = (Inr (sha256_hex ?c), ?b n)"
    using len by (intro direct_hash) (simp_all add: UPLOAD_CHUNK_BYTES_def)
  let ?opts = "\<lparr>po_threadId = tid, po_index = n, po_offset = ?off, po_chunk = ?c, po_digest = sha256_hex ?c,
    po_accessToken = ua_accessToken a, po_retryDelay = ua_retryDelay a, po_fileSize = int (length (uf_bytes ?f))\<rparr>"
  have addr: "uploadUrl tid (JStr sid) = Inr url" using r by (simp add: routes_to_def)
  have req: "requestJson ?env (put_request ?opts url) [200] (?b n) = (Inr (?v (Suc n)), ?b (Suc n))"
    by (rule direct_put [OF r t n]) simp_all
  have valid: "validateSession (?v (Suc n)) (Some (int (length (uf_bytes ?f)))) = Inr (?v (Suc n))"
    using a n by (intro stored_view_valid) (simp_all add: sendable_def)
  have "put_once ?env ?opts (?v n) (?b n) = (Inr (?v (Suc n)), ?b (Suc n))"
    by (simp add: put_once_def upload_view_fields addr io_bind_lift_Inr io_bind_Inr req valid io_lift_def)
  then have "putChunkWithReconcile ?env ?opts k (?v n) (?b n) = (Inr (?v (Suc n)), ?b (Suc n))" for k
    by (simp add: putChunkWithReconcile_def put_attempts.simps [of _ _ k] io_then_Inr direct_abort io_catch_def)
  then show ?thesis
    unfolding uploadChunk_def Let_def stored_firstMissing cs size slice
    by (simp add: io_bind_Inr hash io_then_Inr direct_report io_bind_Inr io_return_def)
qed

lemma direct_loop:
  assumes r: "routes_to route tid sid base url" and t: "tid \<in> set (br_threads b)" and a: "sendable tid sid a"
  defines "N \<equiv> chunk_count (length (uf_bytes (ua_file a)))"
  assumes n: "n \<le> N"
  shows "uploadLoop (direct_env route admits archive_ok) a (upload_view (stored tid sid (ua_file a) path n))
      (sending b tid sid (ua_file a) path n)
    = Some (Inr (upload_view (stored tid sid (ua_file a) path N)), sending b tid sid (ua_file a) path N)"
  using n
proof (induction "N - n" arbitrary: n)
  case 0
  then show ?case by (subst uploadLoop.simps) (simp add: stored_firstMissing upload_view_fields N_def)
next
  case (Suc m)
  then have "n < N" "m = N - Suc n" "Suc n \<le> N" by simp_all
  with direct_chunk [OF r t a, of n] Suc.hyps(1) [of "Suc n"] show ?case
    by (subst uploadLoop.simps) (simp add: stored_firstMissing upload_view_fields N_def)
qed

lemma direct_finish:
  assumes r: "routes_to route tid sid base url" and t: "tid \<in> set (br_threads b)" and a: "sendable tid sid a"
    and ok: "archive_ok (uf_bytes (ua_file a))" and new: "br_attachments b sid = None"
  defines "N \<equiv> chunk_count (length (uf_bytes (ua_file a)))"
  shows "\<exists>x b'. finishUpload (direct_env route admits archive_ok) a (upload_view (stored tid sid (ua_file a) path N))
      (sending b tid sid (ua_file a) path N) = (Inr x, b') \<and> br_attachments b' sid = Some (uf_bytes (ua_file a))"
proof -
  let ?f = "ua_file a" and ?env = "direct_env route admits archive_ok"
  let ?u = "stored tid sid ?f path N" and ?b = "sending b tid sid ?f path N"
  let ?b' = "?b\<lparr>br_uploads := (br_uploads ?b)(sid \<mapsto> ?u\<lparr>ur_status := ''completed''\<rparr>),
    br_attachments := (br_attachments ?b)(sid := Some (uf_bytes ?f))\<rparr>"
  have "complete_upload_session archive_ok None ?u
      = ((201, Some (attachment_view ?u)), Some (uf_bytes ?f), ?u\<lparr>ur_status := ''completed''\<rparr>)"
    using ok by (simp add: complete_upload_session_def N_def concat_parts Let_def)
  then have "serve route admits archive_ok (session_request ''POST'' (url @ js ''/complete'') (ua_accessToken a)) ?b
      = ((201, Some (attachment_view ?u)), ?b')"
    using r t new by (simp add: serve_def routes_to_def session_request_def with_upload_def sending_def)
  then have req: "requestJson ?env (session_request ''POST'' (url @ js ''/complete'') (ua_accessToken a)) [201] ?b
      = (Inr (attachment_view ?u), ?b')"
    by (rule direct_request) simp
  have "uploadUrl tid (JStr sid) = Inr url" "ua_threadId a = tid" using r a by (simp_all add: routes_to_def sendable_def)
  then have "publish ?env a (upload_view ?u) ?b = (Inr (upload_view ?u, attachment_view ?u), ?b')"
    by (simp add: publish_def upload_view_fields io_bind_lift_Inr io_bind_Inr req io_catch_def io_return_def)
  then have "\<exists>x. finishUpload ?env a (upload_view ?u) ?b = (Inr x, ?b')"
    by (simp add: finishUpload_def upload_view_fields io_bind_Inr completed_outcome_def io_then_Inr direct_report io_return_def)
  then show ?thesis by force
qed

lemma direct_open:
  assumes r: "routes_to route tid sid base url" and t: "tid \<in> set (br_threads b)" and a: "sendable tid sid a"
    and new: "unused_id sid b" and ok: "admits (create_body (ua_file a) path (sha256_hex (uf_bytes (ua_file a)))) = Some p"
    and u: "\<not> truthy uid"
  shows "openSession (direct_env route admits archive_ok) a path uid b
    = (Inr (upload_view (stored tid sid (ua_file a) p 0)),
       sending (b\<lparr>br_created := Suc (br_created b)\<rparr>) tid sid (ua_file a) p 0)"
proof -
  let ?f = "ua_file a" and ?env = "direct_env route admits archive_ok"
  let ?d = "sha256_hex (uf_bytes ?f)" and ?u = "stored tid sid (ua_file a) p 0"
  let ?b' = "sending (b\<lparr>br_created := Suc (br_created b)\<rparr>) tid sid ?f p 0"
  have size: "uf_size ?f = int (length (uf_bytes ?f))" "ua_threadId a = tid" using a by (simp_all add: sendable_def)
  have n: "0 < length (uf_bytes ?f)" "int (length (uf_bytes ?f)) \<le> MAX_SAFE" using a by (auto simp: sendable_def)
  have fields: "dot (create_body ?f path ?d) ''size_bytes'' = jint (int (length (uf_bytes ?f)))"
      "dot (create_body ?f path ?d) ''sha256'' = JStr ?d" "dot (create_body ?f path ?d) ''filename'' = JStr (uf_name ?f)"
      "dot (create_body ?f path ?d) ''mime_type'' = js_or (uf_type ?f) (jlit ''application/octet-stream'')"
      "dot (create_body ?f path ?d) ''relative_path'' = JStr path"
    by (simp_all add: create_body_def dot_JObj obj_get_def size)
  have "is_integral (of_int (int (length (uf_bytes ?f))))" by (simp only: is_integral_of_int)
  then have "create_upload_session admits tid sid (create_body ?f path ?d) = ((201, Some (upload_view ?u)), Some ?u)"
    using ok n by (simp add: create_upload_session_def fields sha256_hex_valid stored_def Let_def)
  then have "serve route admits archive_ok (create_request base (ua_accessToken a) ?f path ?d) b
      = ((201, Some (upload_view ?u)), ?b')"
    using r t new by (simp add: serve_def routes_to_def create_request_def unused_id_def sending_def)
  then have req: "requestJson ?env (create_request base (ua_accessToken a) ?f path ?d) [201] b = (Inr (upload_view ?u), ?b')"
    by (rule direct_request) simp
  have "uploadUrl tid JNull = Inr base" using r by (simp add: routes_to_def)
  then have create: "createSession ?env a path ?d b = (Inr (upload_view ?u), ?b')"
    using req by (simp add: createSession_def size io_bind_lift_Inr create_request_def)
  have hash: "sha256File ?env (int (length (uf_bytes ?f))) (uf_bytes ?f) UPLOAD_CHUNK_BYTES b = (Inr ?d, b)"
    by (rule direct_hash) (simp_all add: UPLOAD_CHUNK_BYTES_def)
  have valid: "validateSession (upload_view ?u) (Some (int (length (uf_bytes ?f)))) = Inr (upload_view ?u)"
    using a by (intro stored_view_valid) (simp_all add: sendable_def)
  show ?thesis
    unfolding openSession_def Let_def size
    by (simp add: io_then_Inr direct_report io_bind_Inr hash io_then_Inr direct_abort u
        io_bind_Inr create valid io_lift_def)
qed

section \<open>Correctness\<close>

text \<open>
  C4: When no request is lost, the arguments are valid, the chat exists and the service
  admits the file, the upload of a new file succeeds, and the service then holds exactly
  the bytes of the file.
\<close>

theorem upload_delivers:
  assumes "routes_to route tid sid base url" "sid \<noteq> []"
    and "upload_arguments (Some f) (JStr tid) relativePath accessToken maxAttempts retryDelay = Inr (a, path)"
    and "file_size f = jint (int (length (file_bytes f)))" "\<not> truthy uploadId"
    and "tid \<in> set (br_threads b)" "unused_id sid b"
    and "admits (create_body (ua_file a) path (sha256_hex (file_bytes f))) \<noteq> None" "archive_ok (file_bytes f)"
  shows "\<exists>x b'. uploadResumableFile (direct_env route admits archive_ok) (Some f) (JStr tid) relativePath uploadId
        accessToken maxAttempts retryDelay b = Some (Inr x, b')
    \<and> br_attachments b' sid = Some (file_bytes f)"
proof -
  have a: "sendable tid sid a" "uf_bytes (ua_file a) = file_bytes f"
    using assms(2-4) by (auto simp: upload_arguments_def sum_bind_Inr_iff validateFile_def validateIdentifier_def
        Let_def sendable_def split: if_splits)
  let ?b = "b\<lparr>br_created := Suc (br_created b)\<rparr>" and ?N = "chunk_count (length (uf_bytes (ua_file a)))"
  have t: "tid \<in> set (br_threads ?b)" "br_attachments ?b sid = None" using assms(6,7) by (simp_all add: unused_id_def)
  obtain p where ok: "admits (create_body (ua_file a) path (sha256_hex (uf_bytes (ua_file a)))) = Some p"
      "archive_ok (uf_bytes (ua_file a))"
    using assms(8,9) a(2) by auto
  note o = direct_open [where admits = admits and archive_ok = archive_ok, OF assms(1,6) a(1) assms(7) ok(1) assms(5)]
  note l = direct_loop [where n = 0, OF assms(1) t(1) a(1)]
  have fin: "\<exists>x b'. finishUpload (direct_env route admits archive_ok) a (upload_view (stored tid sid (ua_file a) p ?N))
      (sending ?b tid sid (ua_file a) p ?N) = (Inr x, b') \<and> br_attachments b' sid = Some (file_bytes f)"
    using direct_finish [where archive_ok = archive_ok, OF assms(1) t(1) a(1) ok(2) t(2)] a(2) by simp
  show ?thesis
    using fin by (simp add: uploadResumableFile_def assms(3) o l upload_view_fields)
qed


theorem upload_delivers_witness:
  "\<exists>x b'. uploadResumableFile (direct_env plain_route sample_admits (\<lambda>_. True)) (Some sample_file) (jlit ''t1'')
      JUndefined JUndefined JUndefined (jint 3) (Fin 250) sample_bridge = Some (Inr x, b')
    \<and> br_attachments b' (js ''u1'') = Some (file_bytes sample_file)"
proof -
  let ?f = "\<lparr>uf_name = js ''a.txt'', uf_size = 3, uf_type = jlit ''text/plain'', uf_bytes = file_bytes sample_file\<rparr>"
  let ?a = "\<lparr>ua_threadId = js ''t1'', ua_accessToken = JUndefined, ua_retryAttempts = 3, ua_retryDelay = Fin 250, ua_file = ?f\<rparr>"
  have ua: "upload_arguments (Some sample_file) (JStr (js ''t1'')) JUndefined JUndefined (jint 3) (Fin 250) = Inr (?a, js ''a.txt'')"
    by (simp add: upload_arguments_def validateFile_def validateIdentifier_def normaliseRelativePath_def containsControl_iff
        is_control_def js_def sample_file_def slashes_def starts_with_def drive_prefix_def bad_part_def MAX_SAFE_def
        js_coalesce_def nullish_def is_alpha_def)
  show ?thesis
    by (rule upload_delivers [OF sample_routes _ ua])
      (simp_all add: sample_file_def sample_bridge_def unused_id_def js_def sample_admits_def create_body_def dot_JObj obj_get_def)
qed

end
