(* ===== verification/RunActivity.thy ===== *)
theory RunActivity
  imports JsValue
begin

text \<open>
  The run activity projection (\<open>src/frontend/src/run-activity.js\<close>): it turns a thread
  snapshot and its untrusted event history into the data the activity strip shows.
\<close>

section \<open>Constants\<close>

definition MAX_ACTION_TEXT :: nat where "MAX_ACTION_TEXT = 240"
definition MAX_HISTORY_ITEMS :: nat where "MAX_HISTORY_ITEMS = 8"
definition MAX_EVENTS :: nat where "MAX_EVENTS = 2000"
definition MAX_PLAN_STEPS :: nat where "MAX_PLAN_STEPS = 128"
definition MAX_PATCH_CHANGES :: nat where "MAX_PATCH_CHANGES = 2048"

definition BUSY_STATUSES :: "string list" where
  "BUSY_STATUSES = [''starting'', ''running'', ''cancelling'', ''in_progress'', ''inprogress'']"

definition TERMINAL_STATES :: "string list" where
  "TERMINAL_STATES = [''completed'', ''failed'', ''cancelled'', ''interrupted'']"

type_synonym labels = "(string \<times> string) list"

definition ITEM_LABELS :: labels where
  "ITEM_LABELS =
    [(''agentMessage'', ''Preparing a response''), (''commandExecution'', ''Running a command''),
     (''contextCompaction'', ''Compacting context''), (''collabAgentToolCall'', ''Delegating to an agent''),
     (''dynamicToolCall'', ''Calling a tool''), (''fileChange'', ''Applying file changes''),
     (''imageGeneration'', ''Generating an image''), (''imageView'', ''Viewing an image''),
     (''mcpToolCall'', ''Calling an MCP tool''), (''plan'', ''Planning the work''),
     (''reasoning'', ''Thinking through the request''), (''sleep'', ''Waiting''),
     (''subAgentActivity'', ''Working with a sub-agent''), (''webSearch'', ''Searching the web'')]"

definition COMMAND_ACTION_LABELS :: labels where
  "COMMAND_ACTION_LABELS =
    [(''read'', ''Reading files''), (''listFiles'', ''Listing files''), (''search'', ''Searching files'')]"

definition WEB_ACTION_LABELS :: labels where
  "WEB_ACTION_LABELS =
    [(''search'', ''Searching the web''), (''openPage'', ''Opening a web page''),
     (''findInPage'', ''Finding text in a page''), (''other'', ''Using web search'')]"

definition FILE_CHANGE_LABELS :: labels where
  "FILE_CHANGE_LABELS =
    [(''add'', ''Adding files''), (''update'', ''Updating files''), (''delete'', ''Deleting files'')]"

definition COLLAB_OPERATION_LABELS :: labels where
  "COLLAB_OPERATION_LABELS =
    [(''spawnAgent'', ''Starting a sub-agent''), (''sendInput'', ''Steering a sub-agent''),
     (''resumeAgent'', ''Resuming a sub-agent''), (''wait'', ''Waiting for sub-agents''),
     (''closeAgent'', ''Closing a sub-agent'')]"

definition SUBAGENT_ACTIVITY_LABELS :: labels where
  "SUBAGENT_ACTIVITY_LABELS =
    [(''started'', ''Sub-agent started''), (''interacted'', ''Sub-agent active''),
     (''interrupted'', ''Sub-agent interrupted'')]"

definition AGENT_STATE_KEYS :: "string list" where
  "AGENT_STATE_KEYS = [''pendingInit'', ''running'', ''interrupted'', ''completed'', ''errored'',
     ''shutdown'', ''notFound'']"

text \<open>
  \<open>Object.hasOwn(table, v)\<close> and \<open>table[v]\<close> turn \<open>v\<close> into a property key with the
  conversion of \<open>String\<close>. No key of these tables is the print of a number, so the
  format of fractional numbers does not matter and is taken as the empty string.
\<close>

definition lookup_label :: "labels \<Rightarrow> jsval \<Rightarrow> string option" where
  "lookup_label table v =
     map_option snd (find (\<lambda>(k, l). js k = js_String (\<lambda>r. []) v) table)"

definition has_label :: "labels \<Rightarrow> jsval \<Rightarrow> bool" where
  "has_label table v \<longleftrightarrow> lookup_label table v \<noteq> None"

definition label_of :: "labels \<Rightarrow> jsval \<Rightarrow> jstr" where
  "label_of table v = (case lookup_label table v of Some l \<Rightarrow> js l | None \<Rightarrow> [])"

section \<open>Text\<close>

definition printable :: "nat \<Rightarrow> bool" where
  "printable cp \<longleftrightarrow> 32 \<le> cp \<and> cp \<noteq> 127"

definition blank_controls :: "jstr \<Rightarrow> jstr" where
  "blank_controls value =
     concat (map (\<lambda>c. if printable (codePointAt0 c) then c else [32]) (js_chars value))"

text \<open>The last character of a shortened text is the ellipsis U+2026.\<close>

definition safeText :: "jsval \<Rightarrow> nat \<Rightarrow> jstr" where
  "safeText value maximum =
     (if \<not> is_string value \<or> maximum < 1 then []
      else let normalized = js_trim (collapse_ws (blank_controls (as_string value))) in
        if length normalized > maximum then take (maximum - 1) normalized @ [0x2026] else normalized)"

definition safeChunk :: "jsval \<Rightarrow> nat \<Rightarrow> jstr" where
  "safeChunk value maximum =
     (if \<not> is_string value \<or> maximum < 1 then [] else take maximum (blank_controls (as_string value)))"

section \<open>Events and runs\<close>

definition eventPayload :: "jsval \<Rightarrow> jsval" where
  "eventPayload event = (if is_record (dot event ''payload'') then dot event ''payload'' else JObj [])"

definition valid_event :: "jsval \<Rightarrow> bool" where
  "valid_event event \<longleftrightarrow>
     is_record event \<and> is_safe_integer (dot event ''sequence'') \<and> to_int (dot event ''sequence'') > 0
     \<and> is_string (dot event ''event_type'') \<and> length (as_string (dot event ''event_type'')) \<le> 120
     \<and> is_record (dot event ''payload'')"

abbreviation seq_of :: "jsval \<Rightarrow> int" where
  "seq_of event \<equiv> to_int (dot event ''sequence'')"

definition normalizeRunEvents :: "jsval \<Rightarrow> jsval list" where
  "normalizeRunEvents events = slice_last MAX_EVENTS (sort_key seq_of (filter valid_event (as_list events)))"

definition type_is :: "string \<Rightarrow> jsval \<Rightarrow> bool" where
  "type_is t event \<longleftrightarrow> dot event ''event_type'' = jlit t"

definition run_id_of :: "jsval \<Rightarrow> jstr" where
  "run_id_of v = (if is_string v \<and> id_pattern 256 (as_string v) then as_string v else [])"

definition eventRunId :: "jsval \<Rightarrow> jstr" where
  "eventRunId event = run_id_of (dot (eventPayload event) ''run_id'')"

definition nonempty :: "jstr \<Rightarrow> jstr option" where
  "nonempty s = (if s = [] then None else Some s)"

definition str_or :: "jstr \<Rightarrow> jstr \<Rightarrow> jstr" where
  "str_or a b = (if a = [] then b else a)"

definition latestEventRunId :: "jsval list \<Rightarrow> jstr" where
  "latestEventRunId events = (case last_some (\<lambda>e. nonempty (eventRunId e)) events of Some r \<Rightarrow> r | None \<Rightarrow> [])"

definition eventBelongsToRun :: "jsval \<Rightarrow> jstr \<Rightarrow> bool" where
  "eventBelongsToRun event runId \<longleftrightarrow> runId = [] \<or> eventRunId event = [] \<or> eventRunId event = runId"

definition run_event_state :: "jsval \<Rightarrow> string option" where
  "run_event_state event =
     (if type_is ''run.completed'' event then Some ''completed''
      else if type_is ''run.failed'' event then Some ''failed''
      else if type_is ''run.cancelled'' event then Some ''cancelled''
      else if type_is ''run.interrupted'' event then Some ''interrupted''
      else if type_is ''run.started'' event \<or> type_is ''run.dequeued'' event then Some ''running''
      else if type_is ''run.queued'' event then Some ''queued''
      else None)"

definition runEventState :: "jsval list \<Rightarrow> jstr \<Rightarrow> string" where
  "runEventState events runId =
     (case last_some (\<lambda>e. if eventBelongsToRun e runId then run_event_state e else None) events of
        Some s \<Rightarrow> s | None \<Rightarrow> [])"

definition terminalEventState :: "jsval \<Rightarrow> jstr" where
  "terminalEventState eventType =
     (if \<not> is_string eventType \<or> \<not> starts_with (js ''run.'') (as_string eventType) then []
      else let state = drop 4 (as_string eventType) in
        if state \<in> set (map js TERMINAL_STATES) then state else [])"

definition latestTerminalRunId :: "jsval list \<Rightarrow> jstr" where
  "latestTerminalRunId events =
     (case last_some (\<lambda>e. if terminalEventState (dot e ''event_type'') = [] then None
                          else nonempty (eventRunId e)) events of Some r \<Rightarrow> r | None \<Rightarrow> [])"

definition latestLiveEventRunId :: "jsval list \<Rightarrow> jstr" where
  "latestLiveEventRunId events =
     (let runId = latestEventRunId events in
      if runId = [] then [] else if runEventState events runId \<in> set TERMINAL_STATES then [] else runId)"

section \<open>Plans\<close>

record plan_step =
  step_label :: jstr
  step_status :: string

record run_plan =
  plan_steps :: "plan_step list"
  plan_activeIndex :: "nat option"
  plan_completedCount :: nat
  plan_sourceSequence :: int

definition plan_status :: "jsval \<Rightarrow> string" where
  "plan_status v =
     (if v = jlit ''inProgress'' \<or> v = jlit ''in_progress'' then ''inProgress''
      else if v = jlit ''completed'' then ''completed''
      else if v = jlit ''pending'' then ''pending'' else [])"

definition plan_item :: "jsval \<Rightarrow> plan_step option" where
  "plan_item item =
     (if \<not> is_record item then None
      else let l = safeText (dot item ''step'') MAX_ACTION_TEXT; s = plan_status (dot item ''status'') in
        if l \<noteq> [] \<and> s \<noteq> [] then Some \<lparr>step_label = l, step_status = s\<rparr> else None)"

fun findIndex :: "('a \<Rightarrow> bool) \<Rightarrow> 'a list \<Rightarrow> nat option" where
  "findIndex P [] = None"
| "findIndex P (x # xs) = (if P x then Some 0 else map_option Suc (findIndex P xs))"

definition count_status :: "string \<Rightarrow> plan_step list \<Rightarrow> nat" where
  "count_status st steps = length (filter (\<lambda>s. step_status s = st) steps)"

definition display_index :: "plan_step list \<Rightarrow> nat option" where
  "display_index steps =
     (case findIndex (\<lambda>s. step_status s = ''inProgress'') steps of
        Some i \<Rightarrow> Some i
      | None \<Rightarrow> (case findIndex (\<lambda>s. step_status s = ''pending'') steps of
          Some i \<Rightarrow> Some i
        | None \<Rightarrow> if steps = [] then None
            else Some (min (count_status ''completed'' steps) (length steps - 1))))"

definition plan_of_event :: "jstr \<Rightarrow> jsval \<Rightarrow> run_plan option" where
  "plan_of_event runId event =
     (if \<not> type_is ''plan.updated'' event \<or> \<not> eventBelongsToRun event runId
         \<or> \<not> is_array (dot (eventPayload event) ''plan'') then None
      else let steps = List.map_filter plan_item
                 (take MAX_PLAN_STEPS (as_list (dot (eventPayload event) ''plan''))) in
        Some \<lparr>plan_steps = steps, plan_activeIndex = display_index steps,
              plan_completedCount = count_status ''completed'' steps,
              plan_sourceSequence = seq_of event\<rparr>)"

definition currentPlan :: "jsval list \<Rightarrow> jstr \<Rightarrow> run_plan" where
  "currentPlan events runId =
     (case last_some (plan_of_event runId) events of Some p \<Rightarrow> p
      | None \<Rightarrow> \<lparr>plan_steps = [], plan_activeIndex = None, plan_completedCount = 0, plan_sourceSequence = 0\<rparr>)"

section \<open>Item labels\<close>

text \<open>\<open>[...new Set(xs)]\<close>: first occurrences, in order.\<close>

definition unique :: "'a list \<Rightarrow> 'a list" where
  "unique xs = rev (remdups (rev xs))"

definition joinActivityLabels :: "jstr list \<Rightarrow> jstr \<Rightarrow> jstr" where
  "joinActivityLabels labels fallback =
     (case filter (\<lambda>l. l \<noteq> []) (unique labels) of
        [] \<Rightarrow> fallback
      | [a] \<Rightarrow> a
      | [a, b] \<Rightarrow> a @ js '' and '' @ js_lower b
      | a # b # _ \<Rightarrow> a @ js '', '' @ js_lower b @ js '', and more'')"

definition itemLabel :: "jsval \<Rightarrow> jstr" where
  "itemLabel p =
     (let itemType = dot p ''item_type'' in
      if itemType = jlit ''collabAgentToolCall'' \<and> has_label COLLAB_OPERATION_LABELS (dot p ''operation'')
      then label_of COLLAB_OPERATION_LABELS (dot p ''operation'')
      else if itemType = jlit ''subAgentActivity'' \<and> has_label SUBAGENT_ACTIVITY_LABELS (dot p ''kind'')
      then label_of SUBAGENT_ACTIVITY_LABELS (dot p ''kind'')
      else if itemType = jlit ''commandExecution'' \<and> is_array (dot p ''action_types'')
      then joinActivityLabels
             (map (label_of COMMAND_ACTION_LABELS)
               (filter (has_label COMMAND_ACTION_LABELS) (take 3 (as_list (dot p ''action_types'')))))
             (label_of ITEM_LABELS itemType)
      else if itemType = jlit ''webSearch'' \<and> has_label WEB_ACTION_LABELS (dot p ''action_type'')
      then label_of WEB_ACTION_LABELS (dot p ''action_type'')
      else if itemType = jlit ''fileChange'' \<and> is_array (dot p ''change_kinds'')
      then joinActivityLabels
             (map (label_of FILE_CHANGE_LABELS)
               (filter (has_label FILE_CHANGE_LABELS) (take 3 (as_list (dot p ''change_kinds'')))))
             (label_of ITEM_LABELS itemType)
      else if is_string itemType \<and> has_label ITEM_LABELS itemType then label_of ITEM_LABELS itemType
      else js ''Working on the request'')"

record started_item =
  si_event :: jsval
  si_label :: jstr
  si_itemType :: jstr

text \<open>The backward scan of \<open>latestItemStart\<close>, on the reversed list.\<close>

fun item_start_scan :: "jstr \<Rightarrow> jsval set \<Rightarrow> jsval list \<Rightarrow> started_item option" where
  "item_start_scan runId completedItemIds [] = None"
| "item_start_scan runId completedItemIds (event # events) =
     (let p = eventPayload event; itemId = dot p ''item_id''; type = dot p ''item_type'' in
      if \<not> eventBelongsToRun event runId then item_start_scan runId completedItemIds events
      else if type_is ''item.completed'' event \<and> is_string itemId
      then item_start_scan runId (insert itemId completedItemIds) events
      else if \<not> type_is ''item.started'' event then item_start_scan runId completedItemIds events
      else if is_string type \<and> has_label ITEM_LABELS type
              \<and> \<not> (is_string itemId \<and> itemId \<in> completedItemIds)
      then Some \<lparr>si_event = event, si_label = itemLabel p, si_itemType = as_string type\<rparr>
      else item_start_scan runId completedItemIds events)"

definition latestItemStart :: "jsval list \<Rightarrow> jstr \<Rightarrow> started_item option" where
  "latestItemStart events runId = item_start_scan runId {} (rev events)"

section \<open>Sub-agents\<close>

record subagents =
  sa_counts :: "(string \<times> int) list"
  sa_total :: int
  sa_active :: int
  sa_completed :: int
  sa_attention :: int
  sa_label :: jstr

definition count_of :: "(string \<times> int) list \<Rightarrow> string \<Rightarrow> int" where
  "count_of counts k = (case map_of counts k of Some n \<Rightarrow> n | None \<Rightarrow> 0)"

definition agent_counts :: "jsval \<Rightarrow> (string \<times> int) list" where
  "agent_counts value =
     List.map_filter (\<lambda>state.
       let count = dot value state in
       if \<not> is_safe_integer count \<or> to_int count < 1 then None
       else Some (state, min (to_int count) 1000000)) AGENT_STATE_KEYS"

definition active_label :: "int \<Rightarrow> jstr list" where
  "active_label n = (if n \<noteq> 0 then [dec_int n @ js '' active''] else [])"

definition complete_label :: "int \<Rightarrow> jstr list" where
  "complete_label n = (if n \<noteq> 0 then [dec_int n @ js '' complete''] else [])"

definition attention_label :: "int \<Rightarrow> jstr list" where
  "attention_label n =
     (if n \<noteq> 0 then [dec_int n @ js '' need'' @ js (if n = 1 then ''s'' else []) @ js '' attention''] else [])"

definition middle_dot :: jstr where
  "middle_dot = [32, 0xB7, 32]"

definition safeAgentStateCounts :: "jsval \<Rightarrow> subagents option" where
  "safeAgentStateCounts value =
     (if \<not> is_record value then None
      else let counts = agent_counts value; total_count = sum_list (map snd counts) in
        if total_count = 0 then None
        else let active = count_of counts ''pendingInit'' + count_of counts ''running'';
                 completed = count_of counts ''completed'' + count_of counts ''shutdown'';
                 attention = count_of counts ''interrupted'' + count_of counts ''errored''
                   + count_of counts ''notFound'' in
          Some \<lparr>sa_counts = counts, sa_total = total_count, sa_active = active, sa_completed = completed,
                sa_attention = attention,
                sa_label = join_with middle_dot
                  (active_label active @ complete_label completed @ attention_label attention)\<rparr>)"

definition clearTerminalSubagentActivity :: "subagents option \<Rightarrow> subagents option" where
  "clearTerminalSubagentActivity snapshot =
     (case snapshot of None \<Rightarrow> None
      | Some s \<Rightarrow> if sa_active s = 0 then Some s
         else Some (s\<lparr>sa_counts := filter (\<lambda>(k, n). k \<noteq> ''pendingInit'' \<and> k \<noteq> ''running'') (sa_counts s),
                      sa_total := sa_completed s + sa_attention s, sa_active := 0,
                      sa_label := join_with middle_dot
                        (complete_label (sa_completed s) @ attention_label (sa_attention s))\<rparr>))"

definition snapshot_of_event :: "jstr \<Rightarrow> jsval \<Rightarrow> (subagents \<times> int) option" where
  "snapshot_of_event runId event =
     (if (if runId \<noteq> [] then eventRunId event \<noteq> runId else \<not> eventBelongsToRun event runId) then None
      else if dot (eventPayload event) ''item_type'' \<noteq> jlit ''collabAgentToolCall'' then None
      else map_option (\<lambda>s. (s, seq_of event))
             (safeAgentStateCounts (dot (eventPayload event) ''agent_state_counts'')))"

text \<open>The snapshot with the sequence number of its event (\<open>sourceSequence\<close>).\<close>

definition latestSubagentSnapshot :: "jsval list \<Rightarrow> jstr \<Rightarrow> (subagents \<times> int) option" where
  "latestSubagentSnapshot events runId = last_some (snapshot_of_event runId) events"

section \<open>Patches\<close>

record line_counts =
  lc_additions :: nat
  lc_deletions :: nat

fun count_diff_lines :: "jstr list \<Rightarrow> line_counts \<Rightarrow> line_counts" where
  "count_diff_lines [] c = c"
| "count_diff_lines (line # lines) c =
     (if starts_with (js ''+++'') line \<or> starts_with (js ''---'') line then count_diff_lines lines c
      else let c = (if starts_with (js ''+'') line then c\<lparr>lc_additions := lc_additions c + 1\<rparr> else c);
               c = (if starts_with (js ''-'') line then c\<lparr>lc_deletions := lc_deletions c + 1\<rparr> else c) in
        count_diff_lines lines c)"

definition diffLineCounts :: "jsval \<Rightarrow> line_counts" where
  "diffLineCounts diff =
     (if \<not> is_string diff then \<lparr>lc_additions = 0, lc_deletions = 0\<rparr>
      else count_diff_lines (split_on 10 (take 262144 (as_string diff))) \<lparr>lc_additions = 0, lc_deletions = 0\<rparr>)"

record patch_file =
  pf_kind :: string
  pf_counts :: line_counts

type_synonym patch_files = "(jstr \<times> patch_file) list"

fun files_set :: "patch_files \<Rightarrow> jstr \<Rightarrow> patch_file \<Rightarrow> patch_files" where
  "files_set [] k v = [(k, v)]"
| "files_set ((k', v') # m) k v = (if k' = k then (k, v) # m else (k', v') # files_set m k v)"

definition change_kind :: "jsval \<Rightarrow> string" where
  "change_kind v =
     (let kind = (if is_record v then dot v ''type'' else v) in
      if kind = jlit ''add'' then ''add'' else if kind = jlit ''delete'' then ''delete'' else ''update'')"

text \<open>The inner loop with its break, over the files map and the counter \<open>seen\<close>.\<close>

fun patch_changes :: "jsval list \<Rightarrow> patch_files \<times> nat \<Rightarrow> patch_files \<times> nat" where
  "patch_changes [] st = st"
| "patch_changes (change # changes) (files, seen) =
     (if seen \<ge> MAX_PATCH_CHANGES \<or> \<not> is_record change then (files, seen)
      else let path = safeText (dot change ''path'') 512 in
        if path = [] then patch_changes changes (files, seen + 1)
        else patch_changes changes
               (files_set files path
                 \<lparr>pf_kind = change_kind (dot change ''kind''), pf_counts = diffLineCounts (dot change ''diff'')\<rparr>,
                seen + 1))"

definition patch_event :: "jstr \<Rightarrow> patch_files \<times> nat \<Rightarrow> jsval \<Rightarrow> patch_files \<times> nat" where
  "patch_event runId st event =
     (if \<not> type_is ''patch.updated'' event \<or> \<not> eventBelongsToRun event runId then st
      else if \<not> is_array (dot (eventPayload event) ''changes'') then st
      else patch_changes (as_list (dot (eventPayload event) ''changes'')) st)"

record patch_totals =
  pt_changed :: nat
  pt_additions :: nat
  pt_deletions :: nat

definition patchCounts :: "jsval list \<Rightarrow> jstr \<Rightarrow> patch_totals" where
  "patchCounts events runId =
     (let files = fst (foldl (patch_event runId) ([], 0) events) in
      \<lparr>pt_changed = length files,
       pt_additions = sum_list (map (\<lambda>(k, f). lc_additions (pf_counts f)) files),
       pt_deletions = sum_list (map (\<lambda>(k, f). lc_deletions (pf_counts f)) files)\<rparr>)"

section \<open>Assistant text, failures and reasoning\<close>

definition assistantState :: "jsval list \<Rightarrow> jstr \<Rightarrow> string" where
  "assistantState events runId =
     (let latest = foldl (\<lambda>latest event.
            if (type_is ''message.delta'' event \<or> type_is ''message.completed'' event)
               \<and> eventBelongsToRun event runId then Some event else latest) None events in
      case latest of None \<Rightarrow> ''idle''
      | Some e \<Rightarrow> if type_is ''message.delta'' e then ''streaming''
          else if type_is ''message.completed'' e then ''complete'' else ''idle'')"

definition SAFE_FAILURE_MESSAGES :: jsobj where
  "SAFE_FAILURE_MESSAGES = map (\<lambda>(k, m). (js k, jlit m))
    [(''auth.expired'', ''Codex sign-in expired. Start a new sign-in from Home Assistant.''),
     (''context.window_exceeded'', ''The Codex conversation context is full.''),
     (''limits.exhausted'', ''Codex usage limits have been reached.''),
     (''model.unsupported'', ''The selected Codex model is not supported.''),
     (''network.http_connection_failed'', ''Codex could not connect to the service.''),
     (''network.response_stream_connection_failed'', ''Codex could not connect to the response stream.''),
     (''network.response_stream_disconnected'', ''The Codex response stream disconnected before completion.''),
     (''network.response_stream_retry_exhausted'', ''Codex could not recover the response stream after several attempts.''),
     (''policy.cyber'', ''Codex could not complete this request because of its safety policy.''),
     (''request.invalid'', ''Codex could not process this request.''),
     (''run.failed'', ''Codex could not complete the turn.''),
     (''run.orphaned'', ''Bridge restarted while this run was active.''),
     (''sandbox.error'', ''The Codex sandbox could not complete the turn.''),
     (''service.internal_error'', ''The Codex service encountered an internal error.''),
     (''service.overloaded'', ''The Codex service is temporarily overloaded.''),
     (''session.budget_exhausted'', ''The Codex session budget has been reached.''),
     (''thread.rollback_failed'', ''Codex could not restore the conversation after the turn failed.''),
     (''turn.not_steerable'', ''The active Codex turn cannot accept this follow-up yet.'')]"

definition getSafeRunFailureMessage :: "jsval \<Rightarrow> jsval" where
  "getSafeRunFailureMessage event =
     (if \<not> type_is ''run.failed'' event then JStr []
      else js_or (obj_index SAFE_FAILURE_MESSAGES (safeText (dot (eventPayload event) ''failure_type'') 96))
                 (obj_index SAFE_FAILURE_MESSAGES (js ''run.failed'')))"

definition runFailureMessage :: "jsval list \<Rightarrow> jstr \<Rightarrow> jsval" where
  "runFailureMessage events runId =
     (case last_some (\<lambda>e. if type_is ''run.failed'' e \<and> eventBelongsToRun e runId
                          then Some (getSafeRunFailureMessage e) else None) events of
        Some m \<Rightarrow> m | None \<Rightarrow> JStr [])"

definition is_summary_delta :: "jstr \<Rightarrow> jsval \<Rightarrow> bool" where
  "is_summary_delta runId event \<longleftrightarrow>
     type_is ''reasoning.summary_delta'' event \<and> eventBelongsToRun event runId"

definition same_summary :: "jsval \<Rightarrow> jsval \<Rightarrow> bool" where
  "same_summary latest event \<longleftrightarrow>
     strict_eq (dot (eventPayload event) ''item_id'') (dot (eventPayload latest) ''item_id'')
     \<and> strict_eq (dot (eventPayload event) ''summary_index'') (dot (eventPayload latest) ''summary_index'')"

fun join_chunks :: "jsval list \<Rightarrow> jstr \<Rightarrow> jstr" where
  "join_chunks [] joined = joined"
| "join_chunks (event # events) joined =
     (let p = eventPayload event;
          joined = joined @ safeChunk (js_or (dot p ''delta'') (dot p ''text'')) 320 in
      if length joined \<ge> 2000 then joined else join_chunks events joined)"

text \<open>
  The deltas of the newest summary. The newest delta is compared with itself, so
  it always takes part; the earlier ones take part when both keys are strictly equal.
\<close>

definition reasoningSummary :: "jsval list \<Rightarrow> jstr \<Rightarrow> jstr" where
  "reasoningSummary events runId =
     (let deltas = filter (is_summary_delta runId) events in
      if deltas = [] then []
      else safeText (JStr (join_chunks (filter (same_summary (last deltas)) (butlast deltas) @ [last deltas]) [])) 2000)"

section \<open>Action history\<close>

record history_item =
  hi_label :: jstr
  hi_kind :: string

type_synonym history_state = "history_item list \<times> jstr set"

definition history_key :: "string \<Rightarrow> jstr \<Rightarrow> jstr" where
  "history_key kind text = js kind @ [58] @ text"

definition addHistory :: "history_state \<Rightarrow> jsval \<Rightarrow> string \<Rightarrow> history_state" where
  "addHistory st label kind =
     (case st of (history, seen) \<Rightarrow>
        let text = safeText label MAX_ACTION_TEXT in
        if text = [] \<or> history_key kind text \<in> seen then (history, seen)
        else let history = history @ [\<lparr>hi_label = text, hi_kind = kind\<rparr>] in
          (if length history > MAX_HISTORY_ITEMS then tl history else history,
           insert (history_key kind text) seen))"

definition history_plan_item :: "history_state \<Rightarrow> jsval \<Rightarrow> history_state" where
  "history_plan_item st item =
     (if is_record item \<and> dot item ''status'' \<in> {jlit ''completed'', jlit ''inProgress'', jlit ''in_progress''}
      then addHistory st (dot item ''step'') ''plan'' else st)"

definition history_event :: "jstr \<Rightarrow> history_state \<Rightarrow> jsval \<Rightarrow> history_state" where
  "history_event runId st event =
     (let p = eventPayload event in
      if \<not> eventBelongsToRun event runId then st
      else if type_is ''plan.updated'' event \<and> is_array (dot p ''plan'')
      then foldl history_plan_item st (take MAX_PLAN_STEPS (as_list (dot p ''plan'')))
      else if type_is ''reasoning.summary_delta'' event then st
      else if (type_is ''item.started'' event \<or> type_is ''item.completed'' event)
              \<and> has_label ITEM_LABELS (dot p ''item_type'')
      then addHistory st (JStr (itemLabel p))
             (if dot p ''item_type'' \<in> {jlit ''collabAgentToolCall'', jlit ''subAgentActivity''}
              then ''subagent'' else ''item'')
      else if type_is ''patch.updated'' event then addHistory st (jlit ''Updating files'') ''patch''
      else st)"

definition actionHistory :: "jsval list \<Rightarrow> jstr \<Rightarrow> jstr \<Rightarrow> history_item list" where
  "actionHistory events runId reasoningText =
     fst (addHistory (foldl (history_event runId) ([], {}) events) (JStr reasoningText) ''reasoning'')"

section \<open>The view model\<close>

record active_step =
  as_index :: nat
  as_total :: nat
  as_label :: jstr
  as_status :: string
  as_completedCount :: nat

record run_activity =
  ra_state :: string
  ra_busy :: bool
  ra_terminal :: bool
  ra_runId :: jstr
  ra_action :: jstr
  ra_step :: "active_step option"
  ra_stages :: "(plan_step \<times> nat) list"
  ra_actionHistory :: "history_item list"
  ra_files :: patch_totals
  ra_subagents :: "(subagents \<times> int) option"
  ra_assistant :: string
  ra_failureMessage :: jsval
  ra_attentionMessage :: jsval

definition thread_status :: "jsval \<Rightarrow> jstr" where
  "thread_status thread = js_lower (safeText (dot thread ''status'') 40)"

definition activity_runId :: "jsval \<Rightarrow> jsval list \<Rightarrow> jstr" where
  "activity_runId thread events =
     (let threadStatus = thread_status thread; activeRunId = run_id_of (dot thread ''active_run_id'') in
      if threadStatus \<in> set (map js BUSY_STATUSES) \<or> threadStatus = js ''queued''
      then str_or activeRunId (latestLiveEventRunId events)
      else if threadStatus \<noteq> [] then latestTerminalRunId events
      else str_or activeRunId (latestEventRunId events))"

definition scoped_events :: "jstr \<Rightarrow> jsval list \<Rightarrow> jsval list" where
  "scoped_events runId events =
     (if runId \<noteq> [] then filter (\<lambda>e. eventBelongsToRun e runId) events
      else filter (\<lambda>e. eventRunId e = [] \<and> terminalEventState (dot e ''event_type'') \<noteq> []) events)"

definition activity_state :: "jsval \<Rightarrow> string \<Rightarrow> string" where
  "activity_state thread eventState =
     (let threadStatus = thread_status thread; activeRunId = run_id_of (dot thread ''active_run_id'');
          threadIsBusy = threadStatus \<in> set (map js BUSY_STATUSES) in
      if threadStatus = js ''queued'' then ''queued''
      else if threadIsBusy \<and> activeRunId = [] then ''running''
      else if eventState \<in> set TERMINAL_STATES then eventState
      else if threadStatus = js ''error'' then ''failed''
      else if threadIsBusy then ''running''
      else if eventState = ''queued'' then ''queued''
      else if threadStatus = [] \<and> (activeRunId \<noteq> [] \<or> eventState = ''running'') then ''running''
      else ''idle'')"

definition activity_step :: "run_plan \<Rightarrow> active_step option" where
  "activity_step plan =
     (case plan_activeIndex plan of None \<Rightarrow> None
      | Some i \<Rightarrow> Some \<lparr>as_index = i + 1, as_total = length (plan_steps plan),
           as_label = step_label (plan_steps plan ! i), as_status = step_status (plan_steps plan ! i),
           as_completedCount = plan_completedCount plan\<rparr>)"

definition activity_assistant :: "string \<Rightarrow> string \<Rightarrow> string" where
  "activity_assistant state projected =
     (if projected = ''streaming''
      then if state \<in> {''failed'', ''cancelled'', ''interrupted''} then ''partial''
           else if state = ''running'' then ''streaming'' else ''idle''
      else projected)"

definition activity_action :: "string \<Rightarrow> active_step option \<Rightarrow> jstr \<Rightarrow> started_item option \<Rightarrow> string \<Rightarrow> jstr" where
  "activity_action state activeStep reasoningText startedItem assistant =
     (let stepAction = (case activeStep of None \<Rightarrow> []
            | Some s \<Rightarrow> if as_status s = ''completed'' then [] else as_label s);
          itemAction = (case startedItem of None \<Rightarrow> [] | Some i \<Rightarrow> si_label i);
          action = (if state = ''running'' then str_or stepAction (str_or reasoningText itemAction) else []) in
      if action \<noteq> [] then action
      else if state = ''queued'' then js ''Waiting in queue''
      else if state = ''running''
      then js (if assistant = ''streaming'' then ''Generating a response'' else ''Working on the request'')
      else if state = ''completed'' then js ''Run completed''
      else if state = ''failed'' then js ''Run failed''
      else if state = ''cancelled'' then js ''Run cancelled''
      else if state = ''interrupted'' then js ''Run interrupted''
      else [])"

definition getRunActivityViewModel :: "jsval \<Rightarrow> jsval \<Rightarrow> run_activity" where
  "getRunActivityViewModel thread events =
     (let normalizedEvents = normalizeRunEvents events;
          runId = activity_runId thread normalizedEvents;
          scopedEvents = scoped_events runId normalizedEvents;
          state = activity_state thread (runEventState scopedEvents runId);
          plan = currentPlan scopedEvents runId;
          activeStep = activity_step plan;
          reasoningText = reasoningSummary scopedEvents runId;
          startedItem = latestItemStart scopedEvents runId;
          terminal = (state \<in> set TERMINAL_STATES);
          assistant = activity_assistant state (assistantState scopedEvents runId);
          failureMessage = (if state = ''failed'' then runFailureMessage scopedEvents runId else JStr []);
          interruptionMessage = (if state = ''interrupted''
            then jlit ''The Codex runtime restarted before the turn completed. Your partial response was preserved.''
            else JStr []);
          snapshot = latestSubagentSnapshot scopedEvents runId;
          action = safeText (JStr (activity_action state activeStep reasoningText startedItem assistant)) MAX_ACTION_TEXT in
      \<lparr>ra_state = state, ra_busy = (state = ''queued'' \<or> state = ''running''), ra_terminal = terminal,
       ra_runId = runId, ra_action = action, ra_step = activeStep,
       ra_stages = map (\<lambda>(i, s). (s, i + 1)) (enumerate 0 (plan_steps plan)),
       ra_actionHistory = actionHistory scopedEvents runId reasoningText,
       ra_files = patchCounts scopedEvents runId,
       ra_subagents = (if terminal
         then (case snapshot of None \<Rightarrow> None
               | Some (s, q) \<Rightarrow> map_option (\<lambda>s. (s, q)) (clearTerminalSubagentActivity (Some s)))
         else snapshot),
       ra_assistant = assistant, ra_failureMessage = failureMessage,
       ra_attentionMessage = js_or failureMessage interruptionMessage\<rparr>)"

section \<open>Text lemmas\<close>

lemma blank_controls_eq: "blank_controls s = map (\<lambda>u. if printable u then u else 32) s"
  unfolding blank_controls_def by (rule map_js_chars) (simp add: printable_def)

lemma blank_controls_printable: "u \<in> set (blank_controls s) \<Longrightarrow> printable u"
  by (auto simp: blank_controls_eq printable_def split: if_splits)

lemma blank_controls_id: "\<forall>u\<in>set s. printable u \<Longrightarrow> blank_controls s = s"
  by (simp add: blank_controls_eq map_idI)

text \<open>The texts that \<open>safeText\<close> with limit \<open>n\<close> produces and leaves alone.\<close>

definition safe_text :: "nat \<Rightarrow> jstr \<Rightarrow> bool" where
  "safe_text n s \<longleftrightarrow> length s \<le> n \<and> (\<forall>u\<in>set s. printable u) \<and> folded s \<and> js_trim s = s"

lemma folded_take: "folded s \<Longrightarrow> folded (take n s)"
  using folded_append [of "take n s" "drop n s"] by simp

lemma folded_snoc: "folded s \<Longrightarrow> \<not> is_ws u \<Longrightarrow> folded (s @ [u])"
  by (induction s rule: folded.induct) auto

lemma normalized_text:
  "safe_text (length (js_trim (collapse_ws (blank_controls s)))) (js_trim (collapse_ws (blank_controls s)))"
  using set_js_trim set_collapse_ws blank_controls_printable folded_js_trim folded_collapse_ws
  by (fastforce simp: safe_text_def printable_def)

lemma safe_text_shorten:
  assumes "safe_text k s" "n < length s" "1 \<le> n"
  shows "safe_text n (take (n - 1) s @ [0x2026])"
proof -
  have e: "\<not> is_ws 0x2026" by (simp add: is_ws_def)
  have "folded (take (n - 1) s @ [0x2026])"
    using assms e by (intro folded_snoc folded_take) (simp_all add: safe_text_def)
  moreover have "js_trim (take (n - 1) s @ [0x2026]) = take (n - 1) s @ [0x2026]"
  proof (rule js_trim_id, rule disjI2, rule conjI)
    show "\<not> is_ws (last (take (n - 1) s @ [0x2026]))" using e by simp
    show "\<not> is_ws (hd (take (n - 1) s @ [0x2026]))"
    proof (cases "n = 1")
      case False
      then have "hd (take (n - 1) s @ [0x2026]) = hd s"
        using assms by (cases s; cases "n - 1") auto
      moreover have "\<not> is_ws (hd s)"
        using assms hd_js_trim [of s] by (force simp: safe_text_def)
      ultimately show ?thesis by simp
    qed (use e in simp)
  qed
  moreover have "\<forall>u\<in>set (take (n - 1) s @ [0x2026]). printable u"
    using assms by (auto simp: safe_text_def printable_def dest: in_set_takeD)
  ultimately show ?thesis using assms by (simp add: safe_text_def)
qed

lemma safe_text_Nil [simp]: "safe_text n []"
  by (simp add: safe_text_def js_trim_def)

lemma safe_text_mono: "safe_text m s \<Longrightarrow> length s \<le> n \<Longrightarrow> safe_text n s"
  by (simp add: safe_text_def)

lemma safeText_ok: "safe_text n (safeText v n)"
proof (cases "is_string v \<and> 1 \<le> n")
  case True
  let ?t = "js_trim (collapse_ws (blank_controls (as_string v)))"
  show ?thesis
  proof (cases "n < length ?t")
    case True
    with \<open>is_string v \<and> 1 \<le> n\<close> safe_text_shorten [OF normalized_text, of n "as_string v"]
    show ?thesis by (simp add: safeText_def Let_def)
  next
    case False
    with True show ?thesis
      using safe_text_mono [OF normalized_text, of "as_string v" n] by (simp add: safeText_def Let_def)
  qed
qed (auto simp: safeText_def)

lemma safeText_id: "safe_text n s \<Longrightarrow> 1 \<le> n \<Longrightarrow> safeText (JStr s) n = s"
  by (simp add: safeText_def safe_text_def blank_controls_id collapse_ws_id)

interpretation action_text: projection "\<lambda>s. safeText (JStr s) MAX_ACTION_TEXT" "safe_text MAX_ACTION_TEXT"
  by unfold_locales (simp_all add: safeText_ok safeText_id MAX_ACTION_TEXT_def)

lemma safeText_nonblank:
  "is_string v \<Longrightarrow> 1 \<le> n \<Longrightarrow> u \<in> set (as_string v) \<Longrightarrow> printable u \<Longrightarrow> \<not> is_ws u \<Longrightarrow> safeText v n \<noteq> []"
proof -
  assume h: "is_string v" "1 \<le> n" "u \<in> set (as_string v)" "printable u" "\<not> is_ws u"
  have c: "u \<in> set s \<Longrightarrow> u \<in> set (collapse_ws s)" for s
  proof (induction s rule: collapse_ws.induct)
    case (2 x us)
    have "u \<in> set us \<Longrightarrow> u \<in> set (dropWhile is_ws us)"
      using h(5) by (metis Un_iff set_append set_takeWhileD takeWhile_dropWhile_id)
    with 2 h(5) show ?case by auto
  qed simp
  have t: "u \<in> set s \<Longrightarrow> js_trim s \<noteq> []" for s
  proof -
    assume u: "u \<in> set s"
    have "u \<in> set (dropWhile is_ws s)"
      using u h(5) by (metis Un_iff set_append set_takeWhileD takeWhile_dropWhile_id)
    then show "js_trim s \<noteq> []"
      using h(5) by (auto simp: js_trim_def dropWhile_eq_Nil_conv)
  qed
  have "u \<in> set (blank_controls (as_string v))"
    using h by (force simp: blank_controls_eq)
  with c t h show ?thesis by (auto simp: safeText_def Let_def)
qed

section \<open>Plans, history and patches\<close>

lemma findIndex_Some:
  "findIndex P xs = Some i \<Longrightarrow> i < length xs \<and> P (xs ! i) \<and> (\<forall>j<i. \<not> P (xs ! j))"
proof (induction xs arbitrary: i)
  case (Cons x xs)
  show ?case
  proof (cases "P x")
    case False
    with Cons.prems obtain k where k: "i = Suc k" "findIndex P xs = Some k" by auto
    from Cons.IH [OF k(2)] False show ?thesis
      by (auto simp: k(1) less_Suc_eq_0_disj)
  qed (use Cons.prems in auto)
qed simp

lemma findIndex_None: "findIndex P xs = None \<longleftrightarrow> (\<forall>x\<in>set xs. \<not> P x)"
  by (induction xs) auto

lemma display_index_range: "display_index steps = Some i \<Longrightarrow> i < length steps"
proof -
  have "steps \<noteq> [] \<Longrightarrow> min n (length steps - 1) < length steps" for n
    by (cases steps) auto
  then show "display_index steps = Some i \<Longrightarrow> i < length steps"
    by (auto simp: display_index_def dest!: findIndex_Some split: option.splits if_splits)
qed

lemma display_index_None: "display_index steps = None \<longleftrightarrow> steps = []"
  by (auto simp: display_index_def findIndex_None split: option.splits)

definition plan_ok :: "run_plan \<Rightarrow> bool" where
  "plan_ok p \<longleftrightarrow> plan_activeIndex p = display_index (plan_steps p)
     \<and> length (plan_steps p) \<le> MAX_PLAN_STEPS
     \<and> plan_completedCount p = count_status ''completed'' (plan_steps p)
     \<and> (\<forall>s\<in>set (plan_steps p). step_label s \<noteq> [] \<and> safe_text MAX_ACTION_TEXT (step_label s)
          \<and> step_status s \<in> {''inProgress'', ''completed'', ''pending''})"

lemma plan_item_ok:
  "plan_item v = Some s \<Longrightarrow> step_label s \<noteq> [] \<and> safe_text MAX_ACTION_TEXT (step_label s)
     \<and> step_status s \<in> {''inProgress'', ''completed'', ''pending''}"
  by (auto simp: plan_item_def Let_def plan_status_def safeText_ok split: if_splits)

lemma plan_of_event_ok: "plan_of_event runId e = Some p \<Longrightarrow> plan_ok p"
proof -
  assume h: "plan_of_event runId e = Some p"
  let ?items = "take MAX_PLAN_STEPS (as_list (dot (eventPayload e) ''plan''))"
  from h have p: "plan_steps p = List.map_filter plan_item ?items"
    "plan_activeIndex p = display_index (plan_steps p)"
    "plan_completedCount p = count_status ''completed'' (plan_steps p)"
    by (auto simp: plan_of_event_def Let_def split: if_splits)
  moreover have "length (plan_steps p) \<le> MAX_PLAN_STEPS"
    unfolding p(1) using length_map_filter_le [of plan_item ?items] by simp
  moreover have "\<forall>s\<in>set (plan_steps p). \<exists>v. plan_item v = Some s"
    by (auto simp: p(1) mem_map_filter)
  ultimately show "plan_ok p"
    using plan_item_ok unfolding plan_ok_def by blast
qed

lemma currentPlan_ok: "plan_ok (currentPlan events runId)"
proof (cases "last_some (plan_of_event runId) events")
  case None
  then show ?thesis by (simp add: currentPlan_def plan_ok_def display_index_def count_status_def)
next
  case (Some p)
  then show ?thesis
    using last_some_SomeD plan_of_event_ok by (fastforce simp: currentPlan_def)
qed

definition history_ok :: "history_state \<Rightarrow> bool" where
  "history_ok st \<longleftrightarrow> length (fst st) \<le> MAX_HISTORY_ITEMS
     \<and> distinct (map (\<lambda>h. history_key (hi_kind h) (hi_label h)) (fst st))
     \<and> (\<forall>h\<in>set (fst st). history_key (hi_kind h) (hi_label h) \<in> snd st
          \<and> hi_label h \<noteq> [] \<and> safe_text MAX_ACTION_TEXT (hi_label h))"

lemma history_ok_add: "history_ok st \<Longrightarrow> history_ok (addHistory st label kind)"
proof -
  assume h: "history_ok st"
  obtain hs seen where st: "st = (hs, seen)" by (cases st)
  let ?text = "safeText label MAX_ACTION_TEXT"
  let ?new = "\<lparr>hi_label = ?text, hi_kind = kind\<rparr>"
  show ?thesis
  proof (cases "?text = [] \<or> history_key kind ?text \<in> seen")
    case True
    with h show ?thesis by (auto simp: st addHistory_def)
  next
    case False
    have full: "history_ok (if length (hs @ [?new]) > MAX_HISTORY_ITEMS then tl (hs @ [?new]) else hs @ [?new],
        insert (history_key kind ?text) seen)"
      using h False safeText_ok [of MAX_ACTION_TEXT label]
      by (cases hs) (auto simp: st history_ok_def MAX_HISTORY_ITEMS_def)
    with False show ?thesis by (simp add: st addHistory_def Let_def)
  qed
qed

lemma history_ok_event: "history_ok st \<Longrightarrow> history_ok (history_event runId st e)"
proof -
  assume h: "history_ok st"
  have "history_ok (foldl history_plan_item st items)" for items
    using h by (induction items arbitrary: st) (auto simp: history_plan_item_def history_ok_add)
  with h show ?thesis by (auto simp: history_event_def Let_def history_ok_add)
qed

lemma history_ok_fold: "history_ok st \<Longrightarrow> history_ok (foldl (history_event runId) st events)"
  by (induction events arbitrary: st) (auto simp: history_ok_event)

lemma actionHistory_ok:
  "length (actionHistory events runId t) \<le> MAX_HISTORY_ITEMS
   \<and> distinct (map (\<lambda>h. history_key (hi_kind h) (hi_label h)) (actionHistory events runId t))
   \<and> (\<forall>h\<in>set (actionHistory events runId t). hi_label h \<noteq> [] \<and> safe_text MAX_ACTION_TEXT (hi_label h))"
proof -
  have "history_ok ([], {})" by (simp add: history_ok_def)
  then have "history_ok (addHistory (foldl (history_event runId) ([], {}) events) (JStr t) ''reasoning'')"
    by (intro history_ok_add history_ok_fold)
  then show ?thesis by (auto simp: actionHistory_def history_ok_def)
qed

lemma keys_files_set: "fst ` set (files_set m k v) = insert k (fst ` set m)"
  by (induction m k v rule: files_set.induct) auto

lemma length_files_set: "length (files_set m k v) \<le> Suc (length m)"
  by (induction m k v rule: files_set.induct) auto

lemma patch_changes_bound:
  "length (fst st) \<le> snd st \<and> snd st \<le> MAX_PATCH_CHANGES \<Longrightarrow>
     length (fst (patch_changes cs st)) \<le> snd (patch_changes cs st)
     \<and> snd (patch_changes cs st) \<le> MAX_PATCH_CHANGES"
proof (induction cs st rule: patch_changes.induct)
  case (2 change changes files seen)
  have "length (files_set files k v) \<le> Suc seen" if "length files \<le> seen" for k v
    using that length_files_set [of files k v] by linarith
  with 2 show ?case by (auto simp: Let_def)
qed simp

lemma patchCounts_bound: "pt_changed (patchCounts events runId) \<le> MAX_PATCH_CHANGES"
proof -
  have "length (fst st) \<le> snd st \<and> snd st \<le> MAX_PATCH_CHANGES \<Longrightarrow>
      length (fst (foldl (patch_event runId) st events)) \<le> snd (foldl (patch_event runId) st events)
      \<and> snd (foldl (patch_event runId) st events) \<le> MAX_PATCH_CHANGES" for st
  proof (induction events arbitrary: st)
    case (Cons e es)
    then show ?case
      using patch_changes_bound by (auto simp: patch_event_def)
  qed simp
  from this [of "([], 0)"] show ?thesis by (simp add: patchCounts_def Let_def)
qed

section \<open>Sub-agent counts\<close>

lemma sum_map_filter:
  "(\<And>k. (case f k of Some y \<Rightarrow> snd y | None \<Rightarrow> 0) = g k) \<Longrightarrow>
     sum_list (map snd (List.map_filter f ks)) = sum_list (map (g :: 'k \<Rightarrow> int) ks)"
proof (induction ks)
  case (Cons a ks)
  have "g a = (case f a of Some y \<Rightarrow> snd y | None \<Rightarrow> 0)" using Cons.prems [of a] by simp
  with Cons show ?case by (cases "f a") auto
qed simp

definition state_count :: "jsval \<Rightarrow> string \<Rightarrow> int" where
  "state_count value k =
     (if is_safe_integer (dot value k) \<and> 1 \<le> to_int (dot value k) then min (to_int (dot value k)) 1000000 else 0)"

lemma agent_counts_of:
  assumes "k \<in> set AGENT_STATE_KEYS"
  shows "count_of (agent_counts value) k = state_count value k"
proof -
  have "k \<in> set ks \<Longrightarrow> distinct ks \<Longrightarrow>
     map_of (List.map_filter (\<lambda>state. let count = dot value state in
       if \<not> is_safe_integer count \<or> to_int count < 1 then None
       else Some (state, min (to_int count) 1000000)) ks) k
     = (if is_safe_integer (dot value k) \<and> 1 \<le> to_int (dot value k)
        then Some (min (to_int (dot value k)) 1000000) else None)" for ks
  proof (induction ks)
    case (Cons a ks)
    have none: "k \<notin> set ks \<Longrightarrow> map_of (List.map_filter (\<lambda>state. let count = dot value state in
       if \<not> is_safe_integer count \<or> to_int count < 1 then None
       else Some (state, min (to_int count) 1000000)) ks) k = None"
      by (auto simp: map_of_eq_None_iff mem_map_filter Let_def image_iff split: if_splits)
    from Cons none show ?case by (auto simp: Let_def)
  qed simp
  from this [of AGENT_STATE_KEYS] assms show ?thesis
    by (simp add: count_of_def agent_counts_def state_count_def AGENT_STATE_KEYS_def)
qed

lemma agent_counts_sum:
  "sum_list (map snd (agent_counts value)) = sum_list (map (state_count value) AGENT_STATE_KEYS)"
  unfolding agent_counts_def
  by (rule sum_map_filter) (auto simp: state_count_def Let_def)

lemma state_count_nonneg: "0 \<le> state_count value k"
  by (simp add: state_count_def)

definition subagents_ok :: "subagents \<Rightarrow> bool" where
  "subagents_ok s \<longleftrightarrow> sa_total s = sa_active s + sa_completed s + sa_attention s
     \<and> 0 \<le> sa_active s \<and> 0 \<le> sa_completed s \<and> 0 \<le> sa_attention s"

lemma safeAgentStateCounts_ok:
  assumes "safeAgentStateCounts value = Some s"
  shows "subagents_ok s" "0 < sa_total s"
proof -
  have k: "\<forall>k\<in>set AGENT_STATE_KEYS. count_of (agent_counts value) k = state_count value k"
    by (simp add: agent_counts_of)
  show "subagents_ok s" "0 < sa_total s"
    using assms k state_count_nonneg [of "value"]
    by (auto simp: safeAgentStateCounts_def Let_def subagents_ok_def agent_counts_sum AGENT_STATE_KEYS_def
        order.strict_iff_order add_nonneg_nonneg split: if_splits)
qed

lemma clearTerminal_ok:
  "subagents_ok s \<Longrightarrow> clearTerminalSubagentActivity (Some s) = Some t \<Longrightarrow> subagents_ok t \<and> sa_active t = 0"
  by (auto simp: clearTerminalSubagentActivity_def subagents_ok_def split: if_splits)

lemma latestSubagentSnapshot_ok: "latestSubagentSnapshot events runId = Some (s, q) \<Longrightarrow> subagents_ok s"
  by (auto simp: latestSubagentSnapshot_def snapshot_of_event_def dest!: last_some_SomeD
      intro: safeAgentStateCounts_ok split: if_splits)

lemma projected_subagents_ok:
  "case (if b then (case latestSubagentSnapshot events runId of None \<Rightarrow> None
           | Some (s, q) \<Rightarrow> map_option (\<lambda>s. (s, q)) (clearTerminalSubagentActivity (Some s)))
         else latestSubagentSnapshot events runId) of None \<Rightarrow> True
   | Some (s, q) \<Rightarrow> subagents_ok s \<and> (b \<longrightarrow> sa_active s = 0)"
proof (cases "latestSubagentSnapshot events runId")
  case (Some sq)
  obtain s q where sq: "sq = (s, q)" by (cases sq)
  with Some have ok: "subagents_ok s" using latestSubagentSnapshot_ok by blast
  show ?thesis
  proof (cases "clearTerminalSubagentActivity (Some s)")
    case None
    then show ?thesis using ok by (simp add: Some sq)
  next
    case (Some t)
    with ok clearTerminal_ok [OF ok Some] show ?thesis
      by (simp add: \<open>latestSubagentSnapshot events runId = Some sq\<close> sq)
  qed
qed simp

section \<open>States\<close>

lemma run_event_state_range:
  "run_event_state e = Some s \<Longrightarrow> s \<in> set TERMINAL_STATES \<union> {''running'', ''queued''}"
  by (auto simp: run_event_state_def TERMINAL_STATES_def split: if_splits)

lemma runEventState_range:
  "runEventState events runId \<in> set TERMINAL_STATES \<union> {''running'', ''queued'', []}"
proof (cases "last_some (\<lambda>e. if eventBelongsToRun e runId then run_event_state e else None) events")
  case (Some s)
  then obtain e where "run_event_state e = Some s"
    by (fastforce dest!: last_some_SomeD split: if_splits)
  with Some show ?thesis using run_event_state_range by (fastforce simp: runEventState_def)
qed (simp add: runEventState_def)


lemma activity_state_range:
  "activity_state thread (runEventState events runId) \<in> set TERMINAL_STATES \<union> {''running'', ''queued'', ''idle''}"
  by (auto simp: activity_state_def Let_def TERMINAL_STATES_def)


lemma set_normalizeRunEvents: "e \<in> set (normalizeRunEvents events) \<Longrightarrow> e \<in> set (as_list events) \<and> valid_event e"
  using set_slice_last [of MAX_EVENTS] by (fastforce simp: normalizeRunEvents_def)


lemma run_id_of_ok: "run_id_of v = [] \<or> id_pattern 256 (run_id_of v)"
  by (auto simp: run_id_of_def)

lemma last_nonempty_run:
  "last_some (\<lambda>e. nonempty (eventRunId e)) events = Some r \<Longrightarrow> id_pattern 256 r"
  using run_id_of_ok by (fastforce simp: eventRunId_def nonempty_def dest!: last_some_SomeD split: if_splits)

lemma latestEventRunId_ok: "latestEventRunId events = [] \<or> id_pattern 256 (latestEventRunId events)"
  by (auto simp: latestEventRunId_def dest: last_nonempty_run split: option.splits)

lemma latestTerminalRunId_event:
  "latestTerminalRunId events \<noteq> [] \<Longrightarrow>
     \<exists>e\<in>set events. terminalEventState (dot e ''event_type'') \<noteq> [] \<and> eventRunId e = latestTerminalRunId events"
  by (fastforce simp: latestTerminalRunId_def nonempty_def dest!: last_some_SomeD split: option.splits if_splits)

lemma activity_runId_ok: "activity_runId thread events = [] \<or> id_pattern 256 (activity_runId thread events)"
proof -
  have "latestTerminalRunId events = [] \<or> id_pattern 256 (latestTerminalRunId events)"
    using latestTerminalRunId_event run_id_of_ok by (metis eventRunId_def)
  then show ?thesis
    using run_id_of_ok [of "dot thread ''active_run_id''"] latestEventRunId_ok [of events]
    by (auto simp: activity_runId_def Let_def str_or_def latestLiveEventRunId_def)
qed

section \<open>Labels are visible text\<close>

definition visible :: "jstr \<Rightarrow> bool" where
  "visible s \<longleftrightarrow> list_ex (\<lambda>u. printable u \<and> \<not> is_ws u) s"

lemma visible_safeText: "visible s \<Longrightarrow> 1 \<le> n \<Longrightarrow> safeText (JStr s) n \<noteq> []"
proof -
  assume n: "1 \<le> n" and "visible s"
  then obtain u where "u \<in> set s" "printable u" "\<not> is_ws u" by (auto simp: visible_def list_ex_iff)
  then show ?thesis using n by (intro safeText_nonblank [of _ _ u]) auto
qed

lemma visible_safe_text: "safe_text n s \<Longrightarrow> s \<noteq> [] \<Longrightarrow> visible s"
  unfolding visible_def list_ex_iff safe_text_def
  using hd_js_trim [of s] by (metis hd_in_set)

lemma visible_append: "visible (s @ t) \<longleftrightarrow> visible s \<or> visible t"
  by (simp add: visible_def)

lemma visible_js: "c \<in> set s \<Longrightarrow> printable (of_char c) \<Longrightarrow> \<not> is_ws (of_char c) \<Longrightarrow> visible (js s)"
  by (auto simp: visible_def list_ex_iff js_def)

definition visible_table :: "labels \<Rightarrow> bool" where
  "visible_table t \<longleftrightarrow> list_all (\<lambda>(k, l). visible (js l)) t"

lemma visible_tables:
  "visible_table ITEM_LABELS" "visible_table COMMAND_ACTION_LABELS" "visible_table WEB_ACTION_LABELS"
  "visible_table FILE_CHANGE_LABELS" "visible_table COLLAB_OPERATION_LABELS"
  "visible_table SUBAGENT_ACTIVITY_LABELS"
  by (simp_all add: visible_table_def ITEM_LABELS_def COMMAND_ACTION_LABELS_def WEB_ACTION_LABELS_def
      FILE_CHANGE_LABELS_def COLLAB_OPERATION_LABELS_def SUBAGENT_ACTIVITY_LABELS_def
      visible_def js_def printable_def is_ws_def)

lemma visible_label: "visible_table t \<Longrightarrow> has_label t v \<Longrightarrow> visible (label_of t v)"
proof -
  assume t: "visible_table t" and h: "has_label t v"
  then obtain k l where f: "find (\<lambda>(k, l). js k = js_String (\<lambda>r. []) v) t = Some (k, l)"
    by (auto simp: has_label_def lookup_label_def)
  then have "(k, l) \<in> set t" by (metis (no_types, lifting) find_Some_iff nth_mem)
  with t f show ?thesis
    by (auto simp: visible_table_def list_all_iff label_of_def lookup_label_def)
qed

lemma visible_join:
  assumes "visible fallback" "\<forall>l\<in>set ls. visible l"
  shows "visible (joinActivityLabels ls fallback)"
proof -
  let ?u = "filter (\<lambda>l. l \<noteq> []) (unique ls)"
  have "?u = a # us \<Longrightarrow> a \<in> set ls" for a us
    by (metis (no_types, lifting) filter_is_subset in_mono list.set_intros(1) set_remdups set_rev unique_def)
  then have "?u = a # us \<Longrightarrow> visible a" for a us using assms(2) by blast
  then show ?thesis
    using assms(1) unfolding joinActivityLabels_def
    by (auto simp: visible_append split: list.split)
qed

lemma visible_itemLabel: "visible (itemLabel p)"
proof -
  have own: "has_label ITEM_LABELS (jlit ''commandExecution'')" "has_label ITEM_LABELS (jlit ''fileChange'')"
    by (simp_all add: has_label_def lookup_label_def ITEM_LABELS_def)
  have "visible (js ''Working on the request'')"
    by (rule visible_js [of "CHR ''W''"]) (simp_all add: printable_def is_ws_def)
  then show ?thesis
    unfolding itemLabel_def Let_def
    using visible_label [OF visible_tables(1)] visible_label [OF visible_tables(2)]
      visible_label [OF visible_tables(3)] visible_label [OF visible_tables(4)]
      visible_label [OF visible_tables(5)] visible_label [OF visible_tables(6)] own
    by (auto intro!: visible_join)
qed

lemma item_start_label: "item_start_scan runId done events = Some i \<Longrightarrow> visible (si_label i)"
  by (induction runId "done" events rule: item_start_scan.induct)
    (auto simp: Let_def visible_itemLabel split: if_splits)

lemma reasoningSummary_ok: "safe_text 2000 (reasoningSummary events runId)"
  by (auto simp: reasoningSummary_def Let_def safeText_ok)

lemma activity_step_ok:
  assumes "plan_ok plan" "activity_step plan = Some s"
  shows "1 \<le> as_index s" "as_index s \<le> length (plan_steps plan)" "as_total s = length (plan_steps plan)"
    "as_label s = step_label (plan_steps plan ! (as_index s - 1))" "visible (as_label s)"
proof -
  from assms obtain i where i: "display_index (plan_steps plan) = Some i" "plan_activeIndex plan = Some i"
    by (auto simp: plan_ok_def activity_step_def split: option.splits)
  have r: "i < length (plan_steps plan)" using display_index_range [OF i(1)] .
  have l: "visible (step_label (plan_steps plan ! i))"
    using assms(1) nth_mem [OF r] visible_safe_text unfolding plan_ok_def by blast
  show "1 \<le> as_index s" "as_index s \<le> length (plan_steps plan)" "as_total s = length (plan_steps plan)"
    "as_label s = step_label (plan_steps plan ! (as_index s - 1))" "visible (as_label s)"
    using assms(2) i r l by (auto simp: activity_step_def)
qed

lemma visible_activity_action:
  assumes "plan_ok plan" "latestItemStart events runId = item"
    "state \<in> set TERMINAL_STATES \<union> {''running'', ''queued'', ''idle''}"
  shows "activity_action state (activity_step plan) (reasoningSummary events runId) item assistant = [] \<or>
     visible (activity_action state (activity_step plan) (reasoningSummary events runId) item assistant)"
    "activity_action state (activity_step plan) (reasoningSummary events runId) item assistant = []
       \<longleftrightarrow> state = ''idle''"
proof -
  have fixed: "visible (js ''Waiting in queue'')" "visible (js ''Generating a response'')"
    "visible (js ''Working on the request'')" "visible (js ''Run completed'')" "visible (js ''Run failed'')"
    "visible (js ''Run cancelled'')" "visible (js ''Run interrupted'')"
    by (simp_all add: visible_def js_def printable_def is_ws_def)
  have step: "activity_step plan = Some s \<Longrightarrow> visible (as_label s)" for s
    using activity_step_ok(5) [OF assms(1)] .
  have item: "item = Some i \<Longrightarrow> visible (si_label i)" for i
    using assms(2) item_start_label by (auto simp: latestItemStart_def)
  have reason: "reasoningSummary events runId \<noteq> [] \<Longrightarrow> visible (reasoningSummary events runId)"
    using visible_safe_text reasoningSummary_ok by blast
  let ?a = "activity_action state (activity_step plan) (reasoningSummary events runId) item assistant"
  show "?a = [] \<or> visible ?a"
    using fixed step item reason
    by (auto simp: activity_action_def Let_def str_or_def split: option.splits)
  show "?a = [] \<longleftrightarrow> state = ''idle''"
    using assms(3) by (auto simp: activity_action_def Let_def TERMINAL_STATES_def)
qed

section \<open>Properties\<close>

text \<open>What the activity strip may rely on, whatever the thread and the events are.\<close>

definition run_activity_ok :: "run_activity \<Rightarrow> bool" where
  "run_activity_ok a \<longleftrightarrow>
     ra_state a \<in> {''idle'', ''queued'', ''running'', ''completed'', ''failed'', ''cancelled'', ''interrupted''}
     \<and> \<not> (ra_busy a \<and> ra_terminal a)
     \<and> (ra_state a = ''idle'' \<longleftrightarrow> \<not> ra_busy a \<and> \<not> ra_terminal a)
     \<and> safe_text MAX_ACTION_TEXT (ra_action a) \<and> (ra_action a = [] \<longleftrightarrow> ra_state a = ''idle'')
     \<and> (ra_runId a = [] \<or> id_pattern 256 (ra_runId a))
     \<and> length (ra_stages a) \<le> MAX_PLAN_STEPS
     \<and> (case ra_step a of None \<Rightarrow> ra_stages a = []
        | Some s \<Rightarrow> 1 \<le> as_index s \<and> as_index s \<le> as_total s \<and> as_total s = length (ra_stages a)
            \<and> as_label s = step_label (fst (ra_stages a ! (as_index s - 1))))
     \<and> length (ra_actionHistory a) \<le> MAX_HISTORY_ITEMS
     \<and> distinct (map (\<lambda>h. history_key (hi_kind h) (hi_label h)) (ra_actionHistory a))
     \<and> (\<forall>h\<in>set (ra_actionHistory a). hi_label h \<noteq> [] \<and> safe_text MAX_ACTION_TEXT (hi_label h))
     \<and> pt_changed (ra_files a) \<le> MAX_PATCH_CHANGES
     \<and> (case ra_subagents a of None \<Rightarrow> True
        | Some (s, q) \<Rightarrow> subagents_ok s \<and> (ra_terminal a \<longrightarrow> sa_active s = 0))
     \<and> (ra_assistant a = ''streaming'' \<longrightarrow> ra_state a = ''running'')"

text \<open>
  C24: Whatever thread snapshot and event history it is given, the projection yields
  a consistent view: one of seven states, never busy and terminal at once; an
  action text that is empty exactly in the idle state, at most 240 units long and
  free of control characters; a current step within the plan it belongs to; a
  bounded history without repetitions; a bounded file count; sub-agent totals that
  add up, with none active in a terminal state; and a streaming answer only while
  the run is running.
\<close>

theorem run_activity_well_formed: "run_activity_ok (getRunActivityViewModel thread events)"
proof -
  let ?es = "normalizeRunEvents events"
  let ?r = "activity_runId thread ?es"
  let ?sc = "scoped_events ?r ?es"
  let ?st = "activity_state thread (runEventState ?sc ?r)"
  let ?plan = "currentPlan ?sc ?r"
  let ?as = "activity_assistant ?st (assistantState ?sc ?r)"
  let ?a = "activity_action ?st (activity_step ?plan) (reasoningSummary ?sc ?r) (latestItemStart ?sc ?r) ?as"
  note st = activity_state_range [of thread ?sc ?r]
  note plan = currentPlan_ok [of ?sc ?r]
  have act: "safeText (JStr ?a) MAX_ACTION_TEXT = [] \<longleftrightarrow> ?st = ''idle''"
  proof -
    have n: "1 \<le> MAX_ACTION_TEXT" by (simp add: MAX_ACTION_TEXT_def)
    then have "safeText (JStr []) MAX_ACTION_TEXT = []" using safeText_id [of _ "[]"] by simp
    moreover have "visible ?a \<Longrightarrow> safeText (JStr ?a) MAX_ACTION_TEXT \<noteq> []"
      using visible_safeText n by blast
    ultimately show ?thesis
      using visible_activity_action [OF plan refl st, where assistant = ?as] by metis
  qed
  let ?stages = "map (\<lambda>(i, s). (s, i + 1)) (enumerate 0 (plan_steps ?plan))"
  have step: "case activity_step ?plan of None \<Rightarrow> ?stages = []
      | Some s \<Rightarrow> 1 \<le> as_index s \<and> as_index s \<le> as_total s \<and> as_total s = length ?stages
            \<and> as_label s = step_label (fst (?stages ! (as_index s - 1)))"
  proof (cases "activity_step ?plan")
    case None
    then show ?thesis using plan display_index_None by (auto simp: activity_step_def plan_ok_def split: option.splits)
  next
    case (Some s)
    from activity_step_ok [OF plan Some] have
      "1 \<le> as_index s" "as_index s \<le> length (plan_steps ?plan)" "as_total s = length (plan_steps ?plan)"
      "as_label s = step_label (plan_steps ?plan ! (as_index s - 1))" by blast+
    then show ?thesis using Some by (simp add: nth_enumerate_eq)
  qed
  have sub: "case (if ?st \<in> set TERMINAL_STATES
         then (case latestSubagentSnapshot ?sc ?r of None \<Rightarrow> None
               | Some (s, q) \<Rightarrow> map_option (\<lambda>s. (s, q)) (clearTerminalSubagentActivity (Some s)))
         else latestSubagentSnapshot ?sc ?r) of None \<Rightarrow> True
        | Some (s, q) \<Rightarrow> subagents_ok s \<and> (?st \<in> set TERMINAL_STATES \<longrightarrow> sa_active s = 0)"
    by (rule projected_subagents_ok)
  have strm: "?as = ''streaming'' \<longrightarrow> ?st = ''running''"
    by (auto simp: activity_assistant_def)
  have len: "length ?stages \<le> MAX_PLAN_STEPS" using plan by (simp add: plan_ok_def)
  have states:
    "x \<in> {''idle'', ''queued'', ''running'', ''completed'', ''failed'', ''cancelled'', ''interrupted''}"
    "\<not> ((x = ''queued'' \<or> x = ''running'') \<and> x \<in> set TERMINAL_STATES)"
    "x = ''idle'' \<longleftrightarrow> \<not> (x = ''queued'' \<or> x = ''running'') \<and> x \<notin> set TERMINAL_STATES"
    if "x \<in> set TERMINAL_STATES \<union> {''running'', ''queued'', ''idle''}" for x
    using that by (auto simp: TERMINAL_STATES_def)
  note history = actionHistory_ok [of ?sc ?r "reasoningSummary ?sc ?r"]
  show ?thesis
    unfolding run_activity_ok_def getRunActivityViewModel_def Let_def run_activity.simps
    by (intro conjI; fact states(1) [OF st] states(2) [OF st] states(3) [OF st] act step sub strm len
      conjunct1 [OF history] conjunct1 [OF conjunct2 [OF history]] conjunct2 [OF conjunct2 [OF history]]
      patchCounts_bound activity_runId_ok safeText_ok)
qed



definition orphan_events :: jsval where
  "orphan_events = JArr
     [JObj [(js ''sequence'', jint 1), (js ''event_type'', jlit ''run.started''),
            (js ''payload'', JObj [(js ''run_id'', jlit ''run-9'')])]]"



lemma normalizeRunEvents_filter:
  "normalizeRunEvents (JArr (filter P (normalizeRunEvents events))) = filter P (normalizeRunEvents events)"
proof -
  let ?es = "normalizeRunEvents events"
  have "sorted (map seq_of ?es)" by (simp add: normalizeRunEvents_def slice_last_def sorted_wrt_drop flip: drop_map)
  then have "sort_key seq_of (filter P ?es) = filter P ?es" by (simp add: sorted_filter sort_key_id_if_sorted)
  moreover have "filter valid_event (filter P ?es) = filter P ?es"
    by (rule filter_True) (auto dest: set_normalizeRunEvents)
  moreover have "length (filter P ?es) \<le> MAX_EVENTS"
    using length_filter_le [of P ?es] by (simp add: normalizeRunEvents_def)
  ultimately show ?thesis by (simp add: normalizeRunEvents_def [of "JArr (filter P ?es)"])
qed

lemma view_of_own_events:
  assumes "run_id_of (dot thread ''active_run_id'') = r" "r \<noteq> []"
    "thread_status thread \<in> set (map js BUSY_STATUSES) \<union> {js ''queued''}"
    "filter (\<lambda>e. eventBelongsToRun e r) (normalizeRunEvents xs) = filter (\<lambda>e. eventBelongsToRun e r) (normalizeRunEvents ys)"
  shows "getRunActivityViewModel thread xs = getRunActivityViewModel thread ys"
proof -
  have run: "activity_runId thread zs = r" for zs
    using assms(1-3) by (auto simp: activity_runId_def str_or_def)
  have sc: "scoped_events r (normalizeRunEvents xs) = scoped_events r (normalizeRunEvents ys)"
    using assms(2,4) by (simp add: scoped_events_def)
  show ?thesis unfolding getRunActivityViewModel_def Let_def run sc ..
qed

text \<open>
  C26: While a thread is live on a named run, the view is a function of the events of
  that run, or of no run, inside the window of the newest 2000 valid events: whatever
  other events the window holds, the view is the one of its own events alone. As long
  as the whole history fits the window, leaving out the events of other runs changes
  nothing; a longer history may lose events of the run to the window.
\<close>

theorem foreign_run_isolation:
  assumes "run_id_of (dot thread ''active_run_id'') = r" and "r \<noteq> []"
    and "thread_status thread \<in> set (map js BUSY_STATUSES) \<union> {js ''queued''}"
  shows "getRunActivityViewModel thread events
      = getRunActivityViewModel thread (JArr (filter (\<lambda>e. eventBelongsToRun e r) (normalizeRunEvents events)))
    \<and> (length (filter valid_event (as_list events)) \<le> MAX_EVENTS \<longrightarrow> getRunActivityViewModel thread events
      = getRunActivityViewModel thread (JArr (filter (\<lambda>e. eventBelongsToRun e r) (as_list events))))"
proof -
  let ?P = "\<lambda>e. eventBelongsToRun e r" and ?es = "as_list events"
  have own: "filter ?P (normalizeRunEvents events) = filter ?P (normalizeRunEvents (JArr (filter ?P ?es)))"
    if fits: "length (filter valid_event ?es) \<le> MAX_EVENTS"
  proof -
    have "length (filter valid_event (filter ?P ?es)) \<le> MAX_EVENTS"
      using fits length_filter_le [of ?P "filter valid_event ?es"] by (simp add: conj_commute)
    then show ?thesis using fits by (simp add: normalizeRunEvents_def filter_sort conj_ac)
  qed
  have window: "filter ?P (normalizeRunEvents events) = filter ?P (normalizeRunEvents (JArr (filter ?P (normalizeRunEvents events))))"
    unfolding normalizeRunEvents_filter by simp
  show ?thesis
    by (rule conjI [OF view_of_own_events [OF assms window] impI [OF view_of_own_events [OF assms own]]])
qed

definition busy_thread :: jsval where
  "busy_thread = JObj [(js ''status'', jlit ''running''), (js ''active_run_id'', jlit ''run-1'')]"

theorem foreign_run_isolation_witness:
  "getRunActivityViewModel busy_thread orphan_events = getRunActivityViewModel busy_thread (JArr [])"
proof -
  have s: "thread_status busy_thread = js ''running''"
    by (simp add: thread_status_def busy_thread_def dot_JObj obj_get_def safeText_def blank_controls_eq
        js_def printable_def js_lower_def lower_unit_def is_ws_def js_trim_def)
  have r: "run_id_of (dot busy_thread ''active_run_id'') = js ''run-1''"
    by (simp add: busy_thread_def dot_JObj obj_get_def run_id_of_def id_pattern_def js_def
        is_id_char_def is_alpha_def is_digit_def)
  define es where "es = as_list orphan_events"
  have none: "filter (\<lambda>e. eventBelongsToRun e (js ''run-1'')) es = []"
    by (simp add: es_def orphan_events_def eventBelongsToRun_def eventRunId_def eventPayload_def dot_JObj obj_get_def
        run_id_of_def id_pattern_def js_def is_id_char_def is_alpha_def is_digit_def)
  have fits: "length (filter valid_event es) \<le> MAX_EVENTS"
    using length_filter_le [of valid_event es] by (simp add: es_def orphan_events_def MAX_EVENTS_def)
  have "thread_status busy_thread \<in> set (map js BUSY_STATUSES) \<union> {js ''queued''}" "js ''run-1'' \<noteq> []"
    by (simp_all add: s BUSY_STATUSES_def js_def)
  from foreign_run_isolation [OF r this(2,1), THEN conjunct2, THEN mp, OF fits [unfolded es_def]]
  show ?thesis using none by (simp add: es_def)
qed

text \<open>
  The message shown for a failed run is the fixed sentence of its failure type,
  or the generic one, exactly when the failure type is not the name of a property
  every JavaScript object inherits; for those names (constructor, toString and the
  like) the lookup yields that inherited member instead of a sentence.
\<close>

theorem failure_message_exact:
  "getSafeRunFailureMessage (JObj [(js ''event_type'', jlit ''run.failed''),
      (js ''payload'', JObj [(js ''failure_type'', JStr t)])]) \<in> snd ` set SAFE_FAILURE_MESSAGES
   \<longleftrightarrow> safeText (JStr t) 96 \<notin> set (map js (''constructor'' # ''__proto__'' # proto_functions))"
proof -
  let ?k = "safeText (JStr t) 96"
  have vals: "\<forall>v\<in>snd ` set SAFE_FAILURE_MESSAGES. \<exists>s. v = JStr s \<and> s \<noteq> []"
    by (simp add: SAFE_FAILURE_MESSAGES_def)
  have keys: "\<forall>k\<in>fst ` set SAFE_FAILURE_MESSAGES. k \<notin> set (map js (''constructor'' # ''__proto__'' # proto_functions))"
    by (simp add: SAFE_FAILURE_MESSAGES_def proto_functions_def)
  have generic: "obj_index SAFE_FAILURE_MESSAGES (js ''run.failed'') \<in> snd ` set SAFE_FAILURE_MESSAGES"
    by (simp add: obj_index_def SAFE_FAILURE_MESSAGES_def)
  have msg: "getSafeRunFailureMessage (JObj [(js ''event_type'', jlit ''run.failed''),
      (js ''payload'', JObj [(js ''failure_type'', JStr t)])])
    = js_or (obj_index SAFE_FAILURE_MESSAGES ?k) (obj_index SAFE_FAILURE_MESSAGES (js ''run.failed''))"
    by (simp add: getSafeRunFailureMessage_def type_is_def dot_JObj obj_get_def eventPayload_def)
  show ?thesis
  proof (cases "map_of SAFE_FAILURE_MESSAGES ?k")
    case (Some v)
    then have m: "(?k, v) \<in> set SAFE_FAILURE_MESSAGES" by (rule map_of_SomeD)
    then have "v \<in> snd ` set SAFE_FAILURE_MESSAGES" "?k \<in> fst ` set SAFE_FAILURE_MESSAGES" by force+
    moreover from this vals have "truthy v" by auto
    moreover from keys \<open>?k \<in> fst ` set SAFE_FAILURE_MESSAGES\<close> have "?k \<notin> set (map js (''constructor'' # ''__proto__'' # proto_functions))" by blast
    ultimately show ?thesis
      unfolding msg using Some by (simp add: obj_index_def js_or_def)
  next
    case None
    then have i: "obj_index SAFE_FAILURE_MESSAGES ?k = proto_get ?k" by (simp add: obj_index_def)
    show ?thesis
    proof (cases "?k \<in> set (map js (''constructor'' # ''__proto__'' # proto_functions))")
      case True
      then have "truthy (proto_get ?k) \<and> \<not> is_string (proto_get ?k)"
        by (auto simp: proto_get_def)
      moreover from this vals have "proto_get ?k \<notin> snd ` set SAFE_FAILURE_MESSAGES" by fastforce
      ultimately show ?thesis unfolding msg i using True by (simp add: js_or_def)
    next
      case False
      then have "proto_get ?k = JUndefined" by (simp add: proto_get_def)
      then show ?thesis unfolding msg i using False generic by (simp add: js_or_def)
    qed
  qed
qed

end
