(* ===== verification/Approval.thy ===== *)
theory Approval
  imports Dom
begin

text \<open>
  The approval card (\<open>src/frontend/src/views/approval.js\<close>): the projection of a pending
  command or file-change request and the card it is rendered to. \<open>Date.parse\<close> and
  \<open>toISOString\<close> depend on the host's calendar and are the parameters \<open>dateParse\<close>
  and \<open>isoString\<close>.
\<close>

section \<open>Text\<close>

definition MAX_TITLE_LENGTH :: nat where "MAX_TITLE_LENGTH = 160"
definition MAX_SUMMARY_LENGTH :: nat where "MAX_SUMMARY_LENGTH = 512"
definition MAX_COMMAND_LENGTH :: nat where "MAX_COMMAND_LENGTH = 512"
definition MAX_SCOPE_PATHS :: nat where "MAX_SCOPE_PATHS = 128"

definition plain_char :: "nat \<Rightarrow> bool" where
  "plain_char code \<longleftrightarrow> code > 31 \<and> code \<noteq> 127"

definition plainText :: "jsval \<Rightarrow> nat \<Rightarrow> jstr" where
  "plainText v limit =
     (if \<not> is_string v then []
      else take limit (js_trim (concat (filter (\<lambda>c. plain_char (codePointAt0 c)) (js_chars (as_string v))))))"

definition str_default :: "jstr \<Rightarrow> jstr \<Rightarrow> jstr" where
  "str_default s d = (if s = [] then d else s)"

definition drive_letter :: "jstr \<Rightarrow> bool" where
  "drive_letter path = (case path of u # v # _ \<Rightarrow> is_alpha u \<and> v = 58 | _ \<Rightarrow> False)"

definition safeWorkspacePath :: "jsval \<Rightarrow> jstr option" where
  "safeWorkspacePath v =
     (let path = map (\<lambda>u. if u = 92 then 47 else u) (plainText v 240) in
      if path = [] \<or> starts_with [47] path \<or> drive_letter path \<or> js_includes (js ''://'') path then None
      else if list_all (\<lambda>s. s \<noteq> [] \<and> s \<noteq> js ''.'' \<and> s \<noteq> js ''..'') (split_on 47 path) then Some path
      else None)"

section \<open>Expiry\<close>

text \<open>\<open>s.replace(p, "")\<close>: the first occurrence is removed.\<close>

fun remove_first :: "jstr \<Rightarrow> jstr \<Rightarrow> jstr" where
  "remove_first p [] = []"
| "remove_first p (u # us) =
     (if starts_with p (u # us) then drop (length p) (u # us) else u # remove_first p us)"

record expiry =
  expired :: bool
  expiry_label :: jstr

record clock =
  dateParse :: "jstr \<Rightarrow> jsnum"
  isoString :: "rat \<Rightarrow> jstr"

definition expiryState :: "clock \<Rightarrow> jsval \<Rightarrow> rat \<Rightarrow> expiry" where
  "expiryState ck v now =
     (if \<not> is_string v then \<lparr>expired = True, expiry_label = js ''Expiry unavailable''\<rparr>
      else case dateParse ck (as_string v) of
        Fin timestamp \<Rightarrow>
          if timestamp \<le> now then \<lparr>expired = True, expiry_label = js ''Expired''\<rparr>
          else \<lparr>expired = False,
                expiry_label = js ''Expires '' @ remove_first (js ''.000'') (isoString ck timestamp)\<rparr>
      | _ \<Rightarrow> \<lparr>expired = True, expiry_label = js ''Expiry unavailable''\<rparr>)"

section \<open>The view model\<close>

definition APPROVAL_ACTIONS :: "(string \<times> string) list" where
  "APPROVAL_ACTIONS = [(''accept'', ''Accept''), (''decline'', ''Decline''), (''cancel'', ''Cancel'')]"

record approval_action =
  aa_id :: string
  aa_label :: string
  aa_disabled :: bool

record approval_model =
  ap_interactionId :: jstr
  ap_title :: jstr
  ap_summary :: jstr
  ap_kind :: string
  ap_command :: "jstr option"
  ap_scope :: "jstr list"
  ap_expiry :: jstr
  ap_state :: string
  ap_disabled :: bool
  ap_actions :: "approval_action list"

text \<open>The options object of both interaction views.\<close>

record view_options =
  vo_now :: rat
  vo_pending :: bool
  vo_stale :: bool

definition interaction_display :: "jsval \<Rightarrow> jsval" where
  "interaction_display interaction =
     (if truthy interaction \<and> is_object (dot interaction ''display'') then dot interaction ''display'' else JObj [])"

definition interaction_unavailable :: "clock \<Rightarrow> jsval \<Rightarrow> view_options \<Rightarrow> bool" where
  "interaction_unavailable ck interaction o' \<longleftrightarrow>
     vo_pending o' \<or> vo_stale o' \<or> expired (expiryState ck (dot interaction ''expires_at'') (vo_now o'))
     \<or> dot interaction ''status'' \<noteq> jlit ''pending''"

definition interaction_state :: "clock \<Rightarrow> jsval \<Rightarrow> view_options \<Rightarrow> string" where
  "interaction_state ck interaction o' =
     (if vo_pending o' then ''submitting'' else if vo_stale o' then ''stale''
      else if expired (expiryState ck (dot interaction ''expires_at'') (vo_now o')) then ''expired''
      else if dot interaction ''status'' = jlit ''pending'' then ''ready'' else ''unavailable'')"

text \<open>
  \<open>typeof null\<close> is "object", so a null \<open>display\<close> is read from and raises a
  TypeError: the result \<open>None\<close>.
\<close>

definition getApprovalViewModel :: "clock \<Rightarrow> jsval \<Rightarrow> view_options \<Rightarrow> approval_model option" where
  "getApprovalViewModel ck interaction o' =
     (let display = interaction_display interaction;
          ex = expiryState ck (dot interaction ''expires_at'') (vo_now o');
          unavailable = interaction_unavailable ck interaction o';
          allowedActions = as_list (dot interaction ''allowed_actions'');
          actions = map (\<lambda>(i, l). \<lparr>aa_id = i, aa_label = l, aa_disabled = unavailable\<rparr>)
            (filter (\<lambda>(i, l). jlit i \<in> set allowedActions) APPROVAL_ACTIONS);
          scope = take MAX_SCOPE_PATHS
            (List.map_filter safeWorkspacePath (as_list (dot display ''workspace_paths'')));
          command = plainText (dot display ''command'') MAX_COMMAND_LENGTH;
          kind = (if dot interaction ''kind'' = jlit ''file_change_approval''
                  then ''File change approval'' else ''Command approval'') in
      if display = JNull then None
      else Some \<lparr>ap_interactionId = as_string (dot interaction ''interaction_id''),
        ap_title = str_default (plainText (dot display ''title'') MAX_TITLE_LENGTH) (js kind),
        ap_summary = str_default (plainText (dot display ''summary'') MAX_SUMMARY_LENGTH)
          (js ''Codex needs your decision to continue.''),
        ap_kind = kind, ap_command = (if command = [] then None else Some command), ap_scope = scope,
        ap_expiry = expiry_label ex, ap_state = interaction_state ck interaction o',
        ap_disabled = unavailable, ap_actions = actions\<rparr>)"

section \<open>Rendering\<close>

definition accessible_id :: "jstr \<Rightarrow> jstr" where
  "accessible_id interactionId = (if id_pattern 128 interactionId then interactionId else js ''pending'')"

definition bool_String :: "bool \<Rightarrow> jsval" where
  "bool_String b = (if b then jlit ''true'' else jlit ''false'')"

text \<open>The title, summary and status paragraphs both interaction cards start with.\<close>

definition decision_head :: "jstr \<Rightarrow> jstr \<Rightarrow> jstr \<Rightarrow> jstr \<Rightarrow> jstr \<Rightarrow> dom list" where
  "decision_head titleId summaryId title summary status =
     [text_el ''h3'' [(''id'', JStr titleId)] title,
      text_el ''p'' [(''id'', JStr summaryId)] summary,
      text_el ''p'' [(''class'', jlit ''decision-status''), (''role'', jlit ''status''),
                     (''aria-live'', jlit ''polite'')] status]"

definition approval_button :: "approval_action \<Rightarrow> dom" where
  "approval_button action =
     text_el ''button'' [(''type'', jlit ''button''),
       (''data-action'', JStr (js (aa_id action) @ js ''-interaction'')),
       (''data-decision'', jlit (aa_id action)), (''disabled'', JBool (aa_disabled action)),
       (''aria-disabled'', bool_String (aa_disabled action))] (js (aa_label action))"

definition approval_command :: "approval_model \<Rightarrow> dom list" where
  "approval_command model =
     (case ap_command model of None \<Rightarrow> []
      | Some c \<Rightarrow> [text_el ''span'' [(''class'', jlit ''decision-label'')] (js ''Command''),
                   text_el ''pre'' [(''class'', jlit ''decision-command'')] c])"

definition approval_scope :: "approval_model \<Rightarrow> dom list" where
  "approval_scope model =
     (if ap_scope model = [] then []
      else [text_el ''span'' [(''class'', jlit ''decision-label'')] (js ''Workspace files''),
            El ''ul'' [(''class'', jlit ''decision-scope'')] (map (text_el ''li'' []) (ap_scope model))])"

definition renderApproval :: "dom \<Rightarrow> approval_model \<Rightarrow> dom" where
  "renderApproval container model =
     (let accessibleId = accessible_id (ap_interactionId model);
          titleId = js ''approval-'' @ accessibleId @ js ''-title'';
          summaryId = js ''approval-'' @ accessibleId @ js ''-summary'' in
      replaceChildren
        [El ''section''
           [(''class'', JStr (js ''approval-card approval-'' @ js (ap_state model))),
            (''role'', jlit ''alertdialog''), (''aria-modal'', jlit ''false''), (''tabIndex'', jint (-1)),
            (''aria-labelledby'', JStr titleId), (''aria-describedby'', JStr summaryId)]
           (decision_head titleId summaryId (ap_title model) (ap_summary model)
              (if ap_state model = ''submitting'' then js ''Sending decision...'' else ap_expiry model)
            @ approval_command model @ approval_scope model
            @ [El ''div'' [(''class'', jlit ''decision-actions'')] (map approval_button (ap_actions model))])]
        container)"

section \<open>Lemmas\<close>

lemma plainText_eq: "plainText (JStr s) n = take n (js_trim (filter plain_char s))"
proof -
  have "concat (filter (\<lambda>c. plain_char (codePointAt0 c)) (js_chars s)) = filter plain_char s"
    by (rule filter_js_chars) (simp add: plain_char_def)
  then show ?thesis by (simp add: plainText_def)
qed

lemma plainText_nonstring [simp]: "\<not> is_string v \<Longrightarrow> plainText v n = []"
  by (simp add: plainText_def)

lemma length_plainText [js_bounds]: "length (plainText v n) \<le> n"
  by (simp add: plainText_def)

lemma plainText_chars: "u \<in> set (plainText v n) \<Longrightarrow> plain_char u"
  using set_js_trim by (cases v) (fastforce simp: plainText_eq dest: in_set_takeD)+

lemma safeWorkspacePath_Some:
  assumes "safeWorkspacePath v = Some path"
  shows "path \<noteq> [] \<and> length path \<le> 240 \<and> \<not> starts_with [47] path \<and> \<not> drive_letter path
    \<and> \<not> js_includes (js ''://'') path \<and> 92 \<notin> set path \<and> (\<forall>u\<in>set path. plain_char u)
    \<and> (\<forall>s\<in>set (split_on 47 path). s \<noteq> [] \<and> s \<noteq> js ''.'' \<and> s \<noteq> js ''..'')"
  using assms length_plainText [of v 240] plainText_chars [of _ v 240]
  by (fastforce simp: safeWorkspacePath_def Let_def list_all_iff plain_char_def split: if_splits)

lemma unavailable_iff_not_ready:
  "interaction_unavailable ck i o' \<longleftrightarrow> interaction_state ck i o' \<noteq> ''ready''"
  by (simp add: interaction_unavailable_def interaction_state_def)

lemma decision_head_elements: "concat (map elements (decision_head a b c d e)) = decision_head a b c d e"
  by (simp add: decision_head_def)

definition buttons :: "dom \<Rightarrow> dom list" where
  "buttons d = filter (is_tag ''button'') (elements d)"

lemma elements_leaves: "\<forall>x\<in>set xs. elements (f x) = [f x] \<Longrightarrow> concat (map (elements \<circ> f) xs) = map f xs"
  by (induction xs) auto

lemma buttons_renderApproval:
  assumes "container = El t as ks" "t \<noteq> ''button''"
  shows "buttons (renderApproval container model) = map approval_button (ap_actions model)"
proof -
  have b: "elements (approval_button a) = [approval_button a]" "is_tag ''button'' (approval_button a)" for a
    by (simp_all add: approval_button_def)
  have h: "filter (is_tag ''button'') (concat (map elements (decision_head a b c d e))) = []" for a b c d e
    by (simp add: decision_head_elements) (simp add: decision_head_def)
  have c: "filter (is_tag ''button'') (concat (map elements (approval_command model))) = []"
    by (simp add: approval_command_def split: option.split)
  have s: "filter (is_tag ''button'') (concat (map elements (approval_scope model))) = []"
    by (simp add: approval_scope_def filter_concat_map comp_def)
  have f: "filter (is_tag ''button'') (concat (map (elements \<circ> approval_button) as)) = map approval_button as" for as
    by (simp add: elements_leaves b filter_id_conv)
  show ?thesis
    using assms by (simp add: buttons_def renderApproval_def Let_def h c s f filter_append)
qed

lemma getApprovalViewModel_Some:
  assumes "getApprovalViewModel ck i o' = Some m"
  shows "ap_actions m = map (\<lambda>(k, l). \<lparr>aa_id = k, aa_label = l, aa_disabled = interaction_unavailable ck i o'\<rparr>)
      (filter (\<lambda>(k, l). jlit k \<in> set (as_list (dot i ''allowed_actions''))) APPROVAL_ACTIONS)"
    "ap_scope m = take MAX_SCOPE_PATHS
      (List.map_filter safeWorkspacePath (as_list (dot (interaction_display i) ''workspace_paths'')))"
  using assms by (auto simp: getApprovalViewModel_def Let_def split: if_splits)

lemma available_iff:
  "\<not> interaction_unavailable ck i o' \<longleftrightarrow> \<not> vo_pending o' \<and> \<not> vo_stale o'
     \<and> dot i ''status'' = jlit ''pending''
     \<and> (\<exists>s t. dot i ''expires_at'' = JStr s \<and> dateParse ck s = Fin t \<and> vo_now o' < t)"
  by (cases "dot i ''expires_at''")
    (auto simp: interaction_unavailable_def expiryState_def not_le split: jsnum.splits)

section \<open>Properties\<close>

text \<open>
  C27: The rendered card offers an enabled button for a decision exactly when the
  decision is accept, decline or cancel, the server allows it, the request is
  still pending and not stale, no submission is in flight, and its expiry time
  parses and lies in the future.
\<close>

theorem approval_enabled_decisions:
  assumes "getApprovalViewModel ck i o' = Some m"
  shows "(\<exists>b\<in>set (buttons (renderApproval (El ''div'' as ks) m)).
       get_attr b ''data-decision'' = jlit d \<and> get_attr b ''disabled'' = JBool False)
     \<longleftrightarrow> d \<in> {''accept'', ''decline'', ''cancel''} \<and> jlit d \<in> set (as_list (dot i ''allowed_actions''))
       \<and> \<not> vo_pending o' \<and> \<not> vo_stale o' \<and> dot i ''status'' = jlit ''pending''
       \<and> (\<exists>s t. dot i ''expires_at'' = JStr s \<and> dateParse ck s = Fin t \<and> vo_now o' < t)"
proof -
  have b: "get_attr (approval_button a) ''data-decision'' = jlit d \<longleftrightarrow> aa_id a = d"
    "get_attr (approval_button a) ''disabled'' = JBool False \<longleftrightarrow> \<not> aa_disabled a" for a
    by (simp_all add: approval_button_def get_attr_El)
  have "(\<exists>b\<in>set (buttons (renderApproval (El ''div'' as ks) m)).
       get_attr b ''data-decision'' = jlit d \<and> get_attr b ''disabled'' = JBool False)
     \<longleftrightarrow> (\<exists>a\<in>set (ap_actions m). aa_id a = d \<and> \<not> aa_disabled a)"
    by (simp add: buttons_renderApproval b)
  also have "\<dots> \<longleftrightarrow> d \<in> {''accept'', ''decline'', ''cancel''}
      \<and> jlit d \<in> set (as_list (dot i ''allowed_actions'')) \<and> \<not> interaction_unavailable ck i o'"
    unfolding getApprovalViewModel_Some(1) [OF assms] APPROVAL_ACTIONS_def by auto
  finally show ?thesis unfolding available_iff by blast
qed

definition sample_clock :: clock where
  "sample_clock = \<lparr>dateParse = (\<lambda>s. Fin (of_nat (read_dec s 0))), isoString = (\<lambda>r. dec_int \<lfloor>r\<rfloor>)\<rparr>"

definition sample_approval :: jsval where
  "sample_approval = JObj [(js ''interaction_id'', jlit ''i-1''), (js ''status'', jlit ''pending''),
     (js ''expires_at'', jlit ''200''), (js ''allowed_actions'', JArr [jlit ''accept'', jlit ''decline'']),
     (js ''display'', JObj [(js ''workspace_paths'', JArr [jlit ''a/b'', jlit ''../c''])])]"

abbreviation sample_options :: view_options where
  "sample_options \<equiv> \<lparr>vo_now = 100, vo_pending = False, vo_stale = False\<rparr>"

lemma sample_approval_display: "interaction_display sample_approval \<noteq> JNull"
  by (simp add: interaction_display_def sample_approval_def dot_JObj obj_get_def)

lemma sample_approval_model:
  obtains m where "getApprovalViewModel sample_clock sample_approval sample_options = Some m"
  using sample_approval_display by (auto simp: getApprovalViewModel_def Let_def)

theorem approval_enabled_decisions_witness:
  "\<exists>m. getApprovalViewModel sample_clock sample_approval sample_options = Some m
     \<and> (\<exists>b\<in>set (buttons (renderApproval (El ''div'' [] []) m)).
       get_attr b ''data-decision'' = jlit ''accept'' \<and> get_attr b ''disabled'' = JBool False)
     \<and> \<not> (\<exists>b\<in>set (buttons (renderApproval (El ''div'' [] []) m)).
       get_attr b ''data-decision'' = jlit ''cancel'' \<and> get_attr b ''disabled'' = JBool False)"
proof -
  obtain m where m: "getApprovalViewModel sample_clock sample_approval sample_options = Some m"
    by (rule sample_approval_model)
  show ?thesis
    using m approval_enabled_decisions [OF m, of "[]" "[]" "''accept''"]
      approval_enabled_decisions [OF m, of "[]" "[]" "''cancel''"]
    by (simp add: sample_approval_def dot_JObj obj_get_def sample_clock_def js_def)
qed

text \<open>
  Every file path shown in the scope of a request is a relative path without
  empty, dot or dot-dot segments, backslashes, drive prefix, scheme or control
  characters, at most 240 units long, and at most 128 are shown.
\<close>

theorem approval_scope_safe:
  assumes "getApprovalViewModel ck i o' = Some m"
  shows "length (ap_scope m) \<le> 128 \<and> (\<forall>path\<in>set (ap_scope m).
     path \<noteq> [] \<and> length path \<le> 240 \<and> \<not> starts_with [47] path \<and> \<not> drive_letter path
     \<and> \<not> js_includes (js ''://'') path \<and> 92 \<notin> set path \<and> (\<forall>u\<in>set path. plain_char u)
     \<and> (\<forall>s\<in>set (split_on 47 path). s \<noteq> [] \<and> s \<noteq> js ''.'' \<and> s \<noteq> js ''..''))"
proof (intro conjI ballI)
  show "length (ap_scope m) \<le> 128"
    by (simp add: getApprovalViewModel_Some(2) [OF assms] MAX_SCOPE_PATHS_def)
  fix path assume "path \<in> set (ap_scope m)"
  then obtain v where "safeWorkspacePath v = Some path"
    unfolding getApprovalViewModel_Some(2) [OF assms]
    by (auto simp: mem_map_filter dest!: in_set_takeD)
  note safe = safeWorkspacePath_Some [OF this]
  show "path \<noteq> []" "length path \<le> 240" "\<not> starts_with [47] path" "\<not> drive_letter path"
    "\<not> js_includes (js ''://'') path" "92 \<notin> set path" using safe by blast+
  show "\<And>u. u \<in> set path \<Longrightarrow> plain_char u" using safe by blast
  show "\<And>s. s \<in> set (split_on 47 path) \<Longrightarrow> s \<noteq> []" "\<And>s. s \<in> set (split_on 47 path) \<Longrightarrow> s \<noteq> js ''.''"
    "\<And>s. s \<in> set (split_on 47 path) \<Longrightarrow> s \<noteq> js ''..''" using safe by blast+
qed

theorem approval_scope_safe_witness:
  "\<exists>m. getApprovalViewModel sample_clock sample_approval sample_options = Some m \<and> length (ap_scope m) \<le> 128"
proof -
  obtain m where m: "getApprovalViewModel sample_clock sample_approval sample_options = Some m"
    by (rule sample_approval_model)
  then show ?thesis using approval_scope_safe [OF m] by blast
qed

text \<open>
  The projection fails (a TypeError) exactly for an interaction whose display is
  null; every other value, however malformed, yields a card.
\<close>

theorem approval_projection_total:
  "getApprovalViewModel ck i o' = None \<longleftrightarrow> dot i ''display'' = JNull"
  by (cases i) (auto simp: getApprovalViewModel_def interaction_display_def Let_def is_object_def
      split: jsval.splits)

end
