(* ===== verification/UserInput.thy ===== *)
theory UserInput
  imports Approval
begin

text \<open>
  The question card (\<open>src/frontend/src/views/user-input.js\<close>): the bounded form model of
  a user-input interaction, the form it is rendered to, and the collection of
  the answers from that form. Text and expiry handling are those of the approval
  card, which the source repeats word for word.
\<close>

section \<open>The form model\<close>

definition MAX_QUESTIONS :: nat where "MAX_QUESTIONS = 3"
definition MAX_OPTIONS :: nat where "MAX_OPTIONS = 3"
definition MAX_FREE_TEXT :: nat where "MAX_FREE_TEXT = 4096"

definition safeId :: "jsval \<Rightarrow> jstr \<Rightarrow> jstr" where
  "safeId v fallback = (if is_string v \<and> id_pattern 128 (as_string v) then as_string v else fallback)"

record question_option =
  qo_label :: jstr
  qo_description :: jstr

record question =
  q_id :: jstr
  q_domId :: jstr
  q_header :: jstr
  q_prompt :: jstr
  q_options :: "question_option list"
  q_multiple :: bool
  q_allowFreeText :: bool
  q_selected :: "jstr list"
  q_complete :: bool

record user_input_model =
  ui_interactionId :: jstr
  ui_title :: jstr
  ui_summary :: jstr
  ui_expiry :: jstr
  ui_state :: string
  ui_disabled :: bool
  ui_questions :: "question list"
  ui_submitDisabled :: bool

definition selectedValues :: "jsval \<Rightarrow> question_option list \<Rightarrow> bool \<Rightarrow> jstr list" where
  "selectedValues v options allowFreeText =
     (let raw = (case v of JArr xs \<Rightarrow> xs | JStr s \<Rightarrow> [JStr s] | _ \<Rightarrow> []);
          allowed = set (map qo_label options) in
      take 32 (filter (\<lambda>item. item \<noteq> [] \<and> (item \<in> allowed \<or> allowFreeText))
        (map (\<lambda>item. plainText item MAX_FREE_TEXT) raw)))"

definition object_or_empty :: "jsval \<Rightarrow> jsval" where
  "object_or_empty raw = (if truthy raw \<and> is_object raw then raw else JObj [])"

definition question_option_of :: "jsval \<Rightarrow> question_option option" where
  "question_option_of raw =
     (let option = object_or_empty raw; l = plainText (dot option ''label'') 160;
          d = plainText (dot option ''description'') 512 in
      if l \<noteq> [] \<and> d \<noteq> [] then Some \<lparr>qo_label = l, qo_description = d\<rparr> else None)"

text \<open>
  \<open>answers?.[id]\<close>: the caller's answers, an own property or one inherited from
  \<open>Object.prototype\<close>.
\<close>

definition answer_of :: "jsval \<Rightarrow> jstr \<Rightarrow> jsval" where
  "answer_of answers k = (case answers of JObj kvs \<Rightarrow> obj_index kvs k | _ \<Rightarrow> JUndefined)"

definition question_of :: "jsval \<Rightarrow> nat \<Rightarrow> jsval \<Rightarrow> question" where
  "question_of answers index raw =
     (let q = object_or_empty raw;
          numbered = js ''question-'' @ dec_nat (index + 1);
          i = str_default (plainText (dot q ''question_id'') 128) numbered;
          options = List.map_filter question_option_of (take MAX_OPTIONS (as_list (dot q ''options'')));
          allowFreeText = truthy (dot q ''allow_free_text'');
          selected = selectedValues (answer_of answers i) options allowFreeText in
      \<lparr>q_id = i, q_domId = safeId (dot q ''question_id'') numbered @ js ''-'' @ dec_nat (index + 1),
       q_header = str_default (plainText (dot q ''header'') 160) (js ''Question '' @ dec_nat (index + 1)),
       q_prompt = str_default (plainText (dot q ''prompt'') 2048) (js ''Choose an answer to continue.''),
       q_options = options, q_multiple = truthy (dot q ''multiple''), q_allowFreeText = allowFreeText,
       q_selected = selected, q_complete = (selected \<noteq> [])\<rparr>)"

text \<open>\<open>None\<close> is the TypeError of a null \<open>display\<close>.\<close>

definition getUserInputViewModel :: "clock \<Rightarrow> jsval \<Rightarrow> view_options \<Rightarrow> jsval \<Rightarrow> user_input_model option" where
  "getUserInputViewModel ck interaction o' answers =
     (let display = interaction_display interaction;
          ex = expiryState ck (dot interaction ''expires_at'') (vo_now o');
          unavailable = interaction_unavailable ck interaction o';
          questions = map (\<lambda>(index, raw). question_of answers index raw)
            (enumerate 0 (take MAX_QUESTIONS (as_list (dot display ''questions''))));
          ready = (questions \<noteq> [] \<and> list_all q_complete questions);
          allowedActions = as_list (dot interaction ''allowed_actions'') in
      if display = JNull then None
      else Some \<lparr>ui_interactionId = as_string (dot interaction ''interaction_id''),
        ui_title = str_default (plainText (dot display ''title'') 160) (js ''Codex has a question''),
        ui_summary = str_default (plainText (dot display ''summary'') 512)
          (js ''Answer to continue this Codex turn.''),
        ui_expiry = expiry_label ex, ui_state = interaction_state ck interaction o',
        ui_disabled = unavailable, ui_questions = questions,
        ui_submitDisabled = (unavailable \<or> \<not> ready \<or> jlit ''answer'' \<notin> set allowedActions)\<rparr>)"

section \<open>Rendering\<close>

definition control_name :: "jstr \<Rightarrow> question \<Rightarrow> jstr" where
  "control_name accessibleId q = js ''question-'' @ accessibleId @ js ''-'' @ q_domId q"

definition option_id :: "jstr \<Rightarrow> question \<Rightarrow> nat \<Rightarrow> jstr" where
  "option_id accessibleId q index = control_name accessibleId q @ js ''-option-'' @ dec_nat (index + 1)"

definition free_text_id :: "jstr \<Rightarrow> question \<Rightarrow> jstr" where
  "free_text_id accessibleId q = control_name accessibleId q @ js ''-free-text''"

definition option_control :: "jstr \<Rightarrow> question \<Rightarrow> nat \<Rightarrow> question_option \<Rightarrow> dom" where
  "option_control accessibleId q index opt =
     El ''input'' [(''type'', jlit (if q_multiple q then ''checkbox'' else ''radio'')),
       (''id'', JStr (option_id accessibleId q index)), (''name'', JStr (control_name accessibleId q)),
       (''value'', JStr (qo_label opt)), (''data-question-id'', JStr (q_id q)),
       (''data-answer-value'', JStr (qo_label opt)),
       (''checked'', JBool (qo_label opt \<in> set (q_selected q)))] []"

definition option_label :: "jstr \<Rightarrow> question \<Rightarrow> nat \<times> question_option \<Rightarrow> dom" where
  "option_label accessibleId q io =
     (case io of (index, opt) \<Rightarrow>
        El ''label'' [(''htmlFor'', JStr (option_id accessibleId q index))]
          [option_control accessibleId q index opt, text_el ''span'' [] (qo_label opt),
           text_el ''small'' [] (qo_description opt)])"

text \<open>\<open>question.selected.find((value) => !question.options.some(...)) || ""\<close>.\<close>

definition free_text_value :: "question \<Rightarrow> jstr" where
  "free_text_value q =
     (case find (\<lambda>v. v \<notin> set (map qo_label (q_options q))) (q_selected q) of Some v \<Rightarrow> v | None \<Rightarrow> [])"

definition free_text_area :: "jstr \<Rightarrow> bool \<Rightarrow> question \<Rightarrow> dom" where
  "free_text_area accessibleId disabled q =
     El ''textarea'' [(''id'', JStr (free_text_id accessibleId q)), (''name'', JStr (free_text_id accessibleId q)),
       (''maxLength'', jint (int MAX_FREE_TEXT)), (''disabled'', JBool disabled),
       (''data-question-id'', JStr (q_id q)), (''data-question-free-text'', jlit ''true''),
       (''aria-label'', JStr (q_header q @ js '': other answer'')), (''value'', JStr (free_text_value q))] []"

definition free_text_nodes :: "jstr \<Rightarrow> bool \<Rightarrow> question \<Rightarrow> dom list" where
  "free_text_nodes accessibleId disabled q =
     (if q_allowFreeText q
      then [text_el ''label'' [(''htmlFor'', JStr (free_text_id accessibleId q))] (js ''Other answer''),
            free_text_area accessibleId disabled q]
      else [])"

definition question_fieldset :: "jstr \<Rightarrow> bool \<Rightarrow> question \<Rightarrow> dom" where
  "question_fieldset accessibleId disabled q =
     El ''fieldset'' [(''disabled'', JBool disabled)]
       ([text_el ''legend'' [] (q_header q), text_el ''p'' [] (q_prompt q)]
        @ map (option_label accessibleId q) (enumerate 0 (q_options q))
        @ free_text_nodes accessibleId disabled q)"

definition submit_button :: "user_input_model \<Rightarrow> dom" where
  "submit_button model =
     text_el ''button'' [(''type'', jlit ''button''), (''data-action'', jlit ''answer-interaction''),
       (''disabled'', JBool (ui_submitDisabled model)),
       (''aria-disabled'', bool_String (ui_submitDisabled model))] (js ''Submit answer'')"

definition renderUserInput :: "dom \<Rightarrow> user_input_model \<Rightarrow> dom" where
  "renderUserInput container model =
     (let accessibleId = accessible_id (ui_interactionId model);
          titleId = js ''question-'' @ accessibleId @ js ''-title'';
          summaryId = js ''question-'' @ accessibleId @ js ''-summary'' in
      replaceChildren
        [El ''section''
           [(''class'', JStr (js ''user-input-card user-input-'' @ js (ui_state model))),
            (''role'', jlit ''alertdialog''), (''aria-modal'', jlit ''false''), (''tabIndex'', jint (-1)),
            (''aria-labelledby'', JStr titleId), (''aria-describedby'', JStr summaryId)]
           (decision_head titleId summaryId (ui_title model) (ui_summary model)
              (if ui_state model = ''submitting'' then js ''Sending answer...'' else ui_expiry model)
            @ map (question_fieldset accessibleId (ui_disabled model)) (ui_questions model)
            @ [El ''div'' [(''class'', jlit ''decision-actions'')] [submit_button model]])]
        container)"

section \<open>Collecting the answers\<close>

definition checked_options :: "dom \<Rightarrow> dom list" where
  "checked_options container =
     query (\<lambda>d. get_attr d ''data-question-id'' \<noteq> JUndefined \<and> get_attr d ''data-answer-value'' \<noteq> JUndefined
       \<and> get_attr d ''checked'' = JBool True) container"

definition free_text_controls :: "dom \<Rightarrow> dom list" where
  "free_text_controls container =
     query (\<lambda>d. get_attr d ''data-question-id'' \<noteq> JUndefined
       \<and> get_attr d ''data-question-free-text'' = jlit ''true'') container"

definition unique_values :: "jstr list \<Rightarrow> jstr list" where
  "unique_values xs = rev (remdups (rev xs))"

definition collect_answer :: "dom \<Rightarrow> question \<Rightarrow> (jstr \<times> jstr list) option" where
  "collect_answer container q =
     (let selected = map (\<lambda>c. plainText (get_attr c ''value'') MAX_FREE_TEXT)
            (filter (\<lambda>c. get_attr c ''data-question-id'' = JStr (q_id q)) (checked_options container));
          freeText = find (\<lambda>c. get_attr c ''data-question-id'' = JStr (q_id q)) (free_text_controls container);
          values = (case freeText of None \<Rightarrow> selected
            | Some control \<Rightarrow>
                (let v = plainText (get_attr control ''value'') MAX_FREE_TEXT in
                 if v = [] then selected else if q_multiple q then selected @ [v] else [v]));
          unique = take (if q_multiple q then 32 else 1) (unique_values values) in
      if unique = [] then None else Some (q_id q, unique))"

definition collectUserInputAnswers :: "dom \<Rightarrow> user_input_model \<Rightarrow> (jstr \<times> jstr list) list" where
  "collectUserInputAnswers container model = List.map_filter (collect_answer container) (ui_questions model)"

section \<open>Identifiers of the form\<close>

definition node_ids :: "dom \<Rightarrow> jsval list" where
  "node_ids d = filter (\<lambda>v. v \<noteq> JUndefined) (map (\<lambda>d. get_attr d ''id'') (elements d))"

definition own_id :: "(string \<times> jsval) list \<Rightarrow> jsval list" where
  "own_id as = (case map_of as ''id'' of None \<Rightarrow> [] | Some v \<Rightarrow> if v = JUndefined then [] else [v])"

lemma node_ids_El: "node_ids (El t as ks) = own_id as @ concat (map node_ids ks)"
proof -
  have "filter (\<lambda>v. v \<noteq> JUndefined) (map (\<lambda>d. get_attr d ''id'') (concat (map elements ks))) = concat (map node_ids ks)"
    by (induction ks) (simp_all add: node_ids_def)
  then show ?thesis
    by (simp add: node_ids_def get_attr_El own_id_def split: option.split)
qed

lemma node_ids_text_el: "node_ids (text_el t as s) = own_id as"
  by (simp add: node_ids_def get_attr_El own_id_def split: option.split)

definition question_ids :: "jstr \<Rightarrow> question \<Rightarrow> jstr list" where
  "question_ids a q = map (option_id a q) [0..<length (q_options q)]
     @ (if q_allowFreeText q then [free_text_id a q] else [])"

lemma node_ids_option_label: "node_ids (option_label a q (i, opt)) = [JStr (option_id a q i)]"
  by (simp add: option_label_def option_control_def node_ids_El node_ids_text_el own_id_def)

lemma node_ids_fieldset: "node_ids (question_fieldset a d q) = map JStr (question_ids a q)"
proof -
  have "concat (map (node_ids \<circ> option_label a q) (enumerate n opts)) = map (\<lambda>i. JStr (option_id a q i)) [n..<n + length opts]" for n opts
  proof (induction opts arbitrary: n)
    case (Cons x opts)
    then show ?case
      by (simp add: node_ids_option_label upt_conv_Cons del: upt_Suc)
  qed simp
  from this [of 0 "q_options q"] show ?thesis
    by (simp add: question_fieldset_def question_ids_def node_ids_El node_ids_text_el own_id_def
        free_text_nodes_def free_text_area_def)
qed

lemma node_ids_render:
  "node_ids (renderUserInput (El t [] ks) model) =
     (let a = accessible_id (ui_interactionId model) in
      [JStr (js ''question-'' @ a @ js ''-title''), JStr (js ''question-'' @ a @ js ''-summary'')]
      @ map JStr (concat (map (question_ids a) (ui_questions model))))"
  by (simp add: renderUserInput_def Let_def node_ids_El node_ids_text_el own_id_def decision_head_def
      submit_button_def node_ids_fieldset map_concat comp_def)

lemma dec_nat_digit: "n < 10 \<Longrightarrow> dec_nat n = [48 + n]"
  by (simp add: dec_nat.simps)

lemma question_of_domId:
  assumes "j < 3"
  obtains x where "q_domId (question_of answers j raw) = x @ [49 + j]"
  using assms by (auto simp: question_of_def Let_def dec_nat_digit)

lemma length_question_options: "length (q_options (question_of answers j raw)) \<le> 3"
  using length_map_filter_le [of question_option_of "take MAX_OPTIONS (as_list (dot (object_or_empty raw) ''options''))"]
  by (simp add: question_of_def Let_def MAX_OPTIONS_def)

lemma question_id_shape:
  assumes "j < 3" "v \<in> set (question_ids a (question_of answers j raw))"
  shows "(\<exists>x i. i < 3 \<and> v = x @ [49 + j] @ js ''-option-'' @ [49 + i]) \<or> (\<exists>x. v = x @ [49 + j] @ js ''-free-text'')"
proof -
  let ?q = "question_of answers j raw"
  obtain x where x: "q_domId ?q = x @ [49 + j]" using question_of_domId [OF assms(1)] .
  from assms(2) consider i where "i < length (q_options ?q)" "v = option_id a ?q i" | "v = free_text_id a ?q"
    by (auto simp: question_ids_def split: if_splits)
  then show ?thesis
  proof cases
    case (1 i)
    then have "i < 3" using length_question_options [of answers j raw] by linarith
    with 1 x have "v = (js ''question-'' @ a @ js ''-'' @ x) @ [49 + j] @ js ''-option-'' @ [49 + i]"
      by (simp add: option_id_def control_name_def dec_nat_digit)
    with \<open>i < 3\<close> show ?thesis by blast
  next
    case 2
    with x have "v = (js ''question-'' @ a @ js ''-'' @ x) @ [49 + j] @ js ''-free-text''"
      by (simp add: free_text_id_def control_name_def)
    then show ?thesis by blast
  qed
qed

lemma option_free_disjoint:
  "x @ [d] @ js ''-option-'' @ [49 + i] \<noteq> y @ js ''-free-text''" if "i < 3"
proof
  assume "x @ [d] @ js ''-option-'' @ [49 + i] = y @ js ''-free-text''"
  then have "last (x @ [d] @ js ''-option-'' @ [49 + i]) = last (y @ js ''-free-text'')" by simp
  with that show False by (simp add: js_def)
qed

lemma question_ids_disjoint:
  assumes "j < 3" "k < 3" "j \<noteq> k"
    "v \<in> set (question_ids a (question_of answers j raw))" "v \<in> set (question_ids a (question_of answers k raw'))"
  shows False
proof -
  have opt: "x @ [49 + j] @ js ''-option-'' @ [49 + i] \<noteq> x' @ [49 + k] @ js ''-option-'' @ [49 + i']" for x x' i i'
    using assms(3) by simp
  have free: "x @ [49 + j] @ js ''-free-text'' \<noteq> x' @ [49 + k] @ js ''-free-text''" for x x'
    using assms(3) by simp
  have mixed: "i < 3 \<Longrightarrow> x @ [d] @ js ''-option-'' @ [49 + i] \<noteq> x' @ [e] @ js ''-free-text''" for x x' d e i
    using option_free_disjoint [of i x d "x' @ [e]"] by simp
  show False
    using question_id_shape [OF assms(1,4)] question_id_shape [OF assms(2,5)] opt free mixed by metis
qed

lemma distinct_question_ids: "distinct (question_ids a q)" if "length (q_options q) \<le> 3"
proof -
  have "inj_on (option_id a q) {0..<length (q_options q)}"
    by (auto simp: inj_on_def option_id_def)
  moreover have "free_text_id a q \<notin> option_id a q ` {0..<length (q_options q)}"
  proof (rule notI, erule imageE)
    fix i assume "free_text_id a q = option_id a q i" "i \<in> {0..<length (q_options q)}"
    then have "last (free_text_id a q) = last (option_id a q i)" "i < 3" using that by auto
    then show False by (simp add: free_text_id_def option_id_def dec_nat_digit js_def)
  qed
  ultimately show ?thesis
    by (auto simp: question_ids_def distinct_map)
qed

lemma title_not_question_id:
  assumes "j < 3" "v \<in> set (question_ids a (question_of answers j raw))"
  shows "v \<noteq> x @ js ''-title''" "v \<noteq> x @ js ''-summary''"
proof -
  have l: "last v \<in> {49, 50, 51, 116}"
    using question_id_shape [OF assms] by (auto simp: js_def less_Suc_eq numeral_3_eq_3)
  show "v \<noteq> x @ js ''-title''" "v \<noteq> x @ js ''-summary''"
    using l by (auto simp: js_def)
qed

lemma getUserInputViewModel_questions:
  assumes "getUserInputViewModel ck i o' answers = Some m"
  obtains raws where "length raws \<le> 3" "ui_questions m = map (\<lambda>(j, raw). question_of answers j raw) (enumerate 0 raws)"
  using assms that [of "take MAX_QUESTIONS (as_list (dot (interaction_display i) ''questions''))"]
  by (auto simp: getUserInputViewModel_def Let_def MAX_QUESTIONS_def split: if_splits)

lemma distinct_enumerated_ids:
  "n + length raws \<le> 3 \<Longrightarrow>
     distinct (concat (map (question_ids a) (map (\<lambda>(j, raw). question_of answers j raw) (enumerate n raws))))"
proof (induction raws arbitrary: n)
  case (Cons raw raws)
  have rest: "\<exists>k raw'. n < k \<and> k < 3 \<and> v \<in> set (question_ids a (question_of answers k raw'))"
    if "v \<in> set (concat (map (question_ids a) (map (\<lambda>(j, raw). question_of answers j raw) (enumerate (Suc n) raws))))" for v
  proof -
    from that obtain k where "Suc n \<le> k" "k < Suc n + length raws"
        "v \<in> set (question_ids a (question_of answers k (raws ! (k - Suc n))))"
      by (auto simp: in_set_enumerate_eq)
    with Cons.prems show ?thesis by (intro exI [of _ k] exI [of _ "raws ! (k - Suc n)"]) auto
  qed
  have "distinct (question_ids a (question_of answers n raw))"
    by (rule distinct_question_ids) (rule length_question_options)
  moreover have "set (question_ids a (question_of answers n raw))
      \<inter> set (concat (map (question_ids a) (map (\<lambda>(j, raw). question_of answers j raw) (enumerate (Suc n) raws)))) = {}"
  proof (rule equals0I)
    fix v assume v: "v \<in> set (question_ids a (question_of answers n raw))
      \<inter> set (concat (map (question_ids a) (map (\<lambda>(j, raw). question_of answers j raw) (enumerate (Suc n) raws))))"
    then obtain k raw' where k: "n < k" "k < 3" "v \<in> set (question_ids a (question_of answers k raw'))"
      using rest by blast
    show False
      using question_ids_disjoint [of n k v a answers raw raw'] k v by auto
  qed
  ultimately show ?case using Cons by simp
qed simp

section \<open>Reading the form back\<close>

definition matches :: "(dom \<Rightarrow> bool) \<Rightarrow> dom \<Rightarrow> dom list" where
  "matches P d = filter P (elements d)"

lemma matches_El: "matches P (El t as ks) = (if P (El t as ks) then [El t as ks] else []) @ concat (map (matches P) ks)"
  by (simp add: matches_def [abs_def] filter_concat_map)

lemma matches_text_el: "matches P (text_el t as s) = (if P (text_el t as s) then [text_el t as s] else [])"
  by (simp add: matches_def)

lemma query_matches: "query P (El t as ks) = concat (map (matches P) ks)"
  by (simp add: query_El filter_concat_map matches_def [abs_def])

definition is_checked_option :: "dom \<Rightarrow> bool" where
  "is_checked_option d \<longleftrightarrow> get_attr d ''data-question-id'' \<noteq> JUndefined
     \<and> get_attr d ''data-answer-value'' \<noteq> JUndefined \<and> get_attr d ''checked'' = JBool True"

definition is_free_text :: "dom \<Rightarrow> bool" where
  "is_free_text d \<longleftrightarrow> get_attr d ''data-question-id'' \<noteq> JUndefined
     \<and> get_attr d ''data-question-free-text'' = jlit ''true''"

definition checked_controls :: "jstr \<Rightarrow> question \<Rightarrow> dom list" where
  "checked_controls a q = map (\<lambda>(i, opt). option_control a q i opt)
     (filter (\<lambda>(i, opt). qo_label opt \<in> set (q_selected q)) (enumerate 0 (q_options q)))"

lemma checked_in_fieldset: "matches is_checked_option (question_fieldset a d q) = checked_controls a q"
proof -
  have "concat (map (matches is_checked_option \<circ> option_label a q) ios)
      = map (\<lambda>(i, opt). option_control a q i opt) (filter (\<lambda>(i, opt). qo_label opt \<in> set (q_selected q)) ios)" for ios
    by (induction ios)
      (auto simp: option_label_def matches_El matches_text_el option_control_def is_checked_option_def get_attr_El)
  then show ?thesis
    by (auto simp: question_fieldset_def checked_controls_def matches_El matches_text_el is_checked_option_def
        get_attr_El free_text_nodes_def free_text_area_def)
qed

lemma free_in_fieldset:
  "matches is_free_text (question_fieldset a d q) = (if q_allowFreeText q then [free_text_area a d q] else [])"
proof -
  have "concat (map (matches is_free_text \<circ> option_label a q) ios) = []" for ios
    by (induction ios)
      (auto simp: option_label_def matches_El matches_text_el option_control_def is_free_text_def get_attr_El)
  then show ?thesis
    by (simp add: question_fieldset_def matches_El matches_text_el is_free_text_def
        get_attr_El free_text_nodes_def free_text_area_def)
qed

lemma rendered_controls:
  fixes model :: user_input_model
  defines "a \<equiv> accessible_id (ui_interactionId model)"
  shows "checked_options (renderUserInput (El t as ks) model) = concat (map (checked_controls a) (ui_questions model))"
    "free_text_controls (renderUserInput (El t as ks) model)
      = map (free_text_area a (ui_disabled model)) (filter q_allowFreeText (ui_questions model))"
proof -
  have c: "checked_options d = query is_checked_option d" for d
    by (simp add: checked_options_def is_checked_option_def [abs_def])
  have f: "free_text_controls d = query is_free_text d" for d
    by (simp add: free_text_controls_def is_free_text_def [abs_def])
  show "checked_options (renderUserInput (El t as ks) model) = concat (map (checked_controls a) (ui_questions model))"
    unfolding c renderUserInput_def Let_def replaceChildren.simps query_matches
    by (simp add: matches_El matches_text_el decision_head_def is_checked_option_def get_attr_El submit_button_def
        comp_def checked_in_fieldset a_def)
  have "concat (map (\<lambda>q. if q_allowFreeText q then [free_text_area b d q] else []) qs)
      = map (free_text_area b d) (filter q_allowFreeText qs)" for b d qs
    by (induction qs) auto
  then show "free_text_controls (renderUserInput (El t as ks) model)
      = map (free_text_area a (ui_disabled model)) (filter q_allowFreeText (ui_questions model))"
    unfolding f renderUserInput_def Let_def replaceChildren.simps query_matches
    by (simp add: matches_El matches_text_el decision_head_def is_free_text_def get_attr_El submit_button_def
        comp_def free_in_fieldset a_def)
qed

lemma checked_controls_owner: "c \<in> set (checked_controls a q) \<Longrightarrow> get_attr c ''data-question-id'' = JStr (q_id q)"
  by (auto simp: checked_controls_def option_control_def get_attr_El)

lemma own_checked_controls:
  "distinct (map q_id qs) \<Longrightarrow> q \<in> set qs \<Longrightarrow>
     filter (\<lambda>c. get_attr c ''data-question-id'' = JStr (q_id q)) (concat (map (checked_controls a) qs))
       = checked_controls a q"
proof (induction qs)
  case (Cons p qs)
  have keep: "filter (\<lambda>c. get_attr c ''data-question-id'' = JStr (q_id q)) (checked_controls a p)
      = (if q_id p = q_id q then checked_controls a p else [])" for p
    using checked_controls_owner [of _ a p] by (auto simp: filter_id_conv filter_empty_conv)
  have none: "q_id q \<notin> q_id ` set ps \<Longrightarrow>
      filter (\<lambda>c. get_attr c ''data-question-id'' = JStr (q_id q)) (concat (map (checked_controls a) ps)) = []" for ps
    by (induction ps) (auto simp: keep)
  show ?case
  proof (cases "q = p")
    case True
    with Cons.prems none [of qs] keep [of q] show ?thesis by simp
  next
    case False
    with Cons.prems have "q \<in> set qs" "q_id p \<noteq> q_id q" by (auto simp: image_iff)
    with Cons show ?thesis by (simp add: keep)
  qed
qed simp

lemma free_text_owner: "get_attr (free_text_area a d q) ''data-question-id'' = JStr (q_id q)"
  "get_attr (free_text_area a d q) ''value'' = JStr (free_text_value q)"
  by (simp_all add: free_text_area_def get_attr_El)

lemma own_free_text:
  "distinct (map q_id qs) \<Longrightarrow> q \<in> set qs \<Longrightarrow>
     find (\<lambda>c. get_attr c ''data-question-id'' = JStr (q_id q)) (map (free_text_area a d) (filter q_allowFreeText qs))
       = (if q_allowFreeText q then Some (free_text_area a d q) else None)"
proof (induction qs)
  case (Cons p qs)
  have none: "q_id q \<notin> q_id ` set ps \<Longrightarrow>
      find (\<lambda>c. get_attr c ''data-question-id'' = JStr (q_id q)) (map (free_text_area a d) (filter q_allowFreeText ps)) = None" for ps
    by (induction ps) (auto simp: free_text_owner)
  show ?case
  proof (cases "q = p")
    case True
    with Cons.prems none [of qs] show ?thesis by (simp add: free_text_owner)
  next
    case False
    with Cons.prems have "q \<in> set qs" "q_id p \<noteq> q_id q" by (auto simp: image_iff)
    with Cons show ?thesis by (simp add: free_text_owner)
  qed
qed simp

definition option_labels :: "question \<Rightarrow> jstr list" where
  "option_labels q = map qo_label (q_options q)"

text \<open>
  A question whose state a form can show: every text survives the sanitiser, a
  single-choice question has at most one answer, and at most one answer is free text.
\<close>

definition answerable :: "question \<Rightarrow> bool" where
  "answerable q \<longleftrightarrow>
     (\<forall>v\<in>set (option_labels q) \<union> set (q_selected q). plainText (JStr v) MAX_FREE_TEXT = v)
     \<and> (q_multiple q \<or> length (q_selected q) \<le> 1)
     \<and> (\<forall>v\<in>set (q_selected q) - set (option_labels q). \<forall>w\<in>set (q_selected q) - set (option_labels q). v = w)"

definition question_ok :: "question \<Rightarrow> bool" where
  "question_ok q \<longleftrightarrow> length (q_options q) \<le> 3 \<and> [] \<notin> set (q_selected q)
     \<and> (q_complete q \<longleftrightarrow> q_selected q \<noteq> [])
     \<and> (q_allowFreeText q \<or> set (q_selected q) \<subseteq> set (option_labels q))"

lemma question_of_ok: "question_ok (question_of answers j raw)"
  using length_question_options [of answers j raw]
  by (auto simp: question_ok_def question_of_def Let_def selectedValues_def option_labels_def dest!: in_set_takeD)

definition form_values :: "question \<Rightarrow> jstr list" where
  "form_values q =
     (let opts = filter (\<lambda>l. l \<in> set (q_selected q)) (option_labels q); f = free_text_value q in
      if q_allowFreeText q \<and> f \<noteq> [] then if q_multiple q then opts @ [f] else [f] else opts)"

lemma free_text_value_cases:
  "free_text_value q = [] \<or> free_text_value q \<in> set (q_selected q) - set (option_labels q)"
  by (auto simp: free_text_value_def option_labels_def find_Some_iff split: option.splits)

lemma free_text_value_None:
  "[] \<notin> set (q_selected q) \<Longrightarrow> free_text_value q = [] \<Longrightarrow> set (q_selected q) \<subseteq> set (option_labels q)"
proof
  fix x assume h: "[] \<notin> set (q_selected q)" "free_text_value q = []" "x \<in> set (q_selected q)"
  have "find (\<lambda>v. v \<notin> set (map qo_label (q_options q))) (q_selected q) = None"
  proof (rule ccontr)
    assume "find (\<lambda>v. v \<notin> set (map qo_label (q_options q))) (q_selected q) \<noteq> None"
    then obtain v where v: "find (\<lambda>v. v \<notin> set (map qo_label (q_options q))) (q_selected q) = Some v" by blast
    then have "v \<in> set (q_selected q)" by (auto simp: find_Some_iff)
    with v h show False by (simp add: free_text_value_def)
  qed
  with h(3) show "x \<in> set (option_labels q)" by (auto simp: find_None_iff option_labels_def)
qed

lemma collect_answer_render:
  assumes "distinct (map q_id (ui_questions m))" "q \<in> set (ui_questions m)" "answerable q"
  shows "collect_answer (renderUserInput (El t as ks) m) q =
     (let u = take (if q_multiple q then 32 else 1) (unique_values (form_values q)) in
      if u = [] then None else Some (q_id q, u))"
proof -
  have "map (\<lambda>c. plainText (get_attr c ''value'') MAX_FREE_TEXT) (checked_controls a q)
      = filter (\<lambda>l. l \<in> set (q_selected q)) (option_labels q)" for a
  proof -
    have "map (\<lambda>c. plainText (get_attr c ''value'') MAX_FREE_TEXT)
        (map (\<lambda>(i, opt). option_control a q i opt) (filter (\<lambda>(i, opt). qo_label opt \<in> set (q_selected q)) (enumerate n opts)))
      = filter (\<lambda>l. l \<in> set (q_selected q)) (map qo_label opts)"
      if "set (map qo_label opts) \<subseteq> set (option_labels q)" for n opts
      using that assms(3)
      by (induction opts arbitrary: n) (auto simp: option_control_def get_attr_El answerable_def)
    from this [of "q_options q" 0] show ?thesis
      by (simp add: checked_controls_def option_labels_def)
  qed
  moreover have "free_text_value q \<noteq> [] \<Longrightarrow> plainText (JStr (free_text_value q)) MAX_FREE_TEXT = free_text_value q"
    using free_text_value_cases [of q] assms(3) by (auto simp: answerable_def)
  moreover have "plainText (JStr []) MAX_FREE_TEXT = []" by (simp add: plainText_eq js_trim_def)
  ultimately show ?thesis
    unfolding collect_answer_def rendered_controls own_checked_controls [OF assms(1,2)] own_free_text [OF assms(1,2)]
    by (auto simp: Let_def form_values_def free_text_owner)
qed

lemma set_unique_values [simp]: "set (unique_values xs) = set xs"
  by (simp add: unique_values_def)

lemma length_unique_values: "length (unique_values xs) \<le> length xs"
  by (simp add: unique_values_def length_remdups_leq [of "rev xs", simplified])

lemma set_form_values:
  assumes "question_ok q" "answerable q"
  shows "set (form_values q) = set (q_selected q)"
proof (cases "free_text_value q = []")
  case True
  then have "set (q_selected q) \<subseteq> set (option_labels q)"
    using assms free_text_value_None by (auto simp: question_ok_def)
  with True show ?thesis by (auto simp: form_values_def Let_def)
next
  case False
  with free_text_value_cases [of q] have f: "free_text_value q \<in> set (q_selected q) - set (option_labels q)" by blast
  then have free: "q_allowFreeText q" using assms(1) by (auto simp: question_ok_def)
  have only: "v = free_text_value q" if "v \<in> set (q_selected q) - set (option_labels q)" for v
    using assms(2) f that unfolding answerable_def by blast
  show ?thesis
  proof (cases "q_multiple q")
    case True
    then have "form_values q = filter (\<lambda>l. l \<in> set (q_selected q)) (option_labels q) @ [free_text_value q]"
      using False free by (simp add: form_values_def Let_def)
    then have "set (form_values q) = insert (free_text_value q) (set (q_selected q) \<inter> set (option_labels q))"
      by auto
    also have "\<dots> = set (q_selected q)"
    proof
      show "set (q_selected q) \<subseteq> insert (free_text_value q) (set (q_selected q) \<inter> set (option_labels q))"
        using only by blast
    qed (use f in blast)
    finally show ?thesis .
  next
    case single: False
    then have "length (q_selected q) \<le> 1" using assms(2) by (simp add: answerable_def)
    then have "set (q_selected q) = {free_text_value q}" using f by (cases "q_selected q") auto
    then show ?thesis using False free single by (simp add: form_values_def Let_def)
  qed
qed

lemma form_values_taken:
  assumes "question_ok q" "answerable q"
  shows "set (take (if q_multiple q then 32 else 1) (unique_values (form_values q))) = set (q_selected q)"
proof (cases "q_multiple q")
  case True
  have "length (form_values q) \<le> 4"
    using assms(1) length_filter_le [of "\<lambda>l. l \<in> set (q_selected q)" "option_labels q"]
    by (auto simp: form_values_def Let_def question_ok_def option_labels_def)
  then have "length (unique_values (form_values q)) \<le> 32"
    using length_unique_values [of "form_values q"] by linarith
  with True set_form_values [OF assms] show ?thesis by simp
next
  case False
  then have "length (q_selected q) \<le> 1" using assms(2) by (simp add: answerable_def)
  then have "card (set (form_values q)) \<le> 1"
    unfolding set_form_values [OF assms] using card_length le_trans by blast
  moreover have "distinct (unique_values (form_values q))" by (simp add: unique_values_def)
  ultimately have "length (unique_values (form_values q)) \<le> 1"
    using distinct_card by fastforce
  with False set_form_values [OF assms] show ?thesis by simp
qed

section \<open>Properties\<close>

text \<open>
  In the rendered question form every element identifier occurs once, whatever
  identifiers the provider sends, repeated or malformed ones included.
\<close>

theorem form_ids_unique:
  assumes "getUserInputViewModel ck i o' answers = Some m"
  shows "distinct (filter (\<lambda>v. v \<noteq> JUndefined)
     (map (\<lambda>d. get_attr d ''id'') (elements (renderUserInput (El t [] ks) m))))"
proof -
  let ?a = "accessible_id (ui_interactionId m)"
  obtain raws where r: "length raws \<le> 3"
      "ui_questions m = map (\<lambda>(j, raw). question_of answers j raw) (enumerate 0 raws)"
    using getUserInputViewModel_questions [OF assms] .
  let ?ids = "concat (map (question_ids ?a) (ui_questions m))"
  have d: "distinct ?ids"
    unfolding r(2) by (rule distinct_enumerated_ids) (simp add: r(1))
  have "js ''question-'' @ ?a @ js ''-title'' \<notin> set ?ids" "js ''question-'' @ ?a @ js ''-summary'' \<notin> set ?ids"
  proof -
    have e: "\<exists>j raw. j < 3 \<and> v \<in> set (question_ids ?a (question_of answers j raw))" if "v \<in> set ?ids" for v
      using that r(1) unfolding r(2) by (auto simp: in_set_enumerate_eq) (meson less_le_trans)
    show "js ''question-'' @ ?a @ js ''-title'' \<notin> set ?ids"
      using e [of "js ''question-'' @ ?a @ js ''-title''"]
        title_not_question_id(1) [of _ "js ''question-'' @ ?a @ js ''-title''" ?a answers _ "js ''question-'' @ ?a"] by auto
    show "js ''question-'' @ ?a @ js ''-summary'' \<notin> set ?ids"
      using e [of "js ''question-'' @ ?a @ js ''-summary''"]
        title_not_question_id(2) [of _ "js ''question-'' @ ?a @ js ''-summary''" ?a answers _ "js ''question-'' @ ?a"] by auto
  qed
  with d have "distinct (node_ids (renderUserInput (El t [] ks) m))"
    unfolding node_ids_render by (auto simp: Let_def distinct_map inj_on_def js_def)
  then show ?thesis by (simp add: node_ids_def)
qed

text \<open>
  C28: Collecting the answers from the rendered form returns the model's own
  answers: one entry for each complete question, in order, with exactly the
  selected values, provided the question identifiers differ and the form can
  show the state of every question.
\<close>

theorem collect_render_roundtrip:
  assumes "getUserInputViewModel ck i o' answers = Some m"
    and "distinct (map q_id (ui_questions m))" and "list_all answerable (ui_questions m)"
  shows "\<exists>vals. collectUserInputAnswers (renderUserInput (El t as ks) m) m
        = map (\<lambda>q. (q_id q, vals q)) (filter q_complete (ui_questions m))
      \<and> (\<forall>q\<in>set (ui_questions m). set (vals q) = set (q_selected q) \<and> distinct (vals q))"
proof -
  let ?v = "\<lambda>q. take (if q_multiple q then 32 else 1) (unique_values (form_values q))"
  obtain raws where r: "ui_questions m = map (\<lambda>(j, raw). question_of answers j raw) (enumerate 0 raws)"
    using getUserInputViewModel_questions [OF assms(1)] .
  have ok: "question_ok q" "answerable q" if "q \<in> set (ui_questions m)" for q
    using that assms(3) question_of_ok unfolding r by (auto simp: list_all_iff)
  have one: "collect_answer (renderUserInput (El t as ks) m) q
      = (if q_complete q then Some (q_id q, ?v q) else None)" if q: "q \<in> set (ui_questions m)" for q
  proof -
    have "?v q = [] \<longleftrightarrow> \<not> q_complete q"
      using form_values_taken [OF ok [OF q]] ok(1) [OF q] by (metis question_ok_def set_empty)
    then show ?thesis
      using collect_answer_render [OF assms(2) q ok(2) [OF q]] by (simp add: Let_def)
  qed
  have "List.map_filter (collect_answer (renderUserInput (El t as ks) m)) qs
      = map (\<lambda>q. (q_id q, ?v q)) (filter q_complete qs)" if "set qs \<subseteq> set (ui_questions m)" for qs
    using that by (induction qs) (simp_all add: one)
  moreover have "distinct (unique_values xs)" for xs by (simp add: unique_values_def)
  ultimately show ?thesis
    using form_values_taken ok by (intro exI [of _ ?v]) (auto simp: collectUserInputAnswers_def)
qed

text \<open>
  The submit button is enabled exactly when the server allows an answer, there
  is at least one question, every question has an answer, and the interaction is
  pending, unexpired, not stale and not already being submitted.
\<close>

theorem submit_enabled_iff:
  assumes "getUserInputViewModel ck i o' answers = Some m"
  shows "get_attr (submit_button m) ''disabled'' = JBool False \<longleftrightarrow>
     jlit ''answer'' \<in> set (as_list (dot i ''allowed_actions'')) \<and> ui_questions m \<noteq> []
     \<and> (\<forall>q\<in>set (ui_questions m). q_selected q \<noteq> [])
     \<and> \<not> vo_pending o' \<and> \<not> vo_stale o' \<and> dot i ''status'' = jlit ''pending''
     \<and> (\<exists>s t. dot i ''expires_at'' = JStr s \<and> dateParse ck s = Fin t \<and> vo_now o' < t)"
proof -
  have m: "ui_submitDisabled m \<longleftrightarrow> interaction_unavailable ck i o'
      \<or> \<not> (ui_questions m \<noteq> [] \<and> list_all q_complete (ui_questions m))
      \<or> jlit ''answer'' \<notin> set (as_list (dot i ''allowed_actions''))"
    using assms by (auto simp: getUserInputViewModel_def Let_def split: if_splits)
  obtain raws where r: "ui_questions m = map (\<lambda>(j, raw). question_of answers j raw) (enumerate 0 raws)"
    using getUserInputViewModel_questions [OF assms(1)] .
  have "list_all q_complete (ui_questions m) \<longleftrightarrow> (\<forall>q\<in>set (ui_questions m). q_selected q \<noteq> [])"
    using question_of_ok unfolding r by (fastforce simp: list_all_iff question_ok_def)
  then show ?thesis
    unfolding available_iff [symmetric] by (auto simp: submit_button_def get_attr_El m)
qed

definition sample_question :: jsval where
  "sample_question = JObj [(js ''question_id'', jlit ''q''), (js ''allow_free_text'', JBool True),
     (js ''options'', JArr [JObj [(js ''label'', jlit ''Yes''), (js ''description'', jlit ''Go'')]])]"

definition sample_input :: jsval where
  "sample_input = JObj [(js ''status'', jlit ''pending''), (js ''expires_at'', jlit ''200''),
     (js ''allowed_actions'', JArr [jlit ''answer'']),
     (js ''display'', JObj [(js ''questions'', JArr [sample_question])])]"

definition sample_answers :: jsval where
  "sample_answers = JObj [(js ''q'', JArr [jlit ''Yes''])]"

lemma sample_question_of:
  "question_of sample_answers 0 sample_question =
     \<lparr>q_id = js ''q'', q_domId = js ''q-1'', q_header = js ''Question 1'',
      q_prompt = js ''Choose an answer to continue.'',
      q_options = [\<lparr>qo_label = js ''Yes'', qo_description = js ''Go''\<rparr>], q_multiple = False,
      q_allowFreeText = True, q_selected = [js ''Yes''], q_complete = True\<rparr>"
  by (simp add: question_of_def object_or_empty_def sample_question_def dot_JObj obj_get_def plainText_eq
      str_default_def question_option_of_def MAX_OPTIONS_def selectedValues_def answer_of_def sample_answers_def
      obj_index_def js_def js_trim_def plain_char_def is_ws_def dec_nat_digit safeId_def id_pattern_def
      is_id_char_def is_alpha_def is_digit_def MAX_FREE_TEXT_def Let_def)

lemma sample_input_model:
  obtains m where "getUserInputViewModel sample_clock sample_input sample_options sample_answers = Some m"
    "ui_questions m = [question_of sample_answers 0 sample_question]"
  by (auto simp: getUserInputViewModel_def Let_def interaction_display_def sample_input_def dot_JObj obj_get_def
      MAX_QUESTIONS_def)

theorem form_ids_unique_witness:
  "\<exists>m. getUserInputViewModel sample_clock sample_input sample_options sample_answers = Some m
     \<and> distinct (filter (\<lambda>v. v \<noteq> JUndefined)
         (map (\<lambda>d. get_attr d ''id'') (elements (renderUserInput (El ''div'' [] []) m))))"
proof -
  obtain m where m: "getUserInputViewModel sample_clock sample_input sample_options sample_answers = Some m"
    by (rule sample_input_model)
  then show ?thesis using form_ids_unique [OF m] by blast
qed

theorem submit_enabled_iff_witness:
  "\<exists>m. getUserInputViewModel sample_clock sample_input sample_options sample_answers = Some m
     \<and> get_attr (submit_button m) ''disabled'' = JBool False"
proof -
  obtain m where m: "getUserInputViewModel sample_clock sample_input sample_options sample_answers = Some m"
    "ui_questions m = [question_of sample_answers 0 sample_question]"
    by (rule sample_input_model)
  have "get_attr (submit_button m) ''disabled'' = JBool False"
    unfolding submit_enabled_iff [OF m(1)] m(2)
    by (simp add: sample_question_of sample_input_def dot_JObj obj_get_def sample_clock_def js_def)
  with m show ?thesis by blast
qed

theorem collect_render_roundtrip_witness:
  "\<exists>m. getUserInputViewModel sample_clock sample_input sample_options sample_answers = Some m
     \<and> (\<exists>vals. collectUserInputAnswers (renderUserInput (El ''div'' [] []) m) m
        = map (\<lambda>q. (q_id q, vals q)) (filter q_complete (ui_questions m)))"
proof -
  obtain m where m: "getUserInputViewModel sample_clock sample_input sample_options sample_answers = Some m"
    "ui_questions m = [question_of sample_answers 0 sample_question]"
    by (rule sample_input_model)
  have "distinct (map q_id (ui_questions m))" "list_all answerable (ui_questions m)"
    by (simp_all add: m(2) sample_question_of answerable_def option_labels_def plainText_eq js_def js_trim_def
        plain_char_def is_ws_def MAX_FREE_TEXT_def)
  from collect_render_roundtrip [OF m(1) this] m(1) show ?thesis by blast
qed

end
