(* ===== verification/StatusViews.thy ===== *)
theory StatusViews
  imports Dom
begin

text \<open>
  The account card, the onboarding checklist and the runtime strip
  (\<open>src/frontend/src/views/auth.js\<close>, \<open>onboarding.js\<close> and \<open>runtime-strip.js\<close>).
\<close>

section \<open>Account\<close>

definition PLAN_NAMES :: "(string \<times> string) list" where
  "PLAN_NAMES = [(''free'', ''Free''), (''go'', ''Go''), (''plus'', ''Plus''), (''pro'', ''Pro''),
     (''prolite'', ''Pro''), (''team'', ''Team''), (''self_serve_business_usage_based'', ''Business''),
     (''business'', ''Business''), (''enterprise_cbp_usage_based'', ''Enterprise''),
     (''enterprise'', ''Enterprise''), (''edu'', ''Education'')]"

definition AUTH_TERMINAL_STATES :: "string list" where
  "AUTH_TERMINAL_STATES = [''ok'', ''signed_out'', ''cancelled'', ''login_failed'', ''expired'']"

definition ACTIVE_STATES :: "string list" where
  "ACTIVE_STATES = [''login_starting'', ''login_running'']"

definition BUSY_STATES :: "string list" where
  "BUSY_STATES = [''login_canceling'', ''login_completing'', ''logout_running'']"

definition normalizePlanType :: "jsval \<Rightarrow> string" where
  "normalizePlanType v =
     (if is_string v
      then (case find (\<lambda>(k, n). js k = js_lower (js_trim (as_string v))) PLAN_NAMES of
              Some (k, n) \<Rightarrow> n | None \<Rightarrow> ''Unknown'')
      else ''Unknown'')"

record auth_action =
  au_id :: string
  au_label :: string
  au_primary :: bool

record auth_model =
  am_state :: jstr
  am_signedIn :: bool
  am_busy :: bool
  am_plan :: string
  am_code :: "jstr option"
  am_canCopyCode :: bool
  am_canOpen :: bool
  am_message :: string
  am_guidance :: string
  am_actions :: "auth_action list"

definition auth_state :: "jsval \<Rightarrow> jstr" where
  "auth_state auth = (if is_string (dot auth ''state'') then as_string (dot auth ''state'') else js ''unknown'')"

definition loginActive :: "jsval \<Rightarrow> bool" where
  "loginActive auth \<longleftrightarrow> auth_state auth \<in> set (map js ACTIVE_STATES)"

definition auth_busy :: "jsval \<Rightarrow> bool" where
  "auth_busy auth \<longleftrightarrow> auth_state auth \<in> set (map js BUSY_STATES)"

definition auth_code :: "jsval \<Rightarrow> jstr option" where
  "auth_code auth =
     (let user_code = dot auth ''user_code'' in
      if loginActive auth \<and> is_string user_code \<and> js_trim (as_string user_code) \<noteq> []
      then Some (js_trim (as_string user_code)) else None)"

definition auth_unsupported :: "jsval \<Rightarrow> bool" where
  "auth_unsupported auth \<longleftrightarrow>
     (let authMode = js_coalesce (dot auth ''auth_mode'') (js_coalesce (dot (dot auth ''account'') ''auth_mode'') JNull) in
      auth_state auth = js ''unsupported'' \<or> (is_string authMode \<and> authMode \<noteq> jlit ''chatgpt''))"

definition signedIn :: "jsval \<Rightarrow> bool" where
  "signedIn auth \<longleftrightarrow> \<not> auth_unsupported auth \<and> auth_state auth = js ''ok'' \<and> \<not> truthy (dot auth ''auth_required'')"

definition sign_out_action :: "jsval \<Rightarrow> string \<Rightarrow> auth_action" where
  "sign_out_action auth confirmed_label =
     (if truthy (dot auth ''signedOutConfirmed'')
      then \<lparr>au_id = ''sign-out'', au_label = confirmed_label, au_primary = False\<rparr>
      else \<lparr>au_id = ''confirm-sign-out'', au_label = ''Sign out'', au_primary = False\<rparr>)"

definition auth_actions :: "jsval \<Rightarrow> auth_action list" where
  "auth_actions auth =
     (if loginActive auth then
        [\<lparr>au_id = ''open-chatgpt'', au_label = ''Open ChatGPT'', au_primary = False\<rparr>]
        @ (if auth_code auth \<noteq> None
           then [\<lparr>au_id = ''copy-auth-code'', au_label = ''Copy code'', au_primary = False\<rparr>] else [])
        @ [\<lparr>au_id = ''cancel-sign-in'', au_label = ''Cancel'', au_primary = False\<rparr>]
      else if auth_busy auth then []
      else if auth_unsupported auth then [sign_out_action auth ''Sign out now'']
      else if auth_state auth = js ''logout_failed'' then [sign_out_action auth ''Try sign-out again'']
      else if \<not> signedIn auth
      then [\<lparr>au_id = ''start-auth-login'', au_label = ''Sign in with ChatGPT'', au_primary = True\<rparr>]
      else [sign_out_action auth ''Sign out now''])"

definition auth_message :: "jsval \<Rightarrow> string" where
  "auth_message auth =
     (let state = auth_state auth in
      if auth_unsupported auth then ''Only ChatGPT account sign-in is supported.''
      else if signedIn auth then ''Codex is connected through your ChatGPT account.''
      else if state = js ''login_failed'' then ''Sign-in did not complete. Try again from Home Assistant.''
      else if state = js ''logout_failed'' then ''Sign-out did not complete. Try again from Home Assistant.''
      else if state = js ''expired'' then ''Your ChatGPT sign-in expired. Sign in again to continue.''
      else if state = js ''login_canceling'' then ''Cancelling ChatGPT sign-in. Please wait.''
      else if state = js ''login_completing'' then ''Finishing ChatGPT sign-in. Please wait.''
      else if state = js ''logout_running'' then ''Signing out of ChatGPT. Please wait.''
      else if loginActive auth then ''Enter this one-time code in the ChatGPT sign-in page.''
      else ''Sign in with the ChatGPT account that includes your Codex access.'')"

definition getAuthViewModel :: "jsval \<Rightarrow> auth_model" where
  "getAuthViewModel auth =
     \<lparr>am_state = (if signedIn auth then js ''signed_in''
        else if auth_unsupported auth then js ''unsupported'' else auth_state auth),
      am_signedIn = signedIn auth, am_busy = auth_busy auth,
      am_plan = normalizePlanType (js_coalesce (dot (dot auth ''account'') ''plan_type'') (dot auth ''plan_type'')),
      am_code = (if auth_state auth \<in> set (map js AUTH_TERMINAL_STATES) then None else auth_code auth),
      am_canCopyCode = (auth_code auth \<noteq> None), am_canOpen = loginActive auth,
      am_message = auth_message auth,
      am_guidance = (if loginActive auth
        then ''Continue in ChatGPT on your phone or another signed-in device.'' else []),
      am_actions = auth_actions auth\<rparr>"

definition auth_button :: "auth_action \<Rightarrow> dom" where
  "auth_button action = text_el ''button'' [(''type'', jlit ''button''), (''data-action'', jlit (au_id action)),
     (''class'', jlit (if au_primary action then ''primary'' else []))] (js (au_label action))"

definition renderAuth :: "dom \<Rightarrow> auth_model \<Rightarrow> dom" where
  "renderAuth container model =
     replaceChildren
       [El ''section'' [(''class'', jlit ''auth-card'')]
          ([text_el ''strong'' [] (js (if am_signedIn model then ''ChatGPT connected'' else ''ChatGPT sign-in''))]
           @ (if am_plan model \<noteq> ''Unknown''
              then [text_el ''span'' [(''class'', jlit ''auth-plan'')] (js (am_plan model) @ js '' plan'')] else [])
           @ (if am_message model \<noteq> [] then [text_el ''p'' [] (js (am_message model))] else [])
           @ (case am_code model of None \<Rightarrow> []
              | Some c \<Rightarrow> if c = [] then [] else [text_el ''code'' [(''class'', jlit ''auth-code'')] c])
           @ (if am_guidance model \<noteq> [] then [text_el ''p'' [] (js (am_guidance model))] else [])
           @ [El ''div'' [(''class'', jlit ''auth-actions'')] (map auth_button (am_actions model))])]
       container"

section \<open>Onboarding\<close>

record onboarding_state =
  ob_appConnected :: bool
  ob_integrationReady :: bool
  ob_bridgeReady :: bool
  ob_signedIn :: bool
  ob_workspaceReady :: bool
  ob_threadCount :: rat

record onboarding_stage =
  os_id :: string
  os_label :: string
  os_note :: string
  os_complete :: bool
  os_action :: "string option"

definition STAGE_DEFINITIONS :: "(string \<times> string \<times> string \<times> (onboarding_state \<Rightarrow> bool)) list" where
  "STAGE_DEFINITIONS =
    [(''app'', ''App connected'', ''Connect the Home Assistant App.'', ob_appConnected),
     (''integration'', ''Integration confirmed'', ''Confirm the integration in Home Assistant.'', ob_integrationReady),
     (''bridge'', ''Bridge ready'', ''Wait for the bridge to become ready.'', ob_bridgeReady),
     (''codex'', ''Codex ready'', ''Sign in, create a workspace, and start your first chat.'',
        \<lambda>s. ob_signedIn s \<and> ob_workspaceReady s \<and> ob_threadCount s > 0)]"

definition onboarding_normalized :: "jsval \<Rightarrow> onboarding_state" where
  "onboarding_normalized state =
     \<lparr>ob_appConnected = truthy (dot state ''appConnected''), ob_integrationReady = truthy (dot state ''integrationReady''),
      ob_bridgeReady = truthy (dot state ''bridgeReady''), ob_signedIn = truthy (dot state ''signedIn''),
      ob_workspaceReady = truthy (dot state ''workspaceReady''),
      ob_threadCount = (case dot state ''threadCount'' of JNum (Fin r) \<Rightarrow> r | _ \<Rightarrow> 0)\<rparr>"

definition onboarding_stages :: "onboarding_state \<Rightarrow> onboarding_stage list" where
  "onboarding_stages n =
     map (\<lambda>(index, (i, label, note, complete)).
       \<lparr>os_id = i, os_label = label, os_note = note, os_complete = complete n,
        os_action = (if index = (0::nat) \<and> \<not> ob_appConnected n then Some ''retry-app'' else None)\<rparr>)
       (enumerate 0 STAGE_DEFINITIONS)"

definition getOnboardingViewModel :: "jsval \<Rightarrow> onboarding_stage list \<times> bool" where
  "getOnboardingViewModel state =
     (let stages = onboarding_stages (onboarding_normalized state) in (stages, list_all os_complete stages))"

definition onboarding_item :: "onboarding_stage \<Rightarrow> dom" where
  "onboarding_item stage =
     El ''li'' [(''class'', jlit (''onboarding-stage '' @ (if os_complete stage then ''complete'' else ''pending'')))]
       ([El ''div'' [] [text_el ''strong'' [] (js (os_label stage)),
           text_el ''span'' [] (js (if os_complete stage then ''Complete'' else os_note stage))]]
        @ (case os_action stage of None \<Rightarrow> []
           | Some a \<Rightarrow> [text_el ''button'' [(''type'', jlit ''button''), (''data-action'', jlit a)] (js ''Retry'')]))"

definition renderOnboarding :: "dom \<Rightarrow> onboarding_stage list \<times> bool \<Rightarrow> dom" where
  "renderOnboarding container model =
     replaceChildren [El ''ol'' [(''class'', jlit ''onboarding-checklist'')] (map onboarding_item (fst model))] container"

section \<open>Runtime strip\<close>

definition version_char :: "nat \<Rightarrow> bool" where
  "version_char u \<longleftrightarrow> is_digit u \<or> is_alpha u \<or> u = 46 \<or> u = 43 \<or> u = 45"

definition safeVersion :: "jsval \<Rightarrow> jstr option" where
  "safeVersion v =
     (case v of JStr (u # us) \<Rightarrow>
        if is_digit u \<and> length us \<le> 31 \<and> list_all version_char us then Some (u # us) else None
      | _ \<Rightarrow> None)"

record runtime_item =
  ri_label :: string
  ri_state :: string
  ri_version :: "jstr option"

definition runtimeItem :: "string \<Rightarrow> bool \<Rightarrow> jsval \<Rightarrow> runtime_item" where
  "runtimeItem label ready version =
     \<lparr>ri_label = label, ri_state = (if ready then ''ready'' else ''attention''), ri_version = safeVersion version\<rparr>"

text \<open>
  \<open>Number(v)\<close>; the conversions of strings and of numbers in arrays are the
  parameters \<open>strNum\<close> and \<open>fmt\<close>.
\<close>

definition js_Number :: "(jstr \<Rightarrow> jsnum) \<Rightarrow> (rat \<Rightarrow> jstr) \<Rightarrow> jsval \<Rightarrow> jsnum" where
  "js_Number strNum fmt v =
     (case v of JUndefined \<Rightarrow> NaN | JNull \<Rightarrow> Fin 0 | JBool b \<Rightarrow> Fin (if b then 1 else 0) | JNum n \<Rightarrow> n
      | JStr s \<Rightarrow> strNum s | JArr xs \<Rightarrow> strNum (js_String fmt v) | JObj kvs \<Rightarrow> NaN | JFun f \<Rightarrow> NaN)"

record runtime_model =
  rm_items :: "runtime_item list"
  rm_healthy :: bool
  rm_notice :: string

definition bridge_ready :: "jsnum \<Rightarrow> jsval \<Rightarrow> bool" where
  "bridge_ready apiVersion status \<longleftrightarrow> apiVersion = Fin 1 \<and> dot status ''bridge_ready'' \<noteq> JBool False"

definition codex_version :: "jsval \<Rightarrow> jsval" where
  "codex_version status =
     (let diagnostics = js_or (dot status ''diagnostics'') (JObj []) in
      js_or (dot diagnostics ''app_server_version'') (dot diagnostics ''active_codex_version''))"

definition getRuntimeStripViewModel :: "(jstr \<Rightarrow> jsnum) \<Rightarrow> (rat \<Rightarrow> jstr) \<Rightarrow> jsval \<Rightarrow> runtime_model" where
  "getRuntimeStripViewModel strNum fmt status =
     (let apiVersion = js_Number strNum fmt (dot status ''api_version'');
          diagnostics = js_or (dot status ''diagnostics'') (JObj []);
          appReady = (dot (dot status ''app'') ''connected'' = JBool True);
          integrationReady = (dot (dot status ''integration'') ''ready'' = JBool True);
          bridgeReady = bridge_ready apiVersion status;
          codexVersion = codex_version status;
          codexReady = (if truthy codexVersion then bridgeReady
                        else dot status ''codex_ready'' = JBool True \<and> bridgeReady);
          legacy = (apiVersion = Fin 0
            \<or> starts_with (js ''external'') (js_String fmt (js_or (dot status ''connection_type'') (JStr []))));
          items = [runtimeItem ''App'' appReady (js_or (dot (dot status ''app'') ''version'') (dot diagnostics ''app_version'')),
                   runtimeItem ''Integration'' integrationReady (dot (dot status ''integration'') ''version''),
                   runtimeItem ''Bridge'' bridgeReady (dot diagnostics ''bridge_version''),
                   runtimeItem ''Codex'' codexReady codexVersion] in
      \<lparr>rm_items = items, rm_healthy = list_all (\<lambda>i. ri_state i = ''ready'') items,
       rm_notice = (if legacy
         then ''This older connection is capability-limited and supported for existing setups only.'' else [])\<rparr>)"

definition runtime_span :: "runtime_item \<Rightarrow> dom" where
  "runtime_span item =
     text_el ''span'' [(''class'', jlit (''runtime-item '' @ ri_state item))]
       (case ri_version item of Some v \<Rightarrow> js (ri_label item) @ js '' '' @ v | None \<Rightarrow> js (ri_label item))"

definition renderRuntimeStrip :: "dom \<Rightarrow> runtime_model \<Rightarrow> dom" where
  "renderRuntimeStrip container model =
     set_attr ''hidden'' (JBool (rm_healthy model \<and> rm_notice model = []))
       (replaceChildren
         ([El ''div'' [(''class'', jlit ''runtime-strip'')] (map runtime_span (rm_items model))]
          @ (if rm_notice model \<noteq> [] then [text_el ''p'' [(''class'', jlit ''runtime-notice'')] (js (rm_notice model))]
             else []))
         container)"

section \<open>Lemmas\<close>

lemma active_not_busy: "loginActive auth \<Longrightarrow> \<not> auth_busy auth"
  by (auto simp: loginActive_def auth_busy_def ACTIVE_STATES_def BUSY_STATES_def)

lemma code_needs_login: "auth_code auth = Some c \<Longrightarrow> loginActive auth \<and> c \<noteq> []"
  by (auto simp: auth_code_def Let_def split: if_splits)

lemma active_states_not_terminal: "loginActive auth \<Longrightarrow> auth_state auth \<notin> set (map js AUTH_TERMINAL_STATES)"
  by (auto simp: loginActive_def ACTIVE_STATES_def AUTH_TERMINAL_STATES_def)

lemma signedIn_not_active: "signedIn auth \<Longrightarrow> \<not> loginActive auth \<and> \<not> auth_busy auth"
  by (auto simp: signedIn_def loginActive_def auth_busy_def ACTIVE_STATES_def BUSY_STATES_def)

lemma codes_in_card:
  "filter (is_tag ''code'') (elements (renderAuth (El ''div'' as ks) (getAuthViewModel auth)))
     = (case auth_code auth of None \<Rightarrow> [] | Some c \<Rightarrow> [text_el ''code'' [(''class'', jlit ''auth-code'')] c])"
proof -
  have b: "filter (is_tag ''code'') (concat (map (elements \<circ> auth_button) xs)) = []" for xs
    by (induction xs) (simp_all add: auth_button_def)
  have c: "am_code (getAuthViewModel auth) = auth_code auth"
    using active_states_not_terminal code_needs_login by (cases "auth_code auth") (auto simp: getAuthViewModel_def)
  show ?thesis
    using code_needs_login [of auth]
    by (auto simp: renderAuth_def b c split: option.split)
qed

lemma strip_hidden:
  "get_attr (renderRuntimeStrip (El t as ks) m) ''hidden'' = JBool (rm_healthy m \<and> rm_notice m = [])"
  unfolding renderRuntimeStrip_def replaceChildren.simps get_attr_set_attr by simp

definition action_ids :: "jsval \<Rightarrow> string list" where
  "action_ids auth = map au_id (am_actions (getAuthViewModel auth))"

lemma action_ids_eq:
  "action_ids auth =
     (if loginActive auth
      then [''open-chatgpt''] @ (if auth_code auth \<noteq> None then [''copy-auth-code''] else []) @ [''cancel-sign-in'']
      else if auth_busy auth then []
      else if auth_unsupported auth \<or> auth_state auth = js ''logout_failed'' \<or> signedIn auth
      then [if truthy (dot auth ''signedOutConfirmed'') then ''sign-out'' else ''confirm-sign-out'']
      else [''start-auth-login''])"
  by (simp add: action_ids_def getAuthViewModel_def auth_actions_def sign_out_action_def)

section \<open>Properties\<close>

text \<open>
  The account card offers each operation exactly in its own situation: opening
  and cancelling a sign-in while one is active, copying the code when there is one,
  signing in when nobody is signed in and nothing is under way, signing out only
  after a confirmation; while an operation is being completed it offers nothing;
  and the one-time code is part of the rendered card only during an active sign-in.
\<close>

theorem auth_card_operations:
  "(''open-chatgpt'' \<in> set (action_ids auth) \<longleftrightarrow> loginActive auth)
   \<and> (''cancel-sign-in'' \<in> set (action_ids auth) \<longleftrightarrow> loginActive auth)
   \<and> (''copy-auth-code'' \<in> set (action_ids auth) \<longleftrightarrow> auth_code auth \<noteq> None)
   \<and> (''start-auth-login'' \<in> set (action_ids auth) \<longleftrightarrow> \<not> loginActive auth \<and> \<not> auth_busy auth
        \<and> \<not> auth_unsupported auth \<and> auth_state auth \<noteq> js ''logout_failed'' \<and> \<not> signedIn auth)
   \<and> (''sign-out'' \<in> set (action_ids auth) \<longleftrightarrow> truthy (dot auth ''signedOutConfirmed'')
        \<and> \<not> loginActive auth \<and> \<not> auth_busy auth
        \<and> (auth_unsupported auth \<or> auth_state auth = js ''logout_failed'' \<or> signedIn auth))
   \<and> (action_ids auth = [] \<longleftrightarrow> auth_busy auth)
   \<and> (filter (is_tag ''code'') (elements (renderAuth (El ''div'' as ks) (getAuthViewModel auth)))
        = (case auth_code auth of None \<Rightarrow> [] | Some c \<Rightarrow> [text_el ''code'' [(''class'', jlit ''auth-code'')] c]))"
proof (intro conjI)
  have code: "\<not> loginActive auth \<Longrightarrow> auth_code auth = None" using code_needs_login by (cases "auth_code auth") auto
  show "''open-chatgpt'' \<in> set (action_ids auth) \<longleftrightarrow> loginActive auth" by (simp add: action_ids_eq)
  show "''cancel-sign-in'' \<in> set (action_ids auth) \<longleftrightarrow> loginActive auth" by (simp add: action_ids_eq)
  show "''copy-auth-code'' \<in> set (action_ids auth) \<longleftrightarrow> auth_code auth \<noteq> None"
    using code by (simp add: action_ids_eq)
  show "''start-auth-login'' \<in> set (action_ids auth) \<longleftrightarrow> \<not> loginActive auth \<and> \<not> auth_busy auth
        \<and> \<not> auth_unsupported auth \<and> auth_state auth \<noteq> js ''logout_failed'' \<and> \<not> signedIn auth"
    by (simp add: action_ids_eq)
  show "''sign-out'' \<in> set (action_ids auth) \<longleftrightarrow> truthy (dot auth ''signedOutConfirmed'')
        \<and> \<not> loginActive auth \<and> \<not> auth_busy auth
        \<and> (auth_unsupported auth \<or> auth_state auth = js ''logout_failed'' \<or> signedIn auth)"
    by (simp add: action_ids_eq)
  show "action_ids auth = [] \<longleftrightarrow> auth_busy auth"
    using active_not_busy by (simp add: action_ids_eq)
qed (rule codes_in_card)

text \<open>
  The runtime strip is hidden exactly when the app is connected, the
  integration ready, the bridge speaks API version 1 and is not reported as not
  ready, Codex has a version or is reported ready, and the connection is not a
  legacy one.
\<close>

theorem runtime_strip_hidden_iff:
  "get_attr (renderRuntimeStrip (El ''div'' [] ks) (getRuntimeStripViewModel strNum fmt status)) ''hidden'' = JBool True
   \<longleftrightarrow> dot (dot status ''app'') ''connected'' = JBool True \<and> dot (dot status ''integration'') ''ready'' = JBool True
     \<and> js_Number strNum fmt (dot status ''api_version'') = Fin 1 \<and> dot status ''bridge_ready'' \<noteq> JBool False
     \<and> (truthy (codex_version status) \<or> dot status ''codex_ready'' = JBool True)
     \<and> \<not> starts_with (js ''external'') (js_String fmt (js_or (dot status ''connection_type'') (JStr [])))"
  unfolding strip_hidden
  by (auto simp: getRuntimeStripViewModel_def runtimeItem_def bridge_ready_def Let_def)

text \<open>
  Onboarding is complete exactly when the app, the integration and the bridge
  are ready, the account is signed in, a workspace exists and at least one chat was
  started; and the checklist offers a retry exactly when the app is not connected.
\<close>

theorem onboarding_complete_iff:
  "(snd (getOnboardingViewModel state) \<longleftrightarrow> truthy (dot state ''appConnected'') \<and> truthy (dot state ''integrationReady'')
      \<and> truthy (dot state ''bridgeReady'') \<and> truthy (dot state ''signedIn'') \<and> truthy (dot state ''workspaceReady'')
      \<and> (\<exists>r. dot state ''threadCount'' = JNum (Fin r) \<and> r > 0))
   \<and> (filter (is_tag ''button'') (elements (renderOnboarding (El ''div'' [] ks) (getOnboardingViewModel state)))
      = (if truthy (dot state ''appConnected'') then []
         else [text_el ''button'' [(''type'', jlit ''button''), (''data-action'', jlit ''retry-app'')] (js ''Retry'')]))"
  by (cases "dot state ''threadCount''")
    (auto simp: getOnboardingViewModel_def onboarding_stages_def onboarding_normalized_def STAGE_DEFINITIONS_def
      renderOnboarding_def onboarding_item_def Let_def split: jsnum.splits)

end
