(* ===== verification/InfoCenter.thy ===== *)
theory InfoCenter
  imports StatusViews
begin

text \<open>
  The information centre (\<open>src/frontend/src/info-center.js\<close>): a projection of the
  bridge status, the selected thread, its files and the run activity onto a fixed
  set of sections and rows.
\<close>

section \<open>Constants\<close>

definition MAX_ROWS :: nat where "MAX_ROWS = 8"
definition MAX_ARTIFACTS :: nat where "MAX_ARTIFACTS = 1000"
definition MAX_COUNT :: int where "MAX_COUNT = 1000000"
definition MAX_INFO_HISTORY :: nat where "MAX_INFO_HISTORY = 32"
definition MAX_SAFE_BYTES :: int where "MAX_SAFE_BYTES = 1024 ^ 5"

type_synonym table = "(string \<times> string) list"

definition INFO_PLAN_NAMES :: jsobj where
  "INFO_PLAN_NAMES = map (\<lambda>(k, n). (js k, jlit n))
    [(''free'', ''Free''), (''go'', ''Go''), (''plus'', ''Plus''), (''pro'', ''Pro''), (''prolite'', ''Pro''),
     (''team'', ''Team''), (''self_serve_business_usage_based'', ''Business''), (''business'', ''Business''),
     (''enterprise_cbp_usage_based'', ''Enterprise''), (''enterprise'', ''Enterprise''), (''edu'', ''Education'')]"

definition RUN_STATES :: table where
  "RUN_STATES =
    [(''starting'', ''Starting''), (''queued'', ''Queued''), (''running'', ''Working''), (''in_progress'', ''Working''),
     (''cancelling'', ''Stopping''), (''completed'', ''Completed''), (''failed'', ''Needs attention''),
     (''error'', ''Needs attention''), (''cancelled'', ''Stopped''), (''interrupted'', ''Interrupted''),
     (''idle'', ''Ready'')]"

definition MODE_NAMES :: table where
  "MODE_NAMES = [(''observe'', ''Observe''), (''edit'', ''Edit''), (''full-auto'', ''Full auto'')]"

definition PROJECT_KINDS :: table where
  "PROJECT_KINDS = [(''direct'', ''Direct chat''), (''project'', ''Project workspace''),
     (''imported'', ''Imported workspace'')]"

definition RUN_ACTIVITY_STATES :: table where
  "RUN_ACTIVITY_STATES =
    [(''idle'', ''Ready''), (''queued'', ''Queued''), (''running'', ''Working''), (''completed'', ''Completed''),
     (''failed'', ''Needs attention''), (''cancelled'', ''Stopped''), (''interrupted'', ''Interrupted'')]"

definition SAFE_ACTIVITY_LABELS :: "string list" where
  "SAFE_ACTIVITY_LABELS =
    [''Preparing a response'', ''Running a command'', ''Compacting context'', ''Delegating to an agent'',
     ''Calling a tool'', ''Applying file changes'', ''Generating an image'', ''Viewing an image'',
     ''Calling an MCP tool'', ''Planning the work'', ''Thinking through the request'', ''Waiting'',
     ''Working with a sub-agent'', ''Searching the web'', ''Reading files'', ''Listing files'',
     ''Searching files'', ''Opening a web page'', ''Finding text in a page'', ''Using web search'',
     ''Adding files'', ''Updating files'', ''Deleting files'', ''Starting a sub-agent'',
     ''Steering a sub-agent'', ''Resuming a sub-agent'', ''Waiting for sub-agents'', ''Closing a sub-agent'',
     ''Sub-agent started'', ''Sub-agent active'', ''Sub-agent interrupted'', ''Working on the request'',
     ''Waiting in queue'', ''Generating a response'', ''Run completed'', ''Run failed'', ''Run cancelled'',
     ''Run interrupted'']"

definition WEB_ACTIVITY_LABELS :: "string list" where
  "WEB_ACTIVITY_LABELS =
    [''Searching the web'', ''Opening a web page'', ''Finding text in a page'', ''Using web search'']"

definition INFO_SECTION_IDS :: "string list" where
  "INFO_SECTION_IDS = [''outputs'', ''subagents'', ''background'', ''browser'', ''sources'', ''usage'', ''system'']"

definition INFO_TABS :: table where
  "INFO_TABS = [(''activity'', ''Activity''), (''files'', ''Files''), (''usage'', ''Usage''), (''system'', ''System'')]"

section \<open>Scalars\<close>

definition infoVersion :: "jsval \<Rightarrow> jstr" where
  "infoVersion v = (case safeVersion v of Some s \<Rightarrow> s | None \<Rightarrow> js ''Unavailable'')"

definition safeBooleanLabel :: "jsval \<Rightarrow> string \<Rightarrow> string \<Rightarrow> string" where
  "safeBooleanLabel v positive negative =
     (if v = JBool True then positive else if v = JBool False then negative else ''Unavailable'')"

definition safeEnum :: "jsval \<Rightarrow> table \<Rightarrow> string \<Rightarrow> string" where
  "safeEnum v values fallback =
     (if is_string v
      then (case find (\<lambda>(k, l). js k = as_string v) values of Some (k, l) \<Rightarrow> l | None \<Rightarrow> fallback)
      else fallback)"

definition safePlan :: "jsval \<Rightarrow> jsval" where
  "safePlan v =
     (if \<not> is_string v then jlit ''Unknown''
      else js_or (obj_index INFO_PLAN_NAMES (js_lower (js_trim (as_string v)))) (jlit ''Unknown''))"

text \<open>\<open>Math.round\<close> rounds halves upwards.\<close>

definition math_round :: "rat \<Rightarrow> int" where
  "math_round r = \<lfloor>r + 1 / 2\<rfloor>"

definition safePercent :: "jsval \<Rightarrow> jstr" where
  "safePercent v =
     (case v of JNum (Fin r) \<Rightarrow>
        if r < 0 \<or> r > 100 then js ''Unavailable'' else dec_int (math_round r) @ js ''% remaining''
      | _ \<Rightarrow> js ''Unavailable'')"

definition safeCount :: "jsval \<Rightarrow> int" where
  "safeCount v = (if is_safe_integer v \<and> to_int v \<ge> 0 then min MAX_COUNT (to_int v) else 0)"

definition safeActivityLabel :: "jsval \<Rightarrow> jstr" where
  "safeActivityLabel v = (if v \<in> set (map jlit SAFE_ACTIVITY_LABELS) then as_string v else [])"

definition safeSourceCount :: "jsval \<Rightarrow> int" where
  "safeSourceCount v =
     (case v of JArr xs \<Rightarrow> min (int MAX_ARTIFACTS) (int (length xs)) | _ \<Rightarrow> safeCount v)"

section \<open>Run activity and files\<close>

record sub_counts =
  sc_total :: int
  sc_active :: int
  sc_completed :: int
  sc_attention :: int

record safe_activity =
  sf_state :: string
  sf_action :: jstr
  sf_historyCount :: nat
  sf_changed :: int
  sf_additions :: int
  sf_deletions :: int
  sf_subagents :: "sub_counts option"
  sf_webSearchActive :: bool

definition history_label :: "jsval \<Rightarrow> jstr" where
  "history_label item = (if is_record item then safeActivityLabel (dot item ''label'') else safeActivityLabel item)"

definition or_empty :: "jsval \<Rightarrow> jsval" where
  "or_empty v = (if is_record v then v else JObj [])"

definition safeRunActivity :: "jsval \<Rightarrow> safe_activity" where
  "safeRunActivity v =
     (if \<not> is_record v then
        \<lparr>sf_state = ''No active run'', sf_action = [], sf_historyCount = 0, sf_changed = 0, sf_additions = 0,
         sf_deletions = 0, sf_subagents = None, sf_webSearchActive = False\<rparr>
      else let stateValue = js_or (dot v ''state'') (dot v ''status'');
               state = (if is_string stateValue \<and> as_string stateValue \<noteq> []
                        then safeEnum stateValue RUN_ACTIVITY_STATES ''Unavailable'' else ''No active run'');
               action = safeActivityLabel (js_or (dot v ''currentActivity'') (dot v ''action''));
               history = length (filter (\<lambda>i. history_label i \<noteq> [])
                 (take MAX_INFO_HISTORY (as_list (dot v ''actionHistory''))));
               files = or_empty (dot v ''files''); sub = dot v ''subagents'' in
        \<lparr>sf_state = state, sf_action = action, sf_historyCount = history,
         sf_changed = safeCount (dot files ''changed''), sf_additions = safeCount (dot files ''additions''),
         sf_deletions = safeCount (dot files ''deletions''),
         sf_subagents = (if is_record sub
           then Some \<lparr>sc_total = safeCount (dot sub ''total''), sc_active = safeCount (dot sub ''active''),
                      sc_completed = safeCount (dot sub ''completed''), sc_attention = safeCount (dot sub ''attention'')\<rparr>
           else None),
         sf_webSearchActive = (dot v ''webSearchActive'' = JBool True \<or> dot v ''web_search_active'' = JBool True
           \<or> action \<in> set (map js WEB_ACTIVITY_LABELS))\<rparr>)"

definition artifact_bytes :: "int \<Rightarrow> jsval \<Rightarrow> int" where
  "artifact_bytes bytes artifact =
     (let n = (if is_record artifact then dot artifact ''size_bytes'' else JNull) in
      if is_safe_integer n \<and> to_int n \<ge> 0 then min MAX_SAFE_BYTES (bytes + to_int n) else bytes)"

definition safeArtifactSummary :: "jsval \<Rightarrow> int \<times> int" where
  "safeArtifactSummary artifacts =
     (case artifacts of
        JArr xs \<Rightarrow> (min (int MAX_ARTIFACTS) (int (length xs)), foldl artifact_bytes 0 (take MAX_ARTIFACTS xs))
      | _ \<Rightarrow> (0, 0))"

text \<open>
  \<open>toFixed(f)\<close> of a non-negative number below \<open>1e21\<close>: the nearest multiple of
  \<open>10^-f\<close>, the larger one when two are equally near.
\<close>

definition to_fixed :: "nat \<Rightarrow> rat \<Rightarrow> jstr" where
  "to_fixed f x =
     (let n = nat \<lfloor>x * 10 ^ f + 1 / 2\<rfloor> in
      if f = 0 then dec_nat n
      else dec_nat (n div 10 ^ f) @ [46]
        @ (let d = dec_nat (n mod 10 ^ f) in replicate (f - length d) 48 @ d))"

definition BYTE_UNITS :: "string list" where
  "BYTE_UNITS = [''KB'', ''MB'', ''GB'', ''TB'', ''PB'']"

fun byte_unit :: "string list \<Rightarrow> rat \<Rightarrow> string \<Rightarrow> rat \<times> string" where
  "byte_unit [] x unit = (x, unit)"
| "byte_unit (candidate # units) x unit =
     (let x = x / 1024 in
      if x < 1024 \<or> candidate = ''PB'' then (x, candidate) else byte_unit units x candidate)"

definition infoFormatBytes :: "int \<Rightarrow> jstr" where
  "infoFormatBytes bytes =
     (if \<bar>bytes\<bar> > MAX_SAFE \<or> bytes < 0 then js ''Unavailable''
      else if bytes < 1024 then dec_int bytes @ js '' B''
      else case byte_unit BYTE_UNITS (of_int bytes) ''B'' of (x, unit) \<Rightarrow>
        (if x \<ge> 10 then to_fixed 0 x else to_fixed 1 x) @ js '' '' @ js unit)"

section \<open>Sections\<close>

record info_section =
  is_id :: string
  is_title :: string
  is_summary :: jstr
  is_rows :: "(string \<times> jsval) list"

definition info_section :: "string \<Rightarrow> string \<Rightarrow> jstr \<Rightarrow> (string \<times> jsval) list \<Rightarrow> info_section" where
  "info_section i title summary rows =
     \<lparr>is_id = i, is_title = title, is_summary = summary, is_rows = take MAX_ROWS rows\<rparr>"

record info_input =
  in_status :: jsval
  in_thread :: jsval
  in_project :: jsval
  in_artifacts :: jsval
  in_panelVersion :: jsval
  in_runActivity :: jsval
  in_browser :: jsval
  in_sources :: jsval

definition count_row :: "int \<Rightarrow> jsval" where
  "count_row n = JStr (dec_int n)"

definition chat_is :: "string \<Rightarrow> jstr" where
  "chat_is s = js ''This chat is '' @ js_lower (js s) @ js ''.''"

definition activity_section :: "info_input \<Rightarrow> info_section" where
  "activity_section inp =
     (let safeThread = or_empty (in_thread inp); safeProject = or_empty (in_project inp);
          runState = safeEnum (dot safeThread ''status'') RUN_STATES ''No active run'' in
      info_section ''activity'' ''Current activity''
        (if runState = ''No active run'' then js ''Choose a chat to see its current run state.'' else chat_is runState)
        [(''Chat'', jlit (if truthy (dot safeThread ''thread_id'') then ''Selected'' else ''Not selected'')),
         (''Run'', jlit runState),
         (''Permission'', jlit (safeEnum (dot safeThread ''mode'') MODE_NAMES ''Unavailable'')),
         (''Workspace type'', jlit (safeEnum (dot safeProject ''kind'') PROJECT_KINDS ''Unavailable''))])"

definition outputs_section :: "info_input \<Rightarrow> info_section" where
  "outputs_section inp =
     (let safeThread = or_empty (in_thread inp); summary = safeArtifactSummary (in_artifacts inp);
          attachmentCount = (case dot safeThread ''attachments'' of
            JArr xs \<Rightarrow> min (int MAX_ARTIFACTS) (int (length xs)) | _ \<Rightarrow> 0) in
      info_section ''outputs'' ''Outputs''
        (js (if fst summary \<noteq> 0 then ''Files created or attached in this chat are ready to review.''
             else ''No files are available for this chat yet.''))
        [(''Available files'', count_row (fst summary)),
         (''Known size'', JStr (infoFormatBytes (snd summary))),
         (''Attachments'', count_row attachmentCount),
         (''Workspace archive'', jlit (if truthy (dot safeThread ''thread_id'')
            then ''Available from the Files section'' else ''Select a chat first''))])"

definition sub_count :: "(sub_counts \<Rightarrow> int) \<Rightarrow> safe_activity \<Rightarrow> int" where
  "sub_count f a = (case sf_subagents a of None \<Rightarrow> 0 | Some s \<Rightarrow> f s)"

definition subagents_section :: "safe_activity \<Rightarrow> info_section" where
  "subagents_section a =
     info_section ''subagents'' ''Subagents''
       (js (if sub_count sc_total a \<noteq> 0 then ''Aggregate sub-agent activity is shown without names or prompts.''
            else ''No sub-agent activity has been reported for this run.''))
       [(''Total'', count_row (sub_count sc_total a)), (''Active'', count_row (sub_count sc_active a)),
        (''Completed'', count_row (sub_count sc_completed a)),
        (''Needs attention'', count_row (sub_count sc_attention a))]"

definition background_section :: "safe_activity \<Rightarrow> info_section" where
  "background_section a =
     info_section ''background'' ''Background activity''
       (if sf_action a \<noteq> [] \<or> sf_state a = ''Working'' then chat_is (sf_state a)
        else js ''No background activity is currently reported.'')
       [(''Run'', jlit (sf_state a)),
        (''Current step'', JStr (if sf_action a = [] then js ''Unavailable'' else sf_action a)),
        (''Recent stages'', count_row (int (sf_historyCount a))), (''Files changed'', count_row (sf_changed a))]"

definition web_search :: "bool \<Rightarrow> info_input \<Rightarrow> bool" where
  "web_search b inp \<longleftrightarrow>
     dot (or_empty (dot (or_empty (in_status inp)) ''provider_capabilities'')) ''web_search'' = JBool b
     \<or> dot (or_empty (in_browser inp)) ''web_search'' = JBool b"

definition browser_section :: "safe_activity \<Rightarrow> info_input \<Rightarrow> info_section" where
  "browser_section a inp =
     info_section ''browser'' ''Browser''
       (js (if sf_webSearchActive a then ''Web search is active for this run.''
            else if web_search True inp then ''Web search is available when the run requests it.''
            else ''No browser activity is currently reported.''))
       [(''Web search'', jlit (if web_search True inp then ''Available''
           else if web_search False inp then ''Unavailable'' else ''Unknown'')),
        (''Current use'', jlit (if sf_webSearchActive a then ''Active'' else ''Not active''))]"

definition source_count :: "info_input \<Rightarrow> int" where
  "source_count inp =
     (let b = or_empty (in_browser inp) in
      max (safeSourceCount (in_sources inp)) (max (safeSourceCount (dot b ''source_count'')) (safeSourceCount (dot b ''sources''))))"

definition sources_section :: "info_input \<Rightarrow> info_section" where
  "sources_section inp =
     (let n = source_count inp in
      info_section ''sources'' ''Sources''
        (if n \<noteq> 0 then dec_int n @ js '' source'' @ js (if n = 1 then [] else ''s'') @ js '' reported for this run.''
         else js ''No source context is available for this run.'')
        [(''Sources'', count_row n),
         (''Details'', jlit (if n \<noteq> 0 then ''Available in the transcript'' else ''Unavailable''))])"

definition account_connected :: "jsval \<Rightarrow> bool" where
  "account_connected status \<longleftrightarrow>
     dot (or_empty (dot status ''auth'')) ''state'' = jlit ''ok''
     \<and> dot (or_empty (dot status ''auth'')) ''auth_required'' = JBool False
     \<and> dot (or_empty (dot status ''account'')) ''auth_mode'' = jlit ''chatgpt''"

definition usage_section :: "info_input \<Rightarrow> info_section" where
  "usage_section inp =
     (let status = or_empty (in_status inp); limits = or_empty (dot status ''limits'');
          percent = (\<lambda>k. if dot limits ''available'' = JBool True
             then safePercent (dot (or_empty (dot limits k)) ''remaining_percent'') else js ''Unavailable'') in
      info_section ''usage'' ''Usage and account''
        (js (if dot limits ''blocked'' = JBool True then ''Usage is temporarily unavailable for this account.''
             else if account_connected status then ''Usage is shown from the latest safe account snapshot.''
             else ''Connect a ChatGPT account to view usage.''))
        [(''ChatGPT'', jlit (if account_connected status then ''Connected'' else ''Not connected'')),
         (''Plan'', safePlan (dot (or_empty (dot status ''account'')) ''plan_type'')),
         (''5-hour limit'', JStr (percent ''primary'')), (''Weekly limit'', JStr (percent ''secondary''))])"

text \<open>A label and a version joined by a middle dot.\<close>

definition with_version :: "string \<Rightarrow> jsval \<Rightarrow> jsval" where
  "with_version label v = JStr (js label @ [32, 0xB7, 32] @ infoVersion v)"

definition system_section :: "(jstr \<Rightarrow> jsnum) \<Rightarrow> (rat \<Rightarrow> jstr) \<Rightarrow> info_input \<Rightarrow> info_section" where
  "system_section strNum fmt inp =
     (let status = or_empty (in_status inp); diagnostics = or_empty (dot status ''diagnostics'');
          app = or_empty (dot status ''app''); integration = or_empty (dot status ''integration'');
          bridgeReady = (js_Number strNum fmt (dot status ''api_version'') = Fin 1
            \<and> dot status ''bridge_ready'' \<noteq> JBool False);
          codexReady = (dot status ''codex_ready'' = JBool True
            \<or> (is_string (dot diagnostics ''app_server_version'') \<and> bridgeReady)) in
      info_section ''system'' ''System status''
        (js (if dot app ''connected'' = JBool True \<and> dot integration ''ready'' = JBool True \<and> bridgeReady \<and> codexReady
             then ''The private runtime is ready.''
             else ''One or more private runtime components need attention.''))
        [(''Panel'', JStr (infoVersion (in_panelVersion inp))),
         (''App'', with_version (safeBooleanLabel (dot app ''connected'') ''Connected'' ''Not connected'')
            (js_or (dot app ''version'') (dot diagnostics ''app_version''))),
         (''Integration'', with_version (safeBooleanLabel (dot integration ''ready'') ''Ready'' ''Needs attention'')
            (dot integration ''version'')),
         (''Bridge'', with_version (if bridgeReady then ''Ready'' else ''Needs attention'') (dot diagnostics ''bridge_version'')),
         (''Codex'', with_version (if codexReady then ''Ready'' else ''Needs attention'')
            (js_or (dot diagnostics ''app_server_version'') (dot diagnostics ''active_codex_version'')))])"

definition info_sections :: "(jstr \<Rightarrow> jsnum) \<Rightarrow> (rat \<Rightarrow> jstr) \<Rightarrow> info_input \<Rightarrow> info_section list" where
  "info_sections strNum fmt inp =
     (let a = safeRunActivity (in_runActivity inp) in
      [outputs_section inp, subagents_section a, background_section a, browser_section a inp,
       sources_section inp, usage_section inp, system_section strNum fmt inp])"

record info_center =
  ic_tabs :: table
  ic_sections :: "info_section list"
  ic_activity :: info_section
  ic_files :: info_section
  ic_usage :: info_section
  ic_system :: info_section

definition getInfoCenterViewModel :: "(jstr \<Rightarrow> jsnum) \<Rightarrow> (rat \<Rightarrow> jstr) \<Rightarrow> info_input \<Rightarrow> info_center" where
  "getInfoCenterViewModel strNum fmt inp =
     \<lparr>ic_tabs = INFO_TABS, ic_sections = info_sections strNum fmt inp, ic_activity = activity_section inp,
      ic_files = outputs_section inp, ic_usage = usage_section inp, ic_system = system_section strNum fmt inp\<rparr>"

section \<open>Displayed text\<close>

definition shown :: "nat \<Rightarrow> bool" where
  "shown u \<longleftrightarrow> 32 \<le> u \<and> \<not> (127 \<le> u \<and> u < 160)"

definition row_text :: "nat \<Rightarrow> jstr \<Rightarrow> bool" where
  "row_text n s \<longleftrightarrow> s \<noteq> [] \<and> length s \<le> n \<and> list_all shown s"

definition lit_text :: "nat \<Rightarrow> string \<Rightarrow> bool" where
  "lit_text n s \<longleftrightarrow> s \<noteq> [] \<and> length s \<le> n \<and> list_all (\<lambda>c. shown (of_char c)) s"

lemma row_text_js [simp]: "row_text n (js s) \<longleftrightarrow> lit_text n s"
  by (simp add: row_text_def lit_text_def js_def list_all_iff)

lemma row_text_mono: "row_text m s \<Longrightarrow> m \<le> n \<Longrightarrow> row_text n s"
  by (simp add: row_text_def)

lemma row_text_append: "row_text m s \<Longrightarrow> row_text n t \<Longrightarrow> row_text (m + n) (s @ t)"
  by (simp add: row_text_def)

lemma row_text_lower: "row_text n s \<Longrightarrow> row_text n (js_lower s)"
  by (auto simp: row_text_def js_lower_def list_all_iff lower_unit_def shown_def)

lemma length_dec_nat: "n < 10 ^ Suc k \<Longrightarrow> length (dec_nat n) \<le> Suc k"
proof (induction k arbitrary: n)
  case (Suc k)
  show ?case
  proof (cases "n < 10")
    case False
    have "n div 10 < 10 ^ Suc k" using Suc.prems by (simp add: less_mult_imp_div_less mult.commute)
    from Suc.IH [OF this] False show ?thesis by (subst dec_nat.simps) simp
  qed (simp add: dec_nat.simps)
qed (simp add: dec_nat.simps)

lemma row_text_dec_nat: "n < 10 ^ Suc k \<Longrightarrow> row_text (Suc k) (dec_nat n)"
  using dec_nat_digits [of n] length_dec_nat [of n k]
  by (auto simp: row_text_def list_all_iff is_digit_def shown_def)

lemma row_text_count: "0 \<le> n \<Longrightarrow> n \<le> 1000000 \<Longrightarrow> row_text 7 (dec_int n)"
  using row_text_dec_nat [of "nat n" 6] by (simp add: dec_int_def)

lemma version_shown: "version_char u \<Longrightarrow> shown u" "is_digit u \<Longrightarrow> shown u"
  by (auto simp: version_char_def is_digit_def is_alpha_def shown_def)

lemma row_text_version: "row_text 32 (infoVersion v)"
proof (cases "safeVersion v")
  case None
  then show ?thesis by (simp add: infoVersion_def lit_text_def shown_def)
next
  case (Some s)
  then show ?thesis
    by (auto simp: infoVersion_def safeVersion_def row_text_def list_all_iff version_shown
        split: jsval.splits list.splits if_splits)
qed

definition table_text :: "nat \<Rightarrow> table \<Rightarrow> bool" where
  "table_text n t \<longleftrightarrow> list_all (\<lambda>(k, l). lit_text n l) t"

lemma safeEnum_text: "table_text n t \<Longrightarrow> lit_text n fb \<Longrightarrow> lit_text n (safeEnum v t fb)"
proof -
  assume t: "table_text n t" "lit_text n fb"
  have "(k, l) \<in> set t" if "find (\<lambda>(k, l). js k = as_string v) t = Some (k, l)" for k l
    using that by (metis (no_types, lifting) find_Some_iff nth_mem)
  with t show ?thesis
    by (fastforce simp: safeEnum_def table_text_def list_all_iff split: option.split)
qed

lemma tables_text:
  "table_text 20 RUN_STATES" "table_text 20 MODE_NAMES" "table_text 20 PROJECT_KINDS" "table_text 20 RUN_ACTIVITY_STATES"
  by (simp_all add: table_text_def RUN_STATES_def MODE_NAMES_def PROJECT_KINDS_def RUN_ACTIVITY_STATES_def
      lit_text_def shown_def)

lemma fallback_text: "lit_text 20 ''No active run''" "lit_text 20 ''Unavailable''"
  by (simp_all add: lit_text_def shown_def)

lemma safeCount_range [js_bounds]: "0 \<le> safeCount v \<and> safeCount v \<le> 1000000"
  by (simp add: safeCount_def MAX_COUNT_def)

lemma safeSourceCount_range: "0 \<le> safeSourceCount v \<and> safeSourceCount v \<le> 1000000"
  using safeCount_range by (cases v) (auto simp: safeSourceCount_def MAX_ARTIFACTS_def)

lemma source_count_range: "0 \<le> source_count inp \<and> source_count inp \<le> 1000000"
  using safeSourceCount_range by (auto simp: source_count_def Let_def le_max_iff_disj)

lemma sub_count_range:
  assumes "f \<in> {sc_total, sc_active, sc_completed, sc_attention}"
  shows "0 \<le> sub_count f (safeRunActivity v) \<and> sub_count f (safeRunActivity v) \<le> 1000000"
  using assms safeCount_range by (auto simp: sub_count_def safeRunActivity_def Let_def)

lemma safeActivityLabel_text: "safeActivityLabel v = [] \<or> row_text 40 (safeActivityLabel v)"
proof -
  have "list_all (lit_text 40) SAFE_ACTIVITY_LABELS"
    by (simp add: SAFE_ACTIVITY_LABELS_def lit_text_def shown_def)
  then show ?thesis by (auto simp: safeActivityLabel_def list_all_iff)
qed

lemma safeRunActivity_text:
  "lit_text 20 (sf_state (safeRunActivity v))"
  "sf_action (safeRunActivity v) = [] \<or> row_text 40 (sf_action (safeRunActivity v))"
  "sf_historyCount (safeRunActivity v) \<le> 32"
  "0 \<le> sf_changed (safeRunActivity v) \<and> sf_changed (safeRunActivity v) \<le> 1000000"
proof -
  let ?h = "take MAX_INFO_HISTORY (as_list (dot v ''actionHistory''))"
  have "length (filter P ?h) \<le> 32" for P
    using length_filter_le [of P ?h] by (simp add: MAX_INFO_HISTORY_def)
  then show "sf_historyCount (safeRunActivity v) \<le> 32"
    by (simp add: safeRunActivity_def Let_def)
  show "lit_text 20 (sf_state (safeRunActivity v))"
    using safeEnum_text [OF tables_text(4) fallback_text(2)] fallback_text by (simp add: safeRunActivity_def Let_def)
  show "sf_action (safeRunActivity v) = [] \<or> row_text 40 (sf_action (safeRunActivity v))"
    using safeActivityLabel_text by (simp add: safeRunActivity_def Let_def)
  show "0 \<le> sf_changed (safeRunActivity v) \<and> sf_changed (safeRunActivity v) \<le> 1000000"
    using safeCount_range by (simp add: safeRunActivity_def Let_def)
qed

lemma percent_text: "row_text 14 (safePercent v)"
proof -
  have "row_text 14 (dec_int (math_round r) @ js ''% remaining'')" if "0 \<le> r" "r \<le> 100" for r
  proof -
    have "0 \<le> math_round r" "math_round r \<le> 100"
      using that by (auto simp: math_round_def le_floor_iff floor_le_iff)
    then have "row_text 3 (dec_int (math_round r))"
      using row_text_dec_nat [of "nat (math_round r)" 2] by (simp add: dec_int_def)
    from row_text_append [OF this, of 11 "js ''% remaining''"] show ?thesis
      by (simp add: lit_text_def shown_def)
  qed
  then show ?thesis
    by (auto simp: safePercent_def lit_text_def shown_def not_less split: jsval.split jsnum.split)
qed

section \<open>Byte sizes\<close>

lemma byte_unit_scaled:
  assumes "1024 \<le> x" "units \<noteq> []" "last units = ''PB''"
  shows "\<exists>k. 1 \<le> k \<and> k \<le> length units \<and> byte_unit units x u = (x / 1024 ^ k, units ! (k - 1))
     \<and> 1 \<le> x / 1024 ^ k \<and> (x / 1024 ^ k < 1024 \<or> units ! (k - 1) = ''PB'')"
  using assms
proof (induction units x u rule: byte_unit.induct)
  case (2 c units x unit)
  show ?case
  proof (cases "x / 1024 < 1024 \<or> c = ''PB''")
    case True
    then show ?thesis using 2(2) by (intro exI [of _ 1]) (auto simp: Let_def)
  next
    case False
    then have ne: "units \<noteq> []" "last units = ''PB''" using 2(4) by (auto split: if_splits)
    have "1024 \<le> x / 1024" using False by simp
    from "2.IH" [OF refl False this ne] obtain k where k: "1 \<le> k" "k \<le> length units"
      "byte_unit units (x / 1024) c = (x / 1024 / 1024 ^ k, units ! (k - 1))"
      "1 \<le> x / 1024 / 1024 ^ k" "x / 1024 / 1024 ^ k < 1024 \<or> units ! (k - 1) = ''PB''" by blast
    then show ?thesis using False
      by (intro exI [of _ "Suc k"]) (auto simp: Let_def nth_Cons')
  qed
qed simp

lemma byte_unit_bytes:
  assumes "1024 \<le> bytes" "bytes \<le> MAX_SAFE"
  obtains k where "1 \<le> k" "k \<le> 5" "byte_unit BYTE_UNITS (of_int bytes) ''B'' = (of_int bytes / 1024 ^ k, BYTE_UNITS ! (k - 1))"
    "1 \<le> (of_int bytes :: rat) / 1024 ^ k" "(of_int bytes :: rat) / 1024 ^ k < 1024"
proof -
  obtain k where k: "1 \<le> k" "k \<le> length BYTE_UNITS"
      "byte_unit BYTE_UNITS (of_int bytes) ''B'' = (of_int bytes / 1024 ^ k, BYTE_UNITS ! (k - 1))"
      "1 \<le> (of_int bytes :: rat) / 1024 ^ k" "(of_int bytes :: rat) / 1024 ^ k < 1024 \<or> BYTE_UNITS ! (k - 1) = ''PB''"
    using byte_unit_scaled [of "of_int bytes" BYTE_UNITS "''B''"] assms(1) by (auto simp: BYTE_UNITS_def)
  have "(of_int bytes :: rat) / 1024 ^ k < 1024"
  proof (cases "BYTE_UNITS ! (k - 1) = ''PB''")
    case True
    have "k \<in> {1, 2, 3, 4, 5}" using k(1,2) by (auto simp: BYTE_UNITS_def)
    with True have "k = 5" by (auto simp: BYTE_UNITS_def)
    moreover have "(of_int bytes :: rat) < 1024 ^ 6"
      using assms(2) by (simp add: MAX_SAFE_def)
    ultimately show ?thesis by simp
  qed (use k(5) in simp)
  with k that show thesis by (simp add: BYTE_UNITS_def)
qed

lemma to_fixed_text:
  assumes "0 \<le> x" "x < 1024"
  shows "row_text 4 (to_fixed 0 x)" "x < 10 \<Longrightarrow> row_text 4 (to_fixed 1 x)"
proof -
  let ?n = "nat \<lfloor>x + 1 / 2\<rfloor>"
  have "\<lfloor>x + 1 / 2\<rfloor> \<le> 1024" using assms by (simp add: floor_le_iff)
  then have "?n \<le> 1024" by linarith
  then have "?n < 10 ^ Suc 3" by (rule le_less_trans) simp
  from row_text_dec_nat [OF this] show "row_text 4 (to_fixed 0 x)" by (simp add: to_fixed_def)
next
  assume "x < 10"
  let ?n = "nat \<lfloor>x * 10 + 1 / 2\<rfloor>"
  have "\<lfloor>x * 10 + 1 / 2\<rfloor> \<le> 100" using \<open>x < 10\<close> by (simp add: floor_le_iff)
  then have "?n \<le> 100" by linarith
  then have "?n div 10 < 10 ^ Suc 1" by (simp add: div_less_iff_less_mult)
  then have a: "row_text 2 (dec_nat (?n div 10))" using row_text_dec_nat [of "?n div 10" 1] by (simp add: numeral_2_eq_2)
  have d: "dec_nat (?n mod 10) = [48 + ?n mod 10]" by (simp add: dec_nat.simps)
  have b: "row_text 2 (46 # dec_nat (?n mod 10))"
  proof -
    have "shown (48 + ?n mod 10)" using pos_mod_bound [of 10 "int ?n"] by (auto simp: shown_def)
    then show ?thesis unfolding d by (simp add: row_text_def shown_def)
  qed
  show "row_text 4 (to_fixed 1 x)"
    using row_text_append [OF a b] by (simp add: to_fixed_def Let_def d)
qed

lemma formatBytes_text: "row_text 20 (infoFormatBytes bytes)"
proof -
  have units: "k \<le> 5 \<Longrightarrow> 1 \<le> k \<Longrightarrow> lit_text 2 (BYTE_UNITS ! (k - 1))" for k
  proof -
    assume "k \<le> 5" "1 \<le> k"
    then have "k - 1 < length BYTE_UNITS" by (simp add: BYTE_UNITS_def)
    moreover have "list_all (lit_text 2) BYTE_UNITS" by (simp add: BYTE_UNITS_def lit_text_def shown_def)
    ultimately show ?thesis by (simp add: list_all_length)
  qed
  consider "\<bar>bytes\<bar> > MAX_SAFE \<or> bytes < 0" | "0 \<le> bytes" "bytes < 1024" | "1024 \<le> bytes" "bytes \<le> MAX_SAFE"
    by linarith
  then show ?thesis
  proof cases
    case 1
    then show ?thesis by (simp add: infoFormatBytes_def lit_text_def shown_def)
  next
    case 2
    then have "row_text 7 (dec_int bytes)" by (intro row_text_count) auto
    from row_text_append [OF this, of 2 "js '' B''"] 2 show ?thesis
      by (simp add: infoFormatBytes_def lit_text_def shown_def MAX_SAFE_def row_text_mono)
  next
    case 3
    then obtain k where k: "1 \<le> k" "k \<le> 5"
        "byte_unit BYTE_UNITS (of_int bytes) ''B'' = (of_int bytes / 1024 ^ k, BYTE_UNITS ! (k - 1))"
        "1 \<le> (of_int bytes :: rat) / 1024 ^ k" "(of_int bytes :: rat) / 1024 ^ k < 1024"
      by (rule byte_unit_bytes)
    let ?x = "(of_int bytes :: rat) / 1024 ^ k"
    have m: "row_text 4 (if ?x \<ge> 10 then to_fixed 0 ?x else to_fixed 1 ?x)"
      using to_fixed_text [of ?x] k by (simp add: not_le)
    have u: "row_text 3 (js '' '' @ js (BYTE_UNITS ! (k - 1)))"
    proof -
      have "row_text 1 (js '' '')" by (simp add: lit_text_def shown_def)
      from row_text_append [OF this, of 2 "js (BYTE_UNITS ! (k - 1))"] units [OF k(2,1)] show ?thesis
        by (simp add: numeral_3_eq_3)
    qed
    have "infoFormatBytes bytes = (if ?x \<ge> 10 then to_fixed 0 ?x else to_fixed 1 ?x) @ js '' '' @ js (BYTE_UNITS ! (k - 1))"
      using 3 k(3) by (simp add: infoFormatBytes_def)
    with row_text_append [OF m u] show ?thesis by (auto intro: row_text_mono)
  qed
qed

section \<open>Rows\<close>

definition inherited_name :: "jstr \<Rightarrow> bool" where
  "inherited_name k \<longleftrightarrow> k \<in> set (map js (''constructor'' # ''__proto__'' # proto_functions))"

definition row_ok :: "jsval \<Rightarrow> bool" where
  "row_ok v \<longleftrightarrow> (\<exists>s. v = JStr s \<and> row_text 64 s)"

lemma row_okI: "row_text n s \<Longrightarrow> n \<le> 64 \<Longrightarrow> row_ok (JStr s)"
  using row_text_mono by (auto simp: row_ok_def)

lemma row_ok_lit: "lit_text n s \<Longrightarrow> n \<le> 64 \<Longrightarrow> row_ok (jlit s)"
  by (rule row_okI) simp_all

lemma row_ok_count: "0 \<le> n \<and> n \<le> 1000000 \<Longrightarrow> row_ok (count_row n)"
  unfolding count_row_def by (rule row_okI [of 7]) (auto intro: row_text_count)

lemma row_ok_with_version: "lit_text 20 l \<Longrightarrow> row_ok (with_version l v)"
proof -
  assume l: "lit_text 20 l"
  have "row_text 3 [32, 0xB7, 32]" by (simp add: row_text_def shown_def)
  from row_text_append [OF this row_text_version] l show ?thesis
    unfolding with_version_def
    by (intro row_okI [of "20 + (3 + 32)"] row_text_append [of 20 "js l"]) simp_all
qed

lemma safePlan_cases:
  "is_string v \<Longrightarrow> inherited_name (js_lower (js_trim (as_string v))) \<Longrightarrow>
     safePlan v = proto_get (js_lower (js_trim (as_string v)))"
  "\<not> (is_string v \<and> inherited_name (js_lower (js_trim (as_string v)))) \<Longrightarrow> row_ok (safePlan v)"
proof -
  let ?k = "js_lower (js_trim (as_string v))"
  have vals: "row_ok x \<and> truthy x" if "x \<in> snd ` set INFO_PLAN_NAMES" for x
    using that by (auto simp: INFO_PLAN_NAMES_def lit_text_def shown_def intro!: row_ok_lit [of 12])
  have keys: "\<not> inherited_name k" if "k \<in> fst ` set INFO_PLAN_NAMES" for k
    using that by (auto simp: INFO_PLAN_NAMES_def inherited_name_def proto_functions_def)
  show "safePlan v = proto_get ?k" if str: "is_string v" and inh: "inherited_name ?k"
  proof -
    have "map_of INFO_PLAN_NAMES ?k = None" using inh keys by (auto simp: map_of_eq_None_iff)
    moreover have "truthy (proto_get ?k)" using inh by (auto simp: inherited_name_def proto_get_def)
    ultimately show ?thesis using str by (simp add: safePlan_def obj_index_def js_or_def)
  qed
  have u: "row_ok (jlit ''Unknown'')" by (rule row_ok_lit [of 7]) (simp_all add: lit_text_def shown_def)
  assume n: "\<not> (is_string v \<and> inherited_name ?k)"
  show "row_ok (safePlan v)"
  proof (cases "map_of INFO_PLAN_NAMES ?k")
    case None
    with n u show ?thesis
      by (auto simp: safePlan_def obj_index_def js_or_def proto_get_def inherited_name_def)
  next
    case (Some x)
    then have "x \<in> snd ` set INFO_PLAN_NAMES" by (force dest: map_of_SomeD)
    with vals Some u show ?thesis by (auto simp: safePlan_def obj_index_def js_or_def)
  qed
qed

section \<open>Properties\<close>

lemma section_rows:
  "list_all (\<lambda>(l, v). row_ok v) (is_rows (activity_section inp))"
  "list_all (\<lambda>(l, v). row_ok v) (is_rows (outputs_section inp))"
  "list_all (\<lambda>(l, v). row_ok v) (is_rows (subagents_section (safeRunActivity r)))"
  "list_all (\<lambda>(l, v). row_ok v) (is_rows (background_section (safeRunActivity r)))"
  "list_all (\<lambda>(l, v). row_ok v) (is_rows (browser_section a inp))"
  "list_all (\<lambda>(l, v). row_ok v) (is_rows (sources_section inp))"
  "list_all (\<lambda>(l, v). row_ok v) (is_rows (system_section strNum fmt inp))"
proof -
  have lits: "row_ok (jlit ''Selected'')" "row_ok (jlit ''Not selected'')" "row_ok (jlit ''Available from the Files section'')"
    "row_ok (jlit ''Select a chat first'')" "row_ok (jlit ''Unavailable'')" "row_ok (jlit ''Available'')"
    "row_ok (jlit ''Unknown'')" "row_ok (jlit ''Active'')" "row_ok (jlit ''Not active'')"
    "row_ok (jlit ''Available in the transcript'')"
    by (rule row_ok_lit [of 40]; simp add: lit_text_def shown_def)+
  have labels: "lit_text 20 ''Ready''" "lit_text 20 ''Needs attention''" "lit_text 20 ''Connected''"
    "lit_text 20 ''Not connected''" "lit_text 20 ''Unavailable''"
    by (simp_all add: lit_text_def shown_def)
  note enum = row_ok_lit [OF safeEnum_text, of 20]
  show "list_all (\<lambda>(l, v). row_ok v) (is_rows (activity_section inp))"
    using lits enum [OF tables_text(1) fallback_text(1)] enum [OF tables_text(2) fallback_text(2)]
      enum [OF tables_text(3) fallback_text(2)]
    by (simp add: activity_section_def info_section_def MAX_ROWS_def Let_def)
  show "list_all (\<lambda>(l, v). row_ok v) (is_rows (outputs_section inp))"
  proof -
    have "0 \<le> fst (safeArtifactSummary v) \<and> fst (safeArtifactSummary v) \<le> 1000000" for v
      by (cases v) (auto simp: safeArtifactSummary_def MAX_ARTIFACTS_def)
    moreover have "0 \<le> (case v of JArr xs \<Rightarrow> min (int MAX_ARTIFACTS) (int (length xs)) | _ \<Rightarrow> 0)
        \<and> (case v of JArr xs \<Rightarrow> min (int MAX_ARTIFACTS) (int (length xs)) | _ \<Rightarrow> 0) \<le> 1000000" for v
      by (cases v) (auto simp: MAX_ARTIFACTS_def)
    ultimately show ?thesis
      using lits row_okI [OF formatBytes_text]
      by (simp add: outputs_section_def info_section_def MAX_ROWS_def Let_def row_ok_count)
  qed
  show "list_all (\<lambda>(l, v). row_ok v) (is_rows (subagents_section (safeRunActivity r)))"
    by (simp add: subagents_section_def info_section_def MAX_ROWS_def row_ok_count sub_count_range)
  show "list_all (\<lambda>(l, v). row_ok v) (is_rows (background_section (safeRunActivity r)))"
  proof -
    have "row_ok (JStr (if sf_action (safeRunActivity r) = [] then js ''Unavailable'' else sf_action (safeRunActivity r)))"
      using safeRunActivity_text(2) [of r] labels(5) by (auto intro: row_okI [of 40] row_ok_lit [of 20])
    then show ?thesis
      using safeRunActivity_text [of r] row_ok_lit [OF safeRunActivity_text(1)]
      by (simp add: background_section_def info_section_def MAX_ROWS_def row_ok_count)
  qed
  show "list_all (\<lambda>(l, v). row_ok v) (is_rows (browser_section a inp))"
    using lits by (simp add: browser_section_def info_section_def MAX_ROWS_def)
  show "list_all (\<lambda>(l, v). row_ok v) (is_rows (sources_section inp))"
    using lits source_count_range [of inp] by (simp add: sources_section_def info_section_def MAX_ROWS_def Let_def row_ok_count)
  have "lit_text 20 (safeBooleanLabel v ''Connected'' ''Not connected'')" "lit_text 20 (safeBooleanLabel v ''Ready'' ''Needs attention'')" for v
    using labels by (simp_all add: safeBooleanLabel_def)
  then show "list_all (\<lambda>(l, v). row_ok v) (is_rows (system_section strNum fmt inp))"
    using labels row_okI [OF row_text_version]
    by (simp add: system_section_def info_section_def MAX_ROWS_def Let_def row_ok_with_version)
qed

lemma usage_rows:
  "\<forall>(l, v)\<in>set (is_rows (usage_section inp)). row_ok v \<or> l = ''Plan''"
proof -
  have "row_ok (jlit ''Connected'')" "row_ok (jlit ''Not connected'')" "row_ok (jlit ''Unavailable'')"
    by (rule row_ok_lit [of 40]; simp add: lit_text_def shown_def)+
  then show ?thesis
    using row_okI [OF percent_text]
    by (simp add: usage_section_def info_section_def MAX_ROWS_def Let_def)
qed

lemma plan_row:
  "(''Plan'', v) \<in> set (is_rows (usage_section inp)) \<Longrightarrow>
     v = safePlan (dot (or_empty (dot (or_empty (in_status inp)) ''account'')) ''plan_type'')"
  by (auto simp: usage_section_def info_section_def MAX_ROWS_def Let_def)

text \<open>The heading of a section: its title, its summary and the labels of its rows.\<close>

definition heading_ok :: "info_section \<Rightarrow> bool" where
  "heading_ok sec \<longleftrightarrow> lit_text 64 (is_title sec) \<and> row_text 64 (is_summary sec)
     \<and> list_all (\<lambda>(l, v). lit_text 64 l) (is_rows sec)"

lemma chat_is_text: "lit_text 20 s \<Longrightarrow> row_text 64 (chat_is s)"
proof -
  assume "lit_text 20 s"
  then have s: "row_text 20 (js_lower (js s))" by (simp add: row_text_lower)
  have "row_text 13 (js ''This chat is '')" "row_text 1 (js ''.'')" by (simp_all add: lit_text_def shown_def)
  from row_text_append [OF this(1) row_text_append [OF s this(2)]] show ?thesis
    unfolding chat_is_def by (rule row_text_mono) simp
qed

lemma sources_summary_text:
  assumes "0 \<le> n" "n \<le> 1000000"
  shows "row_text 64 (dec_int n @ js '' source'' @ js (if n = 1 then [] else ''s'') @ js '' reported for this run.'')"
proof -
  have parts: "row_text 7 (js '' source'')" "row_text 1 (js ''s'')" "row_text 23 (js '' reported for this run.'')"
    by (simp_all add: lit_text_def shown_def)
  note row_text_append [OF parts(1,3)] row_text_append [OF parts(1) row_text_append [OF parts(2,3)]]
  then have "row_text 40 (js '' source'' @ js (if n = 1 then [] else ''s'') @ js '' reported for this run.'')"
    by (auto simp: js_def intro: row_text_mono)
  from row_text_append [OF row_text_count [OF assms] this] show ?thesis by (rule row_text_mono) simp
qed

lemma section_headings:
  "heading_ok (activity_section inp)" "heading_ok (outputs_section inp)" "heading_ok (subagents_section a)"
  "heading_ok (background_section (safeRunActivity r))" "heading_ok (browser_section a inp)" "heading_ok (sources_section inp)"
  "heading_ok (usage_section inp)" "heading_ok (system_section strNum fmt inp)"
proof -
  note defs = heading_ok_def info_section_def MAX_ROWS_def Let_def
  show "heading_ok (activity_section inp)"
    using chat_is_text [OF safeEnum_text [OF tables_text(1) fallback_text(1)]]
    by (simp add: activity_section_def defs) (simp add: lit_text_def shown_def)
  show "heading_ok (background_section (safeRunActivity r))"
    using chat_is_text [OF safeRunActivity_text(1)]
    by (simp add: background_section_def defs) (simp add: lit_text_def shown_def)
  show "heading_ok (sources_section inp)"
    using sources_summary_text [of "source_count inp"] source_count_range [of inp]
    by (simp add: sources_section_def defs) (simp add: lit_text_def shown_def)
qed (simp_all add: outputs_section_def subagents_section_def browser_section_def usage_section_def system_section_def
    heading_ok_def info_section_def MAX_ROWS_def Let_def lit_text_def shown_def)

lemma list_all_intro: "(\<And>x. x \<in> set xs \<Longrightarrow> P x) \<Longrightarrow> list_all P xs"
  by (simp add: list_all_iff)

definition shown_sections :: "info_center \<Rightarrow> info_section list" where
  "shown_sections ic = ic_activity ic # ic_files ic # ic_usage ic # ic_system ic # ic_sections ic"

text \<open>
  C29: Whatever the bridge status, thread, files, activity and browser data are, the
  information centre has its seven sections in the documented order and shows only
  short texts (1 to 64 units) without control characters: the labels of the tabs, and
  of every section the title, the summary and the labels and values of its at most
  eight rows. The one exception is the value of the plan, and only when the reported
  plan type is the name of a property every JavaScript object inherits.
\<close>

theorem info_center_rows_safe:
  "map is_id (ic_sections (getInfoCenterViewModel strNum fmt inp)) = INFO_SECTION_IDS
   \<and> list_all (\<lambda>(k, l). lit_text 64 l) (ic_tabs (getInfoCenterViewModel strNum fmt inp))
   \<and> list_all (\<lambda>sec. lit_text 64 (is_title sec) \<and> row_text 64 (is_summary sec)
        \<and> length (is_rows sec) \<le> 8 \<and> list_all (\<lambda>(l, v). lit_text 64 l \<and> (row_ok v \<or> (l = ''Plan'' \<and>
        (\<exists>t. dot (or_empty (dot (or_empty (in_status inp)) ''account'')) ''plan_type'' = JStr t
           \<and> inherited_name (js_lower (js_trim t)))))) (is_rows sec))
       (shown_sections (getInfoCenterViewModel strNum fmt inp))"
proof (intro conjI)
  show "map is_id (ic_sections (getInfoCenterViewModel strNum fmt inp)) = INFO_SECTION_IDS"
    by (simp add: getInfoCenterViewModel_def info_sections_def INFO_SECTION_IDS_def Let_def info_section_def
        outputs_section_def subagents_section_def background_section_def browser_section_def sources_section_def
        usage_section_def system_section_def)
  show "list_all (\<lambda>(k, l). lit_text 64 l) (ic_tabs (getInfoCenterViewModel strNum fmt inp))"
    by (simp add: getInfoCenterViewModel_def INFO_TABS_def lit_text_def shown_def)
  let ?p = "dot (or_empty (dot (or_empty (in_status inp)) ''account'')) ''plan_type''"
  let ?ok = "\<lambda>(l, v). row_ok v \<or> (l = ''Plan'' \<and> (\<exists>t. ?p = JStr t \<and> inherited_name (js_lower (js_trim t))))"
  have plain: "list_all (\<lambda>(l, v). row_ok v) rs \<Longrightarrow> list_all ?ok rs" for rs
    by (auto simp: list_all_iff)
  have usage: "list_all ?ok (is_rows (usage_section inp))"
    unfolding list_all_iff
  proof
    fix x assume x: "x \<in> set (is_rows (usage_section inp))"
    obtain l v where lv: "x = (l, v)" by (cases x)
    show "?ok x"
    proof (cases "row_ok v")
      case False
      with usage_rows [of inp] x lv have l: "l = ''Plan''" by auto
      with plan_row x lv have v: "v = safePlan ?p" by blast
      with False safePlan_cases(2) [of ?p] have "is_string ?p" "inherited_name (js_lower (js_trim (as_string ?p)))" by auto
      with l lv show ?thesis by (auto elim!: is_stringE)
    qed (simp add: lv)
  qed
  have texts: "lit_text 64 (is_title sec) \<and> row_text 64 (is_summary sec) \<and> length (is_rows sec) \<le> 8
      \<and> list_all (\<lambda>(l, v). lit_text 64 l \<and> (row_ok v \<or> (l = ''Plan'' \<and>
        (\<exists>t. ?p = JStr t \<and> inherited_name (js_lower (js_trim t)))))) (is_rows sec)"
    if "heading_ok sec" "length (is_rows sec) \<le> 8" "list_all ?ok (is_rows sec)" for sec
    using that by (auto simp: heading_ok_def list_all_iff)
  have rows: "length (is_rows sec) \<le> 8" if "sec \<in> set (shown_sections (getInfoCenterViewModel strNum fmt inp))" for sec
    using that by (auto simp: shown_sections_def getInfoCenterViewModel_def info_sections_def Let_def info_section_def MAX_ROWS_def
        activity_section_def outputs_section_def subagents_section_def background_section_def browser_section_def
        sources_section_def usage_section_def system_section_def)
  note all_rows = plain [OF section_rows(1)] plain [OF section_rows(2)] plain [OF section_rows(3)] plain [OF section_rows(4)]
      plain [OF section_rows(5)] plain [OF section_rows(6)] plain [OF section_rows(7)] usage
  have parts: "heading_ok sec \<and> list_all ?ok (is_rows sec)"
    if "sec \<in> set (shown_sections (getInfoCenterViewModel strNum fmt inp))" for sec
    using that all_rows section_headings
    by (auto simp only: shown_sections_def getInfoCenterViewModel_def info_sections_def Let_def info_center.select_convs
        list.set insert_iff empty_iff)
  show "list_all (\<lambda>sec. lit_text 64 (is_title sec) \<and> row_text 64 (is_summary sec)
        \<and> length (is_rows sec) \<le> 8 \<and> list_all (\<lambda>(l, v). lit_text 64 l \<and> (row_ok v \<or> (l = ''Plan'' \<and>
        (\<exists>t. ?p = JStr t \<and> inherited_name (js_lower (js_trim t)))))) (is_rows sec))
       (shown_sections (getInfoCenterViewModel strNum fmt inp))"
    by (rule list_all_intro, rule texts) (auto dest: parts rows)
qed

text \<open>
  A size of at least 1024 bytes is shown in the binary unit whose multiple it
  reaches without reaching the next one, as the quotient rounded to one decimal
  below ten and to an integer from ten on.
\<close>

theorem formatBytes_unit:
  assumes "1024 \<le> bytes" and "bytes \<le> MAX_SAFE"
  shows "\<exists>k. 1 \<le> k \<and> k \<le> 5 \<and> 1024 ^ k \<le> bytes \<and> bytes < 1024 ^ Suc k
     \<and> infoFormatBytes bytes = to_fixed (if bytes \<ge> 10 * 1024 ^ k then 0 else 1) (of_int bytes / 1024 ^ k)
         @ js '' '' @ js (BYTE_UNITS ! (k - 1))"
proof -
  obtain k where k: "1 \<le> k" "k \<le> 5"
      "byte_unit BYTE_UNITS (of_int bytes) ''B'' = (of_int bytes / 1024 ^ k, BYTE_UNITS ! (k - 1))"
      "1 \<le> (of_int bytes :: rat) / 1024 ^ k" "(of_int bytes :: rat) / 1024 ^ k < 1024"
    using assms by (rule byte_unit_bytes)
  have "(of_int (1024 ^ k) :: rat) \<le> of_int bytes" "(of_int bytes :: rat) < of_int (1024 ^ Suc k)"
    using k(4,5) by (simp_all add: field_simps)
  then have r: "1024 ^ k \<le> bytes" "bytes < 1024 ^ Suc k"
    unfolding of_int_le_iff of_int_less_iff by simp_all
  have "(of_int bytes :: rat) / 1024 ^ k \<ge> 10 \<longleftrightarrow> (of_int bytes :: rat) \<ge> of_int (10 * 1024 ^ k)"
    by (simp add: field_simps)
  then have "(of_int bytes :: rat) / 1024 ^ k \<ge> 10 \<longleftrightarrow> bytes \<ge> 10 * 1024 ^ k"
    unfolding of_int_le_iff .
  then have "infoFormatBytes bytes = to_fixed (if bytes \<ge> 10 * 1024 ^ k then 0 else 1) (of_int bytes / 1024 ^ k)
         @ js '' '' @ js (BYTE_UNITS ! (k - 1))"
    using assms k(3) by (simp add: infoFormatBytes_def)
  with k(1,2) r show ?thesis by blast
qed

theorem formatBytes_unit_witness:
  "\<exists>k. 1 \<le> k \<and> k \<le> 5 \<and> (1024::int) ^ k \<le> 1536 \<and> 1536 < (1024::int) ^ Suc k
     \<and> infoFormatBytes 1536 = to_fixed (if 1536 \<ge> (10::int) * 1024 ^ k then 0 else 1) (of_int 1536 / 1024 ^ k)
         @ js '' '' @ js (BYTE_UNITS ! (k - 1))"
  by (rule formatBytes_unit) (simp_all add: MAX_SAFE_def)

end
