(* ===== verification/DesktopFeatures.thy ===== *)
theory DesktopFeatures
  imports StatusViews
begin

text \<open>
  The desktop surfaces (\<open>src/frontend/src/desktop-features.js\<close>): the projection of
  the bridge's list responses, the payload of an automation, and the four rendered
  surfaces (scheduled tasks, skills, plugins, settings). A reload rebuilds a surface
  from its state, so the unsaved values of its form are kept in \<open>formDraft\<close> and
  \<open>agentsDrafts\<close>. The parameters \<open>strNum\<close> and \<open>fmt\<close> are the conversions between
  numbers and strings. The redaction of error messages is in theory Redaction.
\<close>

section \<open>Projections\<close>

definition DESTINATIONS :: "(string \<times> string \<times> string) list" where
  "DESTINATIONS = [(''chats'', ''Chats'', ''chat''), (''scheduled'', ''Scheduled'', ''calendar''),
     (''skills'', ''Skills'', ''spark''), (''plugins'', ''Plugins'', ''puzzle''),
     (''settings'', ''Settings'', ''settings'')]"

definition asRecord :: "jsval \<Rightarrow> jsobj" where
  "asRecord v = (case v of JObj kvs \<Rightarrow> kvs | _ \<Rightarrow> [])"

record tool_state =
  ts_label :: string
  ts_state :: string

definition explicitlySignedOut :: "jsval \<Rightarrow> bool" where
  "explicitlySignedOut status \<longleftrightarrow>
     (let auth = asRecord (obj_get (asRecord status) (js ''auth'')) in
      auth \<noteq> [] \<and> (dot (JObj auth) ''auth_required'' = JBool True
        \<or> (is_string (dot (JObj auth) ''state'') \<and> dot (JObj auth) ''state'' \<noteq> jlit ''ok'')))"

definition image_tool :: "jsval \<Rightarrow> bool \<Rightarrow> tool_state" where
  "image_tool capabilities signedOut =
     (let image = dot capabilities ''image_generation''; tools = dot capabilities ''namespace_tools'' in
      if image = JBool True \<and> tools = JBool True \<and> \<not> signedOut
      then \<lparr>ts_label = ''Available'', ts_state = ''available''\<rparr>
      else if image = JBool False \<or> tools = JBool False \<or> signedOut
      then \<lparr>ts_label = ''Unavailable'', ts_state = ''unavailable''\<rparr>
      else \<lparr>ts_label = ''Checking'', ts_state = ''checking''\<rparr>)"

definition web_tool :: "jsval \<Rightarrow> bool \<Rightarrow> jsval \<Rightarrow> tool_state" where
  "web_tool capabilities signedOut mode =
     (let checking = \<lparr>ts_label = ''Checking'', ts_state = ''checking''\<rparr> in
      if mode = jlit ''disabled'' then \<lparr>ts_label = ''Off'', ts_state = ''unavailable''\<rparr>
      else if mode = jlit ''live'' then
        (if dot capabilities ''web_search'' = JBool True \<and> \<not> signedOut
         then \<lparr>ts_label = ''Live'', ts_state = ''available''\<rparr>
         else if dot capabilities ''web_search'' = JBool False \<or> signedOut
         then \<lparr>ts_label = ''Unavailable'', ts_state = ''unavailable''\<rparr>
         else checking)
      else checking)"

definition getNativeToolsViewModel :: "jsval \<Rightarrow> jsval \<Rightarrow> tool_state \<times> tool_state" where
  "getNativeToolsViewModel status config =
     (let capabilities = JObj (asRecord (obj_get (asRecord status) (js ''provider_capabilities'')));
          signedOut = explicitlySignedOut status in
      (image_tool capabilities signedOut,
       web_tool capabilities signedOut (obj_get (asRecord config) (js ''web_search_mode''))))"

definition item_object :: "jsval \<Rightarrow> bool" where
  "item_object v \<longleftrightarrow> truthy v \<and> is_object v"

definition LIST_KEYS :: "string list" where
  "LIST_KEYS = [''items'', ''data'', ''results'', ''automations'', ''skills'', ''plugins'',
     ''marketplaces'', ''servers'', ''runs'']"

definition normalizeDesktopList :: "jsval \<Rightarrow> jsval list" where
  "normalizeDesktopList v =
     (case v of JArr xs \<Rightarrow> filter item_object xs
      | _ \<Rightarrow> (case first_some (\<lambda>k. case obj_get (asRecord v) (js k) of JArr xs \<Rightarrow> Some xs | _ \<Rightarrow> None) LIST_KEYS of
          Some xs \<Rightarrow> filter item_object xs | None \<Rightarrow> []))"

text \<open>The own enumerable properties an object spread \<open>{...v}\<close> copies.\<close>

definition spread :: "jsval \<Rightarrow> jsobj" where
  "spread v =
     (case v of JObj kvs \<Rightarrow> kvs
      | JArr xs \<Rightarrow> map (\<lambda>(i, x). (dec_nat i, x)) (enumerate 0 xs)
      | JStr s \<Rightarrow> map (\<lambda>(i, u). (dec_nat i, JStr [u])) (enumerate 0 s)
      | _ \<Rightarrow> [])"

text \<open>
  Reading a property of \<open>null\<close> or \<open>undefined\<close> throws a TypeError: \<open>None\<close>.
\<close>

definition with_default :: "string \<Rightarrow> jsval \<Rightarrow> jsval \<Rightarrow> jsval option" where
  "with_default k fallback v =
     (if nullish v then None
      else Some (JObj (obj_set (spread v) (js k) (js_or (dot v k) fallback))))"

fun all_some :: "'a option list \<Rightarrow> 'a list option" where
  "all_some [] = Some []"
| "all_some (None # xs) = None"
| "all_some (Some x # xs) = map_option ((#) x) (all_some xs)"

definition normalizeSkillsResponse :: "jsval \<Rightarrow> jsval list option" where
  "normalizeSkillsResponse v =
     (let entries = (case obj_get (asRecord v) (js ''data'') of JArr xs \<Rightarrow> xs | _ \<Rightarrow> normalizeDesktopList v) in
      map_option (filter item_object)
        (all_some (concat (map (\<lambda>entry.
           case dot entry ''skills'' of
             JArr skills \<Rightarrow> map (with_default ''scope'' (dot entry ''cwd'')) skills
           | _ \<Rightarrow> []) entries))))"

definition marketplace_entries :: "jsval \<Rightarrow> jsval list" where
  "marketplace_entries v =
     (case obj_get (asRecord v) (js ''marketplaces'') of JArr xs \<Rightarrow> xs
      | _ \<Rightarrow> (case obj_get (asRecord v) (js ''data'') of JArr xs \<Rightarrow> xs | _ \<Rightarrow> normalizeDesktopList v))"

definition normalizePluginsResponse :: "jsval \<Rightarrow> jsval list option" where
  "normalizePluginsResponse v =
     map_option (filter item_object)
       (all_some (concat (map (\<lambda>marketplace.
          map (with_default ''marketplace_name'' (dot marketplace ''name'')) (as_list (dot marketplace ''plugins'')))
          (marketplace_entries v))))"

definition normalizeMarketplacesResponse :: "jsval \<Rightarrow> jsval list" where
  "normalizeMarketplacesResponse v =
     map (\<lambda>marketplace. JObj [(js ''name'', dot marketplace ''name''),
            (js ''plugins'', JArr (as_list (dot marketplace ''plugins'')))])
       (filter item_object (marketplace_entries v))"

section \<open>Automation payloads\<close>

definition automation_target :: "jsval \<Rightarrow> jsval" where
  "automation_target values =
     (if truthy (dot values ''thread_id'')
      then JObj [(js ''kind'', jlit ''continue_thread''), (js ''thread_id'', dot values ''thread_id'')]
      else JObj [(js ''kind'', jlit ''standalone''), (js ''project_id'', dot values ''project_id'')])"

definition automation_schedule :: "(jstr \<Rightarrow> jsnum) \<Rightarrow> (rat \<Rightarrow> jstr) \<Rightarrow> jsval \<Rightarrow> jsval" where
  "automation_schedule strNum fmt values =
     (let kind = js_or (dot values ''schedule_type'') (jlit ''once'') in
      if kind = jlit ''interval''
      then JObj [(js ''kind'', kind), (js ''seconds'', JNum (js_Number strNum fmt (dot values ''interval_seconds''))),
                 (js ''anchor_at'', js_or (dot values ''anchor_at'') (dot values ''run_at''))]
      else if kind = jlit ''RRULE'' \<or> kind = jlit ''rrule''
      then JObj [(js ''kind'', jlit ''rrule''), (js ''rule'', dot values ''rrule''),
                 (js ''start_at'', js_or (dot values ''start_at'') (dot values ''run_at'')),
                 (js ''timezone'', dot values ''timezone'')]
      else JObj [(js ''kind'', jlit ''once''), (js ''at'', dot values ''run_at'')])"

definition buildAutomationPayload :: "(jstr \<Rightarrow> jsnum) \<Rightarrow> (rat \<Rightarrow> jstr) \<Rightarrow> jsval \<Rightarrow> jsobj" where
  "buildAutomationPayload strNum fmt values =
     [(js ''name'', js_or (js_or (dot values ''name'') (dot values ''title'')) (jlit ''Untitled automation'')),
      (js ''prompt'', js_or (dot values ''prompt'') (JStr [])),
      (js ''target'', automation_target values),
      (js ''schedule'', automation_schedule strNum fmt values),
      (js ''mode'', js_or (dot values ''mode'') (jlit ''observe'')),
      (js ''model'', js_or (dot values ''model'') JNull),
      (js ''thinking'', js_or (js_or (dot values ''thinking'') (dot values ''reasoning'')) JNull)]"

definition buildAutomationUpdatePayload :: "(jstr \<Rightarrow> jsnum) \<Rightarrow> (rat \<Rightarrow> jstr) \<Rightarrow> jsval \<Rightarrow> jsobj" where
  "buildAutomationUpdatePayload strNum fmt values =
     (js ''expected_revision'', JNum (js_Number strNum fmt (dot values ''revision'')))
     # buildAutomationPayload strNum fmt values"

section \<open>State\<close>

text \<open>
  The state of one surface. The last fields are added by the panel when it first
  sets them; \<open>undefined\<close> is their absence.
\<close>

record desktop_state =
  ds_loading :: bool
  ds_error :: jstr
  ds_data :: jsobj
  ds_form :: jsval
  ds_notice :: jstr
  ds_formDraft :: jsobj
  ds_agentsDrafts :: jsobj
  ds_loaded :: bool
  ds_editingAutomation :: jsval
  ds_settingsTab :: jsval
  ds_agentsScope :: jsval
  ds_agentsProjectId :: jsval
  ds_confirmAction :: "(string \<times> jsobj) option"
  ds_agentsLoadGeneration :: nat
  ds_agentsRequestProjectId :: jsval
  ds_agentsReloadQueued :: bool

definition createDesktopFeatureState :: desktop_state where
  "createDesktopFeatureState =
     \<lparr>ds_loading = False, ds_error = [], ds_data = [], ds_form = JNull, ds_notice = [], ds_formDraft = [],
      ds_agentsDrafts = [], ds_loaded = False, ds_editingAutomation = JUndefined, ds_settingsTab = JUndefined,
      ds_agentsScope = JUndefined, ds_agentsProjectId = JUndefined, ds_confirmAction = None,
      ds_agentsLoadGeneration = 0, ds_agentsRequestProjectId = JUndefined, ds_agentsReloadQueued = False\<rparr>"

definition formValue :: "desktop_state \<Rightarrow> string \<Rightarrow> jsval \<Rightarrow> jsval" where
  "formValue state name fallback =
     (if has_own (ds_formDraft state) (js name) then obj_get (ds_formDraft state) (js name) else fallback)"

section \<open>Elements\<close>

definition desktop_text :: "(rat \<Rightarrow> jstr) \<Rightarrow> string \<Rightarrow> jsval \<Rightarrow> string \<Rightarrow> dom" where
  "desktop_text fmt tag v className =
     text_el tag (if className = [] then [] else [(''class'', jlit className)])
       (if nullish v then [] else js_String fmt v)"

abbreviation lit_text_el :: "string \<Rightarrow> string \<Rightarrow> string \<Rightarrow> dom" where
  "lit_text_el tag s className \<equiv> text_el tag [(''class'', jlit className)] (js s)"

definition desktop_button :: "(rat \<Rightarrow> jstr) \<Rightarrow> string \<Rightarrow> string \<Rightarrow> (string \<times> jsval) list \<Rightarrow> dom" where
  "desktop_button fmt label action extra =
     text_el ''button''
       ([(''type'', jlit ''button''), (''data-desktop-action'', jlit action)]
        @ map (\<lambda>(k, v). (''data-'' @ k, JStr (js_String fmt v))) extra) (js label)"

definition input_control :: "(rat \<Rightarrow> jstr) \<Rightarrow> string \<Rightarrow> jsval \<Rightarrow> string \<Rightarrow> dom" where
  "input_control fmt name v kind =
     (let common = [(''name'', jlit name), (''value'', JStr (if nullish v then [] else js_String fmt v)),
                    (''data-desktop-field'', jlit name)] in
      if kind = ''textarea'' then El ''textarea'' (common @ [(''rows'', jint 4)]) []
      else El ''input'' (common @ [(''type'', jlit kind)]) [])"

definition field_wrap :: "string \<Rightarrow> dom \<Rightarrow> dom" where
  "field_wrap label control =
     El ''label'' [(''class'', jlit ''desktop-field'')]
       [lit_text_el ''span'' label ''desktop-field-label'', control]"

definition desktop_input :: "(rat \<Rightarrow> jstr) \<Rightarrow> string \<Rightarrow> string \<Rightarrow> jsval \<Rightarrow> string \<Rightarrow> dom" where
  "desktop_input fmt label name v kind = field_wrap label (input_control fmt name v kind)"

record select_option =
  so_value :: string
  so_label :: string
  so_disabled :: bool

definition option_node :: "jsval \<Rightarrow> select_option \<Rightarrow> dom" where
  "option_node v opt =
     text_el ''option'' [(''value'', jlit (so_value opt)), (''selected'', JBool (jlit (so_value opt) = v)),
       (''disabled'', JBool (so_disabled opt))] (js (so_label opt))"

definition select_control :: "string \<Rightarrow> select_option list \<Rightarrow> jsval \<Rightarrow> dom" where
  "select_control name options v =
     El ''select'' [(''name'', jlit name), (''data-desktop-field'', jlit name)] (map (option_node v) options)"

definition selectField :: "string \<Rightarrow> string \<Rightarrow> select_option list \<Rightarrow> jsval \<Rightarrow> dom" where
  "selectField label name options v = field_wrap label (select_control name options v)"

definition dash :: jsval where "dash = JStr [0x2014]"

text \<open>\<open>displayValue\<close>; its result is not always a string, and the caller converts it.\<close>

definition display_schedule :: "(rat \<Rightarrow> jstr) \<Rightarrow> jsval \<Rightarrow> jsval" where
  "display_schedule fmt v =
     (let kind = (if dot v ''kind'' = jlit ''rrule'' then jlit ''RRULE'' else js_or (dot v ''kind'') (jlit ''once''));
          since = js_or (js_or (dot v ''at'') (dot v ''start_at'')) (dot v ''anchor_at'') in
      if kind = jlit ''interval'' \<and> truthy (dot v ''seconds'')
      then JStr (js ''Every '' @ js_String fmt (dot v ''seconds'') @ js ''s''
        @ (if truthy since then [32, 0xB7] @ js '' from '' @ js_String fmt since else []))
      else if kind = jlit ''RRULE'' \<and> truthy (dot v ''rule'') then dot v ''rule''
      else if truthy since then JStr (js_String fmt kind @ [32, 0xB7, 32] @ js_String fmt since)
      else kind)"

fun displayValue :: "(rat \<Rightarrow> jstr) \<Rightarrow> jsval \<Rightarrow> string \<Rightarrow> jsval" where
  "displayValue fmt JNull key = dash"
| "displayValue fmt JUndefined key = dash"
| "displayValue fmt (JStr s) key = (if s = [] then dash else JStr s)"
| "displayValue fmt (JBool b) key = jlit (if b then ''Enabled'' else ''Disabled'')"
| "displayValue fmt (JNum n) key = (case n of Fin r \<Rightarrow> JStr (num_String fmt n) | _ \<Rightarrow> dash)"
| "displayValue fmt (JArr xs) key =
     (if key = ''schedule'' then display_schedule fmt (JArr xs)
      else JStr (join_with (js '', '') (map (\<lambda>x. js_String fmt (displayValue fmt x [])) xs)))"
| "displayValue fmt (JObj kvs) key =
     (if key = ''schedule'' then display_schedule fmt (JObj kvs)
      else js_or (js_or (js_or (obj_get kvs (js ''name'')) (obj_get kvs (js ''label''))) (obj_get kvs (js ''status''))) dash)"
| "displayValue fmt (JFun f) key = JStr (js_String fmt (JFun f))"

definition statusClass :: "(rat \<Rightarrow> jstr) \<Rightarrow> jsval \<Rightarrow> string" where
  "statusClass fmt v =
     (let normalized = js_lower (js_String fmt (js_or v (JStr []))) in
      if normalized \<in> set (map js [''ready'', ''enabled'', ''connected'', ''completed'', ''success'', ''idle'']) then ''is-positive''
      else if normalized \<in> set (map js [''failed'', ''error'', ''unsupported'', ''disabled'']) then ''is-negative''
      else if normalized \<in> set (map js [''starting'', ''running'', ''paused'', ''oauth_required'', ''pending'']) then ''is-attention''
      else [])"

section \<open>Tables\<close>

definition renderEmpty :: "jstr \<Rightarrow> dom" where
  "renderEmpty message =
     text_el ''p'' [(''class'', jlit ''desktop-empty''), (''role'', jlit ''status'')] message"

definition table_cell :: "(rat \<Rightarrow> jstr) \<Rightarrow> jsval \<Rightarrow> string \<times> string \<Rightarrow> dom" where
  "table_cell fmt row column =
     (case column of (key, label) \<Rightarrow>
        let tone = statusClass fmt (dot row key); shown = displayValue fmt (dot row key) key in
        text_el ''td'' ([(''data-label'', jlit label)] @ (if tone = [] then [] else [(''class'', jlit tone)]))
          (if nullish shown then [] else js_String fmt shown))"

definition table_row ::
    "(rat \<Rightarrow> jstr) \<Rightarrow> (string \<times> string) list \<Rightarrow> (jsval \<Rightarrow> dom list) option \<Rightarrow> jsval \<Rightarrow> dom" where
  "table_row fmt columns actions row =
     El ''tr'' []
       (map (table_cell fmt row) columns
        @ (case actions of None \<Rightarrow> []
           | Some act \<Rightarrow> [El ''td'' [(''data-label'', jlit ''Actions''), (''class'', jlit ''desktop-table-actions'')] (act row)]))"

definition renderTable ::
    "(rat \<Rightarrow> jstr) \<Rightarrow> jsval list \<Rightarrow> (string \<times> string) list \<Rightarrow> (jsval \<Rightarrow> dom list) option \<Rightarrow> dom" where
  "renderTable fmt rows columns actions =
     (if rows = [] then renderEmpty (js ''Nothing here yet.'')
      else El ''table'' [(''class'', jlit ''desktop-table'')]
        [text_el ''caption'' [(''class'', jlit ''sr-only'')]
           (join_with (js '', '') (map (\<lambda>(key, label). js label) columns) @ js '' list''),
         El ''thead'' [] [El ''tr'' []
           (map (\<lambda>(key, label). text_el ''th'' [] (js label)) columns
            @ (if actions = None then [] else [text_el ''th'' [] (js ''Actions'')]))],
         El ''tbody'' [] (map (table_row fmt columns actions) rows)])"

section \<open>Surfaces\<close>

definition form_actions :: "(rat \<Rightarrow> jstr) \<Rightarrow> string \<Rightarrow> string \<Rightarrow> dom" where
  "form_actions fmt label submit =
     El ''div'' [(''class'', jlit ''desktop-form-actions'')]
       [desktop_button fmt label submit [], desktop_button fmt ''Cancel'' ''close-form'' []]"

definition desktop_form :: "string \<Rightarrow> dom list \<Rightarrow> dom" where
  "desktop_form name kids = El ''form'' [(''class'', jlit ''desktop-form''), (''data-desktop-form'', jlit name)] kids"

definition schedule_fields :: "(rat \<Rightarrow> jstr) \<Rightarrow> desktop_state \<Rightarrow> jsval \<Rightarrow> dom list" where
  "schedule_fields fmt state defaultTimezone =
     (let editing = js_or (ds_editingAutomation state) (JObj []);
          schedule = js_or (dot editing ''schedule'') (JObj []);
          target = dot editing ''target''; empty = JStr [] in
      [desktop_input fmt ''Title'' ''title'' (formValue state ''title'' (js_or (dot editing ''name'') empty)) ''text'',
       desktop_input fmt ''Project ID'' ''project_id'' (formValue state ''project_id'' (js_or (dot target ''project_id'') empty)) ''text'',
       desktop_input fmt ''Thread ID'' ''thread_id'' (formValue state ''thread_id'' (js_or (dot target ''thread_id'') empty)) ''text'',
       desktop_input fmt ''Prompt'' ''prompt'' (formValue state ''prompt'' (js_or (dot editing ''prompt'') empty)) ''textarea'',
       selectField ''Schedule'' ''schedule_type''
         [\<lparr>so_value = ''once'', so_label = ''One time'', so_disabled = False\<rparr>,
          \<lparr>so_value = ''interval'', so_label = ''Interval'', so_disabled = False\<rparr>,
          \<lparr>so_value = ''rrule'', so_label = ''RRULE'', so_disabled = False\<rparr>]
         (formValue state ''schedule_type'' (if dot schedule ''kind'' = jlit ''rrule'' then jlit ''rrule''
            else js_or (dot schedule ''kind'') (jlit ''once''))),
       desktop_input fmt ''Run at (ISO)'' ''run_at'' (formValue state ''run_at''
         (js_or (js_or (js_or (dot schedule ''at'') (dot schedule ''start_at'')) (dot schedule ''anchor_at'')) empty)) ''text'',
       desktop_input fmt ''Interval seconds'' ''interval_seconds''
         (formValue state ''interval_seconds'' (js_or (dot schedule ''seconds'') empty)) ''text'',
       desktop_input fmt ''RRULE'' ''rrule'' (formValue state ''rrule'' (js_or (dot schedule ''rule'') empty)) ''text'',
       desktop_input fmt ''Home Assistant timezone'' ''timezone''
         (formValue state ''timezone'' (js_or (dot schedule ''timezone'') defaultTimezone)) ''text'',
       desktop_input fmt ''Model'' ''model'' (formValue state ''model'' (js_or (dot editing ''model'') empty)) ''text'',
       desktop_input fmt ''Reasoning'' ''thinking'' (formValue state ''thinking'' (js_or (dot editing ''thinking'') empty)) ''text'',
       selectField ''Mode'' ''mode''
         [\<lparr>so_value = ''observe'', so_label = ''Observe'', so_disabled = False\<rparr>,
          \<lparr>so_value = ''edit'', so_label = ''Edit'', so_disabled = False\<rparr>,
          \<lparr>so_value = ''full-auto'', so_label = ''Full auto'', so_disabled = False\<rparr>]
         (formValue state ''mode'' (js_or (dot editing ''mode'') (jlit ''observe''))),
       desktop_input fmt ''Revision'' ''revision'' (formValue state ''revision'' (js_or (dot editing ''revision'') empty)) ''text''])"

definition schedule_form :: "(rat \<Rightarrow> jstr) \<Rightarrow> desktop_state \<Rightarrow> jsval \<Rightarrow> dom" where
  "schedule_form fmt state defaultTimezone =
     (let edit = (ds_form state = jlit ''schedule-edit'') in
      desktop_form ''schedule''
        ([lit_text_el ''p'' (if edit then ''Update the automation and keep its revision current.''
            else ''Create a bounded task that runs in this workspace.'') ''desktop-form-intro'']
         @ schedule_fields fmt state defaultTimezone
         @ [form_actions fmt (if edit then ''Save schedule'' else ''Create schedule'')
              (if edit then ''submit-schedule-update'' else ''submit-schedule'')]))"

definition automation_actions :: "(rat \<Rightarrow> jstr) \<Rightarrow> jsval \<Rightarrow> dom list" where
  "automation_actions fmt row =
     (let i = js_or (js_or (dot row ''id'') (dot row ''automation_id'')) (JStr []);
          common = [(''id'', i), (''revision'', js_or (dot row ''revision'') (jlit ''0''))];
          off = (dot row ''enabled'' = JBool False) in
      [desktop_button fmt ''Run'' ''run-automation'' common,
       desktop_button fmt (if off then ''Resume'' else ''Pause'')
         (if off then ''resume-automation'' else ''pause-automation'') common,
       desktop_button fmt ''Runs'' ''list-automation-runs'' common,
       desktop_button fmt ''Update'' ''update-automation'' common,
       desktop_button fmt ''Delete'' ''delete-automation'' common])"

definition surface_content :: "string \<Rightarrow> dom list \<Rightarrow> dom" where
  "surface_content className kids = El ''div'' [(''class'', jlit className)] kids"

definition desktop_toolbar :: "dom list \<Rightarrow> dom" where
  "desktop_toolbar kids = El ''div'' [(''class'', jlit ''desktop-toolbar'')] kids"

definition data_field :: "desktop_state \<Rightarrow> string \<Rightarrow> jsval" where
  "data_field state k = obj_get (ds_data state) (js k)"

definition renderScheduled :: "(rat \<Rightarrow> jstr) \<Rightarrow> desktop_state \<Rightarrow> jsval \<Rightarrow> dom" where
  "renderScheduled fmt state defaultTimezone =
     (let runs = normalizeDesktopList (data_field state ''runs'') in
      surface_content ''desktop-feature-content''
        ([desktop_toolbar [lit_text_el ''div'' ''Automations'' ''desktop-section-label'',
            desktop_button fmt ''New schedule'' ''open-schedule-form'' []]]
         @ (if ds_form state = jlit ''schedule'' \<or> ds_form state = jlit ''schedule-edit''
            then [schedule_form fmt state defaultTimezone] else [])
         @ [renderTable fmt (normalizeDesktopList (js_or (data_field state ''automations'') (JObj (ds_data state))))
              [(''title'', ''Title''), (''schedule'', ''Schedule''), (''status'', ''Status'')] (Some (automation_actions fmt))]
         @ (if runs \<noteq> [] then
              [lit_text_el ''h3'' ''Run history'' ''desktop-subheading'',
               renderTable fmt runs [(''status'', ''Status''), (''due_at'', ''Due''), (''started_at'', ''Started''),
                 (''completed_at'', ''Completed'')] None]
            else [])))"

definition skill_form :: "(rat \<Rightarrow> jstr) \<Rightarrow> desktop_state \<Rightarrow> dom" where
  "skill_form fmt state =
     desktop_form ''skill''
       [desktop_input fmt ''Name'' ''name'' (formValue state ''name'' (JStr [])) ''text'',
        desktop_input fmt ''Description'' ''description'' (formValue state ''description'' (JStr [])) ''textarea'',
        desktop_input fmt ''Instructions'' ''instructions'' (formValue state ''instructions'' (JStr [])) ''textarea'',
        form_actions fmt ''Create skill'' ''submit-skill'']"

definition skill_actions :: "(rat \<Rightarrow> jstr) \<Rightarrow> jsval \<Rightarrow> dom list" where
  "skill_actions fmt row =
     (let i = js_or (js_or (js_or (dot row ''id'') (dot row ''skill_id'')) (dot row ''name'')) (JStr []);
          off = (dot row ''enabled'' = JBool False) in
      [desktop_button fmt (if off then ''Enable'' else ''Disable'') ''toggle-skill''
         [(''id'', i), (''enabled'', jlit (if off then ''true'' else ''false''))],
       desktop_button fmt ''Delete'' ''delete-skill'' [(''id'', i)]])"

definition renderSkills :: "(rat \<Rightarrow> jstr) \<Rightarrow> desktop_state \<Rightarrow> dom" where
  "renderSkills fmt state =
     surface_content ''desktop-feature-content''
       ([desktop_toolbar [lit_text_el ''div'' ''Workspace capabilities'' ''desktop-section-label'',
           desktop_button fmt ''Create skill'' ''open-skill-form'' []]]
        @ (if ds_form state = jlit ''skill'' then [skill_form fmt state] else [])
        @ [renderTable fmt (normalizeDesktopList (js_or (data_field state ''skills'') (JObj (ds_data state))))
             [(''name'', ''Skill''), (''scope'', ''Scope''), (''enabled'', ''Enabled'')] (Some (skill_actions fmt))])"

definition plugin_actions :: "(rat \<Rightarrow> jstr) \<Rightarrow> jsval \<Rightarrow> dom list" where
  "plugin_actions fmt row =
     (let i = js_or (js_or (js_or (dot row ''id'') (dot row ''plugin_id'')) (dot row ''name'')) (JStr []);
          on = truthy (js_or (dot row ''installed'') (dot row ''enabled'')) in
      [desktop_button fmt (if on then ''Uninstall'' else ''Install'')
         (if on then ''uninstall-plugin'' else ''install-plugin'')
         [(''id'', i), (''name'', js_or (dot row ''name'') i),
          (''marketplace'', js_or (dot row ''marketplace_name'') (JStr []))]])"

definition marketplace_form :: "(rat \<Rightarrow> jstr) \<Rightarrow> desktop_state \<Rightarrow> dom" where
  "marketplace_form fmt state =
     desktop_form ''marketplace''
       [desktop_input fmt ''HTTPS source URL'' ''source'' (formValue state ''source'' (JStr [])) ''url'',
        desktop_input fmt ''Ref (optional)'' ''ref_name'' (formValue state ''ref_name'' (JStr [])) ''text'',
        desktop_input fmt ''Sparse paths (comma separated)'' ''sparse_paths'' (formValue state ''sparse_paths'' (JStr [])) ''text'',
        form_actions fmt ''Add marketplace'' ''submit-marketplace'']"

definition marketplace_row :: "jsval \<Rightarrow> jsval" where
  "marketplace_row row = JObj (obj_set (spread row) (js ''plugin_count'') (jint (int (length (as_list (dot row ''plugins''))))))"

definition marketplace_actions :: "(rat \<Rightarrow> jstr) \<Rightarrow> jsval \<Rightarrow> dom list" where
  "marketplace_actions fmt row =
     [desktop_button fmt ''Remove'' ''remove-marketplace'' [(''id'', js_or (dot row ''name'') (JStr []))],
      desktop_button fmt ''Upgrade'' ''upgrade-marketplace'' [(''id'', js_or (dot row ''name'') (JStr []))]]"

definition renderPlugins :: "(rat \<Rightarrow> jstr) \<Rightarrow> desktop_state \<Rightarrow> dom" where
  "renderPlugins fmt state =
     surface_content ''desktop-feature-content''
       ([desktop_toolbar [lit_text_el ''div'' ''Plugins'' ''desktop-section-label''],
         renderTable fmt (normalizeDesktopList (js_or (data_field state ''plugins'') (JObj (ds_data state))))
           [(''name'', ''Plugin''), (''version'', ''Version''), (''enabled'', ''State'')] (Some (plugin_actions fmt)),
         lit_text_el ''h3'' ''Trusted marketplaces'' ''desktop-subheading'',
         El ''div'' [(''class'', jlit ''desktop-form-actions'')]
           [desktop_button fmt ''Add marketplace'' ''open-marketplace-form'' []]]
        @ (if ds_form state = jlit ''marketplace'' then [marketplace_form fmt state] else [])
        @ [renderTable fmt (map marketplace_row (normalizeDesktopList (data_field state ''marketplaces'')))
             [(''name'', ''Name''), (''plugin_count'', ''Plugins'')] (Some (marketplace_actions fmt))])"

subsection \<open>Settings\<close>

definition SETTINGS_TABS :: "(string \<times> string) list" where
  "SETTINGS_TABS = [(''general'', ''General''), (''mcp'', ''MCP servers''), (''instructions'', ''Instructions''),
     (''shortcuts'', ''Keyboard shortcuts''), (''about'', ''About / security'')]"

definition settings_tab :: "desktop_state \<Rightarrow> jsval" where
  "settings_tab state = js_or (ds_settingsTab state) (jlit ''general'')"

definition tab_control :: "(rat \<Rightarrow> jstr) \<Rightarrow> jsval \<Rightarrow> string \<times> string \<Rightarrow> dom" where
  "tab_control fmt tab item =
     (case item of (i, label) \<Rightarrow>
        text_el ''button'' [(''type'', jlit ''button''), (''data-desktop-action'', jlit ''select-settings-tab''),
          (''data-tab'', jlit i), (''class'', jlit ''settings-tab''), (''id'', jlit (''settings-tab-'' @ i)),
          (''data-settings-tab'', jlit i), (''role'', jlit ''tab''), (''aria-controls'', jlit ''settings-panel''),
          (''aria-selected'', jlit (if tab = jlit i then ''true'' else ''false'')),
          (''tabindex'', jint (if tab = jlit i then 0 else -1))] (js label))"

definition mcp_form :: "(rat \<Rightarrow> jstr) \<Rightarrow> desktop_state \<Rightarrow> dom" where
  "mcp_form fmt state =
     desktop_form ''mcp''
       [desktop_input fmt ''Name'' ''name'' (formValue state ''name'' (JStr [])) ''text'',
        desktop_input fmt ''HTTPS URL'' ''url'' (formValue state ''url'' (JStr [])) ''url'',
        desktop_input fmt ''OAuth client ID (public)'' ''oauth_client_id'' (formValue state ''oauth_client_id'' (JStr [])) ''text'',
        desktop_input fmt ''OAuth resource'' ''oauth_resource'' (formValue state ''oauth_resource'' (JStr [])) ''text'',
        form_actions fmt ''Add server'' ''submit-mcp'']"

definition mcp_actions :: "(rat \<Rightarrow> jstr) \<Rightarrow> jsval \<Rightarrow> dom list" where
  "mcp_actions fmt row =
     (let i = js_or (dot row ''name'') (JStr []);
          oauth = (dot row ''auth'' = jlit ''oauth_required'' \<or> dot row ''auth'' = jlit ''oauth'') in
      [desktop_button fmt ''Remove'' ''remove-mcp'' [(''id'', i)],
       (if oauth then desktop_button fmt ''Sign in'' ''login-mcp'' [(''id'', i)]
        else lit_text_el ''span'' ''No OAuth'' ''desktop-action-note'')])"

definition mcp_panel :: "(rat \<Rightarrow> jstr) \<Rightarrow> desktop_state \<Rightarrow> dom list" where
  "mcp_panel fmt state =
     [lit_text_el ''h3'' ''MCP servers'' ''desktop-subheading'',
      lit_text_el ''p'' ''Connect trusted HTTPS tools. OAuth opens once in a new tab and is never stored by the panel.'' ''desktop-note'',
      desktop_button fmt ''Add MCP server'' ''open-mcp-form'' []]
     @ (if ds_form state = jlit ''mcp'' then [mcp_form fmt state] else [])
     @ [renderTable fmt (normalizeDesktopList (js_or (data_field state ''mcp_servers'') (data_field state ''servers'')))
          [(''name'', ''Name''), (''endpoint'', ''Endpoint''), (''startup'', ''Startup''), (''auth'', ''Auth'')]
          (Some (mcp_actions fmt))]"

definition selected_scope :: "bool \<Rightarrow> desktop_state \<Rightarrow> string" where
  "selected_scope hasActiveProject state =
     (if hasActiveProject \<and> ds_agentsScope state \<noteq> jlit ''global'' then ''project'' else ''global'')"

definition shown_draft_key :: "(rat \<Rightarrow> jstr) \<Rightarrow> string \<Rightarrow> jsval \<Rightarrow> desktop_state \<Rightarrow> jstr" where
  "shown_draft_key fmt scope activeProjectId state =
     (if scope = ''project''
      then js ''project:'' @ js_String fmt (js_or (js_or activeProjectId (ds_agentsProjectId state)) (JStr []))
      else js ''global'')"

definition agents_content :: "(rat \<Rightarrow> jstr) \<Rightarrow> string \<Rightarrow> jsval \<Rightarrow> desktop_state \<Rightarrow> jsval" where
  "agents_content fmt scope activeProjectId state =
     (let records = asRecord (data_field state ''agentsScopes'');
          agents = asRecord (js_or (obj_get records (js scope)) (data_field state ''agents''));
          draftKey = shown_draft_key fmt scope activeProjectId state in
      if has_own (ds_agentsDrafts state) draftKey then obj_get (ds_agentsDrafts state) draftKey
      else js_or (obj_get agents (js ''content'')) (JStr []))"

definition project_attr :: "(rat \<Rightarrow> jstr) \<Rightarrow> jsval \<Rightarrow> dom \<Rightarrow> dom" where
  "project_attr fmt activeProjectId control =
     set_attr ''data-agents-project-id'' (JStr (js_String fmt (js_or activeProjectId (JStr [])))) control"

definition instructions_panel :: "(rat \<Rightarrow> jstr) \<Rightarrow> desktop_state \<Rightarrow> bool \<Rightarrow> jsval \<Rightarrow> dom list" where
  "instructions_panel fmt state hasActiveProject activeProjectId =
     (let scope = selected_scope hasActiveProject state in
      [lit_text_el ''h3'' ''AGENTS.md instructions'' ''desktop-subheading'',
       lit_text_el ''p'' ''Keep global defaults separate from the current project. The selected scope is saved through Home Assistant.'' ''desktop-note'',
       field_wrap ''Instruction scope'' (project_attr fmt activeProjectId (select_control ''agents_scope''
         [\<lparr>so_value = ''global'', so_label = ''Global instructions'', so_disabled = False\<rparr>,
          \<lparr>so_value = ''project'', so_label = (if hasActiveProject then ''Current project''
             else ''Current project (select a project first)''), so_disabled = \<not> hasActiveProject\<rparr>] (jlit scope))),
       field_wrap ((if scope = ''global'' then ''Global'' else ''Project'') @ '' AGENTS.md'')
         (project_attr fmt activeProjectId
           (input_control fmt ''agents_content'' (agents_content fmt scope activeProjectId state) ''textarea'')),
       El ''div'' [(''class'', jlit ''desktop-form-actions'')]
         [desktop_button fmt ''Save instructions'' ''save-agents'' [],
          desktop_button fmt ''Delete instructions'' ''delete-agents'' []]])"

definition shortcuts_text :: jstr where
  "shortcuts_text =
     [0x2318] @ js ''/Ctrl+N new chat '' @ [0xB7, 32, 0x2318] @ js ''/Ctrl+G search '' @ [0xB7, 32, 0x2318]
     @ js ''/Ctrl+F find '' @ [0xB7, 32, 0x2318] @ js ''/Ctrl+Shift+[ or ] switch chats '' @ [0xB7]
     @ js '' Ctrl+Shift+D toggle drawer '' @ [0xB7, 32, 0x2318] @ js ''/Ctrl+, settings '' @ [0xB7]
     @ js '' Esc closes menus''"

definition native_tool_row :: "string \<Rightarrow> tool_state \<Rightarrow> dom" where
  "native_tool_row label tool =
     El ''div'' [(''class'', jlit ''native-tool-row'')]
       [text_el ''dt'' [] (js label), lit_text_el ''dd'' (ts_label tool) (''native-tool-state '' @ ts_state tool)]"

definition general_panel :: "jsval \<Rightarrow> jsval \<Rightarrow> dom list" where
  "general_panel status config =
     (case getNativeToolsViewModel status config of (imageGeneration, webSearch) \<Rightarrow>
       [lit_text_el ''h3'' ''General'' ''desktop-subheading'',
        lit_text_el ''p'' (''Use the sidebar to move between chats, scheduled tasks, skills, plugins, and settings. ''
          @ ''Chat-only controls stay hidden on feature surfaces.'') ''desktop-note'',
        lit_text_el ''h3'' ''Native tools'' ''desktop-subheading'',
        El ''dl'' [(''class'', jlit ''native-tools-list'')]
          [native_tool_row ''Web search'' webSearch, native_tool_row ''Image generation'' imageGeneration],
        lit_text_el ''p'' (''Image generation uses the signed-in ChatGPT account and Codex''
          @ [CHR 0x27] @ ''s native tool. Ask for an image naturally in a chat.'') ''desktop-note''])"

definition renderSettings :: "(rat \<Rightarrow> jstr) \<Rightarrow> desktop_state \<Rightarrow> bool \<Rightarrow> jsval \<Rightarrow> jsval \<Rightarrow> jsval \<Rightarrow> dom" where
  "renderSettings fmt state hasActiveProject activeProjectId status config =
     (let tab = settings_tab state in
      surface_content ''desktop-feature-content settings-content''
        [El ''nav'' [(''class'', jlit ''settings-tabs''), (''role'', jlit ''tablist''), (''aria-label'', jlit ''Settings sections'')]
           (map (tab_control fmt tab) SETTINGS_TABS),
         El ''section'' [(''id'', jlit ''settings-panel''), (''class'', jlit ''settings-panel''), (''role'', jlit ''tabpanel''),
             (''aria-labelledby'', JStr (js ''settings-tab-'' @ js_String fmt tab))]
           ((if tab = jlit ''mcp'' then mcp_panel fmt state else [])
            @ (if tab = jlit ''instructions'' then instructions_panel fmt state hasActiveProject activeProjectId else [])
            @ (if tab = jlit ''shortcuts''
               then [lit_text_el ''h3'' ''Keyboard shortcuts'' ''desktop-subheading'',
                     text_el ''p'' [(''class'', jlit ''desktop-note'')] shortcuts_text] else [])
            @ (if tab = jlit ''about''
               then [lit_text_el ''h3'' ''About / security'' ''desktop-subheading'',
                     lit_text_el ''p'' (''Credentials stay in Home Assistant. Remote values are rendered as plain text and ''
                       @ ''external OAuth links are restricted to HTTPS.'') ''desktop-note''] else [])
            @ (if tab = jlit ''general'' then general_panel status config else []))])"

subsection \<open>The surface\<close>

record surface_options =
  sv_destination :: string
  sv_timezone :: jsval
  sv_hasActiveProject :: bool
  sv_activeProjectId :: jsval
  sv_status :: jsval
  sv_config :: jsval

definition destination_label :: "string \<Rightarrow> string" where
  "destination_label destination =
     (case find (\<lambda>(i, label, icon). i = destination) DESTINATIONS of
        Some (i, label, icon) \<Rightarrow> label | None \<Rightarrow> ''Scheduled'')"

definition surface_heading :: "string \<Rightarrow> dom" where
  "surface_heading destination =
     El ''div'' [(''class'', jlit ''desktop-feature-header'')]
       [lit_text_el ''div'' (destination_label destination) ''desktop-feature-title'',
        lit_text_el ''p'' (if destination = ''scheduled'' then ''Manage automations and run history.''
          else if destination = ''skills'' then ''Enable skills by scope and create bounded instructions.''
          else if destination = ''plugins'' then ''Install plugins and maintain trusted marketplaces.''
          else ''Connection, instructions, and security preferences.'') ''desktop-feature-summary'']"

definition confirm_notice :: "(rat \<Rightarrow> jstr) \<Rightarrow> dom" where
  "confirm_notice fmt =
     El ''div'' [(''class'', jlit ''desktop-notice''), (''role'', jlit ''alert'')]
       [text_el ''span'' [] (js ''This action is destructive. Confirm to continue.''),
        desktop_button fmt ''Confirm'' ''confirm-desktop'' [], desktop_button fmt ''Cancel'' ''cancel-desktop-confirm'' []]"

definition surface_body :: "(rat \<Rightarrow> jstr) \<Rightarrow> surface_options \<Rightarrow> desktop_state \<Rightarrow> dom" where
  "surface_body fmt opts state =
     (if sv_destination opts = ''scheduled'' then renderScheduled fmt state (sv_timezone opts)
      else if sv_destination opts = ''skills'' then renderSkills fmt state
      else if sv_destination opts = ''plugins'' then renderPlugins fmt state
      else renderSettings fmt state (sv_hasActiveProject opts) (sv_activeProjectId opts) (sv_status opts) (sv_config opts))"

definition renderDesktopFeatureSurface :: "(rat \<Rightarrow> jstr) \<Rightarrow> surface_options \<Rightarrow> desktop_state \<Rightarrow> dom \<Rightarrow> dom" where
  "renderDesktopFeatureSurface fmt opts state container =
     set_attr ''aria-busy'' (jlit (if ds_loading state then ''true'' else ''false''))
       (replaceChildren
         ([surface_heading (sv_destination opts)]
          @ (if ds_loading state then [renderEmpty (js ''Loading'' @ [0x2026])]
             else if ds_error state \<noteq> [] then
               [text_el ''p'' [(''class'', jlit ''desktop-error''), (''role'', jlit ''alert'')] (ds_error state),
                desktop_button fmt ''Retry'' ''retry-desktop'' []]
             else (if ds_notice state \<noteq> []
                   then [text_el ''p'' [(''class'', jlit ''desktop-notice''), (''role'', jlit ''status'')] (ds_notice state)] else [])
               @ (if ds_confirmAction state \<noteq> None then [confirm_notice fmt] else [])
               @ [surface_body fmt opts state]))
         container)"

text \<open>
  The click handler: \<open>path\<close> is the event target followed by its ancestors; the
  action and the element are those of the nearest element that names an action.
\<close>

definition action_of :: "dom \<Rightarrow> jstr option" where
  "action_of d = (case get_attr d ''data-desktop-action'' of JStr a \<Rightarrow> Some a | _ \<Rightarrow> None)"

definition surface_click :: "dom list \<Rightarrow> (jstr \<times> dom) option" where
  "surface_click path = first_some (\<lambda>d. map_option (\<lambda>a. (a, d)) (action_of d)) path"

text \<open>The submit handler: the first submit control of the form.\<close>

definition surface_submit :: "dom \<Rightarrow> (jstr \<times> dom) option" where
  "surface_submit form =
     first_some (\<lambda>d. case action_of d of Some a \<Rightarrow> if starts_with (js ''submit-'') a then Some (a, d) else None
       | None \<Rightarrow> None) (tl (elements form))"

end
