(* ===== verification/DesktopForms.thy ===== *)
theory DesktopForms
  imports DesktopFeatures
begin

text \<open>
  The forms of the desktop surfaces as the panel (\<open>src/frontend/src/codex-bridge-panel.js\<close>)
  reads them: the values of the rendered controls, the drafts captured while the
  user types, and the drafts of the two instruction scopes.
\<close>

section \<open>Reading a form\<close>

text \<open>
  The \<open>value\<close> of a control, after the value sanitisation of HTML: a single-line
  control drops line breaks, a URL control also trims, a text area reads every line
  break as a line feed, and a select yields its selected option, or the first
  enabled one when none is selected.
\<close>

definition no_breaks :: "jstr \<Rightarrow> jstr" where
  "no_breaks s = filter (\<lambda>u. u \<noteq> 10 \<and> u \<noteq> 13) s"

fun line_feeds :: "jstr \<Rightarrow> jstr" where
  "line_feeds [] = []"
| "line_feeds [u] = [if u = 13 then 10 else u]"
| "line_feeds (u # v # us) =
     (if u = 13 then (if v = 10 then 10 # line_feeds us else 10 # line_feeds (v # us)) else u # line_feeds (v # us))"

definition select_value :: "dom list \<Rightarrow> jsval" where
  "select_value options =
     (case find (\<lambda>d. get_attr d ''selected'' = JBool True) options of
        Some d \<Rightarrow> get_attr d ''value''
      | None \<Rightarrow> (case find (\<lambda>d. get_attr d ''disabled'' \<noteq> JBool True) options of
          Some d \<Rightarrow> get_attr d ''value'' | None \<Rightarrow> JStr []))"

fun field_value :: "dom \<Rightarrow> jsval" where
  "field_value (El tag as ks) =
     (if tag = ''select'' then select_value ks
      else let s = as_string (get_attr (El tag as ks) ''value'') in
        if tag = ''textarea'' then JStr (line_feeds s)
        else if get_attr (El tag as ks) ''type'' = jlit ''url'' then JStr (js_trim (no_breaks s))
        else JStr (no_breaks s))"
| "field_value (Txt s) = JUndefined"

definition field_name :: "dom \<Rightarrow> jstr option" where
  "field_name d = (case get_attr d ''data-desktop-field'' of JStr n \<Rightarrow> Some n | _ \<Rightarrow> None)"

definition form_fields :: "dom \<Rightarrow> (jstr \<times> jsval) list" where
  "form_fields form =
     List.map_filter (\<lambda>d. map_option (\<lambda>n. (n, field_value d)) (field_name d)) (tl (elements form))"

text \<open>\<open>Object.fromEntries\<close>: a later entry of a name replaces an earlier one.\<close>

definition from_entries :: "(jstr \<times> jsval) list \<Rightarrow> jsobj" where
  "from_entries = foldl (\<lambda>o' (k, v). obj_set o' k v) []"

definition desktopFormValues :: "dom option \<Rightarrow> jsobj" where
  "desktopFormValues form = (case form of None \<Rightarrow> [] | Some f \<Rightarrow> from_entries (form_fields f))"

section \<open>Drafts\<close>

definition captureDesktopFormDraft :: "bool \<Rightarrow> jstr \<Rightarrow> jstr \<Rightarrow> desktop_state \<Rightarrow> desktop_state" where
  "captureDesktopFormDraft inForm field typed state =
     (if \<not> inForm \<or> field = [] \<or> \<not> truthy (ds_form state) then state
      else state\<lparr>ds_formDraft := obj_set (ds_formDraft state) field (JStr typed)\<rparr>)"

definition clearDesktopFormDraft :: "desktop_state \<Rightarrow> desktop_state" where
  "clearDesktopFormDraft state = state\<lparr>ds_formDraft := []\<rparr>"

definition agentsDraftKey :: "(rat \<Rightarrow> jstr) \<Rightarrow> jsval \<Rightarrow> jsval \<Rightarrow> jstr" where
  "agentsDraftKey fmt scope projectId =
     (if scope = jlit ''project'' then js ''project:'' @ js_String fmt (js_or projectId (JStr [])) else js ''global'')"

text \<open>
  Typing in the instructions text area; \<open>scopeValue\<close> is the value of the rendered
  scope selector (\<open>undefined\<close> when it is not rendered), \<open>shownProject\<close> the project
  the text area was rendered for and \<open>activeProject\<close> the identifier of the active
  project.
\<close>

definition agents_input :: "(rat \<Rightarrow> jstr) \<Rightarrow> jsval \<Rightarrow> jsval \<Rightarrow> jsval \<Rightarrow> jstr \<Rightarrow> desktop_state \<Rightarrow> desktop_state" where
  "agents_input fmt scopeValue shownProject activeProject typed state =
     (let scope = js_or (js_or scopeValue (ds_agentsScope state)) (jlit ''global'');
          projectId = js_or (js_or (js_or shownProject (ds_agentsProjectId state)) activeProject) JNull in
      state\<lparr>ds_agentsDrafts := obj_set (ds_agentsDrafts state) (agentsDraftKey fmt scope projectId) (JStr typed)\<rparr>)"

text \<open>
  Changing the scope: the text shown is first kept as the draft of the scope it
  was shown for. \<open>content\<close> is the text area's value and project, if it is rendered.
\<close>

definition agents_scope_change ::
    "(rat \<Rightarrow> jstr) \<Rightarrow> (jstr \<times> jsval) option \<Rightarrow> jsval \<Rightarrow> jsval \<Rightarrow> jsval \<Rightarrow> desktop_state \<Rightarrow> desktop_state" where
  "agents_scope_change fmt content selectProject activeProject chosen state =
     (let hasActiveProject = truthy activeProject;
          previousScope = js_or (ds_agentsScope state) (jlit (if hasActiveProject then ''project'' else ''global''));
          displayed = js_or (js_or (js_or (js_or (case content of Some (_, p) \<Rightarrow> p | None \<Rightarrow> JUndefined) selectProject)
            (ds_agentsProjectId state)) activeProject) JNull;
          drafts = (case content of
            Some (shown, _) \<Rightarrow> obj_set (ds_agentsDrafts state) (agentsDraftKey fmt previousScope displayed) (JStr shown)
          | None \<Rightarrow> ds_agentsDrafts state);
          scope = (if chosen = jlit ''project'' \<and> hasActiveProject then ''project'' else ''global'') in
      state\<lparr>ds_agentsDrafts := drafts, ds_agentsScope := jlit scope,
        ds_data := obj_set (ds_data state) (js ''agents'')
          (js_or (dot (data_field state ''agentsScopes'') scope) (JObj []))\<rparr>)"

section \<open>Fields of a rendered form\<close>

definition entries :: "dom \<Rightarrow> (jstr \<times> jsval) list" where
  "entries d = List.map_filter (\<lambda>d. map_option (\<lambda>n. (n, field_value d)) (field_name d)) (elements d)"

lemma map_filter_concat_map: "List.map_filter f (concat (map g xs)) = concat (map (\<lambda>x. List.map_filter f (g x)) xs)"
  by (induction xs) (auto simp: map_filter_def)

lemma form_fields_El: "form_fields (El t as ks) = concat (map entries ks)"
  by (simp add: form_fields_def entries_def [abs_def] map_filter_concat_map)

lemma fields_El:
  "entries (El t as ks) = (case field_name (El t as []) of None \<Rightarrow> [] | Some n \<Rightarrow> [(n, field_value (El t as ks))])
     @ concat (map entries ks)"
proof -
  have "field_name (El t as ks) = field_name (El t as [])" by (simp add: field_name_def get_attr_def)
  then show ?thesis
    by (cases "field_name (El t as [])") (simp_all add: entries_def [abs_def] map_filter_concat_map map_filter_simps)
qed

lemma fields_Txt [simp]: "entries (Txt s) = []"
  by (simp add: entries_def map_filter_simps)

lemma field_name_eq: "field_name (El t as ks) = (case map_of as ''data-desktop-field'' of Some (JStr n) \<Rightarrow> Some n | _ \<Rightarrow> None)"
  by (auto simp: field_name_def get_attr_def split: option.splits jsval.splits)

lemma fields_text_el: "map_of as ''data-desktop-field'' = None \<Longrightarrow> entries (text_el t as s) = []"
  by (auto simp: text_el_El fields_El field_name_eq)

lemma fields_input_control [simp]:
  "entries (input_control fmt name v kind) = [(js name, field_value (input_control fmt name v kind))]"
  by (simp add: input_control_def fields_El field_name_eq Let_def)

lemma fields_select_control [simp]:
  "entries (select_control name options v) = [(js name, select_value (map (option_node v) options))]"
  by (auto simp: select_control_def fields_El field_name_eq option_node_def fields_text_el)

lemma fields_field_wrap [simp]: "entries (field_wrap label control) = entries control"
  by (simp add: field_wrap_def fields_El field_name_eq fields_text_el)

lemma fields_desktop_button: "entries (desktop_button fmt label action []) = []"
  by (simp add: desktop_button_def fields_text_el)

lemma fields_form_actions [simp]: "entries (form_actions fmt label submit) = []"
  by (simp add: form_actions_def fields_El field_name_eq fields_desktop_button)

lemma fields_desktop_input [simp]:
  "entries (desktop_input fmt label name v kind) = [(js name, field_value (input_control fmt name v kind))]"
  by (simp add: desktop_input_def)

lemma fields_selectField [simp]:
  "entries (selectField label name options v) = [(js name, select_value (map (option_node v) options))]"
  by (simp add: selectField_def)

text \<open>The value a control shows for a given model value.\<close>

lemma input_value:
  "field_value (input_control fmt name v kind) =
     (let s = (if nullish v then [] else js_String fmt v) in
      JStr (if kind = ''textarea'' then line_feeds s
            else if kind = ''url'' then js_trim (no_breaks s) else no_breaks s))"
  by (auto simp: input_control_def get_attr_def Let_def)

lemma select_value_hit:
  assumes "v \<in> set (map so_value options)"
  shows "select_value (map (option_node (jlit v)) options) = jlit v"
proof -
  have sel: "get_attr (option_node (jlit v) q) ''selected'' = JBool True \<longleftrightarrow> so_value q = v" for q
    by (simp add: option_node_def get_attr_El)
  have "find (\<lambda>d. get_attr d ''selected'' = JBool True) (map (option_node (jlit v)) options) \<noteq> None"
    using assms by (auto simp: find_None_iff sel)
  then obtain d where d: "find (\<lambda>d. get_attr d ''selected'' = JBool True) (map (option_node (jlit v)) options) = Some d" by auto
  then obtain q where "q \<in> set options" "d = option_node (jlit v) q" "so_value q = v"
    unfolding find_Some_iff length_map by (metis nth_map nth_mem sel)
  then have "get_attr d ''value'' = jlit v" by (simp add: option_node_def get_attr_El)
  then show ?thesis using d by (simp add: select_value_def)
qed

lemma foldl_obj_set:
  assumes "distinct (map fst (kvs @ es))"
  shows "foldl (\<lambda>o' (k, v). obj_set o' k v) kvs es = kvs @ es"
  using assms
proof (induction es arbitrary: kvs)
  case (Cons e es)
  obtain k v where e: "e = (k, v)" by force
  have fresh: "k \<notin> fst ` set kvs" using Cons.prems by (auto simp: e)
  have "obj_set kvs k v = kvs @ [(k, v)]" using fresh by (induction kvs) auto
  then show ?case using Cons.IH [of "kvs @ [(k, v)]"] Cons.prems by (simp add: e)
qed simp

lemma from_entries_distinct: "distinct (map fst es) \<Longrightarrow> from_entries es = es"
  by (simp add: from_entries_def foldl_obj_set)

section \<open>Editing an automation\<close>

text \<open>An automation as the service stores it (\<open>_normalize_target\<close>, \<open>_normalize_schedule\<close> of its \<open>automations.py\<close>).\<close>

datatype schedule = Once jstr | Interval int jstr | Rrule jstr jstr jstr

datatype target = Continue jstr | Standalone jstr

record automation =
  at_name :: jstr
  at_prompt :: jstr
  at_target :: target
  at_schedule :: schedule
  at_mode :: string
  at_model :: "jstr option"
  at_thinking :: "jstr option"
  at_revision :: int

fun schedule_json :: "schedule \<Rightarrow> jsval" where
  "schedule_json (Once t) = JObj [(js ''kind'', jlit ''once''), (js ''at'', JStr t)]"
| "schedule_json (Interval n t) =
     JObj [(js ''kind'', jlit ''interval''), (js ''seconds'', jint n), (js ''anchor_at'', JStr t)]"
| "schedule_json (Rrule r t z) =
     JObj [(js ''kind'', jlit ''rrule''), (js ''rule'', JStr r), (js ''start_at'', JStr t), (js ''timezone'', JStr z)]"

fun target_json :: "target \<Rightarrow> jsval" where
  "target_json (Continue i) = JObj [(js ''kind'', jlit ''continue_thread''), (js ''thread_id'', JStr i)]"
| "target_json (Standalone i) = JObj [(js ''kind'', jlit ''standalone''), (js ''project_id'', JStr i)]"

definition opt_json :: "jstr option \<Rightarrow> jsval" where
  "opt_json v = (case v of None \<Rightarrow> JNull | Some s \<Rightarrow> JStr s)"

definition automation_fields :: "automation \<Rightarrow> jsobj" where
  "automation_fields a =
     [(js ''name'', JStr (at_name a)), (js ''prompt'', JStr (at_prompt a)), (js ''target'', target_json (at_target a)),
      (js ''schedule'', schedule_json (at_schedule a)), (js ''mode'', jlit (at_mode a)),
      (js ''model'', opt_json (at_model a)), (js ''thinking'', opt_json (at_thinking a))]"

definition automation_json :: "automation \<Rightarrow> jsval" where
  "automation_json a = JObj (automation_fields a @ [(js ''revision'', jint (at_revision a))])"

definition line :: "jstr \<Rightarrow> bool" where
  "line s \<longleftrightarrow> s \<noteq> [] \<and> 10 \<notin> set s \<and> 13 \<notin> set s"

fun wf_schedule :: "schedule \<Rightarrow> bool" where
  "wf_schedule (Once t) = line t"
| "wf_schedule (Interval n t) = (0 < n \<and> n < 10 ^ 15 \<and> line t)"
| "wf_schedule (Rrule r t z) = (line r \<and> line t \<and> line z)"

fun wf_target :: "target \<Rightarrow> bool" where
  "wf_target (Continue i) = line i"
| "wf_target (Standalone i) = line i"

definition wf_automation :: "automation \<Rightarrow> bool" where
  "wf_automation a \<longleftrightarrow>
     line (at_name a) \<and> 13 \<notin> set (at_prompt a) \<and> wf_target (at_target a) \<and> wf_schedule (at_schedule a)
     \<and> at_mode a \<in> {''observe'', ''edit'', ''full-auto''}
     \<and> (at_model a = None \<or> line (the (at_model a))) \<and> (at_thinking a = None \<or> line (the (at_thinking a)))
     \<and> 0 \<le> at_revision a \<and> at_revision a < 10 ^ 15"

lemma no_breaks_line: "line s \<Longrightarrow> no_breaks s = s"
  unfolding line_def no_breaks_def by (rule filter_True) metis

lemma line_feeds_id: "13 \<notin> set s \<Longrightarrow> line_feeds s = s"
  by (induction s rule: line_feeds.induct) auto

definition single :: "(rat \<Rightarrow> jstr) \<Rightarrow> jsval \<Rightarrow> jsval" where
  "single fmt v = JStr (no_breaks (if nullish v then [] else js_String fmt v))"

lemma single_input: "field_value (input_control fmt name v ''text'') = single fmt v"
  by (simp add: input_value single_def Let_def)

lemma single_simps [simp]:
  "single fmt (JStr s) = JStr (no_breaks s)" "no_breaks [] = []" "single fmt JNull = JStr []"
  by (simp_all add: single_def nullish_def no_breaks_def)

lemma area_input: "field_value (input_control fmt name (JStr s) ''textarea'') = JStr (line_feeds s)"
  by (simp add: input_value Let_def nullish_def)

lemma digits_line: "0 \<le> n \<Longrightarrow> line (dec_int n)"
  using dec_nat_digits [of "nat n"] by (auto simp: line_def dec_int_def list_all_iff is_digit_def)

lemma single_int: "0 \<le> n \<Longrightarrow> n < 10 ^ 15 \<Longrightarrow> single fmt (jint n) = JStr (dec_int n)"
proof -
  assume n: "0 \<le> n" "n < 10 ^ 15"
  have "rat_of_int n < rat_of_int (10 ^ 15)" using n(2) by (simp only: of_int_less_iff)
  then have "rat_of_int n < 10 ^ 21" by simp
  with n show ?thesis
    by (simp add: single_def nullish_def num_String_def no_breaks_line digits_line)
qed

lemma schedule_form_values:
  "desktopFormValues (Some (schedule_form fmt st tz)) =
     (let editing = js_or (ds_editingAutomation st) (JObj []); schedule = js_or (dot editing ''schedule'') (JObj []);
          target = dot editing ''target''; empty = JStr [] in
     [(js ''title'', single fmt (formValue st ''title'' (js_or (dot editing ''name'') empty))),
      (js ''project_id'', single fmt (formValue st ''project_id'' (js_or (dot target ''project_id'') empty))),
      (js ''thread_id'', single fmt (formValue st ''thread_id'' (js_or (dot target ''thread_id'') empty))),
      (js ''prompt'', field_value (input_control fmt ''prompt'' (formValue st ''prompt'' (js_or (dot editing ''prompt'') empty)) ''textarea'')),
      (js ''schedule_type'', select_value (map (option_node (formValue st ''schedule_type''
         (if dot schedule ''kind'' = jlit ''rrule'' then jlit ''rrule'' else js_or (dot schedule ''kind'') (jlit ''once''))))
         [\<lparr>so_value = ''once'', so_label = ''One time'', so_disabled = False\<rparr>,
          \<lparr>so_value = ''interval'', so_label = ''Interval'', so_disabled = False\<rparr>,
          \<lparr>so_value = ''rrule'', so_label = ''RRULE'', so_disabled = False\<rparr>])),
      (js ''run_at'', single fmt (formValue st ''run_at'' (js_or (js_or (js_or (dot schedule ''at'') (dot schedule ''start_at''))
         (dot schedule ''anchor_at'')) empty))),
      (js ''interval_seconds'', single fmt (formValue st ''interval_seconds'' (js_or (dot schedule ''seconds'') empty))),
      (js ''rrule'', single fmt (formValue st ''rrule'' (js_or (dot schedule ''rule'') empty))),
      (js ''timezone'', single fmt (formValue st ''timezone'' (js_or (dot schedule ''timezone'') tz))),
      (js ''model'', single fmt (formValue st ''model'' (js_or (dot editing ''model'') empty))),
      (js ''thinking'', single fmt (formValue st ''thinking'' (js_or (dot editing ''thinking'') empty))),
      (js ''mode'', select_value (map (option_node (formValue st ''mode'' (js_or (dot editing ''mode'') (jlit ''observe''))))
         [\<lparr>so_value = ''observe'', so_label = ''Observe'', so_disabled = False\<rparr>,
          \<lparr>so_value = ''edit'', so_label = ''Edit'', so_disabled = False\<rparr>,
          \<lparr>so_value = ''full-auto'', so_label = ''Full auto'', so_disabled = False\<rparr>])),
      (js ''revision'', single fmt (formValue st ''revision'' (js_or (dot editing ''revision'') empty)))])"
proof -
  have "form_fields (schedule_form fmt st tz) = concat (map entries (schedule_fields fmt st tz))"
    by (simp add: schedule_form_def desktop_form_def form_fields_El fields_text_el Let_def)
  then show ?thesis
    by (simp add: desktopFormValues_def schedule_fields_def Let_def single_input from_entries_distinct)
qed


text \<open>The number of a decimal numeral, and that of the empty string.\<close>

definition reads_numerals :: "(jstr \<Rightarrow> jsnum) \<Rightarrow> bool" where
  "reads_numerals strNum \<longleftrightarrow> strNum [] = Fin 0 \<and> (\<forall>n\<ge>0. strNum (dec_int n) = Fin (of_int n))"

definition edit_values :: "(rat \<Rightarrow> jstr) \<Rightarrow> automation \<Rightarrow> jsval \<Rightarrow> jsobj" where
  "edit_values fmt a tz =
     [(js ''title'', JStr (at_name a)),
      (js ''project_id'', JStr (case at_target a of Standalone i \<Rightarrow> i | _ \<Rightarrow> [])),
      (js ''thread_id'', JStr (case at_target a of Continue i \<Rightarrow> i | _ \<Rightarrow> [])),
      (js ''prompt'', JStr (at_prompt a)),
      (js ''schedule_type'', jlit (case at_schedule a of Once _ \<Rightarrow> ''once'' | Interval _ _ \<Rightarrow> ''interval'' | Rrule _ _ _ \<Rightarrow> ''rrule'')),
      (js ''run_at'', JStr (case at_schedule a of Once t \<Rightarrow> t | Interval _ t \<Rightarrow> t | Rrule _ t _ \<Rightarrow> t)),
      (js ''interval_seconds'', JStr (case at_schedule a of Interval n _ \<Rightarrow> dec_int n | _ \<Rightarrow> [])),
      (js ''rrule'', JStr (case at_schedule a of Rrule r _ _ \<Rightarrow> r | _ \<Rightarrow> [])),
      (js ''timezone'', case at_schedule a of Rrule _ _ z \<Rightarrow> JStr z | _ \<Rightarrow> single fmt tz),
      (js ''model'', JStr (case at_model a of Some m \<Rightarrow> m | None \<Rightarrow> [])),
      (js ''thinking'', JStr (case at_thinking a of Some m \<Rightarrow> m | None \<Rightarrow> [])),
      (js ''mode'', jlit (at_mode a)),
      (js ''revision'', JStr (if at_revision a = 0 then [] else dec_int (at_revision a)))]"

lemma line_ne: "line s \<Longrightarrow> s \<noteq> []"
  by (simp add: line_def)

lemma schedule_field_values:
  assumes "wf_schedule s"
    and kinds: "\<forall>k\<in>{''once'', ''interval'', ''rrule''}. select_value (map (option_node (jlit k)) options) = jlit k"
  shows "js_or (schedule_json s) (JObj []) = schedule_json s"
    "select_value (map (option_node (if dot (schedule_json s) ''kind'' = jlit ''rrule'' then jlit ''rrule''
       else js_or (dot (schedule_json s) ''kind'') (jlit ''once''))) options)
     = jlit (case s of Once _ \<Rightarrow> ''once'' | Interval _ _ \<Rightarrow> ''interval'' | Rrule _ _ _ \<Rightarrow> ''rrule'')"
    "single fmt (js_or (js_or (js_or (dot (schedule_json s) ''at'') (dot (schedule_json s) ''start_at''))
       (dot (schedule_json s) ''anchor_at'')) (JStr []))
     = JStr (case s of Once t \<Rightarrow> t | Interval _ t \<Rightarrow> t | Rrule _ t _ \<Rightarrow> t)"
    "single fmt (js_or (dot (schedule_json s) ''seconds'') (JStr [])) = JStr (case s of Interval n _ \<Rightarrow> dec_int n | _ \<Rightarrow> [])"
    "single fmt (js_or (dot (schedule_json s) ''rule'') (JStr [])) = JStr (case s of Rrule r _ _ \<Rightarrow> r | _ \<Rightarrow> [])"
    "single fmt (js_or (dot (schedule_json s) ''timezone'') tz) = (case s of Rrule _ _ z \<Rightarrow> JStr z | _ \<Rightarrow> single fmt tz)"
  using assms(1)
  by (cases s; simp add: dot_JObj obj_get_def js_or_def no_breaks_line line_ne kinds single_int)+

lemma edit_form_values:
  assumes wf: "wf_automation a" and draft: "ds_formDraft st = []" and ed: "ds_editingAutomation st = automation_json a"
  shows "desktopFormValues (Some (schedule_form fmt st tz)) = edit_values fmt a tz"
proof -
  have fv: "formValue st n v = v" for n v by (simp add: formValue_def has_own_def draft)
  have ne: "js_or (automation_json a) w = automation_json a" for w by (simp add: js_or_def automation_json_def)
  note w = wf [unfolded wf_automation_def]
  have get: "dot (automation_json a) ''name'' = JStr (at_name a)" "dot (automation_json a) ''prompt'' = JStr (at_prompt a)"
    "dot (automation_json a) ''target'' = target_json (at_target a)"
    "dot (automation_json a) ''schedule'' = schedule_json (at_schedule a)"
    "dot (automation_json a) ''mode'' = jlit (at_mode a)" "dot (automation_json a) ''model'' = opt_json (at_model a)"
    "dot (automation_json a) ''thinking'' = opt_json (at_thinking a)"
    "dot (automation_json a) ''revision'' = jint (at_revision a)"
    by (simp_all add: automation_json_def automation_fields_def dot_JObj obj_get_def)
  have opt: "single fmt (js_or (opt_json v) (JStr [])) = JStr (case v of Some m \<Rightarrow> m | None \<Rightarrow> [])"
    if "v = None \<or> line (the v)" for v
    using that by (cases v) (auto simp: opt_json_def js_or_def no_breaks_line)
  have rev: "single fmt (js_or (jint (at_revision a)) (JStr [])) = JStr (if at_revision a = 0 then [] else dec_int (at_revision a))"
    using w single_int by (auto simp: js_or_def)
  have mode: "js_or (jlit (at_mode a)) (jlit ''observe'') = jlit (at_mode a)" using w by (auto simp: js_or_def)
  have modes: "select_value (map (option_node (jlit (at_mode a)))
         [\<lparr>so_value = ''observe'', so_label = ''Observe'', so_disabled = False\<rparr>,
          \<lparr>so_value = ''edit'', so_label = ''Edit'', so_disabled = False\<rparr>,
          \<lparr>so_value = ''full-auto'', so_label = ''Full auto'', so_disabled = False\<rparr>]) = jlit (at_mode a)"
    using w by (intro select_value_hit) auto
  have kinds: "\<forall>k\<in>{''once'', ''interval'', ''rrule''}. select_value (map (option_node (jlit k))
         [\<lparr>so_value = ''once'', so_label = ''One time'', so_disabled = False\<rparr>,
          \<lparr>so_value = ''interval'', so_label = ''Interval'', so_disabled = False\<rparr>,
          \<lparr>so_value = ''rrule'', so_label = ''RRULE'', so_disabled = False\<rparr>]) = jlit k"
    by (intro ballI select_value_hit) auto
  have prompt: "js_or (JStr (at_prompt a)) (JStr []) = JStr (at_prompt a)" by (simp add: js_or_def)
  have name: "single fmt (js_or (JStr (at_name a)) (JStr [])) = JStr (at_name a)"
    using w by (simp add: js_or_def no_breaks_line)
  have feeds: "line_feeds (at_prompt a) = at_prompt a" using w by (simp add: line_feeds_id)
  have target: "single fmt (js_or (dot (target_json t) ''project_id'') (JStr [])) = JStr (case t of Standalone i \<Rightarrow> i | _ \<Rightarrow> [])"
    "single fmt (js_or (dot (target_json t) ''thread_id'') (JStr [])) = JStr (case t of Continue i \<Rightarrow> i | _ \<Rightarrow> [])"
    if "wf_target t" for t
    using that by (cases t; simp add: dot_JObj obj_get_def js_or_def no_breaks_line line_ne)+
  have ws: "wf_schedule (at_schedule a)" "wf_target (at_target a)" "at_model a = None \<or> line (the (at_model a))"
    "at_thinking a = None \<or> line (the (at_thinking a))" using w by simp_all
  show ?thesis
    unfolding schedule_form_values Let_def fv ed ne get mode modes prompt name rev area_input feeds
      edit_values_def schedule_field_values [OF ws(1) kinds] target [OF ws(2)] opt [OF ws(3)] opt [OF ws(4)] ..
qed

lemma edit_payload:
  assumes wf: "wf_automation a" and num: "reads_numerals strNum"
  shows "buildAutomationUpdatePayload strNum fmt (JObj (edit_values fmt a tz))
    = (js ''expected_revision'', jint (at_revision a)) # automation_fields a"
proof -
  let ?v = "JObj (edit_values fmt a tz)"
  note w = wf [unfolded wf_automation_def]
  have dots: "dot ?v ''title'' = JStr (at_name a)" "dot ?v ''name'' = JUndefined"
    "dot ?v ''prompt'' = JStr (at_prompt a)" "dot ?v ''mode'' = jlit (at_mode a)"
    "dot ?v ''project_id'' = JStr (case at_target a of Standalone i \<Rightarrow> i | _ \<Rightarrow> [])"
    "dot ?v ''thread_id'' = JStr (case at_target a of Continue i \<Rightarrow> i | _ \<Rightarrow> [])"
    "dot ?v ''schedule_type'' = jlit (case at_schedule a of Once _ \<Rightarrow> ''once'' | Interval _ _ \<Rightarrow> ''interval'' | Rrule _ _ _ \<Rightarrow> ''rrule'')"
    "dot ?v ''run_at'' = JStr (case at_schedule a of Once t \<Rightarrow> t | Interval _ t \<Rightarrow> t | Rrule _ t _ \<Rightarrow> t)"
    "dot ?v ''interval_seconds'' = JStr (case at_schedule a of Interval n _ \<Rightarrow> dec_int n | _ \<Rightarrow> [])"
    "dot ?v ''rrule'' = JStr (case at_schedule a of Rrule r _ _ \<Rightarrow> r | _ \<Rightarrow> [])"
    "dot ?v ''timezone'' = (case at_schedule a of Rrule _ _ z \<Rightarrow> JStr z | _ \<Rightarrow> single fmt tz)"
    "dot ?v ''model'' = JStr (case at_model a of Some m \<Rightarrow> m | None \<Rightarrow> [])"
    "dot ?v ''thinking'' = JStr (case at_thinking a of Some m \<Rightarrow> m | None \<Rightarrow> [])"
    "dot ?v ''reasoning'' = JUndefined" "dot ?v ''anchor_at'' = JUndefined" "dot ?v ''start_at'' = JUndefined"
    "dot ?v ''revision'' = JStr (if at_revision a = 0 then [] else dec_int (at_revision a))"
    by (simp_all add: edit_values_def dot_JObj obj_get_def)
  have rev: "js_Number strNum fmt (JStr (if at_revision a = 0 then [] else dec_int (at_revision a))) = Fin (of_int (at_revision a))"
    using num w by (simp add: js_Number_def reads_numerals_def)
  have target: "automation_target ?v = target_json (at_target a)"
    using w by (cases "at_target a") (auto simp: automation_target_def dots line_ne)
  have schedule: "automation_schedule strNum fmt ?v = schedule_json (at_schedule a)"
    using w num by (cases "at_schedule a")
      (simp_all add: automation_schedule_def dots js_or_def js_Number_def reads_numerals_def Let_def)
  have opt: "js_or (JStr (case v of Some m \<Rightarrow> m | None \<Rightarrow> [])) JNull = opt_json v" if "v = None \<or> line (the v)" for v
    using that by (cases v) (auto simp: js_or_def opt_json_def line_ne)
  have ws: "at_model a = None \<or> line (the (at_model a))" "at_thinking a = None \<or> line (the (at_thinking a))"
    using w by simp_all
  have "js_or (js_or JUndefined (JStr (at_name a))) (jlit ''Untitled automation'') = JStr (at_name a)"
    "js_or (jlit (at_mode a)) (jlit ''observe'') = jlit (at_mode a)" "js_or (JStr (at_prompt a)) (JStr []) = JStr (at_prompt a)"
    using w by (auto simp: js_or_def line_def)
  moreover have "js_or (JStr s) JUndefined = (if s = [] then JUndefined else JStr s)" for s by (simp add: js_or_def)
  moreover have "js_or (js_or (JStr s) JUndefined) JNull = js_or (JStr s) JNull" for s by (simp add: js_or_def)
  ultimately show ?thesis
    unfolding buildAutomationUpdatePayload_def buildAutomationPayload_def dots rev target schedule automation_fields_def
    by (simp add: opt [OF ws(1)] opt [OF ws(2)])
qed

section \<open>Drafts across a re-render\<close>

text \<open>
  A form as the list of its controls: the name, what the control shows of a value,
  and the value it starts from.
\<close>

type_synonym control = "string \<times> (jsval \<Rightarrow> jsval) \<times> jsval"

definition shown_values :: "desktop_state \<Rightarrow> control list \<Rightarrow> jsobj" where
  "shown_values st cs = map (\<lambda>(n, view, v). (js n, view (formValue st n v))) cs"

definition area :: "(rat \<Rightarrow> jstr) \<Rightarrow> jsval \<Rightarrow> jsval" where
  "area fmt v = JStr (line_feeds (if nullish v then [] else js_String fmt v))"

definition url :: "(rat \<Rightarrow> jstr) \<Rightarrow> jsval \<Rightarrow> jsval" where
  "url fmt v = JStr (js_trim (no_breaks (if nullish v then [] else js_String fmt v)))"

definition choice :: "(string \<times> string) list \<Rightarrow> jsval \<Rightarrow> jsval" where
  "choice options v =
     select_value (map (\<lambda>(k, l). option_node v \<lparr>so_value = k, so_label = l, so_disabled = False\<rparr>) options)"

lemma area_value: "field_value (input_control fmt name v ''textarea'') = area fmt v"
  by (simp add: input_value area_def Let_def)

lemma url_value: "field_value (input_control fmt name v ''url'') = url fmt v"
  by (simp add: input_value url_def Let_def)

definition schedule_controls :: "(rat \<Rightarrow> jstr) \<Rightarrow> jsval \<Rightarrow> jsval \<Rightarrow> control list" where
  "schedule_controls fmt automation tz =
     (let editing = js_or automation (JObj []); schedule = js_or (dot editing ''schedule'') (JObj []);
          target = dot editing ''target''; empty = JStr [] in
     [(''title'', single fmt, js_or (dot editing ''name'') empty),
      (''project_id'', single fmt, js_or (dot target ''project_id'') empty),
      (''thread_id'', single fmt, js_or (dot target ''thread_id'') empty),
      (''prompt'', area fmt, js_or (dot editing ''prompt'') empty),
      (''schedule_type'', choice [(''once'', ''One time''), (''interval'', ''Interval''), (''rrule'', ''RRULE'')],
         if dot schedule ''kind'' = jlit ''rrule'' then jlit ''rrule'' else js_or (dot schedule ''kind'') (jlit ''once'')),
      (''run_at'', single fmt, js_or (js_or (js_or (dot schedule ''at'') (dot schedule ''start_at'')) (dot schedule ''anchor_at'')) empty),
      (''interval_seconds'', single fmt, js_or (dot schedule ''seconds'') empty),
      (''rrule'', single fmt, js_or (dot schedule ''rule'') empty),
      (''timezone'', single fmt, js_or (dot schedule ''timezone'') tz),
      (''model'', single fmt, js_or (dot editing ''model'') empty),
      (''thinking'', single fmt, js_or (dot editing ''thinking'') empty),
      (''mode'', choice [(''observe'', ''Observe''), (''edit'', ''Edit''), (''full-auto'', ''Full auto'')],
         js_or (dot editing ''mode'') (jlit ''observe'')),
      (''revision'', single fmt, js_or (dot editing ''revision'') empty)])"

definition skill_controls :: "(rat \<Rightarrow> jstr) \<Rightarrow> control list" where
  "skill_controls fmt =
     [(''name'', single fmt, JStr []), (''description'', area fmt, JStr []), (''instructions'', area fmt, JStr [])]"

definition marketplace_controls :: "(rat \<Rightarrow> jstr) \<Rightarrow> control list" where
  "marketplace_controls fmt =
     [(''source'', url fmt, JStr []), (''ref_name'', single fmt, JStr []), (''sparse_paths'', single fmt, JStr [])]"

definition mcp_controls :: "(rat \<Rightarrow> jstr) \<Rightarrow> control list" where
  "mcp_controls fmt =
     [(''name'', single fmt, JStr []), (''url'', url fmt, JStr []), (''oauth_client_id'', single fmt, JStr []),
      (''oauth_resource'', single fmt, JStr [])]"

lemma shown_schedule:
  "desktopFormValues (Some (schedule_form fmt st tz)) = shown_values st (schedule_controls fmt (ds_editingAutomation st) tz)"
  unfolding schedule_form_values Let_def
  by (simp add: shown_values_def schedule_controls_def choice_def area_value Let_def)

lemma shown_simple_forms:
  "desktopFormValues (Some (skill_form fmt st)) = shown_values st (skill_controls fmt)"
  "desktopFormValues (Some (marketplace_form fmt st)) = shown_values st (marketplace_controls fmt)"
  "desktopFormValues (Some (mcp_form fmt st)) = shown_values st (mcp_controls fmt)"
  by (simp_all add: desktopFormValues_def skill_form_def marketplace_form_def mcp_form_def desktop_form_def form_fields_El
      from_entries_distinct shown_values_def skill_controls_def marketplace_controls_def mcp_controls_def
      single_input area_value url_value)

lemma has_own_obj_set [simp]: "has_own (obj_set kvs k v) k' \<longleftrightarrow> k' = k \<or> has_own kvs k'"
  using keys_obj_set [of kvs k v] by (simp add: has_own_def)

lemma formValue_capture:
  assumes "truthy (ds_form st)" and "f \<noteq> []"
  shows "formValue (captureDesktopFormDraft True (js f) t st) n v = (if n = f then JStr t else formValue st n v)"
  using assms by (simp add: formValue_def captureDesktopFormDraft_def)

lemma capture_editing [simp]:
  "ds_editingAutomation (captureDesktopFormDraft b f t st) = ds_editingAutomation st"
  "ds_form (captureDesktopFormDraft b f t st) = ds_form st"
  by (simp_all add: captureDesktopFormDraft_def)

lemma shown_values_capture:
  assumes form: "truthy (ds_form st)" and f: "f \<noteq> []" "distinct (map fst cs)" "(f, view, v) \<in> set cs"
    and t: "view (JStr t) = JStr t"
  shows "shown_values (captureDesktopFormDraft True (js f) t st) cs = obj_set (shown_values st cs) (js f) (JStr t)"
  using f(2,3)
proof (induction cs)
  case (Cons c cs)
  obtain n view' v' where c: "c = (n, view', v')" by (cases c) auto
  show ?case
  proof (cases "n = f")
    case True
    then have "(f, view, v) \<notin> set cs" using Cons.prems by (auto simp: c image_iff)
    then have eq: "view' = view" using Cons.prems True by (auto simp: c)
    have "shown_values (captureDesktopFormDraft True (js f) t st) cs = shown_values st cs"
      unfolding shown_values_def
      by (rule map_cong) (use Cons.prems True in \<open>auto simp: c formValue_capture [OF form f(1)] image_iff\<close>)
    then show ?thesis using True eq t by (simp add: c shown_values_def formValue_capture [OF form f(1)])
  next
    case False
    then show ?thesis using Cons by (auto simp: c shown_values_def formValue_capture [OF form f(1)])
  qed
qed simp

definition accepts :: "control list \<Rightarrow> string \<Rightarrow> jstr \<Rightarrow> bool" where
  "accepts cs f t \<longleftrightarrow> (\<exists>view v. (f, view, v) \<in> set cs \<and> view (JStr t) = JStr t)"

lemma control_names:
  "distinct (map fst (schedule_controls fmt a tz))" "[] \<notin> fst ` set (schedule_controls fmt a tz)"
  "distinct (map fst (skill_controls fmt))" "[] \<notin> fst ` set (skill_controls fmt)"
  "distinct (map fst (marketplace_controls fmt))" "[] \<notin> fst ` set (marketplace_controls fmt)"
  "distinct (map fst (mcp_controls fmt))" "[] \<notin> fst ` set (mcp_controls fmt)"
  by (simp_all add: schedule_controls_def skill_controls_def marketplace_controls_def mcp_controls_def Let_def)

lemma shown_values_accepts:
  assumes "truthy (ds_form st)" "distinct (map fst cs)" "[] \<notin> fst ` set cs" "accepts cs f t"
  shows "shown_values (captureDesktopFormDraft True (js f) t st) cs = obj_set (shown_values st cs) (js f) (JStr t)"
proof -
  obtain view v where v: "(f, view, v) \<in> set cs" "view (JStr t) = JStr t" using assms(4) by (auto simp: accepts_def)
  then have "f \<noteq> []" using assms(3) by force
  then show ?thesis using shown_values_capture assms(1,2) v by blast
qed

text \<open>The form a surface state shows, and its controls.\<close>

definition open_form :: "(rat \<Rightarrow> jstr) \<Rightarrow> desktop_state \<Rightarrow> jsval \<Rightarrow> dom option" where
  "open_form fmt st tz =
     (if ds_form st = jlit ''schedule'' \<or> ds_form st = jlit ''schedule-edit'' then Some (schedule_form fmt st tz)
      else if ds_form st = jlit ''skill'' then Some (skill_form fmt st)
      else if ds_form st = jlit ''marketplace'' then Some (marketplace_form fmt st)
      else if ds_form st = jlit ''mcp'' then Some (mcp_form fmt st) else None)"

definition open_controls :: "(rat \<Rightarrow> jstr) \<Rightarrow> desktop_state \<Rightarrow> jsval \<Rightarrow> control list" where
  "open_controls fmt st tz =
     (if ds_form st = jlit ''schedule'' \<or> ds_form st = jlit ''schedule-edit''
      then schedule_controls fmt (ds_editingAutomation st) tz
      else if ds_form st = jlit ''skill'' then skill_controls fmt
      else if ds_form st = jlit ''marketplace'' then marketplace_controls fmt
      else if ds_form st = jlit ''mcp'' then mcp_controls fmt else [])"

definition type_all :: "(string \<times> jstr) list \<Rightarrow> desktop_state \<Rightarrow> desktop_state" where
  "type_all es st = foldl (\<lambda>st (f, t). captureDesktopFormDraft True (js f) t st) st es"

lemma open_form_values: "desktopFormValues (open_form fmt st tz) = shown_values st (open_controls fmt st tz)"
proof -
  have "shown_values st [] = []" "desktopFormValues None = []" by (simp_all add: shown_values_def desktopFormValues_def)
  then show ?thesis by (simp add: open_form_def open_controls_def shown_schedule shown_simple_forms)
qed

lemma open_controls_names: "distinct (map fst (open_controls fmt st tz)) \<and> [] \<notin> fst ` set (open_controls fmt st tz)"
  using control_names by (simp add: open_controls_def)

lemma open_controls_form: "open_controls fmt st tz \<noteq> [] \<Longrightarrow> truthy (ds_form st)"
  by (auto simp: open_controls_def split: if_splits)

lemma open_controls_capture [simp]:
  "open_controls fmt (captureDesktopFormDraft b f t st) tz = open_controls fmt st tz"
  by (simp add: open_controls_def)

lemma type_step:
  assumes "accepts (open_controls fmt st tz) f t"
  shows "desktopFormValues (open_form fmt (captureDesktopFormDraft True (js f) t st) tz)
    = obj_set (desktopFormValues (open_form fmt st tz)) (js f) (JStr t)"
proof -
  have "open_controls fmt st tz \<noteq> []" using assms by (auto simp: accepts_def)
  then show ?thesis
    using open_controls_names open_controls_form assms by (simp add: open_form_values shown_values_accepts)
qed

section \<open>Instruction drafts\<close>

text \<open>What the text area shows when a project is active.\<close>

definition shown_agents :: "(rat \<Rightarrow> jstr) \<Rightarrow> jsval \<Rightarrow> desktop_state \<Rightarrow> jstr" where
  "shown_agents fmt p st =
     as_string (field_value (input_control fmt ''agents_content'' (agents_content fmt (selected_scope True st) p st) ''textarea''))"

definition scopes_loaded :: "desktop_state \<Rightarrow> bool" where
  "scopes_loaded st \<longleftrightarrow>
     is_record (data_field st ''agentsScopes'') \<and> truthy (dot (data_field st ''agentsScopes'') ''global'')
     \<and> truthy (dot (data_field st ''agentsScopes'') ''project'')"

definition other_scope :: "desktop_state \<Rightarrow> string" where
  "other_scope st = (if selected_scope True st = ''project'' then ''global'' else ''project'')"

definition switch_scope :: "(rat \<Rightarrow> jstr) \<Rightarrow> jsval \<Rightarrow> desktop_state \<Rightarrow> desktop_state" where
  "switch_scope fmt p st =
     agents_scope_change fmt (Some (shown_agents fmt p st, p)) p p (jlit (other_scope st)) st"

definition type_agents :: "(rat \<Rightarrow> jstr) \<Rightarrow> jsval \<Rightarrow> jstr \<Rightarrow> desktop_state \<Rightarrow> desktop_state" where
  "type_agents fmt p t st = agents_input fmt (jlit (selected_scope True st)) p p t st"

lemma line_feeds_no_cr: "13 \<notin> set (line_feeds s)"
  by (induction s rule: line_feeds.induct) auto

lemma line_feeds_idem [simp]: "line_feeds (line_feeds s) = line_feeds s"
  by (rule line_feeds_id [OF line_feeds_no_cr])

definition known_scope :: "desktop_state \<Rightarrow> bool" where
  "known_scope st \<longleftrightarrow> ds_agentsScope st \<in> {JUndefined, jlit ''global'', jlit ''project''}"

definition scope_key :: "jstr \<Rightarrow> string \<Rightarrow> jstr" where
  "scope_key i scope = (if scope = ''project'' then js ''project:'' @ i else js ''global'')"

lemma scope_key_inj: "scope_key i ''project'' \<noteq> scope_key i ''global''" "scope_key i ''global'' \<noteq> scope_key i ''project''"
  by (auto simp: scope_key_def js_def)

lemma selected_scope_cases: "selected_scope True st = ''project'' \<or> selected_scope True st = ''global''"
  by (simp add: selected_scope_def)

lemma shown_draft_key_scope: "i \<noteq> [] \<Longrightarrow> shown_draft_key fmt s (JStr i) st = scope_key i s"
  by (simp add: shown_draft_key_def scope_key_def js_or_def)

lemma shown_agents_eq:
  assumes "i \<noteq> []"
  shows "shown_agents fmt (JStr i) st =
    as_string (area fmt (if has_own (ds_agentsDrafts st) (scope_key i (selected_scope True st))
      then obj_get (ds_agentsDrafts st) (scope_key i (selected_scope True st))
      else js_or (obj_get (asRecord (js_or (obj_get (asRecord (data_field st ''agentsScopes'')) (js (selected_scope True st)))
             (data_field st ''agents''))) (js ''content'')) (JStr [])))"
  using assms by (simp add: shown_agents_def area_value agents_content_def shown_draft_key_def scope_key_def js_or_def Let_def)

lemma type_agents_eq:
  assumes "i \<noteq> []"
  shows "type_agents fmt (JStr i) t st =
    st\<lparr>ds_agentsDrafts := obj_set (ds_agentsDrafts st) (scope_key i (selected_scope True st)) (JStr t)\<rparr>"
  using assms selected_scope_cases [of st]
  by (auto simp: type_agents_def agents_input_def agentsDraftKey_def scope_key_def js_or_def Let_def)

lemma switch_scope_eq:
  assumes "i \<noteq> []" "known_scope st"
  shows "switch_scope fmt (JStr i) st =
    st\<lparr>ds_agentsDrafts := obj_set (ds_agentsDrafts st) (scope_key i (selected_scope True st)) (JStr (shown_agents fmt (JStr i) st)),
       ds_agentsScope := jlit (other_scope st),
       ds_data := obj_set (ds_data st) (js ''agents'') (js_or (dot (data_field st ''agentsScopes'') (other_scope st)) (JObj []))\<rparr>"
proof -
  have "agentsDraftKey fmt (js_or (ds_agentsScope st) (jlit ''project'')) (JStr i) = scope_key i (selected_scope True st)"
    using assms by (auto simp: known_scope_def selected_scope_def agentsDraftKey_def scope_key_def js_or_def)
  moreover have "other_scope st = ''project'' \<or> other_scope st = ''global''" by (simp add: other_scope_def)
  ultimately show ?thesis
    using assms by (auto simp: switch_scope_def agents_scope_change_def js_or_def Let_def)
qed

lemma area_string [simp]: "as_string (area fmt (JStr s)) = line_feeds s"
  by (simp add: area_def nullish_def)

lemma shown_agents_fixed: "line_feeds (shown_agents fmt p st) = shown_agents fmt p st"
  by (simp add: shown_agents_def area_value area_def)

lemma data_field_set: "data_field (st\<lparr>ds_data := obj_set (ds_data st) (js k) v\<rparr>) k' = (if k' = k then v else data_field st k')"
  by (simp add: data_field_def)

lemma dot_asRecord: "dot v k = obj_get (asRecord v) (js k)"
  by (cases v) (simp_all add: asRecord_def dot_def obj_get_def)

lemma switched_scope: "ds_agentsScope st = jlit (other_scope st0) \<Longrightarrow> selected_scope True st = other_scope st0"
  by (simp add: selected_scope_def other_scope_def split: if_splits)

lemma other_neq: "scope_key i (other_scope st) \<noteq> scope_key i (selected_scope True st)"
  using selected_scope_cases [of st] scope_key_inj by (auto simp: other_scope_def)

lemma truthy_js_or: "truthy v \<Longrightarrow> js_or v w = v"
  by (simp add: js_or_def)

lemma scopes_loaded_truthy:
  "scopes_loaded st \<Longrightarrow> truthy (obj_get (asRecord (data_field st ''agentsScopes'')) (js (other_scope st)))"
  using selected_scope_cases [of st] by (auto simp: scopes_loaded_def dot_asRecord other_scope_def)

lemma shown_after_switch:
  assumes i: "i \<noteq> []" and k: "known_scope st" and l: "scopes_loaded st"
  shows "shown_agents fmt (JStr i) (switch_scope fmt (JStr i) st)
    = as_string (area fmt (agents_content fmt (other_scope st) (JStr i) st))"
proof -
  let ?s = "switch_scope fmt (JStr i) st"
  note eq = switch_scope_eq [OF i k]
  have sel: "selected_scope True ?s = other_scope st" by (rule switched_scope) (simp add: eq)
  have drafts: "has_own (ds_agentsDrafts ?s) (scope_key i (other_scope st)) \<longleftrightarrow> has_own (ds_agentsDrafts st) (scope_key i (other_scope st))"
    "obj_get (ds_agentsDrafts ?s) (scope_key i (other_scope st)) = obj_get (ds_agentsDrafts st) (scope_key i (other_scope st))"
    using other_neq [of i st] by (simp_all add: eq)
  have data: "data_field ?s ''agentsScopes'' = data_field st ''agentsScopes''" by (simp add: eq data_field_def)
  show ?thesis
    unfolding shown_agents_eq [OF i] sel drafts data truthy_js_or [OF scopes_loaded_truthy [OF l]]
    using i by (simp add: agents_content_def shown_draft_key_def scope_key_def js_or_def truthy_js_or [OF scopes_loaded_truthy [OF l], unfolded js_or_def] Let_def)
qed

lemma switch_back:
  assumes i: "i \<noteq> []" and k: "known_scope st"
  shows "shown_agents fmt (JStr i) (switch_scope fmt (JStr i) (switch_scope fmt (JStr i) st)) = shown_agents fmt (JStr i) st"
proof -
  let ?s = "switch_scope fmt (JStr i) st"
  have k': "known_scope ?s" by (auto simp: known_scope_def switch_scope_eq [OF i k] other_scope_def)
  have sel: "selected_scope True ?s = other_scope st" by (rule switched_scope) (simp add: switch_scope_eq [OF i k])
  have "selected_scope True (switch_scope fmt (JStr i) ?s) = other_scope ?s"
    by (rule switched_scope) (simp add: switch_scope_eq [OF i k'])
  also have "\<dots> = selected_scope True st"
    unfolding other_scope_def [of ?s] sel using selected_scope_cases [of st] by (auto simp: other_scope_def)
  finally have sel2: "selected_scope True (switch_scope fmt (JStr i) ?s) = selected_scope True st" .
  have "ds_agentsDrafts (switch_scope fmt (JStr i) ?s)
      = obj_set (ds_agentsDrafts ?s) (scope_key i (other_scope st)) (JStr (shown_agents fmt (JStr i) ?s))"
    unfolding switch_scope_eq [OF i k'] sel by simp
  moreover have "ds_agentsDrafts ?s
      = obj_set (ds_agentsDrafts st) (scope_key i (selected_scope True st)) (JStr (shown_agents fmt (JStr i) st))"
    by (simp add: switch_scope_eq [OF i k])
  ultimately show ?thesis
    unfolding shown_agents_eq [OF i, where st = "switch_scope fmt (JStr i) ?s"] sel2
    using other_neq [of i st] by (simp add: shown_agents_fixed)
qed

section \<open>Properties\<close>

text \<open>
  Opening the edit form of a stored automation and saving it without a change
  sends the automation back exactly as it is stored: the same name, prompt, target,
  schedule, mode, model and reasoning level, with the stored revision as the
  expected one; whatever kind of schedule it has.
\<close>

theorem edit_unchanged_roundtrip:
  assumes "wf_automation a" and "reads_numerals strNum"
    and "ds_formDraft st = []" and "ds_editingAutomation st = automation_json a"
  shows "buildAutomationUpdatePayload strNum fmt (JObj (desktopFormValues (Some (schedule_form fmt st tz))))
    = (js ''expected_revision'', jint (at_revision a)) # automation_fields a"
  using assms by (simp add: edit_form_values edit_payload)

definition sample_automation :: automation where
  "sample_automation =
     \<lparr>at_name = js ''Nightly'', at_prompt = js ''Check the logs'', at_target = Standalone (js ''p1''),
      at_schedule = Interval 3600 (js ''2026-01-01T00:00:00Z''), at_mode = ''edit'', at_model = None,
      at_thinking = Some (js ''high''), at_revision = 7\<rparr>"

definition sample_num :: "jstr \<Rightarrow> jsnum" where
  "sample_num s = (if s = [] then Fin 0 else Fin (of_nat (read_dec s 0)))"

lemma sample_num_reads: "reads_numerals sample_num"
  by (simp add: reads_numerals_def sample_num_def dec_int_def read_dec_nat)

theorem edit_unchanged_roundtrip_witness:
  "buildAutomationUpdatePayload sample_num (\<lambda>_. [])
     (JObj (desktopFormValues (Some (schedule_form (\<lambda>_. [])
        (createDesktopFeatureState\<lparr>ds_editingAutomation := automation_json sample_automation\<rparr>) (jlit ''UTC'')))))
   = (js ''expected_revision'', jint 7) # automation_fields sample_automation"
proof -
  have "wf_automation sample_automation"
    by (simp add: wf_automation_def sample_automation_def line_def js_def)
  from edit_unchanged_roundtrip [OF this sample_num_reads, of "createDesktopFeatureState\<lparr>ds_editingAutomation := automation_json sample_automation\<rparr>"]
  show ?thesis by (simp add: createDesktopFeatureState_def) (simp add: sample_automation_def)
qed

text \<open>
  C32: Rebuilding a surface does not lose what was typed: in every form, after any
  sequence of edits the freshly rendered form reads back as the form that was edited
  with those edits made, and every other field is as it was.
\<close>

theorem rerender_keeps_edits:
  assumes "list_all (\<lambda>(f, t). accepts (open_controls fmt st tz) f t) es"
  shows "desktopFormValues (open_form fmt (type_all es st) tz)
    = foldl (\<lambda>vs (f, t). obj_set vs (js f) (JStr t)) (desktopFormValues (open_form fmt st tz)) es"
  using assms
proof (induction es arbitrary: st)
  case (Cons e es)
  obtain f t where e: "e = (f, t)" by force
  have "accepts (open_controls fmt st tz) f t" using Cons.prems by (simp add: e)
  from type_step [OF this] Cons show ?case by (simp add: e type_all_def)
qed (simp add: type_all_def)

theorem rerender_keeps_edits_witness:
  "desktopFormValues (open_form (\<lambda>_. [])
     (type_all [(''name'', js ''lint''), (''description'', js ''Run the linter''), (''name'', js ''lint2'')]
        (createDesktopFeatureState\<lparr>ds_form := jlit ''skill''\<rparr>)) JNull)
   = [(js ''name'', jlit ''lint2''), (js ''description'', jlit ''Run the linter''), (js ''instructions'', JStr [])]"
proof -
  let ?st = "createDesktopFeatureState\<lparr>ds_form := jlit ''skill''\<rparr>"
  let ?es = "[(''name'', js ''lint''), (''description'', js ''Run the linter''), (''name'', js ''lint2'')]"
  have cs: "open_controls (\<lambda>_. []) ?st JNull = skill_controls (\<lambda>_. [])" by (simp add: open_controls_def)
  have acc: "accepts (skill_controls fmt) ''name'' t" if "no_breaks t = t" for fmt t
    unfolding accepts_def skill_controls_def using that by (intro exI [of _ "single fmt"] exI [of _ "JStr []"]) simp
  have acc': "accepts (skill_controls fmt) ''description'' t" if "line_feeds t = t" for fmt t
    unfolding accepts_def skill_controls_def using that
    by (intro exI [of _ "area fmt"] exI [of _ "JStr []"]) (simp add: area_def nullish_def)
  have "list_all (\<lambda>(f, t). accepts (open_controls (\<lambda>_. []) ?st JNull) f t) ?es"
    unfolding cs by (simp add: acc acc' no_breaks_def js_def)
  from rerender_keeps_edits [OF this]
  show ?thesis
    by (simp add: open_form_values cs) (simp add: shown_values_def skill_controls_def formValue_def has_own_def
        createDesktopFeatureState_def area_def nullish_def)
qed

text \<open>
  The unsaved instructions of the two scopes stay apart: what is typed in one
  scope is shown again after switching to the other scope and back, the other scope
  shows what it showed before, and the drafts of other projects are unchanged.
\<close>

theorem agents_drafts_isolated:
  assumes i: "i \<noteq> []" and k: "known_scope st" and l: "scopes_loaded st" and t: "13 \<notin> set t"
    and other: "j \<noteq> scope_key i ''project''" "j \<noteq> scope_key i ''global''"
  shows "let typed = type_agents fmt (JStr i) t st; away = switch_scope fmt (JStr i) typed;
             there = switch_scope fmt (JStr i) away in
     shown_agents fmt (JStr i) typed = t
     \<and> shown_agents fmt (JStr i) away = as_string (area fmt (agents_content fmt (other_scope st) (JStr i) st))
     \<and> shown_agents fmt (JStr i) there = t
     \<and> obj_get (ds_agentsDrafts there) j = obj_get (ds_agentsDrafts st) j"
proof -
  define typed where "typed = type_agents fmt (JStr i) t st"
  define away where "away = switch_scope fmt (JStr i) typed"
  define there where "there = switch_scope fmt (JStr i) away"
  note eq = type_agents_eq [OF i, of fmt t st]
  have scope: "selected_scope True typed = selected_scope True st" "other_scope typed = other_scope st"
    by (simp_all add: typed_def eq selected_scope_def other_scope_def)
  have k': "known_scope typed" and l': "scopes_loaded typed"
    using k l by (simp_all add: typed_def eq known_scope_def scopes_loaded_def data_field_def)
  have k'': "known_scope away" by (auto simp: away_def known_scope_def switch_scope_eq [OF i k'] other_scope_def)
  have 1: "shown_agents fmt (JStr i) typed = t"
    unfolding shown_agents_eq [OF i] scope by (simp add: typed_def eq line_feeds_id [OF t])
  have 3: "shown_agents fmt (JStr i) there = t"
    unfolding there_def away_def switch_back [OF i k'] by (rule 1)
  have "agents_content fmt (other_scope st) (JStr i) typed = agents_content fmt (other_scope st) (JStr i) st"
    using other_neq [of i st]
    by (simp add: typed_def eq agents_content_def shown_draft_key_scope [OF i] data_field_def Let_def)
  then have 2: "shown_agents fmt (JStr i) away = as_string (area fmt (agents_content fmt (other_scope st) (JStr i) st))"
    unfolding away_def shown_after_switch [OF i k' l'] scope by simp
  have key: "scope_key i s \<noteq> j" "j \<noteq> scope_key i s" for s using other by (auto simp: scope_key_def)
  have keep: "obj_get (ds_agentsDrafts (switch_scope fmt (JStr i) s)) j = obj_get (ds_agentsDrafts s) j"
    if "known_scope s" for s unfolding switch_scope_eq [OF i that] using key by simp
  have "obj_get (ds_agentsDrafts there) j = obj_get (ds_agentsDrafts st) j"
    using keep [OF k''] keep [OF k', folded away_def] key by (simp add: there_def [symmetric] typed_def eq)
  with 1 2 3 show ?thesis by (simp add: Let_def typed_def away_def there_def)
qed

theorem agents_drafts_isolated_witness:
  "let st = createDesktopFeatureState\<lparr>ds_data := [(js ''agentsScopes'', JObj [(js ''global'', JObj [(js ''content'', jlit ''be brief'')]),
              (js ''project'', JObj [])])]\<rparr>;
       typed = type_agents (\<lambda>_. []) (jlit ''p1'') (js ''use tabs'') st; away = switch_scope (\<lambda>_. []) (jlit ''p1'') typed;
       there = switch_scope (\<lambda>_. []) (jlit ''p1'') away in
     shown_agents (\<lambda>_. []) (jlit ''p1'') away = js ''be brief'' \<and> shown_agents (\<lambda>_. []) (jlit ''p1'') there = js ''use tabs''"
proof -
  let ?st = "createDesktopFeatureState\<lparr>ds_data := [(js ''agentsScopes'', JObj [(js ''global'', JObj [(js ''content'', jlit ''be brief'')]),
              (js ''project'', JObj [])])]\<rparr>"
  have "known_scope ?st" "scopes_loaded ?st"
    by (simp_all add: known_scope_def scopes_loaded_def createDesktopFeatureState_def data_field_def obj_get_def dot_def)
  moreover have "13 \<notin> set (js ''use tabs'')" "js ''other'' \<noteq> scope_key (js ''p1'') ''project''"
    "js ''other'' \<noteq> scope_key (js ''p1'') ''global''" by (simp_all add: js_def scope_key_def)
  moreover have "as_string (area (\<lambda>_. []) (agents_content (\<lambda>_. []) (other_scope ?st) (jlit ''p1'') ?st)) = js ''be brief''"
    by (simp add: agents_content_def other_scope_def selected_scope_def shown_draft_key_def createDesktopFeatureState_def
        has_own_def data_field_def obj_get_def asRecord_def js_or_def Let_def line_feeds_id js_def)
  ultimately show ?thesis
    using agents_drafts_isolated [of "js ''p1''" ?st "js ''use tabs''" "js ''other''" "\<lambda>_. []"] by (simp add: Let_def)
qed

end
