(* ===== verification/Redaction.thy ===== *)
theory Redaction
  imports DesktopFeatures
begin

text \<open>
  The redaction of error messages before the panel shows them
  (\<open>normalizeDesktopError\<close> in \<open>src/frontend/src/desktop-features.js\<close>). Each regular
  expression is a matcher: given the code unit before a position and the text from
  it on, it yields the replacement and the text after the match, or nothing. None of
  the expressions needs backtracking over more than the choices written out here.
  The characters that the expressions compare ignore case as \<open>/iu\<close> does: the long s
  and the Kelvin sign count as their ASCII counterparts.
\<close>

section \<open>Matching\<close>

type_synonym matcher = "nat option \<Rightarrow> jstr \<Rightarrow> (jstr \<times> jstr) option"

text \<open>\<open>s.replace(/.../g, ...)\<close>: leftmost matches from left to right; \<open>prev\<close> is the code unit before.\<close>

function replace_all :: "matcher \<Rightarrow> nat option \<Rightarrow> jstr \<Rightarrow> jstr" where
  "replace_all m prev [] = []"
| "replace_all m prev (u # us) =
     (case m prev (u # us) of
        Some (r, rest) \<Rightarrow>
          if length rest \<le> length us
          then r @ replace_all m (Some (last (take (Suc (length us) - length rest) (u # us)))) rest
          else u # replace_all m (Some u) us
      | None \<Rightarrow> u # replace_all m (Some u) us)"
  by pat_completeness auto
termination
  by (relation "measure (\<lambda>(m, p, s). length s)") auto

definition fold_unit :: "nat \<Rightarrow> nat" where
  "fold_unit u = (if 65 \<le> u \<and> u \<le> 90 then u + 32 else if u = 0x17F then 115 else if u = 0x212A then 107 else u)"

definition strip_fold :: "string \<Rightarrow> jstr \<Rightarrow> jstr option" where
  "strip_fold lit s = (if map fold_unit (take (length lit) s) = js lit then Some (drop (length lit) s) else None)"

definition strip :: "string \<Rightarrow> jstr \<Rightarrow> jstr option" where
  "strip lit s = (if take (length lit) s = js lit then Some (drop (length lit) s) else None)"

definition is_letter_fold :: "nat \<Rightarrow> bool" where
  "is_letter_fold u \<longleftrightarrow> 97 \<le> fold_unit u \<and> fold_unit u \<le> 122"

text \<open>\<open>\w\<close> and \<open>\b\<close> under \<open>/iu\<close>.\<close>

definition is_word :: "nat \<Rightarrow> bool" where
  "is_word u \<longleftrightarrow> is_letter_fold u \<or> is_digit u \<or> u = 95"

definition at_boundary :: "nat option \<Rightarrow> jstr \<Rightarrow> bool" where
  "at_boundary prev s \<longleftrightarrow>
     (case prev of None \<Rightarrow> False | Some u \<Rightarrow> is_word u) \<noteq> (case s of [] \<Rightarrow> False | u # _ \<Rightarrow> is_word u)"

text \<open>The class \<open>[^\s<>"']\<close>.\<close>

definition unquoted :: "nat \<Rightarrow> bool" where
  "unquoted u \<longleftrightarrow> \<not> is_ws u \<and> u \<noteq> 60 \<and> u \<noteq> 62 \<and> u \<noteq> 34 \<and> u \<noteq> 39"

text \<open>\<open>P+\<close> at the start of the text.\<close>

definition run :: "(nat \<Rightarrow> bool) \<Rightarrow> jstr \<Rightarrow> jstr option" where
  "run P s = (case s of u # _ \<Rightarrow> if P u then Some (dropWhile P s) else None | [] \<Rightarrow> None)"

section \<open>The expressions\<close>

text \<open>\<open>https?:\/\/\<close>, without regard to case.\<close>

definition url_head :: "jstr \<Rightarrow> jstr option" where
  "url_head s =
     (case strip_fold ''http'' s of None \<Rightarrow> None
      | Some t \<Rightarrow> (case strip_fold ''s://'' t of Some z \<Rightarrow> Some z | None \<Rightarrow> strip_fold ''://'' t))"

definition private_address :: jstr where "private_address = js ''[private address]''"
definition private_path :: jstr where "private_path = js ''[private path]''"
definition private_credential :: jstr where "private_credential = js ''[private credential]''"
definition private_account :: jstr where "private_account = js ''[private account]''"

definition url_match :: matcher where
  "url_match prev s =
     (case url_head s of None \<Rightarrow> None
      | Some t \<Rightarrow> map_option (\<lambda>rest. (private_address, rest)) (run unquoted t))"

text \<open>\<open>(?:[A-Za-z]:\\|\\\\)\<close>.\<close>

definition drive_head :: "jstr \<Rightarrow> jstr option" where
  "drive_head s =
     (case s of
        u # v # w # t \<Rightarrow> if is_alpha u \<and> v = 58 \<and> w = 92 then Some t
          else if u = 92 \<and> v = 92 then Some (w # t) else None
      | [u, v] \<Rightarrow> if u = 92 \<and> v = 92 then Some [] else None
      | _ \<Rightarrow> None)"

definition drive_match :: matcher where
  "drive_match prev s =
     (case drive_head s of None \<Rightarrow> None
      | Some t \<Rightarrow> map_option (\<lambda>rest. (private_path, rest)) (run unquoted t))"

text \<open>\<open>\/(?:data|config|share|addon_configs|home|root|Users)\<close>.\<close>

definition PRIVATE_ROOTS :: "string list" where
  "PRIVATE_ROOTS = [''data'', ''config'', ''share'', ''addon_configs'', ''home'', ''root'', ''Users'']"

definition root_head :: "jstr \<Rightarrow> jstr option" where
  "root_head s = first_some (\<lambda>w. strip (CHR ''/'' # w) s) PRIVATE_ROOTS"

definition root_match :: matcher where
  "root_match prev s =
     (case root_head s of None \<Rightarrow> None
      | Some t \<Rightarrow> Some (private_path, (case t of u # us \<Rightarrow> if u = 47 then dropWhile unquoted us else t | [] \<Rightarrow> [])))"

text \<open>\<open>(^|[\s([{:])\/(?!\/)[^\s<>"']+\<close>.\<close>

definition after_slash :: "jstr \<Rightarrow> jstr option" where
  "after_slash s =
     (case s of u # us \<Rightarrow> if u = 47 \<and> take 1 us \<noteq> [47] then run unquoted us else None | [] \<Rightarrow> None)"

definition opens_path :: "nat \<Rightarrow> bool" where
  "opens_path u \<longleftrightarrow> is_ws u \<or> u = 40 \<or> u = 91 \<or> u = 123 \<or> u = 58"

definition absolute_match :: matcher where
  "absolute_match prev s =
     (case (if prev = None then after_slash s else None) of
        Some rest \<Rightarrow> Some (private_path, rest)
      | None \<Rightarrow> (case s of [] \<Rightarrow> None
          | u # us \<Rightarrow> if opens_path u then map_option (\<lambda>rest. (u # private_path, rest)) (after_slash us) else None))"

text \<open>\<open>\b(?:authorization\s*:\s*)?bearer\s+[A-Za-z0-9._~+/-]+=*\<close>.\<close>

definition token_char :: "nat \<Rightarrow> bool" where
  "token_char u \<longleftrightarrow> is_letter_fold u \<or> is_digit u \<or> u \<in> {46, 95, 126, 43, 47, 45}"

definition skip_authorization :: "jstr \<Rightarrow> jstr" where
  "skip_authorization s =
     (case strip_fold ''authorization'' s of None \<Rightarrow> s
      | Some t \<Rightarrow> (case dropWhile is_ws t of u # us \<Rightarrow> if u = 58 then dropWhile is_ws us else s | [] \<Rightarrow> s))"

definition bearer_match :: matcher where
  "bearer_match prev s =
     (if \<not> at_boundary prev s then None
      else case strip_fold ''bearer'' (skip_authorization s) of None \<Rightarrow> None
      | Some t \<Rightarrow> (case run is_ws t of None \<Rightarrow> None
        | Some t' \<Rightarrow> map_option (\<lambda>rest. (private_credential, dropWhile (\<lambda>u. u = 61) rest)) (run token_char t')))"

text \<open>\<open>\b(token|api[_ -]?key|password|secret)\s*[:=]\s*[^\s,;]+\<close>.\<close>

definition api_key :: "jstr \<Rightarrow> jstr option" where
  "api_key s =
     (case strip_fold ''api'' s of None \<Rightarrow> None
      | Some t \<Rightarrow> (case t of u # us \<Rightarrow> if u = 95 \<or> u = 32 \<or> u = 45 then strip_fold ''key'' us else strip_fold ''key'' t
          | [] \<Rightarrow> None))"

definition credential_name :: "jstr \<Rightarrow> jstr option" where
  "credential_name s =
     first_some (\<lambda>f. f s) [strip_fold ''token'', api_key, strip_fold ''password'', strip_fold ''secret'']"

definition credential_match :: matcher where
  "credential_match prev s =
     (if \<not> at_boundary prev s then None
      else case credential_name s of None \<Rightarrow> None
      | Some t \<Rightarrow> (case dropWhile is_ws t of [] \<Rightarrow> None
        | u # us \<Rightarrow>
            if u = 58 \<or> u = 61
            then map_option (\<lambda>rest. (take (length s - length t) s @ 61 # private_credential, rest))
              (run (\<lambda>v. \<not> is_ws v \<and> v \<noteq> 44 \<and> v \<noteq> 59) (dropWhile is_ws us))
            else None))"

text \<open>\<open>\b[A-Z0-9._%+-]+@[A-Z0-9.-]+\.[A-Z]{2,}\b\<close>: the domain ends at its last dot that starts a top-level name.\<close>

definition local_char :: "nat \<Rightarrow> bool" where
  "local_char u \<longleftrightarrow> is_letter_fold u \<or> is_digit u \<or> u \<in> {46, 95, 37, 43, 45}"

definition domain_char :: "nat \<Rightarrow> bool" where
  "domain_char u \<longleftrightarrow> is_letter_fold u \<or> is_digit u \<or> u = 46 \<or> u = 45"

definition top_level :: "jstr \<Rightarrow> jstr option" where
  "top_level s =
     (let rest = dropWhile is_letter_fold s in
      if length (takeWhile is_letter_fold s) \<ge> 2 \<and> (case rest of [] \<Rightarrow> True | u # _ \<Rightarrow> \<not> is_word u) then Some rest else None)"

fun domain_end :: "bool \<Rightarrow> jstr \<Rightarrow> jstr option" where
  "domain_end started [] = None"
| "domain_end started (u # us) =
     (if \<not> domain_char u then None
      else case domain_end True us of Some rest \<Rightarrow> Some rest
      | None \<Rightarrow> if started \<and> u = 46 then top_level us else None)"

definition email_match :: matcher where
  "email_match prev s =
     (if \<not> at_boundary prev s then None
      else case run local_char s of None \<Rightarrow> None
      | Some t \<Rightarrow> (case t of [] \<Rightarrow> None
        | u # us \<Rightarrow> if u = 64 then map_option (\<lambda>rest. (private_account, rest)) (domain_end False us) else None))"

section \<open>The redaction\<close>

definition blank_control :: "nat \<Rightarrow> bool" where
  "blank_control code \<longleftrightarrow> code \<le> 8 \<or> code = 11 \<or> code = 12 \<or> (14 \<le> code \<and> code \<le> 31) \<or> code = 127"

definition error_candidate :: "jsval \<Rightarrow> jsval" where
  "error_candidate error =
     (let r = JObj (asRecord error) in
      js_or (js_or (js_or (js_or (dot (dot r ''body'') ''message'') (dot r ''message'')) (dot r ''error'')) (dot r ''detail'')) error)"

definition redact :: "jstr \<Rightarrow> jstr" where
  "redact s =
     (let s = replace_all url_match None s; s = replace_all drive_match None s; s = replace_all root_match None s;
          s = replace_all absolute_match None s; s = replace_all bearer_match None s;
          s = replace_all credential_match None s; s = replace_all email_match None s in
      js_trim (collapse_ws s))"

definition blank_unsafe :: "jstr \<Rightarrow> jstr" where
  "blank_unsafe s = concat (map (\<lambda>c. if blank_control (codePointAt0 c) then [32] else c) (js_chars s))"

definition normalizeDesktopError :: "(rat \<Rightarrow> jstr) \<Rightarrow> jsval \<Rightarrow> jstr" where
  "normalizeDesktopError fmt error =
     (let withoutControlCharacters = blank_unsafe (js_String fmt (js_or (error_candidate error) (JStr [])));
          safe = redact withoutControlCharacters in
      take 500 (if safe = [] then js ''Unable to load this surface.'' else safe))"

section \<open>What stays hidden\<close>

definition marker :: "jstr \<Rightarrow> bool" where
  "marker b \<longleftrightarrow> b \<noteq> [] \<and> (hd b = 91 \<or> hd b = 61) \<and> last b = 93 \<and> 47 \<notin> set b \<and> 92 \<notin> set b"

text \<open>
  A match keeps a beginning \<open>k\<close> of what it matched and replaces the rest by a marker; the
  part it removes starts with an unquoted character or follows a kept one that is no slash.
\<close>

definition shaped :: "matcher \<Rightarrow> bool" where
  "shaped m \<longleftrightarrow>
     (\<forall>prev s r rest. m prev s = Some (r, rest) \<longrightarrow>
        (\<exists>k x b. s = k @ x @ rest \<and> r = k @ b \<and> x \<noteq> [] \<and> marker b
           \<and> (unquoted (hd x) \<or> (k \<noteq> [] \<and> last k \<noteq> 47 \<and> last k \<noteq> 92))))"

lemma collapse_ws_prefix:
  "collapse_ws s = w @ z \<Longrightarrow> \<forall>u\<in>set w. \<not> is_ws u \<Longrightarrow> \<exists>z'. s = w @ z' \<and> z = collapse_ws z'"
proof (induction w arbitrary: s)
  case (Cons a w)
  have sp: "is_ws 32" by (simp add: is_ws_def)
  obtain v s' where s: "s = v # s'" using Cons.prems(1) by (cases s) auto
  have "v = a" "collapse_ws s' = w @ z" using Cons.prems sp by (auto simp: s split: if_splits)
  with Cons.IH [of s'] Cons.prems(2) show ?case by (auto simp: s)
qed simp

text \<open>
  A kind of private text: a head that \<open>head\<close> strips off, followed by text that
  satisfies \<open>follow\<close>. The laws say that a head is a fixed piece of text with a slash or
  backslash in it and without white space, brackets or an equals sign.
\<close>

locale private_text =
  fixes head :: "jstr \<Rightarrow> jstr option" and follow :: "jstr \<Rightarrow> bool"
  assumes head_local: "head s = Some z \<Longrightarrow>
      \<exists>w. s = w @ z \<and> w \<noteq> [] \<and> (\<forall>y. head (w @ y) = Some y)
        \<and> (\<exists>u\<in>set w. u = 47 \<or> u = 92) \<and> (\<forall>u\<in>set w. \<not> is_ws u \<and> u \<noteq> 91 \<and> u \<noteq> 93 \<and> u \<noteq> 61)
        \<and> ((last w = 47 \<or> last w = 92) \<or> (\<forall>y. follow y))"
    and follow_local: "follow z \<longleftrightarrow> (\<forall>y. follow y) \<or> (\<exists>u us. z = u # us \<and> unquoted u)"
begin

definition bad :: "jstr \<Rightarrow> bool" where
  "bad s \<longleftrightarrow> (\<exists>z. head s = Some z \<and> follow z)"

text \<open>No position of \<open>p @ s\<close> that lies in \<open>p\<close> starts private text.\<close>

fun hidden :: "jstr \<Rightarrow> jstr \<Rightarrow> bool" where
  "hidden [] s = True"
| "hidden (u # p) s = (\<not> bad (u # p @ s) \<and> hidden p s)"

lemma hidden_append: "hidden (p @ q) s \<longleftrightarrow> hidden p (q @ s) \<and> hidden q s"
  by (induction p) auto

lemma bad_append: "bad s \<Longrightarrow> bad (s @ y)"
  unfolding bad_def using head_local follow_local by (metis append.assoc append_Cons)

lemma hidden_mono: "hidden p (s @ y) \<Longrightarrow> hidden p s"
  using bad_append by (induction p) (auto simp flip: append_assoc append_Cons)

lemma not_bad_ws: "is_ws u \<Longrightarrow> \<not> bad (u # s)"
  unfolding bad_def using head_local by (metis append_eq_Cons_conv list.set_intros(1))

lemma hidden_replace:
  assumes "hidden p (x @ rest)" "x \<noteq> []" and c: "c = 91 \<or> c = 61"
    and sep: "unquoted (hd x) \<or> p = [] \<or> (last p \<noteq> 47 \<and> last p \<noteq> 92)"
  shows "hidden p (c # y)"
  using assms(1) sep
proof (induction p)
  case (Cons u p)
  have "\<not> bad (u # p @ c # y)"
  proof
    assume "bad (u # p @ c # y)"
    then obtain z where z: "head (u # p @ c # y) = Some z" "follow z" by (auto simp: bad_def)
    from head_local [OF z(1)] obtain w where w: "u # p @ c # y = w @ z" "w \<noteq> []" "\<And>y. head (w @ y) = Some y"
      "\<forall>u\<in>set w. u \<noteq> 91 \<and> u \<noteq> 61" "(last w = 47 \<or> last w = 92) \<or> (\<forall>y. follow y)" by metis
    from w(1) consider o2 where "u # p = w @ o2" "z = o2 @ c # y" | o2 where "w = (u # p) @ o2" "o2 @ z = c # y"
      by (metis append_Cons append_eq_append_conv2)
    then obtain o2 where o2: "u # p = w @ o2" "z = o2 @ c # y"
    proof cases
      case (2 v)
      then have "v = []" using w(4) c by (cases v) auto
      with 2 that [of "[]"] show ?thesis by simp
    qed
    have "follow (o2 @ x @ rest)"
    proof (cases "\<forall>y. follow y")
      case False
      show ?thesis
      proof (cases o2)
        case Nil
        then have "last (u # p) = 47 \<or> last (u # p) = 92" using o2 w(5) False by simp
        then have "unquoted (hd x)" using Cons.prems(2) by auto
        then show ?thesis unfolding follow_local [of "o2 @ x @ rest"] using Nil assms(2) by (cases x) auto
      next
        case (Cons v vs)
        then show ?thesis using z(2) o2(2) follow_local [of z] False follow_local [of "o2 @ x @ rest"] by auto
      qed
    qed simp
    then have "bad (w @ o2 @ x @ rest)" using w(3) by (auto simp: bad_def)
    moreover have "w @ o2 @ x @ rest = u # p @ x @ rest" using o2(1) by (metis append_Cons append_assoc)
    ultimately show False using Cons.prems(1) by simp
  qed
  moreover have "hidden p (c # y)"
    using Cons by (cases p) auto
  ultimately show ?case by simp
qed simp

lemma hidden_marker: "47 \<notin> set b \<Longrightarrow> 92 \<notin> set b \<Longrightarrow> b = [] \<or> last b = 93 \<Longrightarrow> hidden b y"
proof (induction b)
  case (Cons u b)
  have "\<not> bad (u # b @ y)"
  proof
    assume "bad (u # b @ y)"
    then obtain z where "head (u # b @ y) = Some z" by (auto simp: bad_def)
    from head_local [OF this] obtain w where w: "(u # b) @ y = w @ z"
      "\<exists>u\<in>set w. u = 47 \<or> u = 92" "93 \<notin> set w" by auto
    from w(1) consider v where "u # b = w @ v" | v where "w = (u # b) @ v" by (metis append_eq_append_conv2)
    then show False
    proof cases
      case (1 v)
      then have "set w \<subseteq> set (u # b)" by (metis set_append sup_ge1)
      then show False using w(2) Cons.prems by auto
    next
      case (2 v)
      then have "last (u # b) \<in> set w" by (metis Un_iff last_in_set list.distinct(1) set_append)
      then show False using w(3) Cons.prems(3) by simp
    qed
  qed
  moreover have "hidden b y" using Cons by (cases b) auto
  ultimately show ?case by simp
qed simp

lemma hidden_step:
  assumes "hidden (p @ k) (x @ rest)" "x \<noteq> []" "marker b"
    and "unquoted (hd x) \<or> (k \<noteq> [] \<and> last k \<noteq> 47 \<and> last k \<noteq> 92)"
  shows "hidden (p @ k @ b) rest"
proof -
  obtain c b' where b: "b = c # b'" "c = 91 \<or> c = 61" using assms(3) by (cases b) (auto simp: marker_def)
  have "hidden (p @ k) (c # b' @ rest)"
    by (rule hidden_replace [OF assms(1,2) b(2)]) (use assms(4) in auto)
  moreover have "hidden b rest" using assms(3) by (intro hidden_marker) (auto simp: marker_def)
  ultimately have "hidden ((p @ k) @ b) rest" by (simp only: hidden_append b(1) append_Cons simp_thms)
  then show ?thesis by simp
qed

text \<open>A match shortens the text, so one step of the replacement is one of two cases.\<close>

lemma replace_all_cases:
  assumes "shaped m"
  obtains "m prev (u # us) = None" "replace_all m prev (u # us) = u # replace_all m (Some u) us"
  | k x b rest where "m prev (u # us) = Some (k @ b, rest)" "u # us = k @ x @ rest" "x \<noteq> []" "marker b"
      "unquoted (hd x) \<or> (k \<noteq> [] \<and> last k \<noteq> 47 \<and> last k \<noteq> 92)" "length rest \<le> length us"
      "replace_all m prev (u # us) = (k @ b) @ replace_all m (Some (last (take (Suc (length us) - length rest) (u # us)))) rest"
proof (cases "m prev (u # us)")
  case None
  then show thesis using that(1) by simp
next
  case (Some q)
  obtain r rest where q: "q = (r, rest)" by force
  with Some assms obtain k x b where kxb: "u # us = k @ x @ rest" "r = k @ b" "x \<noteq> []" "marker b"
    "unquoted (hd x) \<or> (k \<noteq> [] \<and> last k \<noteq> 47 \<and> last k \<noteq> 92)" unfolding shaped_def by blast
  have "length (u # us) = length k + length x + length rest" using kxb(1) by (metis add.assoc length_append)
  moreover have "0 < length x" using kxb(3) by simp
  ultimately have len: "length rest \<le> length us" unfolding list.size(4) by linarith
  have "replace_all m prev (u # us)
      = (k @ b) @ replace_all m (Some (last (take (Suc (length us) - length rest) (u # us)))) rest"
    using Some q kxb(2) len by simp
  moreover have "m prev (u # us) = Some (k @ b, rest)" using Some q kxb(2) by simp
  ultimately show thesis using that(2) kxb len by blast
qed

lemma replace_all_preserves:
  assumes "shaped m" and "hidden (p @ s) []"
  shows "hidden (p @ replace_all m prev s) []"
  using assms(2)
proof (induction s arbitrary: p prev rule: length_induct)
  case (1 s)
  show ?case
  proof (cases s)
    case (Cons u us)
    from assms(1) show ?thesis
    proof (cases rule: replace_all_cases [of m prev u us])
      case 1
      have "hidden ((p @ [u]) @ replace_all m (Some u) us) []"
        using "1.IH" [rule_format, of us "p @ [u]"] "1.prems" Cons by simp
      with 1 Cons show ?thesis by simp
    next
      case (2 k x b rest)
      have "hidden (p @ k) (x @ rest) \<and> hidden rest []"
        using "1.prems" Cons 2(2) by (auto simp: hidden_append)
      then have "hidden ((p @ k @ b) @ rest) []"
        using hidden_step [OF _ 2(3,4,5)] by (auto simp: hidden_append)
      then have "hidden ((p @ k @ b) @ replace_all m prev' rest) []" for prev'
        using "1.IH" [rule_format, of rest "p @ k @ b"] Cons 2(6) by simp
      with 2(7) Cons show ?thesis by simp
    qed
  qed (use "1.prems" in simp)
qed

lemma replace_all_establishes:
  assumes "shaped m" and none: "\<And>prev s. m prev s = None \<Longrightarrow> \<not> bad s"
    and whole: "\<And>prev s k x b rest. m prev s = Some (k @ b, rest) \<Longrightarrow> s = k @ x @ rest \<Longrightarrow> marker b \<Longrightarrow> k = []"
    and "hidden p s"
  shows "hidden (p @ replace_all m prev s) []"
  using assms(4)
proof (induction s arbitrary: p prev rule: length_induct)
  case (1 s)
  show ?case
  proof (cases s)
    case (Cons u us)
    from assms(1) show ?thesis
    proof (cases rule: replace_all_cases [of m prev u us])
      case 1
      have "hidden (p @ [u]) us" using "1.prems" Cons none [OF 1(1)] by (simp add: hidden_append)
      then have "hidden ((p @ [u]) @ replace_all m (Some u) us) []"
        using "1.IH" [rule_format, of us "p @ [u]"] Cons by simp
      with 1 Cons show ?thesis by simp
    next
      case (2 k x b rest)
      have k: "k = []" by (rule whole [OF 2(1,2,4)])
      have "hidden (p @ k @ b) rest"
        by (rule hidden_step [OF _ 2(3,4,5)]) (use "1.prems" Cons 2(2) k in simp)
      then have "hidden ((p @ k @ b) @ replace_all m prev' rest) []" for prev'
        using "1.IH" [rule_format, of rest "p @ k @ b"] Cons 2(6) by simp
      with 2(7) Cons show ?thesis by simp
    qed
  qed (use "1.prems" in simp)
qed

lemma bad_collapse: "bad (collapse_ws s) \<Longrightarrow> bad s"
proof -
  assume "bad (collapse_ws s)"
  then obtain z where z: "head (collapse_ws s) = Some z" "follow z" by (auto simp: bad_def)
  from head_local [OF z(1)] obtain w where w: "collapse_ws s = w @ z" "\<And>y. head (w @ y) = Some y"
    "\<forall>u\<in>set w. \<not> is_ws u" by metis
  from collapse_ws_prefix [OF w(1,3)] obtain z' where z': "s = w @ z'" "z = collapse_ws z'" by blast
  have "follow z'"
  proof (cases "\<forall>y. follow y")
    case False
    then obtain u us where "collapse_ws z' = [u] @ us" "unquoted u" using z(2) z'(2) follow_local [of z] by auto
    then have "\<exists>us'. z' = u # us'" using collapse_ws_prefix [of z' "[u]" us] by (auto simp: unquoted_def)
    then show ?thesis using \<open>unquoted u\<close> follow_local [of z'] by blast
  qed simp
  then show ?thesis using w(2) z'(1) by (auto simp: bad_def)
qed

lemma hidden_collapse: "hidden s [] \<Longrightarrow> hidden (collapse_ws s) []"
proof (induction s rule: collapse_ws.induct)
  case (2 u us)
  show ?case
  proof (cases "is_ws u")
    case True
    have "hidden (dropWhile is_ws us) []"
      using 2(3) by (metis append_Nil2 hidden.simps(2) hidden_append takeWhile_dropWhile_id)
    then show ?thesis using True 2(1) not_bad_ws [of 32] by (simp add: is_ws_def)
  next
    case False
    then have "\<not> bad (u # collapse_ws us)" using bad_collapse [of "u # us"] 2(3) by auto
    then show ?thesis using False 2(2,3) by simp
  qed
qed simp

lemma hidden_all: "hidden s [] \<Longrightarrow> s = x @ t \<Longrightarrow> t \<noteq> [] \<Longrightarrow> \<not> bad t"
  by (cases t) (auto simp: hidden_append)

lemma hidden_plain: "47 \<notin> set s \<Longrightarrow> 92 \<notin> set s \<Longrightarrow> hidden s []"
proof (induction s)
  case (Cons u s)
  have "\<not> bad (u # s)"
  proof
    assume "bad (u # s)"
    then obtain z w where "u # s = w @ z" "\<exists>u\<in>set w. u = 47 \<or> u = 92" using head_local by (metis bad_def)
    then show False using Cons.prems by (metis Un_iff set_append)
  qed
  then show ?case using Cons by simp
qed simp

lemma hidden_take: "hidden s [] \<Longrightarrow> hidden (take n s) []"
  by (metis append_take_drop_id hidden_append hidden_mono append_Nil)

lemma hidden_drop: "hidden s [] \<Longrightarrow> hidden (drop n s) []"
  by (metis append_take_drop_id hidden_append)

lemma hidden_trim: "hidden s [] \<Longrightarrow> hidden (js_trim s) []"
proof -
  assume s: "hidden s []"
  have "js_trim s = take (length (js_trim s)) (dropWhile is_ws s)"
    unfolding js_trim_def
    by (metis (no_types) append_eq_conv_conj rev_append rev_rev_ident takeWhile_dropWhile_id length_rev)
  moreover have "hidden (dropWhile is_ws s) []" using s by (metis hidden_drop dropWhile_eq_drop)
  ultimately show ?thesis using hidden_take by metis
qed

end

section \<open>The three kinds\<close>

definition unquoted_next :: "jstr \<Rightarrow> bool" where
  "unquoted_next z = (case z of [] \<Rightarrow> False | u # _ \<Rightarrow> unquoted u)"

lemma unquoted_next_law: "unquoted_next z \<longleftrightarrow> (\<forall>y. unquoted_next y) \<or> (\<exists>u us. z = u # us \<and> unquoted u)"
proof -
  have n: "\<not> unquoted_next []" "\<And>u us. unquoted_next (u # us) = unquoted u" by (simp_all add: unquoted_next_def)
  show ?thesis
  proof (cases z)
    case (Cons u us)
    then show ?thesis using n(2) by auto
  qed (use n(1) in auto)
qed

lemma strip_fold_Some: "strip_fold lit s = Some z \<longleftrightarrow> (\<exists>w. s = w @ z \<and> map fold_unit w = js lit)"
proof
  assume "strip_fold lit s = Some z"
  then have "map fold_unit (take (length lit) s) = js lit" "z = drop (length lit) s"
    by (auto simp: strip_fold_def split: if_splits)
  then show "\<exists>w. s = w @ z \<and> map fold_unit w = js lit" by (metis append_take_drop_id)
next
  assume "\<exists>w. s = w @ z \<and> map fold_unit w = js lit"
  then obtain w where w: "s = w @ z" "map fold_unit w = js lit" by blast
  then have "length w = length lit" by (metis length_js length_map)
  then show "strip_fold lit s = Some z" using w by (simp add: strip_fold_def)
qed

lemma strip_Some: "strip lit s = Some z \<longleftrightarrow> s = js lit @ z"
proof
  assume "strip lit s = Some z"
  then have "take (length lit) s = js lit" "z = drop (length lit) s" by (auto simp: strip_def split: if_splits)
  then show "s = js lit @ z" by (metis append_take_drop_id)
qed (simp add: strip_def)

lemma fold_unit_low: "fold_unit u = c \<Longrightarrow> c < 65 \<or> (90 < c \<and> c < 97) \<Longrightarrow> u = c"
  by (auto simp: fold_unit_def split: if_splits)

lemma fold_unit_ws: "is_ws u \<Longrightarrow> fold_unit u = u"
  by (auto simp: fold_unit_def is_ws_def)

lemma folded_plain:
  assumes "map fold_unit w = js lit" "\<forall>c\<in>set (js lit). \<not> is_ws c \<and> c \<noteq> 91 \<and> c \<noteq> 93 \<and> c \<noteq> 61"
  shows "\<forall>u\<in>set w. \<not> is_ws u \<and> u \<noteq> 91 \<and> u \<noteq> 93 \<and> u \<noteq> 61"
proof
  fix u assume "u \<in> set w"
  then have "fold_unit u \<in> set (js lit)" using assms(1) by (metis image_eqI list.set_map)
  then have "\<not> is_ws (fold_unit u) \<and> fold_unit u \<noteq> 91 \<and> fold_unit u \<noteq> 93 \<and> fold_unit u \<noteq> 61" using assms(2) by blast
  then show "\<not> is_ws u \<and> u \<noteq> 91 \<and> u \<noteq> 93 \<and> u \<noteq> 61" using fold_unit_ws by (auto simp: fold_unit_def)
qed

lemma url_head_Some:
  "url_head s = Some z \<longleftrightarrow> (\<exists>w. s = w @ z \<and> (map fold_unit w = js ''https://'' \<or> map fold_unit w = js ''http://''))"
proof
  assume "url_head s = Some z"
  then obtain t where t: "strip_fold ''http'' s = Some t" "strip_fold ''s://'' t = Some z \<or> strip_fold ''://'' t = Some z"
    by (auto simp: url_head_def split: option.splits)
  then obtain w w' where "s = w @ w' @ z" "map fold_unit w = js ''http''" "map fold_unit w' = js ''s://'' \<or> map fold_unit w' = js ''://''"
    unfolding strip_fold_Some by auto
  then show "\<exists>w. s = w @ z \<and> (map fold_unit w = js ''https://'' \<or> map fold_unit w = js ''http://'')"
    by (intro exI [of _ "w @ w'"]) (auto simp: js_def)
next
  assume "\<exists>w. s = w @ z \<and> (map fold_unit w = js ''https://'' \<or> map fold_unit w = js ''http://'')"
  then obtain w where w: "s = w @ z" "map fold_unit w = js ''https://'' \<or> map fold_unit w = js ''http://''" by blast
  let ?a = "take 4 w" and ?b = "drop 4 w"
  have a: "map fold_unit ?a = js ''http''" and b: "map fold_unit ?b = js ''s://'' \<or> map fold_unit ?b = js ''://''"
    using w(2) by (auto simp: take_map [symmetric] drop_map [symmetric] js_def)
  have h: "strip_fold ''http'' s = Some (?b @ z)"
    unfolding strip_fold_Some using a w(1) by (metis append.assoc append_take_drop_id)
  show "url_head s = Some z"
  proof (cases "map fold_unit ?b = js ''s://''")
    case True
    then have "strip_fold ''s://'' (?b @ z) = Some z" unfolding strip_fold_Some by blast
    then show ?thesis by (simp add: url_head_def h)
  next
    case False
    then have c: "map fold_unit ?b = js ''://''" using b by simp
    then have "strip_fold ''://'' (?b @ z) = Some z" unfolding strip_fold_Some by blast
    moreover have "strip_fold ''s://'' (?b @ z) = None"
      using c by (cases ?b) (auto simp: strip_fold_def js_def)
    ultimately show ?thesis by (simp add: url_head_def h)
  qed
qed

interpretation url: private_text url_head unquoted_next
proof
  fix s z assume "url_head s = Some z"
  then obtain w where w: "s = w @ z" "map fold_unit w = js ''https://'' \<or> map fold_unit w = js ''http://''"
    unfolding url_head_Some by blast
  have "\<forall>y. url_head (w @ y) = Some y" using w(2) url_head_Some by blast
  moreover have ne: "w \<noteq> []" using w(2) by (auto simp: js_def)
  moreover have "last w = 47"
  proof (rule fold_unit_low)
    show "fold_unit (last w) = 47" using w(2) last_map [OF ne, of fold_unit] by (auto simp: js_def)
  qed simp
  moreover have "\<forall>u\<in>set w. \<not> is_ws u \<and> u \<noteq> 91 \<and> u \<noteq> 93 \<and> u \<noteq> 61"
    using w(2) by (elim disjE folded_plain) (auto simp: js_def is_ws_def)
  ultimately show "\<exists>w. s = w @ z \<and> w \<noteq> [] \<and> (\<forall>y. url_head (w @ y) = Some y) \<and> (\<exists>u\<in>set w. u = 47 \<or> u = 92)
      \<and> (\<forall>u\<in>set w. \<not> is_ws u \<and> u \<noteq> 91 \<and> u \<noteq> 93 \<and> u \<noteq> 61) \<and> ((last w = 47 \<or> last w = 92) \<or> (\<forall>y. unquoted_next y))"
    using w(1) last_in_set by blast
next
qed (rule unquoted_next_law)

lemma drive_head_Some:
  "drive_head s = Some z \<longleftrightarrow> (\<exists>u. is_alpha u \<and> s = [u, 58, 92] @ z) \<or> s = [92, 92] @ z"
  by (auto simp: drive_head_def is_alpha_def split: list.splits if_splits)

interpretation drive: private_text drive_head unquoted_next
proof
  fix s z assume "drive_head s = Some z"
  then obtain w where w: "s = w @ z" "(\<exists>u. is_alpha u \<and> w = [u, 58, 92]) \<or> w = [92, 92]"
    unfolding drive_head_Some by auto
  then have "\<forall>y. drive_head (w @ y) = Some y" unfolding drive_head_Some by auto
  moreover have "\<forall>u\<in>set w. \<not> is_ws u \<and> u \<noteq> 91 \<and> u \<noteq> 93 \<and> u \<noteq> 61" using w(2) by (auto simp: is_alpha_def is_ws_def)
  ultimately show "\<exists>w. s = w @ z \<and> w \<noteq> [] \<and> (\<forall>y. drive_head (w @ y) = Some y) \<and> (\<exists>u\<in>set w. u = 47 \<or> u = 92)
      \<and> (\<forall>u\<in>set w. \<not> is_ws u \<and> u \<noteq> 91 \<and> u \<noteq> 93 \<and> u \<noteq> 61) \<and> ((last w = 47 \<or> last w = 92) \<or> (\<forall>y. unquoted_next y))"
    using w by (intro exI [of _ w]) auto
qed (rule unquoted_next_law)

lemma root_head_Some: "root_head s = Some z \<longleftrightarrow> (\<exists>w\<in>set PRIVATE_ROOTS. s = js (CHR ''/'' # w) @ z)"
proof
  assume "root_head s = Some z"
  then show "\<exists>w\<in>set PRIVATE_ROOTS. s = js (CHR ''/'' # w) @ z"
    unfolding root_head_def PRIVATE_ROOTS_def
    by (auto simp: strip_Some split: option.splits)
next
  assume "\<exists>w\<in>set PRIVATE_ROOTS. s = js (CHR ''/'' # w) @ z"
  then show "root_head s = Some z"
    unfolding PRIVATE_ROOTS_def root_head_def
    by (auto simp: strip_def js_def)
qed

interpretation root: private_text root_head "\<lambda>_. True"
proof
  fix s z assume "root_head s = Some z"
  then obtain r where r: "r \<in> set PRIVATE_ROOTS" "s = js (CHR ''/'' # r) @ z" unfolding root_head_Some by blast
  have "\<forall>y. root_head (js (CHR ''/'' # r) @ y) = Some y" using r(1) root_head_Some by blast
  moreover have "\<forall>u\<in>set (js (CHR ''/'' # r)). \<not> is_ws u \<and> u \<noteq> 91 \<and> u \<noteq> 93 \<and> u \<noteq> 61"
    using r(1) by (auto simp: PRIVATE_ROOTS_def js_def is_ws_def)
  moreover have "47 \<in> set (js (CHR ''/'' # r))" by (simp add: js_def)
  ultimately show "\<exists>w. s = w @ z \<and> w \<noteq> [] \<and> (\<forall>y. root_head (w @ y) = Some y) \<and> (\<exists>u\<in>set w. u = 47 \<or> u = 92)
      \<and> (\<forall>u\<in>set w. \<not> is_ws u \<and> u \<noteq> 91 \<and> u \<noteq> 93 \<and> u \<noteq> 61) \<and> ((last w = 47 \<or> last w = 92) \<or> (\<forall>y. True))"
    using r(2) by (intro exI [of _ "js (CHR ''/'' # r)"]) auto
qed simp

subsection \<open>The matchers keep the shape\<close>

lemma run_Some: "run P s = Some rest \<Longrightarrow> \<exists>x. s = x @ rest \<and> x \<noteq> [] \<and> P (hd x)"
proof -
  assume r: "run P s = Some rest"
  then obtain u us where s: "s = u # us" "P u" "rest = dropWhile P us"
    by (auto simp: run_def split: list.splits if_splits)
  then have "s = (u # takeWhile P us) @ rest" by simp
  with s(2) show ?thesis by (metis list.distinct(1) list.sel(1))
qed

lemma markers: "marker private_address" "marker private_path" "marker private_credential" "marker private_account"
  "marker (61 # private_credential)"
  by (simp_all add: marker_def private_address_def private_path_def private_credential_def private_account_def js_def)

lemma shapedI:
  assumes "\<And>prev s r rest. m prev s = Some (r, rest) \<Longrightarrow>
    \<exists>k x b. s = k @ x @ rest \<and> r = k @ b \<and> x \<noteq> [] \<and> marker b \<and> (unquoted (hd x) \<or> (k \<noteq> [] \<and> last k \<noteq> 47 \<and> last k \<noteq> 92))"
  shows "shaped m"
  using assms unfolding shaped_def by blast

lemma shaped_whole:
  assumes "\<And>prev s r rest. m prev s = Some (r, rest) \<Longrightarrow> strict_suffix rest s \<and> marker r \<and> unquoted (hd s)"
  shows "shaped m"
proof (rule shapedI)
  fix prev s r rest assume "m prev s = Some (r, rest)"
  from assms [OF this] obtain x where "s = x @ rest" "x \<noteq> []" "marker r" "unquoted (hd x)"
    by (metis append_Nil hd_append2 strict_suffix_def suffix_def)
  then show "\<exists>k x b. s = k @ x @ rest \<and> r = k @ b \<and> x \<noteq> [] \<and> marker b \<and> (unquoted (hd x) \<or> (k \<noteq> [] \<and> last k \<noteq> 47 \<and> last k \<noteq> 92))"
    by (metis append_Nil)
qed

lemma strict_suffix_app: "x \<noteq> [] \<Longrightarrow> strict_suffix z (x @ z)"
  by (simp add: strict_suffix_def suffix_def)

lemma run_suffix: "run P s = Some rest \<Longrightarrow> strict_suffix rest s \<and> P (hd s)"
  using run_Some [of P s rest] by (auto simp: strict_suffix_app hd_append)

lemma fold_letter_unquoted: "is_letter_fold u \<Longrightarrow> unquoted u \<and> u \<noteq> 47 \<and> u \<noteq> 92"
  by (auto simp: is_letter_fold_def fold_unit_def unquoted_def is_ws_def split: if_splits)

lemma strip_fold_suffix:
  assumes "strip_fold lit s = Some z" "lit \<noteq> []"
  shows "strict_suffix z s" "fold_unit (hd s) = of_char (hd lit)"
proof -
  obtain w where w: "s = w @ z" "map fold_unit w = js lit" using assms(1) strip_fold_Some by blast
  then have ne: "w \<noteq> []" using assms(2) by auto
  show "strict_suffix z s" using w(1) ne by (simp add: strict_suffix_app)
  show "fold_unit (hd s) = of_char (hd lit)"
    using w ne assms(2) by (metis hd_append2 hd_map js_def)
qed

lemma hd_fold_letter: "fold_unit (hd s) = c \<Longrightarrow> 97 \<le> c \<and> c \<le> 122 \<Longrightarrow> unquoted (hd s)"
  using fold_letter_unquoted [of "hd s"] by (simp add: is_letter_fold_def)

lemma shaped_url: "shaped url_match"
proof (rule shaped_whole)
  fix prev s r rest assume "url_match prev s = Some (r, rest)"
  then obtain z where z: "url_head s = Some z" "run unquoted z = Some rest" "r = private_address"
    by (auto simp: url_match_def split: option.splits)
  then obtain t where "strip_fold ''http'' s = Some t" by (auto simp: url_head_def split: option.splits)
  then have "unquoted (hd s)" using strip_fold_suffix(2) [of "''http''" s t] hd_fold_letter [of s 104] by simp
  moreover have "suffix z s" using z(1) unfolding url_head_Some by (auto simp: suffix_def)
  ultimately show "strict_suffix rest s \<and> marker r \<and> unquoted (hd s)"
    using run_suffix [OF z(2)] z(3) markers by (metis suffix_order.less_le_trans)
qed

lemma shaped_drive: "shaped drive_match"
proof (rule shaped_whole)
  fix prev s r rest assume "drive_match prev s = Some (r, rest)"
  then obtain z where z: "drive_head s = Some z" "run unquoted z = Some rest" "r = private_path"
    by (auto simp: drive_match_def split: option.splits)
  then have "unquoted (hd s) \<and> suffix z s"
    unfolding drive_head_Some by (auto simp: unquoted_def is_alpha_def is_ws_def suffix_def)
  then show "strict_suffix rest s \<and> marker r \<and> unquoted (hd s)"
    using run_suffix [OF z(2)] z(3) markers by (metis suffix_order.less_le_trans)
qed

lemma shaped_root: "shaped root_match"
proof (rule shaped_whole)
  fix prev s r rest assume "root_match prev s = Some (r, rest)"
  then obtain z where z: "root_head s = Some z" "r = private_path"
    "rest = (case z of u # us \<Rightarrow> if u = 47 then dropWhile unquoted us else z | [] \<Rightarrow> [])"
    by (auto simp: root_match_def split: option.splits)
  have "suffix rest z" using z(3)
    by (auto simp: suffix_dropWhile intro: suffix_ConsI split: list.splits)
  moreover have "unquoted (hd s) \<and> strict_suffix z s"
    using z(1) unfolding root_head_Some by (auto simp: js_def unquoted_def is_ws_def strict_suffix_def suffix_def)
  ultimately show "strict_suffix rest s \<and> marker r \<and> unquoted (hd s)"
    using z(2) markers by (metis suffix_order.le_less_trans)
qed

lemma after_slash_Some: "after_slash s = Some rest \<Longrightarrow> strict_suffix rest s \<and> unquoted (hd s)"
proof -
  assume "after_slash s = Some rest"
  then obtain us where s: "s = 47 # us" "run unquoted us = Some rest" by (auto simp: after_slash_def split: list.splits if_splits)
  have "strict_suffix rest s" using run_suffix [OF s(2)] s(1) strict_suffix_app [of "[47]" us]
    by (metis append_Cons append_Nil list.distinct(1) suffix_order.less_trans)
  then show ?thesis by (simp add: s(1) unquoted_def is_ws_def)
qed

lemma shaped_absolute: "shaped absolute_match"
proof (rule shapedI)
  fix prev s r rest assume m: "absolute_match prev s = Some (r, rest)"
  show "\<exists>k x b. s = k @ x @ rest \<and> r = k @ b \<and> x \<noteq> [] \<and> marker b \<and> (unquoted (hd x) \<or> (k \<noteq> [] \<and> last k \<noteq> 47 \<and> last k \<noteq> 92))"
  proof -
    have "\<exists>k t. s = k @ t \<and> r = k @ private_path \<and> after_slash t = Some rest"
      using m unfolding absolute_match_def
      by (auto split: option.splits if_splits list.splits intro: exI [of _ "[]"])
    then obtain k t where t: "s = k @ t" "r = k @ private_path" "after_slash t = Some rest" by blast
    from after_slash_Some [OF t(3)] obtain x where "t = x @ rest" "x \<noteq> []" "unquoted (hd x)"
      by (metis append_Nil hd_append2 strict_suffix_def suffix_def)
    then show ?thesis using t markers by blast
  qed
qed

lemma skip_authorization_suffix:
  "suffix (skip_authorization s) s \<and> (skip_authorization s = s \<or> fold_unit (hd s) = 97)"
proof (cases "strip_fold ''authorization'' s")
  case (Some t)
  have "suffix t s" "fold_unit (hd s) = 97"
    using strip_fold_suffix [OF Some] by (simp_all add: suffix_order.less_imp_le)
  moreover have "suffix (dropWhile is_ws us) s" if "dropWhile is_ws t = u # us" for u us
    using that \<open>suffix t s\<close> by (metis suffix_dropWhile suffix_ConsD suffix_order.trans)
  ultimately show ?thesis by (auto simp: skip_authorization_def Some split: list.splits)
qed (simp add: skip_authorization_def)

lemma shaped_bearer: "shaped bearer_match"
proof (rule shaped_whole)
  fix prev s r rest assume "bearer_match prev s = Some (r, rest)"
  then obtain t t' t'' where t: "strip_fold ''bearer'' (skip_authorization s) = Some t" "run is_ws t = Some t'"
    "run token_char t' = Some t''" "rest = dropWhile (\<lambda>u. u = 61) t''" "r = private_credential"
    by (auto simp: bearer_match_def split: option.splits if_splits)
  note sk = skip_authorization_suffix [of s]
  have "fold_unit (hd s) = 97 \<or> fold_unit (hd s) = 98"
    using sk strip_fold_suffix(2) [OF t(1)] by auto
  then have "unquoted (hd s)" using hd_fold_letter [of s] by auto
  have "suffix rest t''" by (simp add: t(4) suffix_dropWhile)
  moreover have "strict_suffix t'' t'" "strict_suffix t' t" "strict_suffix t (skip_authorization s)"
    using run_suffix [OF t(3)] run_suffix [OF t(2)] strip_fold_suffix(1) [OF t(1)] by simp_all
  then have "strict_suffix t'' (skip_authorization s)" by (blast intro: suffix_order.less_trans)
  ultimately have "strict_suffix rest s" using sk by (blast intro: suffix_order.le_less_trans suffix_order.less_le_trans)
  with \<open>unquoted (hd s)\<close> show "strict_suffix rest s \<and> marker r \<and> unquoted (hd s)" using t(5) markers by simp
qed

lemma strip_fold_last:
  assumes "strip_fold lit s = Some t" "lit \<noteq> []" "is_letter_fold (of_char (last lit))" "of_char (last lit) \<ge> (97::nat)"
  shows "\<exists>k. s = k @ t \<and> k \<noteq> [] \<and> is_letter_fold (last k)"
proof -
  obtain w where w: "s = w @ t" "map fold_unit w = js lit" using assms(1) strip_fold_Some by blast
  have ne: "w \<noteq> []" using w(2) assms(2) by auto
  have "fold_unit (last w) = of_char (last lit)" using w(2) ne assms(2) by (metis js_def last_map)
  then have "is_letter_fold (last w)" using assms(3,4) by (auto simp: is_letter_fold_def fold_unit_def split: if_splits)
  then show ?thesis using w(1) ne by blast
qed

lemma credential_name_Some:
  assumes "credential_name s = Some t"
  shows "\<exists>k. s = k @ t \<and> k \<noteq> [] \<and> is_letter_fold (last k)"
proof -
  have lit: "is_letter_fold (of_char (last ''token''))" "is_letter_fold (of_char (last ''key''))"
    "is_letter_fold (of_char (last ''password''))" "is_letter_fold (of_char (last ''secret''))"
    by (simp_all add: is_letter_fold_def fold_unit_def)
  have key: "\<exists>k. s = k @ t \<and> k \<noteq> [] \<and> is_letter_fold (last k)" if "suffix s' s" "strip_fold ''key'' s' = Some t" for s'
    using strip_fold_last [OF that(2) _ lit(2)] that(1) by (auto simp: suffix_def)
  have suf: "suffix t' s" if "strip_fold ''api'' s = Some t'" for t'
    using strip_fold_suffix(1) [OF that] by (simp add: suffix_order.less_imp_le)
  from assms consider "strip_fold ''token'' s = Some t" | "api_key s = Some t" | "strip_fold ''password'' s = Some t"
    | "strip_fold ''secret'' s = Some t"
    by (auto simp: credential_name_def split: option.splits)
  then show ?thesis
  proof cases
    case 2
    then obtain s' where "suffix s' s" "strip_fold ''key'' s' = Some t"
      unfolding api_key_def using suf by (auto split: option.splits list.splits if_splits dest: suffix_ConsD)
    then show ?thesis by (rule key)
  qed (use lit in \<open>auto dest!: strip_fold_last\<close>)
qed

lemma shaped_credential: "shaped credential_match"
proof (rule shapedI)
  fix prev s r rest assume "credential_match prev s = Some (r, rest)"
  then obtain t u us where t: "credential_name s = Some t" "dropWhile is_ws t = u # us"
    "run (\<lambda>v. \<not> is_ws v \<and> v \<noteq> 44 \<and> v \<noteq> 59) (dropWhile is_ws us) = Some rest"
    "r = take (length s - length t) s @ 61 # private_credential"
    by (auto simp: credential_match_def split: option.splits if_splits list.splits)
  obtain k where k: "s = k @ t" "k \<noteq> []" "is_letter_fold (last k)" using credential_name_Some [OF t(1)] by blast
  have "strict_suffix rest t"
    using run_suffix [OF t(3)] t(2)
    by (metis suffix_ConsD suffix_dropWhile suffix_order.less_le_trans suffix_order.trans)
  then obtain x where "t = x @ rest" "x \<noteq> []" by (auto simp: strict_suffix_def suffix_def)
  moreover have "r = k @ 61 # private_credential" using t(4) k(1) by simp
  ultimately show "\<exists>k x b. s = k @ x @ rest \<and> r = k @ b \<and> x \<noteq> [] \<and> marker b \<and> (unquoted (hd x) \<or> (k \<noteq> [] \<and> last k \<noteq> 47 \<and> last k \<noteq> 92))"
    using k markers(5) fold_letter_unquoted [OF k(3)] by blast
qed

lemma domain_end_suffix: "domain_end b s = Some rest \<Longrightarrow> suffix rest s"
proof (induction b s rule: domain_end.induct)
  case (2 b u us)
  have "suffix (dropWhile is_letter_fold us) us" by (rule suffix_dropWhile)
  then show ?case using 2
    by (auto simp: top_level_def Let_def intro: suffix_ConsI split: if_splits option.splits)
qed simp

lemma shaped_email: "shaped email_match"
proof (rule shaped_whole)
  fix prev s r rest assume "email_match prev s = Some (r, rest)"
  then obtain us where t: "run local_char s = Some (64 # us)" "domain_end False us = Some rest" "r = private_account"
    by (auto simp: email_match_def split: option.splits if_splits list.splits)
  have "unquoted (hd s)" using run_suffix [OF t(1)] fold_letter_unquoted
    by (auto simp: local_char_def unquoted_def is_ws_def is_digit_def)
  moreover have "strict_suffix rest s"
    using run_suffix [OF t(1)] domain_end_suffix [OF t(2)]
    by (metis suffix_ConsI suffix_order.le_less_trans)
  ultimately show "strict_suffix rest s \<and> marker r \<and> unquoted (hd s)" using t(3) markers by simp
qed

lemmas shapes = shaped_url shaped_drive shaped_root shaped_absolute shaped_bearer shaped_credential shaped_email

section \<open>The pipeline\<close>

lemma marker_whole:
  assumes "marker b" "k @ b = 91 # r" "91 \<notin> set r" "61 \<notin> set r"
  shows "k = []"
proof (rule ccontr)
  assume "k \<noteq> []"
  then obtain k' where "r = k' @ b" using assms(2) by (cases k) auto
  then show False using assms(1,3,4) by (cases b) (auto simp: marker_def)
qed

lemma private_texts:
  "\<exists>r. private_address = 91 # r \<and> 91 \<notin> set r \<and> 61 \<notin> set r" "\<exists>r. private_path = 91 # r \<and> 91 \<notin> set r \<and> 61 \<notin> set r"
  by (simp_all add: private_address_def private_path_def js_def)

lemma url_hidden: "url.hidden (replace_all url_match None s) []"
proof -
  have "url.hidden ([] @ replace_all url_match None s) []"
  proof (rule url.replace_all_establishes [OF shaped_url])
    fix prev s assume "url_match prev s = None"
    then show "\<not> url.bad s"
      by (auto simp: url.bad_def url_match_def unquoted_next_def run_def split: option.splits list.splits if_splits)
  next
    fix prev s k x b rest assume "url_match prev s = Some (k @ b, rest)" "marker b"
    moreover from this have "k @ b = private_address" by (auto simp: url_match_def split: option.splits)
    ultimately show "k = []" using marker_whole private_texts(1) by metis
  qed simp
  then show ?thesis by simp
qed

lemma drive_hidden: "drive.hidden (replace_all drive_match None s) []"
proof -
  have "drive.hidden ([] @ replace_all drive_match None s) []"
  proof (rule drive.replace_all_establishes [OF shaped_drive])
    fix prev s assume "drive_match prev s = None"
    then show "\<not> drive.bad s"
      by (auto simp: drive.bad_def drive_match_def unquoted_next_def run_def split: option.splits list.splits if_splits)
  next
    fix prev s k x b rest assume "drive_match prev s = Some (k @ b, rest)" "marker b"
    moreover from this have "k @ b = private_path" by (auto simp: drive_match_def split: option.splits)
    ultimately show "k = []" using marker_whole private_texts(2) by metis
  qed simp
  then show ?thesis by simp
qed

lemma root_hidden: "root.hidden (replace_all root_match None s) []"
proof -
  have "root.hidden ([] @ replace_all root_match None s) []"
  proof (rule root.replace_all_establishes [OF shaped_root])
    fix prev s assume "root_match prev s = None"
    then show "\<not> root.bad s"
      by (auto simp: root.bad_def root_match_def split: option.splits)
  next
    fix prev s k x b rest assume "root_match prev s = Some (k @ b, rest)" "marker b"
    moreover from this have "k @ b = private_path" by (auto simp: root_match_def split: option.splits)
    ultimately show "k = []" using marker_whole private_texts(2) by metis
  qed simp
  then show ?thesis by simp
qed

lemmas url_keeps = shapes [THEN url.replace_all_preserves [of _ "[]", simplified]]
lemmas drive_keeps = shapes [THEN drive.replace_all_preserves [of _ "[]", simplified]]
lemmas root_keeps = shapes [THEN root.replace_all_preserves [of _ "[]", simplified]]

lemma redact_hides: "url.hidden (redact s) [] \<and> drive.hidden (redact s) [] \<and> root.hidden (redact s) []"
  unfolding redact_def Let_def
  by (intro conjI url.hidden_trim url.hidden_collapse drive.hidden_trim drive.hidden_collapse root.hidden_trim
      root.hidden_collapse url_keeps(2-7) url_hidden drive_keeps(3-7) drive_hidden root_keeps(4-7) root_hidden)

text \<open>What a message must not contain, independently of the expressions.\<close>

definition shows_url :: "jstr \<Rightarrow> bool" where
  "shows_url s \<longleftrightarrow> (\<exists>x w c y. s = x @ w @ c # y \<and> map fold_unit w \<in> {js ''http://'', js ''https://''} \<and> unquoted c)"

definition shows_windows_path :: "jstr \<Rightarrow> bool" where
  "shows_windows_path s \<longleftrightarrow>
     (\<exists>x u c y. is_alpha u \<and> s = x @ [u, 58, 92] @ c # y \<and> unquoted c) \<or> (\<exists>x c y. s = x @ [92, 92] @ c # y \<and> unquoted c)"

definition shows_private_root :: "jstr \<Rightarrow> bool" where
  "shows_private_root s \<longleftrightarrow> (\<exists>x r y. r \<in> set PRIVATE_ROOTS \<and> s = x @ js (CHR ''/'' # r) @ y)"

lemma url_hidden_iff: "url.hidden s [] \<Longrightarrow> \<not> shows_url s"
proof
  assume h: "url.hidden s []" and "shows_url s"
  then obtain x w c y where s: "s = x @ w @ c # y" "map fold_unit w = js ''http://'' \<or> map fold_unit w = js ''https://''" "unquoted c"
    unfolding shows_url_def by auto
  have "url_head (w @ c # y) = Some (c # y)" using s(2) url_head_Some by blast
  then have "url.bad (w @ c # y)" using s(3) by (simp add: url.bad_def unquoted_next_def)
  then show False using url.hidden_all [OF h s(1)] by simp
qed

lemma drive_hidden_iff: "drive.hidden s [] \<Longrightarrow> \<not> shows_windows_path s"
proof
  assume h: "drive.hidden s []" and "shows_windows_path s"
  then obtain x w c y where s: "s = x @ w @ c # y" "(\<exists>u. is_alpha u \<and> w = [u, 58, 92]) \<or> w = [92, 92]" "unquoted c"
    unfolding shows_windows_path_def by blast
  have "drive_head (w @ c # y) = Some (c # y)" using s(2) drive_head_Some by auto
  then have "drive.bad (w @ c # y)" using s(3) by (simp add: drive.bad_def unquoted_next_def)
  then show False using drive.hidden_all [OF h s(1)] by simp
qed

lemma root_hidden_iff: "root.hidden s [] \<Longrightarrow> \<not> shows_private_root s"
proof
  assume h: "root.hidden s []" and "shows_private_root s"
  then obtain x r y where s: "r \<in> set PRIVATE_ROOTS" "s = x @ js (CHR ''/'' # r) @ y" unfolding shows_private_root_def by blast
  have "root_head (js (CHR ''/'' # r) @ y) = Some y" using s(1) root_head_Some by blast
  then have "root.bad (js (CHR ''/'' # r) @ y)" by (simp add: root.bad_def)
  then show False using root.hidden_all [OF h s(2)] by simp
qed

text \<open>A text that may be shown: no private text, not empty and of bounded length.\<close>

definition presentable :: "nat \<Rightarrow> jstr \<Rightarrow> bool" where
  "presentable n m \<longleftrightarrow> \<not> shows_url m \<and> \<not> shows_windows_path m \<and> \<not> shows_private_root m \<and> m \<noteq> [] \<and> length m \<le> n"

lemma presentable_redacted:
  assumes "47 \<notin> set d" "92 \<notin> set d" "d \<noteq> []" "0 < n"
  shows "presentable n (take n (if redact t = [] then d else redact t))"
proof -
  let ?m = "take n (if redact t = [] then d else redact t)"
  have "url.hidden ?m []" "drive.hidden ?m []" "root.hidden ?m []"
    using assms(1,2) redact_hides [of t] url.hidden_plain [of d] drive.hidden_plain [of d] root.hidden_plain [of d]
    by (auto intro: url.hidden_take drive.hidden_take root.hidden_take)
  then show ?thesis using assms(3,4) by (simp add: presentable_def url_hidden_iff drive_hidden_iff root_hidden_iff)
qed

end
