(* ===== verification/DesktopLoading.thy ===== *)
theory DesktopLoading
  imports DesktopForms Redaction Transitions
begin

text \<open>
  Loading of the desktop surfaces (\<open>_loadDesktopDestination\<close>, \<open>_queueSettingsReload\<close>,
  \<open>_selectDesktopDestination\<close> and the reload in \<open>_renderDesktopSurface\<close> of
  \<open>src/frontend/src/codex-bridge-panel.js\<close>). The function is cut at its awaits: each
  definition is the code between two of them, and the answers may arrive in any order
  with any other step in between. The requests sent are recorded in \<open>dp_calls\<close>.
\<close>

section \<open>State\<close>

record desktop_panel =
  dp_destination :: string
  dp_features :: "string \<Rightarrow> desktop_state"
  dp_project :: jsval
  dp_thread :: jsval
  dp_capabilities :: jsval
  dp_calls :: "(string \<times> jsobj) list"
  dp_microtasks :: nat

definition feature :: "desktop_panel \<Rightarrow> string \<Rightarrow> desktop_state" where
  "feature w d = dp_features w d"

definition upd :: "string \<Rightarrow> (desktop_state \<Rightarrow> desktop_state) \<Rightarrow> desktop_panel \<Rightarrow> desktop_panel" where
  "upd d f w = w\<lparr>dp_features := (dp_features w)(d := f (dp_features w d))\<rparr>"

definition issue :: "string \<Rightarrow> jsobj \<Rightarrow> desktop_panel \<Rightarrow> desktop_panel" where
  "issue action payload w = w\<lparr>dp_calls := dp_calls w @ [(action, payload)]\<rparr>"

text \<open>\<open>this._activeProject()?.project_id || null\<close>.\<close>

definition activeProjectId :: "desktop_panel \<Rightarrow> jsval" where
  "activeProjectId w = js_or (dot (dp_project w) ''project_id'') JNull"

definition desktopWorkspace :: "desktop_panel \<Rightarrow> jsobj" where
  "desktopWorkspace w =
     [(js ''workspace_path'',
       if truthy (dot (dp_project w) ''root_path'') then dot (dp_project w) ''root_path''
       else if truthy (dot (dp_thread w) ''workspace_path'') then dot (dp_thread w) ''workspace_path''
       else jlit ''.'')]"

definition desktopProjectSelector :: "desktop_panel \<Rightarrow> jsobj" where
  "desktopProjectSelector w =
     (if truthy (dot (dp_project w) ''project_id'') then [(js ''project_id'', dot (dp_project w) ''project_id'')]
      else desktopWorkspace w)"

record load_token =
  tk_destination :: string
  tk_generation :: nat
  tk_project :: jsval

section \<open>Starting a load\<close>

definition set_loading :: "string \<Rightarrow> desktop_panel \<Rightarrow> desktop_panel" where
  "set_loading d w =
     upd d (\<lambda>s. s\<lparr>ds_loading := True, ds_error := []\<rparr>)
       (if d = ''settings''
        then upd d (\<lambda>s. s\<lparr>ds_agentsLoadGeneration := Suc (ds_agentsLoadGeneration s),
               ds_agentsRequestProjectId := activeProjectId w\<rparr>) w
        else w)"

definition new_token :: "string \<Rightarrow> desktop_panel \<Rightarrow> load_token" where
  "new_token d w =
     \<lparr>tk_destination = d, tk_generation = (if d = ''settings'' then Suc (ds_agentsLoadGeneration (feature w d)) else 0),
      tk_project = (if d = ''settings'' then activeProjectId w else JNull)\<rparr>"

text \<open>The requests sent before the first await.\<close>

definition load_requests :: "load_token \<Rightarrow> desktop_panel \<Rightarrow> desktop_panel" where
  "load_requests tk w =
     (if tk_destination tk = ''scheduled'' then issue ''list_automations'' [] w
      else if tk_destination tk = ''skills'' then issue ''list_skills'' (desktopWorkspace w) w
      else if tk_destination tk = ''plugins'' then issue ''list_plugins'' (desktopWorkspace w) w
      else if tk_destination tk = ''settings'' then
        (let w = issue ''get_agents'' [] w in
         if truthy (tk_project tk) then issue ''get_agents'' [(js ''project_id'', tk_project tk)] w else w)
      else w)"

text \<open>
  \<open>_renderDesktopSurface\<close>: what it changes besides the document. When the settings
  were requested for another project than the active one they are loaded again; that
  load renders while \<open>loading\<close> is set, which starts nothing further.
\<close>

definition requested_project :: "desktop_state \<Rightarrow> jsval" where
  "requested_project s = js_coalesce (ds_agentsRequestProjectId s) (ds_agentsProjectId s)"

definition reload_needed :: "desktop_panel \<Rightarrow> bool" where
  "reload_needed w \<longleftrightarrow>
     (let s = feature w ''settings'' in
      dp_destination w = ''settings'' \<and> \<not> ds_loading s
      \<and> (ds_agentsRequestProjectId s \<noteq> JUndefined \<or> ds_agentsProjectId s \<noteq> JUndefined)
      \<and> requested_project s \<noteq> activeProjectId w)"

record desktop_run =
  dr_panel :: desktop_panel
  dr_pending :: "(load_token \<times> bool) list"

text \<open>
  A run is the panel with the loads that await an answer; the flag tells whether a
  settings load is at its second await, the server list.
\<close>

definition start_load :: "string \<Rightarrow> desktop_run \<Rightarrow> desktop_run" where
  "start_load d c =
     (let w = dr_panel c; tk = new_token d w in
      c\<lparr>dr_panel := load_requests tk (set_loading d w), dr_pending := dr_pending c @ [(tk, False)]\<rparr>)"

definition renderDesktopSurface :: "desktop_run \<Rightarrow> desktop_run" where
  "renderDesktopSurface c =
     (if reload_needed (dr_panel c)
      then start_load ''settings'' (c\<lparr>dr_panel := upd ''settings'' (\<lambda>s. s\<lparr>ds_loaded := False\<rparr>) (dr_panel c)\<rparr>)
      else c)"

definition loadDesktopDestination :: "string \<Rightarrow> bool \<Rightarrow> desktop_run \<Rightarrow> desktop_run" where
  "loadDesktopDestination d force c =
     (let s = feature (dr_panel c) d in
      if (ds_loading s \<and> \<not> force) \<or> (\<not> force \<and> ds_loaded s) then c
      else let w = dr_panel c; tk = new_token d w;
               c = renderDesktopSurface (c\<lparr>dr_panel := set_loading d w\<rparr>) in
           c\<lparr>dr_panel := load_requests tk (dr_panel c), dr_pending := dr_pending c @ [(tk, False)]\<rparr>)"

definition selectDesktopDestination :: "string \<Rightarrow> desktop_run \<Rightarrow> desktop_run" where
  "selectDesktopDestination destination c =
     (let d = (if list_ex (\<lambda>(i, label, icon). i = destination) DESTINATIONS then destination else ''chats'');
          c = c\<lparr>dr_panel := (dr_panel c)\<lparr>dp_destination := d\<rparr>\<rparr>;
          c = (if d \<noteq> ''chats'' then loadDesktopDestination d False c else c) in
      renderDesktopSurface c)"

section \<open>Answers\<close>

definition isCurrentSettingsRequest :: "load_token \<Rightarrow> desktop_panel \<Rightarrow> bool" where
  "isCurrentSettingsRequest tk w \<longleftrightarrow>
     tk_destination tk \<noteq> ''settings'' \<or> ds_agentsLoadGeneration (feature w ''settings'') = tk_generation tk"

definition hasMovedProjects :: "load_token \<Rightarrow> desktop_panel \<Rightarrow> bool" where
  "hasMovedProjects tk w \<longleftrightarrow> tk_destination tk = ''settings'' \<and> activeProjectId w \<noteq> tk_project tk"

definition queueSettingsReload :: "desktop_panel \<Rightarrow> desktop_panel" where
  "queueSettingsReload w =
     (if ds_agentsReloadQueued (feature w ''settings'') \<or> dp_destination w \<noteq> ''settings'' then w
      else (upd ''settings'' (\<lambda>s. s\<lparr>ds_agentsReloadQueued := True\<rparr>) w)\<lparr>dp_microtasks := Suc (dp_microtasks w)\<rparr>)"

text \<open>The queued microtask.\<close>

definition run_reload :: "desktop_run \<Rightarrow> desktop_run" where
  "run_reload c =
     (let w = dr_panel c;
          c = c\<lparr>dr_panel := (upd ''settings'' (\<lambda>s. s\<lparr>ds_agentsReloadQueued := False\<rparr>) w)\<lparr>dp_microtasks := dp_microtasks w - 1\<rparr>\<rparr> in
      if dp_destination w = ''settings'' then loadDesktopDestination ''settings'' True c else c)"

text \<open>The \<open>finally\<close> block, and the \<open>catch\<close> block.\<close>

definition load_finally :: "load_token \<Rightarrow> desktop_run \<Rightarrow> desktop_run" where
  "load_finally tk c =
     (if isCurrentSettingsRequest tk (dr_panel c)
      then renderDesktopSurface (c\<lparr>dr_panel := upd (tk_destination tk) (\<lambda>s. s\<lparr>ds_loading := False\<rparr>) (dr_panel c)\<rparr>)
      else c)"

definition give_up :: "load_token \<Rightarrow> desktop_panel \<Rightarrow> desktop_panel" where
  "give_up tk w = queueSettingsReload (upd (tk_destination tk) (\<lambda>s. s\<lparr>ds_loaded := False\<rparr>) w)"

definition load_catch :: "(rat \<Rightarrow> jstr) \<Rightarrow> load_token \<Rightarrow> jsval \<Rightarrow> desktop_panel \<Rightarrow> desktop_panel" where
  "load_catch fmt tk error w =
     (if \<not> isCurrentSettingsRequest tk w then w
      else if hasMovedProjects tk w then give_up tk w
      else upd (tk_destination tk) (\<lambda>s. s\<lparr>ds_error := normalizeDesktopError fmt error\<rparr>) w)"

definition load_tail :: "load_token \<Rightarrow> desktop_panel \<Rightarrow> desktop_panel" where
  "load_tail tk w =
     (if tk_destination tk = ''settings'' \<and> (\<not> isCurrentSettingsRequest tk w \<or> hasMovedProjects tk w)
      then (if isCurrentSettingsRequest tk w then give_up tk w else w)
      else upd (tk_destination tk) (\<lambda>s. s\<lparr>ds_loaded := True\<rparr>) w)"

definition set_data :: "string \<Rightarrow> string \<Rightarrow> jsval \<Rightarrow> desktop_panel \<Rightarrow> desktop_panel" where
  "set_data d k v w = upd d (\<lambda>s. s\<lparr>ds_data := obj_set (ds_data s) (js k) v\<rparr>) w"

definition automation_row :: "jsval \<Rightarrow> jsval" where
  "automation_row item =
     JObj (obj_set (obj_set (obj_set (spread item)
        (js ''title'') (js_or (dot item ''name'') (jlit ''Untitled automation'')))
        (js ''schedule'') (js_or (dot item ''next_run_at'') (jlit ''Not scheduled'')))
        (js ''status'') (js_or (dot item ''last_status'') (jlit (if dot item ''enabled'' = JBool False then ''paused'' else ''idle''))))"

text \<open>The answer of the three simple surfaces; a malformed list is a TypeError.\<close>

definition type_error :: jsval where
  "type_error = JObj [(js ''message'', jlit ''Cannot read properties of null'')]"

definition list_answer :: "load_token \<Rightarrow> jsval \<Rightarrow> desktop_panel \<Rightarrow> jsval + desktop_panel" where
  "list_answer tk v w =
     (if tk_destination tk = ''scheduled''
      then Inr (set_data ''scheduled'' ''automations'' (JArr (map automation_row (normalizeDesktopList v))) w)
      else if tk_destination tk = ''skills''
      then (case normalizeSkillsResponse v of None \<Rightarrow> Inl type_error
            | Some xs \<Rightarrow> Inr (set_data ''skills'' ''skills'' (JArr xs) w))
      else if tk_destination tk = ''plugins''
      then (case normalizePluginsResponse v of None \<Rightarrow> Inl type_error
            | Some xs \<Rightarrow> Inr (set_data ''plugins'' ''marketplaces'' (JArr (normalizeMarketplacesResponse v))
                (set_data ''plugins'' ''plugins'' (JArr xs) w)))
      else Inr w)"

definition agents_data :: "load_token \<Rightarrow> jsval \<Rightarrow> jsval \<Rightarrow> desktop_panel \<Rightarrow> desktop_panel" where
  "agents_data tk global project w =
     upd ''settings'' (\<lambda>s.
       let scopes = [(js ''global'', js_or global (JObj [])), (js ''project'', js_or project (JObj []))] in
       s\<lparr>ds_agentsProjectId := js_or (tk_project tk) JNull,
         ds_data := obj_set (obj_set (ds_data s) (js ''agentsScopes'') (JObj scopes)) (js ''agents'')
           (obj_index scopes (as_string (js_or (ds_agentsScope s) (jlit ''project''))))\<rparr>) w"

definition has_mcp :: "desktop_panel \<Rightarrow> bool" where
  "has_mcp w \<longleftrightarrow> jlit ''mcp_admin_v1'' \<in> set (as_list (dp_capabilities w))"

datatype answer = Failed jsval | Listed jsval | Agents jsval jsval

definition finish_load :: "load_token \<Rightarrow> desktop_panel \<Rightarrow> desktop_run \<Rightarrow> desktop_run" where
  "finish_load tk w c = load_finally tk (c\<lparr>dr_panel := w\<rparr>)"

text \<open>
  The code after an await. \<open>c\<close> no longer holds the load among its pending ones; it
  is added again when it goes on to ask for the server list.
\<close>

definition first_answer :: "(rat \<Rightarrow> jstr) \<Rightarrow> load_token \<Rightarrow> answer \<Rightarrow> desktop_run \<Rightarrow> desktop_run" where
  "first_answer fmt tk a c =
     (let w = dr_panel c in
      case a of
        Failed e \<Rightarrow> finish_load tk (load_catch fmt tk e w) c
      | Listed v \<Rightarrow> (case list_answer tk v w of
            Inl e \<Rightarrow> finish_load tk (load_catch fmt tk e w) c
          | Inr w' \<Rightarrow> finish_load tk (load_tail tk w') c)
      | Agents global project \<Rightarrow>
          if \<not> isCurrentSettingsRequest tk w then finish_load tk w c
          else if hasMovedProjects tk w then finish_load tk (give_up tk w) c
          else let w = agents_data tk global project w in
            if has_mcp w then c\<lparr>dr_panel := issue ''list_mcp'' [] w, dr_pending := dr_pending c @ [(tk, True)]\<rparr>
            else finish_load tk (load_tail tk (set_data ''settings'' ''mcp_servers'' (JArr []) w)) c)"

definition mcp_answer :: "(rat \<Rightarrow> jstr) \<Rightarrow> load_token \<Rightarrow> answer \<Rightarrow> desktop_run \<Rightarrow> desktop_run" where
  "mcp_answer fmt tk a c =
     (let w = dr_panel c in
      case a of
        Failed e \<Rightarrow> finish_load tk (load_catch fmt tk e w) c
      | Listed v \<Rightarrow> finish_load tk (load_tail tk (set_data ''settings'' ''mcp_servers'' (JArr (normalizeDesktopList v)) w)) c
      | Agents _ _ \<Rightarrow> c)"

section \<open>Runs\<close>

text \<open>
  \<open>served p v\<close> says that the service may answer \<open>v\<close> for the instructions of project
  \<open>p\<close>; the answer for no project is \<open>null\<close>.
\<close>

definition fits :: "(jsval \<Rightarrow> jsval \<Rightarrow> bool) \<Rightarrow> load_token \<Rightarrow> bool \<Rightarrow> answer \<Rightarrow> bool" where
  "fits served tk second a \<longleftrightarrow>
     (case a of Failed e \<Rightarrow> True
      | Listed v \<Rightarrow> tk_destination tk \<noteq> ''settings'' \<or> second
      | Agents g p \<Rightarrow> tk_destination tk = ''settings'' \<and> \<not> second
          \<and> (if truthy (tk_project tk) then served (tk_project tk) p else p = JNull))"

definition take_pending :: "nat \<Rightarrow> desktop_run \<Rightarrow> desktop_run" where
  "take_pending i c = c\<lparr>dr_pending := take i (dr_pending c) @ drop (Suc i) (dr_pending c)\<rparr>"

inductive load_step :: "(rat \<Rightarrow> jstr) \<Rightarrow> (jsval \<Rightarrow> jsval \<Rightarrow> bool) \<Rightarrow> desktop_run \<Rightarrow> desktop_run \<Rightarrow> bool"
  for fmt :: "rat \<Rightarrow> jstr" and served :: "jsval \<Rightarrow> jsval \<Rightarrow> bool" where
  context_changes: "load_step fmt served c (c\<lparr>dr_panel := (dr_panel c)\<lparr>dp_project := p, dp_thread := t, dp_capabilities := k\<rparr>\<rparr>)"
| renders: "load_step fmt served c (renderDesktopSurface c)"
| selects: "load_step fmt served c (selectDesktopDestination d c)"
| retries: "load_step fmt served c (loadDesktopDestination d True c)"
| reloads: "0 < dp_microtasks (dr_panel c) \<Longrightarrow> load_step fmt served c (run_reload c)"
| answers: "i < length (dr_pending c) \<Longrightarrow> dr_pending c ! i = (tk, False) \<Longrightarrow> fits served tk False a \<Longrightarrow>
    load_step fmt served c (first_answer fmt tk a (take_pending i c))"
| lists: "i < length (dr_pending c) \<Longrightarrow> dr_pending c ! i = (tk, True) \<Longrightarrow> fits served tk True a \<Longrightarrow>
    load_step fmt served c (mcp_answer fmt tk a (take_pending i c))"

definition initial_run :: "jsval \<Rightarrow> jsval \<Rightarrow> jsval \<Rightarrow> desktop_run" where
  "initial_run project thread capabilities =
     \<lparr>dr_panel = \<lparr>dp_destination = ''chats'', dp_features = (\<lambda>d. createDesktopFeatureState), dp_project = project,
        dp_thread = thread, dp_capabilities = capabilities, dp_calls = [], dp_microtasks = 0\<rparr>, dr_pending = []\<rparr>"

inductive load_reachable :: "(rat \<Rightarrow> jstr) \<Rightarrow> (jsval \<Rightarrow> jsval \<Rightarrow> bool) \<Rightarrow> desktop_run \<Rightarrow> bool"
  for fmt :: "rat \<Rightarrow> jstr" and served :: "jsval \<Rightarrow> jsval \<Rightarrow> bool" where
  initially: "load_reachable fmt served (initial_run p t k)"
| next_step: "load_reachable fmt served c \<Longrightarrow> load_step fmt served c c' \<Longrightarrow> load_reachable fmt served c'"

section \<open>The newest request\<close>

abbreviation settings :: "desktop_run \<Rightarrow> desktop_state" where
  "settings c \<equiv> dp_features (dr_panel c) ''settings''"

definition pend :: "desktop_run \<Rightarrow> nat \<Rightarrow> (load_token \<times> bool) list" where
  "pend c g = filter (\<lambda>(tk, b). tk_destination tk = ''settings'' \<and> tk_generation tk = g) (dr_pending c)"

text \<open>
  The surface is loading exactly while its newest request is unanswered, of which there
  is one; older requests have smaller numbers; what is shown as loaded was requested for
  the project it is shown for, and was served for it.
\<close>

definition project_served :: "(jsval \<Rightarrow> jsval \<Rightarrow> bool) \<Rightarrow> jsval \<Rightarrow> jsval \<Rightarrow> bool" where
  "project_served served p v \<longleftrightarrow>
     js_or p JNull = p \<and> (\<exists>w. v = js_or w (JObj []) \<and> (if truthy p then served p w else w = JNull))"

definition scope_doc :: "desktop_state \<Rightarrow> jsval" where
  "scope_doc s = dot (obj_get (ds_data s) (js ''agentsScopes'')) ''project''"

definition load_inv :: "(jsval \<Rightarrow> jsval \<Rightarrow> bool) \<Rightarrow> desktop_run \<Rightarrow> bool" where
  "load_inv served c \<longleftrightarrow>
     (let s = settings c; g = ds_agentsLoadGeneration s in
      (\<forall>(tk, b)\<in>set (dr_pending c). tk_destination tk = ''settings'' \<longrightarrow> tk_generation tk \<le> g)
      \<and> length (pend c g) = (if ds_loading s then 1 else 0)
      \<and> (\<forall>(tk, b)\<in>set (pend c g). tk_project tk = ds_agentsRequestProjectId s \<and> js_or (tk_project tk) JNull = tk_project tk
           \<and> (b \<longrightarrow> ds_agentsProjectId s = tk_project tk \<and> project_served served (tk_project tk) (scope_doc s)))
      \<and> (\<not> ds_loading s \<and> ds_loaded s \<and> ds_error s = [] \<longrightarrow>
           ds_agentsProjectId s = ds_agentsRequestProjectId s
           \<and> project_served served (ds_agentsProjectId s) (scope_doc s)))"

lemma upd_simps [simp]:
  "dp_features (upd d f w) d' = (if d' = d then f (dp_features w d) else dp_features w d')"
  "dp_destination (upd d f w) = dp_destination w" "dp_project (upd d f w) = dp_project w"
  "dp_thread (upd d f w) = dp_thread w" "dp_capabilities (upd d f w) = dp_capabilities w"
  "dp_calls (upd d f w) = dp_calls w" "dp_microtasks (upd d f w) = dp_microtasks w"
  by (simp_all add: upd_def)

lemma issue_simps [simp]:
  "dp_features (issue a p w) = dp_features w" "dp_destination (issue a p w) = dp_destination w"
  "dp_project (issue a p w) = dp_project w" "dp_capabilities (issue a p w) = dp_capabilities w"
  by (simp_all add: issue_def)

lemma load_requests_features [simp]:
  "dp_features (load_requests tk w) = dp_features w" "dp_destination (load_requests tk w) = dp_destination w"
  "dp_project (load_requests tk w) = dp_project w"
  by (simp_all add: load_requests_def Let_def)

lemma set_loading_settings:
  "dp_features (set_loading d w) ''settings'' =
     (if d = ''settings'' then (dp_features w ''settings'')\<lparr>ds_loading := True, ds_error := [],
        ds_agentsLoadGeneration := Suc (ds_agentsLoadGeneration (dp_features w ''settings'')),
        ds_agentsRequestProjectId := activeProjectId w\<rparr>
      else dp_features w ''settings'')"
  by (simp add: set_loading_def)

lemma activeProjectId_upd [simp]: "activeProjectId (upd d f w) = activeProjectId w"
  by (simp add: activeProjectId_def)

text \<open>Starting a settings load, or any load of another surface.\<close>

lemma inv_pending_fresh:
  assumes "load_inv served c"
  shows "pend c (Suc (ds_agentsLoadGeneration (settings c))) = []"
  using assms by (fastforce simp: load_inv_def pend_def Let_def filter_empty_conv)

text \<open>The fields the invariant reads.\<close>

definition settings_view :: "desktop_state \<Rightarrow> bool \<times> bool \<times> bool \<times> nat \<times> jsval \<times> jsval \<times> jsval" where
  "settings_view s = (ds_loading s, ds_loaded s, ds_error s = [], ds_agentsLoadGeneration s, ds_agentsRequestProjectId s,
     ds_agentsProjectId s, scope_doc s)"

definition settings_pending :: "desktop_run \<Rightarrow> (load_token \<times> bool) list" where
  "settings_pending c = filter (\<lambda>(tk, b). tk_destination tk = ''settings'') (dr_pending c)"

lemma pend_eq: "pend c g = filter (\<lambda>(tk, b). tk_generation tk = g) (settings_pending c)"
  by (auto simp: pend_def settings_pending_def intro!: filter_cong)

lemma bound_eq:
  "(\<forall>(tk, b)\<in>set (dr_pending c). tk_destination tk = ''settings'' \<longrightarrow> tk_generation tk \<le> g)
   \<longleftrightarrow> (\<forall>(tk, b)\<in>set (settings_pending c). tk_generation tk \<le> g)"
  by (auto simp: settings_pending_def)

lemma load_inv_cong:
  assumes "load_inv served c" "settings_view (settings c') = settings_view (settings c)"
    "settings_pending c' = settings_pending c"
  shows "load_inv served c'"
proof -
  have e: "ds_loading (settings c') = ds_loading (settings c)" "ds_loaded (settings c') = ds_loaded (settings c)"
    "(ds_error (settings c') = []) = (ds_error (settings c) = [])"
    "ds_agentsLoadGeneration (settings c') = ds_agentsLoadGeneration (settings c)"
    "ds_agentsRequestProjectId (settings c') = ds_agentsRequestProjectId (settings c)"
    "ds_agentsProjectId (settings c') = ds_agentsProjectId (settings c)" "scope_doc (settings c') = scope_doc (settings c)"
    using assms(2) by (simp_all add: settings_view_def)
  show ?thesis using assms(1) unfolding load_inv_def Let_def bound_eq pend_eq e assms(3) .
qed

lemma view_simps [simp]: "settings_view (s\<lparr>ds_agentsReloadQueued := q\<rparr>) = settings_view s"
  by (simp add: settings_view_def scope_doc_def)

lemma inv_other_token:
  assumes "load_inv served c" "tk_destination tk \<noteq> ''settings''"
    "dp_features w ''settings'' = settings c"
  shows "load_inv served (c\<lparr>dr_panel := w, dr_pending := dr_pending c @ [(tk, b)]\<rparr>)"
  by (rule load_inv_cong [OF assms(1)]) (use assms in \<open>simp_all add: settings_pending_def\<close>)

lemma inv_start_settings:
  assumes inv: "load_inv served c"
  shows "load_inv served (start_load ''settings'' c)"
proof -
  let ?g = "ds_agentsLoadGeneration (settings c)"
  have f: "pend c (Suc ?g) = []" by (rule inv_pending_fresh [OF inv])
  have b: "\<forall>(tk, b)\<in>set (dr_pending c). tk_destination tk = ''settings'' \<longrightarrow> tk_generation tk \<le> ?g"
    using inv by (simp add: load_inv_def Let_def)
  show ?thesis
    using f b unfolding load_inv_def Let_def start_load_def
    by (auto simp: set_loading_settings new_token_def pend_def feature_def activeProjectId_def js_or_def)
qed

lemma inv_unloaded:
  assumes "load_inv served c"
  shows "load_inv served (c\<lparr>dr_panel := upd ''settings'' (\<lambda>s. s\<lparr>ds_loaded := False\<rparr>) (dr_panel c)\<rparr>)"
  using assms unfolding load_inv_def Let_def by (auto simp: pend_def scope_doc_def)

lemma inv_render: "load_inv served c \<Longrightarrow> load_inv served (renderDesktopSurface c)"
  by (simp add: renderDesktopSurface_def inv_start_settings inv_unloaded)

lemma render_loading: "ds_loading (settings c) \<Longrightarrow> renderDesktopSurface c = c"
  by (simp add: renderDesktopSurface_def reload_needed_def feature_def Let_def)

lemma load_settings_forced: "loadDesktopDestination ''settings'' True c = start_load ''settings'' c"
  by (simp add: loadDesktopDestination_def start_load_def render_loading set_loading_settings Let_def)

lemma inv_load:
  assumes inv: "load_inv served c"
  shows "load_inv served (loadDesktopDestination d force c)"
proof (cases "(ds_loading (feature (dr_panel c) d) \<and> \<not> force) \<or> (\<not> force \<and> ds_loaded (feature (dr_panel c) d))")
  case False
  show ?thesis
  proof (cases "d = ''settings''")
    case True
    have "loadDesktopDestination d force c = loadDesktopDestination d True c"
      using False by (auto simp: loadDesktopDestination_def Let_def)
    then show ?thesis using True load_settings_forced inv_start_settings [OF inv] by simp
  next
    case other: False
    define c1 where "c1 = renderDesktopSurface (c\<lparr>dr_panel := set_loading d (dr_panel c)\<rparr>)"
    have "load_inv served (c\<lparr>dr_panel := set_loading d (dr_panel c)\<rparr>)"
      by (rule load_inv_cong [OF inv]) (use other in \<open>simp_all add: set_loading_settings settings_pending_def\<close>)
    then have "load_inv served c1" unfolding c1_def by (rule inv_render)
    then have "load_inv served (c1\<lparr>dr_panel := load_requests (new_token d (dr_panel c)) (dr_panel c1),
        dr_pending := dr_pending c1 @ [(new_token d (dr_panel c), False)]\<rparr>)"
      by (rule inv_other_token) (use other in \<open>simp_all add: new_token_def\<close>)
    moreover have "loadDesktopDestination d force c = c1\<lparr>dr_panel := load_requests (new_token d (dr_panel c)) (dr_panel c1),
        dr_pending := dr_pending c1 @ [(new_token d (dr_panel c), False)]\<rparr>"
      unfolding loadDesktopDestination_def Let_def c1_def if_not_P [OF False] ..
    ultimately show ?thesis by simp
  qed
qed (simp add: loadDesktopDestination_def inv Let_def)

lemma inv_context:
  assumes "load_inv served c" "dp_features w ''settings'' = settings c"
  shows "load_inv served (c\<lparr>dr_panel := w\<rparr>)"
  by (rule load_inv_cong [OF assms(1)]) (use assms in \<open>simp_all add: settings_pending_def\<close>)

lemma inv_select: "load_inv served c \<Longrightarrow> load_inv served (selectDesktopDestination d c)"
  unfolding selectDesktopDestination_def Let_def
  by (intro inv_render) (auto intro!: inv_load inv_context)

lemma inv_reload: "load_inv served c \<Longrightarrow> load_inv served (run_reload c)"
proof -
  assume inv: "load_inv served c"
  have "load_inv served (c\<lparr>dr_panel := (upd ''settings'' (\<lambda>s. s\<lparr>ds_agentsReloadQueued := False\<rparr>) (dr_panel c))
      \<lparr>dp_microtasks := dp_microtasks (dr_panel c) - 1\<rparr>\<rparr>)"
    by (rule load_inv_cong [OF inv]) (simp_all add: settings_pending_def)
  then show ?thesis unfolding run_reload_def Let_def using inv_load by simp
qed

subsection \<open>Answers\<close>

text \<open>Between the removal of the newest request and the end of its load.\<close>

definition mid :: "desktop_run \<Rightarrow> bool" where
  "mid c \<longleftrightarrow>
     (\<forall>(tk, b)\<in>set (settings_pending c). tk_generation tk < ds_agentsLoadGeneration (settings c))"

definition shown_ok :: "(jsval \<Rightarrow> jsval \<Rightarrow> bool) \<Rightarrow> desktop_state \<Rightarrow> bool" where
  "shown_ok served s \<longleftrightarrow>
     (ds_loaded s \<and> ds_error s = [] \<longrightarrow> ds_agentsProjectId s = ds_agentsRequestProjectId s
        \<and> project_served served (ds_agentsProjectId s) (scope_doc s))"

definition newest :: "load_token \<Rightarrow> desktop_run \<Rightarrow> bool" where
  "newest tk c \<longleftrightarrow> tk_destination tk = ''settings'' \<and> tk_generation tk = ds_agentsLoadGeneration (settings c)"

lemma take_pending_settings [simp]: "dr_panel (take_pending i c) = dr_panel c"
  by (simp add: take_pending_def)

lemma pending_split:
  "i < length xs \<Longrightarrow> xs = take i xs @ xs ! i # drop (Suc i) xs"
  by (simp add: id_take_nth_drop)

lemma take_other:
  assumes inv: "load_inv served c" and i: "i < length (dr_pending c)" "dr_pending c ! i = (tk, b)" and n: "\<not> newest tk c"
  shows "load_inv served (take_pending i c)"
proof -
  define xs ys where "xs = take i (dr_pending c)" and "ys = drop (Suc i) (dr_pending c)"
  have p: "dr_pending c = xs @ (tk, b) # ys" using pending_split [OF i(1)] i(2) by (simp add: xs_def ys_def)
  have t: "dr_pending (take_pending i c) = xs @ ys" by (simp add: take_pending_def xs_def ys_def)
  have "pend (take_pending i c) (ds_agentsLoadGeneration (settings c)) = pend c (ds_agentsLoadGeneration (settings c))"
    using n by (auto simp: pend_def p t newest_def)
  then show ?thesis using inv unfolding load_inv_def Let_def by (auto simp: p t)
qed

lemma take_newest:
  assumes inv: "load_inv served c" and i: "i < length (dr_pending c)" "dr_pending c ! i = (tk, b)" and n: "newest tk c"
  shows "mid (take_pending i c)" "tk_project tk = ds_agentsRequestProjectId (settings c)"
    "b \<Longrightarrow> ds_agentsProjectId (settings c) = tk_project tk \<and> project_served served (tk_project tk) (scope_doc (settings c))"
    "ds_loading (settings c)" "js_or (tk_project tk) JNull = tk_project tk"
proof -
  let ?g = "ds_agentsLoadGeneration (settings c)"
  define xs ys where "xs = take i (dr_pending c)" and "ys = drop (Suc i) (dr_pending c)"
  have p: "dr_pending c = xs @ (tk, b) # ys" using pending_split [OF i(1)] i(2) by (simp add: xs_def ys_def)
  have t: "dr_pending (take_pending i c) = xs @ ys" by (simp add: take_pending_def xs_def ys_def)
  have len: "length (pend c ?g) = (if ds_loading (settings c) then 1 else 0)" using inv by (simp add: load_inv_def Let_def)
  have mem: "(tk, b) \<in> set (pend c ?g)" using n by (simp add: pend_def p newest_def)
  have "length (pend c ?g) = Suc (length (pend (take_pending i c) ?g))" using n by (simp add: pend_def p t newest_def)
  then have e: "pend (take_pending i c) ?g = []" using len by (simp split: if_splits)
  show "ds_loading (settings c)" using len mem by (auto split: if_splits)
  have all: "\<forall>(tk, b)\<in>set (pend c ?g). tk_project tk = ds_agentsRequestProjectId (settings c) \<and> js_or (tk_project tk) JNull = tk_project tk
           \<and> (b \<longrightarrow> ds_agentsProjectId (settings c) = tk_project tk \<and> project_served served (tk_project tk) (scope_doc (settings c)))"
    using inv by (simp add: load_inv_def Let_def)
  show "tk_project tk = ds_agentsRequestProjectId (settings c)" using all mem by blast
  show "js_or (tk_project tk) JNull = tk_project tk" using all mem by blast
  show "ds_agentsProjectId (settings c) = tk_project tk \<and> project_served served (tk_project tk) (scope_doc (settings c))" if b
    using all mem that by blast
  have "\<forall>(tk, b)\<in>set (settings_pending (take_pending i c)). tk_generation tk \<le> ?g"
  proof -
    have "\<forall>(tk, b)\<in>set (dr_pending c). tk_destination tk = ''settings'' \<longrightarrow> tk_generation tk \<le> ?g"
      using inv by (simp add: load_inv_def Let_def)
    then show ?thesis by (auto simp: settings_pending_def p t)
  qed
  moreover have "\<forall>(tk, b)\<in>set (settings_pending (take_pending i c)). tk_generation tk \<noteq> ?g"
    using e by (auto simp: pend_eq filter_empty_conv)
  ultimately show "mid (take_pending i c)" unfolding mid_def by (fastforce simp: le_less)
qed

lemma mid_inv:
  assumes "mid c" "\<not> ds_loading (settings c)" "shown_ok served (settings c)"
  shows "load_inv served c"
proof -
  have "pend c (ds_agentsLoadGeneration (settings c)) = []"
    using assms(1) by (fastforce simp: mid_def pend_eq filter_empty_conv)
  then show ?thesis using assms unfolding load_inv_def Let_def bound_eq by (fastforce simp: mid_def shown_ok_def)
qed

lemma finish_newest:
  assumes "mid c" "tk_destination tk = ''settings''" "tk_generation tk = ds_agentsLoadGeneration (dp_features w ''settings'')"
    "ds_agentsLoadGeneration (dp_features w ''settings'') = ds_agentsLoadGeneration (settings c)"
    "shown_ok served (dp_features w ''settings'')"
  shows "load_inv served (finish_load tk w c)"
proof -
  have cur: "isCurrentSettingsRequest tk w" using assms by (simp add: isCurrentSettingsRequest_def feature_def)
  let ?c = "c\<lparr>dr_panel := upd ''settings'' (\<lambda>s. s\<lparr>ds_loading := False\<rparr>) w\<rparr>"
  have "load_inv served ?c"
  proof (rule mid_inv)
    show "mid ?c" using assms(1,4) by (simp add: mid_def settings_pending_def)
    show "shown_ok served (settings ?c)" using assms(5) by (auto simp: shown_ok_def scope_doc_def)
  qed simp
  then show ?thesis using cur assms(2) inv_render by (simp add: finish_load_def load_finally_def)
qed

lemma finish_stale:
  assumes "load_inv served c" "\<not> isCurrentSettingsRequest tk w" "settings_view (dp_features w ''settings'') = settings_view (settings c)"
  shows "load_inv served (finish_load tk w c)"
proof -
  have "load_inv served (c\<lparr>dr_panel := w\<rparr>)"
    by (rule load_inv_cong [OF assms(1)]) (simp_all add: assms(3) settings_pending_def)
  then show ?thesis using assms(2) by (simp add: finish_load_def load_finally_def)
qed

lemma finish_other:
  assumes "load_inv served c" "tk_destination tk \<noteq> ''settings''"
    "settings_view (dp_features w ''settings'') = settings_view (settings c)"
  shows "load_inv served (finish_load tk w c)"
proof -
  have "load_inv served (c\<lparr>dr_panel := upd (tk_destination tk) (\<lambda>s. s\<lparr>ds_loading := False\<rparr>) w\<rparr>)"
    by (rule load_inv_cong [OF assms(1)]) (use assms in \<open>simp_all add: settings_pending_def\<close>)
  then show ?thesis
    using assms(2) inv_render by (simp add: finish_load_def load_finally_def isCurrentSettingsRequest_def)
qed

text \<open>What the code after an await does to the settings.\<close>

lemma queue_settings [simp]:
  "settings_view (dp_features (queueSettingsReload w) ''settings'') = settings_view (dp_features w ''settings'')"
  "ds_agentsLoadGeneration (dp_features (queueSettingsReload w) ''settings'') = ds_agentsLoadGeneration (dp_features w ''settings'')"
  "ds_loaded (dp_features (queueSettingsReload w) ''settings'') = ds_loaded (dp_features w ''settings'')"
  by (auto simp: queueSettingsReload_def)

lemma give_up_settings:
  assumes "tk_destination tk = ''settings''"
  shows "ds_agentsLoadGeneration (dp_features (give_up tk w) ''settings'') = ds_agentsLoadGeneration (dp_features w ''settings'')"
    "shown_ok served (dp_features (give_up tk w) ''settings'')"
  using assms by (simp_all add: give_up_def shown_ok_def)

lemma error_nonempty: "normalizeDesktopError fmt e \<noteq> []"
  by (auto simp: normalizeDesktopError_def Let_def)

lemma catch_newest:
  assumes "tk_destination tk = ''settings''" "tk_generation tk = ds_agentsLoadGeneration (dp_features w ''settings'')"
  shows "ds_agentsLoadGeneration (dp_features (load_catch fmt tk e w) ''settings'') = ds_agentsLoadGeneration (dp_features w ''settings'')"
    "shown_ok served (dp_features (load_catch fmt tk e w) ''settings'')"
proof -
  have eq: "load_catch fmt tk e w = (if hasMovedProjects tk w then give_up tk w
      else upd ''settings'' (\<lambda>s. s\<lparr>ds_error := normalizeDesktopError fmt e\<rparr>) w)"
    using assms by (simp add: load_catch_def isCurrentSettingsRequest_def feature_def)
  have "shown_ok served (s\<lparr>ds_error := normalizeDesktopError fmt e\<rparr>)" for s
    by (simp add: shown_ok_def error_nonempty)
  then show "shown_ok served (dp_features (load_catch fmt tk e w) ''settings'')"
    by (simp add: eq give_up_settings(2) [OF assms(1)])
  show "ds_agentsLoadGeneration (dp_features (load_catch fmt tk e w) ''settings'') = ds_agentsLoadGeneration (dp_features w ''settings'')"
    by (simp add: eq give_up_settings(1) [OF assms(1)])
qed

lemma tail_newest:
  assumes "tk_destination tk = ''settings''" "tk_generation tk = ds_agentsLoadGeneration (dp_features w ''settings'')"
    "ds_agentsProjectId (dp_features w ''settings'') = ds_agentsRequestProjectId (dp_features w ''settings'')"
    "project_served served (ds_agentsProjectId (dp_features w ''settings'')) (scope_doc (dp_features w ''settings''))"
  shows "ds_agentsLoadGeneration (dp_features (load_tail tk w) ''settings'') = ds_agentsLoadGeneration (dp_features w ''settings'')"
    "shown_ok served (dp_features (load_tail tk w) ''settings'')"
proof -
  have eq: "load_tail tk w = (if hasMovedProjects tk w then give_up tk w else upd ''settings'' (\<lambda>s. s\<lparr>ds_loaded := True\<rparr>) w)"
    using assms(1,2) by (simp add: load_tail_def isCurrentSettingsRequest_def feature_def)
  have "shown_ok served ((dp_features w ''settings'')\<lparr>ds_loaded := True\<rparr>)"
    using assms(3,4) by (simp add: shown_ok_def scope_doc_def)
  then show "shown_ok served (dp_features (load_tail tk w) ''settings'')"
    by (simp add: eq give_up_settings(2) [OF assms(1)])
  show "ds_agentsLoadGeneration (dp_features (load_tail tk w) ''settings'') = ds_agentsLoadGeneration (dp_features w ''settings'')"
    by (simp add: eq give_up_settings(1) [OF assms(1)])
qed

lemma catch_stale: "\<not> isCurrentSettingsRequest tk w \<Longrightarrow> load_catch fmt tk e w = w"
  by (simp add: load_catch_def)

lemma tail_stale: "\<not> isCurrentSettingsRequest tk w \<Longrightarrow> load_tail tk w = w"
  by (simp add: load_tail_def isCurrentSettingsRequest_def)

lemma other_settings:
  assumes "tk_destination tk \<noteq> ''settings''"
  shows "dp_features (load_catch fmt tk e w) ''settings'' = dp_features w ''settings''"
    "dp_features (load_tail tk w) ''settings'' = dp_features w ''settings''"
    "list_answer tk v w = Inr w' \<Longrightarrow> dp_features w' ''settings'' = dp_features w ''settings''"
  using assms
  by (auto simp: load_catch_def load_tail_def isCurrentSettingsRequest_def hasMovedProjects_def list_answer_def set_data_def
      split: if_splits option.splits)

lemma set_mcp_view [simp]: "settings_view (dp_features (set_data ''settings'' ''mcp_servers'' v w) ''settings'') = settings_view (dp_features w ''settings'')"
  by (simp add: settings_view_def set_data_def scope_doc_def)

lemma set_mcp_fields [simp]:
  "ds_agentsLoadGeneration (dp_features (set_data ''settings'' k v w) ''settings'') = ds_agentsLoadGeneration (dp_features w ''settings'')"
  "ds_agentsProjectId (dp_features (set_data ''settings'' k v w) ''settings'') = ds_agentsProjectId (dp_features w ''settings'')"
  "ds_agentsRequestProjectId (dp_features (set_data ''settings'' k v w) ''settings'') = ds_agentsRequestProjectId (dp_features w ''settings'')"
  "scope_doc (dp_features (set_data ''settings'' ''mcp_servers'' v w) ''settings'') = scope_doc (dp_features w ''settings'')"
  by (simp_all add: set_data_def scope_doc_def)

lemma agents_fields [simp]:
  "ds_agentsLoadGeneration (dp_features (agents_data tk g p w) ''settings'') = ds_agentsLoadGeneration (dp_features w ''settings'')"
  "ds_agentsRequestProjectId (dp_features (agents_data tk g p w) ''settings'') = ds_agentsRequestProjectId (dp_features w ''settings'')"
  "ds_agentsProjectId (dp_features (agents_data tk g p w) ''settings'') = js_or (tk_project tk) JNull"
  "scope_doc (dp_features (agents_data tk g p w) ''settings'') = js_or p (JObj [])"
  "ds_loading (dp_features (agents_data tk g p w) ''settings'') = ds_loading (dp_features w ''settings'')"
  by (simp_all add: agents_data_def scope_doc_def dot_JObj Let_def) (simp_all add: obj_get_def)

lemma mid_settings: "mid c \<Longrightarrow> ds_agentsLoadGeneration (dp_features w ''settings'') = ds_agentsLoadGeneration (settings c)
    \<Longrightarrow> mid (c\<lparr>dr_panel := w\<rparr>)"
  by (simp add: mid_def settings_pending_def)

lemma await_list_inv:
  assumes m: "mid c" and "ds_loading (dp_features w ''settings'')" and tk: "tk_destination tk = ''settings''"
    "tk_generation tk = ds_agentsLoadGeneration (dp_features w ''settings'')"
    and g: "ds_agentsLoadGeneration (dp_features w ''settings'') = ds_agentsLoadGeneration (settings c)"
    and p: "tk_project tk = ds_agentsRequestProjectId (dp_features w ''settings'')" "js_or (tk_project tk) JNull = tk_project tk"
    "ds_agentsProjectId (dp_features w ''settings'') = tk_project tk"
    "project_served served (tk_project tk) (scope_doc (dp_features w ''settings''))"
  shows "load_inv served (c\<lparr>dr_panel := w, dr_pending := dr_pending c @ [(tk, True)]\<rparr>)"
proof -
  let ?c = "c\<lparr>dr_panel := w, dr_pending := dr_pending c @ [(tk, True)]\<rparr>"
  have old: "\<forall>(tk, b)\<in>set (settings_pending c). tk_generation tk < ds_agentsLoadGeneration (settings c)" using m by (simp add: mid_def)
  have sp: "settings_pending ?c = settings_pending c @ [(tk, True)]" using tk(1) by (simp add: settings_pending_def)
  have e: "filter (\<lambda>(tk, b). tk_generation tk = ds_agentsLoadGeneration (settings c)) (settings_pending c) = []"
    using old by (fastforce simp: filter_empty_conv)
  have "pend ?c (ds_agentsLoadGeneration (settings ?c)) = [(tk, True)]"
    using tk(2) g e by (simp add: pend_eq sp)
  moreover have "\<forall>(tk, b)\<in>set (settings_pending ?c). tk_generation tk \<le> ds_agentsLoadGeneration (settings ?c)"
    using old tk(2) g by (fastforce simp: sp)
  ultimately show ?thesis unfolding load_inv_def Let_def bound_eq using assms by simp
qed

lemma first_answer_newest:
  assumes inv: "load_inv served c" and i: "i < length (dr_pending c)" "dr_pending c ! i = (tk, False)"
    and fit: "fits served tk False a" and newest: "newest tk c"
  shows "load_inv served (first_answer fmt tk a (take_pending i c))"
proof -
  let ?c = "take_pending i c" and ?w = "dr_panel c"
  note t = take_newest [OF inv i newest]
  have tk: "tk_destination tk = ''settings''" "tk_generation tk = ds_agentsLoadGeneration (settings c)"
    using newest by (simp_all add: newest_def)
  note fin = finish_newest [OF t(1) tk(1)]
  show ?thesis
  proof (cases a)
    case (Failed e)
    have "load_inv served (finish_load tk (load_catch fmt tk e ?w) ?c)"
      by (rule fin) (simp_all add: catch_newest tk)
    then show ?thesis by (simp add: first_answer_def Failed)
  next
    case (Listed v)
    then show ?thesis using fit tk by (simp add: fits_def)
  next
    case (Agents g p)
    let ?d = "agents_data tk g p ?w"
    have cur: "isCurrentSettingsRequest tk ?w" using tk by (simp add: isCurrentSettingsRequest_def feature_def)
    have srv: "project_served served (tk_project tk) (js_or p (JObj []))"
      using fit Agents t(5) by (auto simp: fits_def project_served_def)
    have gu: "load_inv served (finish_load tk (give_up tk ?w) ?c)"
      by (rule fin) (simp_all add: give_up_settings tk)
    have mcp: "load_inv served (?c\<lparr>dr_panel := issue ''list_mcp'' [] ?d, dr_pending := dr_pending ?c @ [(tk, True)]\<rparr>)"
      by (rule await_list_inv [OF t(1)]) (use t tk srv in simp_all)
    have "shown_ok served (dp_features (load_tail tk (set_data ''settings'' ''mcp_servers'' (JArr []) ?d)) ''settings'')"
      "ds_agentsLoadGeneration (dp_features (load_tail tk (set_data ''settings'' ''mcp_servers'' (JArr []) ?d)) ''settings'')
        = ds_agentsLoadGeneration (settings c)"
      by (rule tail_newest(2) | simp add: tail_newest(1) | use t tk srv in \<open>simp add: tail_newest(1)\<close>)+
    then have "load_inv served (finish_load tk (load_tail tk (set_data ''settings'' ''mcp_servers'' (JArr []) ?d)) ?c)"
      by (intro fin) (simp_all add: tk)
    with gu mcp cur show ?thesis by (simp add: first_answer_def Agents Let_def)
  qed
qed

lemma first_answer_other:
  assumes inv: "load_inv served c" and other: "tk_destination tk \<noteq> ''settings''" and fit: "fits served tk False a"
  shows "load_inv served (first_answer fmt tk a c)"
proof -
  let ?w = "dr_panel c"
  have failed: "load_inv served (finish_load tk (load_catch fmt tk e ?w) c)" for e
    by (rule finish_other [OF inv other]) (simp add: other_settings [OF other])
  have "load_inv served (finish_load tk (load_tail tk w') c)" if "list_answer tk v ?w = Inr w'" for v w'
    by (rule finish_other [OF inv other]) (simp add: other_settings(2) [OF other] other_settings(3) [OF other that])
  then show ?thesis using failed fit other
    by (cases a) (auto simp: first_answer_def fits_def Let_def split: sum.splits)
qed

lemma inv_first_answer:
  assumes inv: "load_inv served c" and i: "i < length (dr_pending c)" "dr_pending c ! i = (tk, False)" and fit: "fits served tk False a"
  shows "load_inv served (first_answer fmt tk a (take_pending i c))"
proof (cases "newest tk c")
  case False
  let ?c = "take_pending i c"
  have inv': "load_inv served ?c" by (rule take_other [OF inv i False])
  show ?thesis
  proof (cases "tk_destination tk = ''settings''")
    case True
    then have old: "\<not> isCurrentSettingsRequest tk (dr_panel ?c)"
      using False by (simp add: isCurrentSettingsRequest_def newest_def feature_def)
    have "load_inv served (finish_load tk (dr_panel ?c) ?c)" by (rule finish_stale [OF inv' old]) simp
    then show ?thesis using fit True old catch_stale [OF old] by (cases a) (simp_all add: first_answer_def fits_def)
  qed (rule first_answer_other [OF inv' _ fit])
qed (rule first_answer_newest [OF inv i fit])

lemma tail_generation:
  "tk_destination tk = ''settings'' \<Longrightarrow>
   ds_agentsLoadGeneration (dp_features (load_tail tk w) ''settings'') = ds_agentsLoadGeneration (dp_features w ''settings'')"
  by (simp add: load_tail_def give_up_settings)

lemma inv_mcp_answer:
  assumes inv: "load_inv served c" and i: "i < length (dr_pending c)" "dr_pending c ! i = (tk, True)"
    and fit: "fits served tk True a"
  shows "load_inv served (mcp_answer fmt tk a (take_pending i c))"
proof (cases "newest tk c")
  case True
  then have tk: "tk_destination tk = ''settings''" by (simp add: newest_def)
  note t = take_newest [OF inv i True]
  have g: "tk_generation tk = ds_agentsLoadGeneration (settings c)" using True by (simp add: newest_def)
  note fin = finish_newest [OF t(1) tk]
  have "load_inv served (finish_load tk (load_catch fmt tk e (dr_panel c)) (take_pending i c))" for e
    by (rule fin) (simp_all add: catch_newest tk g)
  moreover have "load_inv served (finish_load tk (load_tail tk (set_data ''settings'' ''mcp_servers'' v (dr_panel c))) (take_pending i c))" for v
    by (rule fin) (use t tk g in \<open>simp_all add: tail_newest(2) tail_generation\<close>)
  ultimately show ?thesis using fit by (cases a) (simp_all add: mcp_answer_def fits_def)
next
  case False
  let ?c = "take_pending i c"
  have inv': "load_inv served ?c" by (rule take_other [OF inv i False])
  show ?thesis
  proof (cases "tk_destination tk = ''settings''")
    case tk: True
    have old: "\<not> isCurrentSettingsRequest tk w"
      if "ds_agentsLoadGeneration (dp_features w ''settings'') = ds_agentsLoadGeneration (settings c)" for w
      using False tk that by (simp add: isCurrentSettingsRequest_def newest_def feature_def)
    have "load_inv served (finish_load tk (set_data ''settings'' ''mcp_servers'' v (dr_panel c)) ?c)" for v
      by (rule finish_stale [OF inv' old]) simp_all
    moreover have "load_inv served (finish_load tk (dr_panel c) ?c)" by (rule finish_stale [OF inv' old]) simp_all
    ultimately show ?thesis using fit catch_stale [OF old] tail_stale [OF old]
      by (cases a) (simp_all add: mcp_answer_def fits_def)
  next
    case other: False
    have "load_inv served (finish_load tk (load_catch fmt tk e (dr_panel c)) ?c)" for e
      by (rule finish_other [OF inv' other]) (simp add: other_settings [OF other])
    moreover have "load_inv served (finish_load tk (load_tail tk (set_data ''settings'' ''mcp_servers'' v (dr_panel c))) ?c)" for v
      by (rule finish_other [OF inv' other]) (simp add: other_settings [OF other])
    ultimately show ?thesis using fit by (cases a) (simp_all add: mcp_answer_def fits_def)
  qed
qed

lemma load_inv_step:
  assumes "load_step fmt served c c'" "load_inv served c"
  shows "load_inv served c'"
  using assms
proof (cases rule: load_step.cases)
  case (context_changes p t k)
  then show ?thesis using inv_context [OF assms(2)] by simp
next
  case renders
  then show ?thesis using inv_render [OF assms(2)] by simp
next
  case (selects d)
  then show ?thesis using inv_select [OF assms(2)] by simp
next
  case (retries d)
  then show ?thesis using inv_load [OF assms(2)] by simp
next
  case reloads
  then show ?thesis using inv_reload [OF assms(2)] by simp
next
  case (answers i tk a)
  then show ?thesis using inv_first_answer [OF assms(2)] by simp
next
  case (lists i tk a)
  then show ?thesis using inv_mcp_answer [OF assms(2)] by simp
qed

lemma load_inv_initial: "load_inv served (initial_run p t k)"
  by (simp add: load_inv_def initial_run_def createDesktopFeatureState_def pend_def Let_def)

interpretation dl: inductive_invariant "\<lambda>c. \<exists>p t k. c = initial_run p t k" "load_step fmt served"
  "load_reachable fmt served" "load_inv served" for fmt served
proof unfold_locales
  show "P c" if "load_reachable fmt served c" "\<And>c. \<exists>p t k. c = initial_run p t k \<Longrightarrow> P c"
      "\<And>c c'. load_reachable fmt served c \<Longrightarrow> P c \<Longrightarrow> load_step fmt served c c' \<Longrightarrow> P c'" for P c
    using that by (induction rule: load_reachable.induct) blast+
qed (auto intro: load_reachable.intros load_inv_initial load_inv_step)

lemmas load_inv_reachable = dl.holds

section \<open>Properties\<close>

text \<open>
  However the answers, project changes, renders, retries and queued reloads of
  the settings surface interleave, it shows its loading state exactly while its newest
  request is still unanswered: it is never left loading with nothing under way, and an
  outdated answer never ends the loading of a newer request.
\<close>

theorem settings_loading_exact:
  assumes "load_reachable fmt served c"
  shows "ds_loading (settings c) \<longleftrightarrow>
    (\<exists>tk b. (tk, b) \<in> set (dr_pending c) \<and> tk_destination tk = ''settings''
       \<and> tk_generation tk = ds_agentsLoadGeneration (settings c))"
proof -
  have "length (pend c (ds_agentsLoadGeneration (settings c))) = (if ds_loading (settings c) then 1 else 0)"
    using load_inv_reachable [OF assms] by (simp add: load_inv_def Let_def)
  then have "ds_loading (settings c) \<longleftrightarrow> pend c (ds_agentsLoadGeneration (settings c)) \<noteq> []"
    by (auto split: if_splits)
  also have "\<dots> \<longleftrightarrow> (\<exists>tk b. (tk, b) \<in> set (dr_pending c) \<and> tk_destination tk = ''settings''
       \<and> tk_generation tk = ds_agentsLoadGeneration (settings c))"
    by (auto simp: pend_def filter_empty_conv)
  finally show ?thesis .
qed

definition sample_run :: desktop_run where
  "sample_run = selectDesktopDestination ''settings'' (initial_run (JObj [(js ''project_id'', jlit ''p1'')]) JNull (JArr []))"

definition sample_token :: load_token where
  "sample_token = \<lparr>tk_destination = ''settings'', tk_generation = 1, tk_project = jlit ''p1''\<rparr>"

definition sample_loaded :: desktop_run where
  "sample_loaded = first_answer (\<lambda>_. []) sample_token (Agents JNull (JObj [(js ''content'', jlit ''be brief'')])) (take_pending 0 sample_run)"

lemma sample_run_eq:
  "dr_pending sample_run = [(sample_token, False)]" "dp_destination (dr_panel sample_run) = ''settings''"
  "settings sample_run = createDesktopFeatureState\<lparr>ds_loading := True, ds_agentsLoadGeneration := 1, ds_agentsRequestProjectId := jlit ''p1''\<rparr>"
  "dp_project (dr_panel sample_run) = JObj [(js ''project_id'', jlit ''p1'')]" "dp_capabilities (dr_panel sample_run) = JArr []"
proof -
  have c: "list_ex (\<lambda>(i, label, icon). i = ''settings'') DESTINATIONS" by (simp add: DESTINATIONS_def)
  have k: "dp_capabilities (load_requests tk w) = dp_capabilities w" for tk w by (simp add: load_requests_def Let_def)
  show "dr_pending sample_run = [(sample_token, False)]" "dp_destination (dr_panel sample_run) = ''settings''"
    "settings sample_run = createDesktopFeatureState\<lparr>ds_loading := True, ds_agentsLoadGeneration := 1, ds_agentsRequestProjectId := jlit ''p1''\<rparr>"
    "dp_project (dr_panel sample_run) = JObj [(js ''project_id'', jlit ''p1'')]" "dp_capabilities (dr_panel sample_run) = JArr []"
    using c by (simp_all add: sample_run_def selectDesktopDestination_def loadDesktopDestination_def initial_run_def k
        createDesktopFeatureState_def render_loading set_loading_def new_token_def sample_token_def feature_def
        activeProjectId_def dot_JObj obj_get_def js_or_def Let_def)
qed

lemma sample_run_reachable: "load_reachable fmt served sample_run"
  unfolding sample_run_def by (rule next_step [OF initially selects])

theorem settings_loading_exact_witness:
  "\<exists>tk b. (tk, b) \<in> set (dr_pending sample_run) \<and> tk_destination tk = ''settings''
     \<and> tk_generation tk = ds_agentsLoadGeneration (settings sample_run)"
  using settings_loading_exact [OF sample_run_reachable [of "\<lambda>_. []" "\<lambda>_ _. True"]] sample_run_eq(3) by auto

text \<open>
  Whatever interleaving led there, a settings surface that has just been rendered
  and shows loaded instructions without an error shows those of the active project: the
  project part is what the service answered for that very project.
\<close>

theorem settings_show_active_project:
  assumes "load_reachable fmt served c" and c'_def: "c' = renderDesktopSurface c"
    and "dp_destination (dr_panel c') = ''settings''" "\<not> ds_loading (settings c')" "ds_loaded (settings c')"
    "ds_error (settings c') = []"
  shows "ds_agentsProjectId (settings c') = activeProjectId (dr_panel c')
    \<and> project_served served (activeProjectId (dr_panel c')) (scope_doc (settings c'))"
proof -
  have inv: "load_inv served c'" unfolding c'_def by (rule inv_render [OF load_inv_reachable [OF assms(1)]])
  have s: "ds_agentsProjectId (settings c') = ds_agentsRequestProjectId (settings c')"
    "project_served served (ds_agentsProjectId (settings c')) (scope_doc (settings c'))"
    using inv assms(4-6) unfolding load_inv_def Let_def by blast+
  have def: "ds_agentsProjectId (settings c') \<noteq> JUndefined"
    using s(2) by (auto simp: project_served_def js_or_def)
  have "\<not> reload_needed (dr_panel c)"
  proof
    assume r: "reload_needed (dr_panel c)"
    then have "ds_loading (settings c')"
      by (simp add: c'_def renderDesktopSurface_def start_load_def set_loading_settings Let_def)
    then show False using assms(4) by simp
  qed
  then have "c' = c" by (simp add: c'_def renderDesktopSurface_def)
  with \<open>\<not> reload_needed (dr_panel c)\<close> have "requested_project (settings c') = activeProjectId (dr_panel c')"
    using assms(3,4) def by (simp add: reload_needed_def feature_def Let_def)
  then show ?thesis using s by (simp add: requested_project_def js_coalesce_def)
qed

lemma sample_loaded_eq:
  "dp_destination (dr_panel sample_loaded) = ''settings''" "\<not> ds_loading (settings sample_loaded)"
  "ds_loaded (settings sample_loaded)" "ds_error (settings sample_loaded) = []"
  "activeProjectId (dr_panel sample_loaded) = jlit ''p1''" "renderDesktopSurface sample_loaded = sample_loaded"
proof -
  define w where "w = dr_panel sample_run"
  define d where "d = set_data ''settings'' ''mcp_servers'' (JArr [])
    (agents_data sample_token JNull (JObj [(js ''content'', jlit ''be brief'')]) w)"
  define e where "e = upd ''settings'' (\<lambda>s. s\<lparr>ds_loaded := True\<rparr>) d"
  define c where "c = (take_pending 0 sample_run)\<lparr>dr_panel := upd ''settings'' (\<lambda>s. s\<lparr>ds_loading := False\<rparr>) e\<rparr>"
  have p: "activeProjectId v = jlit ''p1''" if "dp_project v = dp_project w" for v
    using that by (simp add: w_def activeProjectId_def sample_run_eq dot_JObj obj_get_def js_or_def)
  have fields: "ds_agentsLoadGeneration (dp_features d ''settings'') = 1" "ds_error (dp_features d ''settings'') = []"
    "ds_agentsProjectId (dp_features d ''settings'') = jlit ''p1''" "ds_agentsRequestProjectId (dp_features d ''settings'') = jlit ''p1''"
    "dp_destination d = ''settings''" "dp_project d = dp_project w"
    by (simp_all add: d_def w_def set_data_def agents_data_def sample_run_eq createDesktopFeatureState_def sample_token_def js_or_def Let_def)
  have cur: "isCurrentSettingsRequest sample_token w" "isCurrentSettingsRequest sample_token d" "isCurrentSettingsRequest sample_token e"
    by (simp_all add: isCurrentSettingsRequest_def sample_token_def feature_def w_def sample_run_eq fields e_def)
  have mv: "\<not> hasMovedProjects sample_token w" "\<not> hasMovedProjects sample_token d"
    by (simp_all add: hasMovedProjects_def sample_token_def p fields)
  have mcp: "\<not> has_mcp (agents_data sample_token g v w)" for g v by (simp add: has_mcp_def agents_data_def w_def sample_run_eq)
  have f: "sample_loaded = finish_load sample_token e (take_pending 0 sample_run)"
    using cur mv mcp by (simp add: sample_loaded_def first_answer_def load_tail_def e_def d_def w_def sample_token_def Let_def)
  have n: "\<not> reload_needed (dr_panel c)"
    by (simp add: c_def reload_needed_def requested_project_def feature_def e_def fields p js_coalesce_def nullish_def Let_def)
  have eq: "sample_loaded = c"
    using n cur(3) by (simp add: f finish_load_def load_finally_def c_def sample_token_def renderDesktopSurface_def)
  show "dp_destination (dr_panel sample_loaded) = ''settings''" "\<not> ds_loading (settings sample_loaded)"
    "ds_loaded (settings sample_loaded)" "ds_error (settings sample_loaded) = []"
    "activeProjectId (dr_panel sample_loaded) = jlit ''p1''" "renderDesktopSurface sample_loaded = sample_loaded"
    using n by (simp_all add: eq c_def e_def fields p renderDesktopSurface_def)
qed

definition sample_served :: "jsval \<Rightarrow> jsval \<Rightarrow> bool" where
  "sample_served p v \<longleftrightarrow> p = jlit ''p1'' \<and> v = JObj [(js ''content'', jlit ''be brief'')]"

theorem settings_show_active_project_witness:
  "ds_agentsProjectId (settings sample_loaded) = jlit ''p1''
   \<and> project_served sample_served (jlit ''p1'') (scope_doc (settings sample_loaded))"
proof -
  have "load_step (\<lambda>_. []) sample_served sample_run sample_loaded"
    unfolding sample_loaded_def
    by (rule answers) (simp_all add: sample_run_eq fits_def sample_token_def sample_served_def)
  then have "load_reachable (\<lambda>_. []) sample_served sample_loaded" by (rule next_step [OF sample_run_reachable])
  from settings_show_active_project [OF this sample_loaded_eq(6) [symmetric]] show ?thesis
    by (simp add: sample_loaded_eq)
qed

subsection \<open>A request that fails without a project\<close>

text \<open>The runs in which every answer so far was a failure: the newest request is the only one pending.\<close>

definition fail_once :: "(rat \<Rightarrow> jstr) \<Rightarrow> jsval \<Rightarrow> desktop_run \<Rightarrow> desktop_run" where
  "fail_once fmt e c = first_answer fmt (fst (hd (dr_pending c))) (Failed e) (take_pending 0 c)"

definition waiting :: "desktop_run \<Rightarrow> bool" where
  "waiting c \<longleftrightarrow>
     dp_destination (dr_panel c) = ''settings'' \<and> activeProjectId (dr_panel c) = JNull
     \<and> ds_loading (settings c) \<and> ds_error (settings c) = [] \<and> ds_agentsProjectId (settings c) = JUndefined
     \<and> ds_agentsRequestProjectId (settings c) = JNull
     \<and> dr_pending c = [(\<lparr>tk_destination = ''settings'', tk_generation = ds_agentsLoadGeneration (settings c), tk_project = JNull\<rparr>, False)]"

lemma fail_once_waiting:
  assumes "waiting c"
  shows "waiting (fail_once fmt e c)" "length (dp_calls (dr_panel (fail_once fmt e c))) = Suc (length (dp_calls (dr_panel c)))"
proof -
  let ?tk = "\<lparr>tk_destination = ''settings'', tk_generation = ds_agentsLoadGeneration (settings c), tk_project = JNull\<rparr>"
  let ?w = "upd ''settings'' (\<lambda>s. s\<lparr>ds_error := normalizeDesktopError fmt e\<rparr>) (dr_panel c)"
  let ?c = "(take_pending 0 c)\<lparr>dr_panel := upd ''settings'' (\<lambda>s. s\<lparr>ds_loading := False\<rparr>) ?w\<rparr>"
  note a = assms [unfolded waiting_def]
  have "load_catch fmt ?tk e (dr_panel c) = ?w"
    using a by (simp add: load_catch_def isCurrentSettingsRequest_def hasMovedProjects_def feature_def)
  moreover have "reload_needed (dr_panel ?c)"
    using a by (simp add: reload_needed_def requested_project_def feature_def js_coalesce_def nullish_def Let_def)
  ultimately have eq: "fail_once fmt e c
      = start_load ''settings'' (?c\<lparr>dr_panel := upd ''settings'' (\<lambda>s. s\<lparr>ds_loaded := False\<rparr>) (dr_panel ?c)\<rparr>)"
    using a by (simp add: fail_once_def first_answer_def finish_load_def load_finally_def isCurrentSettingsRequest_def
        feature_def renderDesktopSurface_def)
  have act: "activeProjectId (load_requests tk (set_loading d w)) = activeProjectId w" for tk d w
    by (simp add: activeProjectId_def set_loading_def)
  have dst: "dp_destination (set_loading d w) = dp_destination w" for d w by (simp add: set_loading_def)
  show "waiting (fail_once fmt e c)"
    unfolding eq using a
    by (simp add: waiting_def start_load_def act dst set_loading_settings new_token_def feature_def take_pending_def Let_def)
  show "length (dp_calls (dr_panel (fail_once fmt e c))) = Suc (length (dp_calls (dr_panel c)))"
    unfolding eq using a
    by (simp add: start_load_def load_requests_def new_token_def issue_def set_loading_def Let_def)
qed

lemma first_visit_waiting:
  assumes "js_or (dot p ''project_id'') JNull = JNull"
  shows "waiting (selectDesktopDestination ''settings'' (initial_run p t k))"
    "length (dp_calls (dr_panel (selectDesktopDestination ''settings'' (initial_run p t k)))) = 1"
proof -
  have c: "list_ex (\<lambda>(i, label, icon). i = ''settings'') DESTINATIONS" by (simp add: DESTINATIONS_def)
  show "waiting (selectDesktopDestination ''settings'' (initial_run p t k))"
    "length (dp_calls (dr_panel (selectDesktopDestination ''settings'' (initial_run p t k)))) = 1"
    using c assms by (simp_all add: waiting_def selectDesktopDestination_def loadDesktopDestination_def initial_run_def
        createDesktopFeatureState_def render_loading set_loading_def new_token_def feature_def activeProjectId_def
        load_requests_def issue_def Let_def)
qed

text \<open>
  When no project is active and the instructions cannot be fetched, the settings
  surface never settles: after any number of failed answers it is loading again, the
  error message is gone before it could be shown, and one more request has been sent
  for every failure.
\<close>

theorem failed_settings_never_settle:
  assumes "js_or (dot p ''project_id'') JNull = JNull"
  shows "let c = foldl (\<lambda>c e. fail_once fmt e c) (selectDesktopDestination ''settings'' (initial_run p t k)) es in
    ds_loading (settings c) \<and> ds_error (settings c) = [] \<and> length (dp_calls (dr_panel c)) = Suc (length es)"
proof -
  have "waiting (foldl (\<lambda>c e. fail_once fmt e c) c es)
      \<and> length (dp_calls (dr_panel (foldl (\<lambda>c e. fail_once fmt e c) c es))) = length (dp_calls (dr_panel c)) + length es"
    if "waiting c" for c
    using that
  proof (induction es arbitrary: c)
    case (Cons e es)
    then show ?case using Cons.IH [OF fail_once_waiting(1) [OF Cons.prems]] fail_once_waiting(2) [OF Cons.prems] by simp
  qed simp
  from this [OF first_visit_waiting(1) [OF assms]] show ?thesis
    using first_visit_waiting(2) [OF assms] by (simp add: waiting_def Let_def)
qed

theorem failed_settings_never_settle_witness:
  "let c = foldl (\<lambda>c e. fail_once (\<lambda>_. []) e c) (selectDesktopDestination ''settings'' (initial_run JNull JNull JNull)) [JNull, JNull] in
    ds_loading (settings c) \<and> length (dp_calls (dr_panel c)) = 3"
  using failed_settings_never_settle [of JNull "\<lambda>_. []" JNull JNull "[JNull, JNull]"] by (simp add: js_or_def Let_def)

end
