(* ===== verification/DesktopActions.thy ===== *)
theory DesktopActions
  imports DesktopLoading JsIO
begin

text \<open>
  The actions of the desktop surfaces (\<open>_handleDesktopAction\<close>, \<open>_desktopMutation\<close> and
  \<open>_externalHttpsUrl\<close> of \<open>src/frontend/src/codex-bridge-panel.js\<close>). The handler is a
  program over the panel and the requests it sends itself; while it awaits an answer
  anything else may happen to the panel (\<open>de_during\<close>). The document is read before the
  first await, so its controls are part of the environment: the values of the form that
  holds the clicked control, and the two controls of the instructions. The second half
  traces every request that removes something back to the click that asked for it.
\<close>

record desktop_env =
  de_answer :: "nat \<Rightarrow> jsval + jsval"
  de_during :: "nat \<Rightarrow> desktop_run \<Rightarrow> desktop_run"
  de_values :: jsobj
  de_scopeValue :: jsval
  de_scopeProject :: jsval
  de_contentValue :: jsval
  de_contentProject :: jsval
  de_popup :: bool
  de_URL :: "jstr \<Rightarrow> (jstr \<times> jstr) option"
  de_num :: "jstr \<Rightarrow> jsnum"
  de_fmt :: "rat \<Rightarrow> jstr"

record handler_world =
  hw_run :: desktop_run
  hw_calls :: "(string \<times> jsobj) list"
  hw_opened :: "jstr list"

type_synonym 'a handler = "(jsval, handler_world, 'a) io"

text \<open>A change of the state of one surface, a render, and a request awaited.\<close>

definition modify :: "string \<Rightarrow> (desktop_state \<Rightarrow> desktop_state) \<Rightarrow> unit handler" where
  "modify d f = io_call (\<lambda>w. ((), w\<lparr>hw_run := (hw_run w)\<lparr>dr_panel := upd d f (dr_panel (hw_run w))\<rparr>\<rparr>))"

definition render :: "unit handler" where
  "render = io_call (\<lambda>w. ((), w\<lparr>hw_run := renderDesktopSurface (hw_run w)\<rparr>))"

definition await :: "desktop_env \<Rightarrow> unit handler" where
  "await env = io_call (\<lambda>w. ((), w\<lparr>hw_run := de_during env (length (hw_calls w)) (hw_run w)\<rparr>))"

definition callWS :: "desktop_env \<Rightarrow> string \<Rightarrow> jsobj \<Rightarrow> jsval handler" where
  "callWS env action payload = (\<lambda>w.
     let n = length (hw_calls w);
         run = (hw_run w)\<lparr>dr_panel := issue action payload (dr_panel (hw_run w))\<rparr> in
     (de_answer env n, w\<lparr>hw_run := de_during env n run, hw_calls := hw_calls w @ [(action, payload)]\<rparr>))"

definition set_error :: "desktop_env \<Rightarrow> string \<Rightarrow> jsval \<Rightarrow> unit handler" where
  "set_error env d e = modify d (\<lambda>s. s\<lparr>ds_error := normalizeDesktopError (de_fmt env) e\<rparr>)"

definition load_awaited :: "desktop_env \<Rightarrow> string \<Rightarrow> unit handler" where
  "load_awaited env d =
     io_then (io_call (\<lambda>w. ((), w\<lparr>hw_run := loadDesktopDestination d True (hw_run w)\<rparr>))) (await env)"

definition desktopMutation :: "desktop_env \<Rightarrow> string \<Rightarrow> string \<Rightarrow> jsobj \<Rightarrow> bool \<Rightarrow> bool handler" where
  "desktopMutation env d action payload clearFormDraft =
     io_then (modify d (\<lambda>s. s\<lparr>ds_loading := True, ds_error := []\<rparr>))
     (io_then render
     (io_bind
       (io_catch
         (io_then (io_bind (callWS env action payload) (\<lambda>_. io_return ()))
         (io_then (if clearFormDraft then modify d clearDesktopFormDraft else io_return ())
         (io_then (modify d (\<lambda>s. s\<lparr>ds_notice := js ''Saved.'', ds_form := JNull, ds_editingAutomation := JNull, ds_loaded := False\<rparr>))
         (io_then (load_awaited env d) (io_return True)))))
         (\<lambda>e. io_then (set_error env d e) (io_return False)))
       (\<lambda>succeeded. io_then (modify d (\<lambda>s. s\<lparr>ds_loading := False\<rparr>)) (io_return succeeded))))"

definition externalHttpsUrl :: "desktop_env \<Rightarrow> jsval \<Rightarrow> jstr" where
  "externalHttpsUrl env v =
     (case de_URL env (js_String (de_fmt env) v) of
        Some (protocol, href) \<Rightarrow> if protocol = js ''https:'' then href else []
      | None \<Rightarrow> [])"

section \<open>Requests\<close>

definition DESTRUCTIVE :: "string list" where
  "DESTRUCTIVE = [''delete-automation'', ''delete-skill'', ''uninstall-plugin'', ''remove-marketplace'', ''remove-mcp'', ''delete-agents'']"

definition revision_of :: "desktop_env \<Rightarrow> jsobj \<Rightarrow> jsval" where
  "revision_of env dataset = JNum (js_Number (de_num env) (de_fmt env) (obj_get dataset (js ''revision'')))"

definition spread_two :: "jsobj \<Rightarrow> jsobj \<Rightarrow> jsobj" where
  "spread_two a b = foldl (\<lambda>o' (k, v). obj_set o' k v) a b"

text \<open>The requests of one mutation: the action, the payload and whether the form draft is cleared.\<close>

definition mutation_request ::
    "desktop_env \<Rightarrow> desktop_panel \<Rightarrow> desktop_state \<Rightarrow> jsobj \<Rightarrow> string \<Rightarrow> (string \<times> jsobj \<times> bool) option" where
  "mutation_request env p s dataset action =
     (let i = obj_get dataset (js ''id''); automation = (js ''automation_id'', i);
          expected = (js ''expected_revision'', revision_of env dataset); values = de_values env in
      if action = ''submit-schedule''
      then Some (''create_automation'', buildAutomationPayload (de_num env) (de_fmt env) (JObj values), True)
      else if action = ''submit-schedule-update''
      then Some (''update_automation'', spread_two [(js ''automation_id'', dot (ds_editingAutomation s) ''automation_id'')]
        (buildAutomationUpdatePayload (de_num env) (de_fmt env) (JObj values)), True)
      else if action = ''submit-skill'' then Some (''create_skill'', spread_two (desktopProjectSelector p) values, True)
      else if action = ''submit-mcp''
      then Some (''add_mcp'', filter (\<lambda>(k, v). \<not> (k \<in> {js ''oauth_client_id'', js ''oauth_resource''}
        \<and> js_trim (js_String (de_fmt env) (js_or v (JStr []))) = [])) values, True)
      else if action = ''run-automation'' then Some (''run_automation'', [automation], False)
      else if action = ''pause-automation'' then Some (''pause_automation'', [automation, expected], False)
      else if action = ''resume-automation'' then Some (''resume_automation'', [automation, expected], False)
      else if action = ''delete-automation'' then Some (''delete_automation'', [automation, expected], False)
      else if action = ''toggle-skill''
      then Some (''set_skill'', desktopWorkspace p @ [(js ''name'', i), (js ''enabled'', JBool (obj_get dataset (js ''enabled'') \<noteq> jlit ''false''))], False)
      else if action = ''delete-skill'' then Some (''delete_skill'', desktopProjectSelector p @ [(js ''name'', i)], False)
      else if action = ''install-plugin''
      then Some (''install_plugin'', [(js ''plugin_name'', js_or (obj_get dataset (js ''name'')) i),
        (js ''marketplace_name'', obj_get dataset (js ''marketplace''))], False)
      else if action = ''uninstall-plugin'' then Some (''uninstall_plugin'', [(js ''plugin_id'', i)], False)
      else if action = ''remove-marketplace'' then Some (''remove_marketplace'', [(js ''marketplace_name'', i)], False)
      else if action = ''upgrade-marketplace'' then Some (''upgrade_marketplace'', [(js ''marketplace_name'', i)], False)
      else if action = ''remove-mcp'' then Some (''remove_mcp'', [(js ''name'', i)], False)
      else None)"

text \<open>The actions that only change the state of the surface.\<close>

definition local_action :: "jsobj \<Rightarrow> string \<Rightarrow> (desktop_state \<Rightarrow> desktop_state) option" where
  "local_action dataset action =
     (if action = ''open-schedule-form''
      then Some (\<lambda>s. (clearDesktopFormDraft s)\<lparr>ds_editingAutomation := JNull, ds_form := jlit ''schedule''\<rparr>)
      else if action = ''open-skill-form'' then Some (\<lambda>s. (clearDesktopFormDraft s)\<lparr>ds_form := jlit ''skill''\<rparr>)
      else if action = ''open-marketplace-form'' then Some (\<lambda>s. (clearDesktopFormDraft s)\<lparr>ds_form := jlit ''marketplace''\<rparr>)
      else if action = ''open-mcp-form'' then Some (\<lambda>s. (clearDesktopFormDraft s)\<lparr>ds_form := jlit ''mcp''\<rparr>)
      else if action = ''select-settings-tab''
      then Some (\<lambda>s. s\<lparr>ds_settingsTab := js_or (obj_get dataset (js ''tab'')) (jlit ''general'')\<rparr>)
      else if action = ''close-form''
      then Some (\<lambda>s. (clearDesktopFormDraft s)\<lparr>ds_editingAutomation := JNull, ds_form := JNull\<rparr>)
      else None)"

definition split_paths :: "jstr \<Rightarrow> jsval" where
  "split_paths s = JArr (map JStr (filter (\<lambda>p. p \<noteq> []) (map js_trim (split_on 44 s))))"

definition submit_marketplace :: "desktop_env \<Rightarrow> string \<Rightarrow> unit handler" where
  "submit_marketplace env d =
     (let values = de_values env; source = js_String (de_fmt env) (js_or (obj_get values (js ''source'')) (JStr [])) in
      if \<not> starts_with (js ''https://'') source
      then modify d (\<lambda>s. s\<lparr>ds_error := js ''Marketplace source must use HTTPS.''\<rparr>)
      else io_bind (desktopMutation env d ''add_marketplace''
        [(js ''source'', JStr source), (js ''ref_name'', js_or (obj_get values (js ''ref_name'')) JNull),
         (js ''sparse_paths'', split_paths (js_String (de_fmt env) (js_or (obj_get values (js ''sparse_paths'')) (JStr []))))] True)
        (\<lambda>_. io_return ()))"

definition update_automation :: "desktop_env \<Rightarrow> string \<Rightarrow> jsobj \<Rightarrow> unit handler" where
  "update_automation env d dataset =
     io_then (io_catch
       (io_then (modify d (\<lambda>s. s\<lparr>ds_loading := True\<rparr>)) (io_then render
         (io_bind (callWS env ''get_automation'' [(js ''automation_id'', obj_get dataset (js ''id''))])
           (\<lambda>automation. modify d (\<lambda>s. (clearDesktopFormDraft s)\<lparr>ds_editingAutomation := automation, ds_form := jlit ''schedule-edit''\<rparr>)))))
       (set_error env d))
     (modify d (\<lambda>s. s\<lparr>ds_loading := False\<rparr>))"

definition list_runs :: "desktop_env \<Rightarrow> string \<Rightarrow> jsobj \<Rightarrow> unit handler" where
  "list_runs env d dataset =
     io_catch
       (io_bind (callWS env ''list_automation_runs'' [(js ''automation_id'', obj_get dataset (js ''id''))])
         (\<lambda>v. let runs = normalizeDesktopList v in
            modify d (\<lambda>s. s\<lparr>ds_data := obj_set (ds_data s) (js ''runs'') (JArr runs),
              ds_notice := dec_nat (length runs) @ js '' run'' @ js (if length runs = 1 then [] else ''s'') @ js '' loaded.''\<rparr>)))
       (set_error env d)"

definition error_value :: "string \<Rightarrow> jsval" where
  "error_value message = JObj [(js ''message'', jlit message)]"

definition login_mcp :: "desktop_env \<Rightarrow> string \<Rightarrow> jsobj \<Rightarrow> unit handler" where
  "login_mcp env d dataset =
     io_catch
       (if \<not> de_popup env then io_throw (error_value ''Allow pop-ups to continue OAuth sign-in.'')
        else io_bind (callWS env ''login_mcp'' [(js ''name'', obj_get dataset (js ''id''))])
          (\<lambda>result. let authorizationUrl = externalHttpsUrl env (dot result ''authorization_url'') in
             if authorizationUrl = [] then io_throw (error_value ''OAuth sign-in requires a valid HTTPS authorization URL.'')
             else io_then (io_call (\<lambda>w. ((), w\<lparr>hw_opened := hw_opened w @ [authorizationUrl]\<rparr>)))
               (modify d (\<lambda>s. s\<lparr>ds_notice := js ''OAuth sign-in started.'', ds_error := []\<rparr>))))
       (set_error env d)"

definition drop_draft :: "desktop_env \<Rightarrow> jsobj \<Rightarrow> desktop_state \<Rightarrow> desktop_state" where
  "drop_draft env dataset s =
     (let key = js_or (obj_get dataset (js ''agentsDraftKey''))
            (JStr (agentsDraftKey (de_fmt env) (obj_get dataset (js ''agentsScope'')) (obj_get dataset (js ''projectId'')))) in
      s\<lparr>ds_agentsDrafts := filter (\<lambda>(k, v). k \<noteq> js_String (de_fmt env) key) (ds_agentsDrafts s)\<rparr>)"

definition agents_mutation :: "desktop_env \<Rightarrow> string \<Rightarrow> string \<Rightarrow> jsobj \<Rightarrow> jsobj \<Rightarrow> unit handler" where
  "agents_mutation env d action content dataset =
     io_bind (desktopMutation env d action
        (content @ (if obj_get dataset (js ''agentsScope'') = jlit ''project''
           then [(js ''project_id'', obj_get dataset (js ''projectId''))] else [])) False)
       (\<lambda>succeeded. if succeeded then modify d (drop_draft env dataset) else io_return ())"

section \<open>The handler\<close>

text \<open>The scope and the project of an instructions action; \<open>Inl\<close> is the message of a refusal.\<close>

definition agents_dataset :: "desktop_env \<Rightarrow> desktop_panel \<Rightarrow> desktop_state \<Rightarrow> jsobj \<Rightarrow> string + jsobj" where
  "agents_dataset env p s dataset =
     (let scope = js_or (js_or (js_or (obj_get dataset (js ''agentsScope'')) (de_scopeValue env)) (ds_agentsScope s)) (JStr []);
          renderedProjectId = js_or (js_or (de_scopeProject env) (de_contentProject env)) (ds_agentsProjectId s);
          projectId = js_or (js_or (obj_get dataset (js ''projectId'')) renderedProjectId) (dot (dp_project p) ''project_id'') in
      if scope = jlit ''project'' \<and> \<not> truthy projectId
      then Inl ''Select a workspace project before changing project instructions.''
      else if scope \<noteq> jlit ''global'' \<and> scope \<noteq> jlit ''project'' then Inl ''Choose an instruction scope before saving changes.''
      else let ds = obj_set dataset (js ''agentsScope'') scope;
               ds = (if scope = jlit ''project'' then obj_set ds (js ''projectId'') projectId else ds) in
        Inr (obj_set ds (js ''agentsDraftKey'') (JStr (agentsDraftKey (de_fmt env) scope projectId))))"

definition special_action :: "desktop_env \<Rightarrow> string \<Rightarrow> string \<Rightarrow> jsobj \<Rightarrow> unit handler" where
  "special_action env d action dataset =
     (if action = ''submit-marketplace'' then submit_marketplace env d
      else if action = ''update-automation'' then update_automation env d dataset
      else if action = ''list-automation-runs'' then list_runs env d dataset
      else if action = ''login-mcp'' then login_mcp env d dataset
      else if action = ''save-agents''
      then agents_mutation env d ''update_agents'' [(js ''content'', js_or (de_contentValue env) (JStr []))] dataset
      else if action = ''delete-agents'' then agents_mutation env d ''delete_agents'' [] dataset
      else io_return ())"

definition perform :: "desktop_env \<Rightarrow> string \<Rightarrow> string \<Rightarrow> jsobj \<Rightarrow> unit handler" where
  "perform env d action dataset =
     (\<lambda>w. let p = dr_panel (hw_run w); s = dp_features p d in
       (case local_action dataset action of Some f \<Rightarrow> io_then (modify d f) render
        | None \<Rightarrow> (case mutation_request env p s dataset action of
            Some (ws, payload, clear) \<Rightarrow> io_then (io_bind (desktopMutation env d ws payload clear) (\<lambda>_. io_return ())) render
          | None \<Rightarrow>
              if action = ''retry-desktop'' then load_awaited env d
              else io_then (special_action env d action dataset) render)) w)"

definition with_scope :: "desktop_env \<Rightarrow> string \<Rightarrow> string \<Rightarrow> jsobj \<Rightarrow> (jsobj \<Rightarrow> unit handler) \<Rightarrow> unit handler" where
  "with_scope env d action dataset k =
     (\<lambda>w. let p = dr_panel (hw_run w) in
       if action \<in> {''save-agents'', ''delete-agents''}
       then (case agents_dataset env p (dp_features p d) dataset of
               Inl message \<Rightarrow> io_then (modify d (\<lambda>s. s\<lparr>ds_error := js message, ds_notice := [], ds_confirmAction := None\<rparr>)) render w
             | Inr dataset' \<Rightarrow> k dataset' w)
       else k dataset w)"

definition confirmed_action :: "desktop_env \<Rightarrow> string \<Rightarrow> string \<Rightarrow> jsobj \<Rightarrow> unit handler" where
  "confirmed_action env d action dataset = with_scope env d action dataset (perform env d action)"

definition handleDesktopAction :: "desktop_env \<Rightarrow> string \<Rightarrow> jsobj \<Rightarrow> unit handler" where
  "handleDesktopAction env action dataset =
     (\<lambda>w. let d = dp_destination (dr_panel (hw_run w)); s = dp_features (dr_panel (hw_run w)) d in
       if d = ''chats'' then io_return () w
       else with_scope env d action dataset (\<lambda>dataset.
         if action = ''confirm-desktop'' then
           io_then (modify d (\<lambda>s. s\<lparr>ds_confirmAction := None\<rparr>))
             (case ds_confirmAction s of
                Some (pending, ds) \<Rightarrow> confirmed_action env d pending ds
              | None \<Rightarrow> render)
         else if action = ''cancel-desktop-confirm'' then
           io_then (modify d (\<lambda>s. s\<lparr>ds_confirmAction := None\<rparr>)) render
         else if action \<in> set DESTRUCTIVE then
           io_then (modify d (\<lambda>s. s\<lparr>ds_confirmAction := Some (action, dataset)\<rparr>)) render
         else perform env d action dataset) w)"

section \<open>What a run of a handler does\<close>

text \<open>
  \<open>along R m\<close>: every run of \<open>m\<close> takes the world to one related by \<open>R\<close>. A reflexive and
  transitive relation that holds of the building blocks holds of the handlers; it is used
  for the requests that are sent and for the confirmations that are pending.
\<close>

definition along :: "(handler_world \<Rightarrow> handler_world \<Rightarrow> bool) \<Rightarrow> 'a handler \<Rightarrow> bool" where
  "along R m \<longleftrightarrow> (\<forall>w r w'. m w = (r, w') \<longrightarrow> R w w')"

lemma alongD: "along R m \<Longrightarrow> m w = (r, w') \<Longrightarrow> R w w'"
  by (simp add: along_def)

lemma along_if: "(b \<Longrightarrow> along R m) \<Longrightarrow> (\<not> b \<Longrightarrow> along R n) \<Longrightarrow> along R (if b then m else n)"
  by simp

text \<open>A change of a surface that asks for no confirmation: it keeps the pending one or drops it.\<close>

definition quiet :: "(desktop_state \<Rightarrow> desktop_state) \<Rightarrow> bool" where
  "quiet f \<longleftrightarrow> (\<forall>s. ds_confirmAction (f s) \<in> {ds_confirmAction s, None})"

definition DESTRUCTIVE_CALLS :: "string list" where
  "DESTRUCTIVE_CALLS = [''delete_automation'', ''delete_skill'', ''uninstall_plugin'', ''remove_marketplace'', ''remove_mcp'', ''delete_agents'']"

definition load_now :: "string \<Rightarrow> unit handler" where
  "load_now d = io_call (\<lambda>w. ((), w\<lparr>hw_run := loadDesktopDestination d True (hw_run w)\<rparr>))"

definition open_url :: "jstr \<Rightarrow> unit handler" where
  "open_url u = io_call (\<lambda>w. ((), w\<lparr>hw_opened := hw_opened w @ [u]\<rparr>))"

locale handler_relation =
  fixes R :: "handler_world \<Rightarrow> handler_world \<Rightarrow> bool"
  assumes here: "R w w" and onwards: "R u v \<Longrightarrow> R v w \<Longrightarrow> R u w"
begin

lemma along_bind:
  assumes "along R m" "\<And>x. along R (f x)"
  shows "along R (io_bind m f)"
  unfolding along_def
proof (intro allI impI)
  fix w r w' assume run: "io_bind m f w = (r, w')"
  obtain r1 w1 where m: "m w = (r1, w1)" by force
  with run have "w' = w1 \<or> (\<exists>x. f x w1 = (r, w'))" by (cases r1) (auto simp: io_bind_def)
  then show "R w w'" using alongD [OF assms(1) m] alongD [OF assms(2)] onwards by blast
qed

lemma along_then: "along R m \<Longrightarrow> along R n \<Longrightarrow> along R (io_then m n)"
  unfolding io_then_def by (rule along_bind)

lemma along_catch:
  assumes "along R m" "\<And>e. along R (h e)"
  shows "along R (io_catch m h)"
  unfolding along_def
proof (intro allI impI)
  fix w r w' assume run: "io_catch m h w = (r, w')"
  obtain r1 w1 where m: "m w = (r1, w1)" by force
  with run have "w' = w1 \<or> (\<exists>e. h e w1 = (r, w'))" by (cases r1) (auto simp: io_catch_def)
  then show "R w w'" using alongD [OF assms(1) m] alongD [OF assms(2)] onwards by blast
qed

lemma along_pure: "along R (io_return x)" "along R (io_throw e)"
  using here by (auto simp: along_def)

end

text \<open>
  The contract of the building blocks, with the requests that are \<open>allowed\<close>; every
  handler that sends only allowed requests then keeps the relation.
\<close>

locale handler_frame = handler_relation +
  fixes env :: desktop_env and allowed :: "string \<Rightarrow> jsobj \<Rightarrow> bool"
  assumes modify_frame: "quiet f \<Longrightarrow> along R (modify d f)"
    and render_frame: "along R render"
    and await_frame: "along R (await env)"
    and load_frame: "along R (load_now d)"
    and open_frame: "along R (open_url u)"
    and call_frame: "allowed action payload \<Longrightarrow> along R (callWS env action payload)"
begin

lemmas frame = along_then along_bind along_catch along_pure along_if render_frame await_frame

lemma quiet_frame:
  "along R (modify d (\<lambda>s. s\<lparr>ds_loading := True, ds_error := []\<rparr>))" "along R (modify d (\<lambda>s. s\<lparr>ds_loading := b\<rparr>))"
  "along R (modify d (\<lambda>s. s\<lparr>ds_notice := n, ds_form := JNull, ds_editingAutomation := JNull, ds_loaded := False\<rparr>))"
  "along R (modify d clearDesktopFormDraft)" "along R (modify d (\<lambda>s. s\<lparr>ds_error := e\<rparr>))"
  "along R (modify d (\<lambda>s. (clearDesktopFormDraft s)\<lparr>ds_editingAutomation := v, ds_form := f\<rparr>))"
  "along R (modify d (\<lambda>s. s\<lparr>ds_data := D s, ds_notice := n\<rparr>))" "along R (modify d (\<lambda>s. s\<lparr>ds_notice := n, ds_error := e\<rparr>))"
  "along R (modify d (drop_draft env dataset))" "along R (modify d (\<lambda>s. s\<lparr>ds_confirmAction := None\<rparr>))"
  "along R (modify d (\<lambda>s. s\<lparr>ds_error := e, ds_notice := n, ds_confirmAction := None\<rparr>))"
  by (rule modify_frame; simp add: quiet_def clearDesktopFormDraft_def drop_draft_def Let_def)+

lemma load_awaited_frame: "along R (load_awaited env d)"
  unfolding load_awaited_def load_now_def [symmetric] by (intro frame load_frame)

lemma set_error_frame: "along R (set_error env d e)"
  unfolding set_error_def by (rule quiet_frame)

lemma mutation_frame: "allowed action payload \<Longrightarrow> along R (desktopMutation env d action payload clear)"
  unfolding desktopMutation_def by (intro frame quiet_frame load_awaited_frame set_error_frame call_frame)

lemma special_frame:
  assumes safe: "\<And>ws payload. ws \<notin> set DESTRUCTIVE_CALLS \<Longrightarrow> allowed ws payload"
    and agents: "action = ''delete-agents'' \<Longrightarrow> allowed ''delete_agents'' (if obj_get dataset (js ''agentsScope'') = jlit ''project''
      then [(js ''project_id'', obj_get dataset (js ''projectId''))] else [])"
  shows "along R (special_action env d action dataset)"
proof -
  have ws: "allowed ''add_marketplace'' payload" "allowed ''get_automation'' payload" "allowed ''list_automation_runs'' payload"
    "allowed ''login_mcp'' payload" "allowed ''update_agents'' payload" for payload
    by (rule safe; simp add: DESTRUCTIVE_CALLS_def)+
  note rules = frame quiet_frame set_error_frame mutation_frame call_frame open_frame ws
  have "along R (submit_marketplace env d)" unfolding submit_marketplace_def Let_def by (intro rules)
  moreover have "along R (update_automation env d dataset)" unfolding update_automation_def by (intro rules)
  moreover have "along R (list_runs env d dataset)" unfolding list_runs_def Let_def by (intro rules)
  moreover have "along R (login_mcp env d dataset)"
    unfolding login_mcp_def Let_def open_url_def [symmetric] by (intro rules)
  moreover have "along R (agents_mutation env d ''update_agents'' content dataset)" for content
    unfolding agents_mutation_def by (intro rules)
  moreover have "along R (agents_mutation env d ''delete_agents'' [] dataset)" if "action = ''delete-agents''"
    unfolding agents_mutation_def using agents [OF that] by (intro frame quiet_frame mutation_frame) simp
  ultimately show ?thesis unfolding special_action_def by (intro along_if along_pure) simp_all
qed

lemma local_frame: "local_action dataset action = Some f \<Longrightarrow> along R (modify d f)"
  by (rule modify_frame) (auto simp: local_action_def quiet_def clearDesktopFormDraft_def split: if_splits)

lemma perform_frame:
  assumes safe: "\<And>ws payload. ws \<notin> set DESTRUCTIVE_CALLS \<Longrightarrow> allowed ws payload"
    and agents: "action = ''delete-agents'' \<Longrightarrow> allowed ''delete_agents'' (if obj_get dataset (js ''agentsScope'') = jlit ''project''
      then [(js ''project_id'', obj_get dataset (js ''projectId''))] else [])"
    and request: "\<And>ws payload clear. mutation_request env (dr_panel (hw_run w)) (dp_features (dr_panel (hw_run w)) d) dataset action
      = Some (ws, payload, clear) \<Longrightarrow> allowed ws payload"
    and run: "perform env d action dataset w = (r, w')"
  shows "R w w'"
proof (cases "local_action dataset action")
  case (Some f)
  then have "io_then (modify d f) render w = (r, w')" using run by (simp add: perform_def Let_def)
  then show ?thesis by (rule alongD [rotated]) (intro frame local_frame [OF Some])
next
  case local: None
  show ?thesis
  proof (cases "mutation_request env (dr_panel (hw_run w)) (dp_features (dr_panel (hw_run w)) d) dataset action")
    case (Some q)
    obtain ws payload clear where q: "q = (ws, payload, clear)" by (cases q) auto
    have "io_then (io_bind (desktopMutation env d ws payload clear) (\<lambda>_. io_return ())) render w = (r, w')"
      using run local Some q by (simp add: perform_def Let_def)
    then show ?thesis by (rule alongD [rotated]) (intro frame mutation_frame request [OF Some [unfolded q]])
  next
    case None
    have "along R (load_awaited env d)" "along R (io_then (special_action env d action dataset) render)"
      by (intro frame load_awaited_frame special_frame [OF safe agents])+
    then show ?thesis using run local None alongD by (cases "action = ''retry-desktop''") (auto simp: perform_def Let_def)
  qed
qed

end

section \<open>Which requests are sent\<close>

definition sends :: "(string \<times> jsobj \<Rightarrow> bool) \<Rightarrow> handler_world \<Rightarrow> handler_world \<Rightarrow> bool" where
  "sends Q w w' \<longleftrightarrow> (\<exists>xs. hw_calls w' = hw_calls w @ xs \<and> list_all Q xs)"

interpretation sending: handler_frame "sends Q" env "\<lambda>ws payload. Q (ws, payload)" for Q env
proof
  show "sends Q w w" for w by (simp add: sends_def)
  show "sends Q u v \<Longrightarrow> sends Q v w \<Longrightarrow> sends Q u w" for u v w by (auto simp: sends_def)
  show "Q (action, payload) \<Longrightarrow> along (sends Q) (callWS env action payload)" for action payload
    by (auto simp: along_def sends_def callWS_def Let_def)
qed (auto simp: along_def sends_def modify_def render_def await_def load_now_def open_url_def io_call_def)

text \<open>
  The request an action that removes something stands for. The object is the one the
  control names; the project of a skill is the one given, the selection at the moment
  the request is sent.
\<close>

definition removal_request :: "desktop_env \<Rightarrow> jsobj \<Rightarrow> string \<Rightarrow> jsobj \<Rightarrow> string \<times> jsobj" where
  "removal_request env project action dataset =
     (let i = obj_get dataset (js ''id'') in
      if action = ''delete-automation''
      then (''delete_automation'', [(js ''automation_id'', i), (js ''expected_revision'', revision_of env dataset)])
      else if action = ''delete-skill'' then (''delete_skill'', project @ [(js ''name'', i)])
      else if action = ''uninstall-plugin'' then (''uninstall_plugin'', [(js ''plugin_id'', i)])
      else if action = ''remove-marketplace'' then (''remove_marketplace'', [(js ''marketplace_name'', i)])
      else if action = ''remove-mcp'' then (''remove_mcp'', [(js ''name'', i)])
      else (''delete_agents'', if obj_get dataset (js ''agentsScope'') = jlit ''project''
        then [(js ''project_id'', obj_get dataset (js ''projectId''))] else []))"

definition as_asked :: "desktop_env \<Rightarrow> jsobj \<Rightarrow> string \<Rightarrow> jsobj \<Rightarrow> string \<times> jsobj \<Rightarrow> bool" where
  "as_asked env project action dataset = (\<lambda>(ws, payload). ws \<in> set DESTRUCTIVE_CALLS \<longrightarrow>
     action \<in> set DESTRUCTIVE \<and> (ws, payload) = removal_request env project action dataset)"

definition harmless :: "string \<times> jsobj \<Rightarrow> bool" where
  "harmless = (\<lambda>(ws, payload). ws \<notin> set DESTRUCTIVE_CALLS)"

abbreviation selected_project :: "handler_world \<Rightarrow> jsobj" where
  "selected_project w \<equiv> desktopProjectSelector (dr_panel (hw_run w))"

lemma mutation_as_asked:
  "mutation_request env p s dataset action = Some (ws, payload, clear) \<Longrightarrow>
     as_asked env (desktopProjectSelector p) action dataset (ws, payload)"
  unfolding mutation_request_def Let_def
  by (auto simp: as_asked_def removal_request_def DESTRUCTIVE_CALLS_def DESTRUCTIVE_def Let_def split: if_splits)

lemma perform_as_asked:
  "perform env d action dataset w = (r, w') \<Longrightarrow> sends (as_asked env (selected_project w) action dataset) w w'"
proof (rule sending.perform_frame)
  show "as_asked env (selected_project w) action dataset (ws, payload)" if "ws \<notin> set DESTRUCTIVE_CALLS" for ws payload
    using that by (simp add: as_asked_def)
qed (auto dest: mutation_as_asked simp: as_asked_def removal_request_def DESTRUCTIVE_def)

lemma sends_mono: "sends Q w w' \<Longrightarrow> (\<And>x. Q x \<Longrightarrow> Q' x) \<Longrightarrow> sends Q' w w'"
  unfolding sends_def list_all_iff by blast

lemma perform_harmless: "action \<notin> set DESTRUCTIVE \<Longrightarrow> perform env d action dataset w = (r, w') \<Longrightarrow> sends harmless w w'"
  by (erule sends_mono [OF perform_as_asked]) (auto simp: as_asked_def harmless_def)

lemma with_scope_cases:
  obtains (refused) message where "with_scope env d action dataset k w
      = io_then (modify d (\<lambda>s. s\<lparr>ds_error := js message, ds_notice := [], ds_confirmAction := None\<rparr>)) render w"
      "action \<in> {''save-agents'', ''delete-agents''}"
      "agents_dataset env (dr_panel (hw_run w)) (dp_features (dr_panel (hw_run w)) d) dataset = Inl message"
  | (scoped) ds where "with_scope env d action dataset k w = k ds w"
      "action \<in> {''save-agents'', ''delete-agents''} \<Longrightarrow>
        agents_dataset env (dr_panel (hw_run w)) (dp_features (dr_panel (hw_run w)) d) dataset = Inr ds"
      "action \<notin> {''save-agents'', ''delete-agents''} \<Longrightarrow> ds = dataset"
proof (cases "action \<in> {''save-agents'', ''delete-agents''}")
  case True
  show thesis
  proof (cases "agents_dataset env (dr_panel (hw_run w)) (dp_features (dr_panel (hw_run w)) d) dataset")
    case (Inl m)
    then show thesis using True that(1) [of m] by (simp add: with_scope_def Let_def)
  next
    case (Inr ds)
    then show thesis using True that(2) [of ds] by (simp add: with_scope_def Let_def)
  qed
next
  case False
  then show thesis using that(2) [of dataset] by (simp add: with_scope_def Let_def)
qed

context handler_frame
begin

lemma refusal_frame:
  "along R (io_then (modify d (\<lambda>s. s\<lparr>ds_error := e, ds_notice := n, ds_confirmAction := None\<rparr>)) render)"
  "along R (io_then (modify d (\<lambda>s. s\<lparr>ds_confirmAction := None\<rparr>)) render)"
  by (intro frame quiet_frame)+

lemma with_scope_frame:
  assumes "with_scope env d action dataset k w = (r, w')" "\<And>ds. k ds w = (r, w') \<Longrightarrow> R w w'"
  shows "R w w'"
proof (cases rule: with_scope_cases [of env d action dataset k w])
  case (refused message)
  then show ?thesis using assms(1) alongD [OF refusal_frame(1)] by metis
qed (use assms in auto)

end

text \<open>The confirmed action runs with the dataset that was confirmed, completed where it names instructions.\<close>

definition fixed_target :: "string \<Rightarrow> jsobj \<Rightarrow> bool" where
  "fixed_target action ds \<longleftrightarrow>
     action \<noteq> ''delete-agents'' \<or> obj_get ds (js ''agentsScope'') = jlit ''global''
     \<or> (obj_get ds (js ''agentsScope'') = jlit ''project'' \<and> truthy (obj_get ds (js ''projectId'')))"

lemma agents_dataset_fixed: "agents_dataset env p s ds = Inr ds' \<Longrightarrow> fixed_target action ds'"
  by (auto simp: agents_dataset_def fixed_target_def Let_def split: if_splits)

lemma agents_dataset_keeps:
  assumes "agents_dataset env p s ds = Inr ds'" "fixed_target ''delete-agents'' ds"
  shows "removal_request env' project ''delete-agents'' ds' = removal_request env' project ''delete-agents'' ds"
  using assms by (auto simp: agents_dataset_def fixed_target_def removal_request_def js_or_def Let_def split: if_splits)

lemma confirmed_as_asked:
  assumes "fixed_target a ds" "confirmed_action env d a ds w = (r, w')"
  shows "sends (as_asked env (selected_project w) a ds) w w'"
proof (cases rule: with_scope_cases [of env d a ds "perform env d a" w])
  case (refused message)
  then show ?thesis using assms(2) alongD [OF sending.refusal_frame(1)] unfolding confirmed_action_def by metis
next
  case (scoped ds')
  have "removal_request env (selected_project w) a ds' = removal_request env (selected_project w) a ds \<or> a \<notin> set DESTRUCTIVE"
  proof (cases "a \<in> {''save-agents'', ''delete-agents''}")
    case True
    then show ?thesis using assms(1) scoped(2) agents_dataset_keeps by (auto simp: DESTRUCTIVE_def)
  qed (use scoped(3) in simp)
  moreover have "sends (as_asked env (selected_project w) a ds') w w'"
    using perform_as_asked scoped(1) assms(2) unfolding confirmed_action_def by metis
  ultimately show ?thesis by (auto simp: as_asked_def elim: sends_mono)
qed

text \<open>The handler of a confirmation, and of any other action.\<close>

lemma confirm_run:
  "handleDesktopAction env ''confirm-desktop'' dataset w =
     (let d = dp_destination (dr_panel (hw_run w)) in
      if d = ''chats'' then (Inr (), w)
      else io_then (modify d (\<lambda>s. s\<lparr>ds_confirmAction := None\<rparr>))
        (case ds_confirmAction (dp_features (dr_panel (hw_run w)) d) of
           Some (pending, ds) \<Rightarrow> confirmed_action env d pending ds | None \<Rightarrow> render) w)"
  by (simp add: handleDesktopAction_def with_scope_def Let_def)

definition dispatch :: "desktop_env \<Rightarrow> string \<Rightarrow> string \<Rightarrow> jsobj \<Rightarrow> unit handler" where
  "dispatch env d action ds =
     (if action = ''cancel-desktop-confirm'' then io_then (modify d (\<lambda>s. s\<lparr>ds_confirmAction := None\<rparr>)) render
      else if action \<in> set DESTRUCTIVE then io_then (modify d (\<lambda>s. s\<lparr>ds_confirmAction := Some (action, ds)\<rparr>)) render
      else perform env d action ds)"

lemma unconfirmed_run:
  "action \<noteq> ''confirm-desktop'' \<Longrightarrow> handleDesktopAction env action dataset w =
     (let d = dp_destination (dr_panel (hw_run w)) in
      if d = ''chats'' then (Inr (), w) else with_scope env d action dataset (dispatch env d action) w)"
  unfolding handleDesktopAction_def dispatch_def Let_def by simp

lemma unconfirmed_harmless:
  assumes "action \<noteq> ''confirm-desktop''" "handleDesktopAction env action dataset w = (r, w')"
  shows "sends harmless w w'"
proof (cases "dp_destination (dr_panel (hw_run w)) = ''chats''")
  case True
  then show ?thesis using assms by (simp add: unconfirmed_run sending.here)
next
  case False
  let ?d = "dp_destination (dr_panel (hw_run w))"
  have "along (sends harmless) (modify d f)" for d f
    by (auto simp: along_def sends_def modify_def io_call_def)
  then have "along (sends harmless) (io_then (modify d f) render)" for d f
    by (intro sending.frame)
  then have "sends harmless w w'" if "dispatch env ?d action ds w = (r, w')" for ds
    using that perform_harmless [of action env ?d ds w r w']
    by (auto simp: dispatch_def along_def split: if_splits)
  moreover have "with_scope env ?d action dataset (dispatch env ?d action) w = (r, w')"
    using assms False by (simp add: unconfirmed_run Let_def)
  ultimately show ?thesis by (rule sending.with_scope_frame [rotated])
qed

section \<open>Which confirmations are pending\<close>

definition keeps :: "desktop_run \<Rightarrow> desktop_run \<Rightarrow> bool" where
  "keeps c c' \<longleftrightarrow> (\<forall>d. ds_confirmAction (dp_features (dr_panel c') d) \<in> {ds_confirmAction (dp_features (dr_panel c) d), None})"

lemma keeps_refl: "keeps c c"
  by (simp add: keeps_def)

lemma keeps_trans: "keeps c c' \<Longrightarrow> keeps c' c'' \<Longrightarrow> keeps c c''"
  unfolding keeps_def by (metis insert_iff singletonD)

text \<open>Nothing in the loading of the surfaces asks for a confirmation.\<close>

lemma loading_keeps:
  "keeps c (c\<lparr>dr_panel := set_loading d (dr_panel c)\<rparr>)" "keeps c (c\<lparr>dr_panel := load_requests tk (dr_panel c), dr_pending := q\<rparr>)"
  by (auto simp: keeps_def set_loading_def load_requests_def Let_def)

lemma render_keeps: "keeps c (renderDesktopSurface c)"
  by (auto simp: keeps_def renderDesktopSurface_def start_load_def load_requests_def set_loading_def Let_def)

lemma load_keeps: "keeps c (loadDesktopDestination d force c)"
proof -
  let ?c = "renderDesktopSurface (c\<lparr>dr_panel := set_loading d (dr_panel c)\<rparr>)"
  have "keeps c ?c" by (rule keeps_trans [OF loading_keeps(1) render_keeps])
  from keeps_trans [OF this loading_keeps(2)] show ?thesis
    by (simp add: loadDesktopDestination_def Let_def keeps_refl)
qed

lemma finish_keeps: "keeps c (c\<lparr>dr_panel := w\<rparr>) \<Longrightarrow> keeps c (finish_load tk w c)"
  unfolding finish_load_def load_finally_def
  by (auto intro!: keeps_trans [OF _ render_keeps]) (auto simp: keeps_def)

lemma panel_keeps:
  "keeps c (c\<lparr>dr_panel := load_catch fmt tk e (dr_panel c)\<rparr>)" "keeps c (c\<lparr>dr_panel := give_up tk (dr_panel c)\<rparr>)"
  "keeps c (c\<lparr>dr_panel := w\<rparr>) \<Longrightarrow> keeps c (c\<lparr>dr_panel := load_tail tk w\<rparr>)"
  "keeps c (c\<lparr>dr_panel := w\<rparr>) \<Longrightarrow> keeps c (c\<lparr>dr_panel := set_data d k v w\<rparr>)"
  "keeps c (c\<lparr>dr_panel := agents_data tk g p (dr_panel c)\<rparr>)"
  by (auto simp: keeps_def load_catch_def give_up_def queueSettingsReload_def load_tail_def set_data_def agents_data_def Let_def)

lemma list_answer_keeps: "list_answer tk v (dr_panel c) = Inr w \<Longrightarrow> keeps c (c\<lparr>dr_panel := w\<rparr>)"
  by (auto simp: list_answer_def set_data_def keeps_def split: if_splits option.splits)

lemma answer_keeps: "keeps c (first_answer fmt tk a c)" "keeps c (mcp_answer fmt tk a c)"
proof -
  have self: "keeps c (c\<lparr>dr_panel := dr_panel c\<rparr>)" by (simp add: keeps_refl)
  note rules = finish_keeps panel_keeps self keeps_refl
  show "keeps c (mcp_answer fmt tk a c)"
    by (cases a) (auto simp: mcp_answer_def Let_def intro!: rules)
  have mcp: "keeps c (c\<lparr>dr_panel := issue x y w, dr_pending := q\<rparr>)" if "keeps c (c\<lparr>dr_panel := w\<rparr>)" for x y w q
    using that by (simp add: keeps_def)
  show "keeps c (first_answer fmt tk a c)"
    by (cases a) (auto simp: first_answer_def Let_def intro!: rules mcp intro: list_answer_keeps split: sum.split)
qed

lemma load_step_keeps: "load_step fmt served c c' \<Longrightarrow> keeps c c'"
proof (induction rule: load_step.induct)
  case (selects c d)
  let ?d = "if list_ex (\<lambda>(i, label, icon). i = d) DESTINATIONS then d else ''chats''"
  let ?c = "c\<lparr>dr_panel := (dr_panel c)\<lparr>dp_destination := ?d\<rparr>\<rparr>"
  have "keeps c ?c" by (simp add: keeps_def)
  with keeps_trans [OF this load_keeps]
  have "keeps c (if ?d \<noteq> ''chats'' then loadDesktopDestination ?d False ?c else ?c)" by (cases "?d = ''chats''") simp_all
  from keeps_trans [OF this render_keeps] show ?case by (simp add: selectDesktopDestination_def Let_def)
next
  case (reloads c)
  let ?c = "c\<lparr>dr_panel := (upd ''settings'' (\<lambda>s. s\<lparr>ds_agentsReloadQueued := False\<rparr>) (dr_panel c))\<lparr>dp_microtasks := dp_microtasks (dr_panel c) - 1\<rparr>\<rparr>"
  have "keeps c ?c" by (simp add: keeps_def)
  with keeps_trans [OF this load_keeps] show ?case by (simp add: run_reload_def Let_def)
next
  case (answers i c tk a)
  have "keeps c (take_pending i c)" by (simp add: keeps_def take_pending_def)
  from keeps_trans [OF this answer_keeps(1)] show ?case .
next
  case (lists i c tk a)
  have "keeps c (take_pending i c)" by (simp add: keeps_def take_pending_def)
  from keeps_trans [OF this answer_keeps(2)] show ?case .
qed (simp_all add: render_keeps load_keeps keeps_def [of _ "_\<lparr>dr_panel := _\<rparr>"])

text \<open>
  The other actions of the surfaces, a confirmation and a cancellation among them, ask for
  no confirmation either, if what happens while they await does not.
\<close>

definition quiet_during :: "desktop_env \<Rightarrow> bool" where
  "quiet_during env \<longleftrightarrow> (\<forall>n c. keeps c (de_during env n c))"

definition keeps_run :: "desktop_env \<Rightarrow> handler_world \<Rightarrow> handler_world \<Rightarrow> bool" where
  "keeps_run env w w' \<longleftrightarrow> (quiet_during env \<longrightarrow> keeps (hw_run w) (hw_run w'))"

interpretation keeping: handler_frame "keeps_run env" env "\<lambda>_ _. True" for env
proof
  show "keeps_run env w w" for w by (simp add: keeps_run_def keeps_refl)
  show "keeps_run env u v \<Longrightarrow> keeps_run env v w \<Longrightarrow> keeps_run env u w" for u v w
    using keeps_trans by (auto simp: keeps_run_def)
  show "quiet f \<Longrightarrow> along (keeps_run env) (modify d f)" for f d
    by (auto simp: along_def keeps_run_def modify_def io_call_def keeps_def quiet_def)
  show "along (keeps_run env) (callWS env action payload)" for action payload
  proof -
    have "keeps c (c\<lparr>dr_panel := issue action payload (dr_panel c)\<rparr>)" for c by (simp add: keeps_def)
    then have "quiet_during env \<Longrightarrow> keeps c (de_during env n (c\<lparr>dr_panel := issue action payload (dr_panel c)\<rparr>))" for n c
      unfolding quiet_during_def by (blast intro: keeps_trans)
    then show ?thesis by (auto simp: along_def keeps_run_def callWS_def Let_def)
  qed
qed (auto simp: along_def keeps_run_def render_def await_def load_now_def open_url_def io_call_def render_keeps load_keeps
    keeps_refl quiet_during_def)

lemma other_action_keeps:
  assumes "action \<notin> set DESTRUCTIVE" "quiet_during env" "handleDesktopAction env action dataset w = (r, w')"
  shows "keeps (hw_run w) (hw_run w')"
proof -
  let ?d = "dp_destination (dr_panel (hw_run w))"
  have perform: "keeps_run env u w'" if "perform env d a ds u = (r, w')" for d a ds u
    by (rule keeping.perform_frame [OF _ _ _ that]) simp_all
  have confirmed: "along (keeps_run env) (confirmed_action env d a ds)" for d a ds
  proof -
    have "keeps_run env u v" if "confirmed_action env d a ds u = (q, v)" for u q v
      using that unfolding confirmed_action_def
      by (rule keeping.with_scope_frame) (rule keeping.perform_frame, simp_all)
    then show ?thesis by (simp add: along_def)
  qed
  have "keeps_run env w w'"
  proof (cases "?d = ''chats''")
    case True
    then have "w' = w" using assms(3) by (simp add: handleDesktopAction_def)
    then show ?thesis by (simp add: keeping.here)
  next
    case False
    show ?thesis
    proof (cases "action = ''confirm-desktop''")
      case True
      let ?m = "io_then (modify ?d (\<lambda>s. s\<lparr>ds_confirmAction := None\<rparr>))
        (case ds_confirmAction (dp_features (dr_panel (hw_run w)) ?d) of
           Some (pending, ds) \<Rightarrow> confirmed_action env ?d pending ds | None \<Rightarrow> render)"
      have "along (keeps_run env) ?m"
        by (auto intro!: keeping.along_then keeping.quiet_frame keeping.render_frame confirmed split: option.split)
      moreover have "?m w = (r, w')" using assms(3) True False by (simp add: confirm_run Let_def)
      ultimately show ?thesis by (rule alongD)
    next
      case False2: False
      have "keeps_run env w w'" if "dispatch env ?d action ds w = (r, w')" for ds
        using that assms(1) alongD [OF keeping.refusal_frame(2)] perform by (auto simp: dispatch_def split: if_splits)
      moreover have "with_scope env ?d action dataset (dispatch env ?d action) w = (r, w')"
        using assms(3) False False2 by (simp add: unconfirmed_run Let_def)
      ultimately show ?thesis by (rule keeping.with_scope_frame [rotated])
    qed
  qed
  then show ?thesis using assms(2) by (simp add: keeps_run_def)
qed

section \<open>The clicks a confirmation answers\<close>

text \<open>
  A click on a control that removes something: the surface, the action and the dataset of
  the control, completed at that moment where it names instructions. A refused click and
  one while no surface is shown ask for nothing.
\<close>

type_synonym click = "string \<times> string \<times> jsobj"

definition first_click :: "desktop_env \<Rightarrow> desktop_panel \<Rightarrow> string \<Rightarrow> jsobj \<Rightarrow> click list" where
  "first_click env p action dataset =
     (let d = dp_destination p in
      if d = ''chats'' then []
      else if action = ''delete-agents''
      then (case agents_dataset env p (dp_features p d) dataset of Inl message \<Rightarrow> [] | Inr ds \<Rightarrow> [(d, action, ds)])
      else [(d, action, dataset)])"

text \<open>
  The states of the desktop surfaces with the clicks that led to them: the surfaces start
  empty; a click on a control that removes something is handled, which takes no await; and
  everything else may happen at any time, in any number of steps, as long as it asks for no
  confirmation, which \<open>load_step_keeps\<close> and \<open>other_action_keeps\<close> show of the other code.
\<close>

inductive desktop_history :: "click list \<Rightarrow> desktop_run \<Rightarrow> bool" where
  opened: "desktop_history [] (initial_run p t k)"
| proceeds: "desktop_history clicks c \<Longrightarrow> keeps c c' \<Longrightarrow> desktop_history clicks c'"
| clicked: "desktop_history clicks (hw_run w) \<Longrightarrow> action \<in> set DESTRUCTIVE \<Longrightarrow>
    handleDesktopAction env action dataset w = (r, w') \<Longrightarrow>
    desktop_history (clicks @ first_click env (dr_panel (hw_run w)) action dataset) (hw_run w')"

definition last_click :: "string \<Rightarrow> click list \<Rightarrow> click option" where
  "last_click d clicks = find (\<lambda>(d', action, dataset). d' = d) (rev clicks)"

definition accounted :: "click list \<Rightarrow> desktop_run \<Rightarrow> bool" where
  "accounted clicks c \<longleftrightarrow> (\<forall>d a ds. ds_confirmAction (dp_features (dr_panel c) d) = Some (a, ds) \<longrightarrow>
     fixed_target a ds \<and> last_click d clicks = Some (d, a, ds))"

lemma accounted_keeps: "accounted clicks c \<Longrightarrow> keeps c c' \<Longrightarrow> accounted clicks c'"
  unfolding accounted_def keeps_def by (metis insert_iff option.distinct(1) singletonD)

lemma accounted_store:
  assumes "accounted clicks (hw_run w)" "fixed_target action ds"
    "io_then (modify d (\<lambda>s. s\<lparr>ds_confirmAction := Some (action, ds)\<rparr>)) render w = (r, w')"
  shows "accounted (clicks @ [(d, action, ds)]) (hw_run w')"
proof -
  let ?c = "(hw_run w)\<lparr>dr_panel := upd d (\<lambda>s. s\<lparr>ds_confirmAction := Some (action, ds)\<rparr>) (dr_panel (hw_run w))\<rparr>"
  have "accounted (clicks @ [(d, action, ds)]) ?c"
    using assms(1,2) by (auto simp: accounted_def last_click_def)
  from accounted_keeps [OF this render_keeps] show ?thesis
    using assms(3) by (auto simp: io_defs modify_def render_def)
qed

lemma history_accounted: "desktop_history clicks c \<Longrightarrow> accounted clicks c"
proof (induction rule: desktop_history.induct)
  case (opened p t k)
  then show ?case by (simp add: accounted_def initial_run_def createDesktopFeatureState_def)
next
  case (proceeds clicks c c')
  then show ?case by (blast intro: accounted_keeps)
next
  case (clicked clicks w action env dataset r w')
  let ?p = "dr_panel (hw_run w)"
  let ?d = "dp_destination ?p"
  have a: "action \<noteq> ''confirm-desktop''" "action \<noteq> ''cancel-desktop-confirm''" "action \<noteq> ''save-agents''"
    using clicked(2) by (auto simp: DESTRUCTIVE_def)
  show ?case
  proof (cases "?d = ''chats''")
    case True
    then have "w' = w" using clicked(3) a by (simp add: unconfirmed_run)
    then show ?thesis using clicked.IH True by (simp add: first_click_def)
  next
    case False
    then have run: "with_scope env ?d action dataset (dispatch env ?d action) w = (r, w')"
      using clicked(3) a by (simp add: unconfirmed_run Let_def)
    show ?thesis
    proof (cases rule: with_scope_cases [of env ?d action dataset "dispatch env ?d action" w])
      case (refused message)
      let ?c = "(hw_run w)\<lparr>dr_panel := upd ?d (\<lambda>s. s\<lparr>ds_error := js message, ds_notice := [], ds_confirmAction := None\<rparr>) ?p\<rparr>"
      have "hw_run w' = renderDesktopSurface ?c" using refused(1) run by (auto simp: io_defs modify_def render_def)
      moreover have "keeps (hw_run w) ?c" by (simp add: keeps_def)
      ultimately have "accounted clicks (hw_run w')"
        using accounted_keeps [OF clicked.IH keeps_trans [OF _ render_keeps]] by simp
      then show ?thesis using refused(2,3) a False by (simp add: first_click_def Let_def)
    next
      case (scoped ds)
      have "first_click env ?p action dataset = [(?d, action, ds)]"
        using scoped(2,3) a False by (cases "action = ''delete-agents''") (auto simp: first_click_def Let_def)
      moreover have "fixed_target action ds"
        using scoped(2) agents_dataset_fixed by (cases "action = ''delete-agents''") (auto simp: fixed_target_def)
      moreover have "io_then (modify ?d (\<lambda>s. s\<lparr>ds_confirmAction := Some (action, ds)\<rparr>)) render w = (r, w')"
        using run scoped(1) a clicked(2) by (simp add: dispatch_def)
      ultimately show ?thesis using accounted_store [OF clicked.IH] by simp
    qed
  qed
qed

lemma confirmation_as_asked:
  assumes "handleDesktopAction env ''confirm-desktop'' dataset w = (r, w')" "accounted clicks (hw_run w)"
  shows "sends harmless w w' \<or> (\<exists>a ds. last_click (dp_destination (dr_panel (hw_run w))) clicks = Some (dp_destination (dr_panel (hw_run w)), a, ds)
    \<and> sends (as_asked env (selected_project w) a ds) w w')"
proof -
  let ?d = "dp_destination (dr_panel (hw_run w))"
  define w1 where "w1 = w\<lparr>hw_run := (hw_run w)\<lparr>dr_panel := upd ?d (\<lambda>s. s\<lparr>ds_confirmAction := None\<rparr>) (dr_panel (hw_run w))\<rparr>\<rparr>"
  have w1: "hw_calls w1 = hw_calls w" "selected_project w1 = selected_project w"
    by (simp_all add: w1_def desktopProjectSelector_def desktopWorkspace_def)
  have step: "io_then (modify ?d (\<lambda>s. s\<lparr>ds_confirmAction := None\<rparr>)) m w = m w1" for m :: "unit handler"
    by (simp add: io_defs modify_def w1_def)
  show ?thesis
  proof (cases "?d = ''chats''")
    case True
    then show ?thesis using assms(1) by (simp add: confirm_run sending.here)
  next
    case False
    then have run: "(case ds_confirmAction (dp_features (dr_panel (hw_run w)) ?d) of
        Some (pending, ds) \<Rightarrow> confirmed_action env ?d pending ds | None \<Rightarrow> render) w1 = (r, w')"
      using assms(1) by (simp add: confirm_run Let_def step)
    show ?thesis
    proof (cases "ds_confirmAction (dp_features (dr_panel (hw_run w)) ?d)")
      case None
      then have "sends harmless w1 w'" using run alongD [OF sending.render_frame] by auto
      then show ?thesis using w1(1) by (simp add: sends_def)
    next
      case (Some q)
      obtain a ds where q: "q = (a, ds)" by (cases q)
      then have "fixed_target a ds" "last_click ?d clicks = Some (?d, a, ds)"
        using assms(2) Some by (auto simp: accounted_def)
      moreover have "sends (as_asked env (selected_project w1) a ds) w1 w'"
        using confirmed_as_asked [OF calculation(1)] run Some q by auto
      ultimately show ?thesis using w1 by (auto simp: sends_def)
    qed
  qed
qed

section \<open>Properties\<close>

text \<open>
  C30: Nothing is deleted, removed or uninstalled without a confirmation. Whatever happened
  on the surfaces and whatever goes on while the handler awaits, a request that removes
  something is sent only while a confirmation is handled, and it is the request of the last
  click on a removing control of that surface: of the same kind, with the identifier (for
  an automation also the revision, for instructions the scope and the project) that click
  named. Only the project of a skill is not part of the click: it is the one selected when
  the confirmation is handled.
\<close>

theorem destructive_needs_confirmation:
  assumes history: "desktop_history clicks (hw_run w)"
    and run: "handleDesktopAction env action dataset w = (r, w')" "hw_calls w' = hw_calls w @ xs"
    and call: "(ws, payload) \<in> set xs" "ws \<in> set DESTRUCTIVE_CALLS"
  shows "action = ''confirm-desktop'' \<and>
    (\<exists>a ds. last_click (dp_destination (dr_panel (hw_run w))) clicks = Some (dp_destination (dr_panel (hw_run w)), a, ds)
       \<and> a \<in> set DESTRUCTIVE \<and> (ws, payload) = removal_request env (desktopProjectSelector (dr_panel (hw_run w))) a ds)"
proof -
  have no: "\<not> sends harmless w w'" using run(2) call by (auto simp: sends_def list_all_iff harmless_def)
  then have act: "action = ''confirm-desktop''" using unconfirmed_harmless run(1) by blast
  from confirmation_as_asked [OF run(1) [unfolded act] history_accounted [OF history]] no
  obtain a ds where "last_click (dp_destination (dr_panel (hw_run w))) clicks = Some (dp_destination (dr_panel (hw_run w)), a, ds)"
    "as_asked env (selected_project w) a ds (ws, payload)"
    using run(2) call(1) by (auto simp: sends_def list_all_iff)
  then show ?thesis using act call(2) by (auto simp: as_asked_def)
qed

definition sample_env :: desktop_env where
  "sample_env =
     \<lparr>de_answer = (\<lambda>_. Inl JNull), de_during = (\<lambda>_ run. run), de_values = [], de_scopeValue = JUndefined,
      de_scopeProject = JUndefined, de_contentValue = JUndefined, de_contentProject = JUndefined, de_popup = False,
      de_URL = (\<lambda>_. None), de_num = (\<lambda>_. NaN), de_fmt = (\<lambda>_. [])\<rparr>"

definition before_click :: handler_world where
  "before_click = \<lparr>hw_run = (initial_run JNull JNull JNull)\<lparr>dr_panel := (dr_panel (initial_run JNull JNull JNull))\<lparr>dp_destination := ''skills''\<rparr>\<rparr>,
     hw_calls = [], hw_opened = []\<rparr>"

definition sample_world :: handler_world where
  "sample_world = snd (handleDesktopAction sample_env ''delete-skill'' [(js ''id'', jlit ''lint'')] before_click)"

lemmas handler_run = handleDesktopAction_def with_scope_def confirmed_action_def perform_def local_action_def mutation_request_def
  desktopMutation_def callWS_def modify_def render_def set_error_def io_defs sample_env_def before_click_def
  createDesktopFeatureState_def renderDesktopSurface_def reload_needed_def desktopProjectSelector_def desktopWorkspace_def
  obj_get_def Let_def initial_run_def DESTRUCTIVE_def upd_def

lemma sample_pending:
  "sample_world = before_click\<lparr>hw_run := (hw_run before_click)\<lparr>dr_panel := upd ''skills''
     (\<lambda>s. s\<lparr>ds_confirmAction := Some (''delete-skill'', [(js ''id'', jlit ''lint'')])\<rparr>) (dr_panel (hw_run before_click))\<rparr>\<rparr>"
  by (simp add: sample_world_def handler_run)

lemma sample_history: "desktop_history [(''skills'', ''delete-skill'', [(js ''id'', jlit ''lint'')])] (hw_run sample_world)"
proof -
  have "keeps (initial_run JNull JNull JNull) (hw_run before_click)" by (simp add: keeps_def before_click_def)
  from desktop_history.proceeds [OF desktop_history.opened this] have "desktop_history [] (hw_run before_click)" .
  moreover obtain r where run: "handleDesktopAction sample_env ''delete-skill'' [(js ''id'', jlit ''lint'')] before_click = (r, sample_world)"
    unfolding sample_world_def by (metis prod.collapse)
  moreover have "first_click sample_env (dr_panel (hw_run before_click)) ''delete-skill'' [(js ''id'', jlit ''lint'')]
      = [(''skills'', ''delete-skill'', [(js ''id'', jlit ''lint'')])]"
    by (simp add: first_click_def before_click_def)
  ultimately show ?thesis using desktop_history.clicked [OF _ _ run, of "[]"] by (simp add: DESTRUCTIVE_def)
qed

lemma sample_confirmation:
  "hw_calls (snd (handleDesktopAction sample_env ''confirm-desktop'' [] sample_world))
     = [(''delete_skill'', [(js ''workspace_path'', jlit ''.''), (js ''name'', jlit ''lint'')])]"
  by (simp add: sample_pending handler_run)

theorem destructive_needs_confirmation_witness:
  "desktop_history [(''skills'', ''delete-skill'', [(js ''id'', jlit ''lint'')])] (hw_run sample_world)
   \<and> (''delete_skill'', [(js ''workspace_path'', jlit ''.''), (js ''name'', jlit ''lint'')])
     = removal_request sample_env (desktopProjectSelector (dr_panel (hw_run sample_world))) ''delete-skill'' [(js ''id'', jlit ''lint'')]"
proof -
  obtain r w' where run: "handleDesktopAction sample_env ''confirm-desktop'' [] sample_world = (r, w')" by force
  have "hw_calls w' = hw_calls sample_world @ [(''delete_skill'', [(js ''workspace_path'', jlit ''.''), (js ''name'', jlit ''lint'')])]"
    using sample_confirmation run by (simp add: sample_pending before_click_def)
  from destructive_needs_confirmation [OF sample_history run this, of "''delete_skill''"] sample_history show ?thesis
    by (auto simp: DESTRUCTIVE_CALLS_def last_click_def split: if_splits)
qed

end
