(* ===== verification/PreviewPolicy.thy ===== *)
theory PreviewPolicy
  imports SafeDom Sha256
begin

text \<open>
  The rules by which \<open>frontend/src/codex-bridge-panel.js\<close> decides whether and how much
  of an artifact is previewed: the display names, the error classification, the size
  limits and \<open>readBoundedPreviewResponse\<close>, which reads a response body chunk by chunk and
  gives up as soon as the limit is exceeded. The body is a stream of read results, one per
  \<open>reader.read()\<close>; it may go on for ever, so the loop is a partial function whose
  termination is a theorem.
\<close>

section \<open>Display names and errors\<close>

definition isGeneratedImageArtifact :: "jsval \<Rightarrow> bool" where
  "isGeneratedImageArtifact artifact \<longleftrightarrow> dot artifact ''source'' = jlit ''generated_image''"

definition displayArtifactFilename :: "(rat \<Rightarrow> jstr) \<Rightarrow> jsval \<Rightarrow> jstr" where
  "displayArtifactFilename fmt value =
     (let slashed = map (\<lambda>u. if u = 92 then 47 else u) (js_String fmt (js_coalesce value (JStr [])))
      in sanitizeFilename fmt (JStr (last (split_on 47 slashed))) (js ''Generated image''))"

definition displayArtifactMime :: "(rat \<Rightarrow> jstr) \<Rightarrow> jsval \<Rightarrow> jstr" where
  "displayArtifactMime fmt value =
     (let mime = take 120 (js_trim (hd (split_on 59 (js_String fmt (js_coalesce value (JStr []))))))
      in if mime \<noteq> [] then mime else js ''image'')"

definition artifactErrorCandidates :: "jsval \<Rightarrow> jsval list" where
  "artifactErrorCandidates error =
     [error, dot error ''body'', dot (dot error ''body'') ''error'', dot error ''error'', dot error ''detail'']"

definition has_code :: "jsval \<Rightarrow> bool" where
  "has_code candidate \<longleftrightarrow> truthy candidate \<and> is_object candidate \<and> \<not> nullish (dot candidate ''code'')"

definition artifactErrorCode :: "(rat \<Rightarrow> jstr) \<Rightarrow> jsval \<Rightarrow> jstr" where
  "artifactErrorCode fmt error =
     (case find has_code (artifactErrorCandidates error) of
        None \<Rightarrow> []
      | Some candidate \<Rightarrow> js_lower (js_trim (js_String fmt (dot candidate ''code''))))"

definition canDeferArtifactRefresh :: "(rat \<Rightarrow> jstr) \<Rightarrow> jsval \<Rightarrow> bool" where
  "canDeferArtifactRefresh fmt error \<longleftrightarrow> artifactErrorCode fmt error = js ''reservation_conflict''"

section \<open>Limits\<close>

definition ARTIFACT_PREVIEW_MAX_BYTES :: nat where
  "ARTIFACT_PREVIEW_MAX_BYTES = 512 * 1024"

definition PDF_PREVIEW_MAX_BYTES :: nat where
  "PDF_PREVIEW_MAX_BYTES = 8 * 1024 * 1024"

definition GENERATED_IMAGE_PREVIEW_MAX_BYTES :: nat where
  "GENERATED_IMAGE_PREVIEW_MAX_BYTES = 8 * 1024 * 1024"

record limit =
  lim_bytes :: nat
  lim_label :: jstr

definition artifactPreviewLimit :: "(rat \<Rightarrow> jstr) \<Rightarrow> jsval \<Rightarrow> limit" where
  "artifactPreviewLimit fmt artifact =
     (if isPdfArtifactCandidate fmt artifact (JObj [])
        then \<lparr>lim_bytes = PDF_PREVIEW_MAX_BYTES, lim_label = js ''8 MB''\<rparr>
      else if isGeneratedImageArtifact artifact
        then \<lparr>lim_bytes = GENERATED_IMAGE_PREVIEW_MAX_BYTES, lim_label = js ''8 MB''\<rparr>
      else \<lparr>lim_bytes = ARTIFACT_PREVIEW_MAX_BYTES, lim_label = js ''512 KB''\<rparr>)"

datatype size_state = SizeUnknown | WithinLimit | Oversized

definition artifactPreviewSizeState :: "(rat \<Rightarrow> jstr) \<Rightarrow> jsval \<Rightarrow> size_state" where
  "artifactPreviewSizeState fmt artifact =
     (let sizeBytes = dot artifact ''size_bytes'' in
      if \<not> is_safe_integer sizeBytes \<or> to_int sizeBytes < 0 then SizeUnknown
      else if to_int sizeBytes \<le> int (lim_bytes (artifactPreviewLimit fmt artifact)) then WithinLimit
      else Oversized)"

definition typed :: "jsval \<Rightarrow> jsval" where
  "typed t = JObj [(js ''type'', t)]"

definition isAutoPreviewCandidate :: "(rat \<Rightarrow> jstr) \<Rightarrow> jsval \<Rightarrow> bool" where
  "isAutoPreviewCandidate fmt artifact \<longleftrightarrow>
     artifactPreviewSizeState fmt artifact = WithinLimit
     \<and> (kind (previewDescriptor fmt artifact (typed (js_or (dot artifact ''mime_type'') (JStr []))) False) \<noteq> KBinary
        \<or> isPdfArtifactCandidate fmt artifact (JObj []))"

definition limited_message :: "jstr \<Rightarrow> jstr" where
  "limited_message label =
     js ''Preview limited to files up to '' @ label @ js ''. Download it to view the full file.''"

definition previewUnavailableMessage :: "(rat \<Rightarrow> jstr) \<Rightarrow> jsval \<Rightarrow> size_state \<Rightarrow> jstr" where
  "previewUnavailableMessage fmt artifact sizeState =
     (if sizeState = Oversized then limited_message (lim_label (artifactPreviewLimit fmt artifact))
      else js ''Preview unavailable because the file size is unknown. Download it to view the full file.'')"

section \<open>The bounded read\<close>

record blob =
  blob_bytes :: "byte list"
  blob_type :: jstr

text \<open>\<open>new Blob(chunks, { type })\<close>: the type is lower-cased, or dropped if it is not printable ASCII.\<close>

definition new_Blob :: "byte list \<Rightarrow> jstr \<Rightarrow> blob" where
  "new_Blob bytes type =
     \<lparr>blob_bytes = bytes, blob_type = (if list_all (\<lambda>u. 32 \<le> u \<and> u \<le> 126) type then js_lower type else [])\<rparr>"

text \<open>What one \<open>reader.read()\<close> gives: the end, a view of bytes, another value, or a rejection.\<close>

datatype read_result = ReadDone | ReadChunk "byte list" | ReadOther | ReadFails

record response =
  rs_ok :: bool
  rs_length :: jsval
  rs_type :: jsval
  rs_body :: "(nat \<Rightarrow> read_result) option"

text \<open>
  The outcome of reading: the rejection or the body's bytes (\<open>None\<close> where the source
  returns null), with the number of reads made and whether the body was asked to cancel.
\<close>

record 'a read =
  rd_outcome :: "unit + 'a option"
  rd_reads :: nat
  rd_cancelled :: bool

partial_function (option) read_loop ::
  "nat \<Rightarrow> (nat \<Rightarrow> read_result) \<Rightarrow> nat \<Rightarrow> byte list \<Rightarrow> byte list read option" where
  "read_loop maximumBytes stream i received =
     (case stream i of
        ReadDone \<Rightarrow> Some \<lparr>rd_outcome = Inr (Some received), rd_reads = Suc i, rd_cancelled = False\<rparr>
      | ReadFails \<Rightarrow> Some \<lparr>rd_outcome = Inl (), rd_reads = Suc i, rd_cancelled = False\<rparr>
      | ReadOther \<Rightarrow> Some \<lparr>rd_outcome = Inr None, rd_reads = Suc i, rd_cancelled = True\<rparr>
      | ReadChunk chunk \<Rightarrow>
          if length received + length chunk > maximumBytes
          then Some \<lparr>rd_outcome = Inr None, rd_reads = Suc i, rd_cancelled = True\<rparr>
          else read_loop maximumBytes stream (Suc i) (received @ chunk))"

text \<open>
  The \<open>Content-Length\<close> test: a header of decimal digits is refused when it is not a safe
  integer or is above the limit. The double nearest to such a number is a safe integer
  exactly when the number is at most \<open>MAX_SAFE\<close>, and then it is the number itself.
\<close>

definition length_refused :: "jsval \<Rightarrow> nat \<Rightarrow> bool" where
  "length_refused header maximumBytes =
     (case header of
        JStr s \<Rightarrow> s \<noteq> [] \<and> list_all is_digit s
          \<and> (int (read_dec s 0) > MAX_SAFE \<or> read_dec s 0 > maximumBytes)
      | _ \<Rightarrow> False)"

definition response_type :: "(rat \<Rightarrow> jstr) \<Rightarrow> jsval \<Rightarrow> jstr" where
  "response_type fmt header =
     (let contentType = take 120 (js_trim (hd (split_on 59
            (js_String fmt (js_or header (jlit ''application/octet-stream''))))))
      in if contentType \<noteq> [] then contentType else js ''application/octet-stream'')"

definition readBoundedPreviewResponse ::
  "(rat \<Rightarrow> jstr) \<Rightarrow> response \<Rightarrow> nat \<Rightarrow> blob read option" where
  "readBoundedPreviewResponse fmt response maximumBytes =
     (if length_refused (rs_length response) maximumBytes
      then Some \<lparr>rd_outcome = Inr None, rd_reads = 0, rd_cancelled = True\<rparr>
      else (case rs_body response of
         None \<Rightarrow> Some \<lparr>rd_outcome = Inr None, rd_reads = 0, rd_cancelled = False\<rparr>
       | Some stream \<Rightarrow>
           map_option (\<lambda>r. \<lparr>rd_outcome = map_sum id (map_option
                (\<lambda>bytes. new_Blob bytes (response_type fmt (rs_type response)))) (rd_outcome r),
              rd_reads = rd_reads r, rd_cancelled = rd_cancelled r\<rparr>)
             (read_loop maximumBytes stream 0 [])))"

text \<open>The body that delivers the given chunks and ends.\<close>

definition stream_of :: "byte list list \<Rightarrow> nat \<Rightarrow> read_result" where
  "stream_of chunks i = (if i < length chunks then ReadChunk (chunks ! i) else ReadDone)"

section \<open>Termination and exactness of the read\<close>

lemma read_loop_terminates:
  assumes "\<forall>i. stream i \<noteq> ReadChunk []" and "length received \<le> maximumBytes"
  shows "\<exists>r. read_loop maximumBytes stream i received = Some r
    \<and> rd_reads r \<le> Suc i + (maximumBytes - length received)
    \<and> (\<forall>bytes. rd_outcome r = Inr (Some bytes) \<longrightarrow> length bytes \<le> maximumBytes)"
  using assms(2)
proof (induction "maximumBytes - length received" arbitrary: received i rule: less_induct)
  case less
  show ?case
  proof (cases "stream i")
    case (ReadChunk c)
    have c: "c \<noteq> []" using assms(1) ReadChunk by metis
    show ?thesis
    proof (cases "length received + length c > maximumBytes")
      case True
      then show ?thesis using ReadChunk by (simp add: read_loop.simps [of _ _ i])
    next
      case False
      have lt: "maximumBytes - length (received @ c) < maximumBytes - length received"
        and le: "length (received @ c) \<le> maximumBytes"
        using False c by (cases c; simp)+
      from less.hyps [OF lt le, of "Suc i"] show ?thesis
        using ReadChunk False lt by (auto simp: read_loop.simps [of _ _ i])
    qed
  qed (use less.prems in \<open>auto simp: read_loop.simps [of _ _ i]\<close>)
qed

lemma read_loop_stream_of:
  "i \<le> length chunks \<Longrightarrow>
   map_option rd_outcome (read_loop maximumBytes (stream_of chunks) i received) =
     Some (Inr (if i < length chunks \<and> maximumBytes < length (received @ concat (drop i chunks)) then None
                else Some (received @ concat (drop i chunks))))"
proof (induction "length chunks - i" arbitrary: i received)
  case 0
  then show ?case by (simp add: read_loop.simps [of _ _ i] stream_of_def)
next
  case (Suc n)
  then have i: "i < length chunks" by simp
  have d: "drop i chunks = chunks ! i # drop (Suc i) chunks" using i by (simp add: Cons_nth_drop_Suc)
  show ?case
  proof (cases "length received + length (chunks ! i) > maximumBytes")
    case True
    then show ?thesis using i d by (simp add: read_loop.simps [of _ _ i] stream_of_def)
  next
    case False
    have "map_option rd_outcome (read_loop maximumBytes (stream_of chunks) (Suc i) (received @ chunks ! i)) =
      Some (Inr (if Suc i < length chunks
          \<and> maximumBytes < length ((received @ chunks ! i) @ concat (drop (Suc i) chunks)) then None
        else Some ((received @ chunks ! i) @ concat (drop (Suc i) chunks))))"
      using Suc i by (intro Suc.hyps(1)) auto
    with False i d show ?thesis
      by (cases "Suc i < length chunks") (auto simp: read_loop.simps [of _ _ i] stream_of_def)
  qed
qed

text \<open>
  C38: Reading a preview always ends. For every response whose body never delivers an empty
  chunk, \<open>readBoundedPreviewResponse\<close> returns after at most one read more than the limit
  counts bytes, even when the body has no end, and the blob it then returns is within the limit.
\<close>

theorem bounded_read_terminates:
  assumes "rs_body response = Some stream" and "\<forall>i. stream i \<noteq> ReadChunk []"
  shows "\<exists>r. readBoundedPreviewResponse fmt response maximumBytes = Some r
    \<and> rd_reads r \<le> Suc maximumBytes
    \<and> (case rd_outcome r of Inr (Some blob) \<Rightarrow> length (blob_bytes blob) \<le> maximumBytes | _ \<Rightarrow> True)"
proof -
  obtain r where "read_loop maximumBytes stream 0 [] = Some r" "rd_reads r \<le> Suc maximumBytes"
    and b: "\<forall>bytes. rd_outcome r = Inr (Some bytes) \<longrightarrow> length bytes \<le> maximumBytes"
    using read_loop_terminates [OF assms(2), of "[]" maximumBytes 0] by auto
  then show ?thesis
    using assms(1) by (cases "rd_outcome r"; cases "projr (rd_outcome r)")
      (simp_all add: readBoundedPreviewResponse_def new_Blob_def)
qed

definition endless :: response where
  "endless = \<lparr>rs_ok = True, rs_length = JNull, rs_type = JNull, rs_body = Some (\<lambda>_. ReadChunk [0])\<rparr>"

theorem bounded_read_terminates_witness:
  "\<exists>r. readBoundedPreviewResponse (\<lambda>_. []) endless 3 = Some r \<and> rd_reads r \<le> 4"
  using bounded_read_terminates [of endless "\<lambda>_. ReadChunk [0]" "\<lambda>_. []" 3] by (auto simp: endless_def)

text \<open>
  The preview is all of the body or nothing. When the body delivers the given chunks and
  ends, the outcome is the blob of exactly these bytes if no declared length exceeds the limit
  and the bytes do not exceed it either, and null otherwise; nothing is ever truncated.
\<close>

theorem bounded_read_exact:
  "map_option rd_outcome (readBoundedPreviewResponse fmt (response\<lparr>rs_body := Some (stream_of chunks)\<rparr>) maximumBytes) =
     Some (Inr (if length_refused (rs_length response) maximumBytes \<or> maximumBytes < length (concat chunks) then None
                else Some (new_Blob (concat chunks) (response_type fmt (rs_type response)))))"
proof -
  obtain r where r: "read_loop maximumBytes (stream_of chunks) 0 [] = Some r"
      "rd_outcome r = Inr (if maximumBytes < length (concat chunks) then None else Some (concat chunks))"
    using read_loop_stream_of [of 0 chunks maximumBytes "[]"] by (auto split: if_splits)
  then show ?thesis
    by (simp add: readBoundedPreviewResponse_def)
qed

end
