(* ===== verification/ArtifactPreview.thy ===== *)
theory ArtifactPreview
  imports PreviewPolicy Uploads Transitions
begin

text \<open>
  The artifact preview of the panel: the selected artifact, the load of its preview (one
  \<open>async\<close> function, cut at its awaits, of which several calls may be under way), the
  object URLs the browser keeps alive, and the operations that change the selection. Each
  await is a point where other operations run, so the loads in flight are part of the state
  and \<open>preview_step\<close> interleaves them with the user's actions and the refreshes.
\<close>

section \<open>State\<close>

text \<open>The fields of the prepared download that the preview operations reset.\<close>

record prepared =
  pd_artifactId :: jstr
  pd_blob :: blob
  pd_filename :: jstr
  pd_threadId :: jstr

record downloads =
  dl_generation :: nat
  dl_pendingId :: "jstr option"
  dl_prepared :: "prepared option"
  dl_timer :: bool

text \<open>
  The PDF viewer. Its document, its loading task and its two promises are known by numbers;
  \<open>pv_destroyed\<close> and \<open>pv_aborted\<close> log the calls to \<open>destroy()\<close> and \<open>abort()\<close>.
\<close>

record pdf_viewer =
  pv_document :: "nat option"
  pv_loadingTask :: "nat option"
  pv_loadPromise :: "nat option"
  pv_artifactId :: "jstr option"
  pv_page :: int
  pv_zoom :: rat
  pv_generation :: nat
  pv_renderGeneration :: nat
  pv_renderPromise :: "nat option"
  pv_renderController :: "nat option"
  pv_renderTask :: "nat option"
  pv_renderQueued :: bool
  pv_error :: jstr
  pv_destroyed :: "nat list"
  pv_aborted :: "nat list"

text \<open>A descriptor as \<open>_artifactPreview\<close> holds it, with the properties the load adds.\<close>

record preview = descriptor +
  pr_notice :: jstr
  pr_retryable :: bool
  pr_blob :: "blob option"

datatype stage = Fetching | Checking blob | Reading preview | Settled

record preview_load =
  ld_promise :: nat
  ld_artifactId :: jstr
  ld_token :: nat
  ld_artifact :: jsval
  ld_stage :: stage

record preview_panel =
  ap_threadId :: "jstr option"
  ap_artifacts :: "jsval list"
  ap_selected :: "jstr option"
  ap_token :: nat
  ap_load :: "(jstr \<times> nat) option"
  ap_preview :: "preview option"
  ap_rebuild :: bool
  ap_downloads :: downloads
  ap_viewer :: pdf_viewer
  ap_live :: "jstr list"
  ap_pending :: "preview_load list"
  ap_promises :: nat
  ap_requests :: "(jstr \<times> (string \<times> jstr) list) list"

text \<open>What the bridge promises of a listed artifact: an object whose id is a string.\<close>

definition artifact_ok :: "jsval \<Rightarrow> bool" where
  "artifact_ok artifact \<longleftrightarrow> is_record artifact \<and> is_string (dot artifact ''artifact_id'')"

definition artifact_id :: "jsval \<Rightarrow> jstr" where
  "artifact_id artifact = as_string (dot artifact ''artifact_id'')"

definition find_artifact :: "preview_panel \<Rightarrow> jstr \<Rightarrow> jsval option" where
  "find_artifact w aid = find (\<lambda>item. artifact_id item = aid) (ap_artifacts w)"

section \<open>Clearing\<close>

definition disposePdfPreview :: "pdf_viewer \<Rightarrow> pdf_viewer" where
  "disposePdfPreview v =
     \<lparr>pv_document = None, pv_loadingTask = None, pv_loadPromise = None, pv_artifactId = None,
      pv_page = 1, pv_zoom = 1, pv_generation = Suc (pv_generation v),
      pv_renderGeneration = Suc (pv_renderGeneration v), pv_renderPromise = None,
      pv_renderController = None, pv_renderTask = None, pv_renderQueued = False, pv_error = [],
      pv_destroyed = pv_destroyed v @
        (case pv_document v of Some d \<Rightarrow> [d]
         | None \<Rightarrow> (case pv_loadingTask v of Some t \<Rightarrow> [t] | None \<Rightarrow> [])),
      pv_aborted = pv_aborted v @ (case pv_renderController v of Some c \<Rightarrow> [c] | None \<Rightarrow> [])\<rparr>"

definition clearPreparedArtifactDownload :: "downloads \<Rightarrow> downloads" where
  "clearPreparedArtifactDownload d = d\<lparr>dl_timer := False, dl_prepared := None\<rparr>"

definition invalidateArtifactDownloads :: "downloads \<Rightarrow> downloads" where
  "invalidateArtifactDownloads d =
     clearPreparedArtifactDownload (d\<lparr>dl_generation := Suc (dl_generation d), dl_pendingId := None\<rparr>)"

text \<open>\<open>URL.revokeObjectURL\<close>; revoking an unknown URL has no effect.\<close>

definition revokeObjectURL :: "jstr \<Rightarrow> preview_panel \<Rightarrow> preview_panel" where
  "revokeObjectURL url w = w\<lparr>ap_live := filter (\<lambda>u. u \<noteq> url) (ap_live w)\<rparr>"

definition preview_url :: "preview \<Rightarrow> jstr" where
  "preview_url p = as_string (durl p)"

definition revokePreviewUrl :: "preview_panel \<Rightarrow> preview_panel" where
  "revokePreviewUrl w =
     (case ap_preview w of
        Some p \<Rightarrow> if truthy (durl p) then revokeObjectURL (preview_url p) w else w
      | None \<Rightarrow> w)"

definition clearArtifactPreview :: "preview_panel \<Rightarrow> preview_panel" where
  "clearArtifactPreview w =
     (let w1 = w\<lparr>ap_token := Suc (ap_token w), ap_load := None, ap_viewer := disposePdfPreview (ap_viewer w)\<rparr>
      in (revokePreviewUrl w1)\<lparr>ap_preview := None\<rparr>)"

section \<open>The load of a preview\<close>

definition plain :: "descriptor \<Rightarrow> preview" where
  "plain d = descriptor.extend d \<lparr>pr_notice = [], pr_retryable = False, pr_blob = None\<rparr>"

definition advertisedDescriptor :: "(rat \<Rightarrow> jstr) \<Rightarrow> jsval \<Rightarrow> preview" where
  "advertisedDescriptor fmt artifact =
     plain (previewDescriptor fmt artifact (typed (dot artifact ''mime_type'')) False)"

definition show_preview :: "preview \<Rightarrow> preview_panel \<Rightarrow> preview_panel" where
  "show_preview p w = (revokePreviewUrl w)\<lparr>ap_preview := Some p\<rparr>"

definition unavailable :: "(rat \<Rightarrow> jstr) \<Rightarrow> jsval \<Rightarrow> jstr \<Rightarrow> preview" where
  "unavailable fmt artifact notice = (advertisedDescriptor fmt artifact)\<lparr>kind := KBinary, pr_notice := notice\<rparr>"

text \<open>The test after every await: is this call still the one whose result is wanted?\<close>

definition superseded :: "preview_load \<Rightarrow> preview_panel \<Rightarrow> bool" where
  "superseded ld w \<longleftrightarrow> ld_token ld \<noteq> ap_token w \<or> Some (ld_artifactId ld) \<noteq> ap_selected w"

text \<open>The \<open>catch\<close> block.\<close>

definition preview_failed :: "(rat \<Rightarrow> jstr) \<Rightarrow> preview_load \<Rightarrow> preview_panel \<Rightarrow> preview_panel" where
  "preview_failed fmt ld w =
     (if superseded ld w then w
      else show_preview ((unavailable fmt (ld_artifact ld)
             (js ''Preview could not be loaded through Home Assistant. Retry or download the artifact.''))
             \<lparr>pr_retryable := True\<rparr>) w)"

definition artifact_url :: "jstr \<Rightarrow> jstr \<Rightarrow> upload_exn + jstr" where
  "artifact_url threadId aid =
     sum_bind (encodeURIComponent threadId) (\<lambda>threadSegment.
     sum_bind (encodeURIComponent aid) (\<lambda>artifactSegment.
       Inr (js ''/api/codex_bridge/threads/'' @ threadSegment @ js ''/artifacts/'' @ artifactSegment)))"

definition preview_headers :: "(rat \<Rightarrow> jstr) \<Rightarrow> jsval \<Rightarrow> jsval \<Rightarrow> (string \<times> jstr) list" where
  "preview_headers fmt accessToken artifact =
     (let size = to_int (dot artifact ''size_bytes'');
          limit = int (lim_bytes (artifactPreviewLimit fmt artifact))
      in (if truthy accessToken then [(''Authorization'', js ''Bearer '' @ js_String fmt accessToken)] else [])
         @ (if size > 0 then [(''Range'', js ''bytes=0-'' @ dec_int (min limit size - 1))] else []))"

text \<open>
  \<open>_performArtifactPreviewLoad\<close> up to its first await. The promise of the call is numbered;
  a call that returns or throws before it awaits has settled at once.
\<close>

definition performArtifactPreviewLoad ::
  "(rat \<Rightarrow> jstr) \<Rightarrow> jsval \<Rightarrow> jstr \<Rightarrow> preview_panel \<Rightarrow> preview_panel" where
  "performArtifactPreviewLoad fmt accessToken aid w =
     (let call = (\<lambda>st w. \<lparr>ld_promise = ap_promises w, ld_artifactId = aid, ld_token = ap_token w,
            ld_artifact = (case find_artifact w aid of Some a \<Rightarrow> a | None \<Rightarrow> JUndefined), ld_stage = st\<rparr>);
          started = (\<lambda>st w. w\<lparr>ap_pending := ap_pending w @ [call st w], ap_promises := Suc (ap_promises w)\<rparr>)
      in case (ap_threadId w, find_artifact w aid) of
           (Some threadId, Some artifact) \<Rightarrow>
             if threadId = [] \<or> aid = [] then started Settled w
             else (let w1 = w\<lparr>ap_token := Suc (ap_token w)\<rparr>;
                       sizeState = artifactPreviewSizeState fmt artifact
                   in if kind (advertisedDescriptor fmt artifact) = KBinary
                          \<and> \<not> isPdfArtifactCandidate fmt artifact (JObj [])
                      then started Settled (show_preview (advertisedDescriptor fmt artifact) w1)
                      else if sizeState \<noteq> WithinLimit
                      then started Settled (show_preview
                             (unavailable fmt artifact (previewUnavailableMessage fmt artifact sizeState)) w1)
                      else (case artifact_url threadId aid of
                         Inl _ \<Rightarrow> started Settled (preview_failed fmt (call Settled w1) w1)
                       | Inr url \<Rightarrow> started Fetching
                           (w1\<lparr>ap_requests := ap_requests w1 @ [(url, preview_headers fmt accessToken artifact)]\<rparr>)))
         | _ \<Rightarrow> started Settled w)"

definition loadArtifactPreview ::
  "(rat \<Rightarrow> jstr) \<Rightarrow> jsval \<Rightarrow> jstr \<Rightarrow> preview_panel \<Rightarrow> preview_panel" where
  "loadArtifactPreview fmt accessToken aid w =
     (case ap_load w of
        Some (current, promise) \<Rightarrow>
          if current = aid then w
          else (performArtifactPreviewLoad fmt accessToken aid w)\<lparr>ap_load := Some (aid, ap_promises w)\<rparr>
      | None \<Rightarrow> (performArtifactPreviewLoad fmt accessToken aid w)\<lparr>ap_load := Some (aid, ap_promises w)\<rparr>)"

subsection \<open>After the awaits\<close>

text \<open>The load with the given promise moves to another stage.\<close>

definition set_stage :: "preview_load \<Rightarrow> stage \<Rightarrow> preview_panel \<Rightarrow> preview_panel" where
  "set_stage ld st w =
     w\<lparr>ap_pending := map (\<lambda>l. if ld_promise l = ld_promise ld then l\<lparr>ld_stage := st\<rparr> else l) (ap_pending w)\<rparr>"

text \<open>The last test and the assignment of \<open>_artifactPreview\<close>.\<close>

definition publish_preview :: "preview_load \<Rightarrow> preview \<Rightarrow> preview_panel \<Rightarrow> preview_panel" where
  "publish_preview ld p w =
     set_stage ld Settled
       (if superseded ld w
        then (if truthy (durl p) then revokeObjectURL (preview_url p) w else w)
        else w\<lparr>ap_preview := Some p,
               ap_rebuild := (ap_rebuild w \<or> isGeneratedImageArtifact (ld_artifact ld) \<and> kind p = KImage)\<rparr>)"

text \<open>From the classification of the blob to the assignment, or to the await of its text.\<close>

definition describe_blob ::
  "(rat \<Rightarrow> jstr) \<Rightarrow> jstr \<Rightarrow> preview_load \<Rightarrow> blob \<Rightarrow> bool \<Rightarrow> preview_panel \<Rightarrow> preview_panel" where
  "describe_blob fmt url ld blob validPdf w =
     (let previewBlob = (if validPdf then new_Blob (blob_bytes blob) PDF_MIME_TYPE else blob);
          d = plain (previewDescriptor fmt (ld_artifact ld) (typed (JStr (blob_type previewBlob))) validPdf)
      in case kind d of
           KText \<Rightarrow> set_stage ld (Reading (d\<lparr>pr_blob := Some previewBlob\<rparr>)) w
         | KBinary \<Rightarrow> publish_preview ld
             (if isPdfArtifactCandidate fmt (ld_artifact ld) (JObj [])
              then d\<lparr>pr_notice := js ''Preview blocked because the file did not contain a valid PDF header.''\<rparr>
              else d) w
         | _ \<Rightarrow> publish_preview ld (d\<lparr>durl := JStr url, pr_blob := Some previewBlob\<rparr>)
             (w\<lparr>ap_live := url # ap_live w\<rparr>))"

text \<open>
  The continuation of \<open>fetch\<close> and of the bounded read: the response was not obtained, not
  \<open>ok\<close> or could not be read (\<open>Inl\<close>), or gave the blob or null.
\<close>

definition fetch_outcome :: "(rat \<Rightarrow> jstr) \<Rightarrow> jsval \<Rightarrow> response option \<Rightarrow> (unit + blob option) option" where
  "fetch_outcome fmt artifact response =
     (case response of
        None \<Rightarrow> Some (Inl ())
      | Some r \<Rightarrow>
          if \<not> rs_ok r then Some (Inl ())
          else map_option rd_outcome
            (readBoundedPreviewResponse fmt r (lim_bytes (artifactPreviewLimit fmt artifact))))"

definition fetched ::
  "(rat \<Rightarrow> jstr) \<Rightarrow> jstr \<Rightarrow> preview_load \<Rightarrow> unit + blob option \<Rightarrow> preview_panel \<Rightarrow> preview_panel" where
  "fetched fmt url ld outcome w =
     (case outcome of
        Inl _ \<Rightarrow> set_stage ld Settled (preview_failed fmt ld w)
      | Inr answer \<Rightarrow>
          if superseded ld w then set_stage ld Settled w
          else (let w1 = revokePreviewUrl w in
                case answer of
                  None \<Rightarrow> set_stage ld Settled (w1\<lparr>ap_preview := Some (unavailable fmt (ld_artifact ld)
                     (limited_message (lim_label (artifactPreviewLimit fmt (ld_artifact ld)))))\<rparr>)
                | Some blob \<Rightarrow>
                    if isPdfArtifactCandidate fmt (ld_artifact ld) (JObj []) then set_stage ld (Checking blob) w1
                    else describe_blob fmt url ld blob False w1))"

text \<open>The continuation of \<open>hasValidPdfHeader\<close>; \<open>None\<close> when reading the blob was rejected.\<close>

definition checked ::
  "(rat \<Rightarrow> jstr) \<Rightarrow> jstr \<Rightarrow> preview_load \<Rightarrow> bool option \<Rightarrow> blob \<Rightarrow> preview_panel \<Rightarrow> preview_panel" where
  "checked fmt url ld validPdf blob w =
     (case validPdf of
        None \<Rightarrow> set_stage ld Settled (preview_failed fmt ld w)
      | Some valid \<Rightarrow>
          if superseded ld w then set_stage ld Settled w else describe_blob fmt url ld blob valid w)"

text \<open>The continuation of \<open>blob.text()\<close>.\<close>

definition text_read ::
  "(rat \<Rightarrow> jstr) \<Rightarrow> preview_load \<Rightarrow> jstr option \<Rightarrow> preview \<Rightarrow> preview_panel \<Rightarrow> preview_panel" where
  "text_read fmt ld content d w =
     (case content of
        None \<Rightarrow> set_stage ld Settled (preview_failed fmt ld w)
      | Some s \<Rightarrow> publish_preview ld (d\<lparr>dtext := JStr s\<rparr>) w)"

text \<open>The reaction on the settled promise, registered by \<open>_loadArtifactPreview\<close>.\<close>

definition load_settled :: "preview_load \<Rightarrow> preview_panel \<Rightarrow> preview_panel" where
  "load_settled ld w =
     w\<lparr>ap_pending := filter (\<lambda>l. ld_promise l \<noteq> ld_promise ld) (ap_pending w),
       ap_load := (case ap_load w of
          Some (a, promise) \<Rightarrow> if promise = ld_promise ld then None else ap_load w | None \<Rightarrow> None)\<rparr>"

section \<open>The operations on the selection\<close>

definition selectArtifact :: "(rat \<Rightarrow> jstr) \<Rightarrow> jsval \<Rightarrow> jstr \<Rightarrow> preview_panel \<Rightarrow> preview_panel" where
  "selectArtifact fmt accessToken aid w =
     (if aid = [] \<or> Some aid = ap_selected w then w
      else (let w1 = clearArtifactPreview (w\<lparr>ap_downloads := invalidateArtifactDownloads (ap_downloads w)\<rparr>)
            in loadArtifactPreview fmt accessToken aid (w1\<lparr>ap_selected := Some aid\<rparr>)))"

definition openArtifactPreview :: "(rat \<Rightarrow> jstr) \<Rightarrow> jsval \<Rightarrow> jstr \<Rightarrow> preview_panel \<Rightarrow> preview_panel" where
  "openArtifactPreview fmt accessToken aid w =
     (if aid = [] \<or> find_artifact w aid = None then w
      else if Some aid \<noteq> ap_selected w then selectArtifact fmt accessToken aid w
      else if map_option artifactId (ap_preview w) \<noteq> Some aid
        then loadArtifactPreview fmt accessToken aid w
      else w)"

definition retryArtifactPreview :: "(rat \<Rightarrow> jstr) \<Rightarrow> jsval \<Rightarrow> preview_panel \<Rightarrow> preview_panel" where
  "retryArtifactPreview fmt accessToken w =
     (case ap_selected w of
        Some aid \<Rightarrow>
          if aid = [] then w
          else loadArtifactPreview fmt accessToken aid (clearArtifactPreview w)
      | None \<Rightarrow> w)"

definition syncSelectedArtifact :: "(rat \<Rightarrow> jstr) \<Rightarrow> jsval \<Rightarrow> preview_panel \<Rightarrow> preview_panel" where
  "syncSelectedArtifact fmt accessToken w =
     (if ap_artifacts w = [] then clearArtifactPreview (w\<lparr>ap_selected := None\<rparr>)
      else if list_ex (\<lambda>artifact. Some (artifact_id artifact) = ap_selected w) (ap_artifacts w) then w
      else (let candidate = (case find (isAutoPreviewCandidate fmt) (ap_artifacts w) of
                 Some a \<Rightarrow> Some a
               | None \<Rightarrow> find (\<lambda>artifact. artifactPreviewSizeState fmt artifact = WithinLimit) (ap_artifacts w))
            in case candidate of
                 None \<Rightarrow> clearArtifactPreview (w\<lparr>ap_selected := None\<rparr>)
               | Some a \<Rightarrow> loadArtifactPreview fmt accessToken (artifact_id a)
                   ((clearArtifactPreview w)\<lparr>ap_selected := Some (artifact_id a)\<rparr>)))"

text \<open>The three assignments made wherever the panel leaves a chat.\<close>

definition leave_thread :: "jstr option \<Rightarrow> preview_panel \<Rightarrow> preview_panel" where
  "leave_thread threadId w =
     clearArtifactPreview (w\<lparr>ap_threadId := threadId, ap_artifacts := [], ap_selected := None\<rparr>)"

definition refresh_artifacts :: "(rat \<Rightarrow> jstr) \<Rightarrow> jsval \<Rightarrow> jsval list \<Rightarrow> preview_panel \<Rightarrow> preview_panel" where
  "refresh_artifacts fmt accessToken artifacts w =
     syncSelectedArtifact fmt accessToken (w\<lparr>ap_artifacts := artifacts\<rparr>)"

text \<open>The end of \<open>_createWorkspaceArchive\<close>: the new archive is selected and, if it is listed, loaded.\<close>

definition show_archive :: "(rat \<Rightarrow> jstr) \<Rightarrow> jsval \<Rightarrow> jsval list option \<Rightarrow> jstr \<Rightarrow> preview_panel \<Rightarrow> preview_panel" where
  "show_archive fmt accessToken artifacts aid w =
     (let w1 = (case artifacts of Some as \<Rightarrow> w\<lparr>ap_artifacts := as\<rparr> | None \<Rightarrow> w);
          w2 = (clearArtifactPreview w1)\<lparr>ap_selected := Some aid\<rparr>
      in case artifacts of
           Some as \<Rightarrow> if list_ex (\<lambda>item. artifact_id item = aid) as
             then loadArtifactPreview fmt accessToken aid w2 else w2
         | None \<Rightarrow> w2)"

section \<open>Interleavings\<close>

inductive preview_step :: "(rat \<Rightarrow> jstr) \<Rightarrow> preview_panel \<Rightarrow> preview_panel \<Rightarrow> bool" for fmt where
  select: "preview_step fmt w (selectArtifact fmt tok aid w)"
| opened: "preview_step fmt w (openArtifactPreview fmt tok aid w)"
| retry: "preview_step fmt w (retryArtifactPreview fmt tok w)"
| sync: "preview_step fmt w (syncSelectedArtifact fmt tok w)"
| refresh: "list_all artifact_ok as \<Longrightarrow> preview_step fmt w (refresh_artifacts fmt tok as w)"
| archive: "list_all artifact_ok as \<Longrightarrow> preview_step fmt w (show_archive fmt tok (Some as) aid w)"
| archive_unlisted: "preview_step fmt w (show_archive fmt tok None aid w)"
| leave: "preview_step fmt w (leave_thread t w)"
| disconnect: "preview_step fmt w
    (clearArtifactPreview (w\<lparr>ap_downloads := invalidateArtifactDownloads (ap_downloads w)\<rparr>))"
| downloads: "preview_step fmt w (w\<lparr>ap_downloads := d\<rparr>)"
| answered: "ld \<in> set (ap_pending w) \<Longrightarrow> ld_stage ld = Fetching \<Longrightarrow>
    fetch_outcome fmt (ld_artifact ld) response = Some outcome \<Longrightarrow> url \<noteq> [] \<Longrightarrow> url \<notin> set (ap_live w) \<Longrightarrow>
    preview_step fmt w (fetched fmt url ld outcome w)"
| header: "ld \<in> set (ap_pending w) \<Longrightarrow> ld_stage ld = Checking b \<Longrightarrow>
    valid \<in> {None, Some (hasValidPdfHeader (Some (blob_bytes b)))} \<Longrightarrow> url \<noteq> [] \<Longrightarrow> url \<notin> set (ap_live w) \<Longrightarrow>
    preview_step fmt w (checked fmt url ld valid b w)"
| content: "ld \<in> set (ap_pending w) \<Longrightarrow> ld_stage ld = Reading d \<Longrightarrow>
    preview_step fmt w (text_read fmt ld read d w)"
| settled: "ld \<in> set (ap_pending w) \<Longrightarrow> ld_stage ld = Settled \<Longrightarrow> preview_step fmt w (load_settled ld w)"

definition initial_viewer :: pdf_viewer where
  "initial_viewer = \<lparr>pv_document = None, pv_loadingTask = None, pv_loadPromise = None, pv_artifactId = None,
     pv_page = 1, pv_zoom = 1, pv_generation = 0, pv_renderGeneration = 0, pv_renderPromise = None,
     pv_renderController = None, pv_renderTask = None, pv_renderQueued = False, pv_error = [],
     pv_destroyed = [], pv_aborted = []\<rparr>"

definition initial_preview :: preview_panel where
  "initial_preview = \<lparr>ap_threadId = None, ap_artifacts = [], ap_selected = None, ap_token = 0, ap_load = None,
     ap_preview = None, ap_rebuild = False,
     ap_downloads = \<lparr>dl_generation = 0, dl_pendingId = None, dl_prepared = None, dl_timer = False\<rparr>,
     ap_viewer = initial_viewer, ap_live = [], ap_pending = [], ap_promises = 0, ap_requests = []\<rparr>"

inductive preview_reachable :: "(rat \<Rightarrow> jstr) \<Rightarrow> preview_panel \<Rightarrow> bool" for fmt where
  init: "preview_reachable fmt initial_preview"
| step: "preview_reachable fmt w \<Longrightarrow> preview_step fmt w w' \<Longrightarrow> preview_reachable fmt w'"

section \<open>The invariant\<close>

definition shown_url :: "preview option \<Rightarrow> jstr list" where
  "shown_url q = (case q of Some p \<Rightarrow> if truthy (durl p) then [preview_url p] else [] | None \<Rightarrow> [])"

abbreviation in_flight :: "preview_load \<Rightarrow> bool" where
  "in_flight ld \<equiv> ld_stage ld \<noteq> Settled"

definition halfway :: "stage \<Rightarrow> bool" where
  "halfway st \<longleftrightarrow> st \<noteq> Fetching \<and> st \<noteq> Settled"

definition belongs :: "(rat \<Rightarrow> jstr) \<Rightarrow> jstr \<Rightarrow> preview \<Rightarrow> bool" where
  "belongs fmt aid p \<longleftrightarrow> artifactId p = sanitizeId fmt (JStr aid) []"

definition load_ok :: "(rat \<Rightarrow> jstr) \<Rightarrow> preview_panel \<Rightarrow> preview_load \<Rightarrow> bool" where
  "load_ok fmt w ld \<longleftrightarrow> ld_promise ld < ap_promises w \<and> ld_token ld \<le> ap_token w
     \<and> (in_flight ld \<longrightarrow> artifact_ok (ld_artifact ld) \<and> artifact_id (ld_artifact ld) = ld_artifactId ld)
     \<and> (\<forall>d. ld_stage ld = Reading d \<longrightarrow> \<not> truthy (durl d) \<and> belongs fmt (ld_artifactId ld) d)
     \<and> (in_flight ld \<and> ld_token ld = ap_token w \<longrightarrow> ap_load w = Some (ld_artifactId ld, ld_promise ld))"

definition replacing :: "preview_panel \<Rightarrow> bool" where
  "replacing w \<longleftrightarrow> (\<exists>ld\<in>set (ap_pending w). halfway (ld_stage ld) \<and> ld_token ld = ap_token w)"

definition preview_inv :: "(rat \<Rightarrow> jstr) \<Rightarrow> preview_panel \<Rightarrow> bool" where
  "preview_inv fmt w \<longleftrightarrow> list_all artifact_ok (ap_artifacts w)
     \<and> distinct (map ld_promise (ap_pending w))
     \<and> (\<forall>ld\<in>set (ap_pending w). load_ok fmt w ld)
     \<and> (\<forall>p. ap_preview w = Some p \<longrightarrow> (\<exists>a. ap_selected w = Some a \<and> belongs fmt a p))
     \<and> ap_live w = (if replacing w then [] else shown_url (ap_preview w))
     \<and> (\<forall>a p. ap_load w = Some (a, p) \<longrightarrow> ap_selected w = Some a
          \<and> (\<exists>ld\<in>set (ap_pending w). ld_promise ld = p \<and> ld_artifactId ld = a
               \<and> (in_flight ld \<longrightarrow> ld_token ld = ap_token w)))"

lemma revoke_simps [simp]:
  "ap_threadId (revokePreviewUrl w) = ap_threadId w" "ap_artifacts (revokePreviewUrl w) = ap_artifacts w"
  "ap_selected (revokePreviewUrl w) = ap_selected w" "ap_token (revokePreviewUrl w) = ap_token w"
  "ap_load (revokePreviewUrl w) = ap_load w" "ap_preview (revokePreviewUrl w) = ap_preview w"
  "ap_pending (revokePreviewUrl w) = ap_pending w" "ap_promises (revokePreviewUrl w) = ap_promises w"
  "ap_rebuild (revokePreviewUrl w) = ap_rebuild w"
  "ap_live (revokePreviewUrl w) = filter (\<lambda>u. u \<notin> set (shown_url (ap_preview w))) (ap_live w)"
  by (simp_all add: revokePreviewUrl_def revokeObjectURL_def shown_url_def split: option.split)

lemma revoked_live: "preview_inv fmt w \<Longrightarrow> ap_live (revokePreviewUrl w) = []"
  by (simp add: preview_inv_def filter_empty_conv)

lemma descriptor_facts [simp]:
  "artifactId (previewDescriptor fmt a b v) = sanitizeId fmt (dot a ''artifact_id'') []"
  "\<not> truthy (durl (previewDescriptor fmt a b v))"
  by (simp_all add: previewDescriptor_def Let_def)

lemma plain_simps [simp]:
  "artifactId (plain d) = artifactId d" "durl (plain d) = durl d" "kind (plain d) = kind d"
  by (simp_all add: plain_def descriptor.defs)

lemma belongs_described:
  "artifact_ok a \<Longrightarrow> belongs fmt (artifact_id a) (plain (previewDescriptor fmt a b v))"
  by (auto simp: belongs_def artifact_ok_def artifact_id_def elim!: is_stringE)

lemma advertised_facts [simp]: "\<not> truthy (durl (advertisedDescriptor fmt a))"
  "\<not> truthy (durl (unavailable fmt a n))"
  by (simp_all add: advertisedDescriptor_def unavailable_def)

lemma belongs_advertised:
  assumes "artifact_ok a"
  shows "belongs fmt (artifact_id a) (advertisedDescriptor fmt a)"
    and "belongs fmt (artifact_id a) (unavailable fmt a n)"
  using belongs_described [OF assms] by (simp_all add: advertisedDescriptor_def unavailable_def belongs_def)

lemma shown_url_plain [simp]: "\<not> truthy (durl p) \<Longrightarrow> shown_url (Some p) = []"
  by (simp add: shown_url_def)

lemma load_ok_fields [simp]:
  "load_ok fmt (w\<lparr>ap_selected := x\<rparr>) = load_ok fmt w" "load_ok fmt (w\<lparr>ap_artifacts := as\<rparr>) = load_ok fmt w"
  "load_ok fmt (w\<lparr>ap_threadId := t\<rparr>) = load_ok fmt w" "load_ok fmt (w\<lparr>ap_downloads := d\<rparr>) = load_ok fmt w"
  by (simp_all add: load_ok_def fun_eq_iff)

lemma replacing_fields [simp]:
  "replacing (w\<lparr>ap_selected := x\<rparr>) = replacing w" "replacing (w\<lparr>ap_artifacts := as\<rparr>) = replacing w"
  "replacing (w\<lparr>ap_threadId := t\<rparr>) = replacing w" "replacing (w\<lparr>ap_downloads := d\<rparr>) = replacing w"
  by (simp_all add: replacing_def)

subsection \<open>Clearing\<close>

definition blank :: "(rat \<Rightarrow> jstr) \<Rightarrow> preview_panel \<Rightarrow> bool" where
  "blank fmt w \<longleftrightarrow> preview_inv fmt w \<and> ap_preview w = None \<and> ap_load w = None"

lemma blank_current: "blank fmt w \<Longrightarrow> ld \<in> set (ap_pending w) \<Longrightarrow> in_flight ld \<Longrightarrow> ld_token ld \<noteq> ap_token w"
  by (auto simp: blank_def preview_inv_def load_ok_def)

lemma clear_blank:
  assumes "preview_inv fmt w"
  shows "blank fmt (clearArtifactPreview w)"
proof -
  let ?w = "clearArtifactPreview w"
  have l: "ap_live ?w = []"
    using revoked_live [OF assms] by (simp add: clearArtifactPreview_def Let_def filter_empty_conv)
  have p: "ap_pending ?w = ap_pending w" "ap_promises ?w = ap_promises w" "ap_artifacts ?w = ap_artifacts w"
    "ap_token ?w = Suc (ap_token w)" "ap_preview ?w = None" "ap_load ?w = None"
    by (simp_all add: clearArtifactPreview_def Let_def)
  have o: "load_ok fmt ?w ld" and t: "ld_token ld \<noteq> ap_token ?w" if "ld \<in> set (ap_pending w)" for ld
    using assms that by (fastforce simp: preview_inv_def load_ok_def p)+
  have "\<not> replacing ?w" using t p(1) by (auto simp: replacing_def)
  then show ?thesis
    using assms o l by (simp add: blank_def preview_inv_def p shown_url_def)
qed

lemma blank_select:
  "blank fmt w \<Longrightarrow> blank fmt (w\<lparr>ap_selected := x\<rparr>)"
  by (simp add: blank_def preview_inv_def)

lemma inv_fields:
  "preview_inv fmt w \<Longrightarrow> preview_inv fmt (w\<lparr>ap_downloads := d\<rparr>)"
  "preview_inv fmt w \<Longrightarrow> list_all artifact_ok as \<Longrightarrow> preview_inv fmt (w\<lparr>ap_artifacts := as\<rparr>)"
  "preview_inv fmt w \<Longrightarrow> preview_inv fmt (w\<lparr>ap_threadId := t\<rparr>)"
  by (simp_all add: preview_inv_def)

lemma clear_commutes:
  "clearArtifactPreview (w\<lparr>ap_selected := x\<rparr>) = (clearArtifactPreview w)\<lparr>ap_selected := x\<rparr>"
  by (simp add: clearArtifactPreview_def Let_def revokePreviewUrl_def revokeObjectURL_def split: option.split)

lemma blank_inv: "blank fmt w \<Longrightarrow> preview_inv fmt w"
  by (simp add: blank_def)

subsection \<open>Starting a load\<close>

text \<open>A call that starts while no call is wanted, with the effect of its synchronous part.\<close>

definition new_load :: "preview_panel \<Rightarrow> jstr \<Rightarrow> nat \<Rightarrow> jsval \<Rightarrow> stage \<Rightarrow> preview_load" where
  "new_load w aid tk artifact st =
     \<lparr>ld_promise = ap_promises w, ld_artifactId = aid, ld_token = tk, ld_artifact = artifact, ld_stage = st\<rparr>"

lemma inv_started:
  assumes inv: "preview_inv fmt w" and idle: "ap_load w = None" and sel: "ap_selected w = Some aid"
    and st: "st = Settled \<or> st = Fetching \<and> artifact_ok artifact \<and> artifact_id artifact = aid"
    and tk: "tk = ap_token w \<and> st = Settled \<or> tk = Suc (ap_token w)"
    and w': "ap_artifacts w' = ap_artifacts w" "ap_selected w' = Some aid" "ap_token w' = tk"
      "ap_pending w' = ap_pending w @ [new_load w aid tk artifact st]" "ap_promises w' = Suc (ap_promises w)"
      "ap_load w' = Some (aid, ap_promises w)"
    and view: "ap_preview w' = ap_preview w \<and> ap_live w' = ap_live w
      \<or> (\<exists>p. ap_preview w' = Some p \<and> \<not> truthy (durl p) \<and> belongs fmt aid p \<and> ap_live w' = [])"
  shows "preview_inv fmt w'"
proof -
  have old: "ld_token ld \<noteq> ap_token w" if "ld \<in> set (ap_pending w)" "in_flight ld" for ld
    using inv idle that by (auto simp: preview_inv_def load_ok_def)
  have new: "ld_token ld \<noteq> tk" if "ld \<in> set (ap_pending w)" "in_flight ld" for ld
    using inv that tk old [OF that] by (fastforce simp: preview_inv_def load_ok_def)
  have nr: "\<not> replacing w" "\<not> replacing w'"
    using old new st by (auto simp: replacing_def w' new_load_def halfway_def)
  have d: "distinct (map ld_promise (ap_pending w'))"
    using inv by (auto simp: preview_inv_def load_ok_def w' new_load_def)
  have o: "load_ok fmt w' ld" if "ld \<in> set (ap_pending w)" for ld
    using inv that new [OF that] tk by (fastforce simp: preview_inv_def load_ok_def w')
  have n: "load_ok fmt w' (new_load w aid tk artifact st)"
    using st by (auto simp: load_ok_def w' new_load_def)
  have "ap_live w' = shown_url (ap_preview w')"
    using view inv nr by (auto simp: preview_inv_def)
  moreover have "\<forall>p. ap_preview w' = Some p \<longrightarrow> belongs fmt aid p"
    using view inv sel by (auto simp: preview_inv_def)
  ultimately show ?thesis
    using inv d o n nr by (simp add: preview_inv_def w' new_load_def)
qed

lemma find_artifact_Some:
  assumes "preview_inv fmt w" "find_artifact w aid = Some a"
  shows "artifact_ok a" "artifact_id a = aid"
  using assms by (auto simp: preview_inv_def find_artifact_def find_Some_iff list_all_length)

text \<open>The three ways the synchronous part of a call ends.\<close>

definition start_call :: "preview_load \<Rightarrow> preview_panel \<Rightarrow> preview_panel" where
  "start_call ld w = w\<lparr>ap_pending := ap_pending w @ [ld], ap_promises := Suc (ap_promises w)\<rparr>"

lemma perform_skip:
  assumes "ap_threadId w = None \<or> ap_threadId w = Some [] \<or> aid = [] \<or> find_artifact w aid = None"
  shows "\<exists>a. performArtifactPreviewLoad fmt tok aid w = start_call (new_load w aid (ap_token w) a Settled) w"
proof (rule exI)
  show "performArtifactPreviewLoad fmt tok aid w = start_call (new_load w aid (ap_token w)
      (case find_artifact w aid of Some a \<Rightarrow> a | None \<Rightarrow> JUndefined) Settled) w"
    using assms by (cases "ap_threadId w"; cases "find_artifact w aid")
      (simp_all add: performArtifactPreviewLoad_def Let_def new_load_def start_call_def)
qed

lemma find_artifact_view [simp]:
  "find_artifact (w\<lparr>ap_token := n\<rparr>) aid = find_artifact w aid"
  "find_artifact (w\<lparr>ap_requests := r\<rparr>) aid = find_artifact w aid"
  "find_artifact (show_preview p w) aid = find_artifact w aid"
  by (simp_all add: find_artifact_def show_preview_def)

lemma show_preview_simps [simp]:
  "ap_token (show_preview p w) = ap_token w" "ap_promises (show_preview p w) = ap_promises w"
  "ap_pending (show_preview p w) = ap_pending w" "ap_artifacts (show_preview p w) = ap_artifacts w"
  "ap_selected (show_preview p w) = ap_selected w" "ap_preview (show_preview p w) = Some p"
  "ap_load (show_preview p w) = ap_load w" "ap_live (show_preview p w) = ap_live (revokePreviewUrl w)"
  by (simp_all add: show_preview_def)

lemma perform_shown:
  assumes "ap_threadId w = Some t" "t \<noteq> []" "aid \<noteq> []" "find_artifact w aid = Some a" "artifact_ok a"
    "artifact_id a = aid" "ap_selected w = Some aid"
    "kind (advertisedDescriptor fmt a) = KBinary \<and> \<not> isPdfArtifactCandidate fmt a (JObj [])
      \<or> artifactPreviewSizeState fmt a \<noteq> WithinLimit \<or> (\<exists>e. artifact_url t aid = Inl e)"
  shows "\<exists>p. performArtifactPreviewLoad fmt tok aid w =
      start_call (new_load w aid (Suc (ap_token w)) a Settled) (show_preview p (w\<lparr>ap_token := Suc (ap_token w)\<rparr>))
    \<and> \<not> truthy (durl p) \<and> belongs fmt aid p"
proof -
  note bel = belongs_advertised [OF assms(5), of fmt, unfolded assms(6)]
  show ?thesis
  proof (cases "kind (advertisedDescriptor fmt a) = KBinary \<and> \<not> isPdfArtifactCandidate fmt a (JObj [])")
    case True
    then show ?thesis using assms bel
      by (intro exI [of _ "advertisedDescriptor fmt a"])
        (simp add: performArtifactPreviewLoad_def Let_def new_load_def start_call_def)
  next
    case no: False
    show ?thesis
    proof (cases "artifactPreviewSizeState fmt a = WithinLimit")
      case False
      with no show ?thesis using assms bel
        by (intro exI [of _ "unavailable fmt a (previewUnavailableMessage fmt a (artifactPreviewSizeState fmt a))"])
          (auto simp: performArtifactPreviewLoad_def Let_def new_load_def start_call_def)
    next
      case True
      then obtain e where "artifact_url t aid = Inl e" using assms(8) no by blast
      with True no show ?thesis using assms bel
        by (intro exI [of _ "(unavailable fmt a (js
            ''Preview could not be loaded through Home Assistant. Retry or download the artifact.''))\<lparr>pr_retryable := True\<rparr>"])
          (auto simp: performArtifactPreviewLoad_def Let_def new_load_def start_call_def preview_failed_def
            superseded_def belongs_def)
    qed
  qed
qed

lemma perform_fetch:
  assumes "ap_threadId w = Some t" "t \<noteq> []" "aid \<noteq> []" "find_artifact w aid = Some a"
    "\<not> (kind (advertisedDescriptor fmt a) = KBinary \<and> \<not> isPdfArtifactCandidate fmt a (JObj [])
      \<or> artifactPreviewSizeState fmt a \<noteq> WithinLimit \<or> (\<exists>e. artifact_url t aid = Inl e))"
  shows "\<exists>r. performArtifactPreviewLoad fmt tok aid w =
      start_call (new_load w aid (Suc (ap_token w)) a Fetching) (w\<lparr>ap_token := Suc (ap_token w), ap_requests := r\<rparr>)"
proof -
  obtain u where "artifact_url t aid = Inr u" using assms(5) by (cases "artifact_url t aid") auto
  then show ?thesis using assms
    by (intro exI [of _ "ap_requests w @ [(u, preview_headers fmt tok a)]"])
      (auto simp: performArtifactPreviewLoad_def Let_def new_load_def start_call_def)
qed

lemma start_call_simps [simp]:
  "ap_artifacts (start_call ld w) = ap_artifacts w" "ap_selected (start_call ld w) = ap_selected w"
  "ap_token (start_call ld w) = ap_token w" "ap_pending (start_call ld w) = ap_pending w @ [ld]"
  "ap_promises (start_call ld w) = Suc (ap_promises w)" "ap_preview (start_call ld w) = ap_preview w"
  "ap_live (start_call ld w) = ap_live w" "ap_load (start_call ld w) = ap_load w"
  by (simp_all add: start_call_def)

lemma inv_performed:
  assumes inv: "preview_inv fmt w" and idle: "ap_load w = None" and sel: "ap_selected w = Some aid"
  shows "preview_inv fmt ((performArtifactPreviewLoad fmt tok aid w)\<lparr>ap_load := Some (aid, ap_promises w)\<rparr>)"
proof (cases "ap_threadId w = None \<or> ap_threadId w = Some [] \<or> aid = [] \<or> find_artifact w aid = None")
  case True
  then obtain a where "performArtifactPreviewLoad fmt tok aid w = start_call (new_load w aid (ap_token w) a Settled) w"
    using perform_skip by blast
  then show ?thesis
    by (intro inv_started [OF inv idle sel, of Settled a "ap_token w"]) (simp_all add: sel)
next
  case False
  then obtain t a where t: "ap_threadId w = Some t" "t \<noteq> []" "aid \<noteq> []" and a: "find_artifact w aid = Some a"
    by auto
  note ok = find_artifact_Some [OF inv a]
  show ?thesis
  proof (cases "kind (advertisedDescriptor fmt a) = KBinary \<and> \<not> isPdfArtifactCandidate fmt a (JObj [])
      \<or> artifactPreviewSizeState fmt a \<noteq> WithinLimit \<or> (\<exists>e. artifact_url t aid = Inl e)")
    case True
    from perform_shown [OF t a ok sel True, of tok] obtain p where
      "performArtifactPreviewLoad fmt tok aid w =
        start_call (new_load w aid (Suc (ap_token w)) a Settled) (show_preview p (w\<lparr>ap_token := Suc (ap_token w)\<rparr>))"
      "\<not> truthy (durl p)" "belongs fmt aid p" by blast
    then show ?thesis
      using revoked_live [OF inv]
      by (intro inv_started [OF inv idle sel, of Settled a "Suc (ap_token w)"]) (simp_all add: sel)
  next
    case False
    from perform_fetch [OF t a False, of tok] obtain r where
      "performArtifactPreviewLoad fmt tok aid w =
        start_call (new_load w aid (Suc (ap_token w)) a Fetching) (w\<lparr>ap_token := Suc (ap_token w), ap_requests := r\<rparr>)"
      by blast
    then show ?thesis
      by (intro inv_started [OF inv idle sel, of Fetching a "Suc (ap_token w)"]) (simp_all add: sel ok)
  qed
qed

lemma inv_preview_load:
  assumes inv: "preview_inv fmt w" and sel: "ap_selected w = Some aid"
  shows "preview_inv fmt (loadArtifactPreview fmt tok aid w)"
proof (cases "ap_load w")
  case None
  then show ?thesis using inv_performed [OF inv None sel] by (simp add: loadArtifactPreview_def)
next
  case (Some l)
  then obtain a p where l: "ap_load w = Some (a, p)" by (cases l) auto
  then have "a = aid" using inv sel by (simp add: preview_inv_def)
  then show ?thesis using inv l by (simp add: loadArtifactPreview_def)
qed

subsection \<open>Continuing a load\<close>

lemma set_stage_pending:
  assumes "distinct (map ld_promise (ap_pending w))" "ld \<in> set (ap_pending w)"
  shows "set (ap_pending (set_stage ld st w)) = insert (ld\<lparr>ld_stage := st\<rparr>) (set (ap_pending w) - {ld})"
proof -
  have same: "l = ld" if "l \<in> set (ap_pending w)" "ld_promise l = ld_promise ld" for l
    using assms that by (simp add: distinct_map inj_on_def)
  let ?f = "\<lambda>l. if ld_promise l = ld_promise ld then l\<lparr>ld_stage := st\<rparr> else l"
  have "set (ap_pending (set_stage ld st w)) = ?f ` insert ld (set (ap_pending w) - {ld})"
    using assms(2) by (simp add: set_stage_def insert_absorb)
  also have "\<dots> = insert (?f ld) (?f ` (set (ap_pending w) - {ld}))" by (rule image_insert)
  also have "?f ` (set (ap_pending w) - {ld}) = (\<lambda>l. l) ` (set (ap_pending w) - {ld})"
    using same by (intro image_cong) auto
  finally show ?thesis by simp
qed

lemma set_stage_promises: "map ld_promise (ap_pending (set_stage ld st w)) = map ld_promise (ap_pending w)"
  by (auto simp: set_stage_def)

lemma set_stage_simps [simp]:
  "ap_artifacts (set_stage ld st w) = ap_artifacts w" "ap_selected (set_stage ld st w) = ap_selected w"
  "ap_token (set_stage ld st w) = ap_token w" "ap_promises (set_stage ld st w) = ap_promises w"
  "ap_preview (set_stage ld st w) = ap_preview w" "ap_live (set_stage ld st w) = ap_live w"
  "ap_load (set_stage ld st w) = ap_load w"
  by (simp_all add: set_stage_def)

text \<open>The one call whose result is wanted.\<close>

definition wanted :: "preview_load \<Rightarrow> preview_panel \<Rightarrow> bool" where
  "wanted ld w \<longleftrightarrow> ld \<in> set (ap_pending w) \<and> in_flight ld \<and> ld_token ld = ap_token w"

lemma wantedD:
  assumes "preview_inv fmt w" "wanted ld w"
  shows "ap_load w = Some (ld_artifactId ld, ld_promise ld)" "ap_selected w = Some (ld_artifactId ld)"
    "\<not> superseded ld w" "artifact_ok (ld_artifact ld)" "artifact_id (ld_artifact ld) = ld_artifactId ld"
  using assms by (auto simp: preview_inv_def load_ok_def wanted_def superseded_def)

lemma wanted_unique:
  assumes "preview_inv fmt w" "wanted ld w" "wanted ld' w"
  shows "ld' = ld"
proof -
  have "ld_promise ld' = ld_promise ld"
    using wantedD(1) [OF assms(1,2)] wantedD(1) [OF assms(1,3)] by simp
  then show ?thesis
    using assms by (auto simp: preview_inv_def wanted_def distinct_map inj_on_def)
qed

lemma superseded_iff:
  "preview_inv fmt w \<Longrightarrow> ld \<in> set (ap_pending w) \<Longrightarrow> in_flight ld \<Longrightarrow> superseded ld w \<longleftrightarrow> \<not> wanted ld w"
  using wantedD(3) by (auto simp: wanted_def superseded_def)

text \<open>A call whose result is no longer wanted only settles.\<close>

lemma inv_stale:
  assumes inv: "preview_inv fmt w" and ld: "ld \<in> set (ap_pending w)" and stale: "ld_token ld \<noteq> ap_token w"
  shows "preview_inv fmt (set_stage ld Settled w)"
proof -
  let ?w = "set_stage ld Settled w"
  have d: "distinct (map ld_promise (ap_pending w))" using inv by (simp add: preview_inv_def)
  note P = set_stage_pending [OF d ld, of Settled]
  have r: "replacing ?w = replacing w"
    unfolding replacing_def P using stale ld by (auto simp: halfway_def)
  have o: "load_ok fmt ?w l" if "l \<in> set (ap_pending ?w)" for l
    using that inv ld unfolding P by (auto simp: preview_inv_def load_ok_def)
  have "\<exists>l\<in>set (ap_pending ?w). ld_promise l = p \<and> ld_artifactId l = a \<and> (in_flight l \<longrightarrow> ld_token l = ap_token w)"
    if h: "ap_load w = Some (a, p)" for a p
  proof -
    obtain l where l: "l \<in> set (ap_pending w)" "ld_promise l = p" "ld_artifactId l = a"
        "in_flight l \<longrightarrow> ld_token l = ap_token w"
      using inv h by (auto simp: preview_inv_def)
    show ?thesis unfolding P using l by (cases "l = ld") auto
  qed
  with inv o r d show ?thesis
    by (simp add: preview_inv_def set_stage_promises)
qed

text \<open>The wanted call moves on, with what it leaves on the screen.\<close>

lemma inv_wanted:
  assumes inv: "preview_inv fmt w" and want: "wanted ld w" and st: "st \<noteq> Fetching"
    and rd: "\<And>d. st = Reading d \<Longrightarrow> \<not> truthy (durl d) \<and> belongs fmt (ld_artifactId ld) d"
    and w': "ap_artifacts w' = ap_artifacts w" "ap_selected w' = ap_selected w" "ap_token w' = ap_token w"
      "ap_pending w' = ap_pending (set_stage ld st w)" "ap_promises w' = ap_promises w" "ap_load w' = ap_load w"
    and view: "\<And>p. ap_preview w' = Some p \<Longrightarrow> belongs fmt (ld_artifactId ld) p"
    and live: "ap_live w' = (if st = Settled then shown_url (ap_preview w') else [])"
  shows "preview_inv fmt w'"
proof -
  have d: "distinct (map ld_promise (ap_pending w))" using inv by (simp add: preview_inv_def)
  have ld: "ld \<in> set (ap_pending w)" "in_flight ld" "ld_token ld = ap_token w" using want by (simp_all add: wanted_def)
  note P = set_stage_pending [OF d ld(1), of st, folded w'(4)]
  note W = wantedD [OF inv want]
  have other: "ld_token l \<noteq> ap_token w" if "l \<in> set (ap_pending w)" "l \<noteq> ld" "in_flight l" for l
    using wanted_unique [OF inv want, of l] that by (auto simp: wanted_def)
  have r: "replacing w' \<longleftrightarrow> st \<noteq> Settled"
    unfolding replacing_def P using other st ld by (auto simp: halfway_def w')
  have "load_ok fmt w ld" using inv ld by (simp add: preview_inv_def)
  then have n: "load_ok fmt w' (ld\<lparr>ld_stage := st\<rparr>)"
    using rd W by (simp add: load_ok_def w')
  have "load_ok fmt w' l" if "l \<in> set (ap_pending w)" for l
    using that inv by (simp add: preview_inv_def load_ok_def w')
  with n have o: "load_ok fmt w' l" if "l \<in> set (ap_pending w')" for l
    using that unfolding P by auto
  have "distinct (map ld_promise (ap_pending w'))" using d by (simp add: w' set_stage_promises)
  moreover have "\<exists>l\<in>set (ap_pending w'). ld_promise l = ld_promise ld \<and> ld_artifactId l = ld_artifactId ld
      \<and> (in_flight l \<longrightarrow> ld_token l = ap_token w)"
    unfolding P using ld by simp
  ultimately show ?thesis
    using inv o r W view live by (simp add: preview_inv_def w')
qed

lemma inv_settles:
  assumes "preview_inv fmt w" "wanted ld w" "\<not> truthy (durl p)" "belongs fmt (ld_artifactId ld) p"
  shows "preview_inv fmt (set_stage ld Settled (show_preview p w))"
  using assms revoked_live [OF assms(1)]
  by (intro inv_wanted [OF assms(1,2), of Settled]) (simp_all add: set_stage_def)

lemma inv_failed:
  assumes inv: "preview_inv fmt w" and ld: "ld \<in> set (ap_pending w)" "in_flight ld"
  shows "preview_inv fmt (set_stage ld Settled (preview_failed fmt ld w))"
proof (cases "wanted ld w")
  case True
  note W = wantedD [OF inv True]
  have b: "belongs fmt (ld_artifactId ld) ((unavailable fmt (ld_artifact ld) n)\<lparr>pr_retryable := True\<rparr>)" for n
    using belongs_advertised(2) [OF W(4), of fmt n] by (simp add: W(5) belongs_def)
  show ?thesis
    unfolding preview_failed_def using W(3) by (simp add: inv_settles [OF inv True] b)
next
  case False
  then show ?thesis
    using inv_stale [OF inv ld(1)] superseded_iff [OF inv ld] ld
    by (simp add: preview_failed_def wanted_def)
qed

lemma revoke_eq: "preview_inv fmt w \<Longrightarrow> revokePreviewUrl w = w\<lparr>ap_live := []\<rparr>"
  using revoked_live [of fmt w]
  by (auto simp: revokePreviewUrl_def revokeObjectURL_def shown_url_def preview_inv_def split: option.splits if_splits)

lemma superseded_fields [simp]:
  "superseded ld (w\<lparr>ap_live := l\<rparr>) = superseded ld w" "superseded ld (w\<lparr>ap_live := l, ap_preview := p\<rparr>) = superseded ld w"
  by (simp_all add: superseded_def)

lemma inv_published:
  assumes "preview_inv fmt w" "wanted ld w" "belongs fmt (ld_artifactId ld) p" "L = shown_url (Some p)"
  shows "preview_inv fmt (publish_preview ld p (w\<lparr>ap_live := L\<rparr>))"
  using assms wantedD(3) [OF assms(1,2)]
  by (intro inv_wanted [OF assms(1,2), of Settled]) (simp_all add: publish_preview_def set_stage_def)

lemma inv_described:
  assumes inv: "preview_inv fmt w" and want: "wanted ld w" and url: "url \<noteq> []"
  shows "preview_inv fmt (describe_blob fmt url ld blob valid (w\<lparr>ap_live := []\<rparr>))"
proof -
  define b where "b = (if valid then new_Blob (blob_bytes blob) PDF_MIME_TYPE else blob)"
  define d where "d = plain (previewDescriptor fmt (ld_artifact ld) (typed (JStr (blob_type b))) valid)"
  have bel: "belongs fmt (ld_artifactId ld) d" and nt: "\<not> truthy (durl d)"
    using belongs_described [OF wantedD(4) [OF inv want], of fmt] by (simp_all add: d_def wantedD(5) [OF inv want])
  have b': "belongs fmt (ld_artifactId ld) (d\<lparr>pr_blob := x\<rparr>)" "belongs fmt (ld_artifactId ld) (d\<lparr>pr_notice := n\<rparr>)"
    "belongs fmt (ld_artifactId ld) (d\<lparr>durl := u, pr_blob := x\<rparr>)" for x n u
    using bel by (simp_all add: belongs_def)
  have eq: "describe_blob fmt url ld blob valid (w\<lparr>ap_live := []\<rparr>) =
     (case kind d of
           KText \<Rightarrow> set_stage ld (Reading (d\<lparr>pr_blob := Some b\<rparr>)) (w\<lparr>ap_live := []\<rparr>)
         | KBinary \<Rightarrow> publish_preview ld
             (if isPdfArtifactCandidate fmt (ld_artifact ld) (JObj [])
              then d\<lparr>pr_notice := js ''Preview blocked because the file did not contain a valid PDF header.''\<rparr>
              else d) (w\<lparr>ap_live := []\<rparr>)
         | _ \<Rightarrow> publish_preview ld (d\<lparr>durl := JStr url, pr_blob := Some b\<rparr>) (w\<lparr>ap_live := [url]\<rparr>))"
    by (simp add: describe_blob_def Let_def b_def d_def split: preview_kind.split)
  have shown: "preview_inv fmt (publish_preview ld (d\<lparr>durl := JStr url, pr_blob := Some b\<rparr>) (w\<lparr>ap_live := [url]\<rparr>))"
    using url by (intro inv_published [OF inv want]) (simp_all add: b' shown_url_def preview_url_def)
  have held: "ap_preview w = Some p \<Longrightarrow> belongs fmt (ld_artifactId ld) p" for p
    using inv wantedD(2) [OF inv want] by (auto simp: preview_inv_def)
  have "preview_inv fmt (set_stage ld (Reading (d\<lparr>pr_blob := Some b\<rparr>)) (w\<lparr>ap_live := []\<rparr>))"
    by (intro inv_wanted [OF inv want, of "Reading (d\<lparr>pr_blob := Some b\<rparr>)"]) (auto simp: b' nt held set_stage_def)
  then show ?thesis
    unfolding eq using shown
    by (cases "kind d") (auto intro!: inv_published [OF inv want] simp: b' bel nt)
qed

lemma inv_fetched:
  assumes inv: "preview_inv fmt w" and ld: "ld \<in> set (ap_pending w)" "in_flight ld" and url: "url \<noteq> []"
  shows "preview_inv fmt (fetched fmt url ld outcome w)"
proof (cases outcome)
  case (Inl e)
  then show ?thesis using inv_failed [OF inv ld] by (simp add: fetched_def)
next
  case (Inr answer)
  show ?thesis
  proof (cases "wanted ld w")
    case False
    then show ?thesis
      using Inr inv_stale [OF inv ld(1)] superseded_iff [OF inv ld] ld by (simp add: fetched_def wanted_def)
  next
    case True
    note W = wantedD [OF inv True]
    have held: "ap_preview w = Some p \<Longrightarrow> belongs fmt (ld_artifactId ld) p" for p
      using inv W(2) by (auto simp: preview_inv_def)
    have chk: "preview_inv fmt (set_stage ld (Checking b) (w\<lparr>ap_live := []\<rparr>))" for b
      by (intro inv_wanted [OF inv True, of "Checking b"]) (auto simp: held set_stage_def)
    have "preview_inv fmt (set_stage ld Settled ((revokePreviewUrl w)\<lparr>ap_preview := Some (unavailable fmt (ld_artifact ld) n)\<rparr>))" for n
      using inv_settles [OF inv True, of "unavailable fmt (ld_artifact ld) n"] belongs_advertised(2) [OF W(4), of fmt n]
      by (simp add: show_preview_def W(5))
    then show ?thesis
      using Inr W(3) chk inv_described [OF inv True url]
      by (simp add: fetched_def Let_def revoke_eq [OF inv] split: option.split)
  qed
qed

lemma halfway_live:
  assumes "preview_inv fmt w" "wanted ld w" "halfway (ld_stage ld)"
  shows "w = w\<lparr>ap_live := []\<rparr>"
proof -
  have "replacing w" using assms(2,3) by (auto simp: replacing_def wanted_def)
  then show ?thesis using assms(1) by (simp add: preview_inv_def)
qed

lemma inv_checked:
  assumes inv: "preview_inv fmt w" and ld: "ld \<in> set (ap_pending w)" "ld_stage ld = Checking b" and url: "url \<noteq> []"
  shows "preview_inv fmt (checked fmt url ld valid b w)"
proof (cases valid)
  case None
  then show ?thesis using inv_failed [OF inv ld(1)] ld by (simp add: checked_def)
next
  case (Some v)
  have fl: "in_flight ld" using ld by simp
  show ?thesis
  proof (cases "wanted ld w")
    case False
    then show ?thesis
      using Some inv_stale [OF inv ld(1)] superseded_iff [OF inv ld(1) fl] ld by (simp add: checked_def wanted_def)
  next
    case True
    have "w = w\<lparr>ap_live := []\<rparr>" using halfway_live [OF inv True] ld by (simp add: halfway_def)
    then show ?thesis
      using Some inv_described [OF inv True url, of b v] wantedD(3) [OF inv True] by (simp add: checked_def)
  qed
qed

lemma inv_text_read:
  assumes inv: "preview_inv fmt w" and ld: "ld \<in> set (ap_pending w)" "ld_stage ld = Reading d"
  shows "preview_inv fmt (text_read fmt ld content d w)"
proof (cases content)
  case None
  then show ?thesis using inv_failed [OF inv ld(1)] ld by (simp add: text_read_def)
next
  case (Some s)
  have d: "\<not> truthy (durl d)" "belongs fmt (ld_artifactId ld) d"
    using inv ld by (auto simp: preview_inv_def load_ok_def)
  have fl: "in_flight ld" using ld by simp
  show ?thesis
  proof (cases "wanted ld w")
    case False
    then show ?thesis
      using Some d inv_stale [OF inv ld(1)] superseded_iff [OF inv ld(1) fl] ld
      by (simp add: text_read_def publish_preview_def wanted_def)
  next
    case True
    have "w = w\<lparr>ap_live := []\<rparr>" using halfway_live [OF inv True] ld by (simp add: halfway_def)
    then show ?thesis
      using Some d inv_published [OF inv True, of "d\<lparr>dtext := JStr s\<rparr>" "[]"] by (simp add: text_read_def belongs_def)
  qed
qed

lemma inv_load_settled:
  assumes inv: "preview_inv fmt w" and ld: "ld \<in> set (ap_pending w)" "ld_stage ld = Settled"
  shows "preview_inv fmt (load_settled ld w)"
proof -
  let ?w = "load_settled ld w"
  have same: "l = ld" if "l \<in> set (ap_pending w)" "ld_promise l = ld_promise ld" for l
    using inv ld that by (auto simp: preview_inv_def distinct_map inj_on_def)
  have r: "replacing ?w = replacing w"
    using ld same by (auto simp: replacing_def load_settled_def halfway_def)
  have o: "load_ok fmt ?w l" if "l \<in> set (ap_pending ?w)" for l
    using that inv by (auto simp: preview_inv_def load_ok_def load_settled_def split: option.splits prod.splits)
  have "distinct (map ld_promise (ap_pending ?w))"
    using inv by (simp add: preview_inv_def load_settled_def distinct_map_filter)
  moreover have "ap_selected w = Some a \<and> (\<exists>l\<in>set (ap_pending ?w). ld_promise l = p \<and> ld_artifactId l = a
      \<and> (in_flight l \<longrightarrow> ld_token l = ap_token w))" if h: "ap_load ?w = Some (a, p)" for a p
  proof -
    have p: "p \<noteq> ld_promise ld" "ap_load w = Some (a, p)"
      using h by (auto simp: load_settled_def split: option.splits prod.splits if_splits)
    then obtain l where "l \<in> set (ap_pending w)" "ld_promise l = p" "ld_artifactId l = a"
        "in_flight l \<longrightarrow> ld_token l = ap_token w" "ap_selected w = Some a"
      using inv by (auto simp: preview_inv_def)
    with p(1) show ?thesis by (auto simp: load_settled_def)
  qed
  moreover have f: "ap_artifacts ?w = ap_artifacts w" "ap_selected ?w = ap_selected w" "ap_token ?w = ap_token w"
    "ap_preview ?w = ap_preview w" "ap_live ?w = ap_live w"
    by (simp_all add: load_settled_def)
  ultimately show ?thesis
    using inv o r unfolding preview_inv_def f by simp
qed

subsection \<open>Every step\<close>

lemma inv_selected_load:
  "preview_inv fmt w \<Longrightarrow> preview_inv fmt (loadArtifactPreview fmt tok aid ((clearArtifactPreview w)\<lparr>ap_selected := Some aid\<rparr>))"
  using blank_inv [OF blank_select [OF clear_blank]] by (intro inv_preview_load) simp_all

lemma inv_cleared:
  "preview_inv fmt w \<Longrightarrow> preview_inv fmt (clearArtifactPreview w)"
  "preview_inv fmt w \<Longrightarrow> preview_inv fmt ((clearArtifactPreview w)\<lparr>ap_selected := x\<rparr>)"
  using blank_inv [OF clear_blank] blank_inv [OF blank_select [OF clear_blank]] by blast+

lemma inv_preview_select: "preview_inv fmt w \<Longrightarrow> preview_inv fmt (selectArtifact fmt tok aid w)"
  unfolding selectArtifact_def Let_def
  by (cases "aid = [] \<or> Some aid = ap_selected w") (simp_all add: inv_selected_load inv_fields)

lemma inv_open: "preview_inv fmt w \<Longrightarrow> preview_inv fmt (openArtifactPreview fmt tok aid w)"
  unfolding openArtifactPreview_def
  by (cases "aid = [] \<or> find_artifact w aid = None"; cases "Some aid \<noteq> ap_selected w"; simp add: inv_preview_select)
    (simp add: inv_preview_load)

lemma clear_selected [simp]: "ap_selected (clearArtifactPreview w) = ap_selected w"
  by (simp add: clearArtifactPreview_def Let_def)

lemma inv_retry: "preview_inv fmt w \<Longrightarrow> preview_inv fmt (retryArtifactPreview fmt tok w)"
  by (auto simp: retryArtifactPreview_def inv_cleared intro!: inv_preview_load split: option.split)

lemma inv_sync: "preview_inv fmt w \<Longrightarrow> preview_inv fmt (syncSelectedArtifact fmt tok w)"
  by (simp add: syncSelectedArtifact_def Let_def clear_commutes inv_cleared inv_selected_load split: option.split)

lemma inv_archive:
  "preview_inv fmt w \<Longrightarrow> list_all artifact_ok as \<Longrightarrow> preview_inv fmt (show_archive fmt tok (Some as) aid w)"
  "preview_inv fmt w \<Longrightarrow> preview_inv fmt (show_archive fmt tok None aid w)"
  by (simp_all add: show_archive_def Let_def inv_selected_load inv_cleared inv_fields)

lemma inv_leave: "preview_inv fmt w \<Longrightarrow> preview_inv fmt (leave_thread t w)"
proof -
  assume "preview_inv fmt w"
  then have "preview_inv fmt ((clearArtifactPreview (w\<lparr>ap_threadId := t, ap_artifacts := []\<rparr>))\<lparr>ap_selected := None\<rparr>)"
    by (intro inv_cleared inv_fields) simp_all
  then show ?thesis by (simp add: leave_thread_def clear_commutes [symmetric])
qed

lemma preview_inv_step: "preview_step fmt w w' \<Longrightarrow> preview_inv fmt w \<Longrightarrow> preview_inv fmt w'"
proof (induction rule: preview_step.induct)
  case (answered ld w response outcome url)
  then show ?case by (intro inv_fetched) simp_all
qed (simp_all add: inv_preview_select inv_open inv_retry inv_sync refresh_artifacts_def inv_fields inv_archive inv_leave
    inv_cleared inv_checked inv_text_read inv_load_settled)

lemma preview_inv_initial: "preview_inv fmt initial_preview"
  by (simp add: preview_inv_def initial_preview_def shown_url_def)

interpretation ap: inductive_invariant "\<lambda>w. w = initial_preview" "preview_step fmt" "preview_reachable fmt"
  "preview_inv fmt" for fmt
proof unfold_locales
  show "P w" if "preview_reachable fmt w" "\<And>w. w = initial_preview \<Longrightarrow> P w"
      "\<And>w w'. preview_reachable fmt w \<Longrightarrow> P w \<Longrightarrow> preview_step fmt w w' \<Longrightarrow> P w'" for P w
    using that by (induction rule: preview_reachable.induct) blast+
qed (auto intro: preview_reachable.intros preview_inv_initial preview_inv_step)

lemmas preview_inv_reachable = ap.holds

section \<open>Properties\<close>

text \<open>
  C33: In every interleaving of the user's actions, the refreshes and the loads in flight, the
  preview on the screen is a preview of the selected artifact, and the only object URL the
  browser keeps alive is the one it shows: none is leaked, and none is revoked while it is
  shown, except between the arrival of a newer answer and its display.
\<close>

theorem preview_of_selection:
  assumes "preview_reachable fmt w"
  shows "case ap_preview w of
      None \<Rightarrow> ap_live w = []
    | Some p \<Rightarrow> (\<exists>a. ap_selected w = Some a \<and> artifactId p = sanitizeId fmt (JStr a) [])
        \<and> ap_live w = (if replacing w then [] else shown_url (Some p))"
  using preview_inv_reachable [OF assms]
  by (cases "ap_preview w") (auto simp: preview_inv_def belongs_def shown_url_def)

text \<open>
  A load that the panel still records is the one the user waits for: when its request
  fails, the panel shows the retry notice for the selected artifact. The answer to any other
  load, whatever it is, changes neither the preview nor the URLs nor the selection.
\<close>

theorem preview_answers_exact:
  assumes "preview_reachable fmt w" and "ld \<in> set (ap_pending w)" and "ld_stage ld = Fetching"
  shows "if ap_load w = Some (ld_artifactId ld, ld_promise ld)
    then ap_selected w = Some (ld_artifactId ld)
      \<and> map_option pr_retryable (ap_preview (fetched fmt url ld (Inl ()) w)) = Some True
    else ap_preview (fetched fmt url ld outcome w) = ap_preview w
      \<and> ap_live (fetched fmt url ld outcome w) = ap_live w
      \<and> ap_selected (fetched fmt url ld outcome w) = ap_selected w"
proof -
  note inv = preview_inv_reachable [OF assms(1)]
  have fl: "in_flight ld" using assms(3) by simp
  show ?thesis
  proof (cases "wanted ld w")
    case True
    then show ?thesis
      using wantedD [OF inv True] by (simp add: fetched_def preview_failed_def)
  next
    case False
    then have s: "superseded ld w" using superseded_iff [OF inv assms(2) fl] by simp
    have "ap_load w \<noteq> Some (ld_artifactId ld, ld_promise ld)"
    proof
      assume "ap_load w = Some (ld_artifactId ld, ld_promise ld)"
      then obtain l where "l \<in> set (ap_pending w)" "ld_promise l = ld_promise ld" "in_flight l \<longrightarrow> ld_token l = ap_token w"
        using inv by (auto simp: preview_inv_def)
      moreover from this have "l = ld" using inv assms(2) by (auto simp: preview_inv_def distinct_map inj_on_def)
      ultimately show False using False assms(2) fl by (simp add: wanted_def)
    qed
    with s show ?thesis by (cases outcome) (simp_all add: fetched_def preview_failed_def)
  qed
qed

definition sample_artifact :: jsval where
  "sample_artifact = JObj [(js ''artifact_id'', jlit ''a1''), (js ''filename'', jlit ''x.png''),
     (js ''mime_type'', jlit ''image/png''), (js ''size_bytes'', jint 3)]"

definition sample_loading :: preview_panel where
  "sample_loading = refresh_artifacts (\<lambda>_. []) JUndefined [sample_artifact] (leave_thread (Some (js ''t'')) initial_preview)"

definition sample_load :: preview_load where
  "sample_load = \<lparr>ld_promise = 0, ld_artifactId = js ''a1'', ld_token = 3, ld_artifact = sample_artifact, ld_stage = Fetching\<rparr>"

definition sample_shown :: preview_panel where
  "sample_shown = fetched (\<lambda>_. []) (js ''blob:1'') sample_load (Inr (Some (new_Blob [1, 2, 3] (js ''image/png'')))) sample_loading"

lemma sample_fields:
  "dot sample_artifact ''artifact_id'' = jlit ''a1''" "dot sample_artifact ''mime_type'' = jlit ''image/png''"
  "dot sample_artifact ''filename'' = jlit ''x.png''" "dot sample_artifact ''size_bytes'' = jint 3"
  "dot sample_artifact ''source'' = JUndefined" "is_record sample_artifact"
  "dot (typed v) ''type'' = v" "dot (JObj []) ''type'' = JUndefined"
  by (simp_all add: sample_artifact_def typed_def dot_JObj obj_get_def)

lemma sample_mime: "mime_of fmt (jlit ''image/png'') = js ''image/png''" "mime_of fmt JUndefined = []"
  by (simp_all add: mime_of_def js_or_def js_def js_lower_def lower_unit_def js_trim_def is_ws_def)

lemma sample_filename: "previewFilename fmt sample_artifact = js ''x.png''"
  by (simp add: previewFilename_def sample_fields sanitizeFilename_def js_or_def js_coalesce_def nullish_def
      removeControlChars_eq not_control_def js_def js_trim_def is_ws_def)

lemma sample_policy:
  "\<not> isPdfArtifactCandidate fmt sample_artifact (JObj [])"
  "artifactPreviewSizeState fmt sample_artifact = WithinLimit"
  "kind (previewDescriptor fmt sample_artifact (typed (jlit ''image/png'')) False) = KImage"
proof -
  have "extensionOf (js ''x.png'') \<noteq> js ''pdf''"
    by (simp add: extensionOf_def js_def js_lower_def lower_unit_def)
  then show p: "\<not> isPdfArtifactCandidate fmt sample_artifact (JObj [])"
    by (simp add: isPdfArtifactCandidate_def effectivePreviewMime_def sample_fields sample_mime sample_filename
        PDF_MIME_TYPE_def)
  show "artifactPreviewSizeState fmt sample_artifact = WithinLimit"
    using p by (simp add: artifactPreviewSizeState_def sample_fields artifactPreviewLimit_def
        isGeneratedImageArtifact_def ARTIFACT_PREVIEW_MAX_BYTES_def MAX_SAFE_def is_safe_integer_jint [of 3, simplified])
  show "kind (previewDescriptor fmt sample_artifact (typed (jlit ''image/png'')) False) = KImage"
    by (simp add: previewDescriptor_kind effectivePreviewMime_def sample_fields sample_mime RASTER_MIME_TYPES_def)
qed

lemma sample_url: "artifact_url (js ''t'') (js ''a1'') = Inr (js ''/api/codex_bridge/threads/t/artifacts/a1'')"
  by (simp add: artifact_url_def encodeURIComponent_def encode_char_def uri_unreserved_def is_alpha_def is_digit_def
      js_def is_high_def)

lemma sample_candidate: "isAutoPreviewCandidate fmt sample_artifact"
  by (simp add: isAutoPreviewCandidate_def sample_policy sample_fields js_or_def)

lemma sample_loading_facts:
  "ap_pending sample_loading = [sample_load]" "ap_live sample_loading = []"
  "ap_load sample_loading = Some (js ''a1'', 0)" "ap_selected sample_loading = Some (js ''a1'')"
  "ap_token sample_loading = 3" "ap_preview sample_loading = None"
proof -
  have k: "kind (advertisedDescriptor f sample_artifact) = KImage" for f
    by (simp add: advertisedDescriptor_def sample_policy sample_fields)
  have i: "artifact_id sample_artifact = js ''a1''" by (simp add: artifact_id_def sample_fields)
  note d = sample_loading_def refresh_artifacts_def leave_thread_def initial_preview_def clearArtifactPreview_def Let_def
    revokePreviewUrl_def syncSelectedArtifact_def i sample_candidate loadArtifactPreview_def
    performArtifactPreviewLoad_def find_artifact_def k sample_policy sample_url sample_load_def
  show "ap_pending sample_loading = [sample_load]" "ap_live sample_loading = []"
    "ap_load sample_loading = Some (js ''a1'', 0)" "ap_selected sample_loading = Some (js ''a1'')"
    "ap_token sample_loading = 3" "ap_preview sample_loading = None"
    by (simp_all add: d)
qed

lemma sample_loading_reachable: "preview_reachable (\<lambda>_. []) sample_loading"
proof -
  have "preview_reachable (\<lambda>_. []) (leave_thread (Some (js ''t'')) initial_preview)"
    using preview_reachable.init preview_step.leave by (rule preview_reachable.step)
  then show ?thesis
    unfolding sample_loading_def
    by (rule preview_reachable.step, intro preview_step.refresh) (simp add: artifact_ok_def sample_fields)
qed

definition sample_response :: response where
  "sample_response = \<lparr>rs_ok = True, rs_length = JNull, rs_type = jlit ''image/png'', rs_body = Some (stream_of [[1, 2, 3]])\<rparr>"

lemma sample_outcome:
  "fetch_outcome fmt sample_artifact (Some sample_response) = Some (Inr (Some (new_Blob [1, 2, 3] (js ''image/png''))))"
proof -
  have "response_type fmt (jlit ''image/png'') = js ''image/png''"
    by (simp add: response_type_def js_or_def js_def js_trim_def is_ws_def)
  moreover obtain r where "read_loop ARTIFACT_PREVIEW_MAX_BYTES (stream_of [[1, 2, 3]]) 0 [] = Some r"
      "rd_outcome r = Inr (Some [1, 2, 3])"
    using read_loop_stream_of [of 0 "[[1, 2, 3]]" ARTIFACT_PREVIEW_MAX_BYTES "[]"]
    by (auto simp: ARTIFACT_PREVIEW_MAX_BYTES_def)
  ultimately show ?thesis
    by (simp add: fetch_outcome_def sample_response_def readBoundedPreviewResponse_def length_refused_def
        artifactPreviewLimit_def sample_policy isGeneratedImageArtifact_def sample_fields)
qed

lemma sample_shown_reachable: "preview_reachable (\<lambda>_. []) sample_shown"
  unfolding sample_shown_def
  by (rule preview_reachable.step [OF sample_loading_reachable],
      rule preview_step.answered [OF _ _ _ _ _, where response = "Some sample_response"])
    (simp_all add: sample_loading_facts, simp_all add: sample_load_def sample_outcome)

lemma sample_shown_facts: "map_option preview_url (ap_preview sample_shown) = Some (js ''blob:1'')"
proof -
  have b: "typed (JStr (blob_type (new_Blob [1, 2, 3] (js ''image/png'')))) = typed (jlit ''image/png'')"
    by (simp add: new_Blob_def js_def js_lower_def lower_unit_def)
  have l: "ld_artifact sample_load = sample_artifact" "ld_token sample_load = 3" "ld_artifactId sample_load = js ''a1''"
    by (simp_all add: sample_load_def)
  have r: "revokePreviewUrl sample_loading = sample_loading"
    by (simp add: revokePreviewUrl_def sample_loading_facts)
  show ?thesis
    by (simp add: sample_shown_def fetched_def superseded_def sample_loading_facts l r sample_policy describe_blob_def b
        publish_preview_def preview_url_def)
qed

theorem preview_of_selection_witness:
  "\<exists>p a. ap_preview sample_shown = Some p \<and> preview_url p = js ''blob:1'' \<and> ap_selected sample_shown = Some a
    \<and> artifactId p = sanitizeId (\<lambda>_. []) (JStr a) []"
  using preview_of_selection [OF sample_shown_reachable] sample_shown_facts
  by (cases "ap_preview sample_shown") auto

theorem preview_answers_exact_witness:
  "map_option pr_retryable (ap_preview (fetched (\<lambda>_. []) (js ''blob:1'') sample_load (Inl ()) sample_loading)) = Some True"
  using preview_answers_exact [OF sample_loading_reachable, of sample_load "js ''blob:1''" "Inl ()"]
  by (simp add: sample_loading_facts) (simp add: sample_load_def)

end
