(* ===== verification/ArtifactRefresh.thy ===== *)
theory ArtifactRefresh
  imports ArtifactPreview
begin

text \<open>
  The refresh of the artifact list and the workspace archive of the panel. The bridge answers
  a list request with a reservation conflict while a run still writes its files; the panel then
  retries on a timer, at most three times with growing delays, and a generation counter makes
  the answers and timers of an earlier attempt inert. The view of the artifacts is the state of
  the preview component.
\<close>

section \<open>State\<close>

record refresh_state =
  rf_status :: string
  rf_message :: jstr
  rf_action :: string

definition idle_state :: refresh_state where
  "idle_state = \<lparr>rf_status = ''idle'', rf_message = [], rf_action = ''''\<rparr>"

definition plain_state :: "string \<Rightarrow> jstr \<Rightarrow> refresh_state" where
  "plain_state st msg = \<lparr>rf_status = st, rf_message = msg, rf_action = ''''\<rparr>"

record refresh_timer =
  tm_thread :: jstr
  tm_generation :: nat
  tm_delay :: nat

record refresh_call =
  rc_id :: nat
  rc_thread :: jstr
  rc_generation :: nat
  rc_manual :: bool

datatype archive_stage = ArchiveCreating | ArchiveListing jstr | ArchivePreviewing

record archive_call =
  ac_thread :: jstr
  ac_epoch :: nat
  ac_stage :: archive_stage

text \<open>\<open>ar_auto\<close> logs the generation of every request a timer made.\<close>

record refresh_panel =
  ar_view :: preview_panel
  ar_threadStatus :: jsval
  ar_connected :: bool
  ar_epoch :: nat
  ar_generation :: nat
  ar_attempts :: nat
  ar_timer :: "refresh_timer option"
  ar_state :: refresh_state
  ar_calls :: "refresh_call list"
  ar_nextCall :: nat
  ar_archivePending :: bool
  ar_archives :: "archive_call list"
  ar_auto :: "nat list"

abbreviation selectedThread :: "refresh_panel \<Rightarrow> jstr option" where
  "selectedThread w \<equiv> ap_threadId (ar_view w)"

definition ARTIFACT_REFRESH_RETRY_MAX_ATTEMPTS :: nat where
  "ARTIFACT_REFRESH_RETRY_MAX_ATTEMPTS = 3"

definition ARTIFACT_REFRESH_RETRY_DELAYS_MS :: "nat list" where
  "ARTIFACT_REFRESH_RETRY_DELAYS_MS = [500, 1000, 2000]"

section \<open>The retry\<close>

definition clearArtifactRefreshRetry :: "bool \<Rightarrow> refresh_panel \<Rightarrow> refresh_panel" where
  "clearArtifactRefreshRetry resetState w =
     w\<lparr>ar_generation := Suc (ar_generation w), ar_timer := None, ar_attempts := 0,
       ar_state := (if resetState then idle_state else ar_state w)\<rparr>"

definition scheduleArtifactRefreshRetry :: "jstr \<Rightarrow> refresh_panel \<Rightarrow> refresh_panel" where
  "scheduleArtifactRefreshRetry threadId w =
     (if ar_timer w \<noteq> None \<or> threadId = [] \<or> Some threadId \<noteq> selectedThread w \<or> \<not> ar_connected w then w
      else (let attempt = ar_attempts w;
                ms = ARTIFACT_REFRESH_RETRY_DELAYS_MS !
                  min attempt (length ARTIFACT_REFRESH_RETRY_DELAYS_MS - 1)
            in w\<lparr>ar_timer := Some \<lparr>tm_thread = threadId, tm_generation = ar_generation w, tm_delay = ms\<rparr>\<rparr>))"

definition noteArtifactReservationConflict ::
  "jstr \<Rightarrow> bool \<Rightarrow> jsval \<Rightarrow> bool \<Rightarrow> refresh_panel \<Rightarrow> refresh_panel" where
  "noteArtifactReservationConflict threadId manual runStatus retryArchive w =
     (if threadId = [] \<or> Some threadId \<noteq> selectedThread w then w
      else if retryArchive then
        (clearArtifactRefreshRetry False w)\<lparr>ar_state := \<lparr>rf_status = ''retryable'',
           rf_message = js ''Workspace archive is still being prepared.'', rf_action = ''retry-archive''\<rparr>\<rparr>
      else if \<not> manual \<and> js_or runStatus (ar_threadStatus w) = jlit ''running'' then
        w\<lparr>ar_state := plain_state ''waiting'' (js ''Files will be available after this run finishes.'')\<rparr>
      else if ar_attempts w \<ge> ARTIFACT_REFRESH_RETRY_MAX_ATTEMPTS then
        w\<lparr>ar_state := plain_state ''retryable'' (js ''Files are still being prepared.'')\<rparr>
      else scheduleArtifactRefreshRetry threadId
        (w\<lparr>ar_state := plain_state ''retrying'' (js ''Files are still being prepared. Retrying'' @ [0x2026])\<rparr>))"

definition noteArtifactRefreshFailure :: "jstr \<Rightarrow> refresh_panel \<Rightarrow> refresh_panel" where
  "noteArtifactRefreshFailure threadId w =
     (if threadId = [] \<or> Some threadId \<noteq> selectedThread w then w
      else (clearArtifactRefreshRetry False w)\<lparr>ar_state := \<lparr>rf_status = ''retryable'',
         rf_message = js ''Files could not be refreshed.'', rf_action = ''retry-artifacts''\<rparr>\<rparr>)"

text \<open>\<open>_retryArtifactRefresh\<close> up to the list request.\<close>

definition retryArtifactRefresh :: "bool \<Rightarrow> refresh_panel \<Rightarrow> refresh_panel" where
  "retryArtifactRefresh manual w =
     (case selectedThread w of
        None \<Rightarrow> w
      | Some threadId \<Rightarrow>
          if threadId = [] \<or> \<not> ar_connected w then w
          else (let w1 = (if manual
                    then (clearArtifactRefreshRetry False w)\<lparr>ar_state := plain_state ''retrying'' (js ''Refreshing files'' @ [0x2026])\<rparr>
                    else w)
                in w1\<lparr>ar_calls := ar_calls w1 @ [\<lparr>rc_id = ar_nextCall w1, rc_thread = threadId,
                         rc_generation = ar_generation w1, rc_manual = manual\<rparr>],
                      ar_nextCall := Suc (ar_nextCall w1)\<rparr>))"

text \<open>The callback of the timer.\<close>

definition timer_fires :: "refresh_timer \<Rightarrow> refresh_panel \<Rightarrow> refresh_panel" where
  "timer_fires t w =
     (let w1 = w\<lparr>ar_timer := None\<rparr> in
      if tm_generation t \<noteq> ar_generation w1 \<or> Some (tm_thread t) \<noteq> selectedThread w1 \<or> \<not> ar_connected w1 then w1
      else retryArtifactRefresh False
        (w1\<lparr>ar_attempts := Suc (ar_attempts w1), ar_auto := ar_auto w1 @ [ar_generation w1]\<rparr>))"

text \<open>Its continuation: the list, or the error of the request.\<close>

definition refresh_current :: "refresh_call \<Rightarrow> refresh_panel \<Rightarrow> bool" where
  "refresh_current c w \<longleftrightarrow> rc_generation c = ar_generation w \<and> Some (rc_thread c) = selectedThread w \<and> ar_connected w"

definition refresh_answered ::
  "(rat \<Rightarrow> jstr) \<Rightarrow> jsval \<Rightarrow> refresh_call \<Rightarrow> jsval + jsval \<Rightarrow> refresh_panel \<Rightarrow> refresh_panel" where
  "refresh_answered fmt accessToken c answer w =
     (let w1 = w\<lparr>ar_calls := filter (\<lambda>x. rc_id x \<noteq> rc_id c) (ar_calls w)\<rparr> in
      if \<not> refresh_current c w1 then w1
      else (case answer of
         Inr artifacts \<Rightarrow>
           (let w2 = clearArtifactRefreshRetry True
                  (w1\<lparr>ar_view := (ar_view w1)\<lparr>ap_artifacts := as_list artifacts\<rparr>\<rparr>)
            in w2\<lparr>ar_view := syncSelectedArtifact fmt accessToken (ar_view w2)\<rparr>)
       | Inl error \<Rightarrow>
           if canDeferArtifactRefresh fmt error
           then noteArtifactReservationConflict (rc_thread c) (rc_manual c) JNull False w1
           else noteArtifactRefreshFailure (rc_thread c) w1))"

text \<open>The end of a list request made by the thread refreshes and polls: \<open>runStatus\<close> is that of the thread they read.\<close>

definition other_refresh_failed :: "(rat \<Rightarrow> jstr) \<Rightarrow> jstr \<Rightarrow> jsval \<Rightarrow> jsval \<Rightarrow> refresh_panel \<Rightarrow> refresh_panel" where
  "other_refresh_failed fmt threadId runStatus error w =
     (if canDeferArtifactRefresh fmt error then noteArtifactReservationConflict threadId False runStatus False w
      else noteArtifactRefreshFailure threadId w)"

definition other_refresh_done :: "(rat \<Rightarrow> jstr) \<Rightarrow> jsval \<Rightarrow> jsval list \<Rightarrow> refresh_panel \<Rightarrow> refresh_panel" where
  "other_refresh_done fmt accessToken artifacts w =
     (let w1 = clearArtifactRefreshRetry True (w\<lparr>ar_view := (ar_view w)\<lparr>ap_artifacts := artifacts\<rparr>\<rparr>)
      in w1\<lparr>ar_view := syncSelectedArtifact fmt accessToken (ar_view w1)\<rparr>)"

section \<open>The workspace archive\<close>

definition createWorkspaceArchive :: "bool \<Rightarrow> refresh_panel \<Rightarrow> refresh_panel" where
  "createWorkspaceArchive retry w =
     (case selectedThread w of
        None \<Rightarrow> w
      | Some threadId \<Rightarrow>
          if threadId = [] \<or> ar_archivePending w then w
          else (clearArtifactRefreshRetry True (w\<lparr>ar_archivePending := True\<rparr>))
            \<lparr>ar_state := plain_state ''retrying''
               (js (if retry then ''Retrying workspace archive...'' else ''Creating workspace archive...'')),
             ar_archives := ar_archives w @
               [\<lparr>ac_thread = threadId, ac_epoch = ar_epoch w, ac_stage = ArchiveCreating\<rparr>]\<rparr>)"

definition archive_current :: "archive_call \<Rightarrow> refresh_panel \<Rightarrow> bool" where
  "archive_current c w \<longleftrightarrow> Some (ac_thread c) = selectedThread w \<and> ac_epoch c = ar_epoch w \<and> ar_connected w"

text \<open>The \<open>finally\<close> block, and the passage to the next await.\<close>

definition archive_ends :: "archive_call \<Rightarrow> refresh_panel \<Rightarrow> refresh_panel" where
  "archive_ends c w = w\<lparr>ar_archivePending := False, ar_archives := remove1 c (ar_archives w)\<rparr>"

definition archive_awaits :: "archive_call \<Rightarrow> archive_stage \<Rightarrow> refresh_panel \<Rightarrow> refresh_panel" where
  "archive_awaits c st w = w\<lparr>ar_archives := remove1 c (ar_archives w) @ [c\<lparr>ac_stage := st\<rparr>]\<rparr>"

text \<open>The outer \<open>catch\<close> block.\<close>

definition archive_failed :: "(rat \<Rightarrow> jstr) \<Rightarrow> archive_call \<Rightarrow> jsval \<Rightarrow> refresh_panel \<Rightarrow> refresh_panel" where
  "archive_failed fmt c error w =
     (if canDeferArtifactRefresh fmt error
      then noteArtifactReservationConflict (ac_thread c) False JNull True w
      else (clearArtifactRefreshRetry False w)\<lparr>ar_state := \<lparr>rf_status = ''retryable'',
         rf_message = js ''Workspace archive could not be created.'', rf_action = ''retry-archive''\<rparr>\<rparr>)"

definition archive_created :: "(rat \<Rightarrow> jstr) \<Rightarrow> archive_call \<Rightarrow> jsval + jsval \<Rightarrow> refresh_panel \<Rightarrow> refresh_panel" where
  "archive_created fmt c answer w =
     (if \<not> archive_current c w then archive_ends c w
      else (case answer of
         Inr artifact \<Rightarrow> archive_awaits c (ArchiveListing (artifact_id artifact)) w
       | Inl error \<Rightarrow> archive_ends c (archive_failed fmt c error w)))"

definition archive_listed ::
  "(rat \<Rightarrow> jstr) \<Rightarrow> jsval \<Rightarrow> archive_call \<Rightarrow> jstr \<Rightarrow> jsval + jsval list \<Rightarrow> refresh_panel \<Rightarrow> refresh_panel" where
  "archive_listed fmt accessToken c aid answer w =
     (if \<not> archive_current c w then archive_ends c w
      else (case answer of
         Inl error \<Rightarrow>
           (let w1 = (if canDeferArtifactRefresh fmt error
                  then noteArtifactReservationConflict (ac_thread c) False JNull False w
                  else noteArtifactRefreshFailure (ac_thread c) w)
            in archive_ends c (w1\<lparr>ar_view := show_archive fmt accessToken None aid (ar_view w1)\<rparr>))
       | Inr artifacts \<Rightarrow>
           (let w1 = clearArtifactRefreshRetry True w;
                w2 = w1\<lparr>ar_view := show_archive fmt accessToken (Some artifacts) aid (ar_view w1)\<rparr>
            in if list_ex (\<lambda>item. artifact_id item = aid) artifacts
               then archive_awaits c ArchivePreviewing w2 else archive_ends c w2)))"

section \<open>Selection of a chat, connection\<close>

definition setSelectedThreadId :: "jsval \<Rightarrow> bool \<Rightarrow> refresh_panel \<Rightarrow> refresh_panel" where
  "setSelectedThreadId threadId force w =
     (let nextThreadId = (if is_string threadId \<and> as_string threadId \<noteq> [] then Some (as_string threadId) else None)
      in if force \<or> nextThreadId \<noteq> selectedThread w
         then (let v = ar_view w in
               (clearArtifactRefreshRetry True w)\<lparr>ar_epoch := Suc (ar_epoch w),
                 ar_view := leave_thread nextThreadId
                   (v\<lparr>ap_downloads := invalidateArtifactDownloads (ap_downloads v)\<rparr>)\<rparr>)
         else w)"

definition disconnected :: "refresh_panel \<Rightarrow> refresh_panel" where
  "disconnected w =
     (let v = ar_view w in
      (clearArtifactRefreshRetry True (w\<lparr>ar_connected := False\<rparr>))
        \<lparr>ar_view := clearArtifactPreview (v\<lparr>ap_downloads := invalidateArtifactDownloads (ap_downloads v)\<rparr>)\<rparr>)"

section \<open>Interleavings\<close>

inductive refresh_step :: "(rat \<Rightarrow> jstr) \<Rightarrow> refresh_panel \<Rightarrow> refresh_panel \<Rightarrow> bool" for fmt where
  thread: "refresh_step fmt w (setSelectedThreadId t force w)"
| status: "refresh_step fmt w (w\<lparr>ar_threadStatus := s\<rparr>)"
| connect: "refresh_step fmt w (w\<lparr>ar_connected := True\<rparr>)"
| disconnect: "refresh_step fmt w (disconnected w)"
| view: "preview_step fmt (ar_view w) v \<Longrightarrow> ap_threadId v = selectedThread w \<Longrightarrow> refresh_step fmt w (w\<lparr>ar_view := v\<rparr>)"
| manual: "refresh_step fmt w (retryArtifactRefresh True w)"
| fires: "ar_timer w = Some t \<Longrightarrow> refresh_step fmt w (timer_fires t w)"
| answered: "c \<in> set (ar_calls w) \<Longrightarrow> (\<forall>artifacts. answer = Inr artifacts \<longrightarrow> list_all artifact_ok (as_list artifacts)) \<Longrightarrow>
    refresh_step fmt w (refresh_answered fmt tok c answer w)"
| other_failed: "refresh_step fmt w (other_refresh_failed fmt t runStatus error w)"
| other_done: "list_all artifact_ok artifacts \<Longrightarrow> refresh_step fmt w (other_refresh_done fmt tok artifacts w)"
| archive: "refresh_step fmt w (createWorkspaceArchive retry w)"
| created: "c \<in> set (ar_archives w) \<Longrightarrow> ac_stage c = ArchiveCreating \<Longrightarrow>
    (\<forall>artifact. answer = Inr artifact \<longrightarrow> artifact_ok artifact) \<Longrightarrow>
    refresh_step fmt w (archive_created fmt c answer w)"
| listed: "c \<in> set (ar_archives w) \<Longrightarrow> ac_stage c = ArchiveListing aid \<Longrightarrow>
    (\<forall>artifacts. answer = Inr artifacts \<longrightarrow> list_all artifact_ok artifacts) \<Longrightarrow>
    refresh_step fmt w (archive_listed fmt tok c aid answer w)"
| previewed: "c \<in> set (ar_archives w) \<Longrightarrow> ac_stage c = ArchivePreviewing \<Longrightarrow> refresh_step fmt w (archive_ends c w)"

definition initial_refresh :: refresh_panel where
  "initial_refresh = \<lparr>ar_view = initial_preview, ar_threadStatus = JUndefined, ar_connected = False, ar_epoch = 0,
     ar_generation = 0, ar_attempts = 0, ar_timer = None, ar_state = idle_state, ar_calls = [], ar_nextCall = 0,
     ar_archivePending = False, ar_archives = [], ar_auto = []\<rparr>"

inductive refresh_reachable :: "(rat \<Rightarrow> jstr) \<Rightarrow> refresh_panel \<Rightarrow> bool" for fmt where
  init: "refresh_reachable fmt initial_refresh"
| step: "refresh_reachable fmt w \<Longrightarrow> refresh_step fmt w w' \<Longrightarrow> refresh_reachable fmt w'"

section \<open>The invariant\<close>

definition timer_ok :: "refresh_panel \<Rightarrow> refresh_timer \<Rightarrow> bool" where
  "timer_ok w t \<longleftrightarrow> tm_generation t = ar_generation w \<and> Some (tm_thread t) = selectedThread w \<and> ar_connected w
     \<and> ar_attempts w < 3 \<and> tm_delay t = [500, 1000, 2000] ! ar_attempts w"

definition retry_inv :: "refresh_panel \<Rightarrow> bool" where
  "retry_inv w \<longleftrightarrow> (\<forall>t. ar_timer w = Some t \<longrightarrow> timer_ok w t) \<and> ar_attempts w \<le> 3
     \<and> count_list (ar_auto w) (ar_generation w) = ar_attempts w
     \<and> (\<forall>g. ar_generation w < g \<longrightarrow> count_list (ar_auto w) g = 0) \<and> (\<forall>g. count_list (ar_auto w) g \<le> 3)"

definition archive_inv :: "refresh_panel \<Rightarrow> bool" where
  "archive_inv w \<longleftrightarrow> length (ar_archives w) \<le> 1 \<and> (ar_archivePending w \<longleftrightarrow> ar_archives w \<noteq> [])"

text \<open>The retry fields: an operation that leaves them alone keeps the invariant.\<close>

definition retry_view :: "refresh_panel \<Rightarrow> nat \<times> nat \<times> refresh_timer option \<times> nat list \<times> jstr option \<times> bool" where
  "retry_view w = (ar_generation w, ar_attempts w, ar_timer w, ar_auto w, selectedThread w, ar_connected w)"

lemma retry_inv_cong: "retry_inv w \<Longrightarrow> retry_view w' = retry_view w \<Longrightarrow> retry_inv w'"
  by (simp add: retry_view_def retry_inv_def timer_ok_def)

lemma retry_inv_clear: "retry_inv w \<Longrightarrow> retry_inv (clearArtifactRefreshRetry b w)"
  by (simp add: retry_inv_def clearArtifactRefreshRetry_def)

text \<open>With no timer set the invariant does not depend on the chat or the connection.\<close>

lemma retry_inv_no_timer:
  "retry_inv w \<Longrightarrow> ar_timer w' = None \<Longrightarrow> ar_generation w' = ar_generation w \<Longrightarrow> ar_attempts w' = ar_attempts w
    \<Longrightarrow> ar_auto w' = ar_auto w \<Longrightarrow> retry_inv w'"
  by (simp add: retry_inv_def)

lemma clear_timer [simp]: "ar_timer (clearArtifactRefreshRetry b w) = None"
  by (simp add: clearArtifactRefreshRetry_def)

lemma retry_inv_schedule:
  assumes inv: "retry_inv w" and a: "ar_attempts w < 3"
  shows "retry_inv (scheduleArtifactRefreshRetry t w)"
proof -
  have "min (ar_attempts w) 2 = ar_attempts w" using a by simp
  then show ?thesis
    using inv a by (simp add: scheduleArtifactRefreshRetry_def Let_def retry_inv_def timer_ok_def
        ARTIFACT_REFRESH_RETRY_DELAYS_MS_def)
qed

lemma retry_inv_conflict: "retry_inv w \<Longrightarrow> retry_inv (noteArtifactReservationConflict t m r a w)"
proof -
  assume inv: "retry_inv w"
  have state: "retry_inv (w\<lparr>ar_state := s\<rparr>)" for s
    by (rule retry_inv_cong [OF inv]) (simp add: retry_view_def)
  have cleared: "retry_inv ((clearArtifactRefreshRetry False w)\<lparr>ar_state := s\<rparr>)" for s
    by (rule retry_inv_cong [OF retry_inv_clear [OF inv]]) (simp add: retry_view_def)
  show ?thesis
    by (simp add: noteArtifactReservationConflict_def inv state cleared retry_inv_schedule
        ARTIFACT_REFRESH_RETRY_MAX_ATTEMPTS_def)
qed

lemma retry_inv_failure: "retry_inv w \<Longrightarrow> retry_inv (noteArtifactRefreshFailure t w)"
  by (simp add: noteArtifactRefreshFailure_def retry_inv_no_timer [OF retry_inv_clear])

lemma retry_inv_retry: "retry_inv w \<Longrightarrow> retry_inv (retryArtifactRefresh m w)"
proof -
  assume inv: "retry_inv w"
  have "retry_inv ((clearArtifactRefreshRetry False w)\<lparr>ar_state := s, ar_calls := c, ar_nextCall := n\<rparr>)" for s c n
    by (rule retry_inv_no_timer [OF retry_inv_clear [OF inv]]) simp_all
  moreover have "retry_inv (w\<lparr>ar_calls := c, ar_nextCall := n\<rparr>)" for c n
    by (rule retry_inv_cong [OF inv]) (simp add: retry_view_def)
  ultimately show ?thesis
    using inv by (simp add: retryArtifactRefresh_def Let_def split: option.split)
qed

lemma retry_inv_fires:
  assumes inv: "retry_inv w" and t: "ar_timer w = Some t"
  shows "retry_inv (timer_fires t w)"
proof -
  have ok: "timer_ok w t" using inv t by (simp add: retry_inv_def)
  let ?w = "w\<lparr>ar_timer := None, ar_attempts := Suc (ar_attempts w), ar_auto := ar_auto w @ [ar_generation w]\<rparr>"
  have "retry_inv ?w"
    using inv ok by (auto simp: retry_inv_def timer_ok_def count_list_append)
  then have "retry_inv (retryArtifactRefresh False ?w)" by (rule retry_inv_retry)
  moreover have "timer_fires t w = retryArtifactRefresh False ?w"
    using ok by (simp add: timer_fires_def timer_ok_def)
  ultimately show ?thesis by simp
qed

text \<open>The preview operations keep the chat.\<close>

lemma clear_thread [simp]: "ap_threadId (clearArtifactPreview v) = ap_threadId v"
  by (simp add: clearArtifactPreview_def Let_def)

lemma load_thread [simp]: "ap_threadId (loadArtifactPreview fmt tok a v) = ap_threadId v"
proof -
  have f: "ap_threadId (show_preview p v) = ap_threadId v" "ap_threadId (preview_failed fmt l v) = ap_threadId v" for p l v
    by (simp_all add: show_preview_def preview_failed_def)
  have "ap_threadId (performArtifactPreviewLoad fmt tok a v) = ap_threadId v"
    by (simp add: performArtifactPreviewLoad_def Let_def f split: option.split sum.split)
  then show ?thesis by (simp add: loadArtifactPreview_def split: option.split prod.split)
qed

lemma sync_thread [simp]: "ap_threadId (syncSelectedArtifact fmt tok v) = ap_threadId v"
  by (simp add: syncSelectedArtifact_def Let_def split: option.split)

lemma show_archive_thread [simp]: "ap_threadId (show_archive fmt tok as a v) = ap_threadId v"
  by (simp add: show_archive_def Let_def split: option.split)

lemma retry_inv_answered: "retry_inv w \<Longrightarrow> retry_inv (refresh_answered fmt tok c answer w)"
proof -
  assume inv: "retry_inv w"
  define w1 where "w1 = w\<lparr>ar_calls := filter (\<lambda>x. rc_id x \<noteq> rc_id c) (ar_calls w)\<rparr>"
  have i1: "retry_inv w1"
    unfolding w1_def by (rule retry_inv_cong [OF inv]) (simp add: retry_view_def)
  have "retry_inv ((clearArtifactRefreshRetry True (w1\<lparr>ar_view := v\<rparr>))\<lparr>ar_view := v'\<rparr>)" for v v'
    by (rule retry_inv_no_timer [OF retry_inv_clear [OF i1]]) (simp_all add: clearArtifactRefreshRetry_def)
  then show ?thesis
    using i1 retry_inv_conflict [OF i1] retry_inv_failure [OF i1]
    unfolding refresh_answered_def w1_def [symmetric] Let_def by (simp split: sum.split)
qed

lemma retry_inv_view: "retry_inv w \<Longrightarrow> ap_threadId v = selectedThread w \<Longrightarrow> retry_inv (w\<lparr>ar_view := v\<rparr>)"
  by (erule retry_inv_cong) (simp add: retry_view_def)

lemma retry_inv_archives: "retry_inv w \<Longrightarrow> retry_inv (archive_ends c w)" "retry_inv w \<Longrightarrow> retry_inv (archive_awaits c st w)"
  by (erule retry_inv_cong, simp add: retry_view_def archive_ends_def archive_awaits_def)+

lemma retry_inv_created: "retry_inv w \<Longrightarrow> retry_inv (archive_created fmt c answer w)"
  by (simp add: archive_created_def archive_failed_def retry_inv_archives retry_inv_conflict
      retry_inv_no_timer [OF retry_inv_clear] split: sum.split)

lemma retry_inv_listed: "retry_inv w \<Longrightarrow> retry_inv (archive_listed fmt tok c a answer w)"
  by (simp add: archive_listed_def Let_def retry_inv_archives retry_inv_view retry_inv_conflict retry_inv_failure
      retry_inv_clear split: sum.split)

lemma retry_inv_archive: "retry_inv w \<Longrightarrow> retry_inv (createWorkspaceArchive r w)"
proof -
  assume inv: "retry_inv w"
  have "retry_inv ((clearArtifactRefreshRetry True (w\<lparr>ar_archivePending := p\<rparr>))\<lparr>ar_state := s, ar_archives := a\<rparr>)" for p s a
    by (rule retry_inv_no_timer [OF retry_inv_clear [OF inv]]) (simp_all add: clearArtifactRefreshRetry_def)
  then show ?thesis using inv by (simp add: createWorkspaceArchive_def split: option.split)
qed

lemma retry_inv_thread: "retry_inv w \<Longrightarrow> retry_inv (setSelectedThreadId t force w)"
  by (simp add: setSelectedThreadId_def Let_def retry_inv_no_timer [OF retry_inv_clear])

lemma retry_inv_disconnected: "retry_inv w \<Longrightarrow> retry_inv (disconnected w)"
proof -
  assume inv: "retry_inv w"
  show ?thesis
    unfolding disconnected_def Let_def
    by (rule retry_inv_no_timer [OF retry_inv_clear [OF inv]]) (simp_all add: clearArtifactRefreshRetry_def)
qed

lemma retry_inv_other_done: "retry_inv w \<Longrightarrow> retry_inv (other_refresh_done fmt tok as w)"
proof -
  assume inv: "retry_inv w"
  show ?thesis
    unfolding other_refresh_done_def Let_def
    by (rule retry_inv_no_timer [OF retry_inv_clear [OF inv]]) (simp_all add: clearArtifactRefreshRetry_def)
qed

lemma retry_inv_connect: "retry_inv w \<Longrightarrow> retry_inv (w\<lparr>ar_connected := True\<rparr>)"
  by (auto simp: retry_inv_def timer_ok_def)

lemma retry_inv_step: "refresh_step fmt w w' \<Longrightarrow> retry_inv w \<Longrightarrow> retry_inv w'"
proof (induction rule: refresh_step.induct)
  case (status w s)
  then show ?case by (elim retry_inv_cong) (simp add: retry_view_def)
qed (simp_all add: retry_inv_thread retry_inv_connect retry_inv_disconnected retry_inv_view retry_inv_retry
    retry_inv_fires retry_inv_answered other_refresh_failed_def retry_inv_conflict retry_inv_failure
    retry_inv_other_done retry_inv_archive retry_inv_created retry_inv_listed retry_inv_archives)

subsection \<open>One archive at a time\<close>

lemma archive_fields [simp]:
  "ar_archives (clearArtifactRefreshRetry b w) = ar_archives w"
  "ar_archivePending (clearArtifactRefreshRetry b w) = ar_archivePending w"
  "ar_archives (noteArtifactReservationConflict t m r a w) = ar_archives w"
  "ar_archivePending (noteArtifactReservationConflict t m r a w) = ar_archivePending w"
  "ar_archives (noteArtifactRefreshFailure t w) = ar_archives w"
  "ar_archivePending (noteArtifactRefreshFailure t w) = ar_archivePending w"
  "ar_archives (retryArtifactRefresh m w) = ar_archives w"
  "ar_archivePending (retryArtifactRefresh m w) = ar_archivePending w"
  by (simp_all add: clearArtifactRefreshRetry_def noteArtifactReservationConflict_def
      scheduleArtifactRefreshRetry_def noteArtifactRefreshFailure_def retryArtifactRefresh_def Let_def split: option.split)

lemma archive_fields_events [simp]:
  "ar_archives (setSelectedThreadId t f w) = ar_archives w"
  "ar_archivePending (setSelectedThreadId t f w) = ar_archivePending w"
  "ar_archives (disconnected w) = ar_archives w" "ar_archivePending (disconnected w) = ar_archivePending w"
  "ar_archives (timer_fires tm w) = ar_archives w" "ar_archivePending (timer_fires tm w) = ar_archivePending w"
  "ar_archives (refresh_answered fmt tok c an w) = ar_archives w"
  "ar_archivePending (refresh_answered fmt tok c an w) = ar_archivePending w"
  "ar_archives (other_refresh_done fmt tok as w) = ar_archives w"
  "ar_archivePending (other_refresh_done fmt tok as w) = ar_archivePending w"
  by (simp_all add: setSelectedThreadId_def disconnected_def timer_fires_def refresh_answered_def
      other_refresh_done_def Let_def split: sum.split)

lemma single_archive:
  assumes "archive_inv w" "c \<in> set (ar_archives w)"
  shows "ar_archives w = [c]"
proof (cases "ar_archives w")
  case (Cons x xs)
  then show ?thesis using assms by (auto simp: archive_inv_def)
qed (use assms in simp)

lemma archive_inv_step: "refresh_step fmt w w' \<Longrightarrow> archive_inv w \<Longrightarrow> archive_inv w'"
proof (induction rule: refresh_step.induct)
  case (archive w retry)
  then show ?case by (auto simp: createWorkspaceArchive_def archive_inv_def split: option.split)
next
  case (created c w answer)
  then show ?case using single_archive [of w c]
    by (auto simp: archive_created_def archive_failed_def archive_inv_def archive_ends_def archive_awaits_def split: sum.split)
next
  case (listed c w aid answer tok)
  then show ?case using single_archive [of w c]
    by (auto simp: archive_listed_def Let_def archive_inv_def archive_ends_def archive_awaits_def split: sum.split)
next
  case (previewed c w)
  then show ?case using single_archive [of w c] by (auto simp: archive_inv_def archive_ends_def)
qed (simp_all add: archive_inv_def other_refresh_failed_def)

section \<open>The composed panel\<close>

text \<open>
  Every step of the composed panel is, on the view, nothing or steps of the preview component;
  so what holds of all its interleavings holds here.
\<close>

abbreviation preview_steps :: "(rat \<Rightarrow> jstr) \<Rightarrow> preview_panel \<Rightarrow> preview_panel \<Rightarrow> bool" where
  "preview_steps fmt \<equiv> (preview_step fmt)\<^sup>*\<^sup>*"

lemma view_fields [simp]:
  "ar_view (clearArtifactRefreshRetry b w) = ar_view w" "ar_view (noteArtifactReservationConflict t m r a w) = ar_view w"
  "ar_view (noteArtifactRefreshFailure t w) = ar_view w" "ar_view (retryArtifactRefresh m w) = ar_view w"
  "ar_view (timer_fires tm w) = ar_view w" "ar_view (createWorkspaceArchive m w) = ar_view w"
  "ar_view (archive_ends c w) = ar_view w" "ar_view (archive_awaits c st w) = ar_view w"
  "ar_view (archive_created fmt c an w) = ar_view w"
  by (simp_all add: clearArtifactRefreshRetry_def noteArtifactReservationConflict_def
      scheduleArtifactRefreshRetry_def noteArtifactRefreshFailure_def retryArtifactRefresh_def timer_fires_def
      createWorkspaceArchive_def archive_ends_def archive_awaits_def archive_created_def archive_failed_def Let_def
      split: option.split sum.split)

lemma view_refresh:
  "list_all artifact_ok as \<Longrightarrow> preview_steps fmt v (syncSelectedArtifact fmt tok (v\<lparr>ap_artifacts := as\<rparr>))"
  using preview_step.refresh [of as fmt v tok] by (simp add: refresh_artifacts_def r_into_rtranclp)

lemma view_leave: "preview_steps fmt v (leave_thread t (v\<lparr>ap_downloads := d\<rparr>))"
  using preview_step.downloads preview_step.leave by (rule converse_rtranclp_into_rtranclp [OF _ r_into_rtranclp])

lemma view_step: "refresh_step fmt w w' \<Longrightarrow> preview_steps fmt (ar_view w) (ar_view w')"
proof (induction rule: refresh_step.induct)
  case (thread w t force)
  then show ?case by (simp add: setSelectedThreadId_def Let_def view_leave)
next
  case (disconnect w)
  then show ?case by (simp add: disconnected_def Let_def preview_step.disconnect r_into_rtranclp)
next
  case (answered c w answer tok)
  then show ?case by (cases answer) (simp_all add: refresh_answered_def Let_def view_refresh)
next
  case (listed c w aid answer tok)
  then show ?case
    by (cases answer) (simp_all add: archive_listed_def Let_def preview_step.archive preview_step.archive_unlisted r_into_rtranclp)
qed (simp_all add: other_refresh_failed_def other_refresh_done_def Let_def view_refresh r_into_rtranclp)

lemma refresh_inv_initial: "retry_inv initial_refresh \<and> archive_inv initial_refresh"
  by (simp add: initial_refresh_def retry_inv_def archive_inv_def)

interpretation ar: inductive_invariant "\<lambda>w. w = initial_refresh" "refresh_step fmt" "refresh_reachable fmt"
  "\<lambda>w. retry_inv w \<and> archive_inv w" for fmt
proof unfold_locales
  show "P w" if "refresh_reachable fmt w" "\<And>w. w = initial_refresh \<Longrightarrow> P w"
      "\<And>w w'. refresh_reachable fmt w \<Longrightarrow> P w \<Longrightarrow> refresh_step fmt w w' \<Longrightarrow> P w'" for P w
    using that by (induction rule: refresh_reachable.induct) blast+
qed (use refresh_inv_initial in \<open>auto intro: refresh_reachable.intros retry_inv_step archive_inv_step\<close>)

interpretation rv: simulation "\<lambda>w. w = initial_refresh" "refresh_step fmt" "refresh_reachable fmt"
  "\<lambda>v. v = initial_preview" "preview_step fmt" "preview_reachable fmt" ar_view for fmt
  by unfold_locales (simp_all add: initial_refresh_def view_step)

section \<open>Properties\<close>

text \<open>
  C39: However refreshes, polls, timers, archives and changes of chat interleave, a generation of
  the retry makes at most three requests of its own; a set timer belongs to the selected chat and
  the current generation and waits 500, 1000 or 2000 ms for the first, second or third attempt;
  at most one workspace archive is under way, and the archive button is disabled exactly then;
  and the shown preview belongs to the selected artifact.
\<close>

theorem refresh_retries_bounded:
  assumes "refresh_reachable fmt w"
  shows "count_list (ar_auto w) g \<le> ARTIFACT_REFRESH_RETRY_MAX_ATTEMPTS
    \<and> (case ar_timer w of None \<Rightarrow> True
       | Some t \<Rightarrow> tm_generation t = ar_generation w \<and> Some (tm_thread t) = selectedThread w
           \<and> ar_attempts w < length ARTIFACT_REFRESH_RETRY_DELAYS_MS
           \<and> tm_delay t = ARTIFACT_REFRESH_RETRY_DELAYS_MS ! ar_attempts w)
    \<and> length (ar_archives w) \<le> 1 \<and> (ar_archivePending w \<longleftrightarrow> ar_archives w \<noteq> [])
    \<and> (case ap_preview (ar_view w) of None \<Rightarrow> True
       | Some p \<Rightarrow> \<exists>a. ap_selected (ar_view w) = Some a \<and> artifactId p = sanitizeId fmt (JStr a) [])"
proof -
  have r: "retry_inv w" "archive_inv w" using ar.holds [OF assms] by simp_all
  have v: "preview_inv fmt (ar_view w)"
    by (rule preview_inv_reachable [OF rv.abs_reach [OF assms]])
  show ?thesis
    using r v by (auto simp: retry_inv_def archive_inv_def timer_ok_def preview_inv_def belongs_def
        ARTIFACT_REFRESH_RETRY_MAX_ATTEMPTS_def ARTIFACT_REFRESH_RETRY_DELAYS_MS_def split: option.split)
qed

text \<open>One firing of the timer whose request is answered by the given error.\<close>

definition failing_round :: "(rat \<Rightarrow> jstr) \<Rightarrow> jsval \<Rightarrow> refresh_panel \<Rightarrow> refresh_panel" where
  "failing_round fmt error w =
     (case ar_timer w of
        None \<Rightarrow> w
      | Some t \<Rightarrow> let w1 = timer_fires t w in refresh_answered fmt JUndefined (last (ar_calls w1)) (Inl error) w1)"

definition retrying_with :: "jstr \<Rightarrow> nat \<Rightarrow> nat \<Rightarrow> refresh_panel \<Rightarrow> bool" where
  "retrying_with threadId attempt ms w \<longleftrightarrow> threadId \<noteq> [] \<and> selectedThread w = Some threadId \<and> ar_connected w
     \<and> ar_threadStatus w \<noteq> jlit ''running'' \<and> ar_attempts w = attempt
     \<and> ar_timer w = Some \<lparr>tm_thread = threadId, tm_generation = ar_generation w, tm_delay = ms\<rparr>"

lemma first_conflict:
  assumes "threadId \<noteq> []" "selectedThread w = Some threadId" "ar_connected w" "ar_threadStatus w \<noteq> jlit ''running''"
    "ar_attempts w = 0" "ar_timer w = None"
  shows "retrying_with threadId 0 500 (noteArtifactReservationConflict threadId False JNull False w)
    \<and> ar_auto (noteArtifactReservationConflict threadId False JNull False w) = ar_auto w
    \<and> ar_generation (noteArtifactReservationConflict threadId False JNull False w) = ar_generation w"
  using assms by (simp add: retrying_with_def noteArtifactReservationConflict_def scheduleArtifactRefreshRetry_def
      Let_def ARTIFACT_REFRESH_RETRY_MAX_ATTEMPTS_def ARTIFACT_REFRESH_RETRY_DELAYS_MS_def js_or_def)

lemma failing_round_step:
  assumes "canDeferArtifactRefresh fmt error" "retrying_with threadId attempt ms w"
  defines "w' \<equiv> failing_round fmt error w"
  shows "ar_auto w' = ar_auto w @ [ar_generation w] \<and> ar_generation w' = ar_generation w
    \<and> (if attempt < 2 then retrying_with threadId (Suc attempt) (ARTIFACT_REFRESH_RETRY_DELAYS_MS ! Suc attempt) w'
       else ar_timer w' = None \<and> ar_state w' = plain_state ''retryable'' (js ''Files are still being prepared.''))"
proof -
  define w1 where "w1 = w\<lparr>ar_timer := None, ar_attempts := Suc attempt, ar_auto := ar_auto w @ [ar_generation w],
    ar_calls := ar_calls w @ [\<lparr>rc_id = ar_nextCall w, rc_thread = threadId, rc_generation = ar_generation w, rc_manual = False\<rparr>],
    ar_nextCall := Suc (ar_nextCall w)\<rparr>"
  have f: "w' = refresh_answered fmt JUndefined (last (ar_calls w1)) (Inl error) w1"
    using assms(2) by (simp add: w'_def failing_round_def Let_def timer_fires_def retryArtifactRefresh_def
        retrying_with_def w1_def)
  have "attempt < 2 \<Longrightarrow> min (Suc attempt) 2 = Suc attempt" by simp
  then show ?thesis
    using assms(1,2) unfolding f
    by (auto simp: refresh_answered_def refresh_current_def w1_def noteArtifactReservationConflict_def
        scheduleArtifactRefreshRetry_def retrying_with_def Let_def js_or_def
        ARTIFACT_REFRESH_RETRY_MAX_ATTEMPTS_def ARTIFACT_REFRESH_RETRY_DELAYS_MS_def)
qed

text \<open>
  C40: The automatic retry ends and says so. When a list request of a chat that is not running
  meets a reservation conflict and every retry meets it again, the panel makes exactly three more
  requests, after 500, 1000 and 2000 ms, and then shows that the files are still being prepared,
  with no timer left.
\<close>

theorem persistent_conflict_settles:
  assumes "canDeferArtifactRefresh fmt error" and "threadId \<noteq> []" and "selectedThread w = Some threadId"
    and "ar_connected w" and "ar_threadStatus w \<noteq> jlit ''running''" and "ar_attempts w = 0" and "ar_timer w = None"
  defines "run \<equiv> \<lambda>n. (failing_round fmt error ^^ n) (noteArtifactReservationConflict threadId False JNull False w)"
  shows "map (\<lambda>n. map_option tm_delay (ar_timer (run n))) [0, 1, 2] = map Some [500, 1000, 2000]
    \<and> ar_timer (run 3) = None
    \<and> ar_state (run 3) = plain_state ''retryable'' (js ''Files are still being prepared.'')
    \<and> ar_auto (run 3) = ar_auto w @ replicate 3 (ar_generation w)"
proof -
  have s: "run (Suc 0) = failing_round fmt error (run 0)" "run (Suc (Suc 0)) = failing_round fmt error (run (Suc 0))"
    "run (Suc (Suc (Suc 0))) = failing_round fmt error (run (Suc (Suc 0)))"
    by (simp_all add: run_def)
  have d: "ARTIFACT_REFRESH_RETRY_DELAYS_MS ! Suc 0 = 1000" "ARTIFACT_REFRESH_RETRY_DELAYS_MS ! Suc (Suc 0) = 2000"
    by (simp_all add: ARTIFACT_REFRESH_RETRY_DELAYS_MS_def)
  have r0: "retrying_with threadId 0 500 (run 0)" "ar_auto (run 0) = ar_auto w" "ar_generation (run 0) = ar_generation w"
    using first_conflict [OF assms(2-7)] by (simp_all add: run_def)
  have r1: "retrying_with threadId (Suc 0) 1000 (run (Suc 0))" "ar_auto (run (Suc 0)) = ar_auto w @ [ar_generation w]"
      "ar_generation (run (Suc 0)) = ar_generation w"
    using failing_round_step [OF assms(1) r0(1)] r0 by (simp_all add: s d)
  have r2: "retrying_with threadId (Suc (Suc 0)) 2000 (run (Suc (Suc 0)))" "ar_auto (run (Suc (Suc 0))) = ar_auto w @ replicate (Suc (Suc 0)) (ar_generation w)"
      "ar_generation (run (Suc (Suc 0))) = ar_generation w"
    using failing_round_step [OF assms(1) r1(1)] r1 by (simp_all add: s d)
  have r3: "ar_timer (run (Suc (Suc (Suc 0)))) = None" "ar_state (run (Suc (Suc (Suc 0)))) = plain_state ''retryable'' (js ''Files are still being prepared.'')"
      "ar_auto (run (Suc (Suc (Suc 0)))) = ar_auto w @ replicate (Suc (Suc (Suc 0))) (ar_generation w)"
    using failing_round_step [OF assms(1) r2(1)] r2 by (simp_all add: s(3))
  show ?thesis using r0(1) r1(1) r2(1) r3 by (simp add: retrying_with_def numeral_2_eq_2 numeral_3_eq_3)
qed

definition sample_refresh :: refresh_panel where
  "sample_refresh = setSelectedThreadId (jlit ''t'') False (initial_refresh\<lparr>ar_connected := True\<rparr>)"

definition conflict_error :: jsval where
  "conflict_error = JObj [(js ''code'', jlit ''reservation_conflict'')]"

lemma conflict_deferred: "canDeferArtifactRefresh fmt conflict_error"
  by (simp add: canDeferArtifactRefresh_def artifactErrorCode_def artifactErrorCandidates_def has_code_def conflict_error_def
      dot_JObj obj_get_def nullish_def js_def js_trim_def is_ws_def js_lower_def lower_unit_def)

lemma sample_refresh_facts:
  "selectedThread sample_refresh = Some (js ''t'')" "ar_connected sample_refresh" "ar_threadStatus sample_refresh = JUndefined"
  "ar_attempts sample_refresh = 0" "ar_timer sample_refresh = None" "ar_auto sample_refresh = []"
  "ar_generation sample_refresh = 1"
  by (simp_all add: sample_refresh_def setSelectedThreadId_def initial_refresh_def initial_preview_def Let_def leave_thread_def
      clearArtifactRefreshRetry_def)

lemma sample_refresh_reachable: "refresh_reachable (\<lambda>_. []) sample_refresh"
  unfolding sample_refresh_def
  by (intro refresh_reachable.step [OF _ refresh_step.thread] refresh_reachable.step [OF _ refresh_step.connect]
      refresh_reachable.init)

text \<open>The chat is selected and a poll has met a conflict.\<close>

definition sample_conflict :: refresh_panel where
  "sample_conflict = other_refresh_failed (\<lambda>_. []) (js ''t'') JNull conflict_error sample_refresh"

lemma sample_conflict_timer: "map_option tm_delay (ar_timer sample_conflict) = Some 500"
  using first_conflict [of "js ''t''" sample_refresh]
  by (simp add: sample_conflict_def other_refresh_failed_def conflict_deferred sample_refresh_facts retrying_with_def)

theorem refresh_retries_bounded_witness:
  "\<exists>t. ar_timer sample_conflict = Some t \<and> tm_delay t = 500
    \<and> tm_delay t = ARTIFACT_REFRESH_RETRY_DELAYS_MS ! ar_attempts sample_conflict"
proof -
  have "refresh_reachable (\<lambda>_. []) sample_conflict"
    unfolding sample_conflict_def by (rule refresh_reachable.step [OF sample_refresh_reachable refresh_step.other_failed])
  from refresh_retries_bounded [OF this] show ?thesis
    using sample_conflict_timer by (cases "ar_timer sample_conflict") auto
qed

theorem persistent_conflict_settles_witness:
  "ar_auto ((failing_round (\<lambda>_. []) conflict_error ^^ 3)
     (noteArtifactReservationConflict (js ''t'') False JNull False sample_refresh)) = [1, 1, 1]"
  using persistent_conflict_settles [OF conflict_deferred, of "js ''t''" sample_refresh "\<lambda>_. []"]
  by (simp add: sample_refresh_facts numeral_3_eq_3)

end
