(* ===== verification/PanelErrors.thy ===== *)
theory PanelErrors
  imports Redaction
begin

text \<open>
  The error banner of the panel (\<open>_assignError\<close> to \<open>_clearError\<close> in
  \<open>codex-bridge-panel.js\<close>): the text shown, whether it offers a retry, and the source that
  decides which background work may replace or clear it. The revision tells a later
  answer that the banner has changed since its request.
\<close>

section \<open>State and operations\<close>

record panel_error =
  pe_error :: jstr
  pe_retryable :: bool
  pe_source :: string
  pe_revision :: nat

definition initial_error :: panel_error where
  "initial_error = \<lparr>pe_error = [], pe_retryable = False, pe_source = [], pe_revision = 0\<rparr>"

text \<open>The message of an error value, as far as the two readers agree on where to look.\<close>

definition error_message :: "jsval \<Rightarrow> jsval" where
  "error_message error =
     js_or (js_or (js_or (dot (dot error ''body'') ''message'') (dot (dot (dot error ''body'') ''error'') ''message''))
       (dot (dot error ''error'') ''message'')) (dot error ''message'')"

definition request_incomplete :: jstr where
  "request_incomplete = js ''The Codex request did not complete.''"

definition safeUiError :: "(rat \<Rightarrow> jstr) \<Rightarrow> jsval \<Rightarrow> jstr" where
  "safeUiError fmt error =
     (let candidate = (if is_string error then error else js_or (error_message error) (JStr request_incomplete));
          safe = redact (blank_unsafe (js_String fmt candidate)) in
      take 240 (if safe = [] then request_incomplete else safe))"

definition TRANSPORT_MESSAGES :: "string list" where
  "TRANSPORT_MESSAGES =
     [''bridge request failed'', ''bridge event stream failed'', ''bridge connection failed'',
      ''bridge connection lost'', ''network request failed'', ''network error'', ''connection reset'',
      ''connection refused'', ''connection timed out'', ''request timed out'', ''fetch failed'', ''failed to fetch'']"

definition isRetryableTransportError :: "(rat \<Rightarrow> jstr) \<Rightarrow> jsval \<Rightarrow> bool" where
  "isRetryableTransportError fmt error =
     (case dot error ''retryable'' of
        JBool b \<Rightarrow> b
      | _ \<Rightarrow>
          (let candidate = (if is_string error then error else js_or (error_message error) (JStr []));
               normalized = js_lower (js_trim (js_String fmt candidate)) in
           list_ex (\<lambda>message. js_includes (js message) normalized) TRANSPORT_MESSAGES))"

definition assignError :: "(rat \<Rightarrow> jstr) \<Rightarrow> jsval \<Rightarrow> bool option \<Rightarrow> string \<Rightarrow> panel_error \<Rightarrow> panel_error" where
  "assignError fmt error retryable source e =
     \<lparr>pe_error = safeUiError fmt error,
      pe_retryable = (case retryable of None \<Rightarrow> isRetryableTransportError fmt error | Some b \<Rightarrow> b),
      pe_source = source, pe_revision = Suc (pe_revision e)\<rparr>"

definition setError :: "(rat \<Rightarrow> jstr) \<Rightarrow> jsval \<Rightarrow> string \<Rightarrow> panel_error \<Rightarrow> panel_error" where
  "setError fmt error source = assignError fmt error None source"

definition canSetBackgroundError :: "string \<Rightarrow> panel_error \<Rightarrow> bool" where
  "canSetBackgroundError source e \<longleftrightarrow> pe_error e = [] \<or> pe_source e = source"

definition clearError :: "string option \<Rightarrow> panel_error \<Rightarrow> panel_error" where
  "clearError source e =
     (if source \<noteq> None \<and> source \<noteq> Some (pe_source e) then e
      else \<lparr>pe_error = [], pe_retryable = False, pe_source = [],
            pe_revision = (if pe_error e \<noteq> [] then Suc (pe_revision e) else pe_revision e)\<rparr>)"

section \<open>What background work may do to the banner\<close>

text \<open>
  An error that is shown and comes from elsewhere than \<open>source\<close>. Background work of that
  source leaves such a banner alone.
\<close>

definition foreign :: "string \<Rightarrow> panel_error \<Rightarrow> bool" where
  "foreign source e \<longleftrightarrow> pe_error e \<noteq> [] \<and> pe_source e \<noteq> source"

lemma foreign_clear [simp]: "foreign source e \<Longrightarrow> clearError (Some source) e = e"
  by (auto simp: foreign_def clearError_def)

lemma foreign_blocks [simp]: "foreign source e \<Longrightarrow> \<not> canSetBackgroundError source e"
  by (simp add: foreign_def canSetBackgroundError_def)

lemma revision_clear: "pe_revision e \<le> pe_revision (clearError source e)"
  by (simp add: clearError_def)

lemma revision_set: "pe_revision e < pe_revision (setError fmt error source e)"
  by (simp add: setError_def assignError_def)

text \<open>The banner is either empty and without a source, or shows a text.\<close>

definition banner_ok :: "panel_error \<Rightarrow> bool" where
  "banner_ok e \<longleftrightarrow> (if pe_error e = [] then \<not> pe_retryable e \<and> pe_source e = [] else presentable 240 (pe_error e))"

lemma safeUiError_presentable: "presentable 240 (safeUiError fmt error)"
proof -
  have "47 \<notin> set request_incomplete" "92 \<notin> set request_incomplete" "request_incomplete \<noteq> []"
    by (simp_all add: request_incomplete_def js_def)
  from presentable_redacted [OF this, of 240] show ?thesis by (simp add: safeUiError_def Let_def)
qed

lemma banner_ok_set [js_wf]: "banner_ok (setError fmt error source e)"
  using safeUiError_presentable [of fmt error]
  by (simp add: banner_ok_def setError_def assignError_def) (simp add: presentable_def)

lemma banner_ok_clear [js_wf]: "banner_ok e \<Longrightarrow> banner_ok (clearError source e)"
  by (simp add: banner_ok_def clearError_def)

section \<open>Properties\<close>

text \<open>
  C31: Whatever a failed request reports, neither the message of a desktop surface nor the
  error banner of the panel contains a web address (in any letter case), a Windows drive or
  network path or one of the private directories of the host; later replacements,
  white-space folding and truncation cannot bring one back. The messages are not empty and
  have at most 500 and 240 characters.
\<close>

theorem error_message_redacted:
  "presentable 500 (normalizeDesktopError fmt error) \<and> presentable 240 (safeUiError fmt error)"
proof
  have "47 \<notin> set (js ''Unable to load this surface.'')" "92 \<notin> set (js ''Unable to load this surface.'')"
      "js ''Unable to load this surface.'' \<noteq> []"
    by (simp_all add: js_def)
  from presentable_redacted [OF this, of 500] show "presentable 500 (normalizeDesktopError fmt error)"
    by (simp add: normalizeDesktopError_def Let_def)
qed (rule safeUiError_presentable)

end
