(* ===== verification/LiveEvents.thy ===== *)
theory LiveEvents
  imports EventStream PanelErrors
begin

text \<open>
  How the panel keeps the selected chat up to date (\<open>codex-bridge-panel.js\<close>): the
  authoritative refresh, the subscription to the chat's events with its reconnection, and
  the poll loop, over the event stream of \<open>event-stream.js\<close>. Every method is cut at its
  awaits; an open request is a call in the state that keeps what the method captured, and
  its answer may come at any later point. Work that other parts of the panel do in between
  (artifacts, interactions, prompts, account status) is a list of effects in order.
\<close>

section \<open>State\<close>

text \<open>What a method captured when it started, for its \<open>isCurrent\<close>.\<close>

record fetch_ctx =
  fc_thread :: jstr
  fc_selection :: nat
  fc_snapshot :: nat

record refresh_options =
  ro_reportError :: bool
  ro_errorSource :: "string option"
  ro_revision :: "nat option"
  ro_cursorFloor :: "int option"

text \<open>What awaits a refresh: nothing, the start of the poll loop, or the end of a poll tick.\<close>

datatype follow_up = Nothing | ThenPolling jstr nat | ThenPollEnd nat

record tick =
  tk_ctx :: fetch_ctx
  tk_generation :: nat
  tk_revision :: nat
  tk_sequence :: int
  tk_wasStatus :: jsval
  tk_wantsEvents :: bool
  tk_wantsStatus :: bool

datatype call =
    RefreshFetch fetch_ctx refresh_options follow_up
  | RefreshArtifacts fetch_ctx refresh_options follow_up jsval jsval jsval jsval
  | TickFetch tick
  | TickInteractions tick jsval
  | TickThread tick
  | TickArtifacts tick
  | LiveFetch fetch_ctx nat
  | LiveArtifacts fetch_ctx nat jsval jsval jsval

datatype effect =
    ClearArtifactRetry | ArtifactsUnlisted jstr jsval jsval | SetArtifacts jsval | SyncSelectedArtifact
  | ClearArtifactPreview | InvalidateDownloads | ClearInteractions | RetireInteractions "jstr option"
  | ReplaceInteractions jsval | MergeStatus "jsval option" | SyncThreadList jsval | SetProject jsval
  | SettlePrompts | SettlePrompt jstr | StartSystemEvents | StopSystemEvents | SyncAuthPolling | StopAuthPolling
  | ClearInteractionTimer | AbortUpload

record subscription =
  sb_generation :: nat
  sb_thread :: jstr

record live =
  lv_thread :: "jstr option"
  lv_selection :: nat
  lv_snapshot :: nat
  lv_activeThread :: jsval
  lv_stream :: event_stream
  lv_events :: "jsval list"
  lv_sequence :: int
  lv_subGeneration :: nat
  lv_unsubscribe :: "subscription option"
  lv_subPending :: bool
  lv_subActive :: bool
  lv_attempt :: nat
  lv_reconnectTimer :: "(jstr \<times> nat) option"
  lv_refreshTimer :: "(fetch_ctx \<times> nat) option"
  lv_pollActive :: bool
  lv_pollGeneration :: nat
  lv_pollTimer :: "(nat \<times> nat) option"
  lv_pollInFlight :: bool
  lv_lastStatus :: int
  lv_graceUntil :: int
  lv_error :: panel_error
  lv_connected :: bool
  lv_subscribable :: bool
  lv_armed :: "(nat \<times> nat) list"
  lv_requests :: "subscription list"
  lv_open :: "subscription list"
  lv_calls :: "call list"
  lv_effects :: "effect list"

text \<open>
  The host: number formatting, the clock, the visibility of the page and the error that the
  engine raises for a property of a missing value.
\<close>

record host =
  h_fmt :: "rat \<Rightarrow> jstr"
  h_now :: int
  h_hidden :: bool
  h_typeError :: jsval

definition emit :: "effect list \<Rightarrow> live \<Rightarrow> live" where
  "emit es s = s\<lparr>lv_effects := lv_effects s @ es\<rparr>"

definition add_call :: "call \<Rightarrow> live \<Rightarrow> live" where
  "add_call c s = s\<lparr>lv_calls := lv_calls s @ [c]\<rparr>"

definition threadSelectionIsCurrent :: "jstr \<Rightarrow> nat \<Rightarrow> live \<Rightarrow> bool" where
  "threadSelectionIsCurrent threadId selectionEpoch s \<longleftrightarrow> Some threadId = lv_thread s \<and> selectionEpoch = lv_selection s"

definition isCurrent :: "fetch_ctx \<Rightarrow> live \<Rightarrow> bool" where
  "isCurrent c s \<longleftrightarrow> fc_snapshot c = lv_snapshot s \<and> threadSelectionIsCurrent (fc_thread c) (fc_selection c) s"

definition show_error :: "host \<Rightarrow> jsval \<Rightarrow> string \<Rightarrow> live \<Rightarrow> live" where
  "show_error h err source s = s\<lparr>lv_error := setError (h_fmt h) err source (lv_error s)\<rparr>"

section \<open>The poll timer\<close>

definition stopPolling :: "live \<Rightarrow> live" where
  "stopPolling s =
     s\<lparr>lv_pollActive := False, lv_pollGeneration := Suc (lv_pollGeneration s),
       lv_armed := (case lv_pollTimer s of None \<Rightarrow> lv_armed s | Some t \<Rightarrow> remove1 t (lv_armed s)),
       lv_pollTimer := None, lv_pollInFlight := False\<rparr>"

definition scheduleNextPoll :: "nat \<Rightarrow> nat \<Rightarrow> live \<Rightarrow> live" where
  "scheduleNextPoll ms generation s =
     (if \<not> lv_pollActive s \<or> lv_thread s = None then s
      else s\<lparr>lv_pollTimer := Some (generation, ms), lv_armed := lv_armed s @ [(generation, ms)]\<rparr>)"

definition startPolling :: "live \<Rightarrow> live" where
  "startPolling s =
     (let s1 = stopPolling s in
      if lv_thread s1 = None then s1
      else let s2 = s1\<lparr>lv_pollActive := True, lv_pollGeneration := Suc (lv_pollGeneration s1), lv_lastStatus := 0\<rparr>
           in scheduleNextPoll 250 (lv_pollGeneration s2) s2)"

definition pollDelay :: "host \<Rightarrow> live \<Rightarrow> nat" where
  "pollDelay h s =
     (if h_hidden h then 8000
      else if h_now h < lv_graceUntil s then 1000
      else if dot (lv_activeThread s) ''status'' = jlit ''running'' then 900
      else if pe_error (lv_error s) \<noteq> [] then 5000
      else 3600)"

section \<open>The subscription\<close>

definition close_subscription :: "live \<Rightarrow> live" where
  "close_subscription s =
     s\<lparr>lv_open := (case lv_unsubscribe s of None \<Rightarrow> lv_open s | Some x \<Rightarrow> filter (\<lambda>y. y \<noteq> x) (lv_open s)),
       lv_unsubscribe := None\<rparr>"

definition stopEventSubscription :: "bool \<Rightarrow> live \<Rightarrow> live" where
  "stopEventSubscription preserveReconnectAttempt s =
     (let s1 = close_subscription (s\<lparr>lv_subGeneration := Suc (lv_subGeneration s)\<rparr>) in
      s1\<lparr>lv_refreshTimer := None,
         lv_reconnectTimer := (if preserveReconnectAttempt then lv_reconnectTimer s1 else None),
         lv_subPending := False, lv_subActive := False,
         lv_attempt := (if preserveReconnectAttempt then lv_attempt s1 else 0)\<rparr>)"

definition startEventSubscription :: "bool \<Rightarrow> live \<Rightarrow> live" where
  "startEventSubscription reconnecting s =
     (let s1 = stopEventSubscription reconnecting s in
      case lv_thread s1 of
        None \<Rightarrow> s1\<lparr>lv_subActive := False\<rparr>
      | Some threadId \<Rightarrow>
          if \<not> lv_subscribable s1 then s1\<lparr>lv_subActive := False\<rparr>
          else s1\<lparr>lv_subPending := True,
                  lv_requests := lv_requests s1 @ [\<lparr>sb_generation = lv_subGeneration s1, sb_thread = threadId\<rparr>]\<rparr>)"

definition reconnect_delay :: "nat \<Rightarrow> nat" where
  "reconnect_delay attempt = min 30000 (500 * 2 ^ (attempt - 1))"

definition scheduleEventReconnect :: "jstr \<Rightarrow> live \<Rightarrow> live" where
  "scheduleEventReconnect threadId s =
     (if lv_reconnectTimer s \<noteq> None \<or> \<not> lv_connected s \<or> threadId = [] \<or> Some threadId \<noteq> lv_thread s \<or> \<not> lv_subscribable s
      then s
      else let attempt = min (Suc (lv_attempt s)) 7 in
        s\<lparr>lv_attempt := attempt, lv_reconnectTimer := Some (threadId, reconnect_delay attempt)\<rparr>)"

definition retireEventSubscription :: "bool \<Rightarrow> live \<Rightarrow> live" where
  "retireEventSubscription reconnect s =
     (let s1 = (close_subscription (s\<lparr>lv_subGeneration := Suc (lv_subGeneration s)\<rparr>))
            \<lparr>lv_subPending := False, lv_subActive := False\<rparr> in
      case lv_thread s1 of
        None \<Rightarrow> s1
      | Some threadId \<Rightarrow> if reconnect then scheduleEventReconnect threadId s1 else s1)"

text \<open>The settlement of \<open>subscribeMessage\<close>; a subscription that is no longer wanted is closed at once.\<close>

definition subscription_settled :: "subscription \<Rightarrow> bool \<Rightarrow> live \<Rightarrow> live" where
  "subscription_settled x ok s =
     (let s1 = s\<lparr>lv_requests := remove1 x (lv_requests s)\<rparr>;
          current = (sb_generation x = lv_subGeneration s1);
          s2 = (if ok then
                  (if \<not> current \<or> Some (sb_thread x) \<noteq> lv_thread s1 then s1
                   else s1\<lparr>lv_open := lv_open s1 @ [x], lv_unsubscribe := Some x, lv_subActive := True,
                           lv_attempt := 0, lv_reconnectTimer := None\<rparr>)
                else (if current then scheduleEventReconnect (sb_thread x) (s1\<lparr>lv_subActive := False\<rparr>) else s1)) in
      if current then s2\<lparr>lv_subPending := False\<rparr> else s2)"

definition reconnect_fires :: "jstr \<Rightarrow> live \<Rightarrow> live" where
  "reconnect_fires threadId s =
     (let s1 = s\<lparr>lv_reconnectTimer := None\<rparr> in
      if Some threadId = lv_thread s1 then startEventSubscription True s1 else s1)"

section \<open>The stream\<close>

definition resetEventState :: "live \<Rightarrow> live" where
  "resetEventState s =
     (let st = createEventStreamState (jint 0) NaN in s\<lparr>lv_stream := st, lv_events := [], lv_sequence := cursor st\<rparr>)"

definition set_stream :: "event_stream \<Rightarrow> live \<Rightarrow> live" where
  "set_stream st s = s\<lparr>lv_stream := st, lv_events := events st, lv_sequence := cursor st\<rparr>"

definition in_thread :: "jstr \<Rightarrow> jsval \<Rightarrow> bool" where
  "in_thread threadId event \<longleftrightarrow> \<not> truthy (dot event ''thread_id'') \<or> dot event ''thread_id'' = JStr threadId"

definition stream_failed :: jsval where
  "stream_failed = jlit ''Bridge event stream failed''"

definition stream_error :: "event_stream \<Rightarrow> jsval" where
  "stream_error st = (case error st of Some (u # us) \<Rightarrow> JStr (u # us) | _ \<Rightarrow> stream_failed)"

section \<open>The refresh\<close>

text \<open>The end of a poll tick: its \<open>finally\<close>.\<close>

definition poll_end :: "host \<Rightarrow> nat \<Rightarrow> live \<Rightarrow> live" where
  "poll_end h generation s =
     (if generation = lv_pollGeneration s then
        (let s1 = s\<lparr>lv_pollInFlight := False\<rparr> in
         if lv_pollActive s1 \<and> lv_thread s1 \<noteq> None then scheduleNextPoll (pollDelay h s1) generation s1 else s1)
      else s)"

definition after_refresh :: "host \<Rightarrow> follow_up \<Rightarrow> live \<Rightarrow> live" where
  "after_refresh h k s =
     (case k of Nothing \<Rightarrow> s
      | ThenPolling threadId selectionEpoch \<Rightarrow>
          if threadSelectionIsCurrent threadId selectionEpoch s then startPolling s else s
      | ThenPollEnd generation \<Rightarrow> poll_end h generation s)"

definition default_options :: refresh_options where
  "default_options = \<lparr>ro_reportError = True, ro_errorSource = None, ro_revision = None, ro_cursorFloor = None\<rparr>"

definition clear_chat :: "live \<Rightarrow> live" where
  "clear_chat s = emit [SetArtifacts (JArr []), ClearArtifactPreview] (resetEventState (s\<lparr>lv_activeThread := JNull\<rparr>))"

definition refreshActiveThread :: "host \<Rightarrow> refresh_options \<Rightarrow> follow_up \<Rightarrow> live \<Rightarrow> live" where
  "refreshActiveThread h opts k s =
     (let s1 = s\<lparr>lv_snapshot := Suc (lv_snapshot s)\<rparr> in
      case lv_thread s1 of
        None \<Rightarrow> after_refresh h k
          (emit [ClearInteractions] (clear_chat (emit [ClearArtifactRetry] (stopEventSubscription False s1))))
      | Some threadId \<Rightarrow>
          add_call (RefreshFetch \<lparr>fc_thread = threadId, fc_selection = lv_selection s1, fc_snapshot = lv_snapshot s1\<rparr> opts k) s1)"

definition refresh_failed :: "host \<Rightarrow> fetch_ctx \<Rightarrow> refresh_options \<Rightarrow> jsval \<Rightarrow> live \<Rightarrow> live" where
  "refresh_failed h c opts err s =
     (if isCurrent c s \<and> ro_reportError opts
         \<and> (case ro_revision opts of None \<Rightarrow> True | Some r \<Rightarrow> pe_revision (lv_error s) = r)
         \<and> (case ro_errorSource opts of None \<Rightarrow> True | Some src \<Rightarrow> canSetBackgroundError src (lv_error s))
      then show_error h err (case ro_errorSource opts of None \<Rightarrow> [] | Some src \<Rightarrow> src) s else s)"

text \<open>The answers to the four requests.\<close>

definition refresh_fetched ::
  "host \<Rightarrow> fetch_ctx \<Rightarrow> refresh_options \<Rightarrow> follow_up \<Rightarrow> jsval + (jsval \<times> jsval \<times> jsval \<times> jsval) \<Rightarrow> live \<Rightarrow> live" where
  "refresh_fetched h c opts k answer s =
     (let s1 = s\<lparr>lv_calls := remove1 (RefreshFetch c opts k) (lv_calls s)\<rparr> in
      case answer of
        Inl err \<Rightarrow> after_refresh h k (refresh_failed h c opts err s1)
      | Inr (thread, evs, st, interactions) \<Rightarrow>
          if \<not> isCurrent c s1 then after_refresh h k s1
          else add_call (RefreshArtifacts c opts k thread evs st interactions) s1)"

definition is_boundary :: "jsval \<Rightarrow> bool" where
  "is_boundary event \<longleftrightarrow> event_type event = jlit ''bridge.snapshot_required'' \<or> event_type event = jlit ''bridge.error''"

text \<open>The stream a full replay gives: its boundary events move the cursor and nothing else.\<close>

definition authoritative_stream :: "jstr \<Rightarrow> int option \<Rightarrow> jsval \<Rightarrow> event_stream" where
  "authoritative_stream threadId cursorFloor evs =
     (let authoritativeEvents = filter (in_thread threadId) (parseEvents True evs);
          replay = bstate (acceptEvents (createEventStreamState JUndefined NaN)
            (JArr (filter (\<lambda>e. \<not> is_boundary e) authoritativeEvents)));
          start = (case cursorFloor of Some c \<Rightarrow> if 0 \<le> c \<and> c \<le> MAX_SAFE then max (cursor replay) c else cursor replay
                   | None \<Rightarrow> cursor replay) in
      replay\<lparr>cursor := foldl (\<lambda>c e. max c (sequence e)) start authoritativeEvents, needsSnapshot := False, error := None\<rparr>)"

definition refresh_applied ::
  "fetch_ctx \<Rightarrow> refresh_options \<Rightarrow> jsval \<Rightarrow> jsval \<Rightarrow> jsval \<Rightarrow> jsval \<Rightarrow> jsval option \<Rightarrow> live \<Rightarrow> live" where
  "refresh_applied c opts thread evs st interactions artifacts s =
     (let s1 = emit [SetProject (dot thread ''project_id'')] s;
          s2 = set_stream (authoritative_stream (fc_thread c) (ro_cursorFloor opts) evs) s1;
          s3 = emit ((case artifacts of None \<Rightarrow> [] | Some xs \<Rightarrow> [SetArtifacts xs, ClearArtifactRetry])
            @ [ReplaceInteractions interactions, MergeStatus (Some st), SyncThreadList thread, SyncSelectedArtifact, SettlePrompts]) s2;
          s4 = s3\<lparr>lv_graceUntil := 0\<rparr>;
          s5 = (if case ro_revision opts of None \<Rightarrow> True | Some r \<Rightarrow> pe_revision (lv_error s4) = r
                then s4\<lparr>lv_error := clearError (ro_errorSource opts) (lv_error s4)\<rparr> else s4) in
      startEventSubscription False s5)"

text \<open>
  The answer to the list of artifacts; a failure is noted and the refresh goes on. A missing
  chat raises when its project is read, after it has become the active one.
\<close>

definition refresh_listed ::
  "host \<Rightarrow> fetch_ctx \<Rightarrow> refresh_options \<Rightarrow> follow_up \<Rightarrow> jsval \<Rightarrow> jsval \<Rightarrow> jsval \<Rightarrow> jsval \<Rightarrow> jsval + jsval \<Rightarrow> live \<Rightarrow> live" where
  "refresh_listed h c opts k thread evs st interactions answer s =
     (let s1 = s\<lparr>lv_calls := remove1 (RefreshArtifacts c opts k thread evs st interactions) (lv_calls s)\<rparr>;
          s2 = (case answer of Inl e \<Rightarrow> emit [ArtifactsUnlisted (fc_thread c) e (dot thread ''status'')] s1 | Inr _ \<Rightarrow> s1);
          artifacts = (case answer of Inr xs \<Rightarrow> if truthy xs then Some xs else None | Inl _ \<Rightarrow> None) in
      if \<not> isCurrent c s2 then after_refresh h k s2
      else let s3 = s2\<lparr>lv_activeThread := thread\<rparr> in
        after_refresh h k
          (if nullish thread then refresh_failed h c opts (h_typeError h) s3
           else refresh_applied c opts thread evs st interactions artifacts s3))"


section \<open>The selection\<close>

definition setSelectedThread :: "bool \<Rightarrow> jstr option \<Rightarrow> live \<Rightarrow> live" where
  "setSelectedThread force nextThreadId s =
     (let s1 = (if force \<or> nextThreadId \<noteq> lv_thread s
                then emit [ClearArtifactRetry, InvalidateDownloads, SetArtifacts (JArr []), ClearArtifactPreview]
                  ((stopPolling s)\<lparr>lv_selection := Suc (lv_selection s), lv_snapshot := Suc (lv_snapshot s), lv_graceUntil := 0\<rparr>)
                else s) in
      s1\<lparr>lv_thread := nextThreadId\<rparr>)"

definition refreshSelectedThreadAndStartPolling :: "host \<Rightarrow> refresh_options \<Rightarrow> live \<Rightarrow> live" where
  "refreshSelectedThreadAndStartPolling h opts s =
     (case lv_thread s of None \<Rightarrow> s
      | Some threadId \<Rightarrow> refreshActiveThread h opts (ThenPolling threadId (lv_selection s)) s)"

definition selectThread :: "host \<Rightarrow> jstr \<Rightarrow> live \<Rightarrow> live" where
  "selectThread h threadId s =
     (if threadId = [] then s
      else let s1 = emit [RetireInteractions (Some threadId)] (stopEventSubscription False s);
               s2 = resetEventState (setSelectedThread True (Some threadId) s1) in
        refreshSelectedThreadAndStartPolling h default_options (s2\<lparr>lv_activeThread := JNull\<rparr>))"

definition CREATED_THREAD_REFRESH_GRACE_MS :: int where
  "CREATED_THREAD_REFRESH_GRACE_MS = 5000"

definition adoptCreatedThread :: "host \<Rightarrow> jstr \<Rightarrow> jsval \<Rightarrow> live \<Rightarrow> live" where
  "adoptCreatedThread h threadId thread s =
     (let s1 = setSelectedThread False (Some threadId) (stopEventSubscription False s);
          s2 = emit [SetProject (dot thread ''project_id''), RetireInteractions (Some threadId), SyncThreadList thread] s1;
          s3 = clear_chat s2;
          s4 = s3\<lparr>lv_activeThread := thread, lv_graceUntil := h_now h + CREATED_THREAD_REFRESH_GRACE_MS\<rparr> in
      startPolling (startEventSubscription False s4))"

text \<open>
  The selection that \<open>_archiveThread\<close> and \<open>_deleteThread\<close> leave when the selected chat goes: the
  replacement is refreshed, or the chat is cleared.
\<close>

definition replace_selection :: "host \<Rightarrow> jstr option \<Rightarrow> live \<Rightarrow> live" where
  "replace_selection h replacement s =
     (let s1 = setSelectedThread False replacement s in
      case replacement of
        Some _ \<Rightarrow> refreshSelectedThreadAndStartPolling h default_options s1
      | None \<Rightarrow> clear_chat (stopEventSubscription False s1))"

text \<open>\<open>_clearSelectionForProject\<close> for a project that holds the selection.\<close>

definition clearSelectionForProject :: "host \<Rightarrow> (jstr \<times> jsval) option \<Rightarrow> live \<Rightarrow> live" where
  "clearSelectionForProject h replacement s =
     (let next = map_option fst replacement;
          s1 = emit [RetireInteractions next] (setSelectedThread False next s) in
      case replacement of
        Some (_, thread) \<Rightarrow>
          refreshSelectedThreadAndStartPolling h default_options
            ((clear_chat (stopEventSubscription False s1))\<lparr>lv_activeThread := thread\<rparr>)
      | None \<Rightarrow> clear_chat (stopEventSubscription False (stopPolling s1)))"

text \<open>\<open>_selectProject\<close> for a project without a visible chat.\<close>

definition deselect_for_project :: "live \<Rightarrow> live" where
  "deselect_for_project s =
     clear_chat (emit [RetireInteractions None] (stopEventSubscription False (setSelectedThread False None s)))"

text \<open>The end of \<open>_loadThreads\<close>: a selection that is no longer listed gives way to the first active chat.\<close>

definition load_selection :: "host \<Rightarrow> bool \<Rightarrow> jstr list \<Rightarrow> jstr option \<Rightarrow> live \<Rightarrow> live" where
  "load_selection h reportRefreshError listed firstActive s =
     (let s1 = (case lv_thread s of
                  Some t \<Rightarrow> if t \<in> set listed then s else setSelectedThread False None s
                | None \<Rightarrow> s);
          s2 = (if lv_thread s1 = None then setSelectedThread False firstActive s1 else s1) in
      refreshSelectedThreadAndStartPolling h (default_options\<lparr>ro_reportError := reportRefreshError\<rparr>) s2)"

section \<open>The poll tick\<close>

definition tick_current :: "tick \<Rightarrow> live \<Rightarrow> bool" where
  "tick_current t s \<longleftrightarrow> lv_pollActive s \<and> tk_generation t = lv_pollGeneration s \<and> isCurrent (tk_ctx t) s"

definition poll_options :: "bool \<Rightarrow> nat \<Rightarrow> live \<Rightarrow> refresh_options" where
  "poll_options report revision s =
     \<lparr>ro_reportError = report, ro_errorSource = Some ''poll'', ro_revision = Some revision, ro_cursorFloor = Some (lv_sequence s)\<rparr>"

text \<open>A stream that needs a snapshot; the error of the broker is kept while it is recovered.\<close>

definition recover_snapshot :: "host \<Rightarrow> nat \<Rightarrow> nat \<Rightarrow> live \<Rightarrow> live" where
  "recover_snapshot h generation revision s =
     (let s1 = stopEventSubscription False s;
          preservesLiveBrokerError = (pe_source (lv_error s1) = ''poll'' \<and> error (lv_stream s1) \<notin> {None, Some []}
            \<and> pe_error (lv_error s1) \<noteq> []) in
      refreshActiveThread h (poll_options (\<not> preservesLiveBrokerError) revision s1) (ThenPollEnd generation) s1)"

definition runPollTick :: "host \<Rightarrow> nat \<Rightarrow> live \<Rightarrow> live" where
  "runPollTick h generation s =
     (case lv_thread s of
        None \<Rightarrow> s
      | Some polledThreadId \<Rightarrow>
          if \<not> lv_pollActive s \<or> generation \<noteq> lv_pollGeneration s then s
          else if lv_pollInFlight s then scheduleNextPoll (pollDelay h s) generation s
          else let s1 = s\<lparr>lv_pollInFlight := True, lv_snapshot := Suc (lv_snapshot s)\<rparr>;
                   revision = pe_revision (lv_error s1) in
            if needsSnapshot (lv_stream s1) then recover_snapshot h generation revision s1
            else let wasStatus = dot (lv_activeThread s1) ''status'';
                     statusInterval = (if wasStatus = jlit ''running'' then 7000 else 30000);
                     refreshStatus = (lv_lastStatus s1 = 0 \<or> h_now h - lv_lastStatus s1 \<ge> statusInterval) in
              add_call (TickFetch
                \<lparr>tk_ctx = \<lparr>fc_thread = polledThreadId, fc_selection = lv_selection s1, fc_snapshot = lv_snapshot s1\<rparr>,
                 tk_generation = generation, tk_revision = revision, tk_sequence = lv_sequence s1, tk_wasStatus = wasStatus,
                 tk_wantsEvents = (\<not> lv_subActive s1), tk_wantsStatus = refreshStatus\<rparr>) s1)"

definition poll_fires :: "host \<Rightarrow> nat \<times> nat \<Rightarrow> live \<Rightarrow> live" where
  "poll_fires h t s =
     (let s1 = s\<lparr>lv_armed := remove1 t (lv_armed s)\<rparr> in
      if fst t \<noteq> lv_pollGeneration s1 then s1 else runPollTick h (fst t) (s1\<lparr>lv_pollTimer := None\<rparr>))"

definition tick_failed :: "host \<Rightarrow> tick \<Rightarrow> jsval \<Rightarrow> live \<Rightarrow> live" where
  "tick_failed h t err s =
     poll_end h (tk_generation t)
       (if tick_current t s \<and> pe_revision (lv_error s) = tk_revision t \<and> canSetBackgroundError ''poll'' (lv_error s)
           \<and> lv_graceUntil s \<le> h_now h
        then show_error h err ''poll'' s else s)"

definition tick_done :: "host \<Rightarrow> tick \<Rightarrow> live \<Rightarrow> live" where
  "tick_done h t s =
     (let s1 = s\<lparr>lv_graceUntil := 0\<rparr> in
      poll_end h (tk_generation t)
        (if pe_revision (lv_error s1) = tk_revision t
         then s1\<lparr>lv_error := clearError (Some ''poll'') (lv_error s1)\<rparr> else s1))"

text \<open>With the chat at hand: show it and list its artifacts when it has settled.\<close>

definition tick_assign :: "host \<Rightarrow> tick \<Rightarrow> bool \<Rightarrow> jsval \<Rightarrow> live \<Rightarrow> live" where
  "tick_assign h t hasNewEvents thread s =
     (if \<not> tick_current t s then poll_end h (tk_generation t) s
      else let s1 = emit [SyncThreadList thread] (s\<lparr>lv_activeThread := thread\<rparr>) in
        if nullish thread then tick_failed h t (h_typeError h) s1
        else if dot thread ''status'' \<noteq> jlit ''running''
            \<and> (hasNewEvents \<or> tk_wasStatus t = jlit ''running'' \<or> tk_wantsStatus t)
        then add_call (TickArtifacts t) s1
        else tick_done h t s1)"

definition tick_thread :: "host \<Rightarrow> tick \<Rightarrow> jsval \<Rightarrow> live \<Rightarrow> live" where
  "tick_thread h t thread s =
     (let hasNewEvents = (lv_sequence s \<noteq> tk_sequence t) in
      if truthy thread then tick_assign h t hasNewEvents thread s
      else if hasNewEvents then add_call (TickThread t) s
      else tick_done h t s)"

definition INTERACTION_EVENT_TYPES :: "string list" where
  "INTERACTION_EVENT_TYPES =
     [''interaction.created'', ''interaction.resolved'', ''interaction.expired'', ''interaction.outcome_unknown'']"

definition is_interaction :: "jsval \<Rightarrow> bool" where
  "is_interaction event \<longleftrightarrow> list_ex (\<lambda>x. event_type event = jlit x) INTERACTION_EVENT_TYPES"

text \<open>After the events of the poll have been merged.\<close>

definition tick_merged :: "host \<Rightarrow> tick \<Rightarrow> jsval \<Rightarrow> jsval \<Rightarrow> bool \<Rightarrow> live \<Rightarrow> live" where
  "tick_merged h t st thread hasInteractionEvents s =
     (if needsSnapshot (lv_stream s) then recover_snapshot h (tk_generation t) (tk_revision t) s
      else let s1 = (if tk_wantsStatus t then if truthy st then emit [MergeStatus (Some st)] s else s else emit [MergeStatus None] s) in
        if hasInteractionEvents then add_call (TickInteractions t thread) s1 else tick_thread h t thread s1)"

definition tick_events :: "host \<Rightarrow> tick \<Rightarrow> jsval \<Rightarrow> jsval \<Rightarrow> jsval list \<Rightarrow> live \<Rightarrow> live" where
  "tick_events h t st thread evs s =
     (let batch = acceptEvents (lv_stream s) (JArr (filter (in_thread (fc_thread (tk_ctx t))) evs));
          s1 = emit [SettlePrompts] (set_stream (bstate batch) s) in
      if Snapshot \<in> set (controls batch) then
        (let s2 = stopEventSubscription False s1 in
         refreshActiveThread h (poll_options True (tk_revision t) s2) (ThenPollEnd (tk_generation t)) s2)
      else if Error \<in> set (controls batch) then
        (let s2 = stopEventSubscription False s1 in
         if pe_revision (lv_error s2) = tk_revision t \<and> canSetBackgroundError ''poll'' (lv_error s2) then
           (let s3 = show_error h (stream_error (bstate batch)) ''poll'' s2 in
            refreshActiveThread h (poll_options False (pe_revision (lv_error s3)) s3) (ThenPollEnd (tk_generation t)) s3)
         else refreshActiveThread h (poll_options True (tk_revision t) s2) (ThenPollEnd (tk_generation t)) s2)
      else tick_merged h t st thread (list_ex is_interaction (accepted batch)) s1)"

text \<open>The answers to the requests of a tick; what was not requested is empty.\<close>

definition tick_fetched :: "host \<Rightarrow> tick \<Rightarrow> jsval + (jsval \<times> jsval \<times> jsval) \<Rightarrow> live \<Rightarrow> live" where
  "tick_fetched h t answer s =
     (let s1 = s\<lparr>lv_calls := remove1 (TickFetch t) (lv_calls s)\<rparr> in
      case answer of
        Inl err \<Rightarrow> tick_failed h t err s1
      | Inr (evs, st, thread) \<Rightarrow>
          if \<not> tick_current t s1 then poll_end h (tk_generation t) s1
          else let s2 = (if tk_wantsStatus t then s1\<lparr>lv_lastStatus := h_now h\<rparr> else s1);
                   thread' = (if tk_wasStatus t = jlit ''running'' \<or> tk_wantsStatus t then thread else JNull) in
            if tk_wantsEvents t \<and> is_array evs \<and> as_list evs \<noteq> [] then tick_events h t st thread' (as_list evs) s2
            else tick_merged h t st thread' False s2)"

definition tick_interactions :: "host \<Rightarrow> tick \<Rightarrow> jsval \<Rightarrow> jsval + jsval \<Rightarrow> live \<Rightarrow> live" where
  "tick_interactions h t thread answer s =
     (let s1 = s\<lparr>lv_calls := remove1 (TickInteractions t thread) (lv_calls s)\<rparr> in
      case answer of
        Inl err \<Rightarrow> tick_failed h t err s1
      | Inr items \<Rightarrow>
          if \<not> tick_current t s1 then poll_end h (tk_generation t) s1
          else tick_thread h t thread (emit [ReplaceInteractions items] s1))"

definition tick_thread_fetched :: "host \<Rightarrow> tick \<Rightarrow> jsval + jsval \<Rightarrow> live \<Rightarrow> live" where
  "tick_thread_fetched h t answer s =
     (let s1 = s\<lparr>lv_calls := remove1 (TickThread t) (lv_calls s)\<rparr> in
      case answer of Inl err \<Rightarrow> tick_failed h t err s1 | Inr thread \<Rightarrow> tick_assign h t True thread s1)"

definition tick_listed :: "host \<Rightarrow> tick \<Rightarrow> jsval + jsval \<Rightarrow> live \<Rightarrow> live" where
  "tick_listed h t answer s =
     (let s1 = s\<lparr>lv_calls := remove1 (TickArtifacts t) (lv_calls s)\<rparr>;
          s2 = (case answer of Inl e \<Rightarrow> emit [ArtifactsUnlisted (fc_thread (tk_ctx t)) e JUndefined] s1 | Inr _ \<Rightarrow> s1) in
      if \<not> tick_current t s2 then poll_end h (tk_generation t) s2
      else case answer of
        Inr xs \<Rightarrow>
          if \<not> truthy xs then tick_done h t s2
          else let s3 = emit [SetArtifacts xs, ClearArtifactRetry] s2 in
            if is_array xs then tick_done h t (emit [SyncSelectedArtifact] s3) else tick_failed h t (h_typeError h) s3
      | Inl _ \<Rightarrow> tick_done h t s2)"


section \<open>Events of the subscription\<close>

definition scheduleLiveRefresh :: "jstr \<Rightarrow> live \<Rightarrow> live" where
  "scheduleLiveRefresh threadId s =
     (let s1 = s\<lparr>lv_snapshot := Suc (lv_snapshot s)\<rparr> in
      s1\<lparr>lv_refreshTimer := Some (\<lparr>fc_thread = threadId, fc_selection = lv_selection s1, fc_snapshot = lv_snapshot s1\<rparr>,
           pe_revision (lv_error s1))\<rparr>)"

definition live_fires :: "fetch_ctx \<Rightarrow> nat \<Rightarrow> live \<Rightarrow> live" where
  "live_fires c revision s =
     (let s1 = s\<lparr>lv_refreshTimer := None\<rparr> in if \<not> isCurrent c s1 then s1 else add_call (LiveFetch c revision) s1)"

definition live_failed :: "host \<Rightarrow> fetch_ctx \<Rightarrow> nat \<Rightarrow> jsval \<Rightarrow> live \<Rightarrow> live" where
  "live_failed h c revision err s =
     (if isCurrent c s \<and> pe_revision (lv_error s) = revision \<and> canSetBackgroundError ''poll'' (lv_error s)
      then show_error h err ''poll'' s else s)"

definition live_fetched :: "host \<Rightarrow> fetch_ctx \<Rightarrow> nat \<Rightarrow> jsval + (jsval \<times> jsval \<times> jsval) \<Rightarrow> live \<Rightarrow> live" where
  "live_fetched h c revision answer s =
     (let s1 = s\<lparr>lv_calls := remove1 (LiveFetch c revision) (lv_calls s)\<rparr> in
      case answer of
        Inl err \<Rightarrow> live_failed h c revision err s1
      | Inr (thread, st, interactions) \<Rightarrow>
          if \<not> isCurrent c s1 then s1 else add_call (LiveArtifacts c revision thread st interactions) s1)"

definition live_listed ::
  "host \<Rightarrow> fetch_ctx \<Rightarrow> nat \<Rightarrow> jsval \<Rightarrow> jsval \<Rightarrow> jsval \<Rightarrow> jsval + jsval \<Rightarrow> live \<Rightarrow> live" where
  "live_listed h c revision thread st interactions answer s =
     (let s1 = s\<lparr>lv_calls := remove1 (LiveArtifacts c revision thread st interactions) (lv_calls s)\<rparr>;
          s2 = (case answer of Inl e \<Rightarrow> emit [ArtifactsUnlisted (fc_thread c) e (dot thread ''status'')] s1 | Inr _ \<Rightarrow> s1);
          finish = emit [ReplaceInteractions interactions, MergeStatus (Some st), SyncThreadList thread, SyncSelectedArtifact] in
      if \<not> isCurrent c s2 then s2
      else let s3 = s2\<lparr>lv_activeThread := thread\<rparr> in
        case answer of
          Inr xs \<Rightarrow>
            if \<not> truthy xs then finish s3
            else let s4 = emit [SetArtifacts xs, ClearArtifactRetry] s3 in
              if is_array xs then finish s4 else live_failed h c revision (h_typeError h) s4
        | Inl _ \<Rightarrow> finish s3)"

definition TERMINAL_STREAM_STATES :: "string list" where
  "TERMINAL_STREAM_STATES = [''authentication_failed'', ''failed'', ''protocol_error'', ''upstream_error'', ''stopped'']"

definition REFRESH_EVENT_TYPES :: "string list" where
  "REFRESH_EVENT_TYPES =
     [''run.started'', ''run.completed'', ''run.failed'', ''run.interrupted'', ''run.cancelled'', ''run.queued'',
      ''run.dequeued'', ''run.queue_cleared'', ''artifact.added'', ''session.bound'']"

definition needs_refresh :: "jsval \<Rightarrow> bool" where
  "needs_refresh event \<longleftrightarrow> list_ex (\<lambda>x. event_type event = jlit x) REFRESH_EVENT_TYPES \<or> is_interaction event"

definition subscribed_error :: "host \<Rightarrow> jsval \<Rightarrow> live \<Rightarrow> live" where
  "subscribed_error h err s =
     (let s1 = retireEventSubscription True s in
      if canSetBackgroundError ''poll'' (lv_error s1) then show_error h err ''poll'' s1 else s1)"

definition subscribed_snapshot :: "host \<Rightarrow> jsval \<Rightarrow> live \<Rightarrow> live" where
  "subscribed_snapshot h event s =
     (let revision = pe_revision (lv_error s);
          cur = (if is_safe_integer (dot event ''cursor'') \<and> 0 \<le> to_int (dot event ''cursor'')
                 then max (cursor (lv_stream s)) (to_int (dot event ''cursor'')) else cursor (lv_stream s));
          s1 = retireEventSubscription False
            (s\<lparr>lv_stream := (lv_stream s)\<lparr>cursor := cur, needsSnapshot := True\<rparr>, lv_sequence := cur\<rparr>) in
      refreshActiveThread h (poll_options True revision s1) Nothing s1)"

text \<open>An event that the stream accepted; \<open>_events\<close> is set only for an ordinary one.\<close>

definition subscribed_accepted :: "host \<Rightarrow> jstr \<Rightarrow> event_stream \<Rightarrow> control option \<Rightarrow> jsval \<Rightarrow> live \<Rightarrow> live" where
  "subscribed_accepted h threadId st c event s =
     (let s1 = s\<lparr>lv_stream := st, lv_sequence := cursor st\<rparr> in
      case c of
        Some Snapshot \<Rightarrow>
          (let s2 = stopEventSubscription False s1 in
           refreshActiveThread h (poll_options True (pe_revision (lv_error s1)) s2) Nothing s2)
      | Some Error \<Rightarrow> subscribed_error h (stream_error st) s1
      | None \<Rightarrow>
          (let s2 = s1\<lparr>lv_events := events st\<rparr>;
               requestId = dot (dot event ''payload'') ''client_request_id'';
               s3 = (if event_type event = jlit ''message.created'' \<and> is_string requestId
                     then emit [SettlePrompt (as_string requestId)] s2 else s2) in
           if needs_refresh event then scheduleLiveRefresh threadId s3 else s3))"

definition handleSubscribedEvent :: "host \<Rightarrow> jstr \<Rightarrow> jsval \<Rightarrow> live \<Rightarrow> live" where
  "handleSubscribedEvent h threadId event s =
     (if Some threadId \<noteq> lv_thread s then s
      else if dot event ''type'' = jlit ''stream_status'' then
        (if list_ex (\<lambda>x. dot event ''state'' = jlit x) TERMINAL_STREAM_STATES then retireEventSubscription True s else s)
      else if dot event ''type'' = jlit ''snapshot_required'' then subscribed_snapshot h event s
      else if dot event ''type'' = jlit ''error'' then subscribed_error h stream_failed s
      else if \<not> in_thread threadId event then s
      else case acceptEvent (lv_stream s) event of
        Rejected _ _ \<Rightarrow> s
      | Accepted st c e \<Rightarrow> subscribed_accepted h threadId st c e s)"

text \<open>The callback of a subscription.\<close>

definition event_delivered :: "host \<Rightarrow> subscription \<Rightarrow> jsval \<Rightarrow> live \<Rightarrow> live" where
  "event_delivered h x event s =
     (if sb_generation x = lv_subGeneration s then handleSubscribedEvent h (sb_thread x) event s else s)"

section \<open>Attachment\<close>

definition connect :: "live \<Rightarrow> live" where
  "connect s =
     (let s1 = emit [StartSystemEvents] (s\<lparr>lv_connected := True\<rparr>) in
      emit [SyncAuthPolling] (if lv_thread s1 \<noteq> None then startEventSubscription False s1 else s1))"

definition disconnect :: "live \<Rightarrow> live" where
  "disconnect s =
     emit [StopSystemEvents, ClearArtifactRetry, StopAuthPolling, ClearInteractionTimer, AbortUpload, InvalidateDownloads,
         ClearArtifactPreview]
       (stopEventSubscription False (stopPolling (s\<lparr>lv_connected := False\<rparr>)))"

definition live0 :: live where
  "live0 =
     \<lparr>lv_thread = None, lv_selection = 0, lv_snapshot = 0, lv_activeThread = JNull,
      lv_stream = createEventStreamState JUndefined NaN, lv_events = [], lv_sequence = 0, lv_subGeneration = 0,
      lv_unsubscribe = None, lv_subPending = False, lv_subActive = False, lv_attempt = 0, lv_reconnectTimer = None,
      lv_refreshTimer = None, lv_pollActive = False, lv_pollGeneration = 0, lv_pollTimer = None,
      lv_pollInFlight = False, lv_lastStatus = 0, lv_graceUntil = 0, lv_error = initial_error,
      lv_connected = True, lv_subscribable = True, lv_armed = [], lv_requests = [], lv_open = [], lv_calls = [],
      lv_effects = []\<rparr>"

definition initial_live :: "live \<Rightarrow> bool" where
  "initial_live s \<longleftrightarrow> s = live0"

section \<open>Steps\<close>

text \<open>
  Background steps are answers, timers and deliveries; the other steps are what the user, the
  host or another part of the panel does.
\<close>

inductive background_step :: "live \<Rightarrow> live \<Rightarrow> bool" where
  refresh_answer: "RefreshFetch c opts k \<in> set (lv_calls s) \<Longrightarrow> background_step s (refresh_fetched h c opts k answer s)"
| refresh_list: "RefreshArtifacts c opts k thread evs st interactions \<in> set (lv_calls s) \<Longrightarrow>
    background_step s (refresh_listed h c opts k thread evs st interactions answer s)"
| tick_answer: "TickFetch t \<in> set (lv_calls s) \<Longrightarrow> background_step s (tick_fetched h t answer3 s)"
| tick_interactions_answer: "TickInteractions t thread \<in> set (lv_calls s) \<Longrightarrow>
    background_step s (tick_interactions h t thread answer s)"
| tick_thread_answer: "TickThread t \<in> set (lv_calls s) \<Longrightarrow> background_step s (tick_thread_fetched h t answer s)"
| tick_list: "TickArtifacts t \<in> set (lv_calls s) \<Longrightarrow> background_step s (tick_listed h t answer s)"
| live_answer: "LiveFetch c revision \<in> set (lv_calls s) \<Longrightarrow> background_step s (live_fetched h c revision answer3 s)"
| live_list: "LiveArtifacts c revision thread st interactions \<in> set (lv_calls s) \<Longrightarrow>
    background_step s (live_listed h c revision thread st interactions answer s)"
| poll_timer: "timer \<in> set (lv_armed s) \<Longrightarrow> background_step s (poll_fires h timer s)"
| reconnect_timer: "lv_reconnectTimer s = Some (threadId, ms) \<Longrightarrow> background_step s (reconnect_fires threadId s)"
| live_timer: "lv_refreshTimer s = Some (c, revision) \<Longrightarrow> background_step s (live_fires c revision s)"
| subscribed: "x \<in> set (lv_requests s) \<Longrightarrow> background_step s (subscription_settled x ok s)"
| delivery: "x \<in> set (lv_open s) \<union> set (lv_requests s) \<Longrightarrow> background_step s (event_delivered h x event s)"

inductive foreground_step :: "live \<Rightarrow> live \<Rightarrow> bool" where
  select: "foreground_step s (selectThread h threadId s)"
| adopt: "threadId \<noteq> [] \<Longrightarrow> foreground_step s (adoptCreatedThread h threadId thread s)"
| clear_project: "map_option fst replacement \<noteq> Some [] \<Longrightarrow> foreground_step s (clearSelectionForProject h replacement s)"
| leave_project: "foreground_step s (deselect_for_project s)"
| refresh: "foreground_step s (refreshActiveThread h default_options Nothing s)"
| attach: "foreground_step s (connect s)"
| detach: "foreground_step s (disconnect s)"
| update_thread: "foreground_step s (s\<lparr>lv_activeThread := thread\<rparr>)"
| report_error: "source \<noteq> ''poll'' \<Longrightarrow> foreground_step s (show_error h err source s)"
| dismiss_error: "foreground_step s (s\<lparr>lv_error := clearError None (lv_error s)\<rparr>)"
| transport: "foreground_step s (s\<lparr>lv_subscribable := ok\<rparr>)"

text \<open>The operations that change the selection and keep the stream of the old chat until a refresh.\<close>

inductive reselect_step :: "live \<Rightarrow> live \<Rightarrow> bool" where
  replace: "replacement \<noteq> Some [] \<Longrightarrow> reselect_step s (replace_selection h replacement s)"
| load: "firstActive \<noteq> Some [] \<Longrightarrow> reselect_step s (load_selection h report listed firstActive s)"

definition live_step :: "live \<Rightarrow> live \<Rightarrow> bool" where
  "live_step s t \<longleftrightarrow> background_step s t \<or> foreground_step s t \<or> reselect_step s t"

inductive live_reachable :: "live \<Rightarrow> bool" where
  initial: "initial_live s \<Longrightarrow> live_reachable s"
| step: "live_reachable s \<Longrightarrow> live_step s t \<Longrightarrow> live_reachable t"


section \<open>Groups of fields\<close>

text \<open>
  The state falls into groups that the operations change separately; each invariant is a
  predicate on one group, and the equations below say which groups an operation leaves alone.
\<close>

definition stream_part :: "live \<Rightarrow> event_stream \<times> jsval list \<times> int" where
  "stream_part s = (lv_stream s, lv_events s, lv_sequence s)"

definition sub_part :: "live \<Rightarrow> nat \<times> subscription option \<times> bool \<times> bool \<times> subscription list \<times> subscription list" where
  "sub_part s = (lv_subGeneration s, lv_unsubscribe s, lv_subActive s, lv_subPending s, lv_requests s, lv_open s)"

definition backoff_part :: "live \<Rightarrow> nat \<times> (jstr \<times> nat) option" where
  "backoff_part s = (lv_attempt s, lv_reconnectTimer s)"

text \<open>The poll tick that an open call belongs to, by its generation.\<close>

fun follow_generation :: "follow_up \<Rightarrow> nat option" where
  "follow_generation (ThenPollEnd g) = Some g"
| "follow_generation _ = None"

fun call_generation :: "call \<Rightarrow> nat option" where
  "call_generation (RefreshFetch c opts k) = follow_generation k"
| "call_generation (RefreshArtifacts c opts k thread evs st interactions) = follow_generation k"
| "call_generation (TickFetch t) = Some (tk_generation t)"
| "call_generation (TickInteractions t thread) = Some (tk_generation t)"
| "call_generation (TickThread t) = Some (tk_generation t)"
| "call_generation (TickArtifacts t) = Some (tk_generation t)"
| "call_generation _ = None"

definition poll_part :: "live \<Rightarrow> bool \<times> bool \<times> nat \<times> (nat \<times> nat) option \<times> bool \<times> (nat \<times> nat) list \<times> nat option multiset" where
  "poll_part s = (lv_thread s \<noteq> None, lv_pollActive s, lv_pollGeneration s, lv_pollTimer s, lv_pollInFlight s, lv_armed s,
     image_mset call_generation (mset (lv_calls s)))"

lemmas part_defs = stream_part_def sub_part_def backoff_part_def poll_part_def

named_theorems live_frame "operations that leave a group of fields alone"

lemma frame_all [live_frame]:
  "stream_part (emit es s) = stream_part s" "sub_part (emit es s) = sub_part s"
  "backoff_part (emit es s) = backoff_part s" "poll_part (emit es s) = poll_part s"
  "stream_part (show_error h err src s) = stream_part s" "sub_part (show_error h err src s) = sub_part s"
  "backoff_part (show_error h err src s) = backoff_part s" "poll_part (show_error h err src s) = poll_part s"
  by (simp_all add: part_defs emit_def show_error_def)

lemma frame_fields [live_frame]:
  "stream_part (s\<lparr>lv_activeThread := v\<rparr>) = stream_part s" "sub_part (s\<lparr>lv_activeThread := v\<rparr>) = sub_part s"
  "backoff_part (s\<lparr>lv_activeThread := v\<rparr>) = backoff_part s" "poll_part (s\<lparr>lv_activeThread := v\<rparr>) = poll_part s"
  "stream_part (s\<lparr>lv_graceUntil := n\<rparr>) = stream_part s" "sub_part (s\<lparr>lv_graceUntil := n\<rparr>) = sub_part s"
  "backoff_part (s\<lparr>lv_graceUntil := n\<rparr>) = backoff_part s" "poll_part (s\<lparr>lv_graceUntil := n\<rparr>) = poll_part s"
  "stream_part (s\<lparr>lv_lastStatus := n\<rparr>) = stream_part s" "sub_part (s\<lparr>lv_lastStatus := n\<rparr>) = sub_part s"
  "backoff_part (s\<lparr>lv_lastStatus := n\<rparr>) = backoff_part s" "poll_part (s\<lparr>lv_lastStatus := n\<rparr>) = poll_part s"
  "stream_part (s\<lparr>lv_snapshot := k\<rparr>) = stream_part s" "sub_part (s\<lparr>lv_snapshot := k\<rparr>) = sub_part s"
  "backoff_part (s\<lparr>lv_snapshot := k\<rparr>) = backoff_part s" "poll_part (s\<lparr>lv_snapshot := k\<rparr>) = poll_part s"
  "stream_part (s\<lparr>lv_error := e\<rparr>) = stream_part s" "sub_part (s\<lparr>lv_error := e\<rparr>) = sub_part s"
  "backoff_part (s\<lparr>lv_error := e\<rparr>) = backoff_part s" "poll_part (s\<lparr>lv_error := e\<rparr>) = poll_part s"
  "stream_part (s\<lparr>lv_connected := b\<rparr>) = stream_part s" "sub_part (s\<lparr>lv_connected := b\<rparr>) = sub_part s"
  "backoff_part (s\<lparr>lv_connected := b\<rparr>) = backoff_part s" "poll_part (s\<lparr>lv_connected := b\<rparr>) = poll_part s"
  "stream_part (s\<lparr>lv_subscribable := b\<rparr>) = stream_part s" "sub_part (s\<lparr>lv_subscribable := b\<rparr>) = sub_part s"
  "backoff_part (s\<lparr>lv_subscribable := b\<rparr>) = backoff_part s" "poll_part (s\<lparr>lv_subscribable := b\<rparr>) = poll_part s"
  "stream_part (s\<lparr>lv_refreshTimer := f\<rparr>) = stream_part s" "sub_part (s\<lparr>lv_refreshTimer := f\<rparr>) = sub_part s"
  "backoff_part (s\<lparr>lv_refreshTimer := f\<rparr>) = backoff_part s" "poll_part (s\<lparr>lv_refreshTimer := f\<rparr>) = poll_part s"
  "stream_part (s\<lparr>lv_calls := cs\<rparr>) = stream_part s" "sub_part (s\<lparr>lv_calls := cs\<rparr>) = sub_part s"
  "backoff_part (s\<lparr>lv_calls := cs\<rparr>) = backoff_part s"
  "stream_part (s\<lparr>lv_armed := ts\<rparr>) = stream_part s" "sub_part (s\<lparr>lv_armed := ts\<rparr>) = sub_part s"
  "backoff_part (s\<lparr>lv_armed := ts\<rparr>) = backoff_part s"
  "stream_part (s\<lparr>lv_pollTimer := pt\<rparr>) = stream_part s" "sub_part (s\<lparr>lv_pollTimer := pt\<rparr>) = sub_part s"
  "backoff_part (s\<lparr>lv_pollTimer := pt\<rparr>) = backoff_part s"
  "stream_part (s\<lparr>lv_pollInFlight := b\<rparr>) = stream_part s" "sub_part (s\<lparr>lv_pollInFlight := b\<rparr>) = sub_part s"
  "backoff_part (s\<lparr>lv_pollInFlight := b\<rparr>) = backoff_part s"
  "stream_part (s\<lparr>lv_reconnectTimer := rt\<rparr>) = stream_part s" "sub_part (s\<lparr>lv_reconnectTimer := rt\<rparr>) = sub_part s"
  "poll_part (s\<lparr>lv_reconnectTimer := rt\<rparr>) = poll_part s"
  by (simp_all add: part_defs)

lemma frame_poll [live_frame]:
  "stream_part (add_call c s) = stream_part s" "sub_part (add_call c s) = sub_part s" "backoff_part (add_call c s) = backoff_part s"
  "stream_part (stopPolling s) = stream_part s" "sub_part (stopPolling s) = sub_part s" "backoff_part (stopPolling s) = backoff_part s"
  "stream_part (startPolling s) = stream_part s" "sub_part (startPolling s) = sub_part s" "backoff_part (startPolling s) = backoff_part s"
  "stream_part (scheduleNextPoll ms g s) = stream_part s" "sub_part (scheduleNextPoll ms g s) = sub_part s"
  "backoff_part (scheduleNextPoll ms g s) = backoff_part s"
  "stream_part (poll_end h g s) = stream_part s" "sub_part (poll_end h g s) = sub_part s" "backoff_part (poll_end h g s) = backoff_part s"
  "stream_part (after_refresh h k s) = stream_part s" "sub_part (after_refresh h k s) = sub_part s"
  "backoff_part (after_refresh h k s) = backoff_part s"
  "stream_part (setSelectedThread f n s) = stream_part s" "sub_part (setSelectedThread f n s) = sub_part s"
  "backoff_part (setSelectedThread f n s) = backoff_part s"
  by (simp_all add: part_defs add_call_def stopPolling_def startPolling_def scheduleNextPoll_def poll_end_def after_refresh_def
      setSelectedThread_def emit_def Let_def split: follow_up.split)

lemma frame_sub [live_frame]:
  "stream_part (stopEventSubscription p s) = stream_part s" "poll_part (stopEventSubscription p s) = poll_part s"
  "stream_part (startEventSubscription p s) = stream_part s" "poll_part (startEventSubscription p s) = poll_part s"
  "stream_part (scheduleEventReconnect tid s) = stream_part s" "poll_part (scheduleEventReconnect tid s) = poll_part s"
  "sub_part (scheduleEventReconnect tid s) = sub_part s"
  "stream_part (retireEventSubscription p s) = stream_part s" "poll_part (retireEventSubscription p s) = poll_part s"
  "stream_part (subscription_settled x ok s) = stream_part s" "poll_part (subscription_settled x ok s) = poll_part s"
  "stream_part (reconnect_fires tid s) = stream_part s" "poll_part (reconnect_fires tid s) = poll_part s"
  by (simp_all add: part_defs stopEventSubscription_def startEventSubscription_def scheduleEventReconnect_def
      retireEventSubscription_def close_subscription_def subscription_settled_def reconnect_fires_def Let_def split: option.split)

lemma frame_stream [live_frame]:
  "sub_part (resetEventState s) = sub_part s" "backoff_part (resetEventState s) = backoff_part s" "poll_part (resetEventState s) = poll_part s"
  "sub_part (set_stream st s) = sub_part s" "backoff_part (set_stream st s) = backoff_part s" "poll_part (set_stream st s) = poll_part s"
  "sub_part (clear_chat s) = sub_part s" "backoff_part (clear_chat s) = backoff_part s" "poll_part (clear_chat s) = poll_part s"
  "sub_part (s\<lparr>lv_stream := st\<rparr>) = sub_part s" "backoff_part (s\<lparr>lv_stream := st\<rparr>) = backoff_part s"
  "poll_part (s\<lparr>lv_stream := st\<rparr>) = poll_part s"
  "sub_part (s\<lparr>lv_sequence := n\<rparr>) = sub_part s" "backoff_part (s\<lparr>lv_sequence := n\<rparr>) = backoff_part s"
  "poll_part (s\<lparr>lv_sequence := n\<rparr>) = poll_part s"
  "sub_part (s\<lparr>lv_events := es\<rparr>) = sub_part s" "backoff_part (s\<lparr>lv_events := es\<rparr>) = backoff_part s"
  "poll_part (s\<lparr>lv_events := es\<rparr>) = poll_part s"
  by (simp_all add: part_defs resetEventState_def set_stream_def clear_chat_def emit_def Let_def)


section \<open>The subscription is exclusive\<close>

text \<open>
  At most one subscription is open, and it is the one the panel can close; a request that is
  still current is the only one of its generation, and then nothing is open.
\<close>

fun sub_ok :: "nat \<times> subscription option \<times> bool \<times> bool \<times> subscription list \<times> subscription list \<Rightarrow> bool" where
  "sub_ok (g, u, act, pend, reqs, opened) \<longleftrightarrow>
     opened = (case u of None \<Rightarrow> [] | Some x \<Rightarrow> [x]) \<and> (\<forall>x. u = Some x \<longrightarrow> sb_generation x = g) \<and> (act \<longleftrightarrow> u \<noteq> None)
     \<and> distinct (map sb_generation reqs) \<and> (\<forall>x\<in>set reqs. sb_generation x \<le> g \<and> (sb_generation x = g \<longrightarrow> u = None))
     \<and> (pend \<longleftrightarrow> (\<exists>x\<in>set reqs. sb_generation x = g))"

fun backoff_ok :: "nat \<times> (jstr \<times> nat) option \<Rightarrow> bool" where
  "backoff_ok (attempt, timer) \<longleftrightarrow>
     attempt \<le> 7 \<and> (case timer of None \<Rightarrow> True | Some (_, ms) \<Rightarrow> 1 \<le> attempt \<and> ms = reconnect_delay attempt)"

definition subscribed_ok :: "live \<Rightarrow> bool" where
  "subscribed_ok s \<longleftrightarrow> sub_ok (sub_part s) \<and> backoff_ok (backoff_part s)"

lemma sub_ok_closed:
  assumes "sub_ok (g, u, act, pend, reqs, opened)"
  shows "sub_ok (Suc g, None, False, False, reqs, case u of None \<Rightarrow> opened | Some x \<Rightarrow> filter (\<lambda>y. y \<noteq> x) opened)"
  using assms by (auto simp: le_Suc_eq split: option.split)

lemma subscribed_stop: "subscribed_ok s \<Longrightarrow> subscribed_ok (stopEventSubscription p s)"
  using sub_ok_closed [of "lv_subGeneration s" "lv_unsubscribe s"]
  by (auto simp: subscribed_ok_def stopEventSubscription_def close_subscription_def sub_part_def backoff_part_def Let_def
      simp del: sub_ok.simps split: option.split)

lemma sub_ok_request:
  assumes "sub_ok (g, None, False, False, reqs, opened)"
  shows "sub_ok (g, None, False, True, reqs @ [\<lparr>sb_generation = g, sb_thread = tid\<rparr>], opened)"
  using assms by auto

lemma subscribed_start:
  assumes "subscribed_ok s"
  shows "subscribed_ok (startEventSubscription p s)"
proof -
  define s1 where "s1 = stopEventSubscription p s"
  have ok: "subscribed_ok s1" using subscribed_stop [OF assms] by (simp add: s1_def)
  have f: "lv_unsubscribe s1 = None" "lv_subActive s1 = False" "lv_subPending s1 = False"
    by (simp_all add: s1_def stopEventSubscription_def close_subscription_def Let_def)
  have "subscribed_ok (s1\<lparr>lv_subActive := False\<rparr>)"
    "subscribed_ok (s1\<lparr>lv_subPending := True,
       lv_requests := lv_requests s1 @ [\<lparr>sb_generation = lv_subGeneration s1, sb_thread = tid\<rparr>]\<rparr>)" for tid
    using ok f sub_ok_request [of "lv_subGeneration s1" "lv_requests s1" "lv_open s1" tid]
    by (simp_all add: subscribed_ok_def sub_part_def backoff_part_def del: sub_ok.simps)
  then show ?thesis by (simp add: startEventSubscription_def s1_def [symmetric] Let_def split: option.split)
qed

lemma schedule_fields:
  "lv_subGeneration (scheduleEventReconnect tid s) = lv_subGeneration s"
  "lv_unsubscribe (scheduleEventReconnect tid s) = lv_unsubscribe s" "lv_subActive (scheduleEventReconnect tid s) = lv_subActive s"
  "lv_requests (scheduleEventReconnect tid s) = lv_requests s" "lv_open (scheduleEventReconnect tid s) = lv_open s"
  by (simp_all add: scheduleEventReconnect_def Let_def)

lemma backoff_reconnect: "backoff_ok (backoff_part s) \<Longrightarrow> backoff_ok (backoff_part (scheduleEventReconnect tid s))"
  unfolding scheduleEventReconnect_def Let_def by (cases "lv_reconnectTimer s") (simp_all add: backoff_part_def)

lemma subscribed_reconnect: "subscribed_ok s \<Longrightarrow> subscribed_ok (scheduleEventReconnect tid s)"
  by (simp add: subscribed_ok_def frame_sub backoff_reconnect)

lemma subscribed_retire: "subscribed_ok s \<Longrightarrow> subscribed_ok (retireEventSubscription p s)"
proof -
  assume s: "subscribed_ok s"
  have "subscribed_ok ((close_subscription (s\<lparr>lv_subGeneration := Suc (lv_subGeneration s)\<rparr>))\<lparr>lv_subPending := False, lv_subActive := False\<rparr>)"
    using s sub_ok_closed [of "lv_subGeneration s" "lv_unsubscribe s"]
    by (auto simp: subscribed_ok_def close_subscription_def sub_part_def backoff_part_def simp del: sub_ok.simps split: option.split)
  then show ?thesis
    by (simp add: retireEventSubscription_def Let_def subscribed_reconnect split: option.split)
qed

lemma sub_ok_settled:
  assumes "sub_ok (g, u, act, pend, reqs, opened)" "x \<in> set reqs"
  shows "sb_generation x = g \<Longrightarrow> sub_ok (g, Some x, True, False, remove1 x reqs, opened @ [x])"
    "sb_generation x = g \<Longrightarrow> sub_ok (g, u, act, False, remove1 x reqs, opened) \<and> \<not> act"
    "sb_generation x \<noteq> g \<Longrightarrow> sub_ok (g, u, act, pend, remove1 x reqs, opened)"
proof -
  obtain as bs where r: "reqs = as @ x # bs" "x \<notin> set as" using assms(2) split_list_first by metis
  have rem: "remove1 x reqs = as @ bs" using r by (simp add: remove1_append)
  have d: "distinct (map sb_generation (as @ bs))" "\<forall>y\<in>set (as @ bs). sb_generation y \<noteq> sb_generation x"
  proof -
    have "distinct (map sb_generation (as @ x # bs))" using assms(1) by (simp add: r(1) del: map_append)
    then show "distinct (map sb_generation (as @ bs))" "\<forall>y\<in>set (as @ bs). sb_generation y \<noteq> sb_generation x"
      by (auto simp: image_iff)
  qed
  note a = assms(1) [unfolded sub_ok.simps]
  have f: "opened = (case u of None \<Rightarrow> [] | Some x \<Rightarrow> [x])" "\<forall>x. u = Some x \<longrightarrow> sb_generation x = g" "act \<longleftrightarrow> u \<noteq> None"
    using a by argo+
  have le: "\<forall>y\<in>set reqs. sb_generation y \<le> g \<and> (sb_generation y = g \<longrightarrow> u = None)"
    and pend: "pend \<longleftrightarrow> (\<exists>y\<in>set reqs. sb_generation y = g)" using a by argo+
  have u: "u = None" if "sb_generation x = g" using le assms(2) that by blast
  have le': "\<forall>y\<in>set (as @ bs). sb_generation y \<le> g \<and> (sb_generation y = g \<longrightarrow> u = None)" using le by (simp add: r(1))
  have pend': "pend \<longleftrightarrow> (\<exists>y\<in>set (as @ bs). sb_generation y = g)" if "sb_generation x \<noteq> g"
    using pend that by (simp add: r(1))
  show "sub_ok (g, Some x, True, False, remove1 x reqs, opened @ [x])" if "sb_generation x = g"
    unfolding rem sub_ok.simps using d f(1) u [OF that] le' that by simp
  show "sub_ok (g, u, act, False, remove1 x reqs, opened) \<and> \<not> act" if "sb_generation x = g"
    unfolding rem sub_ok.simps using d f u [OF that] le' that by simp
  show "sub_ok (g, u, act, pend, remove1 x reqs, opened)" if "sb_generation x \<noteq> g"
    unfolding rem sub_ok.simps using d(1) f le' pend' [OF that] by blast
qed

lemma subscribed_settled:
  assumes "subscribed_ok s" "x \<in> set (lv_requests s)"
  shows "subscribed_ok (subscription_settled x ok s)"
proof -
  have ok: "sub_ok (lv_subGeneration s, lv_unsubscribe s, lv_subActive s, lv_subPending s, lv_requests s, lv_open s)"
      "backoff_ok (backoff_part s)"
    using assms(1) by (simp_all add: subscribed_ok_def sub_part_def)
  note c = sub_ok_settled [OF ok(1) assms(2)]
  let ?r = "s\<lparr>lv_requests := remove1 x (lv_requests s)\<rparr>"
  show ?thesis
  proof (cases "sb_generation x = lv_subGeneration s")
    case True
    note c = c(1,2) [OF True]
    have act: "lv_subActive s = False" using c(2) by blast
    note c = c(1) c(2) [THEN conjunct1, unfolded act]
    have "subscribed_ok (scheduleEventReconnect (sb_thread x) (?r\<lparr>lv_subActive := False\<rparr>)\<lparr>lv_subPending := False\<rparr>)"
    proof -
      have b: "backoff_ok (backoff_part (scheduleEventReconnect (sb_thread x) (?r\<lparr>lv_subActive := False\<rparr>)))"
        using ok(2) by (intro backoff_reconnect) (simp add: backoff_part_def)
      have "sub_part (scheduleEventReconnect (sb_thread x) (?r\<lparr>lv_subActive := False\<rparr>)\<lparr>lv_subPending := False\<rparr>)
        = (lv_subGeneration s, lv_unsubscribe s, False, False, remove1 x (lv_requests s), lv_open s)"
        using act by (simp add: sub_part_def schedule_fields)
      then show ?thesis using b c(2) act by (simp add: subscribed_ok_def backoff_part_def del: sub_ok.simps)
    qed
    moreover have "subscribed_ok (?r\<lparr>lv_open := lv_open ?r @ [x], lv_unsubscribe := Some x, lv_subActive := True,
        lv_attempt := 0, lv_reconnectTimer := None, lv_subPending := False\<rparr>)"
      using c(1) by (simp add: subscribed_ok_def sub_part_def backoff_part_def del: sub_ok.simps)
    moreover have "subscribed_ok (?r\<lparr>lv_subPending := False\<rparr>)"
      using c(2) ok(2) act by (simp add: subscribed_ok_def sub_part_def backoff_part_def del: sub_ok.simps)
    ultimately show ?thesis using True by (simp add: subscription_settled_def Let_def)
  next
    case False
    then have "subscribed_ok ?r"
      using c(3) ok(2) by (simp add: subscribed_ok_def sub_part_def backoff_part_def del: sub_ok.simps)
    then show ?thesis using False by (simp add: subscription_settled_def Let_def)
  qed
qed

lemma subscribed_fires: "subscribed_ok s \<Longrightarrow> subscribed_ok (reconnect_fires tid s)"
proof -
  assume "subscribed_ok s"
  then have "subscribed_ok (s\<lparr>lv_reconnectTimer := None\<rparr>)" by (simp add: subscribed_ok_def sub_part_def backoff_part_def)
  then show ?thesis by (simp add: reconnect_fires_def Let_def subscribed_start)
qed


text \<open>Every operation keeps this, since it only uses the ones above.\<close>

lemma subscribed_frame [simp]:
  "subscribed_ok (emit es s) = subscribed_ok s" "subscribed_ok (show_error h err src s) = subscribed_ok s"
  "subscribed_ok (add_call c s) = subscribed_ok s" "subscribed_ok (stopPolling s) = subscribed_ok s"
  "subscribed_ok (startPolling s) = subscribed_ok s" "subscribed_ok (scheduleNextPoll ms g s) = subscribed_ok s"
  "subscribed_ok (poll_end h g s) = subscribed_ok s" "subscribed_ok (after_refresh h k s) = subscribed_ok s"
  "subscribed_ok (setSelectedThread f n s) = subscribed_ok s" "subscribed_ok (resetEventState s) = subscribed_ok s"
  "subscribed_ok (set_stream st s) = subscribed_ok s" "subscribed_ok (clear_chat s) = subscribed_ok s"
  "subscribed_ok (s\<lparr>lv_activeThread := v0\<rparr>) = subscribed_ok s"
  "subscribed_ok (s\<lparr>lv_graceUntil := v1\<rparr>) = subscribed_ok s"
  "subscribed_ok (s\<lparr>lv_lastStatus := v2\<rparr>) = subscribed_ok s"
  "subscribed_ok (s\<lparr>lv_snapshot := v3\<rparr>) = subscribed_ok s"
  "subscribed_ok (s\<lparr>lv_error := v4\<rparr>) = subscribed_ok s"
  "subscribed_ok (s\<lparr>lv_connected := v5\<rparr>) = subscribed_ok s"
  "subscribed_ok (s\<lparr>lv_subscribable := v6\<rparr>) = subscribed_ok s"
  "subscribed_ok (s\<lparr>lv_refreshTimer := v7\<rparr>) = subscribed_ok s"
  "subscribed_ok (s\<lparr>lv_calls := v8\<rparr>) = subscribed_ok s"
  "subscribed_ok (s\<lparr>lv_armed := v9\<rparr>) = subscribed_ok s"
  "subscribed_ok (s\<lparr>lv_pollTimer := v10\<rparr>) = subscribed_ok s"
  "subscribed_ok (s\<lparr>lv_pollInFlight := v11\<rparr>) = subscribed_ok s"
  "subscribed_ok (s\<lparr>lv_stream := v12\<rparr>) = subscribed_ok s"
  "subscribed_ok (s\<lparr>lv_sequence := v13\<rparr>) = subscribed_ok s"
  "subscribed_ok (s\<lparr>lv_events := v14\<rparr>) = subscribed_ok s"
  by (simp_all add: subscribed_ok_def live_frame)

lemmas subscribed_ops = subscribed_stop subscribed_start subscribed_reconnect subscribed_retire

lemma subscribed_refresh:
  assumes "subscribed_ok s"
  shows "subscribed_ok (refreshActiveThread h opts k s)"
proof (cases "lv_thread s")
  case None
  have "subscribed_ok (stopEventSubscription False (s\<lparr>lv_snapshot := Suc (lv_snapshot s)\<rparr>))"
    using assms by (intro subscribed_stop) simp
  then show ?thesis using None by (simp add: refreshActiveThread_def)
next
  case (Some tid)
  then show ?thesis using assms by (simp add: refreshActiveThread_def)
qed

lemma subscribed_refresh_selected: "subscribed_ok s \<Longrightarrow> subscribed_ok (refreshSelectedThreadAndStartPolling h opts s)"
  by (simp add: refreshSelectedThreadAndStartPolling_def subscribed_refresh split: option.split)

lemma subscribed_failed: "subscribed_ok s \<Longrightarrow> subscribed_ok (refresh_failed h c opts err s)"
  by (simp add: refresh_failed_def)

lemma subscribed_applied: "subscribed_ok s \<Longrightarrow> subscribed_ok (refresh_applied c opts thread evs st interactions artifacts s)"
  unfolding refresh_applied_def Let_def
  by (rule subscribed_start) simp

lemma subscribed_fetched: "subscribed_ok s \<Longrightarrow> subscribed_ok (refresh_fetched h c opts k answer s)"
  by (auto simp: refresh_fetched_def Let_def subscribed_failed split: sum.split)

lemma subscribed_listed:
  "subscribed_ok s \<Longrightarrow> subscribed_ok (refresh_listed h c opts k thread evs st interactions answer s)"
  by (auto simp: refresh_listed_def Let_def split: sum.split intro!: subscribed_failed subscribed_applied)

lemma subscribed_recover: "subscribed_ok s \<Longrightarrow> subscribed_ok (recover_snapshot h g r s)"
  by (simp add: recover_snapshot_def Let_def subscribed_refresh subscribed_stop)

lemma subscribed_tick_end:
  "subscribed_ok s \<Longrightarrow> subscribed_ok (tick_failed h t err s)" "subscribed_ok s \<Longrightarrow> subscribed_ok (tick_done h t s)"
  by (simp_all add: tick_failed_def tick_done_def Let_def)

lemma subscribed_tick_assign: "subscribed_ok s \<Longrightarrow> subscribed_ok (tick_assign h t n thread s)"
  by (simp add: tick_assign_def Let_def subscribed_tick_end)

lemma subscribed_tick_thread: "subscribed_ok s \<Longrightarrow> subscribed_ok (tick_thread h t thread s)"
  by (simp add: tick_thread_def Let_def subscribed_tick_end subscribed_tick_assign)

lemma subscribed_tick_merged: "subscribed_ok s \<Longrightarrow> subscribed_ok (tick_merged h t st thread i s)"
  by (simp add: tick_merged_def Let_def subscribed_recover subscribed_tick_thread)

lemma subscribed_tick_events: "subscribed_ok s \<Longrightarrow> subscribed_ok (tick_events h t st thread evs s)"
  by (simp add: tick_events_def Let_def subscribed_refresh subscribed_stop subscribed_tick_merged)

lemma subscribed_run: "subscribed_ok s \<Longrightarrow> subscribed_ok (runPollTick h g s)"
  by (simp add: runPollTick_def Let_def subscribed_recover split: option.split)

lemma subscribed_event: "subscribed_ok s \<Longrightarrow> subscribed_ok (handleSubscribedEvent h tid event s)"
  by (simp add: handleSubscribedEvent_def subscribed_snapshot_def subscribed_error_def subscribed_accepted_def Let_def
      scheduleLiveRefresh_def subscribed_refresh subscribed_retire subscribed_stop
      split: accept_result.split option.split control.split)


section \<open>The stream is well formed\<close>

text \<open>The three copies the panel keeps of its stream agree, and the stream is well formed.\<close>

definition stream_ok :: "live \<Rightarrow> bool" where
  "stream_ok s \<longleftrightarrow> (case stream_part s of (st, evs, n) \<Rightarrow> stream_inv st \<and> evs = events st \<and> n = cursor st)"

lemma stream_okD: "stream_ok s \<Longrightarrow> stream_inv (lv_stream s)" "stream_ok s \<Longrightarrow> lv_events s = events (lv_stream s)"
  "stream_ok s \<Longrightarrow> lv_sequence s = cursor (lv_stream s)"
  by (simp_all add: stream_ok_def stream_part_def)

lemma stream_frame [simp]:
  "stream_ok (emit es s) = stream_ok s" "stream_ok (show_error h err src s) = stream_ok s"
  "stream_ok (add_call c s) = stream_ok s" "stream_ok (stopPolling s) = stream_ok s"
  "stream_ok (startPolling s) = stream_ok s" "stream_ok (scheduleNextPoll ms g s) = stream_ok s"
  "stream_ok (poll_end h g s) = stream_ok s" "stream_ok (after_refresh h k s) = stream_ok s"
  "stream_ok (setSelectedThread f n s) = stream_ok s" "stream_ok (stopEventSubscription p s) = stream_ok s"
  "stream_ok (startEventSubscription p s) = stream_ok s" "stream_ok (scheduleEventReconnect tid s) = stream_ok s"
  "stream_ok (retireEventSubscription p s) = stream_ok s" "stream_ok (subscription_settled x ok s) = stream_ok s"
  "stream_ok (reconnect_fires tid s) = stream_ok s" "stream_ok (s\<lparr>lv_activeThread := v0\<rparr>) = stream_ok s"
  "stream_ok (s\<lparr>lv_graceUntil := v1\<rparr>) = stream_ok s"
  "stream_ok (s\<lparr>lv_lastStatus := v2\<rparr>) = stream_ok s"
  "stream_ok (s\<lparr>lv_snapshot := v3\<rparr>) = stream_ok s" "stream_ok (s\<lparr>lv_error := v4\<rparr>) = stream_ok s"
  "stream_ok (s\<lparr>lv_connected := v5\<rparr>) = stream_ok s"
  "stream_ok (s\<lparr>lv_subscribable := v6\<rparr>) = stream_ok s"
  "stream_ok (s\<lparr>lv_refreshTimer := v7\<rparr>) = stream_ok s"
  "stream_ok (s\<lparr>lv_calls := v8\<rparr>) = stream_ok s" "stream_ok (s\<lparr>lv_armed := v9\<rparr>) = stream_ok s"
  "stream_ok (s\<lparr>lv_pollTimer := v10\<rparr>) = stream_ok s"
  "stream_ok (s\<lparr>lv_pollInFlight := v11\<rparr>) = stream_ok s"
  "stream_ok (s\<lparr>lv_reconnectTimer := v12\<rparr>) = stream_ok s"
  by (simp_all add: stream_ok_def live_frame)

lemma stream_reset [simp]: "stream_ok (resetEventState s)" "stream_ok (clear_chat s)"
  using create_inv [of "jint 0" NaN]
  by (simp_all add: stream_ok_def stream_part_def resetEventState_def clear_chat_def emit_def Let_def createEventStreamState_def)

lemma stream_set [simp]: "stream_ok (set_stream st s) = stream_inv st"
  by (simp add: stream_ok_def stream_part_def set_stream_def)

lemma stream_inv_cursor: "stream_inv st \<Longrightarrow> cursor st \<le> c \<Longrightarrow> stream_inv (st\<lparr>cursor := c, needsSnapshot := b, error := e\<rparr>)"
  "stream_inv st \<Longrightarrow> cursor st \<le> c \<Longrightarrow> stream_inv (st\<lparr>cursor := c, needsSnapshot := b\<rparr>)"
  by (force simp: stream_inv_def)+

lemma foldl_max: "(c :: int) \<le> foldl (\<lambda>c e. max c (f e)) c es"
proof (induction es arbitrary: c)
  case (Cons e es)
  show ?case using Cons [of "max c (f e)"] by simp
qed simp

lemma stream_accept: "stream_inv st \<Longrightarrow> stream_inv (bstate (acceptEvents st v))"
  by (simp add: acceptEvents_def acceptLoop_inv)

lemma stream_authoritative: "stream_inv (authoritative_stream tid fl evs)"
proof -
  define es where "es = filter (in_thread tid) (parseEvents True evs)"
  define r where "r = bstate (acceptEvents (createEventStreamState JUndefined NaN) (JArr (filter (\<lambda>e. \<not> is_boundary e) es)))"
  define start where "start = (case fl of Some c \<Rightarrow> if 0 \<le> c \<and> c \<le> MAX_SAFE then max (cursor r) c else cursor r | None \<Rightarrow> cursor r)"
  have "stream_inv r" unfolding r_def by (intro stream_accept create_inv)
  moreover have "cursor r \<le> foldl (\<lambda>c e. max c (sequence e)) start es"
  proof (rule order_trans)
    show "cursor r \<le> start" by (simp add: start_def split: option.split)
  qed (rule foldl_max)
  ultimately have "stream_inv (r\<lparr>cursor := foldl (\<lambda>c e. max c (sequence e)) start es, needsSnapshot := False, error := None\<rparr>)"
    by (rule stream_inv_cursor)
  then show ?thesis by (simp only: authoritative_stream_def es_def r_def start_def Let_def)
qed

lemma stream_refresh: "stream_ok s \<Longrightarrow> stream_ok (refreshActiveThread h opts k s)"
  by (simp add: refreshActiveThread_def Let_def split: option.split)

lemma stream_refresh_selected: "stream_ok s \<Longrightarrow> stream_ok (refreshSelectedThreadAndStartPolling h opts s)"
  by (simp add: refreshSelectedThreadAndStartPolling_def stream_refresh split: option.split)

lemma stream_failed_ok: "stream_ok s \<Longrightarrow> stream_ok (refresh_failed h c opts err s)"
  by (simp add: refresh_failed_def)

lemma stream_applied: "stream_ok (refresh_applied c opts thread evs st interactions artifacts s)"
  by (simp add: refresh_applied_def Let_def stream_authoritative)

lemma stream_fetched: "stream_ok s \<Longrightarrow> stream_ok (refresh_fetched h c opts k answer s)"
  by (auto simp: refresh_fetched_def Let_def stream_failed_ok split: sum.split)

lemma stream_listed: "stream_ok s \<Longrightarrow> stream_ok (refresh_listed h c opts k thread evs st interactions answer s)"
  by (auto simp: refresh_listed_def Let_def split: sum.split intro!: stream_failed_ok stream_applied)

lemma stream_recover: "stream_ok s \<Longrightarrow> stream_ok (recover_snapshot h g r s)"
  by (simp add: recover_snapshot_def Let_def stream_refresh)

lemma stream_tick_end:
  "stream_ok s \<Longrightarrow> stream_ok (tick_failed h t err s)" "stream_ok s \<Longrightarrow> stream_ok (tick_done h t s)"
  by (simp_all add: tick_failed_def tick_done_def Let_def)

lemma stream_tick_assign: "stream_ok s \<Longrightarrow> stream_ok (tick_assign h t n thread s)"
  by (simp add: tick_assign_def Let_def stream_tick_end)

lemma stream_tick_thread: "stream_ok s \<Longrightarrow> stream_ok (tick_thread h t thread s)"
  by (simp add: tick_thread_def Let_def stream_tick_end stream_tick_assign)

lemma stream_tick_merged: "stream_ok s \<Longrightarrow> stream_ok (tick_merged h t st thread i s)"
  by (simp add: tick_merged_def Let_def stream_recover stream_tick_thread)

lemma stream_tick_events: "stream_ok s \<Longrightarrow> stream_ok (tick_events h t st thread evs s)"
  by (simp add: tick_events_def Let_def stream_refresh stream_tick_merged stream_accept stream_okD)

lemma stream_run: "stream_ok s \<Longrightarrow> stream_ok (runPollTick h g s)"
  by (simp add: runPollTick_def Let_def stream_recover split: option.split)

lemma stream_subscribed_snapshot: "stream_ok s \<Longrightarrow> stream_ok (subscribed_snapshot h event s)"
proof -
  assume s: "stream_ok s"
  have "stream_ok (s\<lparr>lv_stream := (lv_stream s)\<lparr>cursor := c, needsSnapshot := True\<rparr>, lv_sequence := c\<rparr>)"
    if "cursor (lv_stream s) \<le> c" for c
    using stream_okD [OF s] stream_inv_cursor(2) [of "lv_stream s" c True] that by (simp add: stream_ok_def stream_part_def)
  then show ?thesis by (simp add: subscribed_snapshot_def Let_def stream_refresh)
qed

lemma stream_subscribed_accepted:
  assumes s: "stream_ok s" and a: "acceptEvent (lv_stream s) v = Accepted st c e"
  shows "stream_ok (subscribed_accepted h tid st c e s)"
proof -
  have inv: "stream_inv st" using acceptEvent_inv [OF stream_okD(1) [OF s], of v] by (simp add: a)
  have ctl: "stream_ok (s\<lparr>lv_stream := st, lv_sequence := cursor st\<rparr>)" if "c \<noteq> None"
    using that acceptEvent_Accepted_Some(3) [of "lv_stream s" v st _ e] a inv stream_okD [OF s]
    by (auto simp: stream_ok_def stream_part_def)
  have ord: "stream_ok (s\<lparr>lv_stream := st, lv_sequence := cursor st, lv_events := events st\<rparr>)"
    using inv by (simp add: stream_ok_def stream_part_def)
  show ?thesis
    using ctl ord by (simp add: subscribed_accepted_def subscribed_error_def scheduleLiveRefresh_def Let_def stream_refresh
        split: option.split control.split)
qed

lemma stream_event: "stream_ok s \<Longrightarrow> stream_ok (handleSubscribedEvent h tid event s)"
  by (simp add: handleSubscribedEvent_def stream_subscribed_snapshot subscribed_error_def Let_def
      stream_subscribed_accepted split: accept_result.split)


section \<open>The poll loop never stalls\<close>

text \<open>
  While polling is active a chat is selected and either its timer is armed or one tick of the
  current generation is under way, with exactly one open call; nothing else is armed.
\<close>

type_synonym poll_view = "bool \<times> bool \<times> nat \<times> (nat \<times> nat) option \<times> bool \<times> (nat \<times> nat) list \<times> nat option multiset"

definition gens_ok :: "nat \<Rightarrow> nat option multiset \<Rightarrow> bool" where
  "gens_ok g gens \<longleftrightarrow> (\<forall>x. Some x \<in># gens \<longrightarrow> x \<le> g)"

fun poll_ok :: "poll_view \<Rightarrow> bool" where
  "poll_ok (has, act, g, timer, fly, armed, gens) \<longleftrightarrow>
     armed = (case timer of None \<Rightarrow> [] | Some t \<Rightarrow> [t])
     \<and> (timer \<noteq> None \<longrightarrow> fst (the timer) = g \<and> act \<and> \<not> fly) \<and> (act \<longrightarrow> has \<and> (timer \<noteq> None \<or> fly)) \<and> (fly \<longrightarrow> act)
     \<and> count gens (Some g) = (if fly then 1 else 0) \<and> gens_ok g gens"

text \<open>In the middle of a tick of generation \<open>n\<close>: its call has been answered and the next step is not yet taken.\<close>

fun poll_at :: "nat \<Rightarrow> poll_view \<Rightarrow> bool" where
  "poll_at n (has, act, g, timer, fly, armed, gens) \<longleftrightarrow> n \<le> g \<and>
     (if n = g \<and> fly then act \<and> has \<and> timer = None \<and> armed = [] \<and> count gens (Some g) = 0 \<and> gens_ok g gens
      else poll_ok (has, act, g, timer, fly, armed, gens) \<and> n \<noteq> g)"

definition polling_ok :: "live \<Rightarrow> bool" where
  "polling_ok s \<longleftrightarrow> poll_ok (poll_part s)"

definition tick_at :: "nat \<Rightarrow> live \<Rightarrow> bool" where
  "tick_at n s \<longleftrightarrow> poll_at n (poll_part s)"

definition poll_owed :: "follow_up \<Rightarrow> live \<Rightarrow> bool" where
  "poll_owed k s = (case follow_generation k of None \<Rightarrow> polling_ok s | Some n \<Rightarrow> tick_at n s)"

lemma polling_frame [simp]:
  "polling_ok (emit es s) = polling_ok s" "polling_ok (show_error h err src s) = polling_ok s"
  "polling_ok (stopEventSubscription p s) = polling_ok s" "polling_ok (startEventSubscription p s) = polling_ok s"
  "polling_ok (scheduleEventReconnect tid s) = polling_ok s" "polling_ok (retireEventSubscription p s) = polling_ok s"
  "polling_ok (subscription_settled x ok s) = polling_ok s" "polling_ok (reconnect_fires tid s) = polling_ok s"
  "polling_ok (resetEventState s) = polling_ok s" "polling_ok (set_stream st s) = polling_ok s"
  "polling_ok (clear_chat s) = polling_ok s" "polling_ok (s\<lparr>lv_activeThread := v0\<rparr>) = polling_ok s"
  "polling_ok (s\<lparr>lv_graceUntil := v1\<rparr>) = polling_ok s"
  "polling_ok (s\<lparr>lv_lastStatus := v2\<rparr>) = polling_ok s"
  "polling_ok (s\<lparr>lv_snapshot := v3\<rparr>) = polling_ok s"
  "polling_ok (s\<lparr>lv_error := v4\<rparr>) = polling_ok s"
  "polling_ok (s\<lparr>lv_connected := v5\<rparr>) = polling_ok s"
  "polling_ok (s\<lparr>lv_subscribable := v6\<rparr>) = polling_ok s"
  "polling_ok (s\<lparr>lv_refreshTimer := v7\<rparr>) = polling_ok s"
  "polling_ok (s\<lparr>lv_reconnectTimer := v8\<rparr>) = polling_ok s"
  "polling_ok (s\<lparr>lv_stream := v9\<rparr>) = polling_ok s"
  "polling_ok (s\<lparr>lv_sequence := v10\<rparr>) = polling_ok s"
  "polling_ok (s\<lparr>lv_events := v11\<rparr>) = polling_ok s"
  by (simp_all add: polling_ok_def live_frame)

lemma tick_frame [simp]:
  "tick_at n (emit es s) = tick_at n s" "tick_at n (show_error h err src s) = tick_at n s"
  "tick_at n (stopEventSubscription p s) = tick_at n s" "tick_at n (startEventSubscription p s) = tick_at n s"
  "tick_at n (scheduleEventReconnect tid s) = tick_at n s" "tick_at n (retireEventSubscription p s) = tick_at n s"
  "tick_at n (subscription_settled x ok s) = tick_at n s" "tick_at n (reconnect_fires tid s) = tick_at n s"
  "tick_at n (resetEventState s) = tick_at n s" "tick_at n (set_stream st s) = tick_at n s"
  "tick_at n (clear_chat s) = tick_at n s" "tick_at n (s\<lparr>lv_activeThread := v0\<rparr>) = tick_at n s"
  "tick_at n (s\<lparr>lv_graceUntil := v1\<rparr>) = tick_at n s"
  "tick_at n (s\<lparr>lv_lastStatus := v2\<rparr>) = tick_at n s"
  "tick_at n (s\<lparr>lv_snapshot := v3\<rparr>) = tick_at n s" "tick_at n (s\<lparr>lv_error := v4\<rparr>) = tick_at n s"
  "tick_at n (s\<lparr>lv_connected := v5\<rparr>) = tick_at n s"
  "tick_at n (s\<lparr>lv_subscribable := v6\<rparr>) = tick_at n s"
  "tick_at n (s\<lparr>lv_refreshTimer := v7\<rparr>) = tick_at n s"
  "tick_at n (s\<lparr>lv_reconnectTimer := v8\<rparr>) = tick_at n s"
  "tick_at n (s\<lparr>lv_stream := v9\<rparr>) = tick_at n s" "tick_at n (s\<lparr>lv_sequence := v10\<rparr>) = tick_at n s"
  "tick_at n (s\<lparr>lv_events := v11\<rparr>) = tick_at n s"
  by (simp_all add: tick_at_def live_frame)

lemma owed_frame [simp]:
  "poll_owed k (emit es s) = poll_owed k s" "poll_owed k (show_error h err src s) = poll_owed k s"
  "poll_owed k (stopEventSubscription p s) = poll_owed k s" "poll_owed k (startEventSubscription p s) = poll_owed k s"
  "poll_owed k (scheduleEventReconnect tid s) = poll_owed k s" "poll_owed k (retireEventSubscription p s) = poll_owed k s"
  "poll_owed k (subscription_settled x ok s) = poll_owed k s" "poll_owed k (reconnect_fires tid s) = poll_owed k s"
  "poll_owed k (resetEventState s) = poll_owed k s" "poll_owed k (set_stream st s) = poll_owed k s"
  "poll_owed k (clear_chat s) = poll_owed k s" "poll_owed k (s\<lparr>lv_activeThread := v0\<rparr>) = poll_owed k s"
  "poll_owed k (s\<lparr>lv_graceUntil := v1\<rparr>) = poll_owed k s"
  "poll_owed k (s\<lparr>lv_lastStatus := v2\<rparr>) = poll_owed k s"
  "poll_owed k (s\<lparr>lv_snapshot := v3\<rparr>) = poll_owed k s"
  "poll_owed k (s\<lparr>lv_error := v4\<rparr>) = poll_owed k s"
  "poll_owed k (s\<lparr>lv_connected := v5\<rparr>) = poll_owed k s"
  "poll_owed k (s\<lparr>lv_subscribable := v6\<rparr>) = poll_owed k s"
  "poll_owed k (s\<lparr>lv_refreshTimer := v7\<rparr>) = poll_owed k s"
  "poll_owed k (s\<lparr>lv_reconnectTimer := v8\<rparr>) = poll_owed k s"
  "poll_owed k (s\<lparr>lv_stream := v9\<rparr>) = poll_owed k s"
  "poll_owed k (s\<lparr>lv_sequence := v10\<rparr>) = poll_owed k s"
  "poll_owed k (s\<lparr>lv_events := v11\<rparr>) = poll_owed k s"
  by (simp_all add: poll_owed_def split: option.split)

lemma gens_bound: "gens_ok g gens \<Longrightarrow> count gens (Some (Suc g)) = 0"
  by (metis Suc_n_not_le_n count_eq_zero_iff gens_ok_def)

lemma gens_mono: "gens_ok g gens \<Longrightarrow> g \<le> g' \<Longrightarrow> gens_ok g' gens"
  by (force simp: gens_ok_def)

lemma part_answered:
  "c \<in> set (lv_calls s) \<Longrightarrow> poll_part (s\<lparr>lv_calls := remove1 c (lv_calls s)\<rparr>) =
     (case poll_part s of (has, act, g, timer, fly, armed, gens) \<Rightarrow> (has, act, g, timer, fly, armed, gens - {#call_generation c#}))"
  by (simp add: poll_part_def image_mset_Diff)

lemma part_called:
  "poll_part (add_call c s) =
     (case poll_part s of (has, act, g, timer, fly, armed, gens) \<Rightarrow> (has, act, g, timer, fly, armed, add_mset (call_generation c) gens))"
  by (simp add: poll_part_def add_call_def)

lemma gens_answered: "gens_ok g gens \<Longrightarrow> gens_ok g (gens - {#x#})"
  by (meson gens_ok_def in_diffD)

lemma tick_answered:
  assumes "polling_ok s" "c \<in> set (lv_calls s)" "call_generation c = Some n"
  shows "tick_at n (s\<lparr>lv_calls := remove1 c (lv_calls s)\<rparr>)"
proof -
  obtain has act g timer fly armed gens where p: "poll_part s = (has, act, g, timer, fly, armed, gens)"
    using prod_cases7 by blast
  have "gens = image_mset call_generation (mset (lv_calls s))" using p by (simp add: poll_part_def)
  then have "Some n \<in># gens" using imageI [OF assms(2), of call_generation] by (simp add: assms(3))
  moreover have "count (gens - {#Some n#}) (Some g) = (if n = g then count gens (Some g) - 1 else count gens (Some g))" by simp
  moreover have "n \<le> g" "n = g \<longrightarrow> fly"
    using assms(1) calculation(1) by (auto simp: polling_ok_def p gens_ok_def simp flip: count_greater_zero_iff split: if_splits)
  ultimately show ?thesis
    using assms(1) by (cases timer) (auto simp: tick_at_def polling_ok_def part_answered [OF assms(2)] assms(3) p gens_answered)
qed

lemma polling_answered:
  assumes "polling_ok s" "c \<in> set (lv_calls s)" "call_generation c = None"
  shows "polling_ok (s\<lparr>lv_calls := remove1 c (lv_calls s)\<rparr>)"
  using assms(1)
  by (cases "poll_part s" rule: prod_cases7) (simp add: polling_ok_def part_answered [OF assms(2)] assms(3) gens_answered)

lemma owed_answered:
  assumes "polling_ok s" "c \<in> set (lv_calls s)" "call_generation c = follow_generation k"
  shows "poll_owed k (s\<lparr>lv_calls := remove1 c (lv_calls s)\<rparr>)"
  using assms tick_answered polling_answered by (auto simp: poll_owed_def split: option.split)

lemma tick_called: "tick_at n s \<Longrightarrow> call_generation c = Some n \<Longrightarrow> polling_ok (add_call c s)"
  by (cases "poll_part s" rule: prod_cases7) (auto simp: tick_at_def polling_ok_def part_called gens_ok_def split: if_splits)

lemma polling_called: "polling_ok s \<Longrightarrow> call_generation c = None \<Longrightarrow> polling_ok (add_call c s)"
  by (cases "poll_part s" rule: prod_cases7) (auto simp: polling_ok_def part_called gens_ok_def split: if_splits)

lemma owed_called: "poll_owed k s \<Longrightarrow> call_generation c = follow_generation k \<Longrightarrow> polling_ok (add_call c s)"
  by (auto simp: poll_owed_def tick_called polling_called split: option.splits)


lemma polling_stop: "polling_ok s \<Longrightarrow> polling_ok (stopPolling s) \<and> \<not> lv_pollActive (stopPolling s)"
  using gens_bound [of "lv_pollGeneration s"] gens_mono [of "lv_pollGeneration s" _ "Suc (lv_pollGeneration s)"]
  by (auto simp: polling_ok_def poll_part_def stopPolling_def split: option.splits)

lemma polling_start:
  assumes "polling_ok s"
  shows "polling_ok (startPolling s)"
proof -
  define s1 where "s1 = stopPolling s"
  have ok: "polling_ok s1" "\<not> lv_pollActive s1" using polling_stop [OF assms] by (simp_all add: s1_def)
  have "polling_ok (scheduleNextPoll 250 (Suc (lv_pollGeneration s1))
      (s1\<lparr>lv_pollActive := True, lv_pollGeneration := Suc (lv_pollGeneration s1), lv_lastStatus := 0\<rparr>))" if "lv_thread s1 \<noteq> None"
    using ok that gens_bound [of "lv_pollGeneration s1"] gens_mono [of "lv_pollGeneration s1" _ "Suc (lv_pollGeneration s1)"]
    by (auto simp: polling_ok_def poll_part_def scheduleNextPoll_def split: option.splits)
  then show ?thesis using ok by (simp add: startPolling_def s1_def [symmetric] Let_def)
qed

lemma polling_end: "tick_at n s \<Longrightarrow> polling_ok (poll_end h n s)"
  by (auto simp: tick_at_def polling_ok_def poll_part_def poll_end_def scheduleNextPoll_def Let_def split: if_splits)

lemma polling_after: "poll_owed k s \<Longrightarrow> polling_ok (after_refresh h k s)"
  by (cases k) (simp_all add: poll_owed_def after_refresh_def polling_start polling_end)

lemma polling_refresh: "poll_owed k s \<Longrightarrow> polling_ok (refreshActiveThread h opts k s)"
  by (simp add: refreshActiveThread_def Let_def polling_after owed_called split: option.split)

lemma polling_refresh_none: "polling_ok s \<Longrightarrow> follow_generation k = None \<Longrightarrow> polling_ok (refreshActiveThread h opts k s)"
  by (simp add: polling_refresh poll_owed_def)

lemma polling_refresh_selected: "polling_ok s \<Longrightarrow> polling_ok (refreshSelectedThreadAndStartPolling h opts s)"
  by (simp add: refreshSelectedThreadAndStartPolling_def polling_refresh_none split: option.split)

lemma polling_select: "polling_ok s \<Longrightarrow> polling_ok (setSelectedThread f n s)"
  using polling_stop [of s]
  by (auto simp: setSelectedThread_def Let_def polling_ok_def poll_part_def emit_def stopPolling_def)

lemma owed_failed [simp]: "poll_owed k (refresh_failed h c opts err s) = poll_owed k s"
  by (simp add: refresh_failed_def)

lemma owed_applied [simp]: "poll_owed k (refresh_applied c opts thread evs st interactions artifacts s) = poll_owed k s"
  by (simp add: refresh_applied_def Let_def)

lemma polling_fetched:
  assumes "polling_ok s" "RefreshFetch c opts k \<in> set (lv_calls s)"
  shows "polling_ok (refresh_fetched h c opts k answer s)"
  using owed_answered [OF assms, of k]
  by (auto simp: refresh_fetched_def Let_def polling_after owed_called split: sum.split)

lemma polling_listed:
  assumes "polling_ok s" "RefreshArtifacts c opts k thread evs st interactions \<in> set (lv_calls s)"
  shows "polling_ok (refresh_listed h c opts k thread evs st interactions answer s)"
  using owed_answered [OF assms, of k]
  by (auto simp: refresh_listed_def Let_def intro!: polling_after split: sum.split)

lemma polling_recover: "tick_at g s \<Longrightarrow> polling_ok (recover_snapshot h g r s)"
  by (simp add: recover_snapshot_def Let_def polling_refresh poll_owed_def)

lemma polling_tick_end:
  "tick_at (tk_generation t) s \<Longrightarrow> polling_ok (tick_failed h t err s)"
  "tick_at (tk_generation t) s \<Longrightarrow> polling_ok (tick_done h t s)"
  by (simp_all add: tick_failed_def tick_done_def Let_def polling_end)

lemma polling_tick_assign: "tick_at (tk_generation t) s \<Longrightarrow> polling_ok (tick_assign h t n thread s)"
  by (simp add: tick_assign_def Let_def polling_tick_end polling_end tick_called)

lemma polling_tick_thread: "tick_at (tk_generation t) s \<Longrightarrow> polling_ok (tick_thread h t thread s)"
  by (simp add: tick_thread_def Let_def polling_tick_end polling_tick_assign tick_called)

lemma polling_tick_merged: "tick_at (tk_generation t) s \<Longrightarrow> polling_ok (tick_merged h t st thread i s)"
  by (simp add: tick_merged_def Let_def polling_recover polling_tick_thread tick_called)

lemma polling_tick_events: "tick_at (tk_generation t) s \<Longrightarrow> polling_ok (tick_events h t st thread evs s)"
  by (simp add: tick_events_def Let_def polling_refresh poll_owed_def polling_tick_merged)

lemma polling_run:
  assumes "tick_at g (s\<lparr>lv_pollInFlight := True\<rparr>)" "lv_thread s \<noteq> None" "lv_pollActive s" "g = lv_pollGeneration s"
    "\<not> lv_pollInFlight s"
  shows "polling_ok (runPollTick h g s)"
  using assms by (auto simp: runPollTick_def Let_def intro!: polling_recover tick_called)

lemma polling_fires:
  assumes s: "polling_ok s" and t: "t \<in> set (lv_armed s)"
  shows "polling_ok (poll_fires h t s)"
proof -
  define s1 where "s1 = s\<lparr>lv_armed := remove1 t (lv_armed s), lv_pollTimer := None\<rparr>"
  have f: "lv_pollTimer s = Some t" "fst t = lv_pollGeneration s" "lv_pollActive s" "\<not> lv_pollInFlight s" "lv_thread s \<noteq> None"
    using s t by (auto simp: polling_ok_def poll_part_def split: option.splits)
  then have at: "tick_at (fst t) (s1\<lparr>lv_pollInFlight := True\<rparr>)"
    using s by (simp add: s1_def tick_at_def polling_ok_def poll_part_def)
  have "polling_ok (runPollTick h (fst t) s1)"
    using f by (intro polling_run [OF at]) (simp_all add: s1_def)
  then show ?thesis using f by (simp add: poll_fires_def Let_def s1_def)
qed


section \<open>The invariant\<close>

definition live_inv :: "live \<Rightarrow> bool" where
  "live_inv s \<longleftrightarrow> stream_ok s \<and> subscribed_ok s \<and> polling_ok s"

lemma polling_event: "polling_ok s \<Longrightarrow> polling_ok (handleSubscribedEvent h tid event s)"
  by (simp add: handleSubscribedEvent_def subscribed_snapshot_def subscribed_error_def subscribed_accepted_def Let_def
      scheduleLiveRefresh_def polling_refresh_none split: accept_result.split option.split control.split)

lemma live_inv_initial: "initial_live s \<Longrightarrow> live_inv s"
  using create_inv [of JUndefined NaN]
  by (simp add: initial_live_def live0_def live_inv_def stream_ok_def subscribed_ok_def polling_ok_def part_defs gens_ok_def
      createEventStreamState_def)

lemma live_inv_background: "background_step s t \<Longrightarrow> live_inv s \<Longrightarrow> live_inv t"
proof (induction rule: background_step.induct)
  case (refresh_answer c opts k s h answer)
  then show ?case by (simp add: live_inv_def stream_fetched subscribed_fetched polling_fetched)
next
  case (refresh_list c opts k thread evs st interactions s h answer)
  then show ?case by (simp add: live_inv_def stream_listed subscribed_listed polling_listed)
next
  case (tick_answer t s h answer3)
  then have "tick_at (tk_generation t) (s\<lparr>lv_calls := remove1 (TickFetch t) (lv_calls s)\<rparr>)"
    by (intro tick_answered) (simp_all add: live_inv_def)
  with tick_answer show ?case
    by (auto simp: live_inv_def tick_fetched_def Let_def polling_end polling_tick_end polling_tick_events polling_tick_merged
        stream_tick_end stream_tick_events stream_tick_merged subscribed_tick_end subscribed_tick_events subscribed_tick_merged
        split: sum.split)
next
  case (tick_interactions_answer t thread s h answer)
  then have "tick_at (tk_generation t) (s\<lparr>lv_calls := remove1 (TickInteractions t thread) (lv_calls s)\<rparr>)"
    by (intro tick_answered) (simp_all add: live_inv_def)
  with tick_interactions_answer show ?case
    by (auto simp: live_inv_def tick_interactions_def Let_def polling_end polling_tick_end polling_tick_thread
        stream_tick_end stream_tick_thread subscribed_tick_end subscribed_tick_thread split: sum.split)
next
  case (tick_thread_answer t s h answer)
  then have "tick_at (tk_generation t) (s\<lparr>lv_calls := remove1 (TickThread t) (lv_calls s)\<rparr>)"
    by (intro tick_answered) (simp_all add: live_inv_def)
  with tick_thread_answer show ?case
    by (auto simp: live_inv_def tick_thread_fetched_def Let_def polling_tick_end polling_tick_assign
        stream_tick_end stream_tick_assign subscribed_tick_end subscribed_tick_assign split: sum.split)
next
  case (tick_list t s h answer)
  then have "tick_at (tk_generation t) (s\<lparr>lv_calls := remove1 (TickArtifacts t) (lv_calls s)\<rparr>)"
    by (intro tick_answered) (simp_all add: live_inv_def)
  with tick_list show ?case
    by (auto simp: live_inv_def tick_listed_def Let_def polling_end polling_tick_end stream_tick_end subscribed_tick_end
        split: sum.split)
next
  case (live_answer c revision s h answer3)
  then have "polling_ok (s\<lparr>lv_calls := remove1 (LiveFetch c revision) (lv_calls s)\<rparr>)"
    by (intro polling_answered) (simp_all add: live_inv_def)
  with live_answer show ?case
    by (auto simp: live_inv_def live_fetched_def live_failed_def Let_def polling_called split: sum.split)
next
  case (live_list c revision thread st interactions s h answer)
  then have "polling_ok (s\<lparr>lv_calls := remove1 (LiveArtifacts c revision thread st interactions) (lv_calls s)\<rparr>)"
    by (intro polling_answered) (simp_all add: live_inv_def)
  with live_list show ?case
    by (auto simp: live_inv_def live_listed_def live_failed_def Let_def split: sum.split)
next
  case (poll_timer timer s h)
  then show ?case
    by (simp add: live_inv_def polling_fires) (simp add: poll_fires_def Let_def stream_run subscribed_run)
next
  case (reconnect_timer s threadId ms)
  then show ?case by (simp add: live_inv_def subscribed_fires)
next
  case (live_timer s c revision)
  then show ?case by (simp add: live_inv_def live_fires_def Let_def polling_called)
next
  case (subscribed x s ok)
  then show ?case by (simp add: live_inv_def subscribed_settled)
next
  case (delivery x s h event)
  then show ?case by (simp add: live_inv_def event_delivered_def stream_event subscribed_event polling_event)
qed


lemma inv_clear_chat: "subscribed_ok s \<Longrightarrow> polling_ok s \<Longrightarrow> live_inv (clear_chat s)"
  by (simp add: live_inv_def)

lemma inv_refresh_selected: "live_inv s \<Longrightarrow> live_inv (refreshSelectedThreadAndStartPolling h opts s)"
  by (simp add: live_inv_def stream_refresh_selected subscribed_refresh_selected polling_refresh_selected)

lemma live_inv_fields [simp]:
  "live_inv (s\<lparr>lv_activeThread := v\<rparr>) = live_inv s" "live_inv (s\<lparr>lv_graceUntil := n\<rparr>) = live_inv s"
  "live_inv (s\<lparr>lv_error := e\<rparr>) = live_inv s" "live_inv (s\<lparr>lv_subscribable := b\<rparr>) = live_inv s"
  "live_inv (s\<lparr>lv_connected := b\<rparr>) = live_inv s" "live_inv (emit es s) = live_inv s"
  "live_inv (show_error h err src s) = live_inv s"
  by (simp_all add: live_inv_def)

lemma inv_stop: "live_inv s \<Longrightarrow> live_inv (stopEventSubscription p s)"
  by (simp add: live_inv_def subscribed_stop)

lemma inv_start: "live_inv s \<Longrightarrow> live_inv (startEventSubscription p s)"
  by (simp add: live_inv_def subscribed_start)

lemma inv_stop_polling: "live_inv s \<Longrightarrow> live_inv (stopPolling s)"
  by (simp add: live_inv_def polling_stop)

lemma inv_set_selected: "live_inv s \<Longrightarrow> live_inv (setSelectedThread f n s)"
  by (simp add: live_inv_def polling_select)

lemma live_inv_cleared: "live_inv s \<Longrightarrow> live_inv (clear_chat s)"
  by (simp add: live_inv_def)

lemmas inv_ops = inv_stop inv_start inv_stop_polling inv_set_selected live_inv_cleared inv_refresh_selected

lemma inv_reset: "live_inv s \<Longrightarrow> live_inv (resetEventState s)"
  by (simp add: live_inv_def)

lemma live_inv_foreground: "foreground_step s t \<Longrightarrow> live_inv s \<Longrightarrow> live_inv t"
proof (induction rule: foreground_step.induct)
  case (select s h threadId)
  then show ?case by (simp add: selectThread_def Let_def inv_ops inv_reset)
next
  case (adopt threadId s h thread)
  then have "live_inv (startEventSubscription False
      ((clear_chat (emit [SetProject (dot thread ''project_id''), RetireInteractions (Some threadId), SyncThreadList thread]
          (setSelectedThread False (Some threadId) (stopEventSubscription False s))))
        \<lparr>lv_activeThread := thread, lv_graceUntil := h_now h + CREATED_THREAD_REFRESH_GRACE_MS\<rparr>))"
    by (simp add: inv_ops)
  then show ?case by (simp add: adoptCreatedThread_def Let_def live_inv_def polling_start)
next
  case (clear_project replacement s h)
  then show ?case by (auto simp: clearSelectionForProject_def Let_def inv_ops split: option.split)
next
  case (leave_project s)
  then show ?case by (simp add: deselect_for_project_def inv_ops)
next
  case (refresh s h)
  then show ?case by (simp add: live_inv_def stream_refresh subscribed_refresh polling_refresh_none)
next
  case (attach s)
  then show ?case by (simp add: connect_def Let_def inv_ops)
next
  case (detach s)
  then show ?case by (simp add: disconnect_def inv_ops)
qed simp_all

lemma live_inv_reselect: "reselect_step s t \<Longrightarrow> live_inv s \<Longrightarrow> live_inv t"
proof (induction rule: reselect_step.induct)
  case (replace replacement s h)
  then show ?case by (simp add: replace_selection_def Let_def inv_ops split: option.split)
next
  case (load firstActive s h report listed)
  then show ?case by (simp add: load_selection_def Let_def inv_ops split: option.split)
qed

interpretation lv: inductive_invariant initial_live live_step live_reachable live_inv
proof unfold_locales
  show "P s" if "live_reachable s" "\<And>s. initial_live s \<Longrightarrow> P s"
      "\<And>s t. live_reachable s \<Longrightarrow> P s \<Longrightarrow> live_step s t \<Longrightarrow> P t" for P s
    using that by (induction rule: live_reachable.induct) blast+
qed (auto intro: live_reachable.intros live_inv_initial live_inv_background live_inv_foreground live_inv_reselect
    simp: live_step_def)

section \<open>Events of the selected chat\<close>

text \<open>Every event the panel shows names the selected chat or none.\<close>

definition scoped :: "live \<Rightarrow> bool" where
  "scoped s \<longleftrightarrow> (\<forall>tid. lv_thread s = Some tid \<longrightarrow> (\<forall>e\<in>set (lv_events s). in_thread tid e))"

lemma scoped_frame [simp]:
  "scoped (emit es s) = scoped s" "scoped (show_error h err src s) = scoped s" "scoped (add_call c s) = scoped s"
  "scoped (stopPolling s) = scoped s" "scoped (startPolling s) = scoped s" "scoped (scheduleNextPoll ms g s) = scoped s"
  "scoped (poll_end h g s) = scoped s" "scoped (after_refresh h k s) = scoped s"
  "scoped (stopEventSubscription p s) = scoped s" "scoped (startEventSubscription p s) = scoped s"
  "scoped (scheduleEventReconnect tid s) = scoped s" "scoped (retireEventSubscription p s) = scoped s"
  "scoped (subscription_settled x ok s) = scoped s" "scoped (reconnect_fires tid s) = scoped s"
  "scoped (s\<lparr>lv_activeThread := v0\<rparr>) = scoped s" "scoped (s\<lparr>lv_graceUntil := v1\<rparr>) = scoped s"
  "scoped (s\<lparr>lv_lastStatus := v2\<rparr>) = scoped s" "scoped (s\<lparr>lv_snapshot := v3\<rparr>) = scoped s"
  "scoped (s\<lparr>lv_error := v4\<rparr>) = scoped s" "scoped (s\<lparr>lv_connected := v5\<rparr>) = scoped s"
  "scoped (s\<lparr>lv_subscribable := v6\<rparr>) = scoped s" "scoped (s\<lparr>lv_refreshTimer := v7\<rparr>) = scoped s"
  "scoped (s\<lparr>lv_calls := v8\<rparr>) = scoped s" "scoped (s\<lparr>lv_armed := v9\<rparr>) = scoped s"
  "scoped (s\<lparr>lv_pollTimer := v10\<rparr>) = scoped s" "scoped (s\<lparr>lv_pollInFlight := v11\<rparr>) = scoped s"
  "scoped (s\<lparr>lv_reconnectTimer := v12\<rparr>) = scoped s" "scoped (s\<lparr>lv_sequence := v13\<rparr>) = scoped s"
  "scoped (s\<lparr>lv_stream := v14\<rparr>) = scoped s"
  by (simp_all add: scoped_def emit_def show_error_def add_call_def stopPolling_def startPolling_def scheduleNextPoll_def poll_end_def
      after_refresh_def stopEventSubscription_def startEventSubscription_def scheduleEventReconnect_def retireEventSubscription_def
      close_subscription_def subscription_settled_def reconnect_fires_def Let_def split: option.split follow_up.split)

lemma thread_frame [simp]:
  "lv_thread (emit es s) = lv_thread s" "lv_thread (show_error h err src s) = lv_thread s" "lv_thread (set_stream st s) = lv_thread s"
  "lv_thread (stopEventSubscription p s) = lv_thread s" "lv_thread (setSelectedThread f n s) = n"
  by (simp_all add: emit_def show_error_def set_stream_def stopEventSubscription_def close_subscription_def
      setSelectedThread_def Let_def)

lemma scoped_reset [simp]: "scoped (resetEventState s)" "scoped (clear_chat s)"
  by (simp_all add: scoped_def resetEventState_def clear_chat_def emit_def Let_def)























section \<open>The banner\<close>

lemma error_frame [simp]:
  "lv_error (emit es s) = lv_error s" "lv_error (add_call c s) = lv_error s" "lv_error (stopPolling s) = lv_error s"
  "lv_error (startPolling s) = lv_error s" "lv_error (scheduleNextPoll ms g s) = lv_error s"
  "lv_error (poll_end h g s) = lv_error s" "lv_error (after_refresh h k s) = lv_error s"
  "lv_error (stopEventSubscription p s) = lv_error s" "lv_error (startEventSubscription p s) = lv_error s"
  "lv_error (scheduleEventReconnect tid s) = lv_error s" "lv_error (retireEventSubscription p s) = lv_error s"
  "lv_error (subscription_settled x ok s) = lv_error s" "lv_error (reconnect_fires tid s) = lv_error s"
  "lv_error (setSelectedThread f n s) = lv_error s" "lv_error (resetEventState s) = lv_error s"
  "lv_error (set_stream st s) = lv_error s" "lv_error (clear_chat s) = lv_error s"
  "lv_error (refreshActiveThread h opts k s) = lv_error s" "lv_error (recover_snapshot h g r s) = lv_error s"
  "lv_error (runPollTick h g s) = lv_error s" "lv_error (poll_fires h t s) = lv_error s"
  "lv_error (live_fires ctx rev0 s) = lv_error s"
  by (simp_all add: emit_def add_call_def stopPolling_def startPolling_def scheduleNextPoll_def poll_end_def after_refresh_def
      stopEventSubscription_def startEventSubscription_def scheduleEventReconnect_def retireEventSubscription_def
      close_subscription_def subscription_settled_def reconnect_fires_def setSelectedThread_def resetEventState_def set_stream_def
      clear_chat_def refreshActiveThread_def recover_snapshot_def runPollTick_def poll_fires_def live_fires_def Let_def
      split: option.split follow_up.split)


lemma error_failed [simp]:
  "foreign ''poll'' (lv_error s) \<Longrightarrow> ro_errorSource opts = Some ''poll'' \<Longrightarrow> lv_error (refresh_failed h c opts err s) = lv_error s"
  by (simp add: refresh_failed_def)

lemma error_applied [simp]:
  "foreign ''poll'' (lv_error s) \<Longrightarrow> ro_errorSource opts = Some ''poll'' \<Longrightarrow>
     lv_error (refresh_applied c opts thread evs st interactions artifacts s) = lv_error s"
  by (simp add: refresh_applied_def Let_def)

lemma error_tick [simp]:
  "foreign ''poll'' (lv_error s) \<Longrightarrow> lv_error (tick_failed h t err s) = lv_error s"
  "foreign ''poll'' (lv_error s) \<Longrightarrow> lv_error (tick_done h t s) = lv_error s"
  "foreign ''poll'' (lv_error s) \<Longrightarrow> lv_error (live_failed h c n err s) = lv_error s"
  by (simp_all add: tick_failed_def tick_done_def live_failed_def Let_def)

lemma error_tick_assign [simp]: "foreign ''poll'' (lv_error s) \<Longrightarrow> lv_error (tick_assign h t n thread s) = lv_error s"
  by (simp add: tick_assign_def Let_def)

lemma error_tick_thread [simp]: "foreign ''poll'' (lv_error s) \<Longrightarrow> lv_error (tick_thread h t thread s) = lv_error s"
  by (simp add: tick_thread_def Let_def)

lemma error_tick_merged [simp]: "foreign ''poll'' (lv_error s) \<Longrightarrow> lv_error (tick_merged h t st thread i s) = lv_error s"
  by (simp add: tick_merged_def Let_def)

lemma error_tick_events [simp]: "foreign ''poll'' (lv_error s) \<Longrightarrow> lv_error (tick_events h t st thread evs s) = lv_error s"
  by (simp add: tick_events_def Let_def)

lemma error_event [simp]: "foreign ''poll'' (lv_error s) \<Longrightarrow> lv_error (handleSubscribedEvent h tid event s) = lv_error s"
  by (simp add: handleSubscribedEvent_def subscribed_snapshot_def subscribed_error_def subscribed_accepted_def Let_def
      scheduleLiveRefresh_def split: accept_result.split option.split control.split)

section \<open>After a refresh\<close>

lemma applied_fields:
  "lv_thread (refresh_applied c opts thread evs st interactions artifacts s) = lv_thread s"
  "lv_selection (refresh_applied c opts thread evs st interactions artifacts s) = lv_selection s"
  "lv_connected (refresh_applied c opts thread evs st interactions artifacts s) = lv_connected s"
  "lv_thread s = Some tid \<Longrightarrow> lv_subscribable s \<Longrightarrow> lv_subPending (refresh_applied c opts thread evs st interactions artifacts s)"
  by (simp_all add: refresh_applied_def emit_def set_stream_def startEventSubscription_def stopEventSubscription_def
      close_subscription_def Let_def split: option.split)

lemma start_fields:
  "lv_thread s = Some tid \<Longrightarrow> lv_pollActive (startPolling s)" "lv_thread s = Some tid \<Longrightarrow> lv_armed (startPolling s) \<noteq> []"
  "lv_connected (startPolling s) = lv_connected s" "lv_subPending (startPolling s) = lv_subPending s"
  by (simp_all add: startPolling_def stopPolling_def scheduleNextPoll_def Let_def)

section \<open>A sample run\<close>

definition sample_host :: host where
  "sample_host = \<lparr>h_fmt = (\<lambda>r. []), h_now = 0, h_hidden = False, h_typeError = JObj []\<rparr>"

text \<open>A chat is created, its subscription is confirmed and an event arrives.\<close>

definition live1 :: live where
  "live1 = adoptCreatedThread sample_host (js ''t1'') (JObj []) live0"

definition sample_sub :: subscription where
  "sample_sub = \<lparr>sb_generation = 2, sb_thread = js ''t1''\<rparr>"

definition live2 :: live where
  "live2 = subscription_settled sample_sub True live1"

definition live3 :: live where
  "live3 = event_delivered sample_host sample_sub (sample_event 7 ''a'' ''message.created'') live2"

lemma live1_fields:
  "lv_thread live1 = Some (js ''t1'')" "lv_pollActive live1" "lv_armed live1 = [(3, 250)]" "lv_requests live1 = [sample_sub]"
  "lv_subGeneration live1 = 2" "lv_stream live1 = createEventStreamState (jint 0) NaN" "lv_calls live1 = []" "lv_selection live1 = 1"
  "lv_open live1 = []"
  by (simp_all add: live1_def live0_def adoptCreatedThread_def setSelectedThread_def stopEventSubscription_def close_subscription_def
      startEventSubscription_def startPolling_def stopPolling_def scheduleNextPoll_def clear_chat_def resetEventState_def emit_def
      sample_sub_def Let_def)

lemma live2_fields:
  "lv_thread live2 = Some (js ''t1'')" "lv_open live2 = [sample_sub]" "lv_subGeneration live2 = 2"
  "lv_stream live2 = createEventStreamState (jint 0) NaN" "lv_requests live2 = []"
  using live1_fields by (simp_all add: live2_def subscription_settled_def sample_sub_def Let_def)

lemma live3_fields:
  "lv_thread live3 = Some (js ''t1'')" "lv_events live3 = [sample_event 7 ''a'' ''message.created'']"
proof -
  let ?e = "sample_event 7 ''a'' ''message.created''" and ?s = "createEventStreamState (jint 0) NaN"
  have w: "wf_event ?e" by (rule wf_sample_event) (simp_all add: sample_ids MAX_SAFE_def)
  have a: "acceptEvent ?s ?e = Accepted (push ?s ?e) None ?e"
    by (rule acceptEvent_ordinary [OF create_inv _ w]) (simp_all add: createEventStreamState_def control_type_def js_def)
  have p: "events (push ?s ?e) = [?e]"
    by (simp add: push_def createEventStreamState_def slice_last_short event_limit_def stream_limit_def)
  have t: "dot ?e ''type'' = JUndefined" by (simp add: sample_event_def dot_JObj obj_get_def)
  have n: "\<not> needs_refresh ?e"
    by (simp add: needs_refresh_def REFRESH_EVENT_TYPES_def is_interaction_def INTERACTION_EVENT_TYPES_def js_def)
  show "lv_thread live3 = Some (js ''t1'')" "lv_events live3 = [?e]"
    using live2_fields a p t n
    by (simp_all add: live3_def event_delivered_def sample_sub_def handleSubscribedEvent_def in_thread_def subscribed_accepted_def
        Let_def dot_JObj obj_get_def)
qed

lemma sample_steps: "foreground_step live0 live1" "background_step live1 live2" "background_step live2 live3"
proof -
  show "foreground_step live0 live1" unfolding live1_def by (rule adopt) simp
  show "background_step live1 live2" unfolding live2_def by (rule subscribed) (simp add: live1_fields)
  show "background_step live2 live3" unfolding live3_def by (rule delivery) (simp add: live2_fields)
qed

lemma sample_reachable: "live_reachable live1" "live_reachable live2" "live_reachable live3"
  using sample_steps lv.reach_init [of live0] lv.reach_step by (auto simp: initial_live_def live_step_def)

section \<open>Properties\<close>

text \<open>
  C10: The poll loop never stalls and never doubles. In every state the panel can reach,
  while polling is active a chat is selected and either exactly one timer is armed, for the
  current generation, or no timer is armed and exactly one request of the current tick is
  open; while it is not active no timer is armed.
\<close>

theorem poll_loop_alive:
  assumes "live_reachable s"
  shows "(lv_pollActive s \<longrightarrow> lv_thread s \<noteq> None
      \<and> ((\<exists>ms. lv_armed s = [(lv_pollGeneration s, ms)])
         \<or> lv_armed s = [] \<and> length (filter (\<lambda>c. call_generation c = Some (lv_pollGeneration s)) (lv_calls s)) = 1))
    \<and> (\<not> lv_pollActive s \<longrightarrow> lv_armed s = [])"
proof -
  have ok: "poll_ok (poll_part s)" using lv.holds [OF assms] by (simp add: live_inv_def polling_ok_def)
  have "count (image_mset call_generation (mset cs)) g = length (filter (\<lambda>c. call_generation c = g) cs)" for cs g
    by (induction cs) auto
  then show ?thesis using ok by (cases "lv_pollTimer s") (auto simp: poll_part_def split: if_splits)
qed

theorem poll_loop_alive_witness:
  "lv_pollActive live1 \<and> lv_thread live1 \<noteq> None
   \<and> ((\<exists>ms. lv_armed live1 = [(lv_pollGeneration live1, ms)])
      \<or> lv_armed live1 = [] \<and> length (filter (\<lambda>c. call_generation c = Some (lv_pollGeneration live1)) (lv_calls live1)) = 1)"
  using poll_loop_alive [OF sample_reachable(1)] live1_fields(2) by blast

text \<open>
  C11: At most one subscription is open at any time, the panel holds the handle that closes
  it, and it is shown as active exactly then; a request for a new one that is still current
  is the only one and nothing is open beside it. A reconnection waits between half a second
  and thirty seconds, twice as long with every attempt.
\<close>

theorem subscription_exclusive:
  assumes "live_reachable s"
  shows "lv_open s = (case lv_unsubscribe s of None \<Rightarrow> [] | Some x \<Rightarrow> [x])
    \<and> (lv_subActive s \<longleftrightarrow> lv_open s \<noteq> [])
    \<and> (\<forall>x\<in>set (lv_open s). sb_generation x = lv_subGeneration s)
    \<and> (lv_subPending s \<longleftrightarrow> (\<exists>x\<in>set (lv_requests s). sb_generation x = lv_subGeneration s))
    \<and> \<not> (lv_subPending s \<and> lv_subActive s)
    \<and> (\<forall>tid ms. lv_reconnectTimer s = Some (tid, ms) \<longrightarrow>
         ms = min 30000 (500 * 2 ^ (lv_attempt s - 1)) \<and> 1 \<le> lv_attempt s \<and> lv_attempt s \<le> 7 \<and> 500 \<le> ms)"
proof -
  have ok: "sub_ok (sub_part s)" "backoff_ok (backoff_part s)"
    using lv.holds [OF assms] by (simp_all add: live_inv_def subscribed_ok_def)
  have "lv_open s = (case lv_unsubscribe s of None \<Rightarrow> [] | Some x \<Rightarrow> [x])" "lv_subActive s \<longleftrightarrow> lv_unsubscribe s \<noteq> None"
    "\<forall>x. lv_unsubscribe s = Some x \<longrightarrow> sb_generation x = lv_subGeneration s"
    "lv_subPending s \<longleftrightarrow> (\<exists>x\<in>set (lv_requests s). sb_generation x = lv_subGeneration s)"
    "\<forall>x\<in>set (lv_requests s). sb_generation x = lv_subGeneration s \<longrightarrow> lv_unsubscribe s = None"
    using ok(1) unfolding sub_part_def sub_ok.simps by blast+
  moreover have "500 \<le> min 30000 (500 * 2 ^ n :: nat)" for n by simp
  ultimately show ?thesis
    using ok(2) by (auto simp: backoff_part_def reconnect_delay_def split: option.splits)
qed


theorem subscription_exclusive_witness:
  "live_reachable live2 \<and> lv_open live2 = [sample_sub] \<and> lv_subActive live2 \<and> \<not> lv_subPending live2"
  using subscription_exclusive [OF sample_reachable(2)] sample_reachable(2) live2_fields by simp






text \<open>
  A panel that is detached while the refresh of a selected chat is open goes on: when the
  answers come, the detached panel subscribes again and starts polling.
\<close>

theorem detached_panel_resumes:
  assumes "lv_thread s = Some tid" "lv_subscribable s" "isCurrent c s" "\<not> nullish thread"
    and "t = refresh_listed h c opts (ThenPolling tid (lv_selection s)) thread evs st interactions (Inr artifacts)
      (refresh_fetched h c opts (ThenPolling tid (lv_selection s)) (Inr (thread, evs, st, interactions)) (disconnect s))"
  shows "\<not> lv_connected t \<and> lv_pollActive t \<and> lv_armed t \<noteq> [] \<and> lv_subPending t"
proof -
  let ?k = "ThenPolling tid (lv_selection s)"
  define d where "d = disconnect s"
  define d1 where "d1 = refresh_fetched h c opts ?k (Inr (thread, evs, st, interactions)) d"
  have d: "isCurrent c d" "lv_thread d = Some tid" "lv_selection d = lv_selection s" "lv_subscribable d" "\<not> lv_connected d"
    using assms(1-3) by (simp_all add: d_def disconnect_def isCurrent_def threadSelectionIsCurrent_def stopEventSubscription_def
        close_subscription_def stopPolling_def emit_def Let_def)
  then have d1: "isCurrent c d1" "lv_thread d1 = Some tid" "lv_selection d1 = lv_selection s" "lv_subscribable d1" "\<not> lv_connected d1"
    by (simp_all add: d1_def refresh_fetched_def isCurrent_def threadSelectionIsCurrent_def add_call_def Let_def)
  define d2 where "d2 = d1\<lparr>lv_calls := remove1 (RefreshArtifacts c opts ?k thread evs st interactions) (lv_calls d1), lv_activeThread := thread\<rparr>"
  define d3 where "d3 = refresh_applied c opts thread evs st interactions (if truthy artifacts then Some artifacts else None) d2"
  have d2: "lv_thread d2 = Some tid" "lv_selection d2 = lv_selection s" "lv_subscribable d2" "\<not> lv_connected d2"
    using d1 by (simp_all add: d2_def)
  have d3: "lv_thread d3 = Some tid" "lv_selection d3 = lv_selection s" "lv_subPending d3" "\<not> lv_connected d3"
    using d2 by (simp_all add: d3_def applied_fields)
  have "t = after_refresh h ?k d3"
    using d1(1) assms(4) by (simp add: assms(5) d_def [symmetric] d1_def [symmetric] refresh_listed_def Let_def d3_def d2_def
        isCurrent_def threadSelectionIsCurrent_def)
  then show ?thesis using d3 by (simp add: after_refresh_def threadSelectionIsCurrent_def start_fields)
qed

theorem detached_panel_resumes_witness:
  "let s = selectThread sample_host (js ''t1'') live0; k = ThenPolling (js ''t1'') 1;
       c = \<lparr>fc_thread = js ''t1'', fc_selection = 1, fc_snapshot = 2\<rparr>;
       t = refresh_listed sample_host c default_options k (JObj []) (JArr []) JNull (JArr []) (Inr JNull)
         (refresh_fetched sample_host c default_options k (Inr (JObj [], JArr [], JNull, JArr [])) (disconnect s))
   in RefreshFetch c default_options k \<in> set (lv_calls s) \<and> \<not> lv_connected t \<and> lv_pollActive t \<and> lv_armed t \<noteq> [] \<and> lv_subPending t"
proof -
  define s where "s = selectThread sample_host (js ''t1'') live0"
  let ?c = "\<lparr>fc_thread = js ''t1'', fc_selection = 1, fc_snapshot = 2\<rparr>"
  have s: "lv_thread s = Some (js ''t1'')" "lv_subscribable s" "lv_selection s = 1" "lv_snapshot s = 2"
      "RefreshFetch ?c default_options (ThenPolling (js ''t1'') 1) \<in> set (lv_calls s)"
    by (simp_all add: s_def selectThread_def live0_def setSelectedThread_def stopEventSubscription_def close_subscription_def
        stopPolling_def resetEventState_def refreshSelectedThreadAndStartPolling_def refreshActiveThread_def add_call_def emit_def Let_def)
  have "isCurrent ?c s" using s by (simp add: isCurrent_def threadSelectionIsCurrent_def)
  from detached_panel_resumes [OF s(1,2) this, of "JObj []" _ sample_host default_options "JArr []" JNull "JArr []" JNull, OF _ refl]
  show ?thesis using s by (simp add: s_def [symmetric] Let_def nullish_def)
qed

text \<open>
  C14: When the selected chat is deleted or archived and the refresh of its replacement fails,
  the panel goes on with the replacement selected and polled while the events, the cursor and
  the chat it shows are still those of the old one.
\<close>

theorem replacement_keeps_old_transcript:
  assumes "lv_thread s = Some old" "new \<noteq> old"
    and "c = \<lparr>fc_thread = new, fc_selection = Suc (lv_selection s), fc_snapshot = Suc (Suc (lv_snapshot s))\<rparr>"
    and "t = refresh_fetched h c default_options (ThenPolling new (Suc (lv_selection s))) (Inl err) (replace_selection h (Some new) s)"
  shows "RefreshFetch c default_options (ThenPolling new (Suc (lv_selection s))) \<in> set (lv_calls (replace_selection h (Some new) s))
    \<and> lv_thread t = Some new \<and> lv_pollActive t \<and> lv_events t = lv_events s \<and> lv_sequence t = lv_sequence s
    \<and> lv_activeThread t = lv_activeThread s"
  unfolding assms(4)
  using assms(1,2)
  by (simp add: assms(3) replace_selection_def setSelectedThread_def refreshSelectedThreadAndStartPolling_def refreshActiveThread_def
      refresh_fetched_def refresh_failed_def add_call_def emit_def show_error_def after_refresh_def threadSelectionIsCurrent_def
      isCurrent_def startPolling_def stopPolling_def scheduleNextPoll_def default_options_def Let_def)

theorem replacement_keeps_old_transcript_witness:
  "let s = live3; c = \<lparr>fc_thread = js ''t2'', fc_selection = Suc (lv_selection s), fc_snapshot = Suc (Suc (lv_snapshot s))\<rparr>;
       t = refresh_fetched sample_host c default_options (ThenPolling (js ''t2'') (Suc (lv_selection s))) (Inl JNull)
         (replace_selection sample_host (Some (js ''t2'')) s)
   in lv_thread t = Some (js ''t2'') \<and> lv_pollActive t \<and> lv_events t = [sample_event 7 ''a'' ''message.created'']"
  using replacement_keeps_old_transcript [OF live3_fields(1), of "js ''t2''", OF _ refl refl] live3_fields(2)
  by (simp add: Let_def js_def)

text \<open>Attaching a panel again restarts its subscription but not its poll loop.\<close>

theorem reattached_not_polling: "\<not> lv_pollActive (connect (disconnect s))"
  by (simp add: connect_def disconnect_def startEventSubscription_def stopEventSubscription_def close_subscription_def stopPolling_def
      emit_def Let_def split: option.split)

end
