(* ===== verification/JsonText.thy ===== *)
theory JsonText
  imports JsValue
begin

text \<open>
  \<open>JSON.stringify\<close> on strings, on lists and on the answers of a question form, and why its
  texts can stand for the values: the encodings are self-delimiting, so equal texts mean
  equal values.
\<close>

section \<open>Encodings\<close>

text \<open>The four lower-case hexadecimal digits of a unicode escape.\<close>

definition hex_unit :: "nat \<Rightarrow> nat" where
  "hex_unit n = (if n < 10 then 48 + n else 87 + n)"

definition hex4 :: "nat \<Rightarrow> jstr" where
  "hex4 u = map hex_unit [u div 4096 mod 16, u div 256 mod 16, u div 16 mod 16, u mod 16]"

definition short_escape :: "nat \<Rightarrow> nat option" where
  "short_escape = map_of [(8, 98), (9, 116), (10, 110), (12, 102), (13, 114), (34, 34), (92, 92)]"

text \<open>A single code unit: a short escape, a unicode escape for controls and lone surrogates, or itself.\<close>

definition json_unit :: "nat \<Rightarrow> jstr" where
  "json_unit u =
     (case short_escape u of
        Some e \<Rightarrow> [92, e]
      | None \<Rightarrow> if u < 32 \<or> is_high u \<or> is_low u then 92 # 117 # hex4 u else [u])"

definition json_string :: "jstr \<Rightarrow> jstr" where
  "json_string s = 34 # concat (map (\<lambda>c. if length c = 1 then json_unit (hd c) else c) (js_chars s)) @ [34]"

definition json_array :: "('a \<Rightarrow> jstr) \<Rightarrow> 'a list \<Rightarrow> jstr" where
  "json_array enc xs = 91 # join_with [44] (map enc xs) @ [93]"

text \<open>An answer is the object with the properties \<open>question_id\<close> and \<open>values\<close>, in this order.\<close>

definition json_answer :: "jstr \<times> jstr list \<Rightarrow> jstr" where
  "json_answer a =
     123 # json_string (js ''question_id'') @ 58 # json_string (fst a)
       @ 44 # json_string (js ''values'') @ 58 # json_array json_string (snd a) @ [125]"

definition json_answers :: "(jstr \<times> jstr list) list \<Rightarrow> jstr" where
  "json_answers = json_array json_answer"

section \<open>Self-delimiting encodings\<close>

locale self_delimiting =
  fixes enc :: "'a \<Rightarrow> jstr"
  assumes cut: "enc x @ r = enc y @ r' \<Longrightarrow> x = y \<and> r = r'"
    and opens: "\<exists>u us. enc x = u # us \<and> u \<noteq> 93"
begin

lemma enc_inject: "enc x = enc y \<Longrightarrow> x = y"
  using cut [of x "[]" y "[]"] by simp

lemma array_tail:
  "join_with [44] (map enc (x # xs)) @ 93 # r = join_with [44] (map enc (y # ys)) @ 93 # r'
    \<Longrightarrow> x # xs = y # ys \<and> r = r'"
proof (induction xs arbitrary: x y ys)
  case Nil
  show ?case
  proof (cases ys)
    case Nil
    then show ?thesis using Nil.prems cut [of x "93 # r" y "93 # r'"] by simp
  next
    case (Cons z zs)
    then show ?thesis using Nil.prems cut [of x "93 # r" y] by auto
  qed
next
  case (Cons x2 xs)
  obtain z zs where ys: "ys = z # zs"
    using Cons.prems cut [of x "44 # join_with [44] (map enc (x2 # xs)) @ 93 # r" y "93 # r'"] by (cases ys) auto
  have "x = y \<and> join_with [44] (map enc (x2 # xs)) @ 93 # r = join_with [44] (map enc (z # zs)) @ 93 # r'"
    using Cons.prems cut [of x _ y] unfolding ys by auto
  then show ?case using Cons.IH [of x2 z zs] ys by blast
qed

lemma array_cut: "json_array enc xs @ r = json_array enc ys @ r' \<Longrightarrow> xs = ys \<and> r = r'"
proof -
  assume eq: "json_array enc xs @ r = json_array enc ys @ r'"
  have hd: "join_with [44] (map enc (z # zs)) @ 93 # q \<noteq> 93 # q'" for z zs q q'
    using opens [of z] by (cases zs) auto
  show ?thesis
  proof (cases xs)
    case Nil
    then show ?thesis using eq hd [of _ _ r' r] by (cases ys) (auto simp: json_array_def dest: sym)
  next
    case (Cons x xs')
    then show ?thesis using eq hd [of x xs' r r'] array_tail [of x xs' r _ _ r'] by (cases ys) (auto simp: json_array_def)
  qed
qed

end

section \<open>Strings\<close>

text \<open>The first token of a string body: a raw unit, a short escape or a unicode escape.\<close>

fun json_token :: "jstr \<Rightarrow> jstr" where
  "json_token (u # e # r) = (if u \<noteq> 92 then [u] else if e \<noteq> 117 then [u, e] else take 6 (u # e # r))"
| "json_token us = us"

lemma hex4_inject:
  assumes "hex4 u = hex4 v" "u < 65536" "v < 65536"
  shows "u = v"
proof -
  have d: "hex_unit a = hex_unit b \<Longrightarrow> a < 16 \<Longrightarrow> b < 16 \<Longrightarrow> a = b" for a b
    by (auto simp: hex_unit_def split: if_splits)
  have "u div 4096 mod 16 = v div 4096 mod 16" "u div 256 mod 16 = v div 256 mod 16" "u div 16 mod 16 = v div 16 mod 16"
      "u mod 16 = v mod 16"
    using assms(1) by (auto simp: hex4_def intro: d)
  moreover have "n = 4096 * (n div 4096 mod 16) + (256 * (n div 256 mod 16) + (16 * (n div 16 mod 16) + n mod 16))"
    if "n < 65536" for n :: nat
  proof -
    have "n div 4096 < 16" using that by (simp add: less_mult_imp_div_less)
    then have "n = 4096 * (n div 4096 mod 16) + n mod 4096" by simp
    also have "n mod 4096 = 256 * (n div 256 mod 16) + (16 * (n div 16 mod 16) + n mod 16)"
      using mod_mult2_eq [of n 256 16] mod_mult2_eq [of n 16 16] by simp
    finally show ?thesis .
  qed
  ultimately show ?thesis using assms(2,3) by metis
qed

text \<open>A token stands for a unit: raw, or as \<open>json_unit\<close> writes it.\<close>

definition token_of :: "nat \<Rightarrow> jstr \<Rightarrow> bool" where
  "token_of u x \<longleftrightarrow> x = json_unit u \<or> x = [u] \<and> u \<noteq> 34 \<and> u \<noteq> 92"

lemma json_unit_cases:
  obtains e where "short_escape u = Some e" "e \<noteq> 117" "json_unit u = [92, e]"
  | "short_escape u = None" "u < 65536" "json_unit u = 92 # 117 # hex4 u"
  | "short_escape u = None" "u \<noteq> 34" "u \<noteq> 92" "json_unit u = [u]"
proof (cases "short_escape u")
  case None
  have "u \<noteq> 34" "u \<noteq> 92" using None by (auto simp: short_escape_def)
  moreover have "u < 65536" if "u < 32 \<or> is_high u \<or> is_low u" using that by (auto simp: is_high_def is_low_def)
  ultimately show thesis using None that(2,3) by (cases "u < 32 \<or> is_high u \<or> is_low u") (auto simp: json_unit_def)
next
  case (Some e)
  then have "e \<noteq> 117" by (auto simp: short_escape_def split: if_splits)
  then show thesis using Some that(1) by (simp add: json_unit_def)
qed

lemma token_cut:
  assumes "token_of u x" "r \<noteq> []"
  shows "json_token (x @ r) = x"
proof (cases u rule: json_unit_cases)
  case 2
  then show ?thesis using assms by (cases r) (auto simp: token_of_def hex4_def)
qed (use assms in \<open>cases r; auto simp: token_of_def\<close>)+

lemma token_opens: "token_of u x \<Longrightarrow> \<exists>a as. x = a # as \<and> a \<noteq> 34"
  by (cases u rule: json_unit_cases) (auto simp: token_of_def)

lemma token_unique:
  assumes "token_of u x" "token_of v x"
  shows "u = v"
proof -
  have short: "short_escape u = Some e \<Longrightarrow> short_escape v = Some e \<Longrightarrow> u = v" for e
    by (auto simp: short_escape_def split: if_splits)
  show ?thesis
    using assms hex4_inject [of u v] short
    by (cases u rule: json_unit_cases; cases v rule: json_unit_cases) (auto simp: token_of_def hex4_def)
qed

lemma body_cut:
  "list_all2 token_of us xs \<Longrightarrow> list_all2 token_of vs ys \<Longrightarrow> concat xs @ 34 # r = concat ys @ 34 # r' \<Longrightarrow> us = vs \<and> r = r'"
proof (induction us xs arbitrary: vs ys rule: list_all2_induct)
  case Nil
  then show ?case by (cases ys) (auto simp: list_all2_Cons2 dest!: token_opens)
next
  case (Cons u us x xs)
  obtain v vs' y ys' where vs: "vs = v # vs'" "ys = y # ys'" "token_of v y" "list_all2 token_of vs' ys'"
    using Cons.prems token_opens [OF Cons.hyps(1)] by (cases ys) (auto simp: list_all2_Cons2)
  have "x = json_token (x @ concat xs @ 34 # r)" using token_cut [OF Cons.hyps(1)] by simp
  also have "\<dots> = json_token (y @ concat ys' @ 34 # r')" using Cons.prems(2) vs(2) by simp
  also have "\<dots> = y" using token_cut [OF vs(3)] by simp
  finally have "x = y" .
  then show ?case using Cons.IH [OF vs(4)] Cons.prems(2) Cons.hyps(1) vs token_unique by auto
qed

lemma chars_tokens:
  "\<exists>xs. list_all2 token_of s xs \<and> concat (map (\<lambda>c. if length c = 1 then json_unit (hd c) else c) (js_chars s)) = concat xs"
proof (induction s rule: js_chars.induct)
  case 1
  show ?case by (rule exI [of _ "[]"]) simp
next
  case (2 u)
  show ?case by (rule exI [of _ "[json_unit u]"]) (simp add: token_of_def)
next
  case (3 u v us)
  show ?case
  proof (cases "is_high u \<and> is_low v")
    case True
    then obtain xs where xs: "list_all2 token_of us xs"
        "concat (map (\<lambda>c. if length c = 1 then json_unit (hd c) else c) (js_chars us)) = concat xs"
      using 3 by auto
    have "token_of u [u]" "token_of v [v]" using True by (auto simp: token_of_def is_high_def is_low_def)
    then show ?thesis using True xs by (intro exI [of _ "[u] # [v] # xs"]) simp
  next
    case False
    then obtain xs where "list_all2 token_of (v # us) xs"
        "concat (map (\<lambda>c. if length c = 1 then json_unit (hd c) else c) (js_chars (v # us))) = concat xs"
      using 3 by auto
    moreover have "token_of u (json_unit u)" by (simp add: token_of_def)
    ultimately show ?thesis using False by (intro exI [of _ "json_unit u # xs"]) auto
  qed
qed

interpretation json_str: self_delimiting json_string
proof
  fix x y r r' assume "json_string x @ r = json_string y @ r'"
  then show "x = y \<and> r = r'"
    using chars_tokens [of x] chars_tokens [of y] body_cut [of x _ y _ r r'] by (auto simp: json_string_def)
qed (simp add: json_string_def)

interpretation json_ans: self_delimiting json_answer
proof
  fix x y r r' assume eq: "json_answer x @ r = json_answer y @ r'"
  obtain q vs q' vs' where xy: "x = (q, vs)" "y = (q', vs')" by (cases x, cases y)
  let ?rest = "\<lambda>vs r. 44 # json_string (js ''values'') @ 58 # json_array json_string vs @ 125 # r"
  have "json_string q @ ?rest vs r = json_string q' @ ?rest vs' r'"
    using eq unfolding xy json_answer_def by simp
  from json_str.cut [OF this] have "q = q'" "json_array json_string vs @ 125 # r = json_array json_string vs' @ 125 # r'"
    by auto
  then show "x = y \<and> r = r'" using json_str.array_cut xy by auto
qed (simp add: json_answer_def)

lemma json_answers_inject: "json_answers as = json_answers bs \<Longrightarrow> as = bs"
  using json_ans.array_cut [of as "[]" bs "[]"] by (simp add: json_answers_def)

end
