(* ===== verification/Interactions.thy ===== *)
theory Interactions
  imports UserInput PanelErrors JsonText Transitions
begin

text \<open>
  The requests of Codex that wait for the user (\<open>codex-bridge-panel.js\<close>): how the panel
  reads the list of pending interactions, how it sends a decision or an answer, and how it
  finds out what became of a response whose delivery failed. Every method is cut at its
  awaits: an open call keeps what the method captured and may be answered at any later point.
\<close>

section \<open>The list of pending interactions\<close>

record interaction =
  it_id :: jstr
  it_kind :: string
  it_thread :: jstr
  it_event :: jsval
  it_expires :: jstr
  it_display :: jsval
  it_allowed :: "string list"

text \<open>The object the views read.\<close>

definition interaction_value :: "interaction \<Rightarrow> jsval" where
  "interaction_value it =
     JObj [(js ''interaction_id'', JStr (it_id it)), (js ''kind'', jlit (it_kind it)), (js ''thread_id'', JStr (it_thread it)),
       (js ''event_id'', it_event it), (js ''status'', jlit ''pending''), (js ''expires_at'', JStr (it_expires it)),
       (js ''display'', it_display it), (js ''allowed_actions'', JArr (map jlit (it_allowed it)))]"

definition identifier_of :: "nat \<Rightarrow> jsval \<Rightarrow> jstr option" where
  "identifier_of limit candidate =
     (if is_string candidate \<and> id_pattern limit (as_string candidate) then Some (as_string candidate) else None)"

definition INTERACTION_KINDS :: "string list" where
  "INTERACTION_KINDS = [''command_approval'', ''file_change_approval'', ''user_input'']"

definition INTERACTION_ACTIONS :: "string list" where
  "INTERACTION_ACTIONS = [''accept'', ''decline'', ''cancel'', ''answer'']"

definition one_of :: "string list \<Rightarrow> jsval \<Rightarrow> string option" where
  "one_of names v = find (\<lambda>n. v = jlit n) names"

text \<open>\<open>[...new Set(xs)]\<close> keeps the first of equal elements.\<close>

definition first_distinct :: "'a list \<Rightarrow> 'a list" where
  "first_distinct xs = rev (remdups (rev xs))"

definition allowed_of :: "jsval \<Rightarrow> string list" where
  "allowed_of v = take 4 (first_distinct (List.map_filter (one_of INTERACTION_ACTIONS) (as_list v)))"

definition finite_date :: "clock \<Rightarrow> jstr \<Rightarrow> bool" where
  "finite_date ck s \<longleftrightarrow> (case dateParse ck s of Fin _ \<Rightarrow> True | _ \<Rightarrow> False)"

definition expires_of :: "clock \<Rightarrow> jsval \<Rightarrow> jstr option" where
  "expires_of ck v =
     (if is_string v \<and> length (as_string v) \<le> 64 \<and> finite_date ck (as_string v) then Some (as_string v) else None)"

definition actionable :: "string \<Rightarrow> string list \<Rightarrow> bool" where
  "actionable kind allowed \<longleftrightarrow>
     (if kind = ''user_input'' then ''answer'' \<in> set allowed
      else list_ex (\<lambda>a. a \<in> set allowed) [''accept'', ''decline'', ''cancel''])"

definition normalizePendingInteraction :: "clock \<Rightarrow> jsval \<Rightarrow> jstr \<Rightarrow> interaction option" where
  "normalizePendingInteraction ck v threadId =
     (if \<not> is_record v then None
      else case (identifier_of 128 (dot v ''interaction_id''), one_of INTERACTION_KINDS (dot v ''kind''), expires_of ck (dot v ''expires_at'')) of
        (Some interactionId, Some kind, Some expiresAt) \<Rightarrow>
          if identifier_of 128 (dot v ''thread_id'') \<noteq> Some threadId \<or> \<not> is_safe_integer (dot v ''event_id'') \<or> to_int (dot v ''event_id'') < 0
             \<or> dot v ''status'' \<noteq> jlit ''pending'' \<or> \<not> is_record (dot v ''display'')
             \<or> \<not> actionable kind (allowed_of (dot v ''allowed_actions''))
          then None
          else Some \<lparr>it_id = interactionId, it_kind = kind, it_thread = threadId, it_event = dot v ''event_id'',
            it_expires = expiresAt, it_display = dot v ''display'', it_allowed = allowed_of (dot v ''allowed_actions'')\<rparr>
      | _ \<Rightarrow> None)"

text \<open>
  \<open>_listPendingInteractions\<close>: without a supervisor connection (\<open>asked\<close> is false) nothing is
  requested and the list is empty.
\<close>

definition list_items :: "clock \<Rightarrow> jstr \<Rightarrow> jsval \<Rightarrow> interaction list" where
  "list_items ck threadId response =
     List.map_filter (\<lambda>v. normalizePendingInteraction ck v threadId) (as_list (dot response ''items''))"

definition listPendingInteractions :: "clock \<Rightarrow> bool \<Rightarrow> jstr \<Rightarrow> jsval + jsval \<Rightarrow> jsval + interaction list" where
  "listPendingInteractions ck asked threadId answer =
     (if \<not> asked then Inr []
      else case answer of Inl err \<Rightarrow> Inl err | Inr response \<Rightarrow> Inr (list_items ck threadId response))"

section \<open>Responses\<close>

record response_request =
  rq_action :: string
  rq_kind :: string
  rq_fingerprint :: jstr
  rq_decision :: "string option"
  rq_answers :: "(jstr \<times> jstr list) list option"
  rq_payload :: jsval

definition decision_request :: "string \<Rightarrow> response_request" where
  "decision_request d =
     \<lparr>rq_action = ''decide_interaction'', rq_kind = ''decision'', rq_fingerprint = js ''decision:'' @ js d,
      rq_decision = Some d, rq_answers = None, rq_payload = JObj [(js ''decision'', jlit d)]\<rparr>"

definition answer_value :: "jstr \<times> jstr list \<Rightarrow> jsval" where
  "answer_value a = JObj [(js ''question_id'', JStr (fst a)), (js ''values'', JArr (map JStr (snd a)))]"

definition answer_request :: "(jstr \<times> jstr list) list \<Rightarrow> response_request" where
  "answer_request answers =
     \<lparr>rq_action = ''answer_interaction'', rq_kind = ''answer'', rq_fingerprint = js ''answer:'' @ json_answers answers,
      rq_decision = None, rq_answers = Some answers, rq_payload = JObj [(js ''answers'', JArr (map answer_value answers))]\<rparr>"

datatype mutation_state = Sending | Reconciling | Retryable

text \<open>
  The object the panel keeps while a response is under way. The code compares these objects by
  identity; \<open>mu_ref\<close> is that identity.
\<close>

record mutation =
  mu_ref :: nat
  mu_thread :: jstr
  mu_kind :: string
  mu_fingerprint :: jstr
  mu_clientRequestId :: jstr
  mu_decision :: "string option"
  mu_answers :: "(jstr \<times> jstr list) list option"
  mu_state :: mutation_state
  mu_deliveryConfirmed :: bool

text \<open>\<open>_createClientRequestId\<close>: the prefix and a UUID, or the time and random digits in its place.\<close>

definition createClientRequestId :: "string \<Rightarrow> jstr \<Rightarrow> jstr" where
  "createClientRequestId pre entropy = js pre @ 45 # entropy"

record sent_response =
  sn_ref :: nat
  sn_interaction :: jstr
  sn_thread :: jstr
  sn_request :: response_request
  sn_clientRequestId :: jstr

text \<open>
  Open calls: the response itself, the list after a confirmed response, the list after a
  failed one, and the list the expiry timer asks for. The last argument of a list says whether
  the service was asked.
\<close>

datatype interaction_call =
    Responding nat interaction response_request
  | Confirming nat interaction bool
  | Recovering nat interaction jsval bool
  | ExpiryListing jstr bool

record interactions =
  ix_thread :: "jstr option"
  ix_supervisor :: bool
  ix_suspended :: bool
  ix_queued :: bool
  ix_pending :: "interaction list"
  ix_mutations :: "jstr \<Rightarrow> mutation option"
  ix_answers :: "jstr \<Rightarrow> jsval option"
  ix_announced :: "jstr list"
  ix_timer :: "rat option"
  ix_error :: panel_error
  ix_cards :: "(interaction \<times> mutation option) list"
  ix_refs :: nat
  ix_calls :: "interaction_call list"
  ix_sent :: "sent_response list"

record ix_host =
  ih_fmt :: "rat \<Rightarrow> jstr"
  ih_now :: rat

section \<open>Rendering and the expiry timer\<close>

definition date_value :: "clock \<Rightarrow> jstr \<Rightarrow> rat" where
  "date_value ck s = (case dateParse ck s of Fin r \<Rightarrow> r | _ \<Rightarrow> 0)"

definition expiry_delay :: "clock \<Rightarrow> rat \<Rightarrow> interaction list \<Rightarrow> rat" where
  "expiry_delay ck now items =
     (let remaining = Min (set (map (\<lambda>it. date_value ck (it_expires it)) items)) - now in
      if remaining \<le> 0 then 5000 else max 250 (min 2147483647 (remaining + 25)))"

definition scheduleInteractionExpiryRefresh :: "clock \<Rightarrow> ix_host \<Rightarrow> interactions \<Rightarrow> interactions" where
  "scheduleInteractionExpiryRefresh ck h s =
     (if ix_timer s \<noteq> None \<or> ix_pending s = [] then s
      else s\<lparr>ix_timer := Some (expiry_delay ck (ih_now h) (ix_pending s))\<rparr>)"

definition clearInteractionExpiryTimer :: "interactions \<Rightarrow> interactions" where
  "clearInteractionExpiryTimer s = s\<lparr>ix_timer := None\<rparr>"

definition in_selected :: "interactions \<Rightarrow> interaction \<Rightarrow> bool" where
  "in_selected s it \<longleftrightarrow> Some (it_thread it) = ix_thread s"

text \<open>
  The region shows a card for each pending interaction of the selected chat, with the state of
  its response; new cards are announced once.
\<close>

definition renderInteractions :: "clock \<Rightarrow> ix_host \<Rightarrow> interactions \<Rightarrow> interactions" where
  "renderInteractions ck h s =
     (if ix_thread s = None \<or> \<not> ix_supervisor s then s\<lparr>ix_cards := []\<rparr>
      else
        (let visible = filter (in_selected s) (ix_pending s);
             announced = ix_announced s @ filter (\<lambda>i. i \<notin> set (ix_announced s)) (map it_id visible) in
         scheduleInteractionExpiryRefresh ck h
           (s\<lparr>ix_cards := map (\<lambda>it. (it, ix_mutations s (it_id it))) visible,
              ix_announced := filter (\<lambda>i. i \<in> it_id ` set (ix_pending s)) announced\<rparr>)))"

definition render_panel :: "clock \<Rightarrow> ix_host \<Rightarrow> interactions \<Rightarrow> interactions" where
  "render_panel ck h s =
     (if ix_suspended s then s\<lparr>ix_queued := True\<rparr> else renderInteractions ck h (s\<lparr>ix_queued := False\<rparr>))"

definition focus_out :: "clock \<Rightarrow> ix_host \<Rightarrow> interactions \<Rightarrow> interactions" where
  "focus_out ck h s =
     (let s1 = s\<lparr>ix_suspended := False\<rparr> in
      if ix_queued s1 then renderInteractions ck h (s1\<lparr>ix_queued := False\<rparr>) else s1)"

text \<open>The decisions a card offers; a card whose response may be repeated offers only that response.\<close>

definition card_actions :: "clock \<Rightarrow> rat \<Rightarrow> jsval \<Rightarrow> interaction \<times> mutation option \<Rightarrow> string list" where
  "card_actions ck now answers shown =
     (let it = fst shown; m = snd shown; retryable = (map_option mu_state m = Some Retryable);
          opts = \<lparr>vo_now = now, vo_pending = map_option mu_state m \<in> {Some Sending, Some Reconciling}, vo_stale = False\<rparr> in
      if it_kind it = ''user_input'' then
        (case getUserInputViewModel ck (interaction_value it) opts answers of None \<Rightarrow> []
         | Some model \<Rightarrow> if retryable \<or> \<not> ui_submitDisabled model then [''answer''] else [])
      else
        (case getApprovalViewModel ck (interaction_value it) opts of None \<Rightarrow> []
         | Some model \<Rightarrow> map aa_id (filter (\<lambda>a. if retryable then m \<noteq> None \<and> mu_decision (the m) = Some (aa_id a) else \<not> aa_disabled a)
             (ap_actions model))))"

section \<open>The pending set\<close>

definition assign_error :: "ix_host \<Rightarrow> jsval \<Rightarrow> interactions \<Rightarrow> interactions" where
  "assign_error h err s = s\<lparr>ix_error := assignError (ih_fmt h) err None [] (ix_error s)\<rparr>"

definition replacePendingInteractions :: "interaction list \<Rightarrow> interactions \<Rightarrow> interactions" where
  "replacePendingInteractions items s =
     (let gone = {i. i \<in> it_id ` set (ix_pending s) \<and> i \<notin> it_id ` set items} in
      s\<lparr>ix_mutations := (\<lambda>i. if i \<in> gone then None else ix_mutations s i),
         ix_answers := (\<lambda>i. if i \<in> gone then None else ix_answers s i), ix_pending := items\<rparr>)"

definition forget_interactions :: "interactions \<Rightarrow> interactions" where
  "forget_interactions s =
     (clearInteractionExpiryTimer s)\<lparr>ix_pending := [], ix_mutations := (\<lambda>_. None), ix_answers := (\<lambda>_. None)\<rparr>"

definition retireThreadInteractionState :: "interactions \<Rightarrow> interactions" where
  "retireThreadInteractionState s = (forget_interactions s)\<lparr>ix_announced := []\<rparr>"

definition open_call :: "interaction_call \<Rightarrow> interactions \<Rightarrow> interactions" where
  "open_call c s = s\<lparr>ix_calls := ix_calls s @ [c]\<rparr>"

definition close_call :: "interaction_call \<Rightarrow> interactions \<Rightarrow> interactions" where
  "close_call c s = s\<lparr>ix_calls := remove1 c (ix_calls s)\<rparr>"

definition set_mutation :: "jstr \<Rightarrow> mutation option \<Rightarrow> interactions \<Rightarrow> interactions" where
  "set_mutation i m s = s\<lparr>ix_mutations := (ix_mutations s)(i := m)\<rparr>"

text \<open>The mutation of a response that is still current, in the chat that is still selected.\<close>

definition current_mutation :: "nat \<Rightarrow> interaction \<Rightarrow> interactions \<Rightarrow> mutation option" where
  "current_mutation r it s =
     (case ix_mutations s (it_id it) of
        Some m \<Rightarrow> if mu_ref m = r \<and> in_selected s it then Some m else None
      | None \<Rightarrow> None)"

section \<open>Sending a response\<close>

definition submitInteractionResponse :: "clock \<Rightarrow> ix_host \<Rightarrow> jstr \<Rightarrow> interaction \<Rightarrow> response_request \<Rightarrow> interactions \<Rightarrow> interactions" where
  "submitInteractionResponse ck h entropy it rq s =
     (let existing = ix_mutations s (it_id it) in
      if map_option mu_state existing \<in> {Some Sending, Some Reconciling} then s
      else if existing \<noteq> None \<and> mu_fingerprint (the existing) \<noteq> rq_fingerprint rq
      then render_panel ck h (assign_error h (jlit ''Retry the original Codex response before choosing another action.'') s)
      else
        (let m = (case existing of
               Some m \<Rightarrow> m\<lparr>mu_state := Sending\<rparr>
             | None \<Rightarrow> \<lparr>mu_ref = ix_refs s, mu_thread = it_thread it, mu_kind = rq_kind rq, mu_fingerprint = rq_fingerprint rq,
                 mu_clientRequestId = createClientRequestId (rq_kind rq) entropy, mu_decision = rq_decision rq,
                 mu_answers = rq_answers rq, mu_state = Sending, mu_deliveryConfirmed = False\<rparr>);
             s1 = render_panel ck h ((set_mutation (it_id it) (Some m) s)
               \<lparr>ix_refs := (if existing = None then Suc (ix_refs s) else ix_refs s)\<rparr>) in
         (open_call (Responding (mu_ref m) it rq) s1)
           \<lparr>ix_sent := ix_sent s @ [\<lparr>sn_ref = mu_ref m, sn_interaction = it_id it, sn_thread = it_thread it, sn_request = rq,
              sn_clientRequestId = mu_clientRequestId m\<rparr>]\<rparr>))"

definition find_interaction :: "jstr \<Rightarrow> interactions \<Rightarrow> interaction option" where
  "find_interaction i s = find (\<lambda>it. it_id it = i) (ix_pending s)"

definition decideInteraction :: "clock \<Rightarrow> ix_host \<Rightarrow> jstr \<Rightarrow> jstr \<Rightarrow> string \<Rightarrow> interactions \<Rightarrow> interactions" where
  "decideInteraction ck h entropy i decision s =
     (case find_interaction i s of
        None \<Rightarrow> s
      | Some it \<Rightarrow>
          if it_kind it = ''user_input'' \<or> \<not> in_selected s it \<or> decision \<notin> set (it_allowed it) then s
          else submitInteractionResponse ck h entropy it (decision_request decision) s)"

definition answerInteraction :: "clock \<Rightarrow> ix_host \<Rightarrow> jstr \<Rightarrow> jstr \<Rightarrow> (jstr \<times> jstr list) list \<Rightarrow> interactions \<Rightarrow> interactions" where
  "answerInteraction ck h entropy i answers s =
     (case find_interaction i s of
        None \<Rightarrow> s
      | Some it \<Rightarrow>
          if it_kind it \<noteq> ''user_input'' \<or> \<not> in_selected s it \<or> ''answer'' \<notin> set (it_allowed it) then s
          else submitInteractionResponse ck h entropy it (answer_request answers) s)"

text \<open>The form of a card, with the answers kept for it; a card that is not a form has none.\<close>

definition form_model :: "clock \<Rightarrow> ix_host \<Rightarrow> jstr \<Rightarrow> interactions \<Rightarrow> user_input_model option" where
  "form_model ck h i s =
     (case find (\<lambda>it. it_id it = i \<and> it_kind it = ''user_input'') (ix_pending s) of
        None \<Rightarrow> None
      | Some it \<Rightarrow> getUserInputViewModel ck (interaction_value it) \<lparr>vo_now = ih_now h, vo_pending = False, vo_stale = False\<rparr>
          (case ix_answers s i of None \<Rightarrow> JObj [] | Some a \<Rightarrow> a))"

definition captureInteractionAnswers :: "clock \<Rightarrow> ix_host \<Rightarrow> dom \<Rightarrow> jstr \<Rightarrow> interactions \<Rightarrow> interactions" where
  "captureInteractionAnswers ck h wrapper i s =
     (case form_model ck h i s of
        None \<Rightarrow> s
      | Some model \<Rightarrow> s\<lparr>ix_answers := (ix_answers s)(i \<mapsto>
          JObj (foldl (\<lambda>o' a. obj_set o' (fst a) (JArr (map JStr (snd a)))) [] (collectUserInputAnswers wrapper model)))\<rparr>)"

definition answerInteractionFromTarget :: "clock \<Rightarrow> ix_host \<Rightarrow> jstr \<Rightarrow> dom \<Rightarrow> jstr \<Rightarrow> interactions \<Rightarrow> interactions" where
  "answerInteractionFromTarget ck h entropy wrapper i s =
     (case form_model ck h i s of
        None \<Rightarrow> s
      | Some model \<Rightarrow>
          (let answers = collectUserInputAnswers wrapper model in
           if length answers \<noteq> length (ui_questions model) \<or> answers = []
           then render_panel ck h (assign_error h (jlit ''Answer every Codex question before continuing.'') s)
           else answerInteraction ck h entropy i answers s))"

section \<open>What became of a response\<close>

definition response_confirmed :: "clock \<Rightarrow> ix_host \<Rightarrow> nat \<Rightarrow> interaction \<Rightarrow> response_request \<Rightarrow> interactions \<Rightarrow> interactions" where
  "response_confirmed ck h r it rq s =
     (let s1 = close_call (Responding r it rq) s in
      case current_mutation r it s1 of
        None \<Rightarrow> s1
      | Some m \<Rightarrow> open_call (Confirming r it (ix_supervisor s1))
          (render_panel ck h (set_mutation (it_id it) (Some (m\<lparr>mu_state := Reconciling, mu_deliveryConfirmed := True\<rparr>)) s1)))"

definition response_listed :: "clock \<Rightarrow> ix_host \<Rightarrow> nat \<Rightarrow> interaction \<Rightarrow> bool \<Rightarrow> jsval + jsval \<Rightarrow> interactions \<Rightarrow> interactions" where
  "response_listed ck h r it asked answer s =
     (let s1 = close_call (Confirming r it asked) s in
      case listPendingInteractions ck asked (it_thread it) answer of
        Inl _ \<Rightarrow>
          if current_mutation r it s1 = None then s1
          else render_panel ck h (assign_error h
            (jlit ''Home Assistant accepted this response. The request stays locked until its final state can be refreshed.'') s1)
      | Inr items \<Rightarrow>
          if \<not> in_selected s1 it then s1
          else
            (let s2 = render_panel ck h (replacePendingInteractions items s1) in
             if it_id it \<in> it_id ` set items
             then render_panel ck h (assign_error h
               (jlit ''Home Assistant accepted this response. The request stays locked while Codex finishes reconciling it.'') s2)
             else s2\<lparr>ix_error := clearError None (ix_error s2)\<rparr>))"

definition INTERACTION_ERROR_CODES :: "string list" where
  "INTERACTION_ERROR_CODES =
     [''interaction_already_resolved'', ''interaction_kind_mismatch'', ''interaction_not_found'', ''interaction_outcome_unknown'',
      ''interaction_stale'', ''interaction_thread_mismatch'', ''runtime_request_conflict'', ''turn_changed'']"

definition bridgeErrorCode :: "jsval \<Rightarrow> jstr" where
  "bridgeErrorCode err =
     (case find is_string [dot err ''code'', dot (dot err ''body'') ''code'', dot (dot (dot err ''body'') ''error'') ''code'',
         dot (dot err ''error'') ''code''] of
        None \<Rightarrow> [] | Some v \<Rightarrow> as_string v)"

definition response_failed :: "clock \<Rightarrow> ix_host \<Rightarrow> nat \<Rightarrow> interaction \<Rightarrow> response_request \<Rightarrow> jsval \<Rightarrow> interactions \<Rightarrow> interactions" where
  "response_failed ck h r it rq err s =
     (let s1 = close_call (Responding r it rq) s in
      case current_mutation r it s1 of
        None \<Rightarrow> s1
      | Some m \<Rightarrow> open_call (Recovering r it err (ix_supervisor s1))
          (render_panel ck h (set_mutation (it_id it) (Some (m\<lparr>mu_state := Reconciling\<rparr>)) s1)))"

definition outcome_unknown :: "jsval \<Rightarrow> bool" where
  "outcome_unknown err \<longleftrightarrow> bridgeErrorCode err = js ''interaction_outcome_unknown''"

text \<open>After the list that follows a failed response: forget, lock or offer to repeat.\<close>

definition response_settled :: "clock \<Rightarrow> ix_host \<Rightarrow> interaction \<Rightarrow> mutation \<Rightarrow> jsval \<Rightarrow> bool \<Rightarrow> interactions \<Rightarrow> interactions" where
  "response_settled ck h it m err stillPending s =
     (if \<not> stillPending then
        render_panel ck h (assign_error h (if outcome_unknown err
            then jlit ''Codex received the response, but its final outcome could not be confirmed. Refresh before continuing.''
            else jlit ''This Codex request is no longer pending.'')
          ((set_mutation (it_id it) None s)\<lparr>ix_answers := (ix_answers s)(it_id it := None)\<rparr>))
      else if bridgeErrorCode err \<in> js ` set INTERACTION_ERROR_CODES then
        render_panel ck h (assign_error h (if outcome_unknown err
            then jlit ''Codex received the response, but its final outcome could not be confirmed. This request stays locked while Home Assistant reconciles it.''
            else jlit ''This Codex response could not be applied. The request stays locked until Home Assistant refreshes it.'')
          (set_mutation (it_id it) (Some (m\<lparr>mu_state := Reconciling\<rparr>)) s))
      else
        render_panel ck h (assign_error h (jlit ''The Home Assistant response was interrupted. Retry safely with the same request ID.'')
          (set_mutation (it_id it) (Some (m\<lparr>mu_state := Retryable\<rparr>)) s)))"

definition recovery_listed :: "clock \<Rightarrow> ix_host \<Rightarrow> nat \<Rightarrow> interaction \<Rightarrow> jsval \<Rightarrow> bool \<Rightarrow> jsval + jsval \<Rightarrow> interactions \<Rightarrow> interactions" where
  "recovery_listed ck h r it err asked answer s =
     (let s1 = close_call (Recovering r it err asked) s;
          listed = listPendingInteractions ck asked (it_thread it) answer;
          stillPending = (case listed of Inl _ \<Rightarrow> True | Inr items \<Rightarrow> it_id it \<in> it_id ` set items);
          s2 = (case listed of Inl _ \<Rightarrow> s1
            | Inr items \<Rightarrow> if in_selected s1 it then replacePendingInteractions items s1 else s1) in
      case current_mutation r it s2 of
        None \<Rightarrow> s2
      | Some m \<Rightarrow> response_settled ck h it m err stillPending s2)"

section \<open>The expiry refresh\<close>

definition expiry_fires :: "clock \<Rightarrow> ix_host \<Rightarrow> interactions \<Rightarrow> interactions" where
  "expiry_fires ck h s =
     (let s1 = s\<lparr>ix_timer := None\<rparr> in
      case ix_thread s1 of
        None \<Rightarrow> s1
      | Some t \<Rightarrow> open_call (ExpiryListing t (ix_supervisor s1)) (renderInteractions ck h s1))"

definition expiry_listed :: "clock \<Rightarrow> ix_host \<Rightarrow> jstr \<Rightarrow> bool \<Rightarrow> jsval + jsval \<Rightarrow> interactions \<Rightarrow> interactions" where
  "expiry_listed ck h t asked answer s =
     (let s1 = close_call (ExpiryListing t asked) s in
      case listPendingInteractions ck asked t answer of
        Inl _ \<Rightarrow> scheduleInteractionExpiryRefresh ck h s1
      | Inr items \<Rightarrow> if Some t = ix_thread s1 then render_panel ck h (replacePendingInteractions items s1) else s1)"

section \<open>Steps\<close>

definition initial_interactions :: "interactions \<Rightarrow> bool" where
  "initial_interactions s \<longleftrightarrow> ix_thread s = None \<and> \<not> ix_suspended s \<and> \<not> ix_queued s \<and> ix_pending s = [] \<and> ix_mutations s = (\<lambda>_. None)
     \<and> ix_answers s = (\<lambda>_. None) \<and> ix_announced s = [] \<and> ix_timer s = None \<and> ix_error s = initial_error \<and> ix_cards s = []
     \<and> ix_refs s = 0 \<and> ix_calls s = [] \<and> ix_sent s = []"

text \<open>
  What the user does, the answers of the service, the timer, and what other parts of the panel
  do: lists that a refresh of the selected chat brings, selecting a chat (which retires the
  interactions), replacing the selection (which does not), leaving all chats, rendering, the
  focus, a new configuration, errors of others and detaching the panel.
\<close>

inductive interaction_step :: "clock \<Rightarrow> interactions \<Rightarrow> interactions \<Rightarrow> bool" for ck where
  decide: "interaction_step ck s (decideInteraction ck h entropy i decision s)"
| answer: "interaction_step ck s (answerInteractionFromTarget ck h entropy wrapper i s)"
| capture: "interaction_step ck s (captureInteractionAnswers ck h wrapper i s)"
| confirmed: "Responding r it rq \<in> set (ix_calls s) \<Longrightarrow> interaction_step ck s (response_confirmed ck h r it rq s)"
| failed: "Responding r it rq \<in> set (ix_calls s) \<Longrightarrow> interaction_step ck s (response_failed ck h r it rq err s)"
| confirming: "Confirming r it asked \<in> set (ix_calls s) \<Longrightarrow> interaction_step ck s (response_listed ck h r it asked reply s)"
| recovering: "Recovering r it err asked \<in> set (ix_calls s) \<Longrightarrow> interaction_step ck s (recovery_listed ck h r it err asked reply s)"
| expires: "ix_timer s \<noteq> None \<Longrightarrow> interaction_step ck s (expiry_fires ck h s)"
| expiring: "ExpiryListing t asked \<in> set (ix_calls s) \<Longrightarrow> interaction_step ck s (expiry_listed ck h t asked reply s)"
| refreshed: "ix_thread s = Some t \<Longrightarrow> listPendingInteractions ck asked t reply = Inr items \<Longrightarrow>
    interaction_step ck s (replacePendingInteractions items s)"
| select_chat: "interaction_step ck s ((retireThreadInteractionState s)\<lparr>ix_thread := t\<rparr>)"
| replace_chat: "interaction_step ck s (s\<lparr>ix_thread := t\<rparr>)"
| leave_chats: "interaction_step ck s ((forget_interactions s)\<lparr>ix_thread := None\<rparr>)"
| rendered: "interaction_step ck s (render_panel ck h s)"
| focus_in: "interaction_step ck s (s\<lparr>ix_suspended := True\<rparr>)"
| focus_leaves: "interaction_step ck s (focus_out ck h s)"
| configured: "interaction_step ck s (s\<lparr>ix_supervisor := b\<rparr>)"
| other_error: "interaction_step ck s (s\<lparr>ix_error := e\<rparr>)"
| detached: "interaction_step ck s (clearInteractionExpiryTimer s)"

inductive interaction_reachable :: "clock \<Rightarrow> interactions \<Rightarrow> bool" for ck where
  start: "initial_interactions s \<Longrightarrow> interaction_reachable ck s"
| move: "interaction_reachable ck s \<Longrightarrow> interaction_step ck s t \<Longrightarrow> interaction_reachable ck t"

section \<open>Well-typed interactions\<close>

definition typed_interaction :: "clock \<Rightarrow> interaction \<Rightarrow> bool" where
  "typed_interaction ck it \<longleftrightarrow>
     id_pattern 128 (it_id it) \<and> id_pattern 128 (it_thread it) \<and> it_kind it \<in> set INTERACTION_KINDS
     \<and> is_safe_integer (it_event it) \<and> 0 \<le> to_int (it_event it)
     \<and> length (it_expires it) \<le> 64 \<and> finite_date ck (it_expires it) \<and> is_record (it_display it)
     \<and> distinct (it_allowed it) \<and> set (it_allowed it) \<subseteq> set INTERACTION_ACTIONS \<and> actionable (it_kind it) (it_allowed it)"

lemma first_distinct_props [simp]: "set (first_distinct xs) = set xs" "distinct (first_distinct xs)" "length (first_distinct xs) \<le> length xs"
  by (simp_all add: first_distinct_def length_remdups_leq [THEN order_trans])

lemma first_distinct_id [simp]: "distinct xs \<Longrightarrow> first_distinct xs = xs"
  by (simp add: first_distinct_def distinct_remdups_id)

lemma one_of_Some: "one_of names v = Some n \<Longrightarrow> n \<in> set names \<and> v = jlit n"
  by (auto simp: one_of_def find_Some_iff)

lemma js_inject [simp]: "js a = js b \<longleftrightarrow> a = b"
  by (auto simp: js_def inj_map_eq_map inj_def)

lemma one_of_lit [simp]: "n \<in> set names \<Longrightarrow> one_of names (jlit n) = Some n"
proof -
  assume "n \<in> set names"
  then show ?thesis by (induction names) (auto simp: one_of_def)
qed

lemma allowed_of_props: "distinct (allowed_of v)" "set (allowed_of v) \<subseteq> set INTERACTION_ACTIONS"
  by (auto simp: allowed_of_def mem_map_filter dest!: in_set_takeD one_of_Some)

lemma allowed_of_lits:
  assumes "distinct xs" "set xs \<subseteq> set INTERACTION_ACTIONS"
  shows "allowed_of (JArr (map jlit xs)) = xs"
proof -
  have "List.map_filter (one_of INTERACTION_ACTIONS) (map jlit xs) = xs"
    using assms(2) by (induction xs) auto
  moreover have "length xs \<le> 4"
    using card_mono [OF _ assms(2)] distinct_card [OF assms(1)] by (simp add: INTERACTION_ACTIONS_def)
  ultimately show ?thesis using assms(1) by (simp add: allowed_of_def)
qed

lemma normalize_typed: "normalizePendingInteraction ck v t = Some it \<Longrightarrow> typed_interaction ck it \<and> it_thread it = t"
  using allowed_of_props [of "dot v ''allowed_actions''"]
  by (auto simp: normalizePendingInteraction_def typed_interaction_def identifier_of_def expires_of_def
      split: if_splits option.splits dest!: one_of_Some)

lemma interaction_value_dots [simp]:
  "dot (interaction_value it) ''interaction_id'' = JStr (it_id it)" "dot (interaction_value it) ''kind'' = jlit (it_kind it)"
  "dot (interaction_value it) ''thread_id'' = JStr (it_thread it)" "dot (interaction_value it) ''event_id'' = it_event it"
  "dot (interaction_value it) ''status'' = jlit ''pending''" "dot (interaction_value it) ''expires_at'' = JStr (it_expires it)"
  "dot (interaction_value it) ''display'' = it_display it"
  "dot (interaction_value it) ''allowed_actions'' = JArr (map jlit (it_allowed it))"
  "is_record (interaction_value it)" "truthy (interaction_value it)"
  by (simp_all add: interaction_value_def dot_JObj obj_get_def)

lemma normalize_value: "typed_interaction ck it \<Longrightarrow> normalizePendingInteraction ck (interaction_value it) (it_thread it) = Some it"
  by (auto simp: normalizePendingInteraction_def typed_interaction_def identifier_of_def expires_of_def allowed_of_lits)

lemma typed_views:
  assumes "typed_interaction ck it"
  shows "getApprovalViewModel ck (interaction_value it) opts \<noteq> None" "getUserInputViewModel ck (interaction_value it) opts answers \<noteq> None"
  using assms by (auto simp: getApprovalViewModel_def getUserInputViewModel_def interaction_display_def typed_interaction_def
      Let_def is_record_def is_object_def split: jsval.splits)

lemma list_items_typed: "it \<in> set (list_items ck t response) \<Longrightarrow> typed_interaction ck it \<and> it_thread it = t"
  by (auto simp: list_items_def mem_map_filter dest: normalize_typed)

section \<open>The invariant\<close>

definition request_ok :: "response_request \<Rightarrow> bool" where
  "request_ok rq \<longleftrightarrow> (\<exists>d. rq = decision_request d) \<or> (\<exists>as. rq = answer_request as)"

lemma request_ok_made [simp]: "request_ok (decision_request d)" "request_ok (answer_request as)"
  by (auto simp: request_ok_def)

text \<open>The fingerprint of a request determines it.\<close>

lemma fingerprint_inject: "request_ok a \<Longrightarrow> request_ok b \<Longrightarrow> rq_fingerprint a = rq_fingerprint b \<Longrightarrow> a = b"
  by (auto simp: request_ok_def decision_request_def answer_request_def js_def inj_map_eq_map inj_def dest: json_answers_inject)

fun call_ref :: "interaction_call \<Rightarrow> nat option" where
  "call_ref (Responding r it rq) = Some r"
| "call_ref (Confirming r it asked) = Some r"
| "call_ref (Recovering r it err asked) = Some r"
| "call_ref (ExpiryListing t asked) = None"

abbreviation call_refs :: "interactions \<Rightarrow> nat list" where
  "call_refs s \<equiv> List.map_filter call_ref (ix_calls s)"

text \<open>The requests sent for one mutation are the same, and a mutation knows the request it stands for.\<close>

definition sent_ok :: "interactions \<Rightarrow> bool" where
  "sent_ok s \<longleftrightarrow>
     (\<forall>a\<in>set (ix_sent s). request_ok (sn_request a) \<and> sn_ref a < ix_refs s)
     \<and> (\<forall>a\<in>set (ix_sent s). \<forall>b\<in>set (ix_sent s). sn_ref a = sn_ref b \<longrightarrow>
          sn_interaction a = sn_interaction b \<and> sn_request a = sn_request b \<and> sn_clientRequestId a = sn_clientRequestId b)"

definition mutation_ok :: "interactions \<Rightarrow> jstr \<Rightarrow> mutation \<Rightarrow> bool" where
  "mutation_ok s i m \<longleftrightarrow>
     i \<in> it_id ` set (ix_pending s) \<and> mu_ref m < ix_refs s
     \<and> (\<exists>rq. request_ok rq \<and> mu_fingerprint m = rq_fingerprint rq \<and> mu_decision m = rq_decision rq)
     \<and> (\<forall>a\<in>set (ix_sent s). sn_ref a = mu_ref m \<longrightarrow> sn_interaction a = i \<and> rq_fingerprint (sn_request a) = mu_fingerprint m
          \<and> sn_clientRequestId a = mu_clientRequestId m)
     \<and> (mu_state m = Retryable \<longrightarrow> mu_ref m \<notin> set (call_refs s))"

definition calls_ok :: "interactions \<Rightarrow> bool" where
  "calls_ok s \<longleftrightarrow> distinct (call_refs s) \<and> (\<forall>r\<in>set (call_refs s). r < ix_refs s)"

definition core_ok :: "interactions \<Rightarrow> bool" where
  "core_ok s \<longleftrightarrow> sent_ok s \<and> calls_ok s \<and> (\<forall>i m. ix_mutations s i = Some m \<longrightarrow> mutation_ok s i m)
     \<and> (\<forall>i j m n. ix_mutations s i = Some m \<longrightarrow> ix_mutations s j = Some n \<longrightarrow> mu_ref m = mu_ref n \<longrightarrow> i = j)
     \<and> dom (ix_answers s) \<subseteq> it_id ` set (ix_pending s)"

definition delay_ok :: "interactions \<Rightarrow> bool" where
  "delay_ok s \<longleftrightarrow> (\<forall>d. ix_timer s = Some d \<longrightarrow> 250 \<le> d \<and> d \<le> 2147483647)"

definition interactions_inv :: "clock \<Rightarrow> interactions \<Rightarrow> bool" where
  "interactions_inv ck s \<longleftrightarrow> core_ok s \<and> delay_ok s \<and> list_all (typed_interaction ck) (ix_pending s)"

lemmas core_defs = core_ok_def sent_ok_def calls_ok_def mutation_ok_def

section \<open>What the operations leave alone\<close>

lemma expiry_fields [simp]:
  "ix_thread (scheduleInteractionExpiryRefresh ck h s) = ix_thread s" "ix_supervisor (scheduleInteractionExpiryRefresh ck h s) = ix_supervisor s"
  "ix_pending (scheduleInteractionExpiryRefresh ck h s) = ix_pending s" "ix_mutations (scheduleInteractionExpiryRefresh ck h s) = ix_mutations s"
  "ix_answers (scheduleInteractionExpiryRefresh ck h s) = ix_answers s" "ix_refs (scheduleInteractionExpiryRefresh ck h s) = ix_refs s"
  "ix_calls (scheduleInteractionExpiryRefresh ck h s) = ix_calls s" "ix_sent (scheduleInteractionExpiryRefresh ck h s) = ix_sent s"
  "ix_error (scheduleInteractionExpiryRefresh ck h s) = ix_error s"
  by (simp_all add: scheduleInteractionExpiryRefresh_def)

lemma renderInteractions_fields [simp]:
  "ix_thread (renderInteractions ck h s) = ix_thread s" "ix_supervisor (renderInteractions ck h s) = ix_supervisor s"
  "ix_pending (renderInteractions ck h s) = ix_pending s" "ix_mutations (renderInteractions ck h s) = ix_mutations s"
  "ix_answers (renderInteractions ck h s) = ix_answers s" "ix_refs (renderInteractions ck h s) = ix_refs s"
  "ix_calls (renderInteractions ck h s) = ix_calls s" "ix_sent (renderInteractions ck h s) = ix_sent s"
  "ix_error (renderInteractions ck h s) = ix_error s"
  by (simp_all add: renderInteractions_def Let_def)

lemma render_fields [simp]:
  "ix_thread (render_panel ck h s) = ix_thread s" "ix_supervisor (render_panel ck h s) = ix_supervisor s"
  "ix_pending (render_panel ck h s) = ix_pending s" "ix_mutations (render_panel ck h s) = ix_mutations s"
  "ix_answers (render_panel ck h s) = ix_answers s" "ix_refs (render_panel ck h s) = ix_refs s"
  "ix_calls (render_panel ck h s) = ix_calls s" "ix_sent (render_panel ck h s) = ix_sent s"
  "ix_error (render_panel ck h s) = ix_error s"
  by (simp_all add: render_panel_def)

lemma core_ok_frame [simp]:
  "core_ok (render_panel ck h s) = core_ok s" "core_ok (renderInteractions ck h s) = core_ok s"
  "core_ok (scheduleInteractionExpiryRefresh ck h s) = core_ok s" "core_ok (assign_error h err s) = core_ok s"
  "core_ok (s\<lparr>ix_error := e\<rparr>) = core_ok s" "core_ok (s\<lparr>ix_thread := t\<rparr>) = core_ok s" "core_ok (s\<lparr>ix_timer := d\<rparr>) = core_ok s"
  "core_ok (s\<lparr>ix_suspended := b\<rparr>) = core_ok s" "core_ok (s\<lparr>ix_queued := b\<rparr>) = core_ok s" "core_ok (s\<lparr>ix_supervisor := b\<rparr>) = core_ok s"
  "core_ok (s\<lparr>ix_announced := a\<rparr>) = core_ok s"
  by (simp_all add: core_defs assign_error_def)

lemma expiry_delay_bounds: "250 \<le> expiry_delay ck now items" "expiry_delay ck now items \<le> 2147483647"
  by (simp_all add: expiry_delay_def Let_def)

lemma delay_ok_frame [simp]:
  "delay_ok s \<Longrightarrow> delay_ok (scheduleInteractionExpiryRefresh ck h s)" "delay_ok (s\<lparr>ix_error := e\<rparr>) = delay_ok s"
  "delay_ok (s\<lparr>ix_thread := t\<rparr>) = delay_ok s" "delay_ok (s\<lparr>ix_timer := None\<rparr>)" "delay_ok (s\<lparr>ix_suspended := b\<rparr>) = delay_ok s"
  "delay_ok (s\<lparr>ix_queued := b\<rparr>) = delay_ok s" "delay_ok (s\<lparr>ix_supervisor := b\<rparr>) = delay_ok s"
  "delay_ok (s\<lparr>ix_cards := cs\<rparr>) = delay_ok s" "delay_ok (s\<lparr>ix_announced := a\<rparr>) = delay_ok s" "delay_ok (s\<lparr>ix_answers := f\<rparr>) = delay_ok s"
  "delay_ok (s\<lparr>ix_refs := n\<rparr>) = delay_ok s" "delay_ok (s\<lparr>ix_sent := ms\<rparr>) = delay_ok s" "delay_ok (assign_error h err s) = delay_ok s"
  "delay_ok (s\<lparr>ix_mutations := g\<rparr>) = delay_ok s" "delay_ok (s\<lparr>ix_pending := ps\<rparr>) = delay_ok s"
  "delay_ok (set_mutation i m s) = delay_ok s" "delay_ok (open_call c s) = delay_ok s" "delay_ok (close_call c s) = delay_ok s"
  "delay_ok (replacePendingInteractions items s) = delay_ok s"
  by (auto simp: delay_ok_def scheduleInteractionExpiryRefresh_def assign_error_def set_mutation_def open_call_def close_call_def
      replacePendingInteractions_def Let_def expiry_delay_bounds)

lemma delay_ok_render [simp]: "delay_ok s \<Longrightarrow> delay_ok (renderInteractions ck h s)" "delay_ok s \<Longrightarrow> delay_ok (render_panel ck h s)"
  by (simp_all add: renderInteractions_def render_panel_def Let_def)

section \<open>The operations keep the invariant\<close>

lemma map_filter_remove1:
  "distinct (List.map_filter f xs) \<Longrightarrow> distinct (List.map_filter f (remove1 c xs))"
  "set (List.map_filter f (remove1 c xs)) \<subseteq> set (List.map_filter f xs)"
  "distinct (List.map_filter f xs) \<Longrightarrow> c \<in> set xs \<Longrightarrow> f c = Some r \<Longrightarrow> r \<notin> set (List.map_filter f (remove1 c xs))"
  by (induction xs) (auto split: option.splits simp: mem_map_filter dest: in_set_remove1 [THEN iffD1] notin_set_remove1 set_remove1_subset [THEN subsetD])

lemma map_filter_snoc [simp]:
  "List.map_filter f (xs @ [x]) = List.map_filter f xs @ (case f x of None \<Rightarrow> [] | Some y \<Rightarrow> [y])"
  by (induction xs) (auto split: option.split)

lemma sent_ok_frame [simp]:
  "sent_ok (close_call c s) = sent_ok s" "sent_ok (open_call c s) = sent_ok s" "sent_ok (set_mutation i m s) = sent_ok s"
  "sent_ok (replacePendingInteractions items s) = sent_ok s" "sent_ok (forget_interactions s) = sent_ok s"
  by (simp_all add: sent_ok_def close_call_def open_call_def set_mutation_def replacePendingInteractions_def forget_interactions_def
      clearInteractionExpiryTimer_def Let_def)

lemma calls_ok_frame [simp]:
  "calls_ok (set_mutation i m s) = calls_ok s" "calls_ok (replacePendingInteractions items s) = calls_ok s"
  "calls_ok (forget_interactions s) = calls_ok s"
  by (simp_all add: calls_ok_def set_mutation_def replacePendingInteractions_def forget_interactions_def
      clearInteractionExpiryTimer_def Let_def)

lemma core_okI:
  assumes "sent_ok s" "calls_ok s" "\<And>i m. ix_mutations s i = Some m \<Longrightarrow> mutation_ok s i m"
    "\<And>i j m n. ix_mutations s i = Some m \<Longrightarrow> ix_mutations s j = Some n \<Longrightarrow> mu_ref m = mu_ref n \<Longrightarrow> i = j"
    "\<And>i. ix_answers s i \<noteq> None \<Longrightarrow> i \<in> it_id ` set (ix_pending s)"
  shows "core_ok s"
  using assms unfolding core_ok_def by blast

lemma core_okD:
  assumes "core_ok s"
  shows "sent_ok s" "calls_ok s" "ix_mutations s i = Some m \<Longrightarrow> mutation_ok s i m"
    "ix_mutations s i = Some m \<Longrightarrow> ix_mutations s j = Some n \<Longrightarrow> mu_ref m = mu_ref n \<Longrightarrow> i = j"
    "ix_answers s i \<noteq> None \<Longrightarrow> i \<in> it_id ` set (ix_pending s)"
  using assms unfolding core_ok_def by blast+

lemma mutation_okD:
  assumes "mutation_ok s i m"
  shows "i \<in> it_id ` set (ix_pending s)" "mu_ref m < ix_refs s"
    "mu_state m = Retryable \<Longrightarrow> mu_ref m \<notin> set (call_refs s)"
    "\<exists>rq. request_ok rq \<and> mu_fingerprint m = rq_fingerprint rq \<and> mu_decision m = rq_decision rq"
    "a \<in> set (ix_sent s) \<Longrightarrow> sn_ref a = mu_ref m \<Longrightarrow>
      sn_interaction a = i \<and> rq_fingerprint (sn_request a) = mu_fingerprint m \<and> sn_clientRequestId a = mu_clientRequestId m"
  using assms unfolding mutation_ok_def by blast+

lemma mutation_ok_mono:
  assumes "mutation_ok s i m" "i \<in> it_id ` set (ix_pending t)" "ix_sent t = ix_sent s" "ix_refs t = ix_refs s"
    "mu_state m = Retryable \<Longrightarrow> mu_ref m \<notin> set (call_refs t)"
  shows "mutation_ok t i m"
  using assms unfolding mutation_ok_def by simp

lemma core_ok_close: 
  assumes "core_ok s"
  shows "core_ok (close_call c s)"
proof (rule core_okI)
  note f = map_filter_remove1(1,2) [where f = call_ref and xs = "ix_calls s" and c = c]
  show "sent_ok (close_call c s)" using core_okD(1) [OF assms] by simp
  show "calls_ok (close_call c s)" using core_okD(2) [OF assms] f by (auto simp: calls_ok_def close_call_def)
  show "mutation_ok (close_call c s) i m" if "ix_mutations (close_call c s) i = Some m" for i m
    using that f(2) mutation_okD [OF core_okD(3) [OF assms, of i m]]
    by (intro mutation_ok_mono [OF core_okD(3) [OF assms]]) (auto simp: close_call_def)
qed (use core_okD(4,5) [OF assms] in \<open>auto simp: close_call_def\<close>)

lemma core_ok_open:
  assumes "core_ok s" and new: "\<And>r. call_ref c = Some r \<Longrightarrow> r < ix_refs s \<and> r \<notin> set (call_refs s)"
    and live: "\<And>r i m. call_ref c = Some r \<Longrightarrow> ix_mutations s i = Some m \<Longrightarrow> mu_ref m = r \<Longrightarrow> mu_state m \<noteq> Retryable"
  shows "core_ok (open_call c s)"
proof (rule core_okI)
  show "sent_ok (open_call c s)" using core_okD(1) [OF assms(1)] by simp
  show "calls_ok (open_call c s)" using core_okD(2) [OF assms(1)] new by (cases "call_ref c") (auto simp: calls_ok_def open_call_def)
  show "mutation_ok (open_call c s) i m" if "ix_mutations (open_call c s) i = Some m" for i m
    using that live mutation_okD [OF core_okD(3) [OF assms(1), of i m]]
    by (intro mutation_ok_mono [OF core_okD(3) [OF assms(1)]]; cases "call_ref c") (auto simp: open_call_def)
qed (use core_okD(4,5) [OF assms(1)] in \<open>auto simp: open_call_def\<close>)

lemma core_ok_set:
  assumes "core_ok s" "ix_mutations s i = Some m" "mu_ref n = mu_ref m" "mu_fingerprint n = mu_fingerprint m"
    "mu_decision n = mu_decision m" "mu_clientRequestId n = mu_clientRequestId m" "mu_state n = Retryable \<Longrightarrow> mu_ref m \<notin> set (call_refs s)"
  shows "core_ok (set_mutation i (Some n) s)"
proof (rule core_okI)
  show "sent_ok (set_mutation i (Some n) s)" using core_okD(1) [OF assms(1)] by simp
  show "calls_ok (set_mutation i (Some n) s)" using core_okD(2) [OF assms(1)] by simp
  show "mutation_ok (set_mutation i (Some n) s) j k" if "ix_mutations (set_mutation i (Some n) s) j = Some k" for j k
  proof (cases "j = i")
    case True
    then show ?thesis
      using that core_okD(3) [OF assms(1,2)] assms(3-7) by (simp add: mutation_ok_def set_mutation_def)
  next
    case False
    then show ?thesis using that core_okD(3) [OF assms(1), of j k] by (simp add: mutation_ok_def set_mutation_def)
  qed
  have old: "\<exists>a'. ix_mutations s j = Some a' \<and> mu_ref a' = mu_ref a" if "ix_mutations (set_mutation i (Some n) s) j = Some a" for j a
    using that assms(2,3) by (cases "j = i") (simp_all add: set_mutation_def)
  show "j = k"
    if jk: "ix_mutations (set_mutation i (Some n) s) j = Some a" "ix_mutations (set_mutation i (Some n) s) k = Some b" "mu_ref a = mu_ref b"
    for j k a b
  proof -
    obtain a' b' where "ix_mutations s j = Some a'" "ix_mutations s k = Some b'" "mu_ref a' = mu_ref b'"
      using old [OF jk(1)] old [OF jk(2)] jk(3) by auto
    then show ?thesis by (rule core_okD(4) [OF assms(1)])
  qed
qed (use core_okD(5) [OF assms(1)] in \<open>simp add: set_mutation_def\<close>)

lemma core_ok_replace:
  assumes "core_ok s"
  shows "core_ok (replacePendingInteractions items s)"
proof (rule core_okI)
  let ?t = "replacePendingInteractions items s"
  show "sent_ok ?t" "calls_ok ?t"
    using core_okD(1,2) [OF assms] by simp_all
  show "mutation_ok ?t i m" if "ix_mutations ?t i = Some m" for i m
    using that mutation_okD [OF core_okD(3) [OF assms, of i m]]
    by (intro mutation_ok_mono [OF core_okD(3) [OF assms]])
      (auto simp: replacePendingInteractions_def Let_def split: if_splits)
qed (use core_okD(4,5) [OF assms] in \<open>auto simp: replacePendingInteractions_def Let_def split: if_splits\<close>)

lemma core_ok_forget: "core_ok s \<Longrightarrow> core_ok (forget_interactions s)"
  using core_okD(1,2) [of s]
  by (intro core_okI) (simp_all, simp_all add: forget_interactions_def clearInteractionExpiryTimer_def)

lemma core_ok_fresh:
  assumes "core_ok s" "ix_mutations s i = None" "i \<in> it_id ` set (ix_pending s)" "mu_ref m = ix_refs s" "mu_state m = Sending"
    "request_ok rq" "mu_fingerprint m = rq_fingerprint rq" "mu_decision m = rq_decision rq"
  shows "core_ok ((set_mutation i (Some m) s)\<lparr>ix_refs := Suc (ix_refs s)\<rparr>)" (is "core_ok ?t")
proof (rule core_okI)
  have sent: "\<forall>a\<in>set (ix_sent s). sn_ref a < ix_refs s" using core_okD(1) [OF assms(1)] unfolding sent_ok_def by blast
  have old: "mu_ref n < ix_refs s" if "ix_mutations s j = Some n" for j n
    using mutation_okD(2) [OF core_okD(3) [OF assms(1) that]] .
  have look: "j = i \<and> n = m \<or> j \<noteq> i \<and> ix_mutations s j = Some n" if "ix_mutations ?t j = Some n" for j n
    using that by (auto simp: set_mutation_def split: if_splits)
  have f: "ix_sent ?t = ix_sent s" "ix_calls ?t = ix_calls s" "ix_pending ?t = ix_pending s" "ix_refs ?t = Suc (ix_refs s)" "ix_answers ?t = ix_answers s"
    by (simp_all add: set_mutation_def)
  show "sent_ok ?t" using core_okD(1) [OF assms(1)] unfolding sent_ok_def f by (blast intro: less_SucI)
  show "calls_ok ?t" using core_okD(2) [OF assms(1)] unfolding calls_ok_def f by (blast intro: less_SucI)
  show "mutation_ok ?t j n" if "ix_mutations ?t j = Some n" for j n
  proof (cases "j = i")
    case True
    then have "n = m" using look [OF that] by blast
    moreover have "\<forall>a\<in>set (ix_sent s). sn_ref a \<noteq> ix_refs s" using sent by auto
    ultimately show ?thesis using assms(3-8) True unfolding mutation_ok_def f by auto
  next
    case False
    then have n: "ix_mutations s j = Some n" using look [OF that] by blast
    show ?thesis using core_okD(3) [OF assms(1) n] unfolding mutation_ok_def f by (blast intro: less_SucI)
  qed
  show "j = k" if "ix_mutations ?t j = Some a" "ix_mutations ?t k = Some b" "mu_ref a = mu_ref b" for j k a b
    using look [OF that(1)] look [OF that(2)] that(3) old [of j a] old [of k b] assms(4) core_okD(4) [OF assms(1), of j a k b] by auto
  show "j \<in> it_id ` set (ix_pending ?t)" if "ix_answers ?t j \<noteq> None" for j
    using core_okD(5) [OF assms(1), of j] that unfolding f by blast
qed

lemma core_ok_sent:
  assumes "core_ok s" "ix_mutations s i = Some m" "request_ok (sn_request e)" "rq_fingerprint (sn_request e) = mu_fingerprint m"
    "sn_ref e = mu_ref m" "sn_interaction e = i" "sn_clientRequestId e = mu_clientRequestId m"
  shows "core_ok (s\<lparr>ix_sent := ix_sent s @ [e]\<rparr>)" (is "core_ok ?t")
proof (rule core_okI)
  note m = mutation_okD [OF core_okD(3) [OF assms(1,2)]]
  have s: "sent_ok s" by (rule core_okD(1) [OF assms(1)])
  have same: "sn_interaction a = sn_interaction e \<and> sn_request a = sn_request e \<and> sn_clientRequestId a = sn_clientRequestId e"
    if "a \<in> set (ix_sent s)" "sn_ref a = mu_ref m" for a
  proof -
    have "request_ok (sn_request a)" using s that(1) unfolding sent_ok_def by blast
    then show ?thesis using m(5) [OF that] fingerprint_inject [of "sn_request a" "sn_request e"] assms(3,4,6,7) by simp
  qed
  have "\<forall>a\<in>set (ix_sent s). request_ok (sn_request a) \<and> sn_ref a < ix_refs s" using s unfolding sent_ok_def by blast
  then have "\<forall>a\<in>set (ix_sent ?t). request_ok (sn_request a) \<and> sn_ref a < ix_refs ?t" using assms(3,5) m(2) by auto
  moreover have "sn_interaction a = sn_interaction b \<and> sn_request a = sn_request b \<and> sn_clientRequestId a = sn_clientRequestId b"
    if ab: "a \<in> set (ix_sent ?t)" "b \<in> set (ix_sent ?t)" "sn_ref a = sn_ref b" for a b
  proof -
    consider "a = e" "b = e" | "a = e" "b \<in> set (ix_sent s)" | "b = e" "a \<in> set (ix_sent s)" | "a \<in> set (ix_sent s)" "b \<in> set (ix_sent s)"
      using ab(1,2) by auto
    then show ?thesis
    proof cases
      case 2
      then show ?thesis using same [of b] ab(3) assms(5) by metis
    next
      case 3
      then show ?thesis using same [of a] ab(3) assms(5) by metis
    next
      case 4
      then show ?thesis using s ab(3) unfolding sent_ok_def by blast
    qed simp
  qed
  ultimately show "sent_ok ?t" unfolding sent_ok_def by blast
  show "calls_ok ?t" using core_okD(2) [OF assms(1)] unfolding calls_ok_def by simp
  show "mutation_ok ?t j n" if "ix_mutations ?t j = Some n" for j n
  proof -
    have jn: "ix_mutations s j = Some n" using that by simp
    have "n = m \<and> j = i" if "sn_ref e = mu_ref n"
      using core_okD(4) [OF assms(1) jn assms(2)] that assms(2,5) jn by auto
    then show ?thesis
      using mutation_okD [OF core_okD(3) [OF assms(1) jn]] assms(4,6,7) unfolding mutation_ok_def by auto
  qed
  show "j = k" if "ix_mutations ?t j = Some a" "ix_mutations ?t k = Some b" "mu_ref a = mu_ref b" for j k a b
    using core_okD(4) [OF assms(1), of j a k b] that by simp
  show "j \<in> it_id ` set (ix_pending ?t)" if "ix_answers ?t j \<noteq> None" for j
    using core_okD(5) [OF assms(1), of j] that by simp
qed

lemma core_ok_submit:
  assumes "core_ok s" "it \<in> set (ix_pending s)" "request_ok rq"
  shows "core_ok (submitInteractionResponse ck h entropy it rq s)"
proof -
  define existing where "existing = ix_mutations s (it_id it)"
  consider "map_option mu_state existing \<in> {Some Sending, Some Reconciling} \<or> existing \<noteq> None \<and> mu_fingerprint (the existing) \<noteq> rq_fingerprint rq"
    | "existing = None" | m where "existing = Some m" "mu_state m = Retryable" "mu_fingerprint m = rq_fingerprint rq"
    by (cases existing) (auto, metis mutation_state.exhaust)
  then show ?thesis
  proof cases
    case 1
    then show ?thesis
      using assms(1) by (cases "map_option mu_state existing \<in> {Some Sending, Some Reconciling}")
        (auto simp: submitInteractionResponse_def Let_def existing_def)
  next
    case 2
    define m where "m = \<lparr>mu_ref = ix_refs s, mu_thread = it_thread it, mu_kind = rq_kind rq, mu_fingerprint = rq_fingerprint rq,
       mu_clientRequestId = createClientRequestId (rq_kind rq) entropy, mu_decision = rq_decision rq,
       mu_answers = rq_answers rq, mu_state = Sending, mu_deliveryConfirmed = False\<rparr>"
    define t where "t = (set_mutation (it_id it) (Some m) s)\<lparr>ix_refs := Suc (ix_refs s)\<rparr>"
    have t: "core_ok t" unfolding t_def
      by (rule core_ok_fresh [OF assms(1), where rq = rq]) (use 2 assms(2,3) in \<open>simp_all add: m_def existing_def\<close>)
    let ?c = "Responding (ix_refs s) it rq"
    have i: "ix_mutations t (it_id it) = Some m" by (simp add: t_def set_mutation_def)
    have c: "core_ok (open_call ?c (render_panel ck h t))"
    proof (rule core_ok_open)
      have "\<forall>r\<in>set (call_refs s). r < ix_refs s" using core_okD(2) [OF assms(1)] by (simp add: calls_ok_def)
      then show "r < ix_refs (render_panel ck h t) \<and> r \<notin> set (call_refs (render_panel ck h t))" if "call_ref ?c = Some r" for r
        using that by (auto simp: t_def set_mutation_def)
      show "mu_state n \<noteq> Retryable" if "call_ref ?c = Some r" "ix_mutations (render_panel ck h t) j = Some n" "mu_ref n = r" for r j n
        using core_okD(4) [OF t i, of j n] that i by (auto simp: m_def)
    qed (simp add: t)
    let ?e = "\<lparr>sn_ref = ix_refs s, sn_interaction = it_id it, sn_thread = it_thread it, sn_request = rq,
      sn_clientRequestId = createClientRequestId (rq_kind rq) entropy\<rparr>"
    define u where "u = open_call ?c (render_panel ck h t)"
    have "core_ok (u\<lparr>ix_sent := ix_sent u @ [?e]\<rparr>)"
      by (rule core_ok_sent [OF c [folded u_def], of "it_id it" m]) (use i assms(3) in \<open>simp_all add: u_def open_call_def m_def\<close>)
    moreover have "submitInteractionResponse ck h entropy it rq s = u\<lparr>ix_sent := ix_sent u @ [?e]\<rparr>"
      using 2 by (simp add: submitInteractionResponse_def Let_def existing_def [symmetric] u_def t_def m_def open_call_def set_mutation_def)
    ultimately show ?thesis by simp
  next
    case (3 m)
    let ?m = "m\<lparr>mu_state := Sending\<rparr>" and ?c = "Responding (mu_ref m) it rq"
    define t where "t = set_mutation (it_id it) (Some ?m) s"
    note ex = 3(1) [unfolded existing_def]
    have t: "core_ok t" unfolding t_def by (rule core_ok_set [OF assms(1) ex]) simp_all
    have i: "ix_mutations t (it_id it) = Some ?m" by (simp add: t_def set_mutation_def)
    have c: "core_ok (open_call ?c (render_panel ck h t))"
    proof (rule core_ok_open)
      show "r < ix_refs (render_panel ck h t) \<and> r \<notin> set (call_refs (render_panel ck h t))" if "call_ref ?c = Some r" for r
        using that mutation_okD(2,3) [OF core_okD(3) [OF assms(1) ex]] 3(2) by (simp add: t_def set_mutation_def)
      show "mu_state n \<noteq> Retryable" if "call_ref ?c = Some r" "ix_mutations (render_panel ck h t) j = Some n" "mu_ref n = r" for r j n
        using core_okD(4) [OF t i, of j n] that i by auto
    qed (simp add: t)
    let ?e = "\<lparr>sn_ref = mu_ref m, sn_interaction = it_id it, sn_thread = it_thread it, sn_request = rq,
      sn_clientRequestId = mu_clientRequestId m\<rparr>"
    define u where "u = open_call ?c (render_panel ck h t)"
    have "core_ok (u\<lparr>ix_sent := ix_sent u @ [?e]\<rparr>)"
      by (rule core_ok_sent [OF c [folded u_def], of "it_id it" ?m]) (use i 3(3) assms(3) in \<open>simp_all add: u_def open_call_def\<close>)
    moreover have "submitInteractionResponse ck h entropy it rq s = u\<lparr>ix_sent := ix_sent u @ [?e]\<rparr>"
      using 3 by (simp add: submitInteractionResponse_def Let_def existing_def [symmetric] u_def t_def open_call_def set_mutation_def)
    ultimately show ?thesis by simp
  qed
qed

lemma core_ok_drop:
  assumes "core_ok s"
  shows "core_ok ((set_mutation i None s)\<lparr>ix_answers := (ix_answers s)(i := None)\<rparr>)" (is "core_ok ?t")
proof (rule core_okI)
  have f: "sent_ok ?t = sent_ok s" "calls_ok ?t = calls_ok s" by (simp_all add: sent_ok_def calls_ok_def set_mutation_def)
  show "sent_ok ?t" "calls_ok ?t" using core_okD(1,2) [OF assms] f by blast+
  show "mutation_ok ?t j m" if "ix_mutations ?t j = Some m" for j m
    using that mutation_okD [OF core_okD(3) [OF assms, of j m]]
    by (intro mutation_ok_mono [OF core_okD(3) [OF assms]]) (auto simp: set_mutation_def split: if_splits)
qed (use core_okD(4,5) [OF assms] in \<open>auto simp: set_mutation_def split: if_splits\<close>)

lemma current_mutationD: "current_mutation r it s = Some m \<Longrightarrow> ix_mutations s (it_id it) = Some m \<and> mu_ref m = r \<and> in_selected s it"
  by (auto simp: current_mutation_def split: option.splits if_splits)

text \<open>A response goes on to the next call: the mutation is reconciling and the first call is closed.\<close>

lemma core_ok_reopen:
  assumes "core_ok s" "c \<in> set (ix_calls s)" "call_ref c = Some r" "call_ref c' = Some r"
    "current_mutation r it (close_call c s) = Some m" "mu_ref n = mu_ref m" "mu_fingerprint n = mu_fingerprint m"
    "mu_decision n = mu_decision m" "mu_clientRequestId n = mu_clientRequestId m" "mu_state n = Reconciling"
  shows "core_ok (open_call c' (render_panel ck h (set_mutation (it_id it) (Some n) (close_call c s))))"
proof -
  define t where "t = set_mutation (it_id it) (Some n) (close_call c s)"
  note m = current_mutationD [OF assms(5)]
  have t: "core_ok t" unfolding t_def
    by (rule core_ok_set [OF core_ok_close [OF assms(1)], where m = m]) (use m assms(6-10) in simp_all)
  have i: "ix_mutations t (it_id it) = Some n" by (simp add: t_def set_mutation_def)
  have r: "r < ix_refs s" "r \<notin> set (List.map_filter call_ref (remove1 c (ix_calls s)))"
    using core_okD(2) [OF assms(1)] map_filter_remove1(3) [of call_ref "ix_calls s" c r] assms(2,3)
    by (auto simp: calls_ok_def mem_map_filter)
  have "core_ok (open_call c' (render_panel ck h t))"
  proof (rule core_ok_open)
    show "r' < ix_refs (render_panel ck h t) \<and> r' \<notin> set (call_refs (render_panel ck h t))" if "call_ref c' = Some r'" for r'
      using that r assms(4) by (simp add: t_def set_mutation_def close_call_def)
    show "mu_state a \<noteq> Retryable" if a: "call_ref c' = Some r'" "ix_mutations (render_panel ck h t) j = Some a" "mu_ref a = r'" for r' j a
    proof -
      have "mu_ref n = mu_ref a" using a assms(4,6) m by simp
      then have "j = it_id it" using core_okD(4) [OF t i, of j a] a(2) by simp
      then show ?thesis using a(2) i assms(10) by simp
    qed
  qed (simp add: t)
  then show ?thesis by (simp add: t_def)
qed

lemma core_ok_confirmed: "core_ok s \<Longrightarrow> Responding r it rq \<in> set (ix_calls s) \<Longrightarrow> core_ok (response_confirmed ck h r it rq s)"
  by (auto simp: response_confirmed_def Let_def core_ok_close intro!: core_ok_reopen split: option.split)

lemma core_ok_failed: "core_ok s \<Longrightarrow> Responding r it rq \<in> set (ix_calls s) \<Longrightarrow> core_ok (response_failed ck h r it rq err s)"
  by (auto simp: response_failed_def Let_def core_ok_close intro!: core_ok_reopen split: option.split)

lemma core_ok_listed: "core_ok s \<Longrightarrow> core_ok (response_listed ck h r it asked reply s)"
  by (simp add: response_listed_def Let_def core_ok_close core_ok_replace split: sum.split)

lemma core_ok_settled:
  assumes "core_ok s" "ix_mutations s (it_id it) = Some m" "mu_ref m \<notin> set (call_refs s)"
  shows "core_ok (response_settled ck h it m err stillPending s)"
  using core_ok_set [OF assms(1,2)] core_ok_drop [OF assms(1)] assms(3) by (simp add: response_settled_def)

lemma core_ok_recovered:
  assumes "core_ok s" "Recovering r it err asked \<in> set (ix_calls s)"
  shows "core_ok (recovery_listed ck h r it err asked reply s)"
proof -
  define listed where "listed = listPendingInteractions ck asked (it_thread it) reply"
  define s1 where "s1 = close_call (Recovering r it err asked) s"
  define s2 where "s2 = (case listed of Inl _ \<Rightarrow> s1
    | Inr items \<Rightarrow> if in_selected s1 it then replacePendingInteractions items s1 else s1)"
  have ok: "core_ok s2" using core_ok_close [OF assms(1)] by (simp add: s2_def s1_def core_ok_replace split: sum.split)
  have "call_refs s2 = call_refs s1" by (simp add: s2_def replacePendingInteractions_def Let_def split: sum.split)
  then have r: "r \<notin> set (call_refs s2)"
    using map_filter_remove1(3) [of call_ref "ix_calls s" _ r] assms core_okD(2) [OF assms(1)] by (simp add: s1_def close_call_def calls_ok_def)
  show ?thesis
  proof (cases "current_mutation r it s2")
    case None
    then show ?thesis using ok by (simp add: recovery_listed_def Let_def s1_def [symmetric] listed_def [symmetric] s2_def [symmetric])
  next
    case (Some m)
    then show ?thesis
      using core_ok_settled [OF ok, of it m] current_mutationD [OF Some] r
      by (simp add: recovery_listed_def Let_def s1_def [symmetric] listed_def [symmetric] s2_def [symmetric])
  qed
qed

lemma core_ok_decide: "core_ok s \<Longrightarrow> core_ok (decideInteraction ck h entropy i d s)"
  by (auto simp: decideInteraction_def find_interaction_def find_Some_iff intro!: core_ok_submit split: option.split)

lemma core_ok_answer: "core_ok s \<Longrightarrow> core_ok (answerInteractionFromTarget ck h entropy wrapper i s)"
  by (auto simp: answerInteractionFromTarget_def answerInteraction_def find_interaction_def find_Some_iff Let_def
      intro!: core_ok_submit split: option.split)

lemma core_ok_capture:
  assumes "core_ok s"
  shows "core_ok (captureInteractionAnswers ck h wrapper i s)"
proof (cases "form_model ck h i s")
  case (Some model)
  then have i: "i \<in> it_id ` set (ix_pending s)" by (auto simp: form_model_def find_Some_iff split: option.splits)
  show ?thesis unfolding captureInteractionAnswers_def Some option.case
  proof (rule core_okI)
    fix v
    let ?t = "s\<lparr>ix_answers := (ix_answers s)(i \<mapsto> v)\<rparr>"
    have f: "sent_ok ?t = sent_ok s" "calls_ok ?t = calls_ok s" "mutation_ok ?t j m = mutation_ok s j m" for j m
      by (simp_all add: sent_ok_def calls_ok_def mutation_ok_def)
    show "sent_ok ?t" "calls_ok ?t" using core_okD(1,2) [OF assms] f by blast+
    show "mutation_ok ?t j m" if "ix_mutations ?t j = Some m" for j m using core_okD(3) [OF assms] that f by simp
    show "j = k" if "ix_mutations ?t j = Some a" "ix_mutations ?t k = Some b" "mu_ref a = mu_ref b" for j k a b
      using core_okD(4) [OF assms, of j a k b] that by simp
    show "j \<in> it_id ` set (ix_pending ?t)" if "ix_answers ?t j \<noteq> None" for j
      using core_okD(5) [OF assms, of j] i that by (cases "j = i") simp_all
  qed
qed (simp add: captureInteractionAnswers_def assms)

lemma listed_typed: "listPendingInteractions ck asked t reply = Inr items \<Longrightarrow> list_all (typed_interaction ck) items"
  by (auto simp: listPendingInteractions_def list_all_iff list_items_typed split: if_splits sum.splits)

lemma pending_frame [simp]:
  "ix_pending (assign_error h err s) = ix_pending s" "ix_pending (open_call c s) = ix_pending s" "ix_pending (close_call c s) = ix_pending s"
  "ix_pending (set_mutation i m s) = ix_pending s" "ix_pending (replacePendingInteractions items s) = items"
  "ix_pending (submitInteractionResponse ck h entropy it rq s) = ix_pending s"
  "ix_pending (response_settled ck h it mu err stillPending s) = ix_pending s"
  by (simp_all add: assign_error_def open_call_def close_call_def set_mutation_def replacePendingInteractions_def
      submitInteractionResponse_def response_settled_def Let_def)

lemma delay_ok_submit [simp]: "delay_ok s \<Longrightarrow> delay_ok (submitInteractionResponse ck h entropy it rq s)"
  by (simp add: submitInteractionResponse_def Let_def)

lemma delay_ok_settled [simp]: "delay_ok s \<Longrightarrow> delay_ok (response_settled ck h it m err stillPending s)"
  by (simp add: response_settled_def)

lemma delay_and_types:
  assumes "interaction_step ck s t" "delay_ok s" "list_all (typed_interaction ck) (ix_pending s)"
  shows "delay_ok t \<and> list_all (typed_interaction ck) (ix_pending t)"
  using assms
  by (induction rule: interaction_step.induct)
    (auto simp: decideInteraction_def answerInteractionFromTarget_def answerInteraction_def captureInteractionAnswers_def
      response_confirmed_def response_failed_def response_listed_def recovery_listed_def expiry_fires_def expiry_listed_def
      retireThreadInteractionState_def forget_interactions_def clearInteractionExpiryTimer_def focus_out_def Let_def
      dest: listed_typed split: option.splits sum.splits)

lemma core_step:
  assumes "interaction_step ck s t" "core_ok s"
  shows "core_ok t"
  using assms
proof (induction rule: interaction_step.induct)
  case (select_chat s t)
  then show ?case using core_ok_forget [of s] by (simp add: retireThreadInteractionState_def)
next
  case (expires s h)
  then show ?case by (auto simp: expiry_fires_def Let_def intro!: core_ok_open split: option.split)
next
  case (expiring t asked s h reply)
  then show ?case by (simp add: expiry_listed_def Let_def core_ok_close core_ok_replace split: sum.split)
qed (simp_all add: core_ok_decide core_ok_answer core_ok_capture core_ok_confirmed core_ok_failed core_ok_listed core_ok_recovered
    core_ok_replace core_ok_forget focus_out_def clearInteractionExpiryTimer_def Let_def)

interpretation ix: inductive_invariant initial_interactions "interaction_step ck" "interaction_reachable ck" "interactions_inv ck" for ck
proof
  fix s t :: interactions and P
  show "initial_interactions s \<Longrightarrow> interaction_reachable ck s" by (rule interaction_reachable.start)
  show "interaction_reachable ck s \<Longrightarrow> interaction_step ck s t \<Longrightarrow> interaction_reachable ck t" by (rule interaction_reachable.move)
  show "interaction_reachable ck s \<Longrightarrow> (\<And>s. initial_interactions s \<Longrightarrow> P s) \<Longrightarrow>
      (\<And>s t. interaction_reachable ck s \<Longrightarrow> P s \<Longrightarrow> interaction_step ck s t \<Longrightarrow> P t) \<Longrightarrow> P s"
    by (erule interaction_reachable.induct) blast+
  show "initial_interactions s \<Longrightarrow> interactions_inv ck s"
    by (auto simp: initial_interactions_def interactions_inv_def core_defs delay_ok_def)
  show "interactions_inv ck s \<Longrightarrow> interaction_step ck s t \<Longrightarrow> interactions_inv ck t"
    using delay_and_types core_step by (auto simp: interactions_inv_def)
qed

section \<open>A sample run\<close>

definition sample_interaction :: interaction where
  "sample_interaction =
     \<lparr>it_id = js ''i1'', it_kind = ''command_approval'', it_thread = js ''t1'', it_event = jint 4, it_expires = js ''soon'',
      it_display = JObj [], it_allowed = [''accept'', ''decline'']\<rparr>"

definition sample_time :: clock where
  "sample_time = \<lparr>dateParse = (\<lambda>_. Fin 9000), isoString = (\<lambda>_. [])\<rparr>"

definition sample_ix_host :: ix_host where
  "sample_ix_host = \<lparr>ih_fmt = (\<lambda>_. []), ih_now = 1000\<rparr>"

text \<open>The chat is opened, its request is listed and shown, the user accepts, and the delivery fails.\<close>

definition ixs0 :: interactions where
  "ixs0 =
     \<lparr>ix_thread = None, ix_supervisor = True, ix_suspended = False, ix_queued = False, ix_pending = [], ix_mutations = (\<lambda>_. None),
      ix_answers = (\<lambda>_. None), ix_announced = [], ix_timer = None, ix_error = initial_error, ix_cards = [], ix_refs = 0, ix_calls = [],
      ix_sent = []\<rparr>"

definition ixs1 :: interactions where
  "ixs1 = (retireThreadInteractionState ixs0)\<lparr>ix_thread := Some (js ''t1'')\<rparr>"

definition ixs2 :: interactions where
  "ixs2 = replacePendingInteractions [sample_interaction] ixs1"

definition ixs3 :: interactions where
  "ixs3 = render_panel sample_time sample_ix_host ixs2"

definition ixs4 :: interactions where
  "ixs4 = decideInteraction sample_time sample_ix_host (js ''x'') (js ''i1'') ''accept'' ixs3"

definition ixs5 :: interactions where
  "ixs5 = response_failed sample_time sample_ix_host 0 sample_interaction (decision_request ''accept'') JNull ixs4"

lemma sample_typed: "typed_interaction sample_time sample_interaction"
  by (simp add: typed_interaction_def sample_interaction_def sample_time_def id_pattern_def is_id_char_def is_alpha_def is_digit_def
      INTERACTION_KINDS_def INTERACTION_ACTIONS_def finite_date_def actionable_def MAX_SAFE_def js_def)

definition sample_reply :: jsval where
  "sample_reply = JObj [(js ''items'', JArr [interaction_value sample_interaction])]"

lemma sample_listed: "listPendingInteractions sample_time True (js ''t1'') (Inr sample_reply) = Inr [sample_interaction]"
  using normalize_value [OF sample_typed]
  by (simp add: listPendingInteractions_def list_items_def sample_reply_def dot_JObj obj_get_def sample_interaction_def)

lemma ixs3_fields:
  "ix_thread ixs3 = Some (js ''t1'')" "ix_supervisor ixs3" "ix_pending ixs3 = [sample_interaction]" "ix_mutations ixs3 (js ''i1'') = None"
  "ix_cards ixs3 = [(sample_interaction, None)]" "ix_refs ixs3 = 0" "ix_calls ixs3 = []" "ix_sent ixs3 = []" "\<not> ix_suspended ixs3"
  by (simp_all add: ixs3_def ixs2_def ixs1_def ixs0_def render_panel_def renderInteractions_def scheduleInteractionExpiryRefresh_def
      replacePendingInteractions_def retireThreadInteractionState_def forget_interactions_def clearInteractionExpiryTimer_def in_selected_def
      sample_interaction_def Let_def)

lemma ixs4_fields:
  "ix_calls ixs4 = [Responding 0 sample_interaction (decision_request ''accept'')]" "ix_thread ixs4 = Some (js ''t1'')"
  "map_option mu_ref (ix_mutations ixs4 (js ''i1'')) = Some 0" "ix_supervisor ixs4"
  using ixs3_fields
  by (simp_all add: ixs4_def decideInteraction_def find_interaction_def in_selected_def submitInteractionResponse_def open_call_def
      set_mutation_def sample_interaction_def Let_def)

lemma ixs5_fields: "ix_calls ixs5 = [Recovering 0 sample_interaction JNull True]" "ix_thread ixs5 = Some (js ''t1'')"
proof -
  obtain m where "ix_mutations ixs4 (js ''i1'') = Some m" "mu_ref m = 0" using ixs4_fields(3) by auto
  then show "ix_calls ixs5 = [Recovering 0 sample_interaction JNull True]" "ix_thread ixs5 = Some (js ''t1'')"
    using ixs4_fields
    by (simp_all add: ixs5_def response_failed_def current_mutation_def in_selected_def close_call_def open_call_def set_mutation_def
        sample_interaction_def Let_def)
qed

lemma sample_run: "interaction_reachable sample_time ixs3" "interaction_reachable sample_time ixs4" "interaction_reachable sample_time ixs5"
proof -
  have "interaction_reachable sample_time ixs0" by (rule interaction_reachable.start) (simp add: initial_interactions_def ixs0_def)
  then have 1: "interaction_reachable sample_time ixs1" unfolding ixs1_def by (rule ix.reach_step) (rule select_chat)
  have 2: "interaction_reachable sample_time ixs2" unfolding ixs2_def
    by (rule ix.reach_step [OF 1]) (rule refreshed [OF _ sample_listed], simp add: ixs1_def)
  show 3: "interaction_reachable sample_time ixs3" unfolding ixs3_def by (rule ix.reach_step [OF 2]) (rule rendered)
  show 4: "interaction_reachable sample_time ixs4" unfolding ixs4_def by (rule ix.reach_step [OF 3]) (rule decide)
  show "interaction_reachable sample_time ixs5" unfolding ixs5_def
    by (rule ix.reach_step [OF 4]) (rule failed, simp add: ixs4_fields)
qed

section \<open>Properties\<close>

text \<open>
  C16: The list of pending interactions is well typed. Whatever the service answers, every
  interaction the panel keeps has identifiers of its alphabet and length, a known kind, the
  chat it was asked for, an event number, a date that can be read, a display object, at most
  the four known actions, each once, and one that its kind can use; reading it again gives
  the same interaction, and neither card fails on it.
\<close>

theorem listed_interactions_typed:
  assumes "listPendingInteractions ck asked threadId reply = Inr items" "it \<in> set items"
  shows "typed_interaction ck it \<and> it_thread it = threadId
    \<and> normalizePendingInteraction ck (interaction_value it) threadId = Some it
    \<and> getApprovalViewModel ck (interaction_value it) opts \<noteq> None \<and> getUserInputViewModel ck (interaction_value it) opts answers \<noteq> None"
proof -
  have t: "typed_interaction ck it \<and> it_thread it = threadId"
    using assms list_items_typed by (auto simp: listPendingInteractions_def split: if_splits sum.splits)
  then show ?thesis using normalize_value [of ck it] typed_views [of ck it] by auto
qed

theorem listed_interactions_typed_witness:
  "typed_interaction sample_time sample_interaction
   \<and> normalizePendingInteraction sample_time (interaction_value sample_interaction) (js ''t1'') = Some sample_interaction"
  using listed_interactions_typed [OF sample_listed, of sample_interaction] by simp

text \<open>
  C15: A response is repeated only as the same request. In every state the panel can reach,
  whatever is answered in whatever order: the requests sent for one response carry the same
  interaction, the same decision or answers and the same request identifier; no response has
  two calls open; a response that the user may repeat has none; and a response is kept only
  for an interaction that is listed.
\<close>

theorem response_repeated_identically:
  assumes "interaction_reachable ck s"
  shows "(\<forall>a\<in>set (ix_sent s). \<forall>b\<in>set (ix_sent s). sn_ref a = sn_ref b \<longrightarrow>
        sn_interaction a = sn_interaction b \<and> sn_request a = sn_request b \<and> sn_clientRequestId a = sn_clientRequestId b)
    \<and> distinct (call_refs s)
    \<and> (\<forall>i m. ix_mutations s i = Some m \<longrightarrow> i \<in> it_id ` set (ix_pending s)
        \<and> (mu_state m = Retryable \<longrightarrow> mu_ref m \<notin> set (call_refs s))
        \<and> (\<forall>a\<in>set (ix_sent s). sn_ref a = mu_ref m \<longrightarrow> sn_interaction a = i \<and> sn_clientRequestId a = mu_clientRequestId m))"
proof -
  have ok: "core_ok s" using ix.holds [OF assms] by (simp add: interactions_inv_def)
  have "distinct (call_refs s)" using core_okD(2) [OF ok] by (simp add: calls_ok_def)
  moreover have "i \<in> it_id ` set (ix_pending s) \<and> (mu_state m = Retryable \<longrightarrow> mu_ref m \<notin> set (call_refs s))
      \<and> (\<forall>a\<in>set (ix_sent s). sn_ref a = mu_ref m \<longrightarrow> sn_interaction a = i \<and> sn_clientRequestId a = mu_clientRequestId m)"
    if "ix_mutations s i = Some m" for i m
    using mutation_okD [OF core_okD(3) [OF ok that]] by blast
  ultimately show ?thesis using core_okD(1) [OF ok] unfolding sent_ok_def by blast
qed

theorem response_repeated_identically_witness: "distinct (call_refs ixs5) \<and> ix_calls ixs5 \<noteq> []"
  using response_repeated_identically [OF sample_run(3)] ixs5_fields by simp

text \<open>
  C17: Every decision a card offers is sent when it is chosen. For a listed approval of the
  selected chat an enabled decision opens exactly one call with that decision and leaves the
  error banner alone; when a response is already kept for it, that response may be repeated,
  and it is repeated under its own identity.
\<close>

theorem offered_decision_is_sent:
  assumes "interaction_reachable ck s" "find_interaction i s = Some it" "in_selected s it" "it_kind it \<noteq> ''user_input''"
    "d \<in> set (card_actions ck now answers (it, ix_mutations s i))"
  shows "\<exists>r. ix_calls (decideInteraction ck h entropy i d s) = ix_calls s @ [Responding r it (decision_request d)]
    \<and> ix_error (decideInteraction ck h entropy i d s) = ix_error s
    \<and> (\<forall>m. ix_mutations s i = Some m \<longrightarrow> mu_state m = Retryable \<and> r = mu_ref m)"
proof -
  have inv: "core_ok s" "list_all (typed_interaction ck) (ix_pending s)" using ix.holds [OF assms(1)] by (simp_all add: interactions_inv_def)
  have it: "it \<in> set (ix_pending s)" "it_id it = i" using assms(2) by (auto simp: find_interaction_def find_Some_iff)
  define m where "m = ix_mutations s i"
  define o' where "o' = \<lparr>vo_now = now, vo_pending = map_option mu_state m \<in> {Some Sending, Some Reconciling}, vo_stale = False\<rparr>"
  obtain model where model: "getApprovalViewModel ck (interaction_value it) o' = Some model"
    using typed_views(1) [of ck it o'] inv(2) it(1) by (auto simp: list_all_iff)
  obtain a where a: "a \<in> set (ap_actions model)" "d = aa_id a"
      "if map_option mu_state m = Some Retryable then m \<noteq> None \<and> mu_decision (the m) = Some (aa_id a) else \<not> aa_disabled a"
    using assms(4,5) model by (auto simp: card_actions_def Let_def m_def [symmetric] o'_def)
  have d: "d \<in> set (it_allowed it)" "aa_disabled a = interaction_unavailable ck (interaction_value it) o'"
    using a(1,2) model by (auto simp: getApprovalViewModel_def Let_def split: if_splits)
  have send: "m = None \<or> (\<exists>n. m = Some n \<and> mu_state n = Retryable \<and> mu_fingerprint n = rq_fingerprint (decision_request d))"
  proof (cases m)
    case (Some n)
    have "mu_state n = Retryable"
      using a(3) Some d(2) by (cases "mu_state n") (auto simp: interaction_unavailable_def o'_def)
    moreover from this have "mu_decision n = Some d" using a(2,3) Some by simp
    moreover obtain rq where "request_ok rq" "mu_fingerprint n = rq_fingerprint rq" "mu_decision n = rq_decision rq"
      using mutation_okD(4) [OF core_okD(3) [OF inv(1)]] Some m_def by metis
    ultimately show ?thesis using Some by (auto simp: request_ok_def decision_request_def answer_request_def)
  qed simp
  then show ?thesis
    using assms(2-4) d(1) it(2)
    by (auto simp: decideInteraction_def submitInteractionResponse_def Let_def m_def open_call_def set_mutation_def)
qed

theorem offered_decision_is_sent_witness:
  "ix_calls (decideInteraction sample_time sample_ix_host [] (js ''i1'') ''decline'' ixs3) \<noteq> []"
proof -
  have "''decline'' \<in> set (card_actions sample_time 1000 JUndefined (sample_interaction, ix_mutations ixs3 (js ''i1'')))"
    by (simp add: ixs3_fields card_actions_def sample_interaction_def getApprovalViewModel_def interaction_display_def APPROVAL_ACTIONS_def
        interaction_unavailable_def expiryState_def sample_time_def Let_def)
  then show ?thesis
    using offered_decision_is_sent [OF sample_run(1), of "js ''i1''" sample_interaction "''decline''" 1000 JUndefined sample_ix_host "[]"] ixs3_fields
    by (auto simp: find_interaction_def in_selected_def sample_interaction_def)
qed

text \<open>
  A failed response whose request has gone is not reported. When the delivery fails and
  the list that follows no longer has the interaction, the panel drops the response without
  setting an error and without rendering, so that the messages for this case are never shown
  and the card stays on the page.
\<close>

theorem vanished_request_unreported:
  assumes "interaction_reachable ck s" "in_selected s it"
    "listPendingInteractions ck asked (it_thread it) reply = Inr items" "it_id it \<notin> it_id ` set items"
    and "t = recovery_listed ck h r it err asked reply s"
  shows "ix_error t = ix_error s \<and> ix_cards t = ix_cards s \<and> ix_queued t = ix_queued s \<and> ix_mutations t (it_id it) = None
    \<and> ix_pending t = items"
proof -
  define s1 where "s1 = close_call (Recovering r it err asked) s"
  have "core_ok s" using ix.holds [OF assms(1)] by (simp add: interactions_inv_def)
  then have ok: "core_ok s1" by (simp add: s1_def core_ok_close)
  have sel: "in_selected s1 it" using assms(2) by (simp add: s1_def close_call_def in_selected_def)
  have "it_id it \<in> it_id ` set (ix_pending s1)" if "ix_mutations s1 (it_id it) = Some m" for m
    by (rule mutation_okD(1) [OF core_okD(3) [OF ok that]])
  then have none: "ix_mutations (replacePendingInteractions items s1) (it_id it) = None"
    using assms(4) by (cases "ix_mutations s1 (it_id it)") (auto simp: replacePendingInteractions_def Let_def)
  then have "t = replacePendingInteractions items s1"
    using sel assms(3) by (simp add: assms(5) recovery_listed_def Let_def s1_def [symmetric] current_mutation_def)
  then show ?thesis using none by (simp add: replacePendingInteractions_def Let_def s1_def close_call_def)
qed

theorem vanished_request_unreported_witness:
  "let t = recovery_listed sample_time sample_ix_host 0 sample_interaction JNull True (Inr (JObj [])) ixs5
   in Recovering 0 sample_interaction JNull True \<in> set (ix_calls ixs5) \<and> ix_error t = ix_error ixs5 \<and> ix_cards t = ix_cards ixs5
      \<and> ix_pending t = []"
proof -
  have l: "listPendingInteractions sample_time True (it_thread sample_interaction) (Inr (JObj [])) = Inr []"
    by (simp add: listPendingInteractions_def list_items_def dot_JObj obj_get_def as_list_def)
  have "in_selected ixs5 sample_interaction" using ixs5_fields(2) by (simp add: in_selected_def sample_interaction_def)
  from vanished_request_unreported [OF sample_run(3) this l _ refl, of sample_ix_host 0 JNull] show ?thesis
    using ixs5_fields(1) by (simp add: Let_def)
qed

end
