(* ===== verification/Prompts.thy ===== *)
theory Prompts
  imports Interactions
begin

text \<open>
  Prompts and drafts (\<open>codex-bridge-panel.js\<close>): the composer, the draft of each chat, and a
  prompt from its first send to the point where the service has acknowledged it or its event
  is seen. The panel keeps a prompt in two places, the current one and one per chat, and
  changes it through either; the model therefore has a store of prompts that both refer to.
  A send is cut at its awaits; the refresh in between is any sequence of other steps.
\<close>

section \<open>State\<close>

record prompt_mutation =
  pm_thread :: jstr
  pm_prompt :: jstr
  pm_clientRequestId :: jstr
  pm_state :: mutation_state

datatype prompt_call = SendingPrompt nat | CheckingPrompt nat

text \<open>What was sent, and which prompts are known to have arrived.\<close>

datatype prompt_log = Sent nat jstr jstr jstr | Settled nat

record prompts =
  pr_thread :: "jstr option"
  pr_store :: "prompt_mutation list"
  pr_mutations :: "jstr \<Rightarrow> nat option"
  pr_current :: "nat option"
  pr_draft :: jstr
  pr_drafts :: "jstr \<Rightarrow> jstr option"
  pr_input :: jstr
  pr_suspended :: bool
  pr_events :: "jsval list"
  pr_error :: panel_error
  pr_calls :: "prompt_call list"
  pr_log :: "prompt_log list"

definition thread_of :: "nat \<Rightarrow> prompts \<Rightarrow> jstr" where
  "thread_of r s = pm_thread (pr_store s ! r)"

definition set_prompt_state :: "nat \<Rightarrow> mutation_state \<Rightarrow> prompts \<Rightarrow> prompts" where
  "set_prompt_state r st s = s\<lparr>pr_store := (pr_store s)[r := (pr_store s ! r)\<lparr>pm_state := st\<rparr>]\<rparr>"

section \<open>Drafts and the composer\<close>

definition draftForThread :: "jstr option \<Rightarrow> prompts \<Rightarrow> jstr" where
  "draftForThread t s = (case t of None \<Rightarrow> [] | Some i \<Rightarrow> (case pr_drafts s i of None \<Rightarrow> [] | Some d \<Rightarrow> d))"

definition setDraftForThread :: "jstr option \<Rightarrow> jstr \<Rightarrow> prompts \<Rightarrow> prompts" where
  "setDraftForThread t draft s =
     (case t of None \<Rightarrow> s
      | Some i \<Rightarrow> s\<lparr>pr_drafts := (pr_drafts s)(i := (if draft \<noteq> [] then Some draft else None))\<rparr>)"

definition promptMutationForThread :: "jstr option \<Rightarrow> prompts \<Rightarrow> nat option" where
  "promptMutationForThread t s =
     (case t of None \<Rightarrow> None
      | Some i \<Rightarrow> (case pr_mutations s i of Some r \<Rightarrow> Some r
          | None \<Rightarrow> (case pr_current s of Some r \<Rightarrow> if thread_of r s = i then Some r else None | None \<Rightarrow> None)))"

definition prompt_state :: "nat option \<Rightarrow> prompts \<Rightarrow> mutation_state option" where
  "prompt_state m s = map_option (\<lambda>r. pm_state (pr_store s ! r)) m"

text \<open>What \<open>_renderComposerState\<close> writes into the input, and which controls it disables.\<close>

definition composer_value :: "prompts \<Rightarrow> jstr" where
  "composer_value s =
     (let m = promptMutationForThread (pr_thread s) s in
      if prompt_state m s = Some Retryable then pm_prompt (pr_store s ! the m) else draftForThread (pr_thread s) s)"

definition input_disabled :: "bool \<Rightarrow> prompts \<Rightarrow> bool" where
  "input_disabled active s \<longleftrightarrow> \<not> active \<or> promptMutationForThread (pr_thread s) s \<noteq> None"

definition send_disabled :: "bool \<Rightarrow> prompts \<Rightarrow> bool" where
  "send_disabled active s \<longleftrightarrow>
     (let m = promptMutationForThread (pr_thread s) s; retryable = (prompt_state m s = Some Retryable) in
      \<not> active \<or> (m \<noteq> None \<and> \<not> retryable) \<or> (\<not> retryable \<and> js_trim (composer_value s) = []))"

definition renderComposerState :: "prompts \<Rightarrow> prompts" where
  "renderComposerState s = s\<lparr>pr_input := composer_value s\<rparr>"

text \<open>While the focus suspends rendering nothing is written; a later rendering is a step of its own.\<close>

definition render_prompts :: "prompts \<Rightarrow> prompts" where
  "render_prompts s = (if pr_suspended s then s else renderComposerState s)"

definition type_prompt :: "jstr \<Rightarrow> prompts \<Rightarrow> prompts" where
  "type_prompt text s = renderComposerState (setDraftForThread (pr_thread s) text (s\<lparr>pr_input := text, pr_draft := text\<rparr>))"

section \<open>Sending\<close>

definition open_prompt_call :: "prompt_call \<Rightarrow> prompts \<Rightarrow> prompts" where
  "open_prompt_call c s = s\<lparr>pr_calls := pr_calls s @ [c]\<rparr>"

definition close_prompt_call :: "prompt_call \<Rightarrow> prompts \<Rightarrow> prompts" where
  "close_prompt_call c s = s\<lparr>pr_calls := remove1 c (pr_calls s)\<rparr>"

definition log_prompt :: "prompt_log \<Rightarrow> prompts \<Rightarrow> prompts" where
  "log_prompt e s = s\<lparr>pr_log := pr_log s @ [e]\<rparr>"

text \<open>The prompt becomes the current one and the one of its chat, is shown as the draft and sent.\<close>

definition dispatch_prompt :: "jstr \<Rightarrow> nat \<Rightarrow> prompts \<Rightarrow> prompts" where
  "dispatch_prompt t r s =
     (let m = pr_store s ! r;
          s1 = (set_prompt_state r Sending s)\<lparr>pr_mutations := (pr_mutations s)(t \<mapsto> r), pr_current := Some r, pr_draft := pm_prompt m\<rparr>;
          s2 = render_prompts (setDraftForThread (Some t) (pm_prompt m) s1) in
      log_prompt (Sent r t (pm_prompt m) (pm_clientRequestId m)) (open_prompt_call (SendingPrompt r) s2))"

definition sendPrompt :: "jstr \<Rightarrow> prompts \<Rightarrow> prompts" where
  "sendPrompt entropy s =
     (case pr_thread s of
        None \<Rightarrow> s
      | Some t \<Rightarrow>
          (case promptMutationForThread (Some t) s of
             Some r \<Rightarrow>
               if prompt_state (Some r) s \<noteq> Some Retryable \<or> pm_prompt (pr_store s ! r) = [] then s else dispatch_prompt t r s
           | None \<Rightarrow>
               (let prompt = js_trim (pr_input s) in
                if prompt = [] then s
                else dispatch_prompt t (length (pr_store s))
                  (s\<lparr>pr_store := pr_store s @ [\<lparr>pm_thread = t, pm_prompt = prompt,
                     pm_clientRequestId = createClientRequestId ''prompt'' entropy, pm_state = Sending\<rparr>]\<rparr>))))"

section \<open>Settling\<close>

text \<open>The prompt is no longer kept, neither as the current one nor for its chat.\<close>

definition forget_prompt :: "nat \<Rightarrow> prompts \<Rightarrow> prompts" where
  "forget_prompt r s =
     (let s1 = (if pr_current s = Some r then s\<lparr>pr_current := None\<rparr> else s) in
      if pr_mutations s1 (thread_of r s) = Some r then s1\<lparr>pr_mutations := (pr_mutations s1)(thread_of r s := None)\<rparr> else s1)"

definition empty_composer :: "jstr \<Rightarrow> prompts \<Rightarrow> prompts" where
  "empty_composer t s =
     (let s1 = setDraftForThread (Some t) [] (s\<lparr>pr_input := [], pr_draft := []\<rparr>) in
      s1\<lparr>pr_error := clearError None (pr_error s1)\<rparr>)"

definition promptEventObserved :: "jstr \<Rightarrow> prompts \<Rightarrow> bool" where
  "promptEventObserved clientRequestId s \<longleftrightarrow>
     list_ex (\<lambda>e. dot e ''event_type'' = jlit ''message.created'' \<and> dot (dot e ''payload'') ''client_request_id'' = JStr clientRequestId)
       (pr_events s)"

definition settlePromptMutation :: "jstr \<Rightarrow> prompts \<Rightarrow> prompts" where
  "settlePromptMutation clientRequestId s =
     (case promptMutationForThread (pr_thread s) s of
        None \<Rightarrow> s
      | Some r \<Rightarrow>
          if pm_clientRequestId (pr_store s ! r) \<noteq> clientRequestId then s
          else
            (let s1 = log_prompt (Settled r) (forget_prompt r s) in
             if Some (thread_of r s) = pr_thread s then render_prompts (empty_composer (thread_of r s) s1) else s1))"

definition settlePromptMutationFromEvents :: "prompts \<Rightarrow> prompts" where
  "settlePromptMutationFromEvents s =
     (case promptMutationForThread (pr_thread s) s of
        None \<Rightarrow> s
      | Some r \<Rightarrow>
          (let i = pm_clientRequestId (pr_store s ! r) in
           if promptEventObserved i s then settlePromptMutation i s else s))"

text \<open>The service has acknowledged the prompt; the refresh and the rendering that follow are other steps.\<close>

definition prompt_acknowledged :: "nat \<Rightarrow> prompts \<Rightarrow> prompts" where
  "prompt_acknowledged r s =
     (let t = thread_of r s; s1 = log_prompt (Settled r) (forget_prompt r (close_prompt_call (SendingPrompt r) s)) in
      if Some t = pr_thread s1 then empty_composer t s1 else s1)"

definition prompt_failed :: "nat \<Rightarrow> prompts \<Rightarrow> prompts" where
  "prompt_failed r s =
     (let t = thread_of r s; s1 = close_prompt_call (SendingPrompt r) s in
      if pr_mutations s1 t \<noteq> Some r then s1
      else
        (let s2 = set_prompt_state r Reconciling s1; s3 = (if Some t = pr_thread s2 then render_prompts s2 else s2) in
         open_prompt_call (CheckingPrompt r) s3))"

definition prompt_checked :: "(rat \<Rightarrow> jstr) \<Rightarrow> nat \<Rightarrow> prompts \<Rightarrow> prompts" where
  "prompt_checked fmt r s =
     (let t = thread_of r s; s1 = close_prompt_call (CheckingPrompt r) s; i = pm_clientRequestId (pr_store s1 ! r) in
      if pr_mutations s1 t \<noteq> Some r then s1
      else if promptEventObserved i s1 then settlePromptMutation i s1
      else
        (let s2 = set_prompt_state r Retryable s1 in
         if Some t = pr_thread s2
         then render_prompts (s2\<lparr>pr_error := assignError fmt
           (jlit ''The Home Assistant response was interrupted. Retry safely with the same request ID.'') None [] (pr_error s2)\<rparr>)
         else s2))"

section \<open>Changing the chat\<close>

text \<open>The prompt part of \<open>_retireThreadInteractionState\<close>, with the new selection.\<close>

definition retire_prompts :: "jstr option \<Rightarrow> prompts \<Rightarrow> prompts" where
  "retire_prompts next s =
     (let s1 = (case pr_current s of None \<Rightarrow> s | Some r \<Rightarrow> s\<lparr>pr_mutations := (pr_mutations s)(thread_of r s \<mapsto> r)\<rparr>);
          m = promptMutationForThread next s1 in
      s1\<lparr>pr_current := m,
         pr_draft := (if prompt_state m s1 = Some Retryable then pm_prompt (pr_store s1 ! the m) else draftForThread next s1)\<rparr>)"

definition select_for_prompts :: "jstr option \<Rightarrow> prompts \<Rightarrow> prompts" where
  "select_for_prompts t s = (retire_prompts t s)\<lparr>pr_thread := t, pr_events := []\<rparr>"

definition leave_for_prompts :: "prompts \<Rightarrow> prompts" where
  "leave_for_prompts s = s\<lparr>pr_thread := None, pr_events := [], pr_current := None\<rparr>"

section \<open>Steps\<close>

definition initial_prompts :: "prompts \<Rightarrow> bool" where
  "initial_prompts s \<longleftrightarrow> pr_thread s = None \<and> pr_store s = [] \<and> pr_mutations s = (\<lambda>_. None) \<and> pr_current s = None \<and> pr_draft s = []
     \<and> pr_drafts s = (\<lambda>_. None) \<and> pr_input s = [] \<and> pr_events s = [] \<and> pr_error s = initial_error \<and> pr_calls s = [] \<and> pr_log s = []"

text \<open>
  Besides the composer and the answers: events of the selected chat arrive, one by one with the
  identifier of their request or as a batch, the selection changes with or without retiring
  the prompts, the panel renders, the focus suspends rendering, and others set the error.
\<close>

inductive prompt_step :: "prompts \<Rightarrow> prompts \<Rightarrow> bool" where
  typed: "\<not> input_disabled True s \<Longrightarrow> prompt_step s (type_prompt text s)"
| sent: "prompt_step s (sendPrompt entropy s)"
| acknowledged: "SendingPrompt r \<in> set (pr_calls s) \<Longrightarrow> prompt_step s (prompt_acknowledged r s)"
| send_failed: "SendingPrompt r \<in> set (pr_calls s) \<Longrightarrow> prompt_step s (prompt_failed r s)"
| checked: "CheckingPrompt r \<in> set (pr_calls s) \<Longrightarrow> prompt_step s (prompt_checked fmt r s)"
| event_seen: "prompt_step s (settlePromptMutation i (s\<lparr>pr_events := evs\<rparr>))"
| events_seen: "prompt_step s (settlePromptMutationFromEvents (s\<lparr>pr_events := evs\<rparr>))"
| events_other: "prompt_step s (s\<lparr>pr_events := evs\<rparr>)"
| chat_selected: "prompt_step s (select_for_prompts t s)"
| chat_replaced: "prompt_step s (s\<lparr>pr_thread := t\<rparr>)"
| chats_left: "prompt_step s (leave_for_prompts s)"
| composer_rendered: "prompt_step s (renderComposerState s)"
| composer_focus: "prompt_step s (s\<lparr>pr_suspended := b\<rparr>)"
| error_elsewhere: "prompt_step s (s\<lparr>pr_error := e\<rparr>)"

inductive prompts_reachable :: "prompts \<Rightarrow> bool" where
  no_prompts: "initial_prompts s \<Longrightarrow> prompts_reachable s"
| prompts_move: "prompts_reachable s \<Longrightarrow> prompt_step s t \<Longrightarrow> prompts_reachable t"

section \<open>The invariant\<close>

fun prompt_call_ref :: "prompt_call \<Rightarrow> nat" where
  "prompt_call_ref (SendingPrompt r) = r"
| "prompt_call_ref (CheckingPrompt r) = r"

abbreviation prompt_refs :: "prompts \<Rightarrow> nat list" where
  "prompt_refs s \<equiv> map prompt_call_ref (pr_calls s)"

text \<open>No prompt is sent after it is known to have arrived.\<close>

definition never_resent :: "prompt_log list \<Rightarrow> bool" where
  "never_resent es \<longleftrightarrow> (\<forall>xs r ys t p i. es = xs @ Settled r # ys \<longrightarrow> Sent r t p i \<notin> set ys)"

definition log_entry_ok :: "prompt_mutation list \<Rightarrow> prompt_log \<Rightarrow> bool" where
  "log_entry_ok store e \<longleftrightarrow>
     (case e of Settled r \<Rightarrow> r < length store
      | Sent r t p i \<Rightarrow> r < length store \<and> pm_thread (store ! r) = t \<and> pm_prompt (store ! r) = p \<and> pm_clientRequestId (store ! r) = i)"

definition kept_ok :: "prompts \<Rightarrow> jstr \<Rightarrow> nat \<Rightarrow> bool" where
  "kept_ok s t r \<longleftrightarrow> r < length (pr_store s) \<and> thread_of r s = t \<and> Settled r \<notin> set (pr_log s)
     \<and> (pm_state (pr_store s ! r) = Retryable \<longrightarrow> r \<notin> set (prompt_refs s))"

definition prompts_ok :: "prompts \<Rightarrow> bool" where
  "prompts_ok s \<longleftrightarrow> (\<forall>t r. pr_mutations s t = Some r \<longrightarrow> kept_ok s t r)
     \<and> (\<forall>r. pr_current s = Some r \<longrightarrow> pr_mutations s (thread_of r s) = Some r)
     \<and> distinct (prompt_refs s) \<and> (\<forall>r\<in>set (prompt_refs s). r < length (pr_store s))
     \<and> list_all (log_entry_ok (pr_store s)) (pr_log s) \<and> never_resent (pr_log s)"

lemma prompts_okD:
  assumes "prompts_ok s"
  shows "pr_mutations s t = Some r \<Longrightarrow> kept_ok s t r" "pr_current s = Some r \<Longrightarrow> pr_mutations s (thread_of r s) = Some r"
    "distinct (prompt_refs s)" "\<forall>r\<in>set (prompt_refs s). r < length (pr_store s)"
    "list_all (log_entry_ok (pr_store s)) (pr_log s)" "never_resent (pr_log s)"
  using assms unfolding prompts_ok_def by blast+

lemma never_resent_Nil: "never_resent []"
  by (simp add: never_resent_def)

lemma never_resent_settled: "never_resent es \<Longrightarrow> never_resent (es @ [Settled r])"
  unfolding never_resent_def
proof (intro allI impI)
  fix xs r' ys t p i
  assume h: "\<forall>xs r ys t p i. es = xs @ Settled r # ys \<longrightarrow> Sent r t p i \<notin> set ys" "es @ [Settled r] = xs @ Settled r' # ys"
  then show "Sent r' t p i \<notin> set ys" by (cases ys rule: rev_cases) auto
qed

lemma never_resent_sent: "never_resent es \<Longrightarrow> Settled r \<notin> set es \<Longrightarrow> never_resent (es @ [Sent r t p i])"
  unfolding never_resent_def
proof (intro allI impI)
  fix xs r' ys t' p' i'
  assume h: "\<forall>xs r ys t p i. es = xs @ Settled r # ys \<longrightarrow> Sent r t p i \<notin> set ys" "Settled r \<notin> set es"
    "es @ [Sent r t p i] = xs @ Settled r' # ys"
  then show "Sent r' t' p' i' \<notin> set ys" by (cases ys rule: rev_cases) auto
qed

text \<open>The fields the invariant reads, and the operations that leave them alone.\<close>

definition prompt_core :: "prompts \<Rightarrow> prompt_mutation list \<times> (jstr \<Rightarrow> nat option) \<times> nat option \<times> prompt_call list \<times> prompt_log list" where
  "prompt_core s = (pr_store s, pr_mutations s, pr_current s, pr_calls s, pr_log s)"

lemma prompts_ok_core: "prompt_core s = prompt_core t \<Longrightarrow> prompts_ok s = prompts_ok t"
  by (simp add: prompt_core_def prompts_ok_def kept_ok_def thread_of_def)

lemma core_frame [simp]:
  "prompt_core (renderComposerState s) = prompt_core s" "prompt_core (render_prompts s) = prompt_core s"
  "prompt_core (setDraftForThread t d s) = prompt_core s" "prompt_core (type_prompt text s) = prompt_core s"
  "prompt_core (empty_composer i s) = prompt_core s" "prompt_core (s\<lparr>pr_thread := t\<rparr>) = prompt_core s"
  "prompt_core (s\<lparr>pr_events := evs\<rparr>) = prompt_core s" "prompt_core (s\<lparr>pr_error := e\<rparr>) = prompt_core s"
  "prompt_core (s\<lparr>pr_suspended := b\<rparr>) = prompt_core s" "prompt_core (s\<lparr>pr_draft := d\<rparr>) = prompt_core s"
  "prompt_core (s\<lparr>pr_input := d\<rparr>) = prompt_core s"
  by (simp_all add: prompt_core_def renderComposerState_def render_prompts_def setDraftForThread_def type_prompt_def empty_composer_def Let_def
      split: option.split)

lemma prompts_ok_frame [simp]:
  "prompts_ok (renderComposerState s) = prompts_ok s" "prompts_ok (render_prompts s) = prompts_ok s"
  "prompts_ok (setDraftForThread t d s) = prompts_ok s" "prompts_ok (type_prompt text s) = prompts_ok s"
  "prompts_ok (empty_composer i s) = prompts_ok s" "prompts_ok (s\<lparr>pr_thread := t\<rparr>) = prompts_ok s"
  "prompts_ok (s\<lparr>pr_events := evs\<rparr>) = prompts_ok s" "prompts_ok (s\<lparr>pr_error := e\<rparr>) = prompts_ok s"
  "prompts_ok (s\<lparr>pr_suspended := b\<rparr>) = prompts_ok s" "prompts_ok (s\<lparr>pr_draft := d\<rparr>) = prompts_ok s"
  "prompts_ok (s\<lparr>pr_input := d\<rparr>) = prompts_ok s"
  by (rule prompts_ok_core, simp)+

section \<open>The operations keep the invariant\<close>

lemma distinct_map_remove1: "distinct (map f xs) \<Longrightarrow> distinct (map f (remove1 x xs))"
  "distinct (map f xs) \<Longrightarrow> x \<in> set xs \<Longrightarrow> f x \<notin> set (map f (remove1 x xs))"
  by (induction xs) (auto simp: image_iff dest: notin_set_remove1 set_remove1_subset [THEN subsetD])

lemma prompts_okI:
  assumes "\<And>t r. pr_mutations s t = Some r \<Longrightarrow> kept_ok s t r"
    "\<And>r. pr_current s = Some r \<Longrightarrow> pr_mutations s (thread_of r s) = Some r"
    "distinct (prompt_refs s)" "\<forall>r\<in>set (prompt_refs s). r < length (pr_store s)"
    "list_all (log_entry_ok (pr_store s)) (pr_log s)" "never_resent (pr_log s)"
  shows "prompts_ok s"
  using assms unfolding prompts_ok_def by blast

lemma kept_okD:
  assumes "kept_ok s t r"
  shows "r < length (pr_store s)" "thread_of r s = t" "Settled r \<notin> set (pr_log s)"
    "pm_state (pr_store s ! r) = Retryable \<Longrightarrow> r \<notin> set (prompt_refs s)"
  using assms unfolding kept_ok_def by blast+

lemma ok_close:
  assumes "prompts_ok s"
  shows "prompts_ok (close_prompt_call c s)"
proof (rule prompts_okI)
  note d = prompts_okD [OF assms]
  have sub: "set (map prompt_call_ref (remove1 c (pr_calls s))) \<subseteq> set (prompt_refs s)"
    using set_remove1_subset [of c "pr_calls s"] by auto
  show "kept_ok (close_prompt_call c s) t r" if "pr_mutations (close_prompt_call c s) t = Some r" for t r
  proof -
    have "pr_mutations s t = Some r" using that by (simp add: close_prompt_call_def)
    from kept_okD [OF d(1) [OF this]] sub show ?thesis unfolding kept_ok_def by (auto simp: close_prompt_call_def thread_of_def)
  qed
  show "distinct (prompt_refs (close_prompt_call c s))" using distinct_map_remove1(1) [OF d(3)] by (simp add: close_prompt_call_def)
  show "\<forall>r\<in>set (prompt_refs (close_prompt_call c s)). r < length (pr_store (close_prompt_call c s))"
    using sub d(4) by (auto simp: close_prompt_call_def)
qed (use prompts_okD [OF assms] in \<open>simp_all add: close_prompt_call_def thread_of_def\<close>)

lemma prompts_ok_open:
  assumes "prompts_ok s" "prompt_call_ref c < length (pr_store s)" "prompt_call_ref c \<notin> set (prompt_refs s)"
    "pm_state (pr_store s ! prompt_call_ref c) \<noteq> Retryable"
  shows "prompts_ok (open_prompt_call c s)"
proof (rule prompts_okI)
  note d = prompts_okD [OF assms(1)]
  show "kept_ok (open_prompt_call c s) t r" if "pr_mutations (open_prompt_call c s) t = Some r" for t r
  proof -
    have "pr_mutations s t = Some r" using that by (simp add: open_prompt_call_def)
    from kept_okD [OF d(1) [OF this]] assms(4) show ?thesis
      unfolding kept_ok_def by (cases "r = prompt_call_ref c") (auto simp: open_prompt_call_def thread_of_def)
  qed
qed (use prompts_okD [OF assms(1)] assms(2,3) in \<open>auto simp: open_prompt_call_def thread_of_def\<close>)

lemma log_entry_state: "log_entry_ok (store[r := (store ! r)\<lparr>pm_state := st\<rparr>]) e = log_entry_ok store e"
  by (cases "r < length store") (auto simp: log_entry_ok_def nth_list_update split: prompt_log.split)

lemma set_state_fields [simp]:
  "pr_mutations (set_prompt_state r st s) = pr_mutations s" "pr_current (set_prompt_state r st s) = pr_current s"
  "pr_calls (set_prompt_state r st s) = pr_calls s" "pr_log (set_prompt_state r st s) = pr_log s"
  "length (pr_store (set_prompt_state r st s)) = length (pr_store s)" "pr_thread (set_prompt_state r st s) = pr_thread s"
  by (simp_all add: set_prompt_state_def)

lemma set_state_thread [simp]: "thread_of k (set_prompt_state r st s) = thread_of k s"
proof (cases "r < length (pr_store s)")
  case True
  then show ?thesis by (cases "k = r") (simp_all add: set_prompt_state_def thread_of_def)
qed (simp add: set_prompt_state_def thread_of_def list_update_beyond)

lemma ok_state:
  assumes "prompts_ok s" "st = Retryable \<Longrightarrow> r \<notin> set (prompt_refs s)"
  shows "prompts_ok (set_prompt_state r st s)"
proof (rule prompts_okI)
  note d = prompts_okD [OF assms(1)]
  show "kept_ok (set_prompt_state r st s) t k" if "pr_mutations (set_prompt_state r st s) t = Some k" for t k
  proof -
    have "pr_mutations s t = Some k" using that by simp
    from kept_okD [OF d(1) [OF this]] assms(2) show ?thesis
      unfolding kept_ok_def by (cases "k = r") (simp_all, simp_all add: set_prompt_state_def)
  qed
  show "list_all (log_entry_ok (pr_store (set_prompt_state r st s))) (pr_log (set_prompt_state r st s))"
    using d(5) by (simp add: list_all_iff) (simp add: set_prompt_state_def log_entry_state)
qed (use prompts_okD [OF assms(1)] in simp_all)

lemma ok_append:
  assumes "prompts_ok s"
  shows "prompts_ok (s\<lparr>pr_store := pr_store s @ [m]\<rparr>)" (is "prompts_ok ?t")
proof (rule prompts_okI)
  note d = prompts_okD [OF assms]
  have old: "thread_of r ?t = thread_of r s" "pr_store ?t ! r = pr_store s ! r" if "r < length (pr_store s)" for r
    using that by (simp_all add: thread_of_def nth_append)
  show "kept_ok ?t t r" if "pr_mutations ?t t = Some r" for t r
  proof -
    have "pr_mutations s t = Some r" using that by simp
    from kept_okD [OF d(1) [OF this]] old show ?thesis unfolding kept_ok_def by simp
  qed
  show "pr_mutations ?t (thread_of r ?t) = Some r" if "pr_current ?t = Some r" for r
  proof -
    have "pr_mutations s (thread_of r s) = Some r" using d(2) that by simp
    then show ?thesis using old(1) [of r] kept_okD(1) [OF d(1)] by simp
  qed
  show "list_all (log_entry_ok (pr_store ?t)) (pr_log ?t)"
    using d(5) by (auto simp: list_all_iff log_entry_ok_def nth_append split: prompt_log.splits)
qed (use prompts_okD [OF assms] in auto)

lemma ok_keep:
  assumes "prompts_ok s" "r < length (pr_store s)" "thread_of r s = t" "Settled r \<notin> set (pr_log s)" "pm_state (pr_store s ! r) \<noteq> Retryable"
  shows "prompts_ok (s\<lparr>pr_mutations := (pr_mutations s)(t \<mapsto> r), pr_current := Some r\<rparr>)" (is "prompts_ok ?u")
proof (rule prompts_okI)
  show "kept_ok ?u k q" if "pr_mutations ?u k = Some q" for k q
    using that assms(2-5) prompts_okD(1) [OF assms(1), of k q] by (cases "k = t") (simp_all add: kept_ok_def thread_of_def)
qed (use prompts_okD [OF assms(1)] assms(3) in \<open>simp_all add: thread_of_def\<close>)

lemma ok_log_sent:
  assumes "prompts_ok s" "r < length (pr_store s)" "Settled r \<notin> set (pr_log s)"
    "t = thread_of r s" "p = pm_prompt (pr_store s ! r)" "i = pm_clientRequestId (pr_store s ! r)"
  shows "prompts_ok (log_prompt (Sent r t p i) s)"
proof (rule prompts_okI)
  note d = prompts_okD [OF assms(1)]
  show "kept_ok (log_prompt (Sent r t p i) s) k q" if "pr_mutations (log_prompt (Sent r t p i) s) k = Some q" for k q
    using that d(1) [of k q] by (simp add: log_prompt_def kept_ok_def thread_of_def)
  show "never_resent (pr_log (log_prompt (Sent r t p i) s))" using never_resent_sent [OF d(6) assms(3)] by (simp add: log_prompt_def)
qed (use prompts_okD [OF assms(1)] assms(2,4-6) in \<open>simp_all add: log_prompt_def thread_of_def log_entry_ok_def\<close>)

lemma ok_settle:
  assumes "prompts_ok s" "r < length (pr_store s)"
  shows "prompts_ok (log_prompt (Settled r) (forget_prompt r s))" (is "prompts_ok ?u")
proof (rule prompts_okI)
  note d = prompts_okD [OF assms(1)]
  have f: "pr_store ?u = pr_store s" "pr_calls ?u = pr_calls s" "pr_log ?u = pr_log s @ [Settled r]" "thread_of k ?u = thread_of k s" for k
    by (simp_all add: log_prompt_def forget_prompt_def thread_of_def Let_def)
  have mut: "pr_mutations s k = Some q \<and> q \<noteq> r" if "pr_mutations ?u k = Some q" for k q
  proof -
    have k: "pr_mutations s k = Some q" using that by (auto simp: log_prompt_def forget_prompt_def Let_def split: if_splits)
    moreover have "q \<noteq> r"
    proof
      assume "q = r"
      then have "thread_of r s = k" using kept_okD(2) [OF d(1) [OF k]] by simp
      then show False using that k \<open>q = r\<close> by (simp add: log_prompt_def forget_prompt_def Let_def split: if_splits)
    qed
    ultimately show ?thesis ..
  qed
  show "kept_ok ?u k q" if "pr_mutations ?u k = Some q" for k q
    using mut [OF that] d(1) [of k q] f by (auto simp: kept_ok_def)
  show "pr_mutations ?u (thread_of q ?u) = Some q" if "pr_current ?u = Some q" for q
  proof -
    have q: "pr_current s = Some q" "q \<noteq> r" using that by (auto simp: log_prompt_def forget_prompt_def Let_def split: if_splits)
    then have "pr_mutations s (thread_of q s) = Some q" using d(2) by blast
    then show ?thesis using q(2) by (auto simp: log_prompt_def forget_prompt_def thread_of_def Let_def)
  qed
  show "never_resent (pr_log ?u)" using never_resent_settled [OF d(6)] f by simp
qed (use prompts_okD [OF assms(1)] assms(2) in \<open>auto simp: log_prompt_def forget_prompt_def log_entry_ok_def Let_def\<close>)

lemma forThread_kept:
  assumes "prompts_ok s" "promptMutationForThread (Some t) s = Some r"
  shows "pr_mutations s t = Some r"
  using assms(2) prompts_okD(2) [OF assms(1)] by (auto simp: promptMutationForThread_def split: option.splits if_splits)

lemma composer_fields [simp]:
  "pr_store (renderComposerState s) = pr_store s" "pr_mutations (renderComposerState s) = pr_mutations s" "pr_current (renderComposerState s) = pr_current s" "pr_calls (renderComposerState s) = pr_calls s"
  "pr_log (renderComposerState s) = pr_log s" "pr_thread (renderComposerState s) = pr_thread s" "pr_events (renderComposerState s) = pr_events s" "pr_suspended (renderComposerState s) = pr_suspended s"
  "pr_store (render_prompts s) = pr_store s" "pr_mutations (render_prompts s) = pr_mutations s" "pr_current (render_prompts s) = pr_current s" "pr_calls (render_prompts s) = pr_calls s"
  "pr_log (render_prompts s) = pr_log s" "pr_thread (render_prompts s) = pr_thread s" "pr_events (render_prompts s) = pr_events s" "pr_suspended (render_prompts s) = pr_suspended s"
  "pr_store (setDraftForThread t d s) = pr_store s" "pr_mutations (setDraftForThread t d s) = pr_mutations s" "pr_current (setDraftForThread t d s) = pr_current s" "pr_calls (setDraftForThread t d s) = pr_calls s"
  "pr_log (setDraftForThread t d s) = pr_log s" "pr_thread (setDraftForThread t d s) = pr_thread s" "pr_events (setDraftForThread t d s) = pr_events s" "pr_suspended (setDraftForThread t d s) = pr_suspended s"
  "pr_store (empty_composer i s) = pr_store s" "pr_mutations (empty_composer i s) = pr_mutations s" "pr_current (empty_composer i s) = pr_current s" "pr_calls (empty_composer i s) = pr_calls s"
  "pr_log (empty_composer i s) = pr_log s" "pr_thread (empty_composer i s) = pr_thread s" "pr_events (empty_composer i s) = pr_events s" "pr_suspended (empty_composer i s) = pr_suspended s"
  by (simp_all add: renderComposerState_def render_prompts_def setDraftForThread_def empty_composer_def Let_def split: option.split)

lemma ok_dispatch:
  assumes "prompts_ok s" "r < length (pr_store s)" "thread_of r s = t" "Settled r \<notin> set (pr_log s)" "r \<notin> set (prompt_refs s)"
  shows "prompts_ok (dispatch_prompt t r s)"
proof -
  define a where "a = set_prompt_state r Sending s"
  define b where "b = a\<lparr>pr_mutations := (pr_mutations s)(t \<mapsto> r), pr_current := Some r, pr_draft := pm_prompt (pr_store s ! r)\<rparr>"
  define c where "c = render_prompts (setDraftForThread (Some t) (pm_prompt (pr_store s ! r)) b)"
  have a: "prompts_ok a" unfolding a_def by (rule ok_state [OF assms(1)]) simp
  have at: "pm_state (pr_store a ! r) = Sending" "pm_prompt (pr_store a ! r) = pm_prompt (pr_store s ! r)"
      "pm_clientRequestId (pr_store a ! r) = pm_clientRequestId (pr_store s ! r)"
    using assms(2) by (simp_all add: a_def set_prompt_state_def)
  have "prompts_ok (a\<lparr>pr_mutations := (pr_mutations a)(t \<mapsto> r), pr_current := Some r\<rparr>)"
    by (rule ok_keep [OF a]) (use assms(2-4) at in \<open>simp_all add: a_def\<close>)
  then have "prompts_ok b" by (simp add: b_def a_def)
  then have c: "prompts_ok c" by (simp add: c_def)
  have cf: "pr_store c = pr_store a" "pr_calls c = pr_calls s" "pr_log c = pr_log s" by (simp_all add: c_def b_def) (simp_all add: a_def)
  have o': "prompts_ok (open_prompt_call (SendingPrompt r) c)"
    by (rule prompts_ok_open [OF c]) (use assms(2,5) at cf in \<open>simp_all add: a_def\<close>)
  have th: "thread_of r (open_prompt_call (SendingPrompt r) c) = t"
    using assms(3) cf(1) by (simp add: open_prompt_call_def thread_of_def) (simp add: a_def set_prompt_state_def nth_list_update thread_of_def assms(2))
  have "prompts_ok (log_prompt (Sent r t (pm_prompt (pr_store s ! r)) (pm_clientRequestId (pr_store s ! r))) (open_prompt_call (SendingPrompt r) c))"
    by (rule ok_log_sent [OF o']) (use assms(2,4) th cf at in \<open>simp_all add: open_prompt_call_def a_def\<close>)
  then show ?thesis by (simp add: dispatch_prompt_def Let_def a_def [symmetric] b_def [symmetric] c_def [symmetric])
qed

lemma ok_send:
  assumes "prompts_ok s"
  shows "prompts_ok (sendPrompt entropy s)"
proof (cases "pr_thread s")
  case (Some t)
  show ?thesis
  proof (cases "promptMutationForThread (Some t) s")
    case None
    define u where "u = s\<lparr>pr_store := pr_store s @ [\<lparr>pm_thread = t, pm_prompt = js_trim (pr_input s),
      pm_clientRequestId = createClientRequestId ''prompt'' entropy, pm_state = Sending\<rparr>]\<rparr>"
    let ?n = "length (pr_store s)"
    have u: "prompts_ok u" unfolding u_def by (rule ok_append [OF assms])
    have "Settled ?n \<notin> set (pr_log s)" using prompts_okD(5) [OF assms] by (auto simp: list_all_iff log_entry_ok_def)
    moreover have "?n \<notin> set (prompt_refs s)" using prompts_okD(4) [OF assms] by blast
    ultimately have "prompts_ok (dispatch_prompt t ?n u)"
      by (intro ok_dispatch [OF u]) (simp_all add: u_def thread_of_def)
    then show ?thesis using Some None assms by (simp add: sendPrompt_def Let_def u_def)
  next
    case (Some r)
    have k: "kept_ok s t r" by (rule prompts_okD(1) [OF assms forThread_kept [OF assms Some]])
    have "prompts_ok (dispatch_prompt t r s)" if "pm_state (pr_store s ! r) = Retryable"
      using ok_dispatch [OF assms kept_okD(1,2,3) [OF k] kept_okD(4) [OF k that]] .
    then show ?thesis using \<open>pr_thread s = Some t\<close> Some assms by (simp add: sendPrompt_def prompt_state_def)
  qed
qed (simp add: sendPrompt_def assms)

lemma ok_settlePrompt: "prompts_ok s \<Longrightarrow> prompts_ok (settlePromptMutation i s)"
proof (cases "promptMutationForThread (pr_thread s) s")
  case (Some r)
  assume ok: "prompts_ok s"
  obtain t where t: "pr_thread s = Some t" using Some by (cases "pr_thread s") (simp_all add: promptMutationForThread_def)
  have "r < length (pr_store s)" using kept_okD(1) [OF prompts_okD(1) [OF ok forThread_kept [OF ok]]] Some t by simp
  then show ?thesis using ok_settle [OF ok] ok Some by (simp add: settlePromptMutation_def Let_def)
qed (simp add: settlePromptMutation_def)

lemma ok_settleEvents: "prompts_ok s \<Longrightarrow> prompts_ok (settlePromptMutationFromEvents s)"
  by (simp add: settlePromptMutationFromEvents_def Let_def ok_settlePrompt split: option.split)

lemma called_prompt:
  assumes "prompts_ok s" "c \<in> set (pr_calls s)"
  shows "prompt_call_ref c < length (pr_store s)" "prompt_call_ref c \<notin> set (prompt_refs (close_prompt_call c s))"
  using prompts_okD(3,4) [OF assms(1)] distinct_map_remove1(2) [of prompt_call_ref "pr_calls s" c] assms(2)
  by (auto simp: close_prompt_call_def)

lemma ok_acknowledged:
  assumes "prompts_ok s" "SendingPrompt r \<in> set (pr_calls s)"
  shows "prompts_ok (prompt_acknowledged r s)"
proof -
  have "prompts_ok (log_prompt (Settled r) (forget_prompt r (close_prompt_call (SendingPrompt r) s)))"
    by (rule ok_settle [OF ok_close [OF assms(1)]]) (use called_prompt(1) [OF assms] in \<open>simp add: close_prompt_call_def\<close>)
  then show ?thesis by (simp add: prompt_acknowledged_def Let_def)
qed

lemma ok_failed:
  assumes "prompts_ok s" "SendingPrompt r \<in> set (pr_calls s)"
  shows "prompts_ok (prompt_failed r s)"
proof -
  define a where "a = set_prompt_state r Reconciling (close_prompt_call (SendingPrompt r) s)"
  define b where "b = (if Some (thread_of r s) = pr_thread a then render_prompts a else a)"
  note r = called_prompt [OF assms]
  have "prompts_ok a" unfolding a_def by (rule ok_state [OF ok_close [OF assms(1)]]) simp
  moreover have "pr_store b = pr_store a" "pr_calls b = pr_calls a" by (simp_all add: b_def)
  moreover have "pm_state (pr_store a ! r) = Reconciling" using r(1) by (simp add: a_def set_prompt_state_def close_prompt_call_def)
  ultimately have "prompts_ok (open_prompt_call (CheckingPrompt r) b)"
    using r by (intro prompts_ok_open) (simp_all add: b_def, simp_all add: a_def close_prompt_call_def)
  then show ?thesis using ok_close [OF assms(1)] by (simp add: prompt_failed_def Let_def a_def [symmetric] b_def [symmetric])
qed

lemma ok_checked:
  assumes "prompts_ok s" "CheckingPrompt r \<in> set (pr_calls s)"
  shows "prompts_ok (prompt_checked fmt r s)"
proof -
  have c: "prompts_ok (close_prompt_call (CheckingPrompt r) s)" by (rule ok_close [OF assms(1)])
  have "prompts_ok (set_prompt_state r Retryable (close_prompt_call (CheckingPrompt r) s))"
    by (rule ok_state [OF c]) (use called_prompt(2) [OF assms] in simp)
  then show ?thesis using c ok_settlePrompt [OF c] by (simp add: prompt_checked_def Let_def)
qed

lemma ok_retire:
  assumes "prompts_ok s"
  shows "prompts_ok (retire_prompts t s)"
proof -
  have same: "(case pr_current s of None \<Rightarrow> s | Some r \<Rightarrow> s\<lparr>pr_mutations := (pr_mutations s)(thread_of r s \<mapsto> r)\<rparr>) = s"
    using prompts_okD(2) [OF assms] by (auto simp: fun_upd_idem split: option.split)
  define m where "m = promptMutationForThread t s"
  have kept: "pr_mutations s (thread_of r s) = Some r" if mr: "m = Some r" for r
  proof -
    obtain i where i: "t = Some i" using mr by (cases t) (simp_all add: m_def promptMutationForThread_def)
    then have "pr_mutations s i = Some r" using forThread_kept [OF assms] mr by (simp add: m_def)
    then show ?thesis using kept_okD(2) [OF prompts_okD(1) [OF assms]] by simp
  qed
  have "prompts_ok (s\<lparr>pr_current := m\<rparr>)"
  proof (rule prompts_okI)
    show "kept_ok (s\<lparr>pr_current := m\<rparr>) i r" if "pr_mutations (s\<lparr>pr_current := m\<rparr>) i = Some r" for i r
      using prompts_okD(1) [OF assms, of i r] that by (simp add: kept_ok_def thread_of_def)
  qed (use prompts_okD [OF assms] kept in \<open>simp_all add: thread_of_def\<close>)
  then show ?thesis by (simp add: retire_prompts_def Let_def same m_def)
qed

lemma ok_leave:
  assumes "prompts_ok s"
  shows "prompts_ok (leave_for_prompts s)"
proof (rule prompts_okI)
  show "kept_ok (leave_for_prompts s) t r" if "pr_mutations (leave_for_prompts s) t = Some r" for t r
    using prompts_okD(1) [OF assms, of t r] that by (simp add: kept_ok_def leave_for_prompts_def thread_of_def)
qed (use prompts_okD [OF assms] in \<open>simp_all add: leave_for_prompts_def\<close>)

lemma prompt_step_ok: "prompt_step s t \<Longrightarrow> prompts_ok s \<Longrightarrow> prompts_ok t"
  by (induction rule: prompt_step.induct)
    (simp_all add: ok_send ok_acknowledged ok_failed ok_checked ok_settlePrompt ok_settleEvents ok_retire ok_leave select_for_prompts_def)

interpretation pr: inductive_invariant initial_prompts prompt_step prompts_reachable prompts_ok
proof
  fix s t and P :: "prompts \<Rightarrow> bool"
  show "initial_prompts s \<Longrightarrow> prompts_reachable s" by (rule prompts_reachable.no_prompts)
  show "prompts_reachable s \<Longrightarrow> prompt_step s t \<Longrightarrow> prompts_reachable t" by (rule prompts_reachable.prompts_move)
  show "prompts_reachable s \<Longrightarrow> (\<And>s. initial_prompts s \<Longrightarrow> P s) \<Longrightarrow>
      (\<And>s t. prompts_reachable s \<Longrightarrow> P s \<Longrightarrow> prompt_step s t \<Longrightarrow> P t) \<Longrightarrow> P s"
    by (erule prompts_reachable.induct) blast+
  show "initial_prompts s \<Longrightarrow> prompts_ok s" by (simp add: initial_prompts_def prompts_ok_def never_resent_Nil)
  show "prompts_ok s \<Longrightarrow> prompt_step s t \<Longrightarrow> prompts_ok t" by (rule prompt_step_ok)
qed

section \<open>Runs\<close>

lemma forThread_eq:
  assumes "prompts_ok s"
  shows "promptMutationForThread (Some t) s = pr_mutations s t"
proof (cases "pr_mutations s t")
  case None
  then show ?thesis using forThread_kept [OF assms, of t] by (cases "promptMutationForThread (Some t) s") auto
qed (simp add: promptMutationForThread_def)

lemma retire_fields:
  "prompts_ok s \<Longrightarrow> pr_mutations (retire_prompts t s) = pr_mutations s" "pr_drafts (retire_prompts t s) = pr_drafts s"
  "pr_store (retire_prompts t s) = pr_store s"
proof -
  show "pr_mutations (retire_prompts t s) = pr_mutations s" if "prompts_ok s"
    using prompts_okD(2) [OF that] by (cases "pr_current s") (simp_all add: retire_prompts_def Let_def fun_upd_idem)
qed (simp_all add: retire_prompts_def Let_def split: option.split)

lemma select_fields:
  "prompts_ok s \<Longrightarrow> pr_mutations (select_for_prompts t s) = pr_mutations s" "pr_drafts (select_for_prompts t s) = pr_drafts s"
  "pr_thread (select_for_prompts t s) = t" "pr_store (select_for_prompts t s) = pr_store s"
  by (simp_all add: select_for_prompts_def retire_fields)

lemma draft_fields [simp]:
  "pr_drafts (render_prompts s) = pr_drafts s" "pr_drafts (renderComposerState s) = pr_drafts s" "pr_drafts (open_prompt_call c s) = pr_drafts s"
  "pr_drafts (close_prompt_call c s) = pr_drafts s" "pr_drafts (log_prompt e s) = pr_drafts s" "pr_drafts (forget_prompt r s) = pr_drafts s"
  "pr_drafts (setDraftForThread (Some t) d s) = (pr_drafts s)(t := (if d \<noteq> [] then Some d else None))"
  "pr_drafts (empty_composer t s) = (pr_drafts s)(t := None)" "pr_drafts (set_prompt_state r st s) = pr_drafts s"
  by (simp_all add: render_prompts_def renderComposerState_def open_prompt_call_def close_prompt_call_def log_prompt_def forget_prompt_def
      setDraftForThread_def empty_composer_def set_prompt_state_def Let_def)

lemma dispatch_fields:
  "pr_mutations (dispatch_prompt t r s) = (pr_mutations s)(t \<mapsto> r)" "pr_calls (dispatch_prompt t r s) = pr_calls s @ [SendingPrompt r]"
  "pr_log (dispatch_prompt t r s) = pr_log s @ [Sent r t (pm_prompt (pr_store s ! r)) (pm_clientRequestId (pr_store s ! r))]"
  "pm_prompt (pr_store s ! r) \<noteq> [] \<Longrightarrow> pr_drafts (dispatch_prompt t r s) = (pr_drafts s)(t \<mapsto> pm_prompt (pr_store s ! r))"
  "thread_of k (dispatch_prompt t r s) = thread_of k s" "pr_thread (dispatch_prompt t r s) = pr_thread s"
proof -
  have "thread_of k (log_prompt e (open_prompt_call c u)) = thread_of k u" for e c u
    by (simp add: log_prompt_def open_prompt_call_def thread_of_def)
  moreover have "thread_of k (render_prompts (setDraftForThread i d (u\<lparr>pr_mutations := ms, pr_current := cur, pr_draft := dr\<rparr>))) = thread_of k u"
    for i d u ms cur dr by (simp add: thread_of_def)
  ultimately show "thread_of k (dispatch_prompt t r s) = thread_of k s" by (simp add: dispatch_prompt_def Let_def)
qed (simp_all add: dispatch_prompt_def Let_def log_prompt_def open_prompt_call_def)

text \<open>A prompt sent in a chat without one.\<close>

lemma fresh_send:
  assumes "pr_thread s = Some a" "promptMutationForThread (Some a) s = None" "js_trim (pr_input s) \<noteq> []"
  shows "pr_mutations (sendPrompt entropy s) a = Some (length (pr_store s))" "thread_of (length (pr_store s)) (sendPrompt entropy s) = a"
    "pr_drafts (sendPrompt entropy s) a = Some (js_trim (pr_input s))" "SendingPrompt (length (pr_store s)) \<in> set (pr_calls (sendPrompt entropy s))"
    "pr_thread (sendPrompt entropy s) = Some a"
    "Sent (length (pr_store s)) a (js_trim (pr_input s)) (createClientRequestId ''prompt'' entropy) \<in> set (pr_log (sendPrompt entropy s))"
  using assms by (simp_all add: sendPrompt_def Let_def dispatch_fields, simp add: thread_of_def)

lemma forget_fields:
  "pr_mutations (forget_prompt r s) = (if pr_mutations s (thread_of r s) = Some r then (pr_mutations s)(thread_of r s := None) else pr_mutations s)"
  "pr_thread (forget_prompt r s) = pr_thread s" "pr_store (forget_prompt r s) = pr_store s"
  by (simp_all add: forget_prompt_def Let_def)

lemma call_fields [simp]:
  "pr_mutations (close_prompt_call c s) = pr_mutations s" "pr_thread (close_prompt_call c s) = pr_thread s"
  "pr_store (close_prompt_call c s) = pr_store s" "thread_of k (close_prompt_call c s) = thread_of k s"
  "pr_mutations (log_prompt e s) = pr_mutations s" "pr_thread (log_prompt e s) = pr_thread s" "pr_store (log_prompt e s) = pr_store s"
  by (simp_all add: close_prompt_call_def log_prompt_def thread_of_def)

definition prs1 :: prompts where
  "prs1 =
     \<lparr>pr_thread = Some (js ''t1''), pr_store = [], pr_mutations = (\<lambda>_. None), pr_current = None, pr_draft = [], pr_drafts = (\<lambda>_. None),
      pr_input = [], pr_suspended = False, pr_events = [], pr_error = initial_error, pr_calls = [], pr_log = []\<rparr>"

definition prs2 :: prompts where
  "prs2 = type_prompt (js ''hi'') prs1"

definition prs3 :: prompts where
  "prs3 = sendPrompt (js ''x'') prs2"

lemma prs_reachable: "prompts_reachable prs1" "prompts_reachable prs2" "prompts_reachable prs3"
proof -
  have "prompts_reachable (prs1\<lparr>pr_thread := None\<rparr>)" by (rule no_prompts) (simp add: initial_prompts_def prs1_def)
  from pr.reach_step [OF this chat_replaced [of _ "Some (js ''t1'')"]] show 1: "prompts_reachable prs1" by (simp add: prs1_def)
  show 2: "prompts_reachable prs2" unfolding prs2_def
    by (rule pr.reach_step [OF 1]) (rule typed, simp add: input_disabled_def promptMutationForThread_def prs1_def)
  show "prompts_reachable prs3" unfolding prs3_def by (rule pr.reach_step [OF 2]) (rule sent)
qed

lemma prs2_fields: "pr_thread prs2 = Some (js ''t1'')" "promptMutationForThread (Some (js ''t1'')) prs2 = None" "js_trim (pr_input prs2) = js ''hi''"
  "pr_store prs2 = []"
proof -
  show "pr_thread prs2 = Some (js ''t1'')" "pr_store prs2 = []" by (simp_all add: prs2_def type_prompt_def prs1_def)
  show n: "promptMutationForThread (Some (js ''t1'')) prs2 = None"
    by (simp add: promptMutationForThread_def prs2_def type_prompt_def prs1_def)
  have "pr_input prs2 = js ''hi''"
    by (simp add: prs2_def type_prompt_def renderComposerState_def composer_value_def prs1_def promptMutationForThread_def prompt_state_def
        setDraftForThread_def draftForThread_def Let_def js_def)
  then show "js_trim (pr_input prs2) = js ''hi''" by (simp add: js_trim_def js_def is_ws_def)
qed

section \<open>Properties\<close>

text \<open>
  C18: A prompt that has arrived is not sent again. In every state the panel can reach: after
  the service has acknowledged a prompt or its event was seen, that prompt is never sent
  again; all sends of a prompt have the same chat, text and request identifier; no prompt has
  two calls open; and each chat keeps at most one prompt, which is one that has not arrived
  and belongs to the chat.
\<close>

theorem prompt_never_resent:
  assumes "prompts_reachable s"
  shows "(\<forall>xs r ys t p i. pr_log s = xs @ Settled r # ys \<longrightarrow> Sent r t p i \<notin> set ys)
    \<and> (\<forall>r t p i t' p' i'. Sent r t p i \<in> set (pr_log s) \<longrightarrow> Sent r t' p' i' \<in> set (pr_log s) \<longrightarrow> t = t' \<and> p = p' \<and> i = i')
    \<and> distinct (prompt_refs s)
    \<and> (\<forall>t r. promptMutationForThread (Some t) s = Some r \<longrightarrow> Settled r \<notin> set (pr_log s) \<and> thread_of r s = t)"
proof -
  have ok: "prompts_ok s" by (rule pr.holds [OF assms])
  note d = prompts_okD [OF ok]
  have "t = t' \<and> p = p' \<and> i = i'" if "Sent r t p i \<in> set (pr_log s)" "Sent r t' p' i' \<in> set (pr_log s)" for r t p i t' p' i'
  proof -
    have "log_entry_ok (pr_store s) (Sent r t p i)" "log_entry_ok (pr_store s) (Sent r t' p' i')" using d(5) that by (simp_all add: list_all_iff)
    then show ?thesis by (simp add: log_entry_ok_def)
  qed
  moreover have "Settled r \<notin> set (pr_log s) \<and> thread_of r s = t" if "promptMutationForThread (Some t) s = Some r" for t r
    using kept_okD(2,3) [OF d(1)] that forThread_eq [OF ok] by simp
  ultimately show ?thesis using d(3,6) unfolding never_resent_def by blast
qed

theorem prompt_never_resent_witness:
  "distinct (prompt_refs prs3) \<and> SendingPrompt 0 \<in> set (pr_calls prs3) \<and> promptMutationForThread (Some (js ''t1'')) prs3 = Some 0
   \<and> Settled 0 \<notin> set (pr_log prs3)"
proof -
  have m: "promptMutationForThread (Some (js ''t1'')) prs3 = Some 0" "SendingPrompt 0 \<in> set (pr_calls prs3)"
    using fresh_send(1,4) [of prs2 "js ''t1''" "js ''x''"] prs2_fields
    by (simp_all add: promptMutationForThread_def prs3_def js_def)
  show ?thesis using prompt_never_resent [OF prs_reachable(3)] m by blast
qed

text \<open>
  C19: A prompt sent and then left comes back as a draft. When the user sends a prompt, opens
  another chat before the service has acknowledged it and later returns, the composer of the
  first chat holds the prompt again and offers to send it, although it has arrived.
\<close>

theorem sent_prompt_returns_as_draft:
  assumes "prompts_reachable s" "pr_thread s = Some a" "promptMutationForThread (Some a) s = None" "js_trim (pr_input s) \<noteq> []" "b \<noteq> a"
    and "r = length (pr_store s)" "u = prompt_acknowledged r (select_for_prompts (Some b) (sendPrompt entropy s))"
    and "t = select_for_prompts (Some a) u"
  shows "Settled r \<in> set (pr_log u) \<and> composer_value t = js_trim (pr_input s) \<and> \<not> input_disabled True t \<and> promptMutationForThread (Some a) t = None"
proof -
  define v where "v = select_for_prompts (Some b) (sendPrompt entropy s)"
  note f = fresh_send [OF assms(2-4), of entropy, folded assms(6)]
  have ok: "prompts_ok (sendPrompt entropy s)" using ok_send pr.holds [OF assms(1)] by blast
  have v: "prompts_ok v" "pr_mutations v a = Some r" "thread_of r v = a" "pr_drafts v a = Some (js_trim (pr_input s))" "pr_thread v = Some b"
    using f ok ok_retire [OF ok] select_fields(1) [OF ok, of "Some b"] select_fields(2-4) [of "Some b" "sendPrompt entropy s"]
    by (simp_all add: v_def thread_of_def select_for_prompts_def)
  have u: "u = log_prompt (Settled r) (forget_prompt r (close_prompt_call (SendingPrompt r) v))"
    using v(3,5) assms(5) unfolding assms(7) v_def [symmetric]
    by (simp add: prompt_acknowledged_def Let_def forget_fields)
  have r: "r < length (pr_store v)" using kept_okD(1) [OF prompts_okD(1) [OF v(1,2)]] .
  have uok: "prompts_ok u" unfolding u by (rule ok_settle [OF ok_close [OF v(1)]]) (use r in simp)
  have uf: "pr_mutations u a = None" "pr_drafts u a = Some (js_trim (pr_input s))" using v by (simp_all add: u forget_fields)
  have tok: "prompts_ok t" using ok_retire [OF uok] by (simp add: assms(8) select_for_prompts_def)
  have t: "pr_thread t = Some a" "promptMutationForThread (Some a) t = None" "pr_drafts t a = Some (js_trim (pr_input s))"
    using forThread_eq [OF tok] uf select_fields(1) [OF uok, of "Some a"] select_fields(2,3) [of "Some a" u] by (simp_all add: assms(8))
  then show ?thesis by (simp add: composer_value_def prompt_state_def draftForThread_def input_disabled_def Let_def) (simp add: u log_prompt_def)
qed

theorem sent_prompt_returns_as_draft_witness:
  "composer_value (select_for_prompts (Some (js ''t1'')) (prompt_acknowledged 0 (select_for_prompts (Some (js ''t2'')) prs3))) = js ''hi''"
proof -
  have "js ''hi'' \<noteq> []" "js ''t2'' \<noteq> js ''t1''" by (simp_all add: js_def)
  then show ?thesis
    using sent_prompt_returns_as_draft [OF prs_reachable(2) prs2_fields(1,2) _ _ refl refl refl, of "js ''t2''" "js ''x''"] prs2_fields
    by (simp add: prs3_def)
qed

text \<open>
  C20: A late acknowledgement erases what the user types next. When the event of a prompt is
  seen before its send is acknowledged, the composer is free again; what the user types into
  it is lost, with its draft, when the acknowledgement comes.
\<close>

theorem late_answer_erases_typing:
  assumes "prompts_reachable s" "pr_thread s = Some a" "pr_mutations s a = Some r" "text \<noteq> []"
    and "u = settlePromptMutation (pm_clientRequestId (pr_store s ! r)) s" "v = type_prompt text u" "t = prompt_acknowledged r v"
  shows "\<not> input_disabled True u \<and> draftForThread (Some a) v = text \<and> draftForThread (Some a) t = [] \<and> composer_value t = []"
proof -
  have ok: "prompts_ok s" by (rule pr.holds [OF assms(1)])
  have th: "thread_of r s = a" using kept_okD(2) [OF prompts_okD(1) [OF ok assms(3)]] .
  have u: "u = render_prompts (empty_composer a (log_prompt (Settled r) (forget_prompt r s)))"
    using forThread_eq [OF ok, of a] assms(2,3) th by (simp add: assms(5) settlePromptMutation_def Let_def)
  have uok: "prompts_ok u" using ok_settlePrompt [OF ok] by (simp add: assms(5))
  have uf: "pr_mutations u a = None" "pr_thread u = Some a" "pr_store u = pr_store s"
    using assms(2,3) th by (simp_all add: u forget_fields)
  have v: "pr_thread v = Some a" "pr_drafts v a = Some text" "thread_of r v = a" "pr_mutations v a = None" "prompts_ok v"
    using uf uok assms(4) th by (simp_all add: assms(6) type_prompt_def thread_of_def)
  have t: "pr_thread t = Some a" "pr_drafts t a = None" "pr_mutations t a = None"
    using v by (simp_all add: assms(7) prompt_acknowledged_def Let_def forget_fields)
  have "r < length (pr_store v)"
    using kept_okD(1) [OF prompts_okD(1) [OF ok assms(3)]] uf(3) by (simp add: assms(6) type_prompt_def)
  then have "prompts_ok (log_prompt (Settled r) (forget_prompt r (close_prompt_call (SendingPrompt r) v)))"
    by (intro ok_settle ok_close v(5)) simp
  then have "prompts_ok t" by (simp add: assms(7) prompt_acknowledged_def Let_def)
  then have none: "promptMutationForThread (Some a) t = None" using forThread_eq t(3) by simp
  show ?thesis
    using uf(2) forThread_eq [OF uok, of a] uf(1) v(2) t none
    by (simp add: input_disabled_def draftForThread_def composer_value_def prompt_state_def Let_def)
qed

theorem late_answer_erases_typing_witness:
  "let u = settlePromptMutation (pm_clientRequestId (pr_store prs3 ! 0)) prs3; v = type_prompt (js ''next'') u
   in draftForThread (Some (js ''t1'')) v = js ''next'' \<and> draftForThread (Some (js ''t1'')) (prompt_acknowledged 0 v) = []"
proof -
  have "pr_mutations prs3 (js ''t1'') = Some 0" "pr_thread prs3 = Some (js ''t1'')" "js ''next'' \<noteq> []"
    using fresh_send(1,5) [OF prs2_fields(1,2), of "js ''x''"] prs2_fields(3,4) by (simp_all add: prs3_def js_def)
  from late_answer_erases_typing [OF prs_reachable(3) this(2,1,3) refl refl refl] show ?thesis by (simp add: Let_def)
qed

end
