(* ===== verification/AccountStatus.thy ===== *)
theory AccountStatus
  imports LiveEvents StatusViews
begin

text \<open>
  The account and the system events of the panel (\<open>codex-bridge-panel.js\<close>): how answers about
  the sign-in are merged into the status, the poll that runs while a sign-in is under way, the
  three sign-in operations, and the subscription to system events, which asks for the status
  again. Methods are cut at their awaits; rendering changes none of this state and is left out.
\<close>

section \<open>The status\<close>

text \<open>\<open>{ ...v }\<close>.\<close>

definition spread_of :: "jsval \<Rightarrow> jsobj" where
  "spread_of v =
     (case v of
        JObj kvs \<Rightarrow> kvs
      | JArr xs \<Rightarrow> map (\<lambda>(i, x). (dec_nat i, x)) (enumerate 0 xs)
      | JStr us \<Rightarrow> map (\<lambda>(i, u). (dec_nat i, JStr [u])) (enumerate 0 us)
      | _ \<Rightarrow> [])"

definition auth_revision :: "jsval \<Rightarrow> int" where
  "auth_revision auth =
     (let r = dot auth ''revision'' in if is_safe_integer r \<and> 0 \<le> to_int r then to_int r else - 1)"

definition selectNewestAuthStatus :: "jsval \<Rightarrow> jsval \<Rightarrow> jsval" where
  "selectNewestAuthStatus primary secondary =
     (let first = (if is_record primary then primary else JNull); second = (if is_record secondary then secondary else JNull) in
      if first = JNull then second
      else if second = JNull then first
      else if auth_revision first < auth_revision second then second else first)"

definition CODE_STATES :: "string list" where
  "CODE_STATES = [''login_starting'', ''login_running'']"

definition is_one_of :: "string list \<Rightarrow> jsval \<Rightarrow> bool" where
  "is_one_of names v \<longleftrightarrow> list_ex (\<lambda>n. v = jlit n) names"

definition normalizedAuthStatus :: "jsval \<Rightarrow> jsval" where
  "normalizedAuthStatus auth =
     (let kvs = (if is_record auth then spread_of auth else [(js ''state'', jlit ''unknown'')]) in
      if is_one_of CODE_STATES (dot (JObj kvs) ''state'') then JObj kvs
      else JObj (obj_set (obj_set (obj_set (obj_set kvs (js ''user_code'') JNull) (js ''verification_uri'') JNull)
        (js ''login_url'') JNull) (js ''output_tail'') (JArr [])))"

section \<open>State\<close>

text \<open>An open call: a refresh of the status (the poll knows its generation), an operation, and the start-up.\<close>

datatype account_operation = StartLogin | CancelLogin | Logout

datatype account_call =
    AuthFetch bool "nat option"
  | StatusFetch jsval bool "nat option"
  | Operation account_operation
  | BootConfig
  | BootStatus
  | BootRest

record account =
  ac_status :: jsval
  ac_config :: "bool option"
  ac_hass :: bool
  ac_connected :: bool
  ac_subscribable :: bool
  ac_loading :: bool
  ac_pollTimer :: "nat option"
  ac_pollInFlight :: bool
  ac_pollGeneration :: nat
  ac_actionPending :: bool
  ac_confirmSignOut :: bool
  ac_bannerKey :: jstr
  ac_error :: panel_error
  ac_calls :: "account_call list"
  sy_generation :: nat
  sy_unsubscribe :: "subscription option"
  sy_active :: bool
  sy_pending :: bool
  sy_requests :: "subscription list"
  sy_open :: "subscription list"
  sy_attempt :: nat
  sy_reconnectTimer :: "nat option"
  sy_refreshTimer :: bool
  sy_cursor :: int

text \<open>
  Of the configuration the panel reads, here, whether it is loaded and whether it says that the
  app runs under the supervisor with API version 1: that is what \<open>ac_config\<close> keeps of it.
\<close>

definition config_kind :: "(jstr \<Rightarrow> jsnum) \<Rightarrow> (rat \<Rightarrow> jstr) \<Rightarrow> jsval \<Rightarrow> bool option" where
  "config_kind strNum fmt config =
     (if truthy config then Some (dot config ''connection_type'' = jlit ''supervisor'' \<and> js_Number strNum fmt (dot config ''api_version'') = Fin 1)
      else None)"

definition isSupervisorConnection :: "account \<Rightarrow> bool" where
  "isSupervisorConnection s \<longleftrightarrow> ac_config s = Some True"

definition isLegacyConnection :: "account \<Rightarrow> bool" where
  "isLegacyConnection s \<longleftrightarrow> \<not> isSupervisorConnection s \<and> ac_config s \<noteq> None"

definition auth_of :: "account \<Rightarrow> jsval" where
  "auth_of s = dot (ac_status s) ''auth''"

definition account_call_open :: "account_call \<Rightarrow> account \<Rightarrow> account" where
  "account_call_open c s = s\<lparr>ac_calls := ac_calls s @ [c]\<rparr>"

definition account_call_close :: "account_call \<Rightarrow> account \<Rightarrow> account" where
  "account_call_close c s = s\<lparr>ac_calls := remove1 c (ac_calls s)\<rparr>"

definition account_error :: "(rat \<Rightarrow> jstr) \<Rightarrow> jsval \<Rightarrow> account \<Rightarrow> account" where
  "account_error fmt err s = s\<lparr>ac_error := setError fmt err [] (ac_error s)\<rparr>"

definition clear_account_error :: "account \<Rightarrow> account" where
  "clear_account_error s = s\<lparr>ac_error := clearError None (ac_error s)\<rparr>"

section \<open>The sign-in poll\<close>

definition PENDING_STATES :: "string list" where
  "PENDING_STATES = [''login_starting'', ''login_running'', ''login_completing'']"

definition authLoginIsPending :: "account \<Rightarrow> bool" where
  "authLoginIsPending s \<longleftrightarrow> is_one_of PENDING_STATES (dot (auth_of s) ''state'')"

definition stopAuthPolling :: "account \<Rightarrow> account" where
  "stopAuthPolling s = s\<lparr>ac_pollGeneration := Suc (ac_pollGeneration s), ac_pollTimer := None, ac_pollInFlight := False\<rparr>"

definition polling_wanted :: "account \<Rightarrow> bool" where
  "polling_wanted s \<longleftrightarrow> ac_connected s \<and> ac_hass s \<and> \<not> isLegacyConnection s \<and> authLoginIsPending s"

definition AUTH_POLL_INTERVAL_MS :: nat where
  "AUTH_POLL_INTERVAL_MS = 2000"

text \<open>The timer is set for the generation that is current; it fires after \<open>AUTH_POLL_INTERVAL_MS\<close>.\<close>

definition syncAuthPolling :: "account \<Rightarrow> account" where
  "syncAuthPolling s =
     (if \<not> polling_wanted s then stopAuthPolling s
      else if ac_pollTimer s \<noteq> None \<or> ac_pollInFlight s then s
      else s\<lparr>ac_pollTimer := Some (ac_pollGeneration s)\<rparr>)"

definition refreshAuthStatus :: "bool \<Rightarrow> nat option \<Rightarrow> account \<Rightarrow> account" where
  "refreshAuthStatus silent g s = account_call_open (AuthFetch silent g) s"

definition auth_poll_fires :: "nat \<Rightarrow> account \<Rightarrow> account" where
  "auth_poll_fires g s =
     (let s1 = s\<lparr>ac_pollTimer := None\<rparr> in
      if g \<noteq> ac_pollGeneration s1 \<or> \<not> ac_connected s1 \<or> \<not> authLoginIsPending s1 then s1
      else refreshAuthStatus True (Some g) (s1\<lparr>ac_pollInFlight := True\<rparr>))"

text \<open>The end of a refresh: for the poll, the \<open>finally\<close> of its timer.\<close>

definition refresh_ended :: "nat option \<Rightarrow> account \<Rightarrow> account" where
  "refresh_ended g s =
     (if g \<noteq> None \<and> g = Some (ac_pollGeneration s) then syncAuthPolling (s\<lparr>ac_pollInFlight := False\<rparr>) else s)"

section \<open>Merging answers\<close>

definition applyAuthStatus :: "jsval \<Rightarrow> account \<Rightarrow> account" where
  "applyAuthStatus auth s =
     syncAuthPolling (s\<lparr>ac_status := JObj (obj_set (spread_of (ac_status s)) (js ''auth'')
       (normalizedAuthStatus (selectNewestAuthStatus auth (auth_of s))))\<rparr>)"

definition mergeStatus :: "jsval \<Rightarrow> account \<Rightarrow> account" where
  "mergeStatus v s =
     (if \<not> is_record v then s
      else syncAuthPolling (s\<lparr>ac_status := JObj (obj_set (spread_of v) (js ''auth'')
        (normalizedAuthStatus (selectNewestAuthStatus (dot v ''auth'') (auth_of s))))\<rparr>))"

definition authViewModel :: "account \<Rightarrow> auth_model" where
  "authViewModel s =
     getAuthViewModel (JObj (obj_set (obj_set (spread_of (js_or (auth_of s) (JObj []))) (js ''account'') (js_or (dot (ac_status s) ''account'') (JObj [])))
       (js ''signedOutConfirmed'') (JBool (ac_confirmSignOut s))))"

definition poll_superseded :: "nat option \<Rightarrow> account \<Rightarrow> bool" where
  "poll_superseded g s \<longleftrightarrow> g \<noteq> None \<and> g \<noteq> Some (ac_pollGeneration s)"

definition auth_fetched :: "(rat \<Rightarrow> jstr) \<Rightarrow> bool \<Rightarrow> nat option \<Rightarrow> jsval + jsval \<Rightarrow> account \<Rightarrow> account" where
  "auth_fetched fmt silent g reply s =
     (let s1 = account_call_close (AuthFetch silent g) s in
      case reply of
        Inl err \<Rightarrow> refresh_ended g (if silent then s1 else account_error fmt err s1)
      | Inr auth \<Rightarrow> if poll_superseded g s1 then refresh_ended g s1 else account_call_open (StatusFetch auth silent g) s1)"

definition status_fetched :: "(rat \<Rightarrow> jstr) \<Rightarrow> jsval \<Rightarrow> bool \<Rightarrow> nat option \<Rightarrow> jsval + jsval \<Rightarrow> account \<Rightarrow> account" where
  "status_fetched fmt auth silent g reply s =
     (let s1 = account_call_close (StatusFetch auth silent g) s in
      case reply of
        Inl err \<Rightarrow> refresh_ended g (if silent then s1 else account_error fmt err s1)
      | Inr st \<Rightarrow>
          if poll_superseded g s1 then refresh_ended g s1
          else
            (let newest = selectNewestAuthStatus auth (dot st ''auth'');
                 s2 = mergeStatus (JObj (obj_set (spread_of (js_or (js_or st (ac_status s1)) (JObj []))) (js ''auth'') newest)) s1;
                 s3 = (if am_signedIn (authViewModel s2) then s2 else s2\<lparr>ac_confirmSignOut := False\<rparr>);
                 s4 = (if silent then s3 else clear_account_error (s3\<lparr>ac_bannerKey := []\<rparr>)) in
             refresh_ended g s4))"

section \<open>The sign-in operations\<close>

definition begin_operation :: "account_operation \<Rightarrow> account \<Rightarrow> account" where
  "begin_operation c s =
     (if ac_actionPending s \<or> isLegacyConnection s then s
      else if c = Logout \<and> \<not> ac_confirmSignOut s then s\<lparr>ac_confirmSignOut := True\<rparr>
      else account_call_open (Operation c) (s\<lparr>ac_actionPending := True\<rparr>))"

definition signed_out_account :: jsval where
  "signed_out_account = JObj [(js ''available'', JBool False), (js ''auth_mode'', JNull), (js ''plan_type'', JNull)]"

definition operation_answered :: "(rat \<Rightarrow> jstr) \<Rightarrow> account_operation \<Rightarrow> jsval + jsval \<Rightarrow> account \<Rightarrow> account" where
  "operation_answered fmt c reply s =
     (let s1 = account_call_close (Operation c) s;
          s2 = (case reply of
            Inl err \<Rightarrow> account_error fmt err s1
          | Inr auth \<Rightarrow>
              (let a = applyAuthStatus auth s1;
                   b = (if c = Logout then a\<lparr>ac_status := JObj (obj_set (spread_of (ac_status a)) (js ''account'') signed_out_account)\<rparr> else a) in
               clear_account_error (b\<lparr>ac_confirmSignOut := False, ac_bannerKey := []\<rparr>))) in
      s2\<lparr>ac_actionPending := False\<rparr>)"

text \<open>The page that a sign-in may open: parsed by the URL parser, which is a parameter.\<close>

record sign_in_url =
  su_href :: jstr
  su_protocol :: jstr
  su_hostname :: jstr
  su_port :: jstr
  su_pathname :: jstr
  su_username :: jstr
  su_password :: jstr
  su_search :: jstr
  su_hash :: jstr

definition AUTH_VERIFICATION_HOSTS :: "string list" where
  "AUTH_VERIFICATION_HOSTS = [''auth.openai.com'', ''chatgpt.com'', ''platform.openai.com'']"

definition safeAuthVerificationUrl :: "(jstr \<Rightarrow> sign_in_url option) \<Rightarrow> account \<Rightarrow> jstr option" where
  "safeAuthVerificationUrl parse s =
     (let candidate = js_or (dot (auth_of s) ''verification_uri'') (dot (auth_of s) ''login_url'') in
      if \<not> am_canOpen (authViewModel s) \<or> \<not> is_string candidate then None
      else case parse (as_string candidate) of
        None \<Rightarrow> None
      | Some u \<Rightarrow>
          if su_protocol u \<noteq> js ''https:'' \<or> js_lower (su_hostname u) \<notin> js ` set AUTH_VERIFICATION_HOSTS
             \<or> su_port u \<notin> {[], js ''443''} \<or> su_pathname u \<in> {[], js ''/''}
             \<or> su_username u \<noteq> [] \<or> su_password u \<noteq> [] \<or> su_search u \<noteq> [] \<or> su_hash u \<noteq> []
          then None else Some (su_href u))"

definition openChatGptSignIn :: "(rat \<Rightarrow> jstr) \<Rightarrow> (jstr \<Rightarrow> sign_in_url option) \<Rightarrow> account \<Rightarrow> account \<times> jstr option" where
  "openChatGptSignIn fmt parse s =
     (case safeAuthVerificationUrl parse s of
        None \<Rightarrow> (account_error fmt
          (jlit ''The ChatGPT sign-in page is unavailable. Copy the code and continue on another device.'') s, None)
      | Some href \<Rightarrow> (s, Some href))"

text \<open>Copying the code: what the clipboard answers is an argument.\<close>

definition copyAuthCode :: "(rat \<Rightarrow> jstr) \<Rightarrow> jsval option \<Rightarrow> account \<Rightarrow> account" where
  "copyAuthCode fmt failure s =
     (if am_code (authViewModel s) \<in> {None, Some []} then s
      else case failure of None \<Rightarrow> clear_account_error s | Some err \<Rightarrow> account_error fmt err s)"

section \<open>System events\<close>

definition startSystemEventSubscription :: "account \<Rightarrow> account" where
  "startSystemEventSubscription s =
     (if \<not> isSupervisorConnection s \<or> \<not> ac_subscribable s then s\<lparr>sy_active := False\<rparr>
      else if sy_active s \<or> sy_pending s then s
      else s\<lparr>sy_generation := Suc (sy_generation s), sy_pending := True,
             sy_requests := sy_requests s @ [\<lparr>sb_generation = Suc (sy_generation s), sb_thread = []\<rparr>]\<rparr>)"

definition close_system :: "account \<Rightarrow> account" where
  "close_system s =
     (case sy_unsubscribe s of None \<Rightarrow> s
      | Some x \<Rightarrow> s\<lparr>sy_open := filter (\<lambda>y. y \<noteq> x) (sy_open s), sy_unsubscribe := None\<rparr>)"

definition stopSystemEventSubscription :: "account \<Rightarrow> account" where
  "stopSystemEventSubscription s =
     (close_system (s\<lparr>sy_generation := Suc (sy_generation s)\<rparr>))
       \<lparr>sy_refreshTimer := False, sy_reconnectTimer := None, sy_pending := False, sy_active := False, sy_attempt := 0\<rparr>"

definition scheduleSystemReconnect :: "account \<Rightarrow> account" where
  "scheduleSystemReconnect s =
     (if sy_reconnectTimer s \<noteq> None \<or> \<not> ac_connected s \<or> \<not> isSupervisorConnection s then s
      else (let n = min (sy_attempt s + 1) 7 in s\<lparr>sy_attempt := n, sy_reconnectTimer := Some (reconnect_delay n)\<rparr>))"

definition retireSystemEventSubscription :: "account \<Rightarrow> account" where
  "retireSystemEventSubscription s =
     scheduleSystemReconnect ((close_system (s\<lparr>sy_generation := Suc (sy_generation s)\<rparr>))\<lparr>sy_pending := False, sy_active := False\<rparr>)"

definition system_settled :: "subscription \<Rightarrow> bool \<Rightarrow> account \<Rightarrow> account" where
  "system_settled x ok s =
     (let s1 = s\<lparr>sy_requests := remove1 x (sy_requests s)\<rparr> in
      if sb_generation x \<noteq> sy_generation s1 then s1
      else
        (let s2 = (if ok then s1\<lparr>sy_open := sy_open s1 @ [x], sy_unsubscribe := Some x, sy_active := True, sy_attempt := 0,
                     sy_reconnectTimer := None\<rparr>
                   else scheduleSystemReconnect (s1\<lparr>sy_active := False\<rparr>)) in
         s2\<lparr>sy_pending := False\<rparr>))"

definition system_reconnect_fires :: "account \<Rightarrow> account" where
  "system_reconnect_fires s = startSystemEventSubscription (s\<lparr>sy_reconnectTimer := None\<rparr>)"

definition SYSTEM_EVENT_SCOPES :: "string list" where
  "SYSTEM_EVENT_SCOPES = [''auth'', ''runtime'']"

definition scheduleSystemRefresh :: "account \<Rightarrow> account" where
  "scheduleSystemRefresh s = s\<lparr>sy_refreshTimer := True\<rparr>"

definition system_refresh_fires :: "account \<Rightarrow> account" where
  "system_refresh_fires s = refreshAuthStatus False None (s\<lparr>sy_refreshTimer := False\<rparr>)"

text \<open>An event of a subscribed scope with a new cursor, whose type is named after its scope.\<close>

definition system_event_ok :: "jsval \<Rightarrow> int \<Rightarrow> bool" where
  "system_event_ok e seen \<longleftrightarrow>
     is_record e \<and> is_safe_integer (dot e ''cursor'') \<and> seen < to_int (dot e ''cursor'')
     \<and> is_one_of SYSTEM_EVENT_SCOPES (dot e ''scope'') \<and> is_string (dot e ''event_type'')
     \<and> starts_with (as_string (dot e ''scope'') @ [46]) (as_string (dot e ''event_type'')) \<and> is_record (dot e ''payload'')"

definition handleSystemEvent :: "jsval \<Rightarrow> account \<Rightarrow> account" where
  "handleSystemEvent envelope s =
     (if \<not> is_record envelope then s
      else if dot envelope ''type'' = jlit ''event'' then
        (let e = dot envelope ''event'' in
         if system_event_ok e (sy_cursor s) then scheduleSystemRefresh (s\<lparr>sy_cursor := to_int (dot e ''cursor'')\<rparr>) else s)
      else if dot envelope ''type'' = jlit ''snapshot_required'' then
        (let c = dot envelope ''cursor'' in
         scheduleSystemRefresh (if is_safe_integer c \<and> 0 \<le> to_int c then s\<lparr>sy_cursor := max (sy_cursor s) (to_int c)\<rparr> else s))
      else if dot envelope ''type'' = jlit ''stream_status'' then
        (let s1 = scheduleSystemRefresh s in
         if is_one_of TERMINAL_STREAM_STATES (dot envelope ''state'') then retireSystemEventSubscription s1 else s1)
      else if dot envelope ''type'' = jlit ''error'' then retireSystemEventSubscription (scheduleSystemRefresh s)
      else s)"

definition system_delivered :: "subscription \<Rightarrow> jsval \<Rightarrow> account \<Rightarrow> account" where
  "system_delivered x envelope s = (if sb_generation x = sy_generation s then handleSystemEvent envelope s else s)"

section \<open>Start-up and attachment\<close>

definition bootstrap :: "account \<Rightarrow> account" where
  "bootstrap s = (if \<not> ac_hass s \<or> ac_loading s then s else account_call_open BootConfig (s\<lparr>ac_loading := True\<rparr>))"

definition set_hass :: "account \<Rightarrow> account" where
  "set_hass s = (let s1 = s\<lparr>ac_hass := True\<rparr> in if ac_config s1 = None then bootstrap s1 else s1)"

text \<open>
  After the configuration the panel loads the status, the projects and the chats; what the
  last two do is not part of this component, and \<open>BootRest\<close> stands for the point where
  all of them have ended.
\<close>

definition boot_config :: "(jstr \<Rightarrow> jsnum) \<Rightarrow> (rat \<Rightarrow> jstr) \<Rightarrow> jsval + jsval \<Rightarrow> account \<Rightarrow> account" where
  "boot_config strNum fmt reply s =
     (let s1 = account_call_close BootConfig s in
      case reply of
        Inl err \<Rightarrow> (account_error fmt err s1)\<lparr>ac_loading := False\<rparr>
      | Inr config \<Rightarrow> account_call_open BootRest (account_call_open BootStatus
          (startSystemEventSubscription (s1\<lparr>ac_config := config_kind strNum fmt config\<rparr>))))"

definition boot_status :: "jsval + jsval \<Rightarrow> account \<Rightarrow> account" where
  "boot_status reply s =
     (let s1 = account_call_close BootStatus s in case reply of Inl _ \<Rightarrow> s1 | Inr st \<Rightarrow> mergeStatus st s1)"

definition boot_rest :: "(rat \<Rightarrow> jstr) \<Rightarrow> jsval option \<Rightarrow> account \<Rightarrow> account" where
  "boot_rest fmt failure s =
     (let s1 = account_call_close BootRest s in
      (case failure of None \<Rightarrow> clear_account_error s1 | Some err \<Rightarrow> account_error fmt err s1)\<lparr>ac_loading := False\<rparr>)"

definition retryAppConnection :: "account \<Rightarrow> account" where
  "retryAppConnection s =
     bootstrap (clear_account_error ((stopSystemEventSubscription s)\<lparr>ac_config := None, ac_status := JNull, ac_bannerKey := []\<rparr>))"

definition attach_account :: "account \<Rightarrow> account" where
  "attach_account s =
     (let s1 = s\<lparr>ac_connected := True\<rparr> in
      syncAuthPolling (if ac_config s1 \<noteq> None \<and> ac_hass s1 then startSystemEventSubscription s1 else s1))"

definition detach_account :: "account \<Rightarrow> account" where
  "detach_account s = stopAuthPolling (stopSystemEventSubscription (s\<lparr>ac_connected := False\<rparr>))"

section \<open>Steps\<close>

definition initial_account :: "account \<Rightarrow> bool" where
  "initial_account s \<longleftrightarrow> ac_status s = JNull \<and> ac_config s = None \<and> \<not> ac_hass s \<and> \<not> ac_connected s \<and> \<not> ac_loading s
     \<and> ac_pollTimer s = None \<and> \<not> ac_pollInFlight s \<and> ac_pollGeneration s = 0 \<and> \<not> ac_actionPending s \<and> \<not> ac_confirmSignOut s
     \<and> ac_bannerKey s = [] \<and> ac_error s = initial_error \<and> ac_calls s = [] \<and> sy_generation s = 0 \<and> sy_unsubscribe s = None \<and> \<not> sy_active s
     \<and> \<not> sy_pending s \<and> sy_requests s = [] \<and> sy_open s = [] \<and> sy_attempt s = 0 \<and> sy_reconnectTimer s = None \<and> \<not> sy_refreshTimer s
     \<and> sy_cursor s = 0"

inductive account_step :: "account \<Rightarrow> account \<Rightarrow> bool" where
  poll_due: "ac_pollTimer s = Some g \<Longrightarrow> account_step s (auth_poll_fires g s)"
| auth_reply: "AuthFetch silent g \<in> set (ac_calls s) \<Longrightarrow> account_step s (auth_fetched fmt silent g reply s)"
| status_reply: "StatusFetch auth silent g \<in> set (ac_calls s) \<Longrightarrow> account_step s (status_fetched fmt auth silent g reply s)"
| refresh_asked: "ac_hass s \<Longrightarrow> account_step s (refreshAuthStatus False None s)"
| operation_chosen: "ac_hass s \<Longrightarrow> account_step s (begin_operation c s)"
| operation_reply: "Operation c \<in> set (ac_calls s) \<Longrightarrow> account_step s (operation_answered fmt c reply s)"
| status_merged: "ac_hass s \<Longrightarrow> account_step s (mergeStatus v s)"
| system_reply: "x \<in> set (sy_requests s) \<Longrightarrow> account_step s (system_settled x ok s)"
| system_reconnect: "sy_reconnectTimer s \<noteq> None \<Longrightarrow> account_step s (system_reconnect_fires s)"
| system_refresh: "sy_refreshTimer s \<Longrightarrow> account_step s (system_refresh_fires s)"
| system_event: "x \<in> set (sy_open s) \<union> set (sy_requests s) \<Longrightarrow> account_step s (system_delivered x envelope s)"
| hass_given: "account_step s (set_hass s)"
| config_reply: "BootConfig \<in> set (ac_calls s) \<Longrightarrow> account_step s (boot_config strNum fmt config s)"
| boot_status_reply: "BootStatus \<in> set (ac_calls s) \<Longrightarrow> account_step s (boot_status reply s)"
| boot_ended: "BootRest \<in> set (ac_calls s) \<Longrightarrow> account_step s (boot_rest fmt failure s)"
| retried: "account_step s (retryAppConnection s)"
| attached: "account_step s (attach_account s)"
| detached_account: "account_step s (detach_account s)"
| banner: "account_step s (s\<lparr>ac_error := e, ac_bannerKey := k\<rparr>)"
| sign_out_asked: "account_step s (s\<lparr>ac_confirmSignOut := b\<rparr>)"

inductive account_reachable :: "account \<Rightarrow> bool" where
  account_starts: "initial_account s \<Longrightarrow> account_reachable s"
| account_moves: "account_reachable s \<Longrightarrow> account_step s t \<Longrightarrow> account_reachable t"

section \<open>The poll neither stalls nor doubles\<close>

fun call_poll :: "account_call \<Rightarrow> nat option" where
  "call_poll (AuthFetch silent g) = g"
| "call_poll (StatusFetch auth silent g) = g"
| "call_poll _ = None"

abbreviation poll_calls :: "account \<Rightarrow> nat \<Rightarrow> nat" where
  "poll_calls s g \<equiv> length (filter (\<lambda>c. call_poll c = Some g) (ac_calls s))"

text \<open>What holds also while an answer of the poll is being handled.\<close>

definition poll_pre :: "account \<Rightarrow> bool" where
  "poll_pre s \<longleftrightarrow> (\<forall>g. ac_pollTimer s = Some g \<longrightarrow> g = ac_pollGeneration s \<and> \<not> ac_pollInFlight s)
     \<and> (\<forall>c\<in>set (ac_calls s). \<forall>g. call_poll c = Some g \<longrightarrow> g \<le> ac_pollGeneration s)"

definition poll_count :: "account \<Rightarrow> bool" where
  "poll_count s \<longleftrightarrow> poll_calls s (ac_pollGeneration s) = (if ac_pollInFlight s then 1 else 0)"

definition poll_full :: "account \<Rightarrow> bool" where
  "poll_full s \<longleftrightarrow> poll_pre s \<and> poll_count s \<and> (polling_wanted s \<longrightarrow> ac_pollTimer s \<noteq> None \<or> ac_pollInFlight s)
     \<and> (\<not> ac_hass s \<longrightarrow> ac_status s = JNull)"

definition poll_mid :: "account \<Rightarrow> bool" where
  "poll_mid s \<longleftrightarrow> poll_pre s \<and> ac_pollInFlight s \<and> poll_calls s (ac_pollGeneration s) = 0 \<and> (\<not> ac_hass s \<longrightarrow> ac_status s = JNull)"

lemma none_newer: "\<forall>c\<in>set cs. \<forall>g. call_poll c = Some g \<longrightarrow> g \<le> n \<Longrightarrow> length (filter (\<lambda>c. call_poll c = Some (Suc n)) cs) = 0"
  by (auto simp: filter_empty_conv)

lemma stop_full: "poll_pre s \<Longrightarrow> (\<not> ac_hass s \<longrightarrow> ac_status s = JNull) \<Longrightarrow> \<not> polling_wanted s \<Longrightarrow> poll_full (stopAuthPolling s)"
  using none_newer [of "ac_calls s" "ac_pollGeneration s"]
  by (auto simp: poll_full_def poll_pre_def poll_count_def stopAuthPolling_def polling_wanted_def isLegacyConnection_def
      isSupervisorConnection_def authLoginIsPending_def auth_of_def le_SucI)

lemma wanted_fields [simp]:
  "polling_wanted (s\<lparr>ac_pollTimer := t\<rparr>) = polling_wanted s" "polling_wanted (s\<lparr>ac_pollInFlight := b\<rparr>) = polling_wanted s"
  "polling_wanted (s\<lparr>ac_calls := cs\<rparr>) = polling_wanted s" "polling_wanted (s\<lparr>ac_error := e\<rparr>) = polling_wanted s"
  "polling_wanted (s\<lparr>ac_bannerKey := k\<rparr>) = polling_wanted s" "polling_wanted (s\<lparr>ac_confirmSignOut := b\<rparr>) = polling_wanted s"
  "polling_wanted (s\<lparr>ac_actionPending := b\<rparr>) = polling_wanted s" "polling_wanted (s\<lparr>ac_loading := b\<rparr>) = polling_wanted s"
  "polling_wanted (s\<lparr>sy_refreshTimer := b\<rparr>) = polling_wanted s" "polling_wanted (s\<lparr>sy_cursor := n\<rparr>) = polling_wanted s"
  by (simp_all add: polling_wanted_def isLegacyConnection_def isSupervisorConnection_def authLoginIsPending_def auth_of_def)

lemma sync_full:
  assumes "poll_pre s" "poll_count s" "\<not> ac_hass s \<longrightarrow> ac_status s = JNull"
  shows "poll_full (syncAuthPolling s)"
  using stop_full [OF assms(1,3)] assms by (auto simp: syncAuthPolling_def poll_full_def poll_pre_def poll_count_def)

lemma sync_mid:
  assumes "poll_mid s"
  shows "poll_mid (syncAuthPolling s) \<and> ac_pollGeneration (syncAuthPolling s) = ac_pollGeneration s
    \<or> poll_full (syncAuthPolling s) \<and> ac_pollGeneration (syncAuthPolling s) \<noteq> ac_pollGeneration s"
  using stop_full [of s] assms
  by (cases "polling_wanted s") (auto simp: syncAuthPolling_def poll_mid_def, auto simp: stopAuthPolling_def)

lemma ended_mid:
  assumes "poll_mid s"
  shows "poll_full (refresh_ended (Some (ac_pollGeneration s)) s)"
  unfolding refresh_ended_def
  using sync_full [of "s\<lparr>ac_pollInFlight := False\<rparr>"] assms by (simp add: poll_mid_def poll_pre_def poll_count_def)

text \<open>The groups of fields the poll does not read.\<close>

definition auth_poll_view :: "account \<Rightarrow> jsval \<times> bool option \<times> bool \<times> bool \<times> nat option \<times> bool \<times> nat \<times> account_call list" where
  "auth_poll_view s = (ac_status s, ac_config s, ac_hass s, ac_connected s, ac_pollTimer s, ac_pollInFlight s, ac_pollGeneration s, ac_calls s)"

lemma poll_full_view: "auth_poll_view s = auth_poll_view t \<Longrightarrow> poll_full s = poll_full t"
  by (simp add: auth_poll_view_def poll_full_def poll_pre_def poll_count_def polling_wanted_def isLegacyConnection_def isSupervisorConnection_def
      authLoginIsPending_def auth_of_def)

lemma auth_poll_view_fields [simp]:
  "auth_poll_view (s\<lparr>ac_error := e\<rparr>) = auth_poll_view s" "auth_poll_view (s\<lparr>ac_bannerKey := k\<rparr>) = auth_poll_view s"
  "auth_poll_view (s\<lparr>ac_confirmSignOut := b\<rparr>) = auth_poll_view s" "auth_poll_view (s\<lparr>ac_actionPending := b\<rparr>) = auth_poll_view s"
  "auth_poll_view (s\<lparr>ac_loading := b\<rparr>) = auth_poll_view s" "auth_poll_view (s\<lparr>sy_generation := n\<rparr>) = auth_poll_view s"
  "auth_poll_view (s\<lparr>sy_active := b\<rparr>) = auth_poll_view s" "auth_poll_view (s\<lparr>sy_pending := b\<rparr>) = auth_poll_view s"
  "auth_poll_view (s\<lparr>sy_requests := rs\<rparr>) = auth_poll_view s" "auth_poll_view (s\<lparr>sy_refreshTimer := b\<rparr>) = auth_poll_view s"
  "auth_poll_view (s\<lparr>sy_cursor := i\<rparr>) = auth_poll_view s" "auth_poll_view (s\<lparr>sy_reconnectTimer := rt\<rparr>) = auth_poll_view s"
  "auth_poll_view (account_error fmt err s) = auth_poll_view s" "auth_poll_view (clear_account_error s) = auth_poll_view s"
  "auth_poll_view (close_system s) = auth_poll_view s" "auth_poll_view (startSystemEventSubscription s) = auth_poll_view s"
  "auth_poll_view (stopSystemEventSubscription s) = auth_poll_view s" "auth_poll_view (scheduleSystemReconnect s) = auth_poll_view s"
  "auth_poll_view (retireSystemEventSubscription s) = auth_poll_view s" "auth_poll_view (system_settled x ok s) = auth_poll_view s"
  "auth_poll_view (system_reconnect_fires s) = auth_poll_view s" "auth_poll_view (scheduleSystemRefresh s) = auth_poll_view s"
  "auth_poll_view (handleSystemEvent v s) = auth_poll_view s" "auth_poll_view (system_delivered x v s) = auth_poll_view s"
  by (simp_all add: auth_poll_view_def account_error_def clear_account_error_def close_system_def startSystemEventSubscription_def
      stopSystemEventSubscription_def scheduleSystemReconnect_def retireSystemEventSubscription_def system_settled_def
      system_reconnect_fires_def scheduleSystemRefresh_def handleSystemEvent_def system_delivered_def Let_def split: option.split)

lemma poll_full_fields [simp]:
  "poll_full (s\<lparr>ac_error := e\<rparr>) = poll_full s" "poll_full (s\<lparr>ac_bannerKey := k\<rparr>) = poll_full s"
  "poll_full (s\<lparr>ac_confirmSignOut := b\<rparr>) = poll_full s" "poll_full (s\<lparr>ac_actionPending := b\<rparr>) = poll_full s"
  "poll_full (s\<lparr>ac_loading := b\<rparr>) = poll_full s" "poll_full (s\<lparr>sy_refreshTimer := b\<rparr>) = poll_full s"
  "poll_full (account_error fmt err s) = poll_full s" "poll_full (clear_account_error s) = poll_full s"
  "poll_full (startSystemEventSubscription s) = poll_full s" "poll_full (stopSystemEventSubscription s) = poll_full s"
  "poll_full (system_settled x ok s) = poll_full s" "poll_full (system_reconnect_fires s) = poll_full s"
  "poll_full (system_delivered x v s) = poll_full s"
  by (rule poll_full_view, simp)+

lemma poll_mid_fields [simp]:
  "poll_mid (s\<lparr>ac_confirmSignOut := b\<rparr>) = poll_mid s" "poll_mid (s\<lparr>ac_bannerKey := k\<rparr>) = poll_mid s"
  "poll_mid (account_error fmt err s) = poll_mid s" "poll_mid (clear_account_error s) = poll_mid s"
  by (simp_all add: poll_mid_def poll_pre_def account_error_def clear_account_error_def)

lemma length_filter_remove1:
  "c \<in> set cs \<Longrightarrow> length (filter P (remove1 c cs)) = length (filter P cs) - (if P c then 1 else 0)"
  by (auto simp: filter_remove1 length_remove1)

lemma close_poll:
  assumes "poll_full s" "c \<in> set (ac_calls s)" "call_poll c = Some (ac_pollGeneration s)"
  shows "poll_mid (account_call_close c s)"
proof -
  have "poll_calls s (ac_pollGeneration s) > 0" using assms(2,3) by (auto simp: filter_empty_conv)
  then have "ac_pollInFlight s" "poll_calls s (ac_pollGeneration s) = 1" using assms(1) by (auto simp: poll_full_def poll_count_def split: if_splits)
  moreover have "set (remove1 c (ac_calls s)) \<subseteq> set (ac_calls s)" by (rule set_remove1_subset)
  ultimately show ?thesis
    using assms length_filter_remove1 [OF assms(2), of "\<lambda>c. call_poll c = Some (ac_pollGeneration s)"]
    by (auto simp: poll_mid_def poll_full_def poll_pre_def account_call_close_def)
qed

lemma close_other:
  assumes "poll_full s" "call_poll c \<noteq> Some (ac_pollGeneration s)"
  shows "poll_full (account_call_close c s)"
proof -
  have "poll_calls (account_call_close c s) g = poll_calls s g" if "call_poll c \<noteq> Some g" for g
    using length_filter_remove1 [of c "ac_calls s" "\<lambda>c. call_poll c = Some g"] that
    by (cases "c \<in> set (ac_calls s)") (simp_all add: account_call_close_def remove1_idem)
  moreover have "set (remove1 c (ac_calls s)) \<subseteq> set (ac_calls s)" by (rule set_remove1_subset)
  ultimately show ?thesis
    using assms by (auto simp: poll_full_def poll_pre_def poll_count_def account_call_close_def)
qed

lemma open_other: "poll_full s \<Longrightarrow> call_poll c = None \<Longrightarrow> poll_full (account_call_open c s)"
  by (auto simp: poll_full_def poll_pre_def poll_count_def account_call_open_def)

lemma open_stale: "poll_full s \<Longrightarrow> call_poll c = Some g \<Longrightarrow> g < ac_pollGeneration s \<Longrightarrow> poll_full (account_call_open c s)"
  by (auto simp: poll_full_def poll_pre_def poll_count_def account_call_open_def)

lemma open_mid: "poll_mid s \<Longrightarrow> call_poll c = Some (ac_pollGeneration s) \<Longrightarrow> poll_full (account_call_open c s)"
  by (auto simp: poll_mid_def poll_full_def poll_pre_def poll_count_def account_call_open_def)

lemma status_pre:
  "poll_full s \<Longrightarrow> ac_hass s \<Longrightarrow> poll_pre (s\<lparr>ac_status := st\<rparr>) \<and> poll_count (s\<lparr>ac_status := st\<rparr>)"
  "poll_mid s \<Longrightarrow> ac_hass s \<Longrightarrow> poll_mid (s\<lparr>ac_status := st\<rparr>)"
  by (auto simp: poll_full_def poll_mid_def poll_pre_def poll_count_def)

lemma merge_full: "poll_full s \<Longrightarrow> ac_hass s \<Longrightarrow> poll_full (mergeStatus v s)"
  using status_pre(1) [of s] by (auto simp: mergeStatus_def intro!: sync_full)

lemma apply_full: "poll_full s \<Longrightarrow> ac_hass s \<Longrightarrow> poll_full (applyAuthStatus v s)"
  using status_pre(1) [of s] by (auto simp: applyAuthStatus_def intro!: sync_full)

lemma merge_mid:
  assumes "poll_mid s" "ac_hass s"
  shows "poll_mid (mergeStatus v s) \<and> ac_pollGeneration (mergeStatus v s) = ac_pollGeneration s
    \<or> poll_full (mergeStatus v s) \<and> ac_pollGeneration (mergeStatus v s) \<noteq> ac_pollGeneration s"
proof (cases "is_record v")
  case True
  define t where "t = s\<lparr>ac_status := JObj (obj_set (spread_of v) (js ''auth'')
    (normalizedAuthStatus (selectNewestAuthStatus (dot v ''auth'') (auth_of s))))\<rparr>"
  have "poll_mid t" "ac_pollGeneration t = ac_pollGeneration s" using status_pre(2) [OF assms] by (simp_all add: t_def)
  then show ?thesis using sync_mid [of t] True by (simp add: mergeStatus_def t_def)
qed (use assms in \<open>simp add: mergeStatus_def\<close>)

lemma ended_full: "poll_full s \<Longrightarrow> g \<noteq> Some (ac_pollGeneration s) \<Longrightarrow> poll_full (refresh_ended g s)"
  by (simp add: refresh_ended_def)

lemma ended_any: "poll_mid s \<and> g = Some (ac_pollGeneration s) \<or> poll_full s \<and> g \<noteq> Some (ac_pollGeneration s) \<Longrightarrow> poll_full (refresh_ended g s)"
  using ended_mid ended_full by auto

lemma auth_fetched_full:
  assumes "poll_full s" "AuthFetch silent g \<in> set (ac_calls s)"
  shows "poll_full (auth_fetched fmt silent g reply s)"
proof -
  define s1 where "s1 = account_call_close (AuthFetch silent g) s"
  have gen: "ac_pollGeneration s1 = ac_pollGeneration s" by (simp add: s1_def account_call_close_def)
  have s1: "poll_mid s1 \<and> g = Some (ac_pollGeneration s1) \<or> poll_full s1 \<and> g \<noteq> Some (ac_pollGeneration s1)"
    unfolding gen using close_poll [OF assms] close_other [OF assms(1), of "AuthFetch silent g"] by (cases "g = Some (ac_pollGeneration s)") (simp_all add: s1_def)
  have e: "ac_pollGeneration (account_error fmt err s1) = ac_pollGeneration s1" for err by (simp add: account_error_def)
  show ?thesis
  proof (cases reply)
    case (Inl err)
    have "poll_full (refresh_ended g (if silent then s1 else account_error fmt err s1))"
      by (rule ended_any) (use s1 e in simp)
    then show ?thesis unfolding auth_fetched_def Let_def s1_def [symmetric] Inl by (simp only: sum.case)
  next
    case (Inr auth)
    have "poll_full (account_call_open (StatusFetch auth silent g) s1)" if "\<not> poll_superseded g s1"
      using s1 that open_mid [of s1 "StatusFetch auth silent g"] open_other [of s1 "StatusFetch auth silent g"]
      by (auto simp: poll_superseded_def)
    then show ?thesis using Inr ended_any [OF s1] by (simp add: auth_fetched_def Let_def s1_def)
  qed
qed

lemma status_fetched_full:
  assumes "poll_full s" "StatusFetch auth silent g \<in> set (ac_calls s)" "ac_hass s"
  shows "poll_full (status_fetched fmt auth silent g reply s)"
proof -
  define s1 where "s1 = account_call_close (StatusFetch auth silent g) s"
  have gen: "ac_pollGeneration s1 = ac_pollGeneration s" "ac_hass s1" using assms(3) by (simp_all add: s1_def account_call_close_def)
  have s1: "poll_mid s1 \<and> g = Some (ac_pollGeneration s1) \<or> poll_full s1 \<and> g \<noteq> Some (ac_pollGeneration s1)"
    unfolding gen(1) using close_poll [OF assms(1,2)] close_other [OF assms(1), of "StatusFetch auth silent g"]
    by (cases "g = Some (ac_pollGeneration s)") (simp_all add: s1_def)
  have e: "ac_pollGeneration (account_error fmt err s1) = ac_pollGeneration s1" for err by (simp add: account_error_def)
  show ?thesis
  proof (cases reply)
    case (Inl err)
    have "poll_full (refresh_ended g (if silent then s1 else account_error fmt err s1))"
      by (rule ended_any) (use s1 e in simp)
    then show ?thesis unfolding status_fetched_def Let_def s1_def [symmetric] Inl by (simp only: sum.case)
  next
    case (Inr st)
    define v where "v = JObj (obj_set (spread_of (js_or (js_or st (ac_status s1)) (JObj []))) (js ''auth'')
      (selectNewestAuthStatus auth (dot st ''auth'')))"
    define s2 where "s2 = mergeStatus v s1"
    define s3 where "s3 = (if am_signedIn (authViewModel s2) then s2 else s2\<lparr>ac_confirmSignOut := False\<rparr>)"
    define s4 where "s4 = (if silent then s3 else clear_account_error (s3\<lparr>ac_bannerKey := []\<rparr>))"
    have f: "ac_pollGeneration s4 = ac_pollGeneration s2" "poll_mid s4 = poll_mid s2" "poll_full s4 = poll_full s2"
      by (simp_all add: s4_def s3_def) (simp_all add: clear_account_error_def)
    have "poll_full (refresh_ended g s4)" if "\<not> poll_superseded g s1"
    proof (cases g)
      case None
      then show ?thesis using s1 merge_full [of s1] gen(2) f by (intro ended_full) (simp_all add: s2_def)
    next
      case (Some k)
      then have m: "poll_mid s1" "k = ac_pollGeneration s1" using s1 that by (auto simp: poll_superseded_def)
      show ?thesis by (rule ended_any) (use merge_mid [OF m(1) gen(2), of v] m(2) Some f in \<open>auto simp: s2_def\<close>)
    qed
    then show ?thesis
      using ended_any [OF s1] unfolding status_fetched_def Let_def s1_def [symmetric] Inr sum.case v_def [symmetric] s2_def [symmetric]
        s3_def [symmetric] s4_def [symmetric] by simp
  qed
qed

lemma poll_fires_full:
  assumes "poll_full s" "ac_pollTimer s = Some g"
  shows "poll_full (auth_poll_fires g s)"
proof (cases "\<not> ac_connected s \<or> \<not> authLoginIsPending s")
  case True
  have g: "g = ac_pollGeneration s" using assms by (simp add: poll_full_def poll_pre_def)
  have "poll_full (s\<lparr>ac_pollTimer := None\<rparr>)"
    using assms True by (auto simp: poll_full_def poll_pre_def poll_count_def polling_wanted_def authLoginIsPending_def auth_of_def)
  then show ?thesis using True by (simp add: auth_poll_fires_def authLoginIsPending_def auth_of_def Let_def)
next
  case False
  have g: "g = ac_pollGeneration s" "\<not> ac_pollInFlight s" using assms by (simp_all add: poll_full_def poll_pre_def)
  have "poll_mid (s\<lparr>ac_pollTimer := None, ac_pollInFlight := True\<rparr>)"
    using assms(1) g by (auto simp: poll_full_def poll_mid_def poll_pre_def poll_count_def)
  then have "poll_full (account_call_open (AuthFetch True (Some g)) (s\<lparr>ac_pollTimer := None, ac_pollInFlight := True\<rparr>))"
    by (rule open_mid) (simp add: g(1))
  then show ?thesis using False g by (simp add: auth_poll_fires_def refreshAuthStatus_def authLoginIsPending_def auth_of_def Let_def)
qed

lemma poll_full_status:
  assumes "poll_full s" "ac_hass s" "dot (dot st ''auth'') ''state'' = dot (auth_of s) ''state''"
  shows "poll_full (s\<lparr>ac_status := st\<rparr>)"
  using assms by (auto simp: poll_full_def poll_pre_def poll_count_def polling_wanted_def authLoginIsPending_def auth_of_def
      isLegacyConnection_def isSupervisorConnection_def)

section \<open>The other groups\<close>

definition sys_view :: "account \<Rightarrow> bool option \<times> bool \<times> (nat \<times> subscription option \<times> bool \<times> bool \<times> subscription list \<times> subscription list)
    \<times> (nat \<times> nat option) \<times> int" where
  "sys_view s = (ac_config s, ac_subscribable s, (sy_generation s, sy_unsubscribe s, sy_active s, sy_pending s, sy_requests s, sy_open s),
     (sy_attempt s, sy_reconnectTimer s), sy_cursor s)"

fun sys_ok :: "bool option \<times> bool \<times> (nat \<times> subscription option \<times> bool \<times> bool \<times> subscription list \<times> subscription list)
    \<times> (nat \<times> nat option) \<times> int \<Rightarrow> bool" where
  "sys_ok (config, subscribable, (g, u, act, pend, reqs, opened), (attempt, timer), c) \<longleftrightarrow>
     sub_ok (g, u, act, pend, reqs, opened) \<and> backoff_ok (attempt, map_option (Pair []) timer)
     \<and> (act \<or> pend \<longrightarrow> config = Some True \<and> subscribable) \<and> 0 \<le> c \<and> c \<le> MAX_SAFE"

definition boot_calls :: "account \<Rightarrow> nat" where
  "boot_calls s = length (filter (\<lambda>c. c = BootConfig \<or> c = BootRest) (ac_calls s))"

definition boot_ok :: "account \<Rightarrow> bool" where
  "boot_ok s \<longleftrightarrow> boot_calls s \<le> (if ac_loading s then 1 else 0) \<and> (BootConfig \<in> set (ac_calls s) \<longrightarrow> ac_config s = None)"

text \<open>Before the panel is given its connection nothing is under way.\<close>

definition quiet_start :: "account \<Rightarrow> bool" where
  "quiet_start s \<longleftrightarrow> ac_hass s \<or> ac_calls s = [] \<and> sy_requests s = [] \<and> sy_open s = [] \<and> \<not> sy_refreshTimer s \<and> ac_config s = None"

text \<open>The one-time code and the pages of the sign-in are kept only while it waits for the user.\<close>

definition code_ok :: "jsval \<Rightarrow> bool" where
  "code_ok auth \<longleftrightarrow> is_one_of CODE_STATES (dot auth ''state'')
     \<or> list_all (\<lambda>k. nullish (dot auth k)) [''user_code'', ''verification_uri'', ''login_url'']"

definition account_inv :: "account \<Rightarrow> bool" where
  "account_inv s \<longleftrightarrow> poll_full s \<and> boot_ok s \<and> quiet_start s \<and> sys_ok (sys_view s) \<and> code_ok (auth_of s)"

definition account_frame :: "account \<Rightarrow> account \<Rightarrow> bool" where
  "account_frame s t \<longleftrightarrow> sys_view t = sys_view s \<and> ac_calls t = ac_calls s \<and> ac_loading t = ac_loading s \<and> ac_hass t = ac_hass s"

lemma frame_trans: "account_frame s t \<Longrightarrow> account_frame t u \<Longrightarrow> account_frame s u"
  by (simp add: account_frame_def)

lemma account_frames:
  "account_frame s (syncAuthPolling s)" "account_frame s (mergeStatus v s)" "account_frame s (applyAuthStatus v s)"
  "account_frame s (refresh_ended g s)" "account_frame s (account_error fmt err s)" "account_frame s (clear_account_error s)"
  "account_frame s s"
  by (simp_all add: account_frame_def sys_view_def syncAuthPolling_def stopAuthPolling_def mergeStatus_def applyAuthStatus_def
      refresh_ended_def account_error_def clear_account_error_def)

lemma boot_ok_frame: "account_frame s t \<Longrightarrow> boot_ok s \<Longrightarrow> boot_ok t"
  by (simp add: account_frame_def boot_ok_def boot_calls_def sys_view_def)

lemma boot_calls_close: "boot_calls (account_call_close c s) \<le> boot_calls s"
  using length_filter_remove1 [of c "ac_calls s" "\<lambda>c. c = BootConfig \<or> c = BootRest"]
  by (cases "c \<in> set (ac_calls s)") (simp_all add: boot_calls_def account_call_close_def remove1_idem)

lemma boot_ok_close: "boot_ok s \<Longrightarrow> boot_ok (account_call_close c s)"
  using boot_calls_close [of c s] set_remove1_subset [of c "ac_calls s"]
  by (auto simp: boot_ok_def account_call_close_def split: if_splits)

lemma boot_ok_open: "boot_ok s \<Longrightarrow> c \<noteq> BootConfig \<Longrightarrow> c \<noteq> BootRest \<Longrightarrow> boot_ok (account_call_open c s)"
  by (simp add: boot_ok_def boot_calls_def account_call_open_def)

lemma sys_view_calls [simp]: "sys_view (account_call_open c s) = sys_view s" "sys_view (account_call_close c s) = sys_view s"
  by (simp_all add: sys_view_def account_call_open_def account_call_close_def)

lemma hass_calls [simp]: "ac_hass (account_call_open c s) = ac_hass s" "ac_hass (account_call_close c s) = ac_hass s"
  by (simp_all add: account_call_open_def account_call_close_def)

lemma account_frame_fields:
  "account_frame s (t\<lparr>ac_confirmSignOut := b\<rparr>) = account_frame s t" "account_frame s (t\<lparr>ac_bannerKey := k\<rparr>) = account_frame s t"
  "account_frame s (t\<lparr>ac_actionPending := b\<rparr>) = account_frame s t" "account_frame s (t\<lparr>ac_status := st\<rparr>) = account_frame s t"
  "account_frame s (t\<lparr>ac_error := e\<rparr>) = account_frame s t" "account_frame s (clear_account_error t) = account_frame s t"
  "account_frame s (account_error fmt err t) = account_frame s t" "account_frame s (syncAuthPolling t) = account_frame s t"
  "account_frame s (refresh_ended g t) = account_frame s t" "account_frame s (mergeStatus v t) = account_frame s t"
  "account_frame s (applyAuthStatus v t) = account_frame s t"
  by (simp_all add: account_frame_def sys_view_def clear_account_error_def account_error_def syncAuthPolling_def stopAuthPolling_def
      refresh_ended_def mergeStatus_def applyAuthStatus_def)

lemma frame_refl: "account_frame s s"
  by (simp add: account_frame_def)

text \<open>Every answer closes its call, may open one, and otherwise stays in the frame.\<close>

lemma auth_fetched_frame:
  "account_frame (account_call_close (AuthFetch silent g) s) (auth_fetched fmt silent g reply s)
   \<or> (\<exists>auth. auth_fetched fmt silent g reply s = account_call_open (StatusFetch auth silent g) (account_call_close (AuthFetch silent g) s))"
  by (cases reply) (auto simp: auth_fetched_def Let_def account_frame_fields frame_refl)

lemma status_fetched_frame: "account_frame (account_call_close (StatusFetch auth silent g) s) (status_fetched fmt auth silent g reply s)"
  unfolding status_fetched_def Let_def
  by (cases reply; simp only: sum.case) (simp_all add: account_frame_fields frame_refl)

lemma operation_frame: "account_frame (account_call_close (Operation c) s) (operation_answered fmt c reply s)"
  unfolding operation_answered_def Let_def
  by (cases reply; simp only: sum.case) (simp_all add: account_frame_fields frame_refl)

lemma frame_hass: "account_frame s t \<Longrightarrow> ac_hass t = ac_hass s"
  by (simp add: account_frame_def)

lemma frame_sys: "account_frame s t \<Longrightarrow> sys_view t = sys_view s"
  by (simp add: account_frame_def)

section \<open>System events keep one subscription\<close>

lemma sys_start: "sys_ok (sys_view s) \<Longrightarrow> sys_ok (sys_view (startSystemEventSubscription s))"
proof -
  assume ok: "sys_ok (sys_view s)"
  have "sub_ok (Suc (sy_generation s), None, False, True, sy_requests s @ [\<lparr>sb_generation = Suc (sy_generation s), sb_thread = []\<rparr>], sy_open s)"
    if "\<not> sy_active s" "\<not> sy_pending s"
  proof -
    have "sy_unsubscribe s = None" "sub_ok (sy_generation s, sy_unsubscribe s, False, False, sy_requests s, sy_open s)"
      using ok that by (auto simp: sys_view_def)
    then show ?thesis
      using sub_ok_request [of "Suc (sy_generation s)" "sy_requests s" "sy_open s" "[]"] sub_ok_closed [of "sy_generation s" "sy_unsubscribe s"]
      by (simp del: sub_ok.simps backoff_ok.simps)
  qed
  moreover have "sys_ok (sys_view (s\<lparr>sy_active := False\<rparr>))" if "\<not> isSupervisorConnection s \<or> \<not> ac_subscribable s"
    using ok that by (auto simp: sys_view_def isSupervisorConnection_def simp del: backoff_ok.simps)
  moreover have "sy_unsubscribe s = None" if "\<not> sy_active s" using ok that by (auto simp: sys_view_def)
  ultimately show ?thesis
    using ok by (auto simp: startSystemEventSubscription_def sys_view_def isSupervisorConnection_def simp del: sub_ok.simps backoff_ok.simps)
qed

lemma sys_close:
  assumes "sys_ok (sys_view s)"
  shows "sub_ok (Suc (sy_generation s), None, False, False, sy_requests s, sy_open (close_system (s\<lparr>sy_generation := Suc (sy_generation s)\<rparr>)))"
  using assms sub_ok_closed [of "sy_generation s" "sy_unsubscribe s" "sy_active s" "sy_pending s" "sy_requests s" "sy_open s"]
  by (simp add: close_system_def sys_view_def del: sub_ok.simps backoff_ok.simps split: option.split_asm option.split)

lemma close_system_rest:
  "sys_view (close_system s) = (ac_config s, ac_subscribable s, (sy_generation s, None, sy_active s, sy_pending s, sy_requests s,
     sy_open (close_system s)), (sy_attempt s, sy_reconnectTimer s), sy_cursor s)"
  by (simp add: close_system_def sys_view_def split: option.split)

lemma sys_stop: "sys_ok (sys_view s) \<Longrightarrow> sys_ok (sys_view (stopSystemEventSubscription s))"
  using sys_close [of s] close_system_rest [of "s\<lparr>sy_generation := Suc (sy_generation s)\<rparr>"]
  by (simp add: stopSystemEventSubscription_def sys_view_def del: sub_ok.simps)

lemma sys_reconnect: "sys_ok (sys_view s) \<Longrightarrow> sys_ok (sys_view (scheduleSystemReconnect s))"
  by (cases "sy_reconnectTimer s") (simp_all add: scheduleSystemReconnect_def sys_view_def Let_def del: sub_ok.simps)

lemma sys_retire: "sys_ok (sys_view s) \<Longrightarrow> sys_ok (sys_view (retireSystemEventSubscription s))"
  unfolding retireSystemEventSubscription_def
  using sys_close [of s] close_system_rest [of "s\<lparr>sy_generation := Suc (sy_generation s)\<rparr>"]
  by (intro sys_reconnect) (simp add: sys_view_def del: sub_ok.simps backoff_ok.simps)

lemma reconnect_sys_rest:
  "sy_pending (scheduleSystemReconnect s) = sy_pending s" "sy_active (scheduleSystemReconnect s) = sy_active s"
  "sy_generation (scheduleSystemReconnect s) = sy_generation s"
  by (simp_all add: scheduleSystemReconnect_def Let_def)

lemma sys_settled:
  assumes "sys_ok (sys_view s)" "x \<in> set (sy_requests s)"
  shows "sys_ok (sys_view (system_settled x ok s))"
proof -
  have sub: "sub_ok (sy_generation s, sy_unsubscribe s, sy_active s, sy_pending s, sy_requests s, sy_open s)"
    using assms(1) by (simp add: sys_view_def del: sub_ok.simps backoff_ok.simps)
  note c = sub_ok_settled [OF sub assms(2)]
  have pend: "sy_pending s" if "sb_generation x = sy_generation s" using sub assms(2) that by auto
  define f where "f = s\<lparr>sy_requests := remove1 x (sy_requests s), sy_active := False, sy_pending := False\<rparr>"
  have rec: "(scheduleSystemReconnect (s\<lparr>sy_requests := remove1 x (sy_requests s), sy_active := False\<rparr>))\<lparr>sy_pending := False\<rparr> = scheduleSystemReconnect f"
    by (simp add: scheduleSystemReconnect_def f_def Let_def isSupervisorConnection_def)
  consider (stale) "sb_generation x \<noteq> sy_generation s" | (failed) "sb_generation x = sy_generation s" "\<not> ok"
    | (opened) "sb_generation x = sy_generation s" ok by blast
  then show ?thesis
  proof cases
    case stale
    then show ?thesis
      using assms(1) c(3) by (simp add: system_settled_def sys_view_def del: sub_ok.simps backoff_ok.simps)
  next
    case failed
    have act: "sy_active s = False" using c(2) [OF failed(1)] by blast
    have "sys_ok (sys_view f)" using assms(1) c(2) [OF failed(1)] unfolding act by (simp add: f_def sys_view_def del: sub_ok.simps backoff_ok.simps)
    then show ?thesis using failed sys_reconnect [of f] rec by (simp add: system_settled_def)
  next
    case opened
    then show ?thesis
      using assms(1) c(1) pend by (simp add: system_settled_def sys_view_def del: sub_ok.simps)
  qed
qed

lemma sys_cursor: "sys_ok (sys_view s) \<Longrightarrow> 0 \<le> c \<Longrightarrow> c \<le> MAX_SAFE \<Longrightarrow> sys_ok (sys_view (s\<lparr>sy_cursor := c\<rparr>))"
  by (simp add: sys_view_def)

lemma sys_scheduled [simp]: "sys_view (scheduleSystemRefresh s) = sys_view s"
  by (simp add: scheduleSystemRefresh_def sys_view_def)

lemma safe_integer_bound: "is_safe_integer v \<Longrightarrow> to_int v \<le> MAX_SAFE"
  by (auto simp: is_safe_integer_iff)

lemma sys_handled: "sys_ok (sys_view s) \<Longrightarrow> sys_ok (sys_view (handleSystemEvent v s))"
proof -
  assume ok: "sys_ok (sys_view s)"
  have seen: "0 \<le> sy_cursor s" "sy_cursor s \<le> MAX_SAFE" using ok by (simp_all add: sys_view_def del: sub_ok.simps backoff_ok.simps)
  have "sys_ok (sys_view (s\<lparr>sy_cursor := to_int c\<rparr>))" if "is_safe_integer c" "sy_cursor s < to_int c" for c
    using sys_cursor [OF ok] safe_integer_bound [OF that(1)] seen that by simp
  moreover have "sys_ok (sys_view (s\<lparr>sy_cursor := max (sy_cursor s) (to_int c)\<rparr>))" if "is_safe_integer c" "0 \<le> to_int c" for c
    using sys_cursor [OF ok] safe_integer_bound [OF that(1)] seen that by simp
  moreover have "sys_ok (sys_view (retireSystemEventSubscription (scheduleSystemRefresh s)))" using ok by (intro sys_retire) simp
  ultimately show ?thesis using ok by (simp add: handleSystemEvent_def Let_def system_event_ok_def)
qed

lemma sys_delivered: "sys_ok (sys_view s) \<Longrightarrow> sys_ok (sys_view (system_delivered x v s))"
  by (simp add: system_delivered_def sys_handled)

lemma sys_fires: "sys_ok (sys_view s) \<Longrightarrow> sys_ok (sys_view (system_reconnect_fires s))"
  unfolding system_reconnect_fires_def by (intro sys_start) (simp add: sys_view_def del: sub_ok.simps)

text \<open>What the operations of the system events leave alone.\<close>

definition rest_view :: "account \<Rightarrow> account_call list \<times> bool \<times> bool \<times> bool option" where
  "rest_view s = (ac_calls s, ac_loading s, ac_hass s, ac_config s)"

lemma rest_views [simp]:
  "rest_view (startSystemEventSubscription s) = rest_view s" "rest_view (stopSystemEventSubscription s) = rest_view s"
  "rest_view (scheduleSystemReconnect s) = rest_view s" "rest_view (retireSystemEventSubscription s) = rest_view s"
  "rest_view (system_settled x ok s) = rest_view s" "rest_view (system_reconnect_fires s) = rest_view s"
  "rest_view (handleSystemEvent v s) = rest_view s" "rest_view (system_delivered x v s) = rest_view s"
  by (simp_all add: rest_view_def close_system_def startSystemEventSubscription_def stopSystemEventSubscription_def
      scheduleSystemReconnect_def retireSystemEventSubscription_def system_settled_def system_reconnect_fires_def
      scheduleSystemRefresh_def handleSystemEvent_def system_delivered_def Let_def split: option.split)

lemma boot_ok_rest: "rest_view t = rest_view s \<Longrightarrow> boot_ok s \<Longrightarrow> boot_ok t"
  by (simp add: rest_view_def boot_ok_def boot_calls_def)

lemma hass_rest: "rest_view t = rest_view s \<Longrightarrow> ac_hass t = ac_hass s"
  by (simp add: rest_view_def)

section \<open>Every step keeps the invariant\<close>

lemma bootstrap_boot: "boot_ok s \<Longrightarrow> ac_config s = None \<Longrightarrow> boot_ok (bootstrap s)"
  by (cases "ac_loading s") (simp_all add: boot_ok_def boot_calls_def bootstrap_def account_call_open_def)

lemma boot_config_boot:
  assumes "boot_ok s" "BootConfig \<in> set (ac_calls s)"
  shows "boot_ok (boot_config strNum fmt reply s)"
proof -
  define s1 where "s1 = account_call_close BootConfig s"
  have one: "boot_calls s = 1" "ac_loading s"
  proof -
    have "boot_calls s > 0" using assms(2) by (auto simp: boot_calls_def filter_empty_conv)
    then show "boot_calls s = 1" "ac_loading s" using assms(1) by (auto simp: boot_ok_def split: if_splits)
  qed
  then have "boot_calls s1 = 0"
    using length_filter_remove1 [OF assms(2), of "\<lambda>c. c = BootConfig \<or> c = BootRest"] by (simp add: s1_def boot_calls_def account_call_close_def)
  moreover have "ac_loading s1" using one by (simp add: s1_def account_call_close_def)
  moreover have "rest_view (startSystemEventSubscription (s1\<lparr>ac_config := c\<rparr>)) = (ac_calls s1, ac_loading s1, ac_hass s1, c)" for c
    by (simp add: rest_view_def [of "s1\<lparr>ac_config := c\<rparr>"])
  ultimately show ?thesis
    unfolding boot_config_def Let_def s1_def [symmetric]
    by (cases reply) (auto simp: boot_ok_def boot_calls_def account_error_def account_call_open_def rest_view_def filter_empty_conv)
qed

lemma boot_rest_boot:
  assumes "boot_ok s" "BootRest \<in> set (ac_calls s)"
  shows "boot_ok (boot_rest fmt failure s)"
proof -
  define s1 where "s1 = account_call_close BootRest s"
  have "boot_calls s > 0" using assms(2) by (auto simp: boot_calls_def filter_empty_conv)
  then have "boot_calls s = 1" using assms(1) by (auto simp: boot_ok_def split: if_splits)
  then have "boot_calls s1 = 0"
    using length_filter_remove1 [OF assms(2), of "\<lambda>c. c = BootConfig \<or> c = BootRest"] by (simp add: s1_def boot_calls_def account_call_close_def)
  then show ?thesis
    unfolding boot_rest_def Let_def s1_def [symmetric]
    by (cases failure) (auto simp: boot_ok_def boot_calls_def account_error_def clear_account_error_def filter_empty_conv)
qed

lemma poll_full_hass: "poll_full s \<Longrightarrow> poll_full (s\<lparr>ac_hass := True\<rparr>)"
  by (auto simp: poll_full_def poll_pre_def poll_count_def polling_wanted_def authLoginIsPending_def auth_of_def
      isLegacyConnection_def isSupervisorConnection_def is_one_of_def PENDING_STATES_def)

lemma poll_full_config: "poll_full s \<Longrightarrow> ac_config s = None \<Longrightarrow> poll_full (s\<lparr>ac_config := c\<rparr>)"
  by (auto simp: poll_full_def poll_pre_def poll_count_def polling_wanted_def authLoginIsPending_def auth_of_def
      isLegacyConnection_def isSupervisorConnection_def)

lemma null_not_pending: "ac_status s = JNull \<Longrightarrow> \<not> authLoginIsPending s"
  by (simp add: authLoginIsPending_def auth_of_def is_one_of_def PENDING_STATES_def)

lemma poll_full_reset: "poll_full s \<Longrightarrow> poll_full (s\<lparr>ac_config := c, ac_status := JNull\<rparr>)"
  using null_not_pending [of "s\<lparr>ac_config := c, ac_status := JNull\<rparr>"]
  by (auto simp: poll_full_def poll_pre_def poll_count_def polling_wanted_def)

lemma bootstrap_full: "poll_full s \<Longrightarrow> poll_full (bootstrap s)"
  by (simp add: bootstrap_def open_other)

lemma begin_full: "poll_full s \<Longrightarrow> poll_full (begin_operation c s)"
  by (simp add: begin_operation_def open_other)

lemma attach_full: "poll_full s \<Longrightarrow> poll_full (attach_account s)"
proof -
  assume full: "poll_full s"
  define t where "t = (if ac_config (s\<lparr>ac_connected := True\<rparr>) \<noteq> None \<and> ac_hass (s\<lparr>ac_connected := True\<rparr>)
    then startSystemEventSubscription (s\<lparr>ac_connected := True\<rparr>) else s\<lparr>ac_connected := True\<rparr>)"
  have "auth_poll_view t = auth_poll_view (s\<lparr>ac_connected := True\<rparr>)" by (simp add: t_def)
  then have "poll_full (syncAuthPolling t)"
    using full by (intro sync_full) (auto simp: auth_poll_view_def poll_full_def poll_pre_def poll_count_def)
  then show ?thesis by (simp add: attach_account_def t_def Let_def)
qed

lemma detach_full: "poll_full s \<Longrightarrow> poll_full (detach_account s)"
proof -
  assume full: "poll_full s"
  define t where "t = stopSystemEventSubscription (s\<lparr>ac_connected := False\<rparr>)"
  have "auth_poll_view t = auth_poll_view (s\<lparr>ac_connected := False\<rparr>)" by (simp add: t_def)
  then have "poll_pre t" "\<not> ac_hass t \<longrightarrow> ac_status t = JNull" "\<not> polling_wanted t"
    using full by (auto simp: auth_poll_view_def poll_full_def poll_pre_def polling_wanted_def)
  then show ?thesis by (simp add: detach_account_def t_def [symmetric] stop_full)
qed

lemma dot_account_auth: "dot (JObj (obj_set (spread_of v) (js ''account'') a)) ''auth'' = dot (JObj (spread_of v)) ''auth''"
  by (simp add: dot_def)

lemma operation_full:
  assumes "poll_full s" "Operation c \<in> set (ac_calls s)" "ac_hass s"
  shows "poll_full (operation_answered fmt c reply s)"
proof -
  define s1 where "s1 = account_call_close (Operation c) s"
  have s1: "poll_full s1" "ac_hass s1" using close_other [OF assms(1), of "Operation c"] assms(3) by (simp_all add: s1_def)
  show ?thesis
  proof (cases reply)
    case (Inl err)
    then show ?thesis using s1(1) by (simp add: operation_answered_def Let_def s1_def)
  next
    case (Inr auth)
    define a where "a = applyAuthStatus auth s1"
    have a: "poll_full a" "ac_hass a" using apply_full [OF s1] frame_hass [OF account_frames(3), of auth s1] s1(2) by (simp_all add: a_def)
    have "spread_of (ac_status a) = obj_set (spread_of (ac_status s1)) (js ''auth'') (normalizedAuthStatus (selectNewestAuthStatus auth (auth_of s1)))"
      "ac_status a = JObj (spread_of (ac_status a))"
      by (simp_all add: a_def applyAuthStatus_def syncAuthPolling_def stopAuthPolling_def spread_of_def)
    then have "poll_full (a\<lparr>ac_status := JObj (obj_set (spread_of (ac_status a)) (js ''account'') signed_out_account)\<rparr>)"
      by (intro poll_full_status a) (metis auth_of_def dot_account_auth)
    then show ?thesis using Inr a(1) by (simp add: operation_answered_def Let_def s1_def [symmetric] a_def [symmetric])
  qed
qed

section \<open>The sign-in in the status\<close>

lemma normalized_code: "code_ok (normalizedAuthStatus v)"
  by (auto simp: code_ok_def normalizedAuthStatus_def Let_def nullish_def)

lemma unknown_revision: "dot (JObj [(js ''state'', v)]) ''revision'' = JUndefined"
  by (simp add: dot_def obj_get_def)

lemma normalized_revision:
  assumes "is_record v \<or> v = JNull"
  shows "auth_revision (normalizedAuthStatus v) = auth_revision v"
proof -
  have "dot (normalizedAuthStatus v) ''revision'' = dot v ''revision''"
  proof (cases "is_record v")
    case True
    then obtain kvs where "v = JObj kvs" by (cases v) (auto simp: is_record_def)
    then show ?thesis using True by (simp add: normalizedAuthStatus_def Let_def spread_of_def)
  next
    case False
    then show ?thesis using assms unknown_revision by (simp add: normalizedAuthStatus_def Let_def del: obj_set.simps)
  qed
  then show ?thesis by (simp add: auth_revision_def)
qed

lemma newest_record: "is_record (selectNewestAuthStatus p q) \<or> selectNewestAuthStatus p q = JNull"
  by (simp add: selectNewestAuthStatus_def Let_def)

lemma newest_revision: "auth_revision q \<le> auth_revision (selectNewestAuthStatus p q)"
proof (cases "is_record q")
  case True
  then show ?thesis by (auto simp: selectNewestAuthStatus_def Let_def)
next
  case False
  then have "auth_revision q = - 1" by (cases q) (auto simp: auth_revision_def dot_def)
  then show ?thesis by (simp add: auth_revision_def Let_def)
qed

definition auth_moved :: "account \<Rightarrow> account \<Rightarrow> bool" where
  "auth_moved s t \<longleftrightarrow> auth_of t = auth_of s \<or> ac_status t = JNull
     \<or> (\<exists>p. auth_of t = normalizedAuthStatus (selectNewestAuthStatus p (auth_of s)))"

lemma auth_of_status: "ac_status t = ac_status s \<Longrightarrow> auth_of t = auth_of s"
  by (simp add: auth_of_def)

lemma status_kept [simp]:
  "ac_status (syncAuthPolling s) = ac_status s" "ac_status (stopAuthPolling s) = ac_status s"
  "ac_status (refresh_ended g s) = ac_status s" "ac_status (account_error fmt err s) = ac_status s"
  "ac_status (clear_account_error s) = ac_status s" "ac_status (account_call_open c s) = ac_status s"
  "ac_status (account_call_close c s) = ac_status s" "ac_status (auth_poll_fires n s) = ac_status s"
  "ac_status (auth_fetched fmt silent g reply s) = ac_status s" "ac_status (refreshAuthStatus silent g s) = ac_status s"
  "ac_status (begin_operation op s) = ac_status s" "ac_status (bootstrap s) = ac_status s" "ac_status (set_hass s) = ac_status s"
  "ac_status (boot_rest fmt failure s) = ac_status s"
  by (simp_all add: syncAuthPolling_def stopAuthPolling_def refresh_ended_def account_error_def clear_account_error_def
      account_call_open_def account_call_close_def auth_poll_fires_def auth_fetched_def refreshAuthStatus_def begin_operation_def
      bootstrap_def set_hass_def boot_rest_def Let_def split: sum.split option.split)

lemma status_view: "auth_poll_view t = auth_poll_view s \<Longrightarrow> ac_status t = ac_status s"
  by (simp add: auth_poll_view_def)

lemma system_status_kept [simp]:
  "ac_status (startSystemEventSubscription s) = ac_status s" "ac_status (stopSystemEventSubscription s) = ac_status s"
  "ac_status (system_settled x ok s) = ac_status s" "ac_status (system_reconnect_fires s) = ac_status s"
  "ac_status (system_delivered x v s) = ac_status s"
  by (rule status_view, simp)+

lemma dot_set_auth [simp]: "dot (JObj (obj_set kvs (js ''auth'') x)) ''auth'' = x"
  by (simp add: dot_def)

lemma auth_of_merged: "auth_of (mergeStatus v s) = auth_of s \<or> (\<exists>p. auth_of (mergeStatus v s) = normalizedAuthStatus (selectNewestAuthStatus p (auth_of s)))"
  by (auto simp: mergeStatus_def auth_of_def dot_set_auth)

lemma auth_of_applied: "auth_of (applyAuthStatus v s) = normalizedAuthStatus (selectNewestAuthStatus v (auth_of s))"
  by (simp add: applyAuthStatus_def auth_of_def dot_set_auth)

lemma auth_moved_kept: "ac_status t = ac_status s \<Longrightarrow> auth_moved s t"
  by (simp add: auth_moved_def auth_of_def)

lemma auth_moved_merged: "ac_status u = ac_status s \<Longrightarrow> ac_status t = ac_status (mergeStatus v u) \<Longrightarrow> auth_moved s t"
  using auth_of_merged [of v u] by (auto simp: auth_moved_def auth_of_def)

lemma status_fetched_moved: "auth_moved s (status_fetched fmt auth silent g reply s)"
proof (cases reply)
  case (Inl err)
  then show ?thesis by (intro auth_moved_kept) (simp add: status_fetched_def Let_def)
next
  case (Inr st)
  show ?thesis
  proof (cases "poll_superseded g (account_call_close (StatusFetch auth silent g) s)")
    case True
    then show ?thesis using Inr by (intro auth_moved_kept) (simp add: status_fetched_def Let_def)
  next
    case False
    then show ?thesis
      unfolding status_fetched_def Let_def Inr sum.case
      by (intro auth_moved_merged [where u = "account_call_close (StatusFetch auth silent g) s"
            and v = "JObj (obj_set (spread_of (js_or (js_or st (ac_status s)) (JObj []))) (js ''auth'') (selectNewestAuthStatus auth (dot st ''auth'')))"]) simp_all
  qed
qed

lemma operation_moved: "auth_moved s (operation_answered fmt c reply s)"
proof (cases reply)
  case (Inl err)
  then show ?thesis by (intro auth_moved_kept) (simp add: operation_answered_def Let_def)
next
  case (Inr auth)
  define s1 where "s1 = account_call_close (Operation c) s"
  define a where "a = applyAuthStatus auth s1"
  have a: "auth_of a = normalizedAuthStatus (selectNewestAuthStatus auth (auth_of s))" "ac_status a = JObj (spread_of (ac_status a))"
    using auth_of_status [of s1 s] by (simp_all add: a_def auth_of_applied s1_def) (simp add: applyAuthStatus_def spread_of_def)
  have "auth_of (operation_answered fmt c (Inr auth) s) = auth_of a"
    using a(2) dot_account_auth [of "ac_status a" signed_out_account]
    by (simp add: operation_answered_def Let_def s1_def [symmetric] a_def [symmetric] auth_of_def)
  then show ?thesis using a(1) Inr by (auto simp: auth_moved_def)
qed

lemma boot_moved: "auth_moved s (boot_config strNum fmt config s)" "auth_moved s (boot_status reply s)"
proof -
  have "ac_status (boot_config strNum fmt config s) = ac_status s"
    by (simp add: boot_config_def Let_def split: sum.split)
  then show "auth_moved s (boot_config strNum fmt config s)" by (rule auth_moved_kept)
  show "auth_moved s (boot_status reply s)"
    by (cases reply) (auto simp: boot_status_def Let_def intro: auth_moved_kept auth_moved_merged [where u = "account_call_close BootStatus s"])
qed

lemma step_moved: "account_step s t \<Longrightarrow> auth_moved s t"
proof (induction rule: account_step.induct)
  case (status_merged s v)
  show ?case by (rule auth_moved_merged [of s]) simp_all
next
  case (retried s)
  show ?case by (simp add: auth_moved_def retryAppConnection_def)
next
  case (attached s)
  show ?case by (intro auth_moved_kept) (simp add: attach_account_def Let_def)
next
  case (detached_account s)
  show ?case by (intro auth_moved_kept) (simp add: detach_account_def)
qed (rule status_fetched_moved operation_moved boot_moved | rule auth_moved_kept, simp add: system_refresh_fires_def)+

lemma moved_code: "auth_moved s t \<Longrightarrow> code_ok (auth_of s) \<Longrightarrow> code_ok (auth_of t)"
  using normalized_code by (auto simp: auth_moved_def) (simp add: code_ok_def auth_of_def nullish_def)

lemma moved_revision: "auth_moved s t \<Longrightarrow> ac_status t \<noteq> JNull \<Longrightarrow> auth_revision (auth_of s) \<le> auth_revision (auth_of t)"
  using newest_revision normalized_revision [OF newest_record] by (auto simp: auth_moved_def)

section \<open>The invariant\<close>

lemma inv_hass:
  assumes "account_inv s"
  shows "c \<in> set (ac_calls s) \<Longrightarrow> ac_hass s" "sy_refreshTimer s \<Longrightarrow> ac_hass s"
    "x \<in> set (sy_requests s) \<Longrightarrow> ac_hass s" "x \<in> set (sy_open s) \<Longrightarrow> ac_hass s"
  using assms by (auto simp: account_inv_def quiet_start_def)

lemma config_full:
  assumes "poll_full s" "ac_config s = None"
  shows "poll_full (boot_config strNum fmt reply s)"
proof -
  define s1 where "s1 = account_call_close BootConfig s"
  have s1: "poll_full s1" "ac_config s1 = None"
    using close_other [OF assms(1), of BootConfig] assms(2) by (simp_all add: s1_def) (simp add: account_call_close_def)
  have "poll_full (account_call_open BootRest (account_call_open BootStatus (startSystemEventSubscription (s1\<lparr>ac_config := b\<rparr>))))" for b
    using poll_full_config [OF s1] by (intro open_other) simp_all
  then show ?thesis using s1(1) by (simp add: boot_config_def Let_def s1_def [symmetric] split: sum.split)
qed

lemma step_full: "account_inv s \<Longrightarrow> account_step s t \<Longrightarrow> poll_full t"
proof -
  assume inv: "account_inv s" and step: "account_step s t"
  have full: "poll_full s" "boot_ok s" using inv by (simp_all add: account_inv_def)
  from step show ?thesis
  proof cases
    case (poll_due g)
    then show ?thesis using poll_fires_full [OF full(1)] by simp
  next
    case (auth_reply silent g fmt reply)
    then show ?thesis using auth_fetched_full [OF full(1)] by simp
  next
    case (status_reply auth silent g fmt reply)
    then show ?thesis using status_fetched_full [OF full(1)] inv_hass(1) [OF inv] by simp
  next
    case (operation_reply c fmt reply)
    then show ?thesis using operation_full [OF full(1)] inv_hass(1) [OF inv] by simp
  next
    case (status_merged v)
    then show ?thesis using merge_full [OF full(1)] by simp
  next
    case hass_given
    then show ?thesis using bootstrap_full [OF poll_full_hass [OF full(1)]] poll_full_hass [OF full(1)] by (simp add: set_hass_def Let_def)
  next
    case (config_reply strNum fmt config)
    then show ?thesis using config_full [OF full(1)] full(2) by (simp add: boot_ok_def)
  next
    case (boot_status_reply reply)
    then show ?thesis
      using merge_full [of "account_call_close BootStatus s"] close_other [OF full(1), of BootStatus] inv_hass(1) [OF inv]
      by (simp add: boot_status_def Let_def split: sum.split)
  next
    case (boot_ended fmt failure)
    then show ?thesis using close_other [OF full(1), of BootRest] by (simp add: boot_rest_def Let_def split: option.split)
  next
    case retried
    have "poll_full ((stopSystemEventSubscription s)\<lparr>ac_config := None, ac_status := JNull\<rparr>)"
      by (rule poll_full_reset) (simp add: full(1))
    then show ?thesis using retried by (simp add: retryAppConnection_def bootstrap_full)
  qed (use full(1) in \<open>simp_all add: open_other begin_full attach_full detach_full system_refresh_fires_def refreshAuthStatus_def\<close>)
qed

lemma retry_views:
  "sys_view (retryAppConnection s) = sys_view ((stopSystemEventSubscription s)\<lparr>ac_config := None\<rparr>)"
  by (simp add: retryAppConnection_def bootstrap_def clear_account_error_def sys_view_def account_call_open_def)

lemma bootstrap_views [simp]: "sys_view (bootstrap s) = sys_view s" "sys_view (set_hass s) = sys_view s" "sys_view (begin_operation c s) = sys_view s"
    "sys_view (refreshAuthStatus silent g s) = sys_view s" "sys_view (auth_poll_fires n s) = sys_view s"
  by (simp_all add: set_hass_def bootstrap_def begin_operation_def refreshAuthStatus_def auth_poll_fires_def account_call_open_def sys_view_def Let_def)

lemma sys_config:
  assumes "sys_ok (sys_view s)" "ac_config s = None"
  shows "sys_ok (sys_view (boot_config strNum fmt reply s))"
proof -
  define s1 where "s1 = account_call_close BootConfig s"
  have s1: "sys_ok (sys_view s1)" "ac_config s1 = None" using assms by (simp_all add: s1_def) (simp add: account_call_close_def)
  have "sys_ok (sys_view (startSystemEventSubscription (s1\<lparr>ac_config := b\<rparr>)))" for b
    using s1 by (intro sys_start) (cases "sy_active s1"; cases "sy_pending s1"; simp add: sys_view_def del: sub_ok.simps backoff_ok.simps)
  moreover have "sys_view ((account_error fmt err s1)\<lparr>ac_loading := False\<rparr>) = sys_view s1" for err
    by (simp add: account_error_def sys_view_def)
  ultimately show ?thesis using s1(1) by (simp add: boot_config_def Let_def s1_def [symmetric] split: sum.split)
qed

lemma sys_retry: "sys_ok (sys_view s) \<Longrightarrow> sys_ok (sys_view (retryAppConnection s))"
  unfolding retry_views using sys_stop [of s]
  by (simp add: stopSystemEventSubscription_def sys_view_def del: sub_ok.simps backoff_ok.simps)

lemma sys_attach: "sys_ok (sys_view s) \<Longrightarrow> sys_ok (sys_view (attach_account s))"
proof -
  assume ok: "sys_ok (sys_view s)"
  have "sys_ok (sys_view (s\<lparr>ac_connected := True\<rparr>))" using ok by (simp add: sys_view_def del: sub_ok.simps backoff_ok.simps)
  then show ?thesis using sys_start frame_sys [OF account_frames(1)] by (simp add: attach_account_def Let_def)
qed

lemma sys_detach: "sys_ok (sys_view s) \<Longrightarrow> sys_ok (sys_view (detach_account s))"
proof -
  assume ok: "sys_ok (sys_view s)"
  have "sys_ok (sys_view (s\<lparr>ac_connected := False\<rparr>))" using ok by (simp add: sys_view_def del: sub_ok.simps backoff_ok.simps)
  then have "sys_ok (sys_view (stopSystemEventSubscription (s\<lparr>ac_connected := False\<rparr>)))" by (rule sys_stop)
  then show ?thesis by (simp add: detach_account_def stopAuthPolling_def sys_view_def del: sub_ok.simps backoff_ok.simps)
qed

lemma fetched_sys [simp]:
  "sys_view (auth_fetched fmt silent g reply s) = sys_view s" "sys_view (status_fetched fmt auth silent g reply s) = sys_view s"
  "sys_view (operation_answered fmt c reply s) = sys_view s" "sys_view (mergeStatus v s) = sys_view s"
proof -
  show "sys_view (auth_fetched fmt silent g reply s) = sys_view s"
    using auth_fetched_frame [of silent g s fmt reply] by (auto dest: frame_sys)
  show "sys_view (status_fetched fmt auth silent g reply s) = sys_view s" using frame_sys [OF status_fetched_frame] by simp
  show "sys_view (operation_answered fmt c reply s) = sys_view s" using frame_sys [OF operation_frame] by simp
  show "sys_view (mergeStatus v s) = sys_view s" using frame_sys [OF account_frames(2)] .
qed

lemma boot_sys [simp]: "sys_view (boot_status reply s) = sys_view s" "sys_view (boot_rest fmt failure s) = sys_view s"
proof -
  show "sys_view (boot_status reply s) = sys_view s" by (simp add: boot_status_def Let_def split: sum.split)
  have "sys_view (clear_account_error u) = sys_view u" "sys_view (account_error fmt err u) = sys_view u" "sys_view (u\<lparr>ac_loading := b\<rparr>) = sys_view u" for u b err
    by (simp_all add: clear_account_error_def account_error_def sys_view_def)
  then show "sys_view (boot_rest fmt failure s) = sys_view s" by (simp add: boot_rest_def Let_def split: option.split)
qed

lemma field_sys [simp]: "sys_view (s\<lparr>sy_refreshTimer := b\<rparr>) = sys_view s" "sys_view (s\<lparr>ac_error := e, ac_bannerKey := k\<rparr>) = sys_view s"
    "sys_view (s\<lparr>ac_confirmSignOut := b\<rparr>) = sys_view s"
  by (simp_all add: sys_view_def)

lemma step_sys: "account_inv s \<Longrightarrow> account_step s t \<Longrightarrow> sys_ok (sys_view t)"
proof -
  assume inv: "account_inv s" and step: "account_step s t"
  have ok: "sys_ok (sys_view s)" "boot_ok s" using inv by (simp_all add: account_inv_def)
  from step show ?thesis
  proof cases
    case (config_reply strNum fmt config)
    then show ?thesis using sys_config [OF ok(1)] ok(2) by (simp add: boot_ok_def)
  qed (use ok(1) in \<open>simp_all add: sys_settled sys_fires sys_delivered sys_retry sys_attach sys_detach system_refresh_fires_def del: sys_ok.simps\<close>)
qed

lemma fetched_boot:
  assumes "boot_ok s"
  shows "boot_ok (auth_fetched fmt silent g reply s)" "boot_ok (status_fetched fmt auth silent g reply s)"
    "boot_ok (operation_answered fmt c reply s)" "boot_ok (mergeStatus v s)" "boot_ok (boot_status reply s)"
proof -
  show "boot_ok (auth_fetched fmt silent g reply s)"
    using auth_fetched_frame [of silent g s fmt reply] boot_ok_frame [OF _ boot_ok_close [OF assms]] boot_ok_open [OF boot_ok_close [OF assms]]
    by auto
  show "boot_ok (status_fetched fmt auth silent g reply s)" using boot_ok_frame [OF status_fetched_frame boot_ok_close [OF assms]] .
  show "boot_ok (operation_answered fmt c reply s)" using boot_ok_frame [OF operation_frame boot_ok_close [OF assms]] .
  show merge: "boot_ok (mergeStatus v s)" using boot_ok_frame [OF account_frames(2) assms] .
  show "boot_ok (boot_status reply s)"
    using boot_ok_close [OF assms] boot_ok_frame [OF account_frames(2) boot_ok_close [OF assms]] by (simp add: boot_status_def Let_def split: sum.split)
qed

lemma boot_ok_fields [simp]:
  "boot_ok (s\<lparr>ac_pollTimer := pt\<rparr>) = boot_ok s" "boot_ok (s\<lparr>ac_pollInFlight := b\<rparr>) = boot_ok s" "boot_ok (s\<lparr>ac_confirmSignOut := b\<rparr>) = boot_ok s"
  "boot_ok (s\<lparr>ac_actionPending := b\<rparr>) = boot_ok s" "boot_ok (s\<lparr>sy_refreshTimer := b\<rparr>) = boot_ok s" "boot_ok (s\<lparr>ac_hass := b\<rparr>) = boot_ok s"
  "boot_ok (s\<lparr>ac_error := e, ac_bannerKey := k\<rparr>) = boot_ok s" "boot_ok (s\<lparr>ac_connected := b\<rparr>) = boot_ok s"
  by (simp_all add: boot_ok_def boot_calls_def)

lemma retry_boot: "boot_ok s \<Longrightarrow> boot_ok (retryAppConnection s)"
  unfolding retryAppConnection_def
  by (rule bootstrap_boot) (use rest_views(2) [of s] in \<open>auto simp: boot_ok_def boot_calls_def clear_account_error_def rest_view_def\<close>)

lemma attach_boot: "boot_ok s \<Longrightarrow> boot_ok (attach_account s)" "boot_ok s \<Longrightarrow> boot_ok (detach_account s)"
proof -
  assume ok: "boot_ok s"
  have "boot_ok (startSystemEventSubscription (s\<lparr>ac_connected := True\<rparr>))" by (rule boot_ok_rest [OF rest_views(1)]) (simp add: ok)
  then show "boot_ok (attach_account s)" using ok boot_ok_frame [OF account_frames(1)] by (simp add: attach_account_def Let_def)
  have "boot_ok (stopSystemEventSubscription (s\<lparr>ac_connected := False\<rparr>))" by (rule boot_ok_rest [OF rest_views(2)]) (simp add: ok)
  then show "boot_ok (detach_account s)" by (simp add: detach_account_def stopAuthPolling_def boot_ok_def boot_calls_def)
qed

lemma step_boot: "boot_ok s \<Longrightarrow> account_step s t \<Longrightarrow> boot_ok t"
proof -
  assume ok: "boot_ok s" and step: "account_step s t"
  from step show ?thesis
  proof cases
    case hass_given
    then show ?thesis using ok bootstrap_boot [of "s\<lparr>ac_hass := True\<rparr>"] by (simp add: set_hass_def Let_def)
  qed (use ok in \<open>simp_all add: fetched_boot boot_config_boot boot_rest_boot retry_boot attach_boot boot_ok_open boot_ok_rest [OF rest_views(5)]
      boot_ok_rest [OF rest_views(6)] boot_ok_rest [OF rest_views(8)] auth_poll_fires_def refreshAuthStatus_def begin_operation_def
      system_refresh_fires_def Let_def\<close>)
qed

lemma hass_kept:
  "ac_hass (auth_poll_fires n s) = ac_hass s" "ac_hass (auth_fetched fmt silent g reply s) = ac_hass s"
  "ac_hass (status_fetched fmt auth silent g reply s) = ac_hass s" "ac_hass (operation_answered fmt op reply s) = ac_hass s"
  "ac_hass (refreshAuthStatus silent g s) = ac_hass s" "ac_hass (begin_operation op s) = ac_hass s" "ac_hass (mergeStatus v s) = ac_hass s"
  "ac_hass (system_refresh_fires s) = ac_hass s" "ac_hass (boot_status reply s) = ac_hass s" "ac_hass (boot_rest fmt failure s) = ac_hass s"
proof -
  show "ac_hass (auth_fetched fmt silent g reply s) = ac_hass s"
    using auth_fetched_frame [of silent g s fmt reply] by (auto dest: frame_hass)
  show "ac_hass (status_fetched fmt auth silent g reply s) = ac_hass s" using frame_hass [OF status_fetched_frame] by simp
  show "ac_hass (operation_answered fmt op reply s) = ac_hass s" using frame_hass [OF operation_frame] by simp
  have merge: "ac_hass (mergeStatus v s) = ac_hass s" for v s using frame_hass [OF account_frames(2)] .
  show "ac_hass (mergeStatus v s) = ac_hass s" by (rule merge)
  show "ac_hass (boot_status reply s) = ac_hass s" using merge by (simp add: boot_status_def Let_def split: sum.split)
qed (simp_all add: auth_poll_fires_def refreshAuthStatus_def begin_operation_def system_refresh_fires_def boot_rest_def account_error_def
    clear_account_error_def Let_def split: option.split)

lemma system_hass_kept:
  "ac_hass (startSystemEventSubscription s) = ac_hass s" "ac_hass (stopSystemEventSubscription s) = ac_hass s"
  "ac_hass (system_settled x ok s) = ac_hass s" "ac_hass (system_reconnect_fires s) = ac_hass s" "ac_hass (system_delivered x v s) = ac_hass s"
  by (rule hass_rest, simp)+

lemma sync_hass: "ac_hass (syncAuthPolling s) = ac_hass s" "ac_hass (stopAuthPolling s) = ac_hass s"
  by (simp_all add: syncAuthPolling_def stopAuthPolling_def)

lemma step_hass: "account_step s t \<Longrightarrow> ac_hass s \<Longrightarrow> ac_hass t"
proof (induction rule: account_step.induct)
  case (config_reply s strNum fmt config)
  then show ?case by (simp add: boot_config_def Let_def account_error_def system_hass_kept split: sum.split)
next
  case (retried s)
  then show ?case by (simp add: retryAppConnection_def bootstrap_def clear_account_error_def system_hass_kept)
next
  case (attached s)
  then show ?case by (simp add: attach_account_def sync_hass system_hass_kept Let_def)
next
  case (detached_account s)
  then show ?case by (simp add: detach_account_def sync_hass system_hass_kept)
qed (simp_all add: hass_kept system_hass_kept set_hass_def bootstrap_def Let_def)

lemma step_quiet: "account_inv s \<Longrightarrow> account_step s t \<Longrightarrow> quiet_start t"
proof (cases "ac_hass s")
  case True
  then show "account_step s t \<Longrightarrow> quiet_start t" using step_hass by (simp add: quiet_start_def)
next
  case False
  assume inv: "account_inv s" and step: "account_step s t"
  have q: "ac_calls s = []" "sy_requests s = []" "sy_open s = []" "\<not> sy_refreshTimer s" "ac_config s = None" "ac_status s = JNull"
    using inv False by (auto simp: account_inv_def quiet_start_def poll_full_def)
  from step show ?thesis
  proof cases
    case (poll_due g)
    then show ?thesis using q null_not_pending [OF q(6)] by (simp add: quiet_start_def auth_poll_fires_def Let_def authLoginIsPending_def auth_of_def)
  next
    case system_reconnect
    then show ?thesis using q by (simp add: quiet_start_def system_reconnect_fires_def startSystemEventSubscription_def isSupervisorConnection_def)
  next
    case hass_given
    then show ?thesis by (simp add: quiet_start_def set_hass_def bootstrap_def Let_def)
  next
    case retried
    then show ?thesis
      using q False by (simp add: quiet_start_def retryAppConnection_def bootstrap_def clear_account_error_def stopSystemEventSubscription_def
          close_system_def split: option.split)
  next
    case attached
    then show ?thesis using q False by (simp add: quiet_start_def attach_account_def syncAuthPolling_def stopAuthPolling_def Let_def)
  next
    case detached_account
    then show ?thesis
      using q by (simp add: quiet_start_def detach_account_def stopAuthPolling_def stopSystemEventSubscription_def close_system_def split: option.split)
  qed (use q False in \<open>simp_all add: quiet_start_def\<close>)
qed

lemma account_inv_initial: "initial_account s \<Longrightarrow> account_inv s"
  by (auto simp: initial_account_def account_inv_def poll_full_def poll_pre_def poll_count_def polling_wanted_def boot_ok_def boot_calls_def
      quiet_start_def sys_view_def MAX_SAFE_def code_ok_def auth_of_def nullish_def)

interpretation ac: inductive_invariant initial_account account_step account_reachable account_inv
proof unfold_locales
  show "initial_account s \<Longrightarrow> account_reachable s" for s by (rule account_starts)
  show "account_reachable s \<Longrightarrow> account_step s t \<Longrightarrow> account_reachable t" for s t by (rule account_moves)
  show "account_reachable s \<Longrightarrow> (\<And>s. initial_account s \<Longrightarrow> P s) \<Longrightarrow>
      (\<And>s t. account_reachable s \<Longrightarrow> P s \<Longrightarrow> account_step s t \<Longrightarrow> P t) \<Longrightarrow> P s" for s P
    by (induction rule: account_reachable.induct) blast+
  show "initial_account s \<Longrightarrow> account_inv s" for s by (rule account_inv_initial)
  show "account_inv t" if inv: "account_inv s" and step: "account_step s t" for s t
  proof -
    have "boot_ok s" "code_ok (auth_of s)" using inv by (simp_all add: account_inv_def)
    then show ?thesis
      unfolding account_inv_def [of t]
      using step_full [OF inv step] step_boot [OF _ step] step_quiet [OF inv step] step_sys [OF inv step] moved_code [OF step_moved [OF step]] by blast
  qed
qed

section \<open>A sample run\<close>

definition account0 :: account where
  "account0 = \<lparr>ac_status = JNull, ac_config = None, ac_hass = False, ac_connected = False, ac_subscribable = True, ac_loading = False,
     ac_pollTimer = None, ac_pollInFlight = False, ac_pollGeneration = 0, ac_actionPending = False, ac_confirmSignOut = False, ac_bannerKey = [],
     ac_error = initial_error, ac_calls = [], sy_generation = 0, sy_unsubscribe = None, sy_active = False, sy_pending = False, sy_requests = [],
     sy_open = [], sy_attempt = 0, sy_reconnectTimer = None, sy_refreshTimer = False, sy_cursor = 0\<rparr>"

definition sample_auth :: "string \<Rightarrow> int \<Rightarrow> jsval" where
  "sample_auth st n = JObj [(js ''auth'', JObj [(js ''state'', jlit st), (js ''revision'', jint n)])]"

text \<open>Given its connection, attached, told of a running sign-in, and polling; and with the system events open.\<close>

definition account1 :: account where
  "account1 = mergeStatus (sample_auth ''login_running'' 2) (attach_account (set_hass account0))"

definition account2 :: account where
  "account2 = auth_poll_fires 1 account1"

definition account3 :: account where
  "account3 = boot_config (\<lambda>_. NaN) (\<lambda>_. []) (Inr (JObj [(js ''connection_type'', jlit ''supervisor''), (js ''api_version'', jint 1)])) account2"

definition account4 :: account where
  "account4 = system_settled \<lparr>sb_generation = 1, sb_thread = []\<rparr> True account3"

lemma sample_facts:
  "ac_pollTimer account1 = Some 1" "polling_wanted account2" "ac_pollGeneration account2 = 1"
  "ac_calls account2 = [BootConfig, AuthFetch True (Some 1)]"
  "sy_requests account3 = [\<lparr>sb_generation = 1, sb_thread = []\<rparr>]" "sy_open account4 = [\<lparr>sb_generation = 1, sb_thread = []\<rparr>]"
  "ac_hass account1" "ac_status account1 = sample_auth ''login_running'' 2"
  by code_simp+

lemma sample_account_reachable: "account_reachable account1" "account_reachable account2" "account_reachable account4"
proof -
  have 0: "account_reachable account0" by (rule account_starts) (simp add: initial_account_def account0_def)
  have "account_reachable (attach_account (set_hass account0))"
    by (intro account_moves [OF _ attached] account_moves [OF 0 hass_given])
  then show 1: "account_reachable account1"
    unfolding account1_def by (rule account_moves [OF _ status_merged]) (simp add: attach_account_def sync_hass system_hass_kept set_hass_def bootstrap_def Let_def)
  then show 2: "account_reachable account2"
    unfolding account2_def by (rule account_moves [OF _ poll_due]) (simp add: sample_facts)
  then have "account_reachable account3"
    unfolding account3_def by (rule account_moves [OF _ config_reply]) (simp add: sample_facts)
  then show "account_reachable account4"
    unfolding account4_def by (rule account_moves [OF _ system_reply]) (simp add: sample_facts)
qed

section \<open>Properties\<close>

lemma failed_poll_rearmed:
  assumes "poll_full s" "polling_wanted s" "c \<in> set (ac_calls s)" "call_poll c = Some (ac_pollGeneration s)"
  shows "ac_pollTimer (refresh_ended (Some (ac_pollGeneration s)) (account_call_close c s)) = Some (ac_pollGeneration s)"
proof -
  have "ac_pollInFlight s" using close_poll [OF assms(1,3,4)] by (simp add: poll_mid_def account_call_close_def)
  then have "ac_pollTimer s = None" using assms(1) by (auto simp: poll_full_def poll_pre_def)
  then show ?thesis using assms(2) by (simp add: refresh_ended_def syncAuthPolling_def account_call_close_def)
qed

text \<open>
  C21: While a sign-in waits and the panel is attached to a current app, the poll is alive and
  single: either its timer is set, for the current generation and with no call of it open, and
  asks for the status when it fires; or exactly one call of it is open, and when that call
  fails the timer is set again.
\<close>

theorem auth_poll_alive:
  assumes "account_reachable s" "polling_wanted s"
  shows "ac_pollTimer s = Some (ac_pollGeneration s) \<and> poll_calls s (ac_pollGeneration s) = 0
        \<and> AuthFetch True (Some (ac_pollGeneration s)) \<in> set (ac_calls (auth_poll_fires (ac_pollGeneration s) s))
      \<or> ac_pollTimer s = None \<and> poll_calls s (ac_pollGeneration s) = 1
        \<and> (\<forall>auth fmt err. (AuthFetch True (Some (ac_pollGeneration s)) \<in> set (ac_calls s)
              \<longrightarrow> ac_pollTimer (auth_fetched fmt True (Some (ac_pollGeneration s)) (Inl err) s) = Some (ac_pollGeneration s))
           \<and> (StatusFetch auth True (Some (ac_pollGeneration s)) \<in> set (ac_calls s)
              \<longrightarrow> ac_pollTimer (status_fetched fmt auth True (Some (ac_pollGeneration s)) (Inl err) s) = Some (ac_pollGeneration s)))"
proof (cases "ac_pollTimer s")
  case None
  have full: "poll_full s" using ac.holds [OF assms(1)] by (simp add: account_inv_def)
  then have "poll_calls s (ac_pollGeneration s) = 1" using None assms(2) by (simp add: poll_full_def poll_count_def)
  moreover note failed_poll_rearmed [OF full assms(2), of "AuthFetch True (Some (ac_pollGeneration s))"]
    failed_poll_rearmed [OF full assms(2), of "StatusFetch auth True (Some (ac_pollGeneration s))" for auth]
  ultimately show ?thesis using None by (simp add: auth_fetched_def status_fetched_def Let_def)
next
  case (Some g)
  have full: "poll_full s" using ac.holds [OF assms(1)] by (simp add: account_inv_def)
  then have "g = ac_pollGeneration s" "\<not> ac_pollInFlight s" using Some by (simp_all add: poll_full_def poll_pre_def)
  moreover from this have "poll_calls s (ac_pollGeneration s) = 0" using full by (simp add: poll_full_def poll_count_def)
  moreover have "AuthFetch True (Some (ac_pollGeneration s)) \<in> set (ac_calls (auth_poll_fires (ac_pollGeneration s) s))"
    using assms(2) by (simp add: auth_poll_fires_def refreshAuthStatus_def account_call_open_def polling_wanted_def authLoginIsPending_def auth_of_def Let_def)
  ultimately show ?thesis using Some by simp
qed

theorem auth_poll_alive_witness:
  "ac_pollTimer account2 = None \<and> poll_calls account2 1 = 1
   \<and> ac_pollTimer (auth_fetched (\<lambda>_. []) True (Some 1) (Inl JNull) account2) = Some 1"
  using auth_poll_alive [OF sample_account_reachable(2) sample_facts(2)] by (simp add: sample_facts)

text \<open>
  C22: Answers about the sign-in may come in any order, and the status never goes back to an
  older revision, unless the connection is made anew; outside the two states in which the user
  has to act, the status holds no one-time code and no page, so that no page is opened.
\<close>

theorem sign_in_status_fresh:
  assumes "account_reachable s" "account_step s t"
  shows "(ac_status t = JNull \<or> auth_revision (auth_of s) \<le> auth_revision (auth_of t))
    \<and> (is_one_of CODE_STATES (dot (auth_of t) ''state'')
       \<or> nullish (dot (auth_of t) ''user_code'') \<and> nullish (dot (auth_of t) ''verification_uri'') \<and> nullish (dot (auth_of t) ''login_url'')
         \<and> (\<forall>parse. safeAuthVerificationUrl parse t = None))"
proof -
  have code: "code_ok (auth_of t)" using ac.holds [OF account_moves [OF assms]] by (simp add: account_inv_def)
  have "safeAuthVerificationUrl parse t = None"
    if "nullish (dot (auth_of t) ''verification_uri'')" "nullish (dot (auth_of t) ''login_url'')" for parse
    using that by (auto simp: safeAuthVerificationUrl_def Let_def js_or_def nullish_def is_string_def split: jsval.splits)
  then show ?thesis using moved_revision [OF step_moved [OF assms(2)]] code by (auto simp: code_ok_def)
qed

theorem sign_in_status_fresh_witness:
  "ac_status (mergeStatus (sample_auth ''signed_out'' 1) account1) = JNull
   \<or> auth_revision (auth_of account1) \<le> auth_revision (auth_of (mergeStatus (sample_auth ''signed_out'' 1) account1))"
  using sign_in_status_fresh [OF sample_account_reachable(1) status_merged [OF sample_facts(7)]] by blast

text \<open>
  C23: At most one subscription to system events is open, the panel holds the handle that closes
  it, and none is open beside a request that is still current; one is open or asked for only
  for a current app. A reconnection waits between half a second and thirty seconds, twice as
  long with every attempt, and the cursor stays within the safe integers.
\<close>

theorem system_subscription_exclusive:
  assumes "account_reachable s"
  shows "sy_open s = (case sy_unsubscribe s of None \<Rightarrow> [] | Some x \<Rightarrow> [x])
    \<and> (sy_active s \<longleftrightarrow> sy_open s \<noteq> []) \<and> (sy_pending s \<longleftrightarrow> (\<exists>x\<in>set (sy_requests s). sb_generation x = sy_generation s))
    \<and> \<not> (sy_pending s \<and> sy_active s) \<and> (sy_pending s \<or> sy_active s \<longrightarrow> isSupervisorConnection s)
    \<and> (\<forall>ms. sy_reconnectTimer s = Some ms \<longrightarrow> ms = min 30000 (500 * 2 ^ (sy_attempt s - 1)) \<and> 1 \<le> sy_attempt s \<and> sy_attempt s \<le> 7)
    \<and> 0 \<le> sy_cursor s \<and> sy_cursor s \<le> MAX_SAFE"
proof -
  have ok: "sub_ok (sy_generation s, sy_unsubscribe s, sy_active s, sy_pending s, sy_requests s, sy_open s)"
    "backoff_ok (sy_attempt s, map_option (Pair []) (sy_reconnectTimer s))" "0 \<le> sy_cursor s" "sy_cursor s \<le> MAX_SAFE"
    "sy_active s \<or> sy_pending s \<longrightarrow> isSupervisorConnection s"
    using ac.holds [OF assms] by (auto simp: account_inv_def sys_view_def isSupervisorConnection_def simp del: sub_ok.simps backoff_ok.simps)
  have o: "sy_open s = (case sy_unsubscribe s of None \<Rightarrow> [] | Some x \<Rightarrow> [x])" "sy_active s \<longleftrightarrow> sy_unsubscribe s \<noteq> None"
    "sy_pending s \<longleftrightarrow> (\<exists>x\<in>set (sy_requests s). sb_generation x = sy_generation s)"
    "\<forall>x\<in>set (sy_requests s). sb_generation x = sy_generation s \<longrightarrow> sy_unsubscribe s = None"
    using ok(1) unfolding sub_ok.simps by blast+
  have a: "sy_active s \<longleftrightarrow> sy_open s \<noteq> []" using o(1,2) by (simp split: option.splits)
  have t: "ms = min 30000 (500 * 2 ^ (sy_attempt s - 1)) \<and> 1 \<le> sy_attempt s \<and> sy_attempt s \<le> 7" if "sy_reconnectTimer s = Some ms" for ms
    using ok(2) that by (simp add: reconnect_delay_def)
  have p: "\<not> (sy_pending s \<and> sy_active s)"
  proof
    assume b: "sy_pending s \<and> sy_active s"
    then obtain x where "x \<in> set (sy_requests s)" "sb_generation x = sy_generation s" using o(3) by (elim conjE) (drule iffD1, assumption, erule bexE)
    then show False using o(4) o(2) b by (elim conjE) (drule bspec, assumption, simp)
  qed
  have c: "sy_pending s \<or> sy_active s \<longrightarrow> isSupervisorConnection s" using ok(5) by blast
  show ?thesis by (intro conjI o(1) a o(3) p c ok(3,4) allI impI) (use t in simp_all)
qed

theorem system_subscription_exclusive_witness:
  "sy_active account4 \<and> \<not> (sy_pending account4 \<and> sy_active account4) \<and> sy_unsubscribe account4 \<noteq> None \<and> isSupervisorConnection account4"
proof -
  note e = system_subscription_exclusive [OF sample_account_reachable(3)]
  have "sy_open account4 \<noteq> []" by (simp add: sample_facts)
  then have "sy_active account4" "sy_unsubscribe account4 \<noteq> None" using e by (auto simp del: not_None_eq)
  then show ?thesis using e by blast
qed

end
