(* ===== verification/PdfViewer.thy ===== *)
theory PdfViewer
  imports ArtifactPreview
begin

text \<open>
  The PDF viewer (\<open>pdf-preview.js\<close> and the viewer methods of \<open>codex-bridge-panel.js\<close>): the
  geometry of a rendered page, and the state of the viewer, whose loads and renders overlap
  and are cut at their awaits. The library that parses and draws (pdf.js) is a parameter:
  what it answers, the number of pages it reports, and the size of a page at a scale.
\<close>

section \<open>Geometry of a page\<close>

definition PDF_PREVIEW_MAX_PAGES :: int where
  "PDF_PREVIEW_MAX_PAGES = 1000"

definition PDF_PREVIEW_MAX_CANVAS_PIXELS :: int where
  "PDF_PREVIEW_MAX_CANVAS_PIXELS = 12000000"

definition PDF_PREVIEW_MIN_SCALE :: rat where
  "PDF_PREVIEW_MIN_SCALE = 35 / 100"

definition PDF_PREVIEW_MAX_SCALE :: rat where
  "PDF_PREVIEW_MAX_SCALE = 3"

definition clamp_scale :: "rat \<Rightarrow> rat" where
  "clamp_scale r = min PDF_PREVIEW_MAX_SCALE (max PDF_PREVIEW_MIN_SCALE r)"

fun boundedScale :: "jsnum \<Rightarrow> jsnum" where
  "boundedScale NaN = NaN"
| "boundedScale PosInf = Fin PDF_PREVIEW_MAX_SCALE"
| "boundedScale NegInf = Fin PDF_PREVIEW_MIN_SCALE"
| "boundedScale (Fin r) = Fin (clamp_scale r)"

definition visiblePdfPageCount :: "jsval option \<Rightarrow> int" where
  "visiblePdfPageCount numPages =
     (let count = (case numPages of Some v \<Rightarrow> if is_safe_integer v then to_int v else 0 | None \<Rightarrow> 0) in
      min (max count 0) PDF_PREVIEW_MAX_PAGES)"

definition boundedPage :: "int \<Rightarrow> int \<Rightarrow> int" where
  "boundedPage pageCount pageNumber = min pageCount (max 1 (if pageNumber = 0 then 1 else pageNumber))"

definition or_else :: "rat \<Rightarrow> rat \<Rightarrow> rat" where
  "or_else x d = (if x = 0 then d else x)"

text \<open>The quotient of the width to fill and the width of the page, which the library may report as any number.\<close>

fun fit_ratio :: "rat \<Rightarrow> jsnum \<Rightarrow> jsnum" where
  "fit_ratio fitWidth NaN = NaN"
| "fit_ratio fitWidth PosInf = Fin 0"
| "fit_ratio fitWidth NegInf = Fin fitWidth"
| "fit_ratio fitWidth (Fin w) = Fin (fitWidth / max w 1)"

fun times_num :: "jsnum \<Rightarrow> rat \<Rightarrow> jsnum" where
  "times_num (Fin r) k = Fin (r * k)"
| "times_num n k = n"

definition page_scale :: "(jsnum \<Rightarrow> jsnum \<times> jsnum) \<Rightarrow> rat \<Rightarrow> rat \<Rightarrow> jsnum" where
  "page_scale getViewport availableWidth zoom =
     (let fitWidth = max 240 (min (or_else availableWidth 760) 1200) in
      boundedScale (times_num (fit_ratio fitWidth (fst (getViewport (Fin 1)))) (clamp_scale (or_else zoom 1))))"

record geometry =
  gm_width :: int
  gm_height :: int
  gm_styleWidth :: int
  gm_styleHeight :: int

definition output_scale :: "(rat \<Rightarrow> rat) \<Rightarrow> rat \<Rightarrow> rat \<Rightarrow> rat \<Rightarrow> rat" where
  "output_scale sqrt_of devicePixelRatio width height =
     (let requested = min (or_else devicePixelRatio 1) 2; pixels = width * height * requested * requested in
      requested * (if pixels > of_int PDF_PREVIEW_MAX_CANVAS_PIXELS then sqrt_of (of_int PDF_PREVIEW_MAX_CANVAS_PIXELS / pixels) else 1))"

text \<open>The size of the canvas, or \<open>None\<close> for the exception about invalid dimensions; \<open>sqrt_of\<close> is \<open>Math.sqrt\<close>.\<close>

definition page_geometry :: "(rat \<Rightarrow> rat) \<Rightarrow> rat \<Rightarrow> (jsnum \<Rightarrow> jsnum \<times> jsnum) \<Rightarrow> rat \<Rightarrow> rat \<Rightarrow> geometry option" where
  "page_geometry sqrt_of devicePixelRatio getViewport availableWidth zoom =
     (case getViewport (page_scale getViewport availableWidth zoom) of
        (Fin width, Fin height) \<Rightarrow>
          if width < 1 \<or> height < 1 then None
          else (let out = output_scale sqrt_of devicePixelRatio width height in
            Some \<lparr>gm_width = max 1 \<lfloor>width * out\<rfloor>, gm_height = max 1 \<lfloor>height * out\<rfloor>,
                  gm_styleWidth = \<lfloor>width\<rfloor>, gm_styleHeight = \<lfloor>height\<rfloor>\<rparr>)
      | _ \<Rightarrow> None)"

section \<open>State\<close>

text \<open>
  A call of \<open>_ensurePdfPreview\<close> that loads a document: waiting for the loading task, for the
  document of a task, for the first page (a call that joined another render could be rejected
  by it), for the release of a document nobody wants, and for the release after a failure. A
  task and its document are one number.
\<close>

datatype load_stage = AwaitTask | AwaitDocument nat | AwaitPage bool nat | Releasing | Failing

record pdf_load =
  pl_promise :: nat
  pl_generation :: nat
  pl_artifactId :: jstr
  pl_stage :: load_stage

text \<open>A call of \<open>_renderCurrentPdfPage\<close>; its promise and its abort controller are one number.\<close>

record pdf_render =
  rd_promise :: nat
  rd_generation :: nat
  rd_document :: nat
  rd_canvas :: nat
  rd_page :: int
  rd_zoom :: rat

text \<open>
  Beside the fields of the viewer: the canvas in the page and whether it is hidden, the page
  and zoom of the last render it accepted, the tasks ever opened, and the open calls.
\<close>

record viewer =
  vw_core :: pdf_viewer
  vw_connected :: bool
  vw_canvas :: "nat option"
  vw_visible :: bool
  vw_accepted :: "(int \<times> rat) option"
  vw_tasks :: "nat list"
  vw_loads :: "pdf_load list"
  vw_renders :: "pdf_render list"
  vw_next :: nat

definition on_core :: "(pdf_viewer \<Rightarrow> pdf_viewer) \<Rightarrow> viewer \<Rightarrow> viewer" where
  "on_core f s = s\<lparr>vw_core := f (vw_core s)\<rparr>"

abbreviation pages_of :: "(nat \<Rightarrow> jsval) \<Rightarrow> viewer \<Rightarrow> int" where
  "pages_of numPages s \<equiv> visiblePdfPageCount (map_option numPages (pv_document (vw_core s)))"

section \<open>Rendering\<close>

definition start_render :: "nat \<Rightarrow> nat \<Rightarrow> viewer \<Rightarrow> viewer" where
  "start_render d c s =
     (let v = vw_core s; n = vw_next s; g = Suc (pv_renderGeneration v) in
      s\<lparr>vw_core := v\<lparr>pv_renderGeneration := g, pv_renderController := Some n, pv_renderPromise := Some n\<rparr>,
        vw_renders := vw_renders s @ [\<lparr>rd_promise = n, rd_generation = g, rd_document = d, rd_canvas = c,
          rd_page = pv_page v, rd_zoom = pv_zoom v\<rparr>],
        vw_next := Suc n\<rparr>)"

definition renderCurrentPdfPage :: "viewer \<Rightarrow> viewer" where
  "renderCurrentPdfPage s =
     (if pv_renderPromise (vw_core s) \<noteq> None then on_core (\<lambda>v. v\<lparr>pv_renderQueued := True\<rparr>) s
      else case (pv_document (vw_core s), vw_canvas s) of
        (Some d, Some c) \<Rightarrow> start_render d c s
      | _ \<Rightarrow> s)"

text \<open>The library has begun to draw: \<open>onRenderTask\<close>.\<close>

definition render_task :: "pdf_render \<Rightarrow> nat \<Rightarrow> viewer \<Rightarrow> viewer" where
  "render_task r task s =
     (if rd_generation r = pv_renderGeneration (vw_core s) then on_core (\<lambda>v. v\<lparr>pv_renderTask := Some task\<rparr>) s else s)"

definition render_failure :: jstr where
  "render_failure = js ''PDF page could not be rendered. Open or download the file to view it.''"

text \<open>What the answer of a render changes, before its \<open>finally\<close>.\<close>

definition render_accepts :: "pdf_render \<Rightarrow> viewer \<Rightarrow> bool" where
  "render_accepts r s \<longleftrightarrow> rd_generation r = pv_renderGeneration (vw_core s) \<and> vw_connected s \<and> vw_canvas s = Some (rd_canvas r)
     \<and> rd_page r = pv_page (vw_core s) \<and> \<bar>rd_zoom r - pv_zoom (vw_core s)\<bar> < 1 / 1000"

definition render_answer :: "(nat \<Rightarrow> jsval) \<Rightarrow> pdf_render \<Rightarrow> bool \<Rightarrow> viewer \<Rightarrow> viewer" where
  "render_answer numPages r ok s =
     (if ok then
        (if render_accepts r s then
           (let p = boundedPage (visiblePdfPageCount (Some (numPages (rd_document r)))) (rd_page r) in
            (on_core (\<lambda>v. v\<lparr>pv_page := p, pv_error := []\<rparr>) s)\<lparr>vw_visible := True, vw_accepted := Some (p, rd_zoom r)\<rparr>)
         else s)
      else if rd_generation r \<noteq> pv_renderGeneration (vw_core s) \<or> rd_promise r \<in> set (pv_aborted (vw_core s)) then s
      else (on_core (\<lambda>v. v\<lparr>pv_error := render_failure\<rparr>) s)
             \<lparr>vw_visible := (if vw_canvas s = Some (rd_canvas r) then False else vw_visible s)\<rparr>)"

definition render_finally :: "pdf_render \<Rightarrow> viewer \<Rightarrow> viewer" where
  "render_finally r s =
     (let s1 = s\<lparr>vw_renders := remove1 r (vw_renders s)\<rparr>;
          s2 = on_core (\<lambda>v. v\<lparr>pv_renderPromise := (if pv_renderPromise v = Some (rd_promise r) then None else pv_renderPromise v),
                 pv_renderController := (if pv_renderController v = Some (rd_promise r) then None else pv_renderController v),
                 pv_renderTask := None\<rparr>) s1 in
      if pv_renderQueued (vw_core s2) \<and> pv_document (vw_core s2) \<noteq> None \<and> vw_connected s2
      then renderCurrentPdfPage (on_core (\<lambda>v. v\<lparr>pv_renderQueued := False\<rparr>) s2) else s2)"

definition render_ended :: "(nat \<Rightarrow> jsval) \<Rightarrow> pdf_render \<Rightarrow> bool \<Rightarrow> viewer \<Rightarrow> viewer" where
  "render_ended numPages r ok s = render_finally r (render_answer numPages r ok s)"

definition setPdfPreviewPage :: "(nat \<Rightarrow> jsval) \<Rightarrow> int \<Rightarrow> viewer \<Rightarrow> viewer" where
  "setPdfPreviewPage numPages value s =
     (let pageCount = pages_of numPages s; nextPage = boundedPage pageCount value in
      if pageCount = 0 \<or> nextPage = pv_page (vw_core s) then s
      else renderCurrentPdfPage (on_core (\<lambda>v. v\<lparr>pv_page := nextPage\<rparr>) s))"

definition setPdfPreviewZoom :: "rat \<Rightarrow> viewer \<Rightarrow> viewer" where
  "setPdfPreviewZoom value s =
     (let nextZoom = clamp_scale (or_else value 1) in
      if \<bar>nextZoom - pv_zoom (vw_core s)\<bar> < 1 / 1000 then s
      else renderCurrentPdfPage (on_core (\<lambda>v. v\<lparr>pv_zoom := nextZoom\<rparr>) s))"

section \<open>Loading\<close>

definition set_load :: "pdf_load \<Rightarrow> load_stage \<Rightarrow> viewer \<Rightarrow> viewer" where
  "set_load ld st s = s\<lparr>vw_loads := map (\<lambda>l. if l = ld then l\<lparr>pl_stage := st\<rparr> else l) (vw_loads s)\<rparr>"

definition pdf_load_finally :: "pdf_load \<Rightarrow> viewer \<Rightarrow> viewer" where
  "pdf_load_finally ld s =
     on_core (\<lambda>v. v\<lparr>pv_loadPromise := (if pv_loadPromise v = Some (pl_promise ld) then None else pv_loadPromise v)\<rparr>)
       (s\<lparr>vw_loads := remove1 ld (vw_loads s)\<rparr>)"

definition load_failure :: jstr where
  "load_failure = js ''PDF preview unavailable. Open or download the file to view it.''"

definition load_error :: "pdf_load \<Rightarrow> viewer \<Rightarrow> viewer" where
  "load_error ld s = pdf_load_finally ld (on_core (\<lambda>v. v\<lparr>pv_error := load_failure\<rparr>) s)"

definition load_failed :: "pdf_load \<Rightarrow> nat option \<Rightarrow> viewer \<Rightarrow> viewer" where
  "load_failed ld task s =
     (if pl_generation ld \<noteq> pv_generation (vw_core s) then pdf_load_finally ld s
      else
        (let target = (case pv_document (vw_core s) of Some d \<Rightarrow> Some d | None \<Rightarrow> task);
             s1 = on_core (\<lambda>v. v\<lparr>pv_document := None, pv_loadingTask := (if pv_loadingTask v = task then None else pv_loadingTask v)\<rparr>) s in
         case target of
           None \<Rightarrow> load_error ld s1
         | Some t \<Rightarrow> set_load ld Failing (on_core (\<lambda>v. v\<lparr>pv_destroyed := pv_destroyed v @ [t]\<rparr>) s1)))"

definition load_stale :: "pdf_load \<Rightarrow> viewer \<Rightarrow> bool" where
  "load_stale ld s \<longleftrightarrow> pl_generation ld \<noteq> pv_generation (vw_core s) \<or> pv_artifactId (vw_core s) \<noteq> Some (pl_artifactId ld) \<or> \<not> vw_connected s"

definition release_load :: "pdf_load \<Rightarrow> nat \<Rightarrow> viewer \<Rightarrow> viewer" where
  "release_load ld t s = set_load ld Releasing (on_core (\<lambda>v. v\<lparr>pv_destroyed := pv_destroyed v @ [t]\<rparr>) s)"

definition load_task :: "pdf_load \<Rightarrow> bool \<Rightarrow> viewer \<Rightarrow> viewer" where
  "load_task ld ok s =
     (if \<not> ok then load_failed ld None s
      else
        (let t = vw_next s; s1 = s\<lparr>vw_tasks := vw_tasks s @ [t], vw_next := Suc t\<rparr> in
         if load_stale ld s1 then release_load ld t s1
         else set_load ld (AwaitDocument t) (on_core (\<lambda>v. v\<lparr>pv_loadingTask := Some t\<rparr>) s1)))"

definition load_document :: "(nat \<Rightarrow> jsval) \<Rightarrow> pdf_load \<Rightarrow> nat \<Rightarrow> bool \<Rightarrow> viewer \<Rightarrow> viewer" where
  "load_document numPages ld t ok s =
     (if \<not> ok then load_failed ld (Some t) s
      else if load_stale ld s then release_load ld t s
      else
        (let s1 = on_core (\<lambda>v. v\<lparr>pv_document := Some t\<rparr>) s in
         if visiblePdfPageCount (Some (numPages t)) < 1 then load_failed ld (Some t) s1
         else set_load ld (AwaitPage (pv_renderPromise (vw_core s1) \<noteq> None) t)
           (renderCurrentPdfPage (on_core (\<lambda>v. v\<lparr>pv_error := []\<rparr>) s1))))"

definition ensurePdfPreview :: "jstr \<Rightarrow> viewer \<Rightarrow> viewer" where
  "ensurePdfPreview aid s =
     (let v = vw_core s in
      if pv_artifactId v \<noteq> Some aid \<or> pv_error v \<noteq> [] then s
      else if pv_document v \<noteq> None then (if vw_canvas s = None \<or> \<not> vw_visible s then renderCurrentPdfPage s else s)
      else if pv_loadPromise v \<noteq> None then s
      else s\<lparr>vw_core := v\<lparr>pv_loadPromise := Some (vw_next s)\<rparr>,
             vw_loads := vw_loads s @ [\<lparr>pl_promise = vw_next s, pl_generation = pv_generation v, pl_artifactId = aid, pl_stage = AwaitTask\<rparr>],
             vw_next := Suc (vw_next s)\<rparr>)"

section \<open>Showing, retrying and leaving\<close>

text \<open>The shell that \<open>_renderPdfPreview\<close> builds has a hidden canvas of its own and replaces the shell before it.\<close>

definition install_shell :: "viewer \<Rightarrow> viewer" where
  "install_shell s = s\<lparr>vw_canvas := Some (vw_next s), vw_visible := False, vw_accepted := None, vw_next := Suc (vw_next s)\<rparr>"

definition renderPdfPreview :: "jstr \<Rightarrow> viewer \<Rightarrow> viewer" where
  "renderPdfPreview aid s =
     (let s1 = (if pv_artifactId (vw_core s) \<noteq> Some aid
                then on_core (\<lambda>v. (disposePdfPreview v)\<lparr>pv_artifactId := Some aid, pv_page := 1, pv_zoom := 1, pv_error := []\<rparr>) s
                else s) in
      ensurePdfPreview aid (install_shell s1))"

text \<open>
  \<open>_renderArtifactPreview\<close> keeps a shell of the same file and only calls \<open>_ensurePdfPreview\<close>; these
  are its other branches, which clear the container.
\<close>

definition render_without_pdf :: "bool \<Rightarrow> viewer \<Rightarrow> viewer" where
  "render_without_pdf has_preview s =
     (let s1 = s\<lparr>vw_canvas := None\<rparr> in
      if has_preview \<and> pv_artifactId (vw_core s1) \<noteq> None then on_core disposePdfPreview s1 else s1)"

definition retryPdfPreview :: "jstr \<Rightarrow> viewer \<Rightarrow> viewer" where
  "retryPdfPreview aid s =
     ensurePdfPreview aid (on_core (\<lambda>v. (disposePdfPreview v)\<lparr>pv_artifactId := Some aid\<rparr>) s)"

definition detach_viewer :: "viewer \<Rightarrow> viewer" where
  "detach_viewer s = on_core disposePdfPreview (s\<lparr>vw_connected := False\<rparr>)"

text \<open>The controls as \<open>_syncPdfPreviewControls\<close> sets them.\<close>

record pdf_controls =
  pc_previous :: bool
  pc_next :: bool
  pc_zoomOut :: bool
  pc_zoomIn :: bool
  pc_retryHidden :: bool
  pc_retry :: bool

definition syncPdfPreviewControls :: "(nat \<Rightarrow> jsval) \<Rightarrow> viewer \<Rightarrow> pdf_controls" where
  "syncPdfPreviewControls numPages s =
     (let v = vw_core s; pageCount = pages_of numPages s; loading = (pv_document v = None \<and> pv_error v = []);
          unavailable = (pv_document v = None); rendering = (pv_renderPromise v \<noteq> None) in
      \<lparr>pc_previous = (loading \<or> rendering \<or> pv_page v \<le> 1),
       pc_next = (loading \<or> rendering \<or> pageCount = 0 \<or> pageCount \<le> pv_page v),
       pc_zoomOut = (unavailable \<or> rendering \<or> pv_zoom v \<le> PDF_PREVIEW_MIN_SCALE),
       pc_zoomIn = (unavailable \<or> rendering \<or> PDF_PREVIEW_MAX_SCALE \<le> pv_zoom v),
       pc_retryHidden = (pv_error v = []), pc_retry = (loading \<or> rendering)\<rparr>)"

section \<open>Steps\<close>

definition initial_pdf :: viewer where
  "initial_pdf = \<lparr>vw_core = initial_viewer, vw_connected = False, vw_canvas = None, vw_visible = False, vw_accepted = None, vw_tasks = [],
     vw_loads = [], vw_renders = [], vw_next = 0\<rparr>"

inductive pdf_step :: "(nat \<Rightarrow> jsval) \<Rightarrow> viewer \<Rightarrow> viewer \<Rightarrow> bool" for numPages where
  shown: "pdf_step numPages s (renderPdfPreview a s)"
| kept: "pdf_step numPages s (ensurePdfPreview a s)"
| not_shown: "pdf_step numPages s (render_without_pdf b s)"
| retried_pdf: "pdf_step numPages s (retryPdfPreview a s)"
| page_set: "pdf_step numPages s (setPdfPreviewPage numPages n s)"
| zoom_set: "pdf_step numPages s (setPdfPreviewZoom z s)"
| task_reply: "ld \<in> set (vw_loads s) \<Longrightarrow> pl_stage ld = AwaitTask \<Longrightarrow> pdf_step numPages s (load_task ld ok s)"
| document_reply: "ld \<in> set (vw_loads s) \<Longrightarrow> pl_stage ld = AwaitDocument t \<Longrightarrow> pdf_step numPages s (load_document numPages ld t ok s)"
| page_reply: "ld \<in> set (vw_loads s) \<Longrightarrow> pl_stage ld = AwaitPage joined t \<Longrightarrow> pdf_step numPages s (pdf_load_finally ld s)"
| page_rejected: "ld \<in> set (vw_loads s) \<Longrightarrow> pl_stage ld = AwaitPage True t \<Longrightarrow> pdf_step numPages s (load_failed ld (Some t) s)"
| released: "ld \<in> set (vw_loads s) \<Longrightarrow> pl_stage ld = Releasing \<Longrightarrow> pdf_step numPages s (pdf_load_finally ld s)"
| failure_released: "ld \<in> set (vw_loads s) \<Longrightarrow> pl_stage ld = Failing \<Longrightarrow> pdf_step numPages s (load_error ld s)"
| drawing: "r \<in> set (vw_renders s) \<Longrightarrow> pdf_step numPages s (render_task r n s)"
| drawn: "r \<in> set (vw_renders s) \<Longrightarrow> pdf_step numPages s (render_ended numPages r ok s)"
| pdf_cleared: "pdf_step numPages s (on_core disposePdfPreview s)"
| attached_viewer: "pdf_step numPages s (s\<lparr>vw_connected := True\<rparr>)"
| detached_viewer: "pdf_step numPages s (detach_viewer s)"

inductive pdf_reachable :: "(nat \<Rightarrow> jsval) \<Rightarrow> viewer \<Rightarrow> bool" for numPages where
  pdf_starts: "pdf_reachable numPages initial_pdf"
| pdf_moves: "pdf_reachable numPages s \<Longrightarrow> pdf_step numPages s t \<Longrightarrow> pdf_reachable numPages t"

section \<open>The canvas stays small\<close>

text \<open>What is used of \<open>Math.sqrt\<close>: the relative error of its rounded result.\<close>

definition is_root :: "(rat \<Rightarrow> rat) \<Rightarrow> bool" where
  "is_root sqrt_of \<longleftrightarrow> (\<forall>x. 0 \<le> x \<longrightarrow> (sqrt_of x)\<^sup>2 \<le> x * (1 + 1 / 2 ^ 50))"

lemma output_scale_area:
  assumes "is_root sqrt_of" "0 < w" "0 < h"
  shows "w * h * (output_scale sqrt_of ratio w h)\<^sup>2 \<le> 12000000 * (1 + 1 / 2 ^ 50)"
proof -
  define q where "q = min (or_else ratio 1) 2"
  define x where "x = w * h * q * q"
  have area: "w * h * (q * k)\<^sup>2 = x * k\<^sup>2" for k by (simp add: x_def power2_eq_square mult.assoc mult.left_commute)
  show ?thesis
  proof (cases "x > 12000000")
    case True
    then have "(sqrt_of (12000000 / x))\<^sup>2 \<le> 12000000 / x * (1 + 1 / 2 ^ 50)" 
      using assms(1) unfolding is_root_def by (elim allE [of _ "12000000 / x"]) (simp only: zero_le_divide_iff, simp)
    then have "x * (sqrt_of (12000000 / x))\<^sup>2 \<le> x * (12000000 / x * (1 + 1 / 2 ^ 50))" using True by (intro mult_left_mono) simp_all
    also have "\<dots> = 12000000 * (1 + 1 / 2 ^ 50)" using True by simp
    finally show ?thesis
      using True area [of "sqrt_of (12000000 / x)"] by (simp add: output_scale_def PDF_PREVIEW_MAX_CANVAS_PIXELS_def Let_def q_def [symmetric] x_def [symmetric])
  next
    case False
    then have "x \<le> 12000000 * (1 + 1 / 2 ^ 50)" by simp
    then show ?thesis
      using False area [of 1] by (simp add: output_scale_def PDF_PREVIEW_MAX_CANVAS_PIXELS_def Let_def q_def [symmetric] x_def [symmetric])
  qed
qed

lemma floor_max_one:
  fixes x :: rat
  assumes "max 1 \<lfloor>x\<rfloor> \<noteq> 1"
  shows "of_int (max 1 \<lfloor>x\<rfloor>) \<le> x \<and> 1 < max 1 \<lfloor>x\<rfloor>"
proof -
  have "1 < y" if "max 1 y \<noteq> 1" for y :: int using that by (simp add: max_def split: if_splits)
  from this [OF assms] have "max 1 \<lfloor>x\<rfloor> = \<lfloor>x\<rfloor>" "1 < \<lfloor>x\<rfloor>" by (simp_all only: max_def) simp_all
  then show ?thesis using of_int_floor_le [of x] by (simp only:)
qed

lemma area_of_sides:
  assumes "is_root sqrt_of" "1 \<le> w" "1 \<le> h" "out = output_scale sqrt_of ratio w h"
    and "max 1 \<lfloor>w * out\<rfloor> \<noteq> 1" "max 1 \<lfloor>h * out\<rfloor> \<noteq> 1"
  shows "max 1 \<lfloor>w * out\<rfloor> * max 1 \<lfloor>h * out\<rfloor> \<le> PDF_PREVIEW_MAX_CANVAS_PIXELS"
proof -
  define a b where "a = max 1 \<lfloor>w * out\<rfloor>" and "b = max 1 \<lfloor>h * out\<rfloor>"
  have a: "of_int a \<le> w * out" "1 < a" and b: "of_int b \<le> h * out" "1 < b"
    using floor_max_one assms(5,6) by (simp_all add: a_def b_def)
  have "(of_int a :: rat) * of_int b \<le> w * out * (h * out)" 
  proof (rule mult_mono)
    show "0 \<le> w * out" using a by linarith
    show "(0 :: rat) \<le> of_int b" using b(2) by simp
  qed (use a b in simp_all)
  also have "\<dots> = w * h * out\<^sup>2" by (simp add: power2_eq_square)
  also have "\<dots> \<le> 12000000 * (1 + 1 / 2 ^ 50)" unfolding assms(4) by (rule output_scale_area) (use assms in auto)
  also have "\<dots> < 12000001" by simp
  finally have "(of_int (a * b) :: rat) < of_int 12000001" by simp
  then have "a * b < 12000001" by (simp only: of_int_less_iff)
  then show ?thesis by (simp add: a_def b_def PDF_PREVIEW_MAX_CANVAS_PIXELS_def)
qed

section \<open>The invariant\<close>

text \<open>Renders: at most one belongs to the current generation, and it is the one the viewer waits for.\<close>

definition current_render :: "pdf_render \<Rightarrow> viewer \<Rightarrow> bool" where
  "current_render r s \<longleftrightarrow> r \<in> set (vw_renders s) \<and> rd_generation r = pv_renderGeneration (vw_core s)"

definition render_ok :: "viewer \<Rightarrow> bool" where
  "render_ok s \<longleftrightarrow> distinct (map rd_promise (vw_renders s))
     \<and> (\<forall>r\<in>set (vw_renders s). rd_promise r < vw_next s \<and> rd_generation r \<le> pv_renderGeneration (vw_core s))
     \<and> (\<forall>r. current_render r s \<longrightarrow> pv_renderPromise (vw_core s) = Some (rd_promise r) \<and> rd_promise r \<notin> set (pv_aborted (vw_core s))
          \<and> pv_document (vw_core s) = Some (rd_document r))
     \<and> (\<forall>p. pv_renderPromise (vw_core s) = Some p \<longrightarrow> (\<exists>r. current_render r s \<and> rd_promise r = p))
     \<and> pv_renderController (vw_core s) = pv_renderPromise (vw_core s) \<and> (\<forall>p\<in>set (pv_aborted (vw_core s)). p < vw_next s)"

text \<open>Page and zoom are in range, and only an attached panel has a document.\<close>

definition page_ok :: "(nat \<Rightarrow> jsval) \<Rightarrow> viewer \<Rightarrow> bool" where
  "page_ok numPages s \<longleftrightarrow> PDF_PREVIEW_MIN_SCALE \<le> pv_zoom (vw_core s) \<and> pv_zoom (vw_core s) \<le> PDF_PREVIEW_MAX_SCALE
     \<and> (pv_document (vw_core s) = None \<longrightarrow> pv_page (vw_core s) = 1)
     \<and> (pv_document (vw_core s) \<noteq> None \<longrightarrow> 1 \<le> pv_page (vw_core s) \<and> pv_page (vw_core s) \<le> pages_of numPages s \<and> vw_connected s)"

text \<open>A render that is out of date has a successor queued, and an idle viewer shows what was asked for.\<close>

definition up_to_date :: "pdf_render \<Rightarrow> viewer \<Rightarrow> bool" where
  "up_to_date r s \<longleftrightarrow> rd_page r = pv_page (vw_core s) \<and> \<bar>rd_zoom r - pv_zoom (vw_core s)\<bar> < 1 / 1000
     \<and> (vw_canvas s = Some (rd_canvas r) \<or> vw_canvas s = None)"

definition shows_request :: "viewer \<Rightarrow> bool" where
  "shows_request s \<longleftrightarrow> vw_visible s \<and> (\<exists>z. vw_accepted s = Some (pv_page (vw_core s), z) \<and> \<bar>z - pv_zoom (vw_core s)\<bar> < 1 / 1000)"

definition want_ok :: "viewer \<Rightarrow> bool" where
  "want_ok s \<longleftrightarrow> pv_error (vw_core s) \<noteq> []
     \<or> (\<forall>r. current_render r s \<longrightarrow> pv_renderQueued (vw_core s) \<or> up_to_date r s)
       \<and> (pv_document (vw_core s) = None \<or> vw_canvas s = None \<or> pv_renderPromise (vw_core s) \<noteq> None \<or> shows_request s)"

text \<open>Loads: at most one belongs to the current generation, and none joins a render.\<close>

definition pdf_load_ok :: "viewer \<Rightarrow> bool" where
  "pdf_load_ok s \<longleftrightarrow> distinct (map pl_promise (vw_loads s))
     \<and> (\<forall>ld\<in>set (vw_loads s). pl_promise ld < vw_next s \<and> pl_generation ld \<le> pv_generation (vw_core s)
          \<and> (\<forall>t. pl_stage ld \<noteq> AwaitPage True t)
          \<and> (pl_generation ld = pv_generation (vw_core s) \<longrightarrow> pv_loadPromise (vw_core s) = Some (pl_promise ld)
             \<and> (pl_stage ld = AwaitTask \<or> (\<exists>t. pl_stage ld = AwaitDocument t) \<longrightarrow> pv_document (vw_core s) = None)))"

text \<open>Documents: every task that was opened has been destroyed, or the viewer holds it.\<close>

definition task_ok :: "viewer \<Rightarrow> bool" where
  "task_ok s \<longleftrightarrow> (\<forall>t\<in>set (vw_tasks s). t < vw_next s \<and> (t \<in> set (pv_destroyed (vw_core s)) \<or> pv_loadingTask (vw_core s) = Some t))
     \<and> (\<forall>t. pv_loadingTask (vw_core s) = Some t \<longrightarrow> t \<in> set (pv_destroyed (vw_core s)) \<or> pv_document (vw_core s) = Some t
          \<or> (\<exists>ld\<in>set (vw_loads s). pl_generation ld = pv_generation (vw_core s) \<and> pl_stage ld = AwaitDocument t))
     \<and> (\<forall>t. pv_document (vw_core s) = Some t \<longrightarrow> pv_loadingTask (vw_core s) = Some t \<and> t \<notin> set (pv_destroyed (vw_core s)) \<and> t \<in> set (vw_tasks s))
     \<and> (\<forall>ld\<in>set (vw_loads s). \<forall>t. pl_stage ld = AwaitDocument t \<longrightarrow> t \<in> set (vw_tasks s) \<and> pv_document (vw_core s) \<noteq> Some t
          \<and> (pl_generation ld = pv_generation (vw_core s) \<longrightarrow> pv_loadingTask (vw_core s) = Some t \<and> t \<notin> set (pv_destroyed (vw_core s)))
          \<and> (\<forall>l\<in>set (vw_loads s). pl_stage l = AwaitDocument t \<longrightarrow> l = ld))
     \<and> (\<forall>t\<in>set (pv_destroyed (vw_core s)). t < vw_next s)"

definition viewer_ok :: "(nat \<Rightarrow> jsval) \<Rightarrow> viewer \<Rightarrow> bool" where
  "viewer_ok numPages s \<longleftrightarrow> render_ok s \<and> page_ok numPages s \<and> want_ok s \<and> pdf_load_ok s \<and> task_ok s"

section \<open>Renders\<close>

lemma no_current: "render_ok s \<Longrightarrow> pv_renderPromise (vw_core s) = None \<Longrightarrow> \<not> current_render r s"
  by (auto simp: render_ok_def)

lemma render_ok_start:
  assumes "render_ok s" "pv_document (vw_core s) = Some d"
  shows "render_ok (start_render d c s)"
proof -
  have le: "\<forall>r\<in>set (vw_renders s). rd_promise r < vw_next s \<and> rd_generation r \<le> pv_renderGeneration (vw_core s)"
    "\<forall>p\<in>set (pv_aborted (vw_core s)). p < vw_next s" "distinct (map rd_promise (vw_renders s))"
    using assms(1) by (simp_all add: render_ok_def)
  have cur: "current_render r (start_render d c s) \<longleftrightarrow> r = \<lparr>rd_promise = vw_next s, rd_generation = Suc (pv_renderGeneration (vw_core s)),
      rd_document = d, rd_canvas = c, rd_page = pv_page (vw_core s), rd_zoom = pv_zoom (vw_core s)\<rparr>" for r
    using le(1) by (auto simp: current_render_def start_render_def Let_def)
  show ?thesis
    unfolding render_ok_def cur using le assms(2) by (auto simp: start_render_def Let_def le_SucI less_SucI)
qed

lemma render_start_fields:
  "vw_canvas (start_render d c s) = vw_canvas s" "vw_connected (start_render d c s) = vw_connected s"
  "vw_loads (start_render d c s) = vw_loads s" "vw_tasks (start_render d c s) = vw_tasks s" "vw_next (start_render d c s) = Suc (vw_next s)"
  "pv_page (vw_core (start_render d c s)) = pv_page (vw_core s)" "pv_zoom (vw_core (start_render d c s)) = pv_zoom (vw_core s)"
  "pv_document (vw_core (start_render d c s)) = pv_document (vw_core s)" "pv_loadingTask (vw_core (start_render d c s)) = pv_loadingTask (vw_core s)"
  "pv_loadPromise (vw_core (start_render d c s)) = pv_loadPromise (vw_core s)" "pv_generation (vw_core (start_render d c s)) = pv_generation (vw_core s)"
  "pv_destroyed (vw_core (start_render d c s)) = pv_destroyed (vw_core s)" "pv_error (vw_core (start_render d c s)) = pv_error (vw_core s)"
  by (simp_all add: start_render_def Let_def)

lemma want_ok_start:
  assumes "render_ok s" "vw_canvas s = Some c"
  shows "want_ok (start_render d c s)"
proof -
  have "\<forall>r\<in>set (vw_renders s). rd_generation r \<le> pv_renderGeneration (vw_core s)" using assms(1) by (simp add: render_ok_def)
  then have "up_to_date r (start_render d c s)" if "current_render r (start_render d c s)" for r
    using that assms(2) by (auto simp: current_render_def start_render_def up_to_date_def Let_def)
  then show ?thesis by (auto simp: want_ok_def start_render_def Let_def)
qed

text \<open>Whatever was asked for, \<open>_renderCurrentPdfPage\<close> has it rendered or queued.\<close>

lemma render_current_ok:
  assumes "render_ok s"
  shows "render_ok (renderCurrentPdfPage s)" "want_ok (renderCurrentPdfPage s)"
proof -
  have q: "render_ok (on_core (\<lambda>v. v\<lparr>pv_renderQueued := True\<rparr>) s)" using assms by (simp add: render_ok_def current_render_def on_core_def)
  show "render_ok (renderCurrentPdfPage s)"
    using q assms render_ok_start [OF assms] by (auto simp: renderCurrentPdfPage_def split: option.split)
  have idle: "want_ok s" if "pv_renderPromise (vw_core s) = None" "pv_document (vw_core s) = None \<or> vw_canvas s = None"
    using no_current [OF assms that(1)] that(2) by (auto simp: want_ok_def)
  show "want_ok (renderCurrentPdfPage s)"
    using idle want_ok_start [OF assms] by (auto simp: renderCurrentPdfPage_def want_ok_def on_core_def split: option.split)
qed

text \<open>What rendering leaves alone.\<close>

lemma render_current_fields [simp]:
  "vw_canvas (renderCurrentPdfPage s) = vw_canvas s" "vw_connected (renderCurrentPdfPage s) = vw_connected s"
  "vw_loads (renderCurrentPdfPage s) = vw_loads s" "vw_tasks (renderCurrentPdfPage s) = vw_tasks s"
  "pv_page (vw_core (renderCurrentPdfPage s)) = pv_page (vw_core s)" "pv_zoom (vw_core (renderCurrentPdfPage s)) = pv_zoom (vw_core s)"
  "pv_document (vw_core (renderCurrentPdfPage s)) = pv_document (vw_core s)" "pv_loadingTask (vw_core (renderCurrentPdfPage s)) = pv_loadingTask (vw_core s)"
  "pv_loadPromise (vw_core (renderCurrentPdfPage s)) = pv_loadPromise (vw_core s)" "pv_generation (vw_core (renderCurrentPdfPage s)) = pv_generation (vw_core s)"
  "pv_destroyed (vw_core (renderCurrentPdfPage s)) = pv_destroyed (vw_core s)" "pv_error (vw_core (renderCurrentPdfPage s)) = pv_error (vw_core s)"
  "vw_next s \<le> vw_next (renderCurrentPdfPage s)"
  by (simp_all add: renderCurrentPdfPage_def on_core_def render_start_fields split: option.split)

lemma page_ok_render: "page_ok numPages s \<Longrightarrow> page_ok numPages (renderCurrentPdfPage s)"
  by (simp add: page_ok_def)

text \<open>Loads and tasks as functions of the fields they read; a larger number to draw from does no harm.\<close>

type_synonym pdf_load_view = "pdf_load list \<times> nat list \<times> nat \<times> nat option \<times> nat option \<times> nat option \<times> nat list"

definition pdf_load_view :: "viewer \<Rightarrow> pdf_load_view" where
  "pdf_load_view s = (vw_loads s, vw_tasks s, pv_generation (vw_core s), pv_loadPromise (vw_core s), pv_document (vw_core s),
     pv_loadingTask (vw_core s), pv_destroyed (vw_core s))"

lemma pdf_load_ok_view: "pdf_load_view t = pdf_load_view s \<Longrightarrow> vw_next s \<le> vw_next t \<Longrightarrow> pdf_load_ok s \<Longrightarrow> pdf_load_ok t"
  by (force simp: pdf_load_view_def pdf_load_ok_def)

lemma task_ok_view: "pdf_load_view t = pdf_load_view s \<Longrightarrow> vw_next s \<le> vw_next t \<Longrightarrow> task_ok s \<Longrightarrow> task_ok t"
  unfolding pdf_load_view_def task_ok_def prod.inject by (elim conjE) (simp, meson order_less_le_trans)

lemma pdf_load_view_render [simp]: "pdf_load_view (renderCurrentPdfPage s) = pdf_load_view s"
  by (simp add: pdf_load_view_def)

lemma viewer_ok_render:
  assumes "render_ok s" "page_ok numPages s" "pdf_load_ok s" "task_ok s"
  shows "viewer_ok numPages (renderCurrentPdfPage s)"
  using assms render_current_ok [OF assms(1)] page_ok_render pdf_load_ok_view [OF pdf_load_view_render] task_ok_view [OF pdf_load_view_render]
  by (simp add: viewer_ok_def)

lemma viewer_okD:
  assumes "viewer_ok numPages s"
  shows "render_ok s" "page_ok numPages s" "want_ok s" "pdf_load_ok s" "task_ok s"
  using assms by (simp_all add: viewer_ok_def)

lemma task_okD:
  assumes "task_ok s"
  shows "t \<in> set (vw_tasks s) \<Longrightarrow> t < vw_next s" "t \<in> set (vw_tasks s) \<Longrightarrow> t \<in> set (pv_destroyed (vw_core s)) \<or> pv_loadingTask (vw_core s) = Some t"
    "pv_loadingTask (vw_core s) = Some t \<Longrightarrow> t \<in> set (pv_destroyed (vw_core s)) \<or> pv_document (vw_core s) = Some t
       \<or> (\<exists>ld\<in>set (vw_loads s). pl_generation ld = pv_generation (vw_core s) \<and> pl_stage ld = AwaitDocument t)"
    "pv_document (vw_core s) = Some t \<Longrightarrow> pv_loadingTask (vw_core s) = Some t \<and> t \<notin> set (pv_destroyed (vw_core s)) \<and> t \<in> set (vw_tasks s)"
    "ld \<in> set (vw_loads s) \<Longrightarrow> pl_stage ld = AwaitDocument t \<Longrightarrow> t \<in> set (vw_tasks s) \<and> pv_document (vw_core s) \<noteq> Some t"
    "ld \<in> set (vw_loads s) \<Longrightarrow> pl_stage ld = AwaitDocument t \<Longrightarrow> pl_generation ld = pv_generation (vw_core s) \<Longrightarrow>
       pv_loadingTask (vw_core s) = Some t \<and> t \<notin> set (pv_destroyed (vw_core s))"
    "ld \<in> set (vw_loads s) \<Longrightarrow> l \<in> set (vw_loads s) \<Longrightarrow> pl_stage ld = AwaitDocument t \<Longrightarrow> pl_stage l = AwaitDocument t \<Longrightarrow> l = ld"
    "t \<in> set (pv_destroyed (vw_core s)) \<Longrightarrow> t < vw_next s"
  using assms by (simp_all add: task_ok_def)

lemma task_okI:
  assumes "\<And>t. t \<in> set (vw_tasks s) \<Longrightarrow> t < vw_next s"
    and "\<And>t. t \<in> set (vw_tasks s) \<Longrightarrow> t \<notin> set (pv_destroyed (vw_core s)) \<Longrightarrow> pv_loadingTask (vw_core s) = Some t"
    and "\<And>t. pv_loadingTask (vw_core s) = Some t \<Longrightarrow> t \<notin> set (pv_destroyed (vw_core s)) \<Longrightarrow> pv_document (vw_core s) \<noteq> Some t \<Longrightarrow>
       \<exists>ld\<in>set (vw_loads s). pl_generation ld = pv_generation (vw_core s) \<and> pl_stage ld = AwaitDocument t"
    and "\<And>t. pv_document (vw_core s) = Some t \<Longrightarrow> pv_loadingTask (vw_core s) = Some t \<and> t \<notin> set (pv_destroyed (vw_core s)) \<and> t \<in> set (vw_tasks s)"
    and "\<And>ld t. ld \<in> set (vw_loads s) \<Longrightarrow> pl_stage ld = AwaitDocument t \<Longrightarrow> t \<in> set (vw_tasks s) \<and> pv_document (vw_core s) \<noteq> Some t"
    and "\<And>ld t. ld \<in> set (vw_loads s) \<Longrightarrow> pl_stage ld = AwaitDocument t \<Longrightarrow> pl_generation ld = pv_generation (vw_core s) \<Longrightarrow>
       pv_loadingTask (vw_core s) = Some t \<and> t \<notin> set (pv_destroyed (vw_core s))"
    and "\<And>ld l t. ld \<in> set (vw_loads s) \<Longrightarrow> l \<in> set (vw_loads s) \<Longrightarrow> pl_stage ld = AwaitDocument t \<Longrightarrow> pl_stage l = AwaitDocument t \<Longrightarrow> l = ld"
    and "\<And>t. t \<in> set (pv_destroyed (vw_core s)) \<Longrightarrow> t < vw_next s"
  shows "task_ok s"
  unfolding task_ok_def using assms by blast

lemma loading_bound: "task_ok s \<Longrightarrow> pv_loadingTask (vw_core s) = Some t \<Longrightarrow> t < vw_next s"
  using task_okD(3) [of s t] task_okD(4) [of s t] task_okD(5) [of s _ t] task_okD(1,8) [of s t] by blast

section \<open>Disposal\<close>

definition disposed :: "jstr option \<Rightarrow> bool \<Rightarrow> viewer \<Rightarrow> viewer" where
  "disposed a b s = s\<lparr>vw_core := (disposePdfPreview (vw_core s))\<lparr>pv_artifactId := a\<rparr>, vw_connected := b\<rparr>"

lemma disposed_core [simp]:
  "pv_document (vw_core (disposed a b s)) = None" "pv_loadingTask (vw_core (disposed a b s)) = None" "pv_loadPromise (vw_core (disposed a b s)) = None"
  "pv_renderPromise (vw_core (disposed a b s)) = None" "pv_renderController (vw_core (disposed a b s)) = None" "pv_page (vw_core (disposed a b s)) = 1"
  "pv_zoom (vw_core (disposed a b s)) = 1" "pv_error (vw_core (disposed a b s)) = []" "pv_artifactId (vw_core (disposed a b s)) = a"
  "pv_generation (vw_core (disposed a b s)) = Suc (pv_generation (vw_core s))"
  "pv_renderGeneration (vw_core (disposed a b s)) = Suc (pv_renderGeneration (vw_core s))"
  "vw_renders (disposed a b s) = vw_renders s" "vw_loads (disposed a b s) = vw_loads s" "vw_tasks (disposed a b s) = vw_tasks s"
  "vw_next (disposed a b s) = vw_next s"
  by (simp_all add: disposed_def disposePdfPreview_def)

lemma disposed_lists:
  assumes "render_ok s" "task_ok s"
  shows "set (pv_aborted (vw_core (disposed a b s))) = set (pv_aborted (vw_core s)) \<union> set_option (pv_renderPromise (vw_core s))"
    "set (pv_destroyed (vw_core (disposed a b s))) = set (pv_destroyed (vw_core s)) \<union> set_option (pv_loadingTask (vw_core s))"
proof -
  have "pv_renderController (vw_core s) = pv_renderPromise (vw_core s)" using assms(1) by (simp add: render_ok_def)
  then show "set (pv_aborted (vw_core (disposed a b s))) = set (pv_aborted (vw_core s)) \<union> set_option (pv_renderPromise (vw_core s))"
    by (auto simp: disposed_def disposePdfPreview_def split: option.split)
  have "pv_document (vw_core s) = Some t \<Longrightarrow> pv_loadingTask (vw_core s) = Some t" for t using assms(2) by (simp add: task_ok_def)
  then show "set (pv_destroyed (vw_core (disposed a b s))) = set (pv_destroyed (vw_core s)) \<union> set_option (pv_loadingTask (vw_core s))"
    by (auto simp: disposed_def disposePdfPreview_def split: option.splits)
qed

lemma disposed_ok:
  assumes "viewer_ok numPages s"
  shows "viewer_ok numPages (disposed a b s)"
proof -
  note ok = viewer_okD [OF assms]
  have none: "\<not> current_render r (disposed a b s)" for r using ok(1) by (auto simp: current_render_def render_ok_def)
  have old: "pl_generation ld \<noteq> Suc (pv_generation (vw_core s))" if "ld \<in> set (vw_loads s)" for ld using ok(4) that by (auto simp: pdf_load_ok_def)
  have p: "p < vw_next s" if "pv_renderPromise (vw_core s) = Some p" for p using ok(1) that by (auto simp: render_ok_def current_render_def)
  have render: "render_ok (disposed a b s)"
    using ok(1) none p unfolding render_ok_def disposed_lists(1) [OF ok(1,5)] by (auto simp: le_SucI)
  have page: "page_ok numPages (disposed a b s)" by (simp add: page_ok_def PDF_PREVIEW_MIN_SCALE_def PDF_PREVIEW_MAX_SCALE_def)
  have want: "want_ok (disposed a b s)" using none by (simp add: want_ok_def)
  have load: "pdf_load_ok (disposed a b s)" using ok(4) old by (auto simp: pdf_load_ok_def le_SucI)
  note tk = task_okD [OF ok(5)]
  have d: "\<forall>t\<in>set (pv_destroyed (vw_core s)) \<union> set_option (pv_loadingTask (vw_core s)). t < vw_next s"
    using tk(8) loading_bound [OF ok(5)] by auto
  have task: "task_ok (disposed a b s)"
    unfolding task_ok_def disposed_lists(2) [OF ok(1,5)]
    using tk(1,2,5,7,8) old d by (simp add: elem_set)
  show ?thesis using render page want load task by (simp add: viewer_ok_def)
qed

section \<open>Page, zoom and shell\<close>

lemma render_ok_core:
  assumes "render_ok s" "vw_renders t = vw_renders s" "vw_next s \<le> vw_next t"
    and "pv_renderGeneration (vw_core t) = pv_renderGeneration (vw_core s)" "pv_renderPromise (vw_core t) = pv_renderPromise (vw_core s)"
    and "pv_renderController (vw_core t) = pv_renderController (vw_core s)" "pv_aborted (vw_core t) = pv_aborted (vw_core s)"
    and "pv_document (vw_core t) = pv_document (vw_core s) \<or> pv_renderPromise (vw_core s) = None"
  shows "render_ok t"
proof -
  have cur: "current_render r t = current_render r s" for r using assms(2,4) by (simp add: current_render_def)
  have none: "\<not> current_render r s" if "pv_renderPromise (vw_core s) = None" for r using no_current [OF assms(1) that] .
  show ?thesis
    using assms(1,8) none unfolding render_ok_def cur assms(2,4,5,6,7)
    by (elim conjE disjE) (simp_all, (meson assms(3) order_less_le_trans)+)
qed

lemma bounded_page: "1 \<le> m \<Longrightarrow> 1 \<le> boundedPage m n \<and> boundedPage m n \<le> m"
  by (simp add: boundedPage_def)

lemma bounded_same: "1 \<le> n \<Longrightarrow> n \<le> m \<Longrightarrow> boundedPage m n = n"
  by (simp add: boundedPage_def)

lemma clamp_bounds: "PDF_PREVIEW_MIN_SCALE \<le> clamp_scale r" "clamp_scale r \<le> PDF_PREVIEW_MAX_SCALE"
  by (simp_all add: clamp_scale_def PDF_PREVIEW_MIN_SCALE_def PDF_PREVIEW_MAX_SCALE_def)

lemma set_page_ok: "viewer_ok numPages s \<Longrightarrow> viewer_ok numPages (setPdfPreviewPage numPages n s)"
proof -
  assume ok: "viewer_ok numPages s"
  note o = viewer_okD [OF ok]
  define t where "t = on_core (\<lambda>v. v\<lparr>pv_page := boundedPage (pages_of numPages s) n\<rparr>) s"
  have "viewer_ok numPages (renderCurrentPdfPage t)" if "pages_of numPages s \<noteq> 0"
  proof (rule viewer_ok_render)
    have nonneg: "0 \<le> pages_of numPages s" by (simp add: visiblePdfPageCount_def PDF_PREVIEW_MAX_PAGES_def Let_def)
    have doc: "pv_document (vw_core s) \<noteq> None" using that by (cases "pv_document (vw_core s)") (simp_all add: visiblePdfPageCount_def PDF_PREVIEW_MAX_PAGES_def)
    show "render_ok t" by (rule render_ok_core [OF o(1)]) (simp_all add: t_def on_core_def)
    show "page_ok numPages t"
      using o(2) doc bounded_page [of "pages_of numPages s" n] nonneg that by (auto simp: page_ok_def t_def on_core_def)
    have "pdf_load_view t = pdf_load_view s" "vw_next t = vw_next s" by (simp_all add: pdf_load_view_def t_def on_core_def)
    then show "pdf_load_ok t" "task_ok t" using pdf_load_ok_view task_ok_view o(4,5) by simp_all
  qed
  then show ?thesis using ok by (simp add: setPdfPreviewPage_def Let_def t_def)
qed

lemma set_zoom_ok: "viewer_ok numPages s \<Longrightarrow> viewer_ok numPages (setPdfPreviewZoom z s)"
proof -
  assume ok: "viewer_ok numPages s"
  note o = viewer_okD [OF ok]
  define t where "t = on_core (\<lambda>v. v\<lparr>pv_zoom := clamp_scale (or_else z 1)\<rparr>) s"
  have "viewer_ok numPages (renderCurrentPdfPage t)"
  proof (rule viewer_ok_render)
    show "render_ok t" by (rule render_ok_core [OF o(1)]) (simp_all add: t_def on_core_def)
    show "page_ok numPages t" using o(2) clamp_bounds by (simp add: page_ok_def t_def on_core_def)
    have "pdf_load_view t = pdf_load_view s" "vw_next t = vw_next s" by (simp_all add: pdf_load_view_def t_def on_core_def)
    then show "pdf_load_ok t" "task_ok t" using pdf_load_ok_view task_ok_view o(4,5) by simp_all
  qed
  then show ?thesis using ok by (simp add: setPdfPreviewZoom_def Let_def t_def)
qed

text \<open>\<open>_ensurePdfPreview\<close> with the shell in place: a visible canvas may stay as it is, a hidden one is rendered.\<close>

definition begin_load :: "jstr \<Rightarrow> viewer \<Rightarrow> viewer" where
  "begin_load aid s = s\<lparr>vw_core := (vw_core s)\<lparr>pv_loadPromise := Some (vw_next s)\<rparr>,
     vw_loads := vw_loads s @ [\<lparr>pl_promise = vw_next s, pl_generation = pv_generation (vw_core s), pl_artifactId = aid, pl_stage = AwaitTask\<rparr>],
     vw_next := Suc (vw_next s)\<rparr>"

lemma start_load_ok:
  assumes "pdf_load_ok s" "task_ok s" "pv_loadPromise (vw_core s) = None" "pv_document (vw_core s) = None"
  shows "pdf_load_ok (begin_load aid s)" "task_ok (begin_load aid s)"
proof -
  show "pdf_load_ok (begin_load aid s)" using assms(1,3,4) by (fastforce simp: pdf_load_ok_def begin_load_def)
  note t = task_okD [OF assms(2)]
  have "\<exists>ld\<in>insert x (set (vw_loads s)). P ld" if "\<exists>ld\<in>set (vw_loads s). P ld" for P x using that by blast
  then show "task_ok (begin_load aid s)"
    using t assms(4) unfolding task_ok_def by (simp add: begin_load_def less_SucI)
qed

lemma ensure_ok:
  assumes "render_ok s" "page_ok numPages s" "pdf_load_ok s" "task_ok s"
    and "want_ok s \<or> pv_artifactId (vw_core s) = Some aid \<and> vw_canvas s \<noteq> None \<and> \<not> vw_visible s"
  shows "viewer_ok numPages (ensurePdfPreview aid s)"
proof -
  consider (closed) "pv_artifactId (vw_core s) \<noteq> Some aid \<or> pv_error (vw_core s) \<noteq> []"
    | (opened) "pv_artifactId (vw_core s) = Some aid" "pv_error (vw_core s) = []" "pv_document (vw_core s) \<noteq> None"
    | (empty) "pv_artifactId (vw_core s) = Some aid" "pv_error (vw_core s) = []" "pv_document (vw_core s) = None"
    by blast
  then show ?thesis
  proof cases
    case closed
    then have "want_ok s" using assms(5) by (auto simp: want_ok_def)
    then show ?thesis using closed assms by (simp add: ensurePdfPreview_def Let_def viewer_ok_def)
  next
    case opened
    have r: "viewer_ok numPages (renderCurrentPdfPage s)" by (rule viewer_ok_render) (use assms in simp_all)
    show ?thesis
    proof (cases "vw_canvas s = None \<or> \<not> vw_visible s")
      case True
      then show ?thesis using opened r by (simp add: ensurePdfPreview_def Let_def)
    next
      case False
      then have "want_ok s" using assms(5) by blast
      then show ?thesis using opened False assms by (auto simp: ensurePdfPreview_def Let_def viewer_ok_def)
    qed
  next
    case empty
    have none: "\<not> current_render r s" for r using assms(1) empty(3) by (auto simp: render_ok_def)
    then have want: "want_ok s" using empty(3) by (auto simp: want_ok_def)
    have e: "ensurePdfPreview aid s = (if pv_loadPromise (vw_core s) \<noteq> None then s else begin_load aid s)"
      using empty by (simp add: ensurePdfPreview_def begin_load_def Let_def)
    have "render_ok (begin_load aid s)" by (rule render_ok_core [OF assms(1)]) (simp_all add: begin_load_def)
    moreover have "page_ok numPages (begin_load aid s)" using assms(2) by (simp add: page_ok_def begin_load_def)
    moreover have "want_ok (begin_load aid s)"
      using none empty(3) by (auto simp: want_ok_def begin_load_def current_render_def)
    ultimately show ?thesis
      unfolding e using assms want start_load_ok [OF assms(3,4) _ empty(3)] by (simp add: viewer_ok_def)
  qed
qed

lemma show_ok: "viewer_ok numPages s \<Longrightarrow> viewer_ok numPages (renderPdfPreview aid s)"
proof -
  assume ok: "viewer_ok numPages s"
  define s1 where "s1 = (if pv_artifactId (vw_core s) \<noteq> Some aid then disposed (Some aid) (vw_connected s) s else s)"
  have d: "on_core (\<lambda>v. (disposePdfPreview v)\<lparr>pv_artifactId := Some aid, pv_page := 1, pv_zoom := 1, pv_error := []\<rparr>) s = disposed (Some aid) (vw_connected s) s"
    by (simp add: on_core_def disposed_def disposePdfPreview_def)
  have "viewer_ok numPages s1" "pv_artifactId (vw_core s1) = Some aid" using ok disposed_ok by (simp_all add: s1_def)
  note o = viewer_okD [OF this(1)] this(2)
  have "viewer_ok numPages (ensurePdfPreview aid (install_shell s1))"
  proof (rule ensure_ok)
    show "render_ok (install_shell s1)" by (rule render_ok_core [OF o(1)]) (simp_all add: install_shell_def)
    show "page_ok numPages (install_shell s1)" using o(2) by (simp add: page_ok_def install_shell_def)
    have "pdf_load_view (install_shell s1) = pdf_load_view s1" "vw_next s1 \<le> vw_next (install_shell s1)" by (simp_all add: pdf_load_view_def install_shell_def)
    then show "pdf_load_ok (install_shell s1)" "task_ok (install_shell s1)" using pdf_load_ok_view task_ok_view o(4,5) by simp_all
  qed (use o(6) in \<open>simp add: install_shell_def\<close>)
  then show ?thesis by (cases "pv_artifactId (vw_core s) = Some aid") (simp_all add: renderPdfPreview_def Let_def d s1_def)
qed

lemma retry_ok: "viewer_ok numPages s \<Longrightarrow> viewer_ok numPages (retryPdfPreview aid s)"
proof -
  assume ok: "viewer_ok numPages s"
  have d: "on_core (\<lambda>v. (disposePdfPreview v)\<lparr>pv_artifactId := Some aid\<rparr>) s = disposed (Some aid) (vw_connected s) s"
    by (simp add: on_core_def disposed_def)
  note o = viewer_okD [OF disposed_ok [OF ok, of "Some aid" "vw_connected s"]]
  show ?thesis unfolding retryPdfPreview_def d by (rule ensure_ok) (use o in simp_all)
qed

lemma clear_ok: "viewer_ok numPages s \<Longrightarrow> viewer_ok numPages (on_core disposePdfPreview s)"
  "viewer_ok numPages s \<Longrightarrow> viewer_ok numPages (detach_viewer s)"
proof -
  assume ok: "viewer_ok numPages s"
  have "on_core disposePdfPreview s = disposed None (vw_connected s) s" "detach_viewer s = disposed None False s"
    by (simp_all add: on_core_def detach_viewer_def disposed_def disposePdfPreview_def)
  then show "viewer_ok numPages (on_core disposePdfPreview s)" "viewer_ok numPages (detach_viewer s)" using disposed_ok [OF ok] by simp_all
qed

lemma remove_shell_ok: "viewer_ok numPages s \<Longrightarrow> viewer_ok numPages (s\<lparr>vw_canvas := None\<rparr>)"
proof -
  assume ok: "viewer_ok numPages s"
  note o = viewer_okD [OF ok]
  have "render_ok (s\<lparr>vw_canvas := None\<rparr>)" by (rule render_ok_core [OF o(1)]) simp_all
  moreover have "page_ok numPages (s\<lparr>vw_canvas := None\<rparr>)" using o(2) by (simp add: page_ok_def)
  moreover have "want_ok (s\<lparr>vw_canvas := None\<rparr>)" using o(3) by (auto simp: want_ok_def current_render_def up_to_date_def)
  moreover have "pdf_load_view (s\<lparr>vw_canvas := None\<rparr>) = pdf_load_view s" by (simp add: pdf_load_view_def)
  ultimately show ?thesis using pdf_load_ok_view task_ok_view o(4,5) by (simp add: viewer_ok_def)
qed

lemma without_ok: "viewer_ok numPages s \<Longrightarrow> viewer_ok numPages (render_without_pdf b s)"
  using remove_shell_ok clear_ok(1) by (simp add: render_without_pdf_def Let_def)

lemma attach_viewer_ok: "viewer_ok numPages s \<Longrightarrow> viewer_ok numPages (s\<lparr>vw_connected := True\<rparr>)"
proof -
  assume ok: "viewer_ok numPages s"
  note o = viewer_okD [OF ok]
  have "render_ok (s\<lparr>vw_connected := True\<rparr>)" by (rule render_ok_core [OF o(1)]) simp_all
  moreover have "page_ok numPages (s\<lparr>vw_connected := True\<rparr>)" using o(2) by (simp add: page_ok_def)
  moreover have "want_ok (s\<lparr>vw_connected := True\<rparr>)" using o(3) by (simp add: want_ok_def current_render_def up_to_date_def shows_request_def)
  moreover have "pdf_load_view (s\<lparr>vw_connected := True\<rparr>) = pdf_load_view s" by (simp add: pdf_load_view_def)
  ultimately show ?thesis using pdf_load_ok_view task_ok_view o(4,5) by (simp add: viewer_ok_def)
qed

section \<open>Answers of the library\<close>

text \<open>A change of the open loads, the tasks and what was destroyed leaves renders, page and request alone.\<close>

definition core_rest :: "pdf_viewer \<Rightarrow> nat option \<times> int \<times> rat \<times> nat \<times> nat option \<times> nat option \<times> nat list \<times> bool" where
  "core_rest v = (pv_document v, pv_page v, pv_zoom v, pv_renderGeneration v, pv_renderPromise v, pv_renderController v, pv_aborted v, pv_renderQueued v)"

lemma loads_only:
  assumes "viewer_ok numPages s" "pdf_load_ok t" "task_ok t"
    and "vw_renders t = vw_renders s" "vw_next s \<le> vw_next t" "vw_connected t = vw_connected s" "vw_canvas t = vw_canvas s"
    and "vw_visible t = vw_visible s" "vw_accepted t = vw_accepted s"
    and "core_rest (vw_core t) = core_rest (vw_core s)"
    and "pv_error (vw_core t) = pv_error (vw_core s) \<or> pv_error (vw_core t) \<noteq> []"
  shows "viewer_ok numPages t"
proof -
  note o = viewer_okD [OF assms(1)]
  have c: "pv_document (vw_core t) = pv_document (vw_core s)" "pv_page (vw_core t) = pv_page (vw_core s)" "pv_zoom (vw_core t) = pv_zoom (vw_core s)"
    "pv_renderGeneration (vw_core t) = pv_renderGeneration (vw_core s)" "pv_renderPromise (vw_core t) = pv_renderPromise (vw_core s)"
    "pv_renderController (vw_core t) = pv_renderController (vw_core s)" "pv_aborted (vw_core t) = pv_aborted (vw_core s)"
    "pv_renderQueued (vw_core t) = pv_renderQueued (vw_core s)"
    using assms(10) by (simp_all add: core_rest_def)
  have "render_ok t" by (rule render_ok_core [OF o(1)]) (simp_all add: c assms(4,5))
  moreover have "page_ok numPages t" using o(2) by (simp add: page_ok_def c assms(6))
  moreover have "want_ok t"
    using o(3) assms(11) by (auto simp: want_ok_def current_render_def up_to_date_def shows_request_def c assms(4,7,8,9))
  ultimately show ?thesis using assms(2,3) by (simp add: viewer_ok_def)
qed

lemma set_load_fields [simp]:
  "vw_core (set_load ld st s) = vw_core s" "vw_renders (set_load ld st s) = vw_renders s" "vw_next (set_load ld st s) = vw_next s"
  "vw_connected (set_load ld st s) = vw_connected s" "vw_canvas (set_load ld st s) = vw_canvas s" "vw_visible (set_load ld st s) = vw_visible s"
  "vw_accepted (set_load ld st s) = vw_accepted s" "vw_tasks (set_load ld st s) = vw_tasks s"
  "map pl_promise (vw_loads (set_load ld st s)) = map pl_promise (vw_loads s)"
  by (simp_all add: set_load_def)

lemma set_load_set: "ld \<in> set (vw_loads s) \<Longrightarrow> set (vw_loads (set_load ld st s)) = insert (ld\<lparr>pl_stage := st\<rparr>) (set (vw_loads s) - {ld})"
  by (auto simp: set_load_def)

lemma on_core_fields [simp]:
  "vw_core (on_core f s) = f (vw_core s)" "vw_renders (on_core f s) = vw_renders s" "vw_next (on_core f s) = vw_next s"
  "vw_connected (on_core f s) = vw_connected s" "vw_canvas (on_core f s) = vw_canvas s" "vw_visible (on_core f s) = vw_visible s"
  "vw_accepted (on_core f s) = vw_accepted s" "vw_tasks (on_core f s) = vw_tasks s" "vw_loads (on_core f s) = vw_loads s"
  by (simp_all add: on_core_def)

lemma pdf_load_okD:
  assumes "pdf_load_ok s" "ld \<in> set (vw_loads s)"
  shows "pl_promise ld < vw_next s" "pl_generation ld \<le> pv_generation (vw_core s)" "pl_stage ld \<noteq> AwaitPage True t"
    "pl_generation ld = pv_generation (vw_core s) \<Longrightarrow> pv_loadPromise (vw_core s) = Some (pl_promise ld)"
    "pl_generation ld = pv_generation (vw_core s) \<Longrightarrow> pl_stage ld = AwaitTask \<Longrightarrow> pv_document (vw_core s) = None"
    "pl_generation ld = pv_generation (vw_core s) \<Longrightarrow> pl_stage ld = AwaitDocument t \<Longrightarrow> pv_document (vw_core s) = None"
  using assms by (auto simp: pdf_load_ok_def)

lemma same_load: "pdf_load_ok s \<Longrightarrow> l \<in> set (vw_loads s) \<Longrightarrow> ld \<in> set (vw_loads s) \<Longrightarrow> pl_promise l = pl_promise ld \<Longrightarrow> l = ld"
  unfolding pdf_load_ok_def distinct_map by (meson inj_on_eq_iff)

lemma load_finally_ok:
  assumes "viewer_ok numPages s" "ld \<in> set (vw_loads s)"
    and "(\<forall>t. pl_stage ld \<noteq> AwaitDocument t) \<or> pl_generation ld \<noteq> pv_generation (vw_core s)"
  shows "viewer_ok numPages (pdf_load_finally ld s)"
proof (rule loads_only [OF assms(1)])
  note o = viewer_okD [OF assms(1)]
  have "distinct (vw_loads s)" using o(4) by (simp add: pdf_load_ok_def distinct_map)
  then have set: "set (vw_loads (pdf_load_finally ld s)) = set (vw_loads s) - {ld}" by (simp add: pdf_load_finally_def)
  have f: "pv_document (vw_core (pdf_load_finally ld s)) = pv_document (vw_core s)" "pv_generation (vw_core (pdf_load_finally ld s)) = pv_generation (vw_core s)"
    "pv_loadingTask (vw_core (pdf_load_finally ld s)) = pv_loadingTask (vw_core s)" "pv_destroyed (vw_core (pdf_load_finally ld s)) = pv_destroyed (vw_core s)"
    "vw_tasks (pdf_load_finally ld s) = vw_tasks s" "vw_next (pdf_load_finally ld s) = vw_next s"
    "pv_loadPromise (vw_core (pdf_load_finally ld s)) = (if pv_loadPromise (vw_core s) = Some (pl_promise ld) then None else pv_loadPromise (vw_core s))"
    by (simp_all add: pdf_load_finally_def)
  have other: "pv_loadPromise (vw_core s) \<noteq> Some (pl_promise ld)" if "l \<in> set (vw_loads s) - {ld}" "pl_generation l = pv_generation (vw_core s)" for l
    using pdf_load_okD(4) [OF o(4), of l] same_load [OF o(4), of l ld] assms(2) that by auto
  have "distinct (map pl_promise (remove1 ld (vw_loads s)))" using o(4) by (simp add: pdf_load_ok_def distinct_map inj_on_def)
  then have "distinct (map pl_promise (vw_loads (pdf_load_finally ld s)))" by (simp add: pdf_load_finally_def)
  then show "pdf_load_ok (pdf_load_finally ld s)"
    using pdf_load_okD [OF o(4)] other unfolding pdf_load_ok_def set f by auto
  note k = task_okD [OF o(5)]
  show "task_ok (pdf_load_finally ld s)"
  proof (rule task_okI, unfold set f)
    show "\<exists>l\<in>set (vw_loads s) - {ld}. pl_generation l = pv_generation (vw_core s) \<and> pl_stage l = AwaitDocument t"
      if "pv_loadingTask (vw_core s) = Some t" "t \<notin> set (pv_destroyed (vw_core s))" "pv_document (vw_core s) \<noteq> Some t" for t
      using k(3) [OF that(1)] that(2,3) assms(3) by blast
  qed (use k(1,2,4,5,6,7,8) in blast)+
qed (simp_all add: pdf_load_finally_def core_rest_def)

lemma load_error_ok:
  assumes "viewer_ok numPages s" "ld \<in> set (vw_loads s)"
    and "(\<forall>t. pl_stage ld \<noteq> AwaitDocument t) \<or> pl_generation ld \<noteq> pv_generation (vw_core s)"
  shows "viewer_ok numPages (load_error ld s)"
proof -
  have "viewer_ok numPages (on_core (\<lambda>v. v\<lparr>pv_error := load_failure\<rparr>) s)"
  proof (rule loads_only [OF assms(1)])
    have "pdf_load_view (on_core (\<lambda>v. v\<lparr>pv_error := load_failure\<rparr>) s) = pdf_load_view s" by (simp add: pdf_load_view_def)
    then show "pdf_load_ok (on_core (\<lambda>v. v\<lparr>pv_error := load_failure\<rparr>) s)" "task_ok (on_core (\<lambda>v. v\<lparr>pv_error := load_failure\<rparr>) s)"
      using pdf_load_ok_view task_ok_view viewer_okD(4,5) [OF assms(1)] by simp_all
  qed (simp_all add: core_rest_def load_failure_def js_def)
  then show ?thesis unfolding load_error_def by (rule load_finally_ok) (use assms(2,3) in simp_all)
qed

lemma current_unique:
  assumes "pdf_load_ok s" "l \<in> set (vw_loads s)" "ld \<in> set (vw_loads s)"
    and "pl_generation l = pv_generation (vw_core s)" "pl_generation ld = pv_generation (vw_core s)"
  shows "l = ld"
  using pdf_load_okD(4) [OF assms(1,2,4)] pdf_load_okD(4) [OF assms(1,3,5)] same_load [OF assms(1-3)] by simp

text \<open>A load moves on to a stage in which it neither waits for a task or a document nor joins a render.\<close>

lemma pdf_load_ok_stage:
  assumes "pdf_load_ok s" "ld \<in> set (vw_loads s)" "vw_loads t = vw_loads (set_load ld st s)" "vw_next s \<le> vw_next t"
    and "pv_generation (vw_core t) = pv_generation (vw_core s)" "pv_loadPromise (vw_core t) = pv_loadPromise (vw_core s)"
    and "pv_document (vw_core t) = pv_document (vw_core s) \<or> (\<forall>x. st \<noteq> AwaitTask \<and> st \<noteq> AwaitDocument x) \<and> pl_generation ld = pv_generation (vw_core s)"
    and "\<forall>x. st \<noteq> AwaitPage True x" "st = AwaitTask \<or> (\<exists>x. st = AwaitDocument x) \<longrightarrow> pv_document (vw_core s) = None"
  shows "pdf_load_ok t"
proof -
  note d = pdf_load_okD [OF assms(1)]
  have lt: "pl_promise l < vw_next t" if "l \<in> set (vw_loads s)" for l using d(1) [OF that] assms(4) by simp
  have doc: "pv_document (vw_core t) = None" if "l \<in> set (vw_loads s) - {ld}" "pl_generation l = pv_generation (vw_core s)"
      "pl_stage l = AwaitTask \<or> (\<exists>x. pl_stage l = AwaitDocument x)" for l
    using d(5,6) [of l] current_unique [OF assms(1), of l ld] assms(2,7) that by auto
  have "distinct (map pl_promise (vw_loads t))" using assms(1) unfolding assms(3) set_load_fields by (simp add: pdf_load_ok_def)
  then show ?thesis
    unfolding pdf_load_ok_def assms(3,5,6) set_load_set [OF assms(2)]
    using d(2,3,4) lt doc assms(2,7,8,9) by auto
qed

lemma release_ok:
  assumes "viewer_ok numPages s" "ld \<in> set (vw_loads s)" "pl_stage ld = AwaitDocument t"
  shows "viewer_ok numPages (release_load ld t s)"
proof (rule loads_only [OF assms(1)])
  note o = viewer_okD [OF assms(1)]
  note k = task_okD [OF o(5)]
  show "pdf_load_ok (release_load ld t s)"
    by (rule pdf_load_ok_stage [OF o(4) assms(2), where st = Releasing]) (simp_all add: release_load_def set_load_def)
  have f: "pv_destroyed (vw_core (release_load ld t s)) = pv_destroyed (vw_core s) @ [t]" "vw_next (release_load ld t s) = vw_next s"
    "vw_tasks (release_load ld t s) = vw_tasks s" "pv_document (vw_core (release_load ld t s)) = pv_document (vw_core s)"
    "pv_loadingTask (vw_core (release_load ld t s)) = pv_loadingTask (vw_core s)" "pv_generation (vw_core (release_load ld t s)) = pv_generation (vw_core s)"
    "set (vw_loads (release_load ld t s)) = insert (ld\<lparr>pl_stage := Releasing\<rparr>) (set (vw_loads s) - {ld})"
    using set_load_set [of ld "on_core (\<lambda>v. v\<lparr>pv_destroyed := pv_destroyed v @ [t]\<rparr>) s" Releasing] assms(2) by (simp_all add: release_load_def)
  have ne: "x \<noteq> t" if "l \<in> set (vw_loads s) - {ld}" "pl_stage l = AwaitDocument x" for l x using k(7) [of ld l] assms(2,3) that by auto
  have b: "t < vw_next s" "pv_document (vw_core s) \<noteq> Some t" using k(1,5) assms(2,3) by blast+
  have w: "\<exists>l\<in>set (vw_loads s) - {ld}. pl_generation l = pv_generation (vw_core s) \<and> pl_stage l = AwaitDocument x"
    if "pv_loadingTask (vw_core s) = Some x" "x \<notin> set (pv_destroyed (vw_core s))" "pv_document (vw_core s) \<noteq> Some x" "x \<noteq> t" for x
    using k(3) [OF that(1)] that(2-4) assms(3) by auto
  show "task_ok (release_load ld t s)"
  proof (rule task_okI, unfold f)
    show "\<exists>l\<in>insert (ld\<lparr>pl_stage := Releasing\<rparr>) (set (vw_loads s) - {ld}). pl_generation l = pv_generation (vw_core s) \<and> pl_stage l = AwaitDocument x"
      if "pv_loadingTask (vw_core s) = Some x" "x \<notin> set (pv_destroyed (vw_core s) @ [t])" "pv_document (vw_core s) \<noteq> Some x" for x
      using w that by simp
    show "pv_loadingTask (vw_core s) = Some x \<and> x \<notin> set (pv_destroyed (vw_core s) @ [t])"
      if "l \<in> insert (ld\<lparr>pl_stage := Releasing\<rparr>) (set (vw_loads s) - {ld})" "pl_stage l = AwaitDocument x" "pl_generation l = pv_generation (vw_core s)" for l x
      using k(6) [of l x] ne [of l x] that by auto
    show "x \<in> set (vw_tasks s) \<and> pv_document (vw_core s) \<noteq> Some x"
      if "l \<in> insert (ld\<lparr>pl_stage := Releasing\<rparr>) (set (vw_loads s) - {ld})" "pl_stage l = AwaitDocument x" for l x
      using k(5) [of l x] that by auto
  qed (use k(1,2,4,7,8) b in auto)
qed (simp_all add: release_load_def core_rest_def)

lemma no_task_failed:
  assumes "viewer_ok numPages s" "ld \<in> set (vw_loads s)" "pl_stage ld = AwaitTask"
  shows "viewer_ok numPages (load_failed ld None s)"
proof (cases "pl_generation ld = pv_generation (vw_core s)")
  case True
  have doc: "pv_document (vw_core s) = None" using pdf_load_okD(5) [OF viewer_okD(4) [OF assms(1)] assms(2) True assms(3)] .
  have "on_core (pv_document_update (\<lambda>_. None)) s = s" using doc by (cases s; cases "vw_core s") (simp add: on_core_def)
  from arg_cong [OF this, of "load_error ld"] have "load_failed ld None s = load_error ld s" using True doc by (simp add: load_failed_def Let_def)
  then show ?thesis using load_error_ok [OF assms(1,2)] assms(3) by simp
next
  case False
  then show ?thesis using load_finally_ok [OF assms(1,2)] by (simp add: load_failed_def)
qed

lemma document_failed:
  assumes "viewer_ok numPages s" "ld \<in> set (vw_loads s)" "pl_stage ld = AwaitDocument t"
  shows "viewer_ok numPages (load_failed ld (Some t) s)"
proof (cases "pl_generation ld = pv_generation (vw_core s)")
  case False
  then show ?thesis using load_finally_ok [OF assms(1,2)] by (simp add: load_failed_def)
next
  case True
  note o = viewer_okD [OF assms(1)]
  note k = task_okD [OF o(5)]
  have doc: "pv_document (vw_core s) = None" using pdf_load_okD(6) [OF o(4) assms(2) True assms(3)] .
  have lt: "pv_loadingTask (vw_core s) = Some t" "t \<in> set (vw_tasks s)" using k(6) [OF assms(2,3) True] k(5) [OF assms(2,3)] by simp_all
  define u where "u = on_core (\<lambda>v. v\<lparr>pv_document := None, pv_loadingTask := None, pv_destroyed := pv_destroyed v @ [t]\<rparr>) s"
  have "load_failed ld (Some t) s = set_load ld Failing u" using True doc lt by (simp add: load_failed_def u_def on_core_def)
  moreover have "viewer_ok numPages (set_load ld Failing u)"
  proof (rule loads_only [OF assms(1)])
    have set: "set (vw_loads (set_load ld Failing u)) = insert (ld\<lparr>pl_stage := Failing\<rparr>) (set (vw_loads s) - {ld})"
      using set_load_set [of ld u Failing] assms(2) by (simp add: u_def)
    show "pdf_load_ok (set_load ld Failing u)"
      by (rule pdf_load_ok_stage [OF o(4) assms(2), where st = Failing]) (simp_all add: u_def set_load_def doc)
    show "task_ok (set_load ld Failing u)"
    proof (rule task_okI, unfold set)
      show "x \<in> set (vw_tasks (set_load ld Failing u)) \<and> pv_document (vw_core (set_load ld Failing u)) \<noteq> Some x"
        if "l \<in> insert (ld\<lparr>pl_stage := Failing\<rparr>) (set (vw_loads s) - {ld})" "pl_stage l = AwaitDocument x" for l x
        using k(5) [of l x] that by (auto simp: u_def)
      show "pv_loadingTask (vw_core (set_load ld Failing u)) = Some x \<and> x \<notin> set (pv_destroyed (vw_core (set_load ld Failing u)))"
        if "l \<in> insert (ld\<lparr>pl_stage := Failing\<rparr>) (set (vw_loads s) - {ld})" "pl_stage l = AwaitDocument x"
          "pl_generation l = pv_generation (vw_core (set_load ld Failing u))" for l x
        using current_unique [OF o(4) _ assms(2) _ True, of l] that by (auto simp: u_def)
    qed (use k(1,2,7,8) lt in \<open>auto simp: u_def\<close>)
  qed (simp_all add: u_def core_rest_def doc)
  ultimately show ?thesis by simp
qed

lemma load_task_ok:
  assumes "viewer_ok numPages s" "ld \<in> set (vw_loads s)" "pl_stage ld = AwaitTask"
  shows "viewer_ok numPages (load_task ld ok s)"
proof -
  note o = viewer_okD [OF assms(1)]
  note k = task_okD [OF o(5)]
  define n where "n = vw_next s"
  define s1 where "s1 = s\<lparr>vw_tasks := vw_tasks s @ [n], vw_next := Suc n\<rparr>"
  have fresh: "x \<noteq> n" if "x \<in> set (vw_tasks s) \<or> x \<in> set (pv_destroyed (vw_core s)) \<or> pv_document (vw_core s) = Some x \<or> pv_loadingTask (vw_core s) = Some x" for x
    using that k(1,4,8) loading_bound [OF o(5)] by (auto simp: n_def)
  have away: "x \<noteq> n" if "l \<in> set (vw_loads s)" "pl_stage l = AwaitDocument x" for l x using k(5) that fresh by blast
  have released: "viewer_ok numPages (release_load ld n s1)"
  proof (rule loads_only [OF assms(1)])
    have set: "set (vw_loads (release_load ld n s1)) = insert (ld\<lparr>pl_stage := Releasing\<rparr>) (set (vw_loads s) - {ld})"
      using set_load_set [of ld "on_core (\<lambda>v. v\<lparr>pv_destroyed := pv_destroyed v @ [n]\<rparr>) s1" Releasing] assms(2) by (simp add: release_load_def s1_def)
    show "pdf_load_ok (release_load ld n s1)"
      by (rule pdf_load_ok_stage [OF o(4) assms(2), where st = Releasing]) (simp_all add: release_load_def s1_def set_load_def n_def)
    show "task_ok (release_load ld n s1)"
    proof (rule task_okI, unfold set)
      show "\<exists>l\<in>insert (ld\<lparr>pl_stage := Releasing\<rparr>) (set (vw_loads s) - {ld}). pl_generation l = pv_generation (vw_core (release_load ld n s1)) \<and> pl_stage l = AwaitDocument x"
        if "pv_loadingTask (vw_core (release_load ld n s1)) = Some x" "x \<notin> set (pv_destroyed (vw_core (release_load ld n s1)))"
          "pv_document (vw_core (release_load ld n s1)) \<noteq> Some x" for x
        using k(3) [of x] that assms(3) by (auto simp: release_load_def s1_def)
      show "x \<in> set (vw_tasks (release_load ld n s1)) \<and> pv_document (vw_core (release_load ld n s1)) \<noteq> Some x"
        if "l \<in> insert (ld\<lparr>pl_stage := Releasing\<rparr>) (set (vw_loads s) - {ld})" "pl_stage l = AwaitDocument x" for l x
        using k(5) [of l x] that by (auto simp: release_load_def s1_def)
      show "pv_loadingTask (vw_core (release_load ld n s1)) = Some x \<and> x \<notin> set (pv_destroyed (vw_core (release_load ld n s1)))"
        if "l \<in> insert (ld\<lparr>pl_stage := Releasing\<rparr>) (set (vw_loads s) - {ld})" "pl_stage l = AwaitDocument x"
          "pl_generation l = pv_generation (vw_core (release_load ld n s1))" for l x
        using k(6) [of l x] away [of l x] that by (auto simp: release_load_def s1_def)
    qed (use k(1,2,4,7,8) fresh in \<open>auto simp: release_load_def s1_def n_def less_SucI\<close>)
  qed (simp_all add: release_load_def s1_def n_def core_rest_def)
  define u where "u = on_core (\<lambda>v. v\<lparr>pv_loadingTask := Some n\<rparr>) s1"
  have opened: "viewer_ok numPages (set_load ld (AwaitDocument n) u)" if cur: "pl_generation ld = pv_generation (vw_core s)"
  proof (rule loads_only [OF assms(1)])
    have doc: "pv_document (vw_core s) = None" using pdf_load_okD(5) [OF o(4) assms(2) cur assms(3)] .
    have set: "set (vw_loads (set_load ld (AwaitDocument n) u)) = insert (ld\<lparr>pl_stage := AwaitDocument n\<rparr>) (set (vw_loads s) - {ld})"
      using set_load_set [of ld u "AwaitDocument n"] assms(2) by (simp add: u_def s1_def)
    have old: "x \<in> set (pv_destroyed (vw_core s))" if "pv_loadingTask (vw_core s) = Some x" for x
      using k(3) [OF that] doc current_unique [OF o(4) _ assms(2) _ cur] assms(3) by auto
    show "pdf_load_ok (set_load ld (AwaitDocument n) u)"
      by (rule pdf_load_ok_stage [OF o(4) assms(2), where st = "AwaitDocument n"]) (simp_all add: u_def s1_def set_load_def n_def doc)
    show "task_ok (set_load ld (AwaitDocument n) u)"
    proof (rule task_okI, unfold set)
      show "x \<in> set (vw_tasks (set_load ld (AwaitDocument n) u)) \<and> pv_document (vw_core (set_load ld (AwaitDocument n) u)) \<noteq> Some x"
        if "l \<in> insert (ld\<lparr>pl_stage := AwaitDocument n\<rparr>) (set (vw_loads s) - {ld})" "pl_stage l = AwaitDocument x" for l x
        using k(5) [of l x] that doc by (auto simp: u_def s1_def)
      show "pv_loadingTask (vw_core (set_load ld (AwaitDocument n) u)) = Some x \<and> x \<notin> set (pv_destroyed (vw_core (set_load ld (AwaitDocument n) u)))"
        if "l \<in> insert (ld\<lparr>pl_stage := AwaitDocument n\<rparr>) (set (vw_loads s) - {ld})" "pl_stage l = AwaitDocument x"
          "pl_generation l = pv_generation (vw_core (set_load ld (AwaitDocument n) u))" for l x
        using current_unique [OF o(4) _ assms(2) _ cur, of l] that fresh [of n] by (auto simp: u_def s1_def)
      show "l = l'" if "l' \<in> insert (ld\<lparr>pl_stage := AwaitDocument n\<rparr>) (set (vw_loads s) - {ld})"
        "l \<in> insert (ld\<lparr>pl_stage := AwaitDocument n\<rparr>) (set (vw_loads s) - {ld})" "pl_stage l' = AwaitDocument x" "pl_stage l = AwaitDocument x" for l' l x
        using that k(7) [of l' l x] away [of l x] away [of l' x] by auto
    qed (use k(1,2,8) old fresh cur doc in \<open>auto simp: u_def s1_def n_def less_SucI\<close>)
  qed (simp_all add: u_def s1_def n_def core_rest_def)
  show ?thesis
    using no_task_failed [OF assms] released opened
    by (auto simp: load_task_def Let_def n_def [symmetric] s1_def [symmetric] u_def [symmetric]) (simp add: load_stale_def s1_def)
qed

lemma set_load_render: "set_load ld st (renderCurrentPdfPage s) = renderCurrentPdfPage (set_load ld st s)"
  by (simp add: renderCurrentPdfPage_def set_load_def on_core_def start_render_def Let_def split: option.split)

lemma failed_anyway:
  assumes "pv_document (vw_core s) = None" "pl_generation ld = pv_generation (vw_core s)"
  shows "load_failed ld (Some t) (on_core (\<lambda>v. v\<lparr>pv_document := Some t\<rparr>) s) = load_failed ld (Some t) s"
  using assms by (simp add: load_failed_def Let_def) (simp add: on_core_def)

lemma no_document_idle: "render_ok s \<Longrightarrow> pv_document (vw_core s) = None \<Longrightarrow> pv_renderPromise (vw_core s) = None"
  by (cases "pv_renderPromise (vw_core s)") (auto simp: render_ok_def)

lemma document_loaded:
  assumes "viewer_ok numPages s" "ld \<in> set (vw_loads s)" "pl_stage ld = AwaitDocument t"
    and "\<not> load_stale ld s" "1 \<le> visiblePdfPageCount (Some (numPages t))"
  shows "viewer_ok numPages (set_load ld (AwaitPage False t) (renderCurrentPdfPage (on_core (\<lambda>v. v\<lparr>pv_error := []\<rparr>) (on_core (\<lambda>v. v\<lparr>pv_document := Some t\<rparr>) s))))"
    (is "viewer_ok _ (set_load _ _ (renderCurrentPdfPage ?u))")
  unfolding set_load_render
proof (rule viewer_ok_render)
  note o = viewer_okD [OF assms(1)]
  note k = task_okD [OF o(5)]
  have cur: "pl_generation ld = pv_generation (vw_core s)" "vw_connected s" using assms(4) by (simp_all add: load_stale_def)
  have doc: "pv_document (vw_core s) = None" using pdf_load_okD(6) [OF o(4) assms(2) cur(1) assms(3)] .
  define w where "w = set_load ld (AwaitPage False t) ?u"
  have lt: "pv_loadingTask (vw_core s) = Some t" "t \<notin> set (pv_destroyed (vw_core s))" "t \<in> set (vw_tasks s)"
    using k(6) [OF assms(2,3) cur(1)] k(5) [OF assms(2,3)] by simp_all
  have set: "set (vw_loads w) = insert (ld\<lparr>pl_stage := AwaitPage False t\<rparr>) (set (vw_loads s) - {ld})"
    using set_load_set [of ld ?u "AwaitPage False t"] assms(2) by (simp add: w_def)
  have "render_ok w" by (rule render_ok_core [OF o(1)]) (simp_all add: w_def no_document_idle [OF o(1) doc])
  then show "render_ok (set_load ld (AwaitPage False t) ?u)" by (simp add: w_def)
  show "page_ok numPages (set_load ld (AwaitPage False t) ?u)" using o(2) doc cur(2) assms(5) by (simp add: page_ok_def)
  have "pdf_load_ok w"
    by (rule pdf_load_ok_stage [OF o(4) assms(2), where st = "AwaitPage False t"]) (simp_all add: w_def set_load_def cur)
  then show "pdf_load_ok (set_load ld (AwaitPage False t) ?u)" by (simp add: w_def)
  have "task_ok w"
  proof (rule task_okI, unfold set)
    show "x \<in> set (vw_tasks w) \<and> pv_document (vw_core w) \<noteq> Some x"
      if "l \<in> insert (ld\<lparr>pl_stage := AwaitPage False t\<rparr>) (set (vw_loads s) - {ld})" "pl_stage l = AwaitDocument x" for l x
      using k(5) [of l x] k(7) [of ld l x] assms(2,3) that by (auto simp: w_def)
    show "pv_loadingTask (vw_core w) = Some x \<and> x \<notin> set (pv_destroyed (vw_core w))"
      if "l \<in> insert (ld\<lparr>pl_stage := AwaitPage False t\<rparr>) (set (vw_loads s) - {ld})" "pl_stage l = AwaitDocument x"
        "pl_generation l = pv_generation (vw_core w)" for l x
      using current_unique [OF o(4) _ assms(2) _ cur(1), of l] that by (auto simp: w_def)
  qed (use k(1,2,7,8) lt in \<open>auto simp: w_def\<close>)
  then show "task_ok (set_load ld (AwaitPage False t) ?u)" by (simp add: w_def)
qed

lemma load_document_ok:
  assumes "viewer_ok numPages s" "ld \<in> set (vw_loads s)" "pl_stage ld = AwaitDocument t"
  shows "viewer_ok numPages (load_document numPages ld t ok s)"
proof -
  note o = viewer_okD [OF assms(1)]
  have doc: "pv_document (vw_core s) = None" if "\<not> load_stale ld s"
    using pdf_load_okD(6) [OF o(4) assms(2) _ assms(3)] that by (simp add: load_stale_def)
  have idle: "pv_renderPromise (vw_core s) = None" if "\<not> load_stale ld s" using no_document_idle [OF o(1) doc [OF that]] .
  show ?thesis
    using document_failed [OF assms] release_ok [OF assms] document_loaded [OF assms] failed_anyway [OF doc] idle
    by (auto simp: load_document_def Let_def load_stale_def)
qed

lemma load_ended_ok:
  assumes "viewer_ok numPages s" "ld \<in> set (vw_loads s)" "\<And>t. pl_stage ld \<noteq> AwaitDocument t"
  shows "viewer_ok numPages (pdf_load_finally ld s)" "viewer_ok numPages (load_error ld s)"
  using load_finally_ok [OF assms(1,2)] load_error_ok [OF assms(1,2)] assms(3) by blast+

section \<open>The end of a render\<close>

lemma render_okD:
  assumes "render_ok s"
  shows "distinct (map rd_promise (vw_renders s))" "r \<in> set (vw_renders s) \<Longrightarrow> rd_promise r < vw_next s \<and> rd_generation r \<le> pv_renderGeneration (vw_core s)"
    "current_render r s \<Longrightarrow> pv_renderPromise (vw_core s) = Some (rd_promise r)" "current_render r s \<Longrightarrow> rd_promise r \<notin> set (pv_aborted (vw_core s))"
    "current_render r s \<Longrightarrow> pv_document (vw_core s) = Some (rd_document r)"
    "pv_renderPromise (vw_core s) = Some p \<Longrightarrow> \<exists>r. current_render r s \<and> rd_promise r = p"
    "pv_renderController (vw_core s) = pv_renderPromise (vw_core s)" "p \<in> set (pv_aborted (vw_core s)) \<Longrightarrow> p < vw_next s"
  using assms by (auto simp: render_ok_def)

lemma same_render: "render_ok s \<Longrightarrow> r \<in> set (vw_renders s) \<Longrightarrow> r' \<in> set (vw_renders s) \<Longrightarrow> rd_promise r = rd_promise r' \<Longrightarrow> r = r'"
  using render_okD(1) [of s] by (meson distinct_map inj_on_eq_iff)

definition drop_render :: "pdf_render \<Rightarrow> viewer \<Rightarrow> viewer" where
  "drop_render r s = on_core (\<lambda>v. v\<lparr>pv_renderPromise := (if pv_renderPromise v = Some (rd_promise r) then None else pv_renderPromise v),
     pv_renderController := (if pv_renderController v = Some (rd_promise r) then None else pv_renderController v),
     pv_renderTask := None\<rparr>) (s\<lparr>vw_renders := remove1 r (vw_renders s)\<rparr>)"

lemma drop_render_ok:
  assumes "render_ok s" "r \<in> set (vw_renders s)"
  shows "render_ok (drop_render r s)"
    "current_render r' (drop_render r s) \<longleftrightarrow> current_render r' s \<and> r' \<noteq> r"
    "pv_renderPromise (vw_core (drop_render r s)) = (if current_render r s then None else pv_renderPromise (vw_core s))"
proof -
  note d = render_okD [OF assms(1)]
  have "distinct (vw_renders s)" using d(1) by (simp add: distinct_map)
  then have set: "set (vw_renders (drop_render r s)) = set (vw_renders s) - {r}" by (simp add: drop_render_def)
  show cur: "current_render r' (drop_render r s) \<longleftrightarrow> current_render r' s \<and> r' \<noteq> r" for r'
    unfolding current_render_def set by (auto simp: drop_render_def)
  have iff: "pv_renderPromise (vw_core s) = Some (rd_promise r) \<longleftrightarrow> current_render r s"
    using d(3,6) same_render [OF assms(1,2)] by (metis current_render_def)
  then show p: "pv_renderPromise (vw_core (drop_render r s)) = (if current_render r s then None else pv_renderPromise (vw_core s))"
    by (simp add: drop_render_def)
  have one: "\<not> (current_render r s \<and> current_render r' s \<and> r' \<noteq> r)" for r' using d(3) same_render [OF assms(1)] by (metis current_render_def option.inject)
  have "distinct (map rd_promise (vw_renders (drop_render r s)))" using d(1) by (simp add: drop_render_def distinct_map inj_on_def)
  moreover have f: "vw_next (drop_render r s) = vw_next s" "pv_renderGeneration (vw_core (drop_render r s)) = pv_renderGeneration (vw_core s)"
    "pv_aborted (vw_core (drop_render r s)) = pv_aborted (vw_core s)" "pv_document (vw_core (drop_render r s)) = pv_document (vw_core s)"
    by (simp_all add: drop_render_def)
  moreover have "pv_renderController (vw_core (drop_render r s)) = pv_renderPromise (vw_core (drop_render r s))"
    using d(7) by (simp add: drop_render_def)
  moreover have "\<exists>r'. current_render r' s \<and> r' \<noteq> r \<and> rd_promise r' = q" if "(if current_render r s then None else pv_renderPromise (vw_core s)) = Some q" for q
    using that d(6) by (cases "current_render r s") (simp_all, metis)
  ultimately show "render_ok (drop_render r s)"
    unfolding render_ok_def cur p set f using d(2,3,4,5,8) one by (intro conjI ballI allI impI) (simp_all, (metis+)?)
qed

lemma render_finally_ok:
  assumes "render_ok s" "page_ok numPages s" "pdf_load_ok s" "task_ok s" "r \<in> set (vw_renders s)"
    and "\<not> (pv_renderQueued (vw_core s) \<and> pv_document (vw_core s) \<noteq> None \<and> vw_connected s) \<Longrightarrow> want_ok (drop_render r s)"
  shows "viewer_ok numPages (render_finally r s)"
proof -
  define t where "t = drop_render r s"
  have f: "pv_renderQueued (vw_core t) = pv_renderQueued (vw_core s)" "pv_document (vw_core t) = pv_document (vw_core s)" "vw_connected t = vw_connected s"
    by (simp_all add: t_def drop_render_def)
  have e: "render_finally r s = (if pv_renderQueued (vw_core t) \<and> pv_document (vw_core t) \<noteq> None \<and> vw_connected t
      then renderCurrentPdfPage (on_core (\<lambda>v. v\<lparr>pv_renderQueued := False\<rparr>) t) else t)"
    unfolding render_finally_def t_def drop_render_def Let_def ..
  have render: "render_ok t" using drop_render_ok(1) [OF assms(1,5)] by (simp add: t_def)
  have page: "page_ok numPages t" using assms(2) by (simp add: page_ok_def t_def drop_render_def)
  have "pdf_load_view t = pdf_load_view s" "vw_next t = vw_next s" by (simp_all add: pdf_load_view_def t_def drop_render_def)
  then have load: "pdf_load_ok t" "task_ok t" using assms(3,4) pdf_load_ok_view task_ok_view by simp_all
  have "viewer_ok numPages (renderCurrentPdfPage (on_core (\<lambda>v. v\<lparr>pv_renderQueued := False\<rparr>) t))"
  proof (rule viewer_ok_render)
    show "render_ok (on_core (\<lambda>v. v\<lparr>pv_renderQueued := False\<rparr>) t)" by (rule render_ok_core [OF render]) simp_all
    show "page_ok numPages (on_core (\<lambda>v. v\<lparr>pv_renderQueued := False\<rparr>) t)" using page by (simp add: page_ok_def)
    have "pdf_load_view (on_core (\<lambda>v. v\<lparr>pv_renderQueued := False\<rparr>) t) = pdf_load_view t" by (simp add: pdf_load_view_def)
    then show "pdf_load_ok (on_core (\<lambda>v. v\<lparr>pv_renderQueued := False\<rparr>) t)" "task_ok (on_core (\<lambda>v. v\<lparr>pv_renderQueued := False\<rparr>) t)"
      using load pdf_load_ok_view task_ok_view by simp_all
  qed
  then show ?thesis using assms(6) render page load unfolding e f by (auto simp: viewer_ok_def t_def)
qed

lemma render_ended_ok:
  assumes "viewer_ok numPages s" "r \<in> set (vw_renders s)"
  shows "viewer_ok numPages (render_ended numPages r ok s)"
proof -
  note o = viewer_okD [OF assms(1)]
  define t where "t = render_answer numPages r ok s"
  have page: "boundedPage (visiblePdfPageCount (Some (numPages (rd_document r)))) (rd_page r) = pv_page (vw_core s)" if "render_accepts r s"
  proof -
    have "pv_document (vw_core s) = Some (rd_document r)" using render_okD(5) [OF o(1), of r] assms(2) that by (simp add: current_render_def render_accepts_def)
    then show ?thesis using o(2) that bounded_same by (simp add: page_ok_def render_accepts_def)
  qed
  have c: "pv_document (vw_core t) = pv_document (vw_core s)" "pv_page (vw_core t) = pv_page (vw_core s)" "pv_zoom (vw_core t) = pv_zoom (vw_core s)"
    "pv_renderGeneration (vw_core t) = pv_renderGeneration (vw_core s)" "pv_renderPromise (vw_core t) = pv_renderPromise (vw_core s)"
    "pv_renderController (vw_core t) = pv_renderController (vw_core s)" "pv_aborted (vw_core t) = pv_aborted (vw_core s)"
    "pv_renderQueued (vw_core t) = pv_renderQueued (vw_core s)" "vw_renders t = vw_renders s" "vw_next t = vw_next s" "vw_connected t = vw_connected s"
    "vw_canvas t = vw_canvas s" "pdf_load_view t = pdf_load_view s"
    using page by (auto simp: t_def render_answer_def pdf_load_view_def Let_def)
  have render: "render_ok t" by (rule render_ok_core [OF o(1)]) (simp_all add: c)
  have page_t: "page_ok numPages t" using o(2) by (simp add: page_ok_def c)
  have "want_ok (drop_render r t)" if q: "\<not> (pv_renderQueued (vw_core t) \<and> pv_document (vw_core t) \<noteq> None \<and> vw_connected t)"
  proof (cases "current_render r s")
    case True
    have none: "\<not> current_render r' (drop_render r t)" for r'
      using drop_render_ok(2) [OF render, of r r'] assms(2) True render_okD(3) [OF o(1)] same_render [OF o(1)]
      by (auto simp: c current_render_def) (metis current_render_def option.inject)
    have "vw_connected s" "pv_document (vw_core s) \<noteq> None" using render_okD(5) [OF o(1) True] o(2) by (auto simp: page_ok_def)
    then have nq: "\<not> pv_renderQueued (vw_core s)" using q by (simp add: c)
    have d: "pv_error (vw_core (drop_render r t)) = pv_error (vw_core t)" "vw_canvas (drop_render r t) = vw_canvas t"
      "shows_request (drop_render r t) = shows_request t" by (simp_all add: drop_render_def shows_request_def)
    have "pv_error (vw_core t) \<noteq> [] \<or> vw_canvas t = None \<or> shows_request t"
    proof (cases ok)
      case False
      then show ?thesis using True render_okD(4) [OF o(1) True] by (simp add: t_def render_answer_def current_render_def render_failure_def js_def)
    next
      case ok: True
      have "pv_error (vw_core s) \<noteq> [] \<or> up_to_date r s" using o(3) True nq by (auto simp: want_ok_def)
      then consider "render_accepts r s" | "\<not> render_accepts r s" "pv_error (vw_core s) \<noteq> [] \<or> vw_canvas s = None"
        using True \<open>vw_connected s\<close> by (auto simp: render_accepts_def up_to_date_def current_render_def)
      then show ?thesis
      proof cases
        case 1
        then show ?thesis using ok page [OF 1] by (simp add: t_def render_answer_def shows_request_def render_accepts_def Let_def)
      next
        case 2
        then show ?thesis using ok by (simp add: t_def render_answer_def)
      qed
    qed
    then show ?thesis unfolding want_ok_def d using none by blast
  next
    case False
    then have "t = s" using assms(2) by (simp add: t_def render_answer_def render_accepts_def current_render_def)
    have d: "pv_error (vw_core (drop_render r s)) = pv_error (vw_core s)" "pv_renderQueued (vw_core (drop_render r s)) = pv_renderQueued (vw_core s)"
      "pv_document (vw_core (drop_render r s)) = pv_document (vw_core s)" "vw_canvas (drop_render r s) = vw_canvas s"
      "shows_request (drop_render r s) = shows_request s" "up_to_date r' (drop_render r s) = up_to_date r' s" for r'
      by (simp_all add: drop_render_def shows_request_def up_to_date_def)
    have p: "pv_renderPromise (vw_core (drop_render r s)) = pv_renderPromise (vw_core s)" using drop_render_ok(3) [OF o(1) assms(2)] False by simp
    show ?thesis
      unfolding \<open>t = s\<close> using o(3) drop_render_ok(2) [OF o(1) assms(2)] unfolding want_ok_def d p by blast
  qed
  then have "viewer_ok numPages (render_finally r t)"
    using assms(2) o(4,5) pdf_load_ok_view [OF c(13)] task_ok_view [OF c(13)] by (intro render_finally_ok render page_t) (simp_all add: c)
  then show ?thesis by (simp add: render_ended_def t_def)
qed

lemma render_task_ok: "viewer_ok numPages s \<Longrightarrow> viewer_ok numPages (render_task r n s)"
proof -
  assume ok: "viewer_ok numPages s"
  note o = viewer_okD [OF ok]
  have "viewer_ok numPages (on_core (\<lambda>v. v\<lparr>pv_renderTask := Some n\<rparr>) s)"
  proof (rule loads_only [OF ok])
    have "pdf_load_view (on_core (\<lambda>v. v\<lparr>pv_renderTask := Some n\<rparr>) s) = pdf_load_view s" by (simp add: pdf_load_view_def)
    then show "pdf_load_ok (on_core (\<lambda>v. v\<lparr>pv_renderTask := Some n\<rparr>) s)" "task_ok (on_core (\<lambda>v. v\<lparr>pv_renderTask := Some n\<rparr>) s)"
      using o(4,5) pdf_load_ok_view task_ok_view by simp_all
  qed (simp_all add: core_rest_def)
  then show ?thesis using ok by (simp add: render_task_def)
qed

section \<open>Every step keeps the invariant\<close>

lemma viewer_ok_initial: "viewer_ok numPages initial_pdf"
  by (simp add: viewer_ok_def render_ok_def current_render_def page_ok_def want_ok_def pdf_load_ok_def task_ok_def initial_pdf_def initial_viewer_def
      PDF_PREVIEW_MIN_SCALE_def PDF_PREVIEW_MAX_SCALE_def)

lemma viewer_ok_step: "pdf_step numPages s t \<Longrightarrow> viewer_ok numPages s \<Longrightarrow> viewer_ok numPages t"
proof (induction rule: pdf_step.induct)
  case (page_rejected ld s t)
  then show ?case using pdf_load_okD(3) [OF viewer_okD(4)] by blast
next
  case (kept s a)
  then show ?case by (intro ensure_ok disjI1) (simp_all add: viewer_ok_def)
qed (simp_all add: show_ok without_ok retry_ok set_page_ok set_zoom_ok load_task_ok load_document_ok load_ended_ok render_ended_ok render_task_ok
    clear_ok attach_viewer_ok)

interpretation pdf: inductive_invariant "\<lambda>s. s = initial_pdf" "pdf_step numPages" "pdf_reachable numPages" "viewer_ok numPages" for numPages
proof unfold_locales
  show "s = initial_pdf \<Longrightarrow> pdf_reachable numPages s" for s by (simp add: pdf_starts)
  show "pdf_reachable numPages s \<Longrightarrow> pdf_step numPages s t \<Longrightarrow> pdf_reachable numPages t" for s t by (rule pdf_moves)
  show "pdf_reachable numPages s \<Longrightarrow> (\<And>s. s = initial_pdf \<Longrightarrow> P s) \<Longrightarrow>
      (\<And>s t. pdf_reachable numPages s \<Longrightarrow> P s \<Longrightarrow> pdf_step numPages s t \<Longrightarrow> P t) \<Longrightarrow> P s" for s P
    by (induction rule: pdf_reachable.induct) blast+
  show "s = initial_pdf \<Longrightarrow> viewer_ok numPages s" for s by (simp add: viewer_ok_initial)
  show "pdf_reachable numPages s \<Longrightarrow> viewer_ok numPages s \<Longrightarrow> pdf_step numPages s t \<Longrightarrow> viewer_ok numPages t" for s t
    by (rule viewer_ok_step)
qed

section \<open>A sample run\<close>

text \<open>
  The file \<open>a\<close> is shown and its document fails; while the failed document is released the user
  shows the file \<open>b\<close>, whose first page is rendered.
\<close>

definition pages3 :: "nat \<Rightarrow> jsval" where
  "pages3 _ = jint 3"

definition pdf1 :: viewer where
  "pdf1 = renderPdfPreview (js ''a'') (initial_pdf\<lparr>vw_connected := True\<rparr>)"

definition pdf2 :: viewer where
  "pdf2 = load_task (vw_loads pdf1 ! 0) True pdf1"

definition pdf3 :: viewer where
  "pdf3 = load_document pages3 (vw_loads pdf2 ! 0) 2 False pdf2"

definition pdf4 :: viewer where
  "pdf4 = renderPdfPreview (js ''b'') pdf3"

definition pdf5 :: viewer where
  "pdf5 = load_task (vw_loads pdf4 ! 1) True pdf4"

definition pdf6 :: viewer where
  "pdf6 = load_document pages3 (vw_loads pdf5 ! 1) 5 True pdf5"

definition pdf7 :: viewer where
  "pdf7 = render_ended pages3 (vw_renders pdf6 ! 0) True pdf6"

lemma pdf_sample:
  "pl_stage (vw_loads pdf1 ! 0) = AwaitTask" "length (vw_loads pdf1) = 1" "pl_stage (vw_loads pdf2 ! 0) = AwaitDocument 2" "length (vw_loads pdf2) = 1"
  "pl_stage (vw_loads pdf4 ! 1) = AwaitTask" "length (vw_loads pdf4) = 2" "pl_stage (vw_loads pdf5 ! 1) = AwaitDocument 5" "length (vw_loads pdf5) = 2"
  "length (vw_renders pdf6) = 1" "pl_stage (vw_loads pdf7 ! 0) = Failing" "length (vw_loads pdf7) = 2" "pl_generation (vw_loads pdf7 ! 0) = 1"
  "pv_generation (vw_core pdf7) = 2" "pv_document (vw_core pdf7) = Some 5" "pv_error (vw_core pdf7) = []" "vw_canvas pdf7 = Some 3"
  "vw_accepted pdf7 = Some (1, 1)" "vw_visible pdf7" "vw_tasks pdf7 = [2, 5]" "pv_destroyed (vw_core pdf7) = [2]" "pv_renderPromise (vw_core pdf7) = None"
  "pv_renderGeneration (vw_core pdf7) = 3" "vw_renders pdf7 = []"
  by code_simp+

lemma pdf7_reachable: "pdf_reachable pages3 pdf7"
proof -
  have "pdf_reachable pages3 pdf1" unfolding pdf1_def by (intro pdf_moves [OF _ shown] pdf_moves [OF pdf_starts attached_viewer])
  then have "pdf_reachable pages3 pdf2" unfolding pdf2_def by (rule pdf_moves [OF _ task_reply]) (simp_all add: pdf_sample)
  then have "pdf_reachable pages3 pdf3" unfolding pdf3_def by (rule pdf_moves [OF _ document_reply]) (simp_all add: pdf_sample)
  then have "pdf_reachable pages3 pdf4" unfolding pdf4_def by (rule pdf_moves [OF _ shown])
  moreover have "vw_loads pdf4 ! 1 \<in> set (vw_loads pdf4)" "vw_loads pdf5 ! 1 \<in> set (vw_loads pdf5)" by (rule nth_mem, simp add: pdf_sample)+
  ultimately have "pdf_reachable pages3 pdf6"
    unfolding pdf6_def pdf5_def using pdf_sample(5,7) by (intro pdf_moves [OF _ document_reply] pdf_moves [OF _ task_reply]) (simp_all only: pdf5_def)
  then show ?thesis unfolding pdf7_def by (rule pdf_moves [OF _ drawn]) (simp add: pdf_sample)
qed

section \<open>Properties\<close>

text \<open>
  C34: However loads, renders, page turns, zooms and rebuilt shells interleave, the viewer of an
  open document without an error is on a page of the document and at an admitted zoom, and
  either its canvas shows that page at that zoom, or exactly one render of the current
  generation is under way, which renders this page at this zoom on this canvas or has a
  successor queued that will.
\<close>

theorem pdf_viewer_shows_request:
  assumes "pdf_reachable numPages s" "pv_document (vw_core s) \<noteq> None" "vw_canvas s \<noteq> None" "pv_error (vw_core s) = []"
  shows "1 \<le> pv_page (vw_core s) \<and> pv_page (vw_core s) \<le> pages_of numPages s
    \<and> PDF_PREVIEW_MIN_SCALE \<le> pv_zoom (vw_core s) \<and> pv_zoom (vw_core s) \<le> PDF_PREVIEW_MAX_SCALE
    \<and> (pv_renderPromise (vw_core s) = None \<and> shows_request s
       \<or> (\<exists>r. current_render r s \<and> (\<forall>r'. current_render r' s \<longrightarrow> r' = r) \<and> pv_renderPromise (vw_core s) = Some (rd_promise r)
           \<and> (pv_renderQueued (vw_core s) \<or> rd_page r = pv_page (vw_core s) \<and> \<bar>rd_zoom r - pv_zoom (vw_core s)\<bar> < 1 / 1000 \<and> vw_canvas s = Some (rd_canvas r))))"
proof -
  note o = viewer_okD [OF pdf.holds [OF assms(1)]]
  have w: "\<And>r. current_render r s \<Longrightarrow> pv_renderQueued (vw_core s) \<or> up_to_date r s" "pv_renderPromise (vw_core s) \<noteq> None \<or> shows_request s"
    using o(3) assms(2-4) by (auto simp: want_ok_def)
  have "\<exists>r. current_render r s \<and> (\<forall>r'. current_render r' s \<longrightarrow> r' = r) \<and> pv_renderPromise (vw_core s) = Some (rd_promise r)
      \<and> (pv_renderQueued (vw_core s) \<or> rd_page r = pv_page (vw_core s) \<and> \<bar>rd_zoom r - pv_zoom (vw_core s)\<bar> < 1 / 1000 \<and> vw_canvas s = Some (rd_canvas r))"
    if pr: "pv_renderPromise (vw_core s) = Some p" for p
  proof -
    obtain r where r: "current_render r s" "rd_promise r = p" using render_okD(6) [OF o(1) pr] by blast
    have one: "\<forall>r'. current_render r' s \<longrightarrow> r' = r"
    proof (intro allI impI)
      fix r'
      assume r': "current_render r' s"
      have "rd_promise r' = rd_promise r" using render_okD(3) [OF o(1) r'] render_okD(3) [OF o(1) r(1)] by simp
      then show "r' = r" using same_render [OF o(1)] r(1) r' by (simp add: current_render_def)
    qed
    have q: "pv_renderQueued (vw_core s) \<or> rd_page r = pv_page (vw_core s) \<and> \<bar>rd_zoom r - pv_zoom (vw_core s)\<bar> < 1 / 1000 \<and> vw_canvas s = Some (rd_canvas r)"
      using w(1) [OF r(1)] assms(3) by (auto simp: up_to_date_def)
    have "pv_renderPromise (vw_core s) = Some (rd_promise r)" using pr r(2) by simp
    then show ?thesis using r(1) one q by (intro exI [of _ r] conjI)
  qed
  moreover have "1 \<le> pv_page (vw_core s) \<and> pv_page (vw_core s) \<le> pages_of numPages s
      \<and> PDF_PREVIEW_MIN_SCALE \<le> pv_zoom (vw_core s) \<and> pv_zoom (vw_core s) \<le> PDF_PREVIEW_MAX_SCALE"
    using o(2) assms(2) by (simp add: page_ok_def)
  ultimately show ?thesis using w(2) by (cases "pv_renderPromise (vw_core s)") blast+
qed

theorem pdf_viewer_shows_request_witness:
  "pv_renderPromise (vw_core pdf7) = None \<and> shows_request pdf7 \<and> pv_page (vw_core pdf7) \<le> pages_of pages3 pdf7"
proof -
  have "\<not> current_render r pdf7" for r by (simp add: current_render_def pdf_sample)
  then show ?thesis using pdf_viewer_shows_request [OF pdf7_reachable] pdf_sample(14,15,16) by auto
qed

text \<open>
  C35: No document is leaked and none is destroyed while it is in use: every document that was
  ever opened has been destroyed or is the one the viewer holds, an open document has not been
  destroyed, and after \<open>_disposePdfPreview\<close> all of them have been.
\<close>

theorem pdf_documents_released:
  assumes "pdf_reachable numPages s"
  shows "(\<forall>t\<in>set (vw_tasks s). t \<in> set (pv_destroyed (vw_core s)) \<or> pv_loadingTask (vw_core s) = Some t)
    \<and> (\<forall>d. pv_document (vw_core s) = Some d \<longrightarrow> d \<notin> set (pv_destroyed (vw_core s)))
    \<and> set (vw_tasks s) \<subseteq> set (pv_destroyed (disposePdfPreview (vw_core s)))"
proof -
  note o = viewer_okD [OF pdf.holds [OF assms]]
  note k = task_okD [OF o(5)]
  have "set (pv_destroyed (disposePdfPreview (vw_core s))) = set (pv_destroyed (vw_core s)) \<union> set_option (pv_loadingTask (vw_core s))"
    using disposed_lists(2) [OF o(1,5), of None True] by (simp add: disposed_def)
  then show ?thesis using k(2,4) by auto
qed

theorem pdf_documents_released_witness:
  "2 \<in> set (vw_tasks pdf7) \<and> 2 \<in> set (pv_destroyed (vw_core pdf7)) \<and> 5 \<notin> set (pv_destroyed (vw_core pdf7))
   \<and> 5 \<in> set (pv_destroyed (disposePdfPreview (vw_core pdf7)))"
  using pdf_documents_released [OF pdf7_reachable] pdf_sample(14,19,20) by auto

text \<open>
  C36: The canvas of a rendered page has at most \<open>PDF_PREVIEW_MAX_CANVAS_PIXELS\<close> pixels, whatever the
  size of the page, the width to fill, the zoom and the resolution of the screen, unless it is
  a single pixel wide or high.
\<close>

theorem canvas_pixels_bounded:
  assumes "is_root sqrt_of" "page_geometry sqrt_of ratio getViewport available zoom = Some g"
  shows "1 \<le> gm_width g \<and> 1 \<le> gm_height g
    \<and> (gm_width g * gm_height g \<le> PDF_PREVIEW_MAX_CANVAS_PIXELS \<or> gm_width g = 1 \<or> gm_height g = 1)"
proof -
  obtain w h where v: "getViewport (page_scale getViewport available zoom) = (Fin w, Fin h)" "1 \<le> w" "1 \<le> h"
    and g: "gm_width g = max 1 \<lfloor>w * output_scale sqrt_of ratio w h\<rfloor>" "gm_height g = max 1 \<lfloor>h * output_scale sqrt_of ratio w h\<rfloor>"
    using assms(2) by (auto simp: page_geometry_def Let_def not_less split: prod.splits jsnum.splits if_splits)
  have "gm_width g * gm_height g \<le> PDF_PREVIEW_MAX_CANVAS_PIXELS" if "gm_width g \<noteq> 1" "gm_height g \<noteq> 1"
    using area_of_sides [OF assms(1) v(2,3) refl] that unfolding g by blast
  moreover have "1 \<le> gm_width g" "1 \<le> gm_height g" unfolding g by simp_all
  ultimately show ?thesis by blast
qed

text \<open>The exception is real: a page one unit wide and very long gives a canvas of ten times the limit.\<close>

definition thin_viewport :: "jsnum \<Rightarrow> jsnum \<times> jsnum" where
  "thin_viewport scale = (times_num scale 1, times_num scale 1200000000)"

definition thin_root :: "rat \<Rightarrow> rat" where
  "thin_root x = (if x = 1 / 900 then 1 / 30 else 0)"

lemma thin_page_geometry:
  "page_geometry thin_root 1 thin_viewport 760 1
   = Some \<lparr>gm_width = 1, gm_height = 120000000, gm_styleWidth = 3, gm_styleHeight = 3600000000\<rparr>"
  by code_simp

theorem canvas_pixels_bounded_witness:
  "\<exists>g. page_geometry thin_root 1 thin_viewport 760 1 = Some g \<and> gm_height g > PDF_PREVIEW_MAX_CANVAS_PIXELS
     \<and> (gm_width g * gm_height g \<le> PDF_PREVIEW_MAX_CANVAS_PIXELS \<or> gm_width g = 1 \<or> gm_height g = 1)"
proof -
  have "is_root thin_root" by (simp add: is_root_def thin_root_def power2_eq_square)
  from canvas_pixels_bounded [OF this thin_page_geometry] show ?thesis
    using thin_page_geometry by (simp add: PDF_PREVIEW_MAX_CANVAS_PIXELS_def)
qed

text \<open>
  C37: A failure of an earlier file is reported on the file that is shown. When the document of
  a file has failed and is released while the user opens another file, the end of that release
  sets the error of the viewer although the generation has changed: the other file is open and
  rendered, and its viewer shows the message and the retry button, and showing it again does not
  clear them.
\<close>

theorem late_pdf_failure:
  assumes "pdf_reachable numPages s" "ld \<in> set (vw_loads s)" "pl_stage ld = Failing" "pl_generation ld \<noteq> pv_generation (vw_core s)"
    and "pv_document (vw_core s) = Some d" "pv_error (vw_core s) = []"
  shows "pv_error (vw_core (load_error ld s)) = load_failure \<and> pv_document (vw_core (load_error ld s)) = Some d
    \<and> vw_visible (load_error ld s) = vw_visible s \<and> vw_accepted (load_error ld s) = vw_accepted s
    \<and> \<not> pc_retryHidden (syncPdfPreviewControls numPages (load_error ld s))
    \<and> ensurePdfPreview aid (load_error ld s) = load_error ld s"
proof -
  have e: "pv_error (vw_core (load_error ld s)) = load_failure" "load_failure \<noteq> []"
    by (simp_all add: load_error_def pdf_load_finally_def load_failure_def js_def)
  show ?thesis using e assms(5) by (simp add: ensurePdfPreview_def syncPdfPreviewControls_def Let_def) (simp add: load_error_def pdf_load_finally_def)
qed

theorem late_pdf_failure_witness:
  "pv_error (vw_core (load_error (vw_loads pdf7 ! 0) pdf7)) = load_failure \<and> pv_document (vw_core (load_error (vw_loads pdf7 ! 0) pdf7)) = Some 5
   \<and> vw_visible (load_error (vw_loads pdf7 ! 0) pdf7) = vw_visible pdf7"
  using late_pdf_failure [OF pdf7_reachable, of "vw_loads pdf7 ! 0" 5] pdf_sample(10-15) by simp

end
