(* ===== verification/Spec2Isabelle.thy ===== *)
theory Spec2Isabelle
  imports EventStream UploadDelivery SafeDom RunActivity UserInput StatusViews InfoCenter DesktopActions ArtifactRefresh LiveEvents Interactions Prompts AccountStatus PdfViewer
begin

text \<open>
  Verification of the browser panel of the Home Assistant Codex Bridge (\<open>frontend/src\<close>).

  The program. Codex Bridge runs the Codex coding agent in a Home Assistant app and shows its
  chats in a panel. The panel is one custom element (\<open>codex-bridge-panel.js\<close>) over a set of
  modules: the event protocol and the event stream that merges replayed and live events
  (\<open>protocol.js\<close>, \<open>event-stream.js\<close>), the resumable upload of attachments with its incremental
  SHA-256 (\<open>uploads.js\<close>), the projection of a run's events to what the user sees of it
  (\<open>run-activity.js\<close>), the security helpers for untrusted text, names and URLs
  (\<open>safe-dom.js\<close>), the cards of \<open>views/\<close>, the information centre (\<open>info-center.js\<close>) and the
  desktop surfaces (\<open>desktop-features.js\<close>). It talks to the Python service only through
  \<open>fetch\<close> and the WebSocket commands of Home Assistant.

  The model. JavaScript values, strings (UTF-16 code units), numbers (finite doubles are
  rationals) and objects are in JsValue; async code is either a state transformer over a world
  with exceptions (JsIO), or, where several calls of the same method can be under way, cut at
  its awaits into steps that any other operation may interleave. The service, the network,
  timers, clocks, the URL parser and number formatting are parameters; what is assumed of them
  is a hypothesis of the property or a premise of a step.

  Theories, with the code they model and what is shown.
  \<^item> Prelude, Transitions, JsValue, JsIO, Dom: fact collections; the contracts of a sanitiser
    (projection), of a parser (partial projection) and of a component given by its steps
    (reachability, inductive invariant, simulation); the language; the DOM as a tree.
  \<^item> Protocol (\<open>protocol.js\<close>): parsing and normalising a delivery; sorted, unique, bounded,
    independent of the order of delivery, idempotent.
  \<^item> EventStream (\<open>event-stream.js\<close>): cursor, retained events, snapshot flag; an invariant of all
    reachable states, at-most-once acceptance, resumption with overlap, the snapshot boundary.
  \<^item> Sha256 (class \<open>IncrementalSha256\<close>): refined to FIPS 180-4 over 32-bit words, for every
    division of the message; the constants of the reference are computed from the roots of the
    first primes, so the tables of the code are checked too.
  \<^item> Uploads (\<open>uploads.js\<close>): arguments, URLs, sessions, requests, reconciliation and the loop;
    exact validation, bounded traffic, safe paths and URLs, the hash of the file.
  \<^item> UploadService, UploadServer, UploadDelivery (\<open>uploads.js\<close> with \<open>routes/uploads.py\<close> and the upload sessions
    of \<open>storage.py\<close>): the contract of the service as a locale, discharged for the model of its
    handlers behind a network that loses, refuses and aborts; the upload always returns, its
    success means that the service has the file, and with nothing lost it succeeds.
  \<^item> SafeDom (\<open>safe-dom.js\<close>): sanitisers, URL and attribute filters, preview classification.
  \<^item> RunActivity (\<open>run-activity.js\<close>): the whole projection; well-formed for any input, isolation of
    other runs inside the window of 2000 events, authority of the idle snapshot, the failure messages.
  \<^item> Approval, UserInput, StatusViews (\<open>views/\<close>): which decisions are enabled, unique element
    ids, the round trip from a rendered form to the collected answers, the account operations.
  \<^item> InfoCenter (\<open>info-center.js\<close>): every title, summary, label and value is bounded printable
    text, and byte units.
  \<^item> DesktopFeatures, DesktopForms (\<open>desktop-features.js\<close> and the form methods of the panel): the
    views; re-rendering keeps edits, an unchanged edit form saves what is stored, drafts of the
    two scopes stay apart.
  \<^item> Redaction, PanelErrors (\<open>normalizeDesktopError\<close>, \<open>_safeUiError\<close> and the error banner): no address, drive
    path or private directory in a message; whose errors a banner keeps.
  \<^item> DesktopLoading, DesktopActions (\<open>_loadDesktopDestination\<close>, \<open>_handleDesktopAction\<close>): loading is shown
    exactly while the newest request is open, the shown instructions are those of the active
    project; a request that removes something follows a confirmation and is the request of the
    last click on that surface, traced over any history of the surfaces.
  \<^item> PreviewPolicy, ArtifactPreview, ArtifactRefresh (the artifact methods of the panel): the bounded
    read ends and is exact; the preview belongs to the selection and leaks no object URL; the
    retry is bounded and settles; the refresh component simulates the preview component.
  \<^item> PdfViewer (\<open>pdf-preview.js\<close>, \<open>_renderPdfPreview\<close> to \<open>_retryPdfPreview\<close>), over ArtifactPreview: an open
    document is shown on the page and at the zoom that were asked for, or is being rendered so;
    no document leaks; the canvas is bounded; a failure that is reported on another file.
  \<^item> LiveEvents (\<open>_refreshActiveThread\<close>, \<open>_startPolling\<close> to \<open>_stopPolling\<close>, \<open>_startEventSubscription\<close> to
    \<open>_scheduleLiveRefresh\<close> and the operations that change the selected chat), over EventStream and
    PanelErrors: the poll loop neither stalls nor doubles, one subscription at most is open, the
    transcript holds no event of another chat, background work keeps the user's errors.
  \<^item> JsonText, Interactions (\<open>_submitInteractionResponse\<close> to \<open>_clearInteractionExpiryTimer\<close>), over the cards:
    listed interactions are well typed, a response is repeated only as the same request (the
    text of the answers determines them), an offered decision is sent, and what happens to a
    response whose request has gone.
  \<^item> Prompts (\<open>_sendPrompt\<close> to \<open>_setDraftForThread\<close> and the composer), over Interactions: a prompt that
    has arrived is never sent again; two ways in which the composer loses or repeats text.
  \<^item> AccountStatus (\<open>_startAuthLogin\<close> to \<open>_retryAppConnection\<close>, \<open>_startSystemEventSubscription\<close> to
    \<open>_scheduleSystemRefresh\<close>, \<open>_bootstrap\<close>), over StatusViews and LiveEvents: the sign-in poll is alive and
    single, the sign-in never goes back to an older revision and keeps no code that is not in
    use, one subscription to system events at most is open.

  Bounds and fuel. Loops over lists are structural recursion or have a measure. Two loops may
  run for ever and are \<open>partial_function\<close>s in option: the bounded read, proved to return for every
  body without empty chunks, and the upload loop, proved to return against the model of the
  service under every schedule of faults. Chunk
  sizes, event limits, text limits and delays are the constants of the source.

  Not modelled: pdf.js (third party, a parameter of the viewer), the management of chats and
  projects, the upload queue and the downloads of the panel, its HTML and CSS and the \<open>_render\<close> methods (presentation without state), the rendering of the
  information centre, the generated bundles under \<open>custom_components\<close>, and the Python service
  (apart from its upload sessions) and integration, which the panel reaches only through the
  parameters above.
\<close>

end
